(* ===== verification/Prelude.thy ===== *)
theory Prelude
  imports Main "HOL-Library.AList"
begin

text \<open>
  The base of the development: Go's machine integers, association lists used as
  executable maps, and the fact collections that the component theories extend.

  Go's \<open>int64\<close> and \<open>int\<close> are both 64-bit two's complement on the supported
  platforms. A value is an \<open>int\<close> here, and every addition, subtraction or
  multiplication of data-derived values is wrapped by \<open>i64\<close>, as the hardware does.
  Counters that the code increments once per record are left unwrapped: they cannot
  exceed the number of records held in memory.
\<close>

section \<open>Machine integers\<close>

definition i64 :: "int \<Rightarrow> int" where
  "i64 x = (x + 2 ^ 63) mod 2 ^ 64 - 2 ^ 63"

definition in64 :: "int \<Rightarrow> bool" where
  "in64 x \<longleftrightarrow> - (2 ^ 63) \<le> x \<and> x < 2 ^ 63"

lemma i64_id: "in64 x \<Longrightarrow> i64 x = x"
  by (simp add: i64_def in64_def)

lemma in64_i64 [simp]: "in64 (i64 x)"
proof -
  have "0 \<le> (x + 2 ^ 63) mod 2 ^ 64" "(x + 2 ^ 63) mod 2 ^ 64 < (2 ^ 64 :: int)"
    by simp_all
  then show ?thesis by (simp add: i64_def in64_def)
qed

lemma i64_idem [simp]: "i64 (i64 x) = i64 x"
  by (simp add: i64_id)

lemma i64_add [simp]: "i64 (i64 a + b) = i64 (a + b)" "i64 (a + i64 b) = i64 (a + b)"
  by (simp_all add: i64_def mod_simps algebra_simps)

lemma i64_nonneg_bounded: "0 \<le> x \<Longrightarrow> x < 2 ^ 63 \<Longrightarrow> i64 x = x"
  by (simp add: i64_id in64_def)

lemma in64_between: "in64 a \<Longrightarrow> in64 b \<Longrightarrow> a \<le> x \<Longrightarrow> x \<le> b \<Longrightarrow> in64 x"
  by (simp add: in64_def)

text \<open>Go's integer division truncates towards zero; the divisor is never zero where it is used.\<close>

definition go_div :: "int \<Rightarrow> int \<Rightarrow> int" where
  "go_div a b = sgn a * sgn b * (\<bar>a\<bar> div \<bar>b\<bar>)"

lemma go_div_nonneg: "0 \<le> a \<Longrightarrow> 0 < b \<Longrightarrow> go_div a b = a div b"
  by (cases "a = 0") (auto simp: go_div_def)

section \<open>Fact collections\<close>

named_theorems ok_simps \<open>when a checking step leaves a report without errors\<close>
named_theorems frame_simps \<open>fields a step leaves alone\<close>

section \<open>Association lists as maps\<close>

lemma map_of_update [simp]: "map_of (AList.update k v al) = (map_of al)(k \<mapsto> v)"
  by (simp add: update_conv')

lemma map_of_delete [simp]: "map_of (AList.delete k al) = (map_of al)(k := None)"
  by (simp add: delete_conv')

lemma dom_map_of_alist: "dom (map_of al) = fst ` set al"
  by (rule dom_map_of_conv_image_fst)

lemma distinct_keys_update: "distinct (map fst al) \<Longrightarrow> distinct (map fst (AList.update k v al))"
  by (rule distinct_update)

lemma length_alist_card: "distinct (map fst al) \<Longrightarrow> length al = card (dom (map_of al))"
  by (metis card_image dom_map_of_alist distinct_card distinct_map length_map list.set_map)

section \<open>Lists\<close>

lemma sorted_snoc_iff:
  fixes xs :: "int list"
  shows "sorted (xs @ [x]) \<longleftrightarrow> sorted xs \<and> (\<forall>y \<in> set xs. y \<le> x)"
  by (simp add: sorted_append)

lemma nth_snoc: "(xs @ [x]) ! i = (if i < length xs then xs ! i else if i = length xs then x else (xs @ [x]) ! i)"
  by (simp add: nth_append)

end
