(* ===== verification/Trace_Types.thy ===== *)
theory Trace_Types
  imports Prelude
begin

text \<open>
  The trace intermediate representation of \<open>pkg/trace/types.go\<close>: op kinds, open modes,
  target table, header and op record, with the version and byte-count accessors.

  Go's string enumerations become datatypes with one constructor per named constant and
  an \<open>Other\<close> constructor for any other string, the empty string (Go's absent value)
  included. Optional JSON fields (Go pointers) become \<open>option\<close> values.
\<close>

section \<open>Versions\<close>

definition TraceFormatVersion :: int where "TraceFormatVersion = 1"
definition TraceFormatVersionMax :: int where "TraceFormatVersionMax = 3"
definition VersionPartialTransfer :: int where "VersionPartialTransfer = 2"
definition VersionTransformed :: int where "VersionTransformed = 3"

definition TimeUnitNanoseconds :: string where "TimeUnitNanoseconds = ''ns''"

lemmas version_defs = TraceFormatVersion_def TraceFormatVersionMax_def
  VersionPartialTransfer_def VersionTransformed_def

section \<open>Enumerations\<close>

datatype trace_kind = TraceCaptured | TraceImported | TraceSynthetic | TraceKindOther string

fun trace_kind_valid :: "trace_kind \<Rightarrow> bool" where
  "trace_kind_valid (TraceKindOther _) = False"
| "trace_kind_valid _ = True"

text \<open>A capture method stays a string, since its \<open>import:\<close> form carries a free suffix.\<close>

type_synonym capture_method = string

definition CapturePythonHooks :: capture_method where "CapturePythonHooks = ''python-io-hooks''"
definition CaptureEBPFSyscall :: capture_method where "CaptureEBPFSyscall = ''ebpf-syscall''"
definition CaptureMmapAware :: capture_method where "CaptureMmapAware = ''mmap-aware''"
definition CaptureSynthetic :: capture_method where "CaptureSynthetic = ''synthetic''"
definition ImportPrefix :: string where "ImportPrefix = ''import:''"

definition hasPrefix :: "string \<Rightarrow> string \<Rightarrow> bool" where
  "hasPrefix s p \<longleftrightarrow> take (length p) s = p"

lemma hasPrefix_append [simp]: "hasPrefix (p @ s) p"
  by (simp add: hasPrefix_def)

lemma hasPrefix_iff: "hasPrefix s p \<longleftrightarrow> (\<exists>r. s = p @ r)"
  by (metis append_take_drop_id hasPrefix_append hasPrefix_def)

lemma hasPrefix_Nil [simp]: "hasPrefix s []"
  by (simp add: hasPrefix_def)

definition capture_isImport :: "capture_method \<Rightarrow> bool" where
  "capture_isImport m \<longleftrightarrow> hasPrefix m ImportPrefix \<and> length m > length ImportPrefix"

definition capture_valid :: "capture_method \<Rightarrow> bool" where
  "capture_valid m =
     (if m = CapturePythonHooks \<or> m = CaptureEBPFSyscall \<or> m = CaptureMmapAware \<or> m = CaptureSynthetic
      then True
      else if hasPrefix m ImportPrefix \<and> length m > length ImportPrefix then True
      else False)"

datatype mode = ModeRead | ModeWrite | ModeReadWrite | ModeOther string

abbreviation ModeAbsent :: mode where "ModeAbsent \<equiv> ModeOther []"

fun mode_valid :: "mode \<Rightarrow> bool" where
  "mode_valid (ModeOther _) = False"
| "mode_valid _ = True"

datatype op_kind =
    OpOpen | OpClose | OpRead | OpWrite | OpStat | OpFsync
  | OpPut | OpGet | OpHead | OpDelete | OpOther string

fun op_kind_valid :: "op_kind \<Rightarrow> bool" where
  "op_kind_valid (OpOther _) = False"
| "op_kind_valid _ = True"

fun isObjectOp :: "op_kind \<Rightarrow> bool" where
  "isObjectOp OpPut = True"
| "isObjectOp OpGet = True"
| "isObjectOp OpHead = True"
| "isObjectOp OpDelete = True"
| "isObjectOp _ = False"

fun isHandleOp :: "op_kind \<Rightarrow> bool" where
  "isHandleOp OpRead = True"
| "isHandleOp OpWrite = True"
| "isHandleOp OpFsync = True"
| "isHandleOp OpClose = True"
| "isHandleOp _ = False"

datatype target_kind = TargetFile | TargetObject | TargetKindOther string

fun target_kind_valid :: "target_kind \<Rightarrow> bool" where
  "target_kind_valid (TargetKindOther _) = False"
| "target_kind_valid _ = True"

section \<open>Records\<close>

record target_info =
  ti_id :: int
  ti_name :: string
  ti_kind :: target_kind
  ti_size :: int

record summary =
  sum_num_ops :: int
  sum_num_streams :: int
  sum_num_groups :: int
  sum_total_bytes :: int
  sum_duration_ns :: int
  sum_num_partial_reads :: int

text \<open>\<open>Params\<close> is Go's string map in key order, the order in which it is serialised.\<close>

record transformation =
  tr_kind :: string
  tr_params :: "(string \<times> string) list"
  tr_source_digest :: string
  tr_applied_utc :: string
  tr_note :: string

record header =
  hdr_version :: int
  hdr_kind :: trace_kind
  hdr_profile :: string
  hdr_generated_by :: string
  hdr_created_utc :: string
  hdr_time_unit :: string
  hdr_capture_method :: capture_method
  hdr_capture_limitations :: string
  hdr_scrubbed :: bool
  hdr_targets :: "target_info list"
  hdr_summary :: summary
  hdr_notes :: string
  hdr_transformations :: "transformation list"

record op =
  op_t :: int
  op_id :: "int option"
  op_s :: int
  op_op :: op_kind
  op_group :: "int option"
  op_tgt :: "int option"
  op_h :: "int option"
  op_mode :: mode
  op_flags :: "string list"
  op_off :: "int option"
  op_len :: "int option"
  op_ret :: "int option"
  op_dur :: "int option"

text \<open>Go's zero values.\<close>

definition zero_op :: op where
  "zero_op = \<lparr>op_t = 0, op_id = None, op_s = 0, op_op = OpOther [], op_group = None,
     op_tgt = None, op_h = None, op_mode = ModeAbsent, op_flags = [], op_off = None,
     op_len = None, op_ret = None, op_dur = None\<rparr>"

definition zero_summary :: summary where
  "zero_summary = \<lparr>sum_num_ops = 0, sum_num_streams = 0, sum_num_groups = 0,
     sum_total_bytes = 0, sum_duration_ns = 0, sum_num_partial_reads = 0\<rparr>"

definition zero_header :: header where
  "zero_header = \<lparr>hdr_version = 0, hdr_kind = TraceKindOther [], hdr_profile = [],
     hdr_generated_by = [], hdr_created_utc = [], hdr_time_unit = [],
     hdr_capture_method = [], hdr_capture_limitations = [], hdr_scrubbed = False,
     hdr_targets = [], hdr_summary = zero_summary, hdr_notes = [],
     hdr_transformations = []\<rparr>"

section \<open>Accessors\<close>

definition minVersionForHeader :: "header \<Rightarrow> int" where
  "minVersionForHeader h =
     (if length (hdr_transformations h) > 0 then VersionTransformed else TraceFormatVersion)"

definition isTransformed :: "header \<Rightarrow> bool" where
  "isTransformed h \<longleftrightarrow> length (hdr_transformations h) > 0"

fun anySourceDigest :: "transformation list \<Rightarrow> string \<Rightarrow> bool" where
  "anySourceDigest [] d = False"
| "anySourceDigest (t # ts) d = (if tr_source_digest t = d then True else anySourceDigest ts d)"

definition derivedFrom :: "header \<Rightarrow> string \<Rightarrow> bool" where
  "derivedFrom h d = (if d = [] then False else anySourceDigest (hdr_transformations h) d)"

definition minVersion :: "op \<Rightarrow> int" where
  "minVersion x = (if op_ret x \<noteq> None then VersionPartialTransfer else TraceFormatVersion)"

fun minVersionLoop :: "int \<Rightarrow> op list \<Rightarrow> int" where
  "minVersionLoop v [] = v"
| "minVersionLoop v (x # xs) =
     minVersionLoop (if minVersion x > v then minVersion x else v) xs"

definition minVersionForOps :: "op list \<Rightarrow> int" where
  "minVersionForOps ops = minVersionLoop TraceFormatVersion ops"

definition isPartialTransfer :: "op \<Rightarrow> bool" where
  "isPartialTransfer x \<longleftrightarrow> op_ret x \<noteq> None"

text \<open>The two-result accessors \<open>(n, ok)\<close> become \<open>option\<close> values.\<close>

definition requestedBytes :: "op \<Rightarrow> int option" where
  "requestedBytes x = op_len x"

definition transferredBytes :: "op \<Rightarrow> int option" where
  "transferredBytes x = (case op_ret x of Some r \<Rightarrow> Some r | None \<Rightarrow> requestedBytes x)"

section \<open>Lemmas\<close>

lemma minVersionLoop_partial:
  "minVersionLoop v ops =
     (if (\<exists>x \<in> set ops. isPartialTransfer x) then max v VersionPartialTransfer
      else if ops = [] then v else max v TraceFormatVersion)"
  by (induction ops arbitrary: v)
    (auto simp: minVersion_def isPartialTransfer_def version_defs max_def split: if_splits)

lemma minVersionForOps_eq:
  "minVersionForOps ops = (if (\<exists>x \<in> set ops. isPartialTransfer x) then 2 else 1)"
  by (simp add: minVersionForOps_def minVersionLoop_partial version_defs)

lemma derivedFrom_iff:
  "derivedFrom h d \<longleftrightarrow> d \<noteq> [] \<and> (\<exists>t \<in> set (hdr_transformations h). tr_source_digest t = d)"
proof -
  have "anySourceDigest ts d \<longleftrightarrow> (\<exists>t \<in> set ts. tr_source_digest t = d)" for ts
    by (induction ts) auto
  then show ?thesis by (simp add: derivedFrom_def)
qed

lemma transferredBytes_full [simp]: "op_ret x = None \<Longrightarrow> transferredBytes x = op_len x"
  by (simp add: transferredBytes_def requestedBytes_def)

lemma transferredBytes_short [simp]: "op_ret x = Some r \<Longrightarrow> transferredBytes x = Some r"
  by (simp add: transferredBytes_def)

end
