(* ===== verification/Trace_Jsonl.thy ===== *)
theory Trace_Jsonl
  imports Trace_Types
begin

text \<open>
  The JSONL codec of \<open>pkg/trace/jsonl.go\<close> together with the struct tags of
  \<open>pkg/trace/types.go\<close> that drive it.

  A line of the file is a JSON value, a blank line, a malformed line or a line the
  scanner rejects. Decoding follows \<open>encoding/json\<close>: fields are applied in the order
  they occur, keys are matched without regard to ASCII case, unknown keys are ignored,
  \<open>null\<close> leaves a plain field alone and clears a pointer or slice, and an integer
  outside 64 bits, or a value of another type, is an error of the whole record.
\<close>

section \<open>JSON values\<close>

datatype json =
    JNull
  | JBool bool
  | JInt int
  | JNumLit string
  | JStr string
  | JArr "json list"
  | JObj "(string \<times> json) list"

text \<open>\<open>JNumLit\<close> is any number literal that is not a plain integer, such as \<open>1.5\<close> or \<open>1e3\<close>.\<close>

definition ascii_lower :: "char \<Rightarrow> char" where
  "ascii_lower c =
     (let n = of_char c :: nat in if 65 \<le> n \<and> n \<le> 90 then char_of (n + 32) else c)"

definition fold_key :: "string \<Rightarrow> string" where
  "fold_key s = map ascii_lower s"

fun dec_int :: "int \<Rightarrow> json \<Rightarrow> int option" where
  "dec_int cur JNull = Some cur"
| "dec_int cur (JInt n) = (if in64 n then Some n else None)"
| "dec_int cur _ = None"

fun dec_ptr :: "json \<Rightarrow> int option option" where
  "dec_ptr JNull = Some None"
| "dec_ptr (JInt n) = (if in64 n then Some (Some n) else None)"
| "dec_ptr _ = None"

fun dec_str :: "string \<Rightarrow> json \<Rightarrow> string option" where
  "dec_str cur JNull = Some cur"
| "dec_str cur (JStr s) = Some s"
| "dec_str cur _ = None"

fun dec_bool :: "bool \<Rightarrow> json \<Rightarrow> bool option" where
  "dec_bool cur JNull = Some cur"
| "dec_bool cur (JBool b) = Some b"
| "dec_bool cur _ = None"

fun dec_all :: "(json \<Rightarrow> 'a option) \<Rightarrow> json list \<Rightarrow> 'a list option" where
  "dec_all f [] = Some []"
| "dec_all f (j # js) =
     (case f j of None \<Rightarrow> None | Some x \<Rightarrow> map_option (\<lambda>xs. x # xs) (dec_all f js))"

fun dec_slice :: "(json \<Rightarrow> 'a option) \<Rightarrow> json \<Rightarrow> 'a list option" where
  "dec_slice f JNull = Some []"
| "dec_slice f (JArr js) = dec_all f js"
| "dec_slice f _ = None"

fun dec_fields :: "(string \<Rightarrow> json \<Rightarrow> 'a \<Rightarrow> 'a option) \<Rightarrow> (string \<times> json) list \<Rightarrow> 'a \<Rightarrow> 'a option" where
  "dec_fields f [] x = Some x"
| "dec_fields f ((k, j) # rest) x =
     (case f (fold_key k) j x of None \<Rightarrow> None | Some x' \<Rightarrow> dec_fields f rest x')"

fun dec_struct :: "(string \<Rightarrow> json \<Rightarrow> 'a \<Rightarrow> 'a option) \<Rightarrow> 'a \<Rightarrow> json \<Rightarrow> 'a option" where
  "dec_struct f cur JNull = Some cur"
| "dec_struct f cur (JObj fs) = dec_fields f fs cur"
| "dec_struct f cur _ = None"

section \<open>String forms of the enumerations\<close>

fun op_kind_string :: "op_kind \<Rightarrow> string" where
  "op_kind_string OpOpen = ''OPEN''"
| "op_kind_string OpClose = ''CLOSE''"
| "op_kind_string OpRead = ''READ''"
| "op_kind_string OpWrite = ''WRITE''"
| "op_kind_string OpStat = ''STAT''"
| "op_kind_string OpFsync = ''FSYNC''"
| "op_kind_string OpPut = ''PUT''"
| "op_kind_string OpGet = ''GET''"
| "op_kind_string OpHead = ''HEAD''"
| "op_kind_string OpDelete = ''DELETE''"
| "op_kind_string (OpOther s) = s"

definition op_kind_of :: "string \<Rightarrow> op_kind" where
  "op_kind_of s =
     (if s = ''OPEN'' then OpOpen else if s = ''CLOSE'' then OpClose
      else if s = ''READ'' then OpRead else if s = ''WRITE'' then OpWrite
      else if s = ''STAT'' then OpStat else if s = ''FSYNC'' then OpFsync
      else if s = ''PUT'' then OpPut else if s = ''GET'' then OpGet
      else if s = ''HEAD'' then OpHead else if s = ''DELETE'' then OpDelete
      else OpOther s)"

fun mode_string :: "mode \<Rightarrow> string" where
  "mode_string ModeRead = ''r''"
| "mode_string ModeWrite = ''w''"
| "mode_string ModeReadWrite = ''rw''"
| "mode_string (ModeOther s) = s"

definition mode_of :: "string \<Rightarrow> mode" where
  "mode_of s =
     (if s = ''r'' then ModeRead else if s = ''w'' then ModeWrite
      else if s = ''rw'' then ModeReadWrite else ModeOther s)"

fun trace_kind_string :: "trace_kind \<Rightarrow> string" where
  "trace_kind_string TraceCaptured = ''captured''"
| "trace_kind_string TraceImported = ''imported''"
| "trace_kind_string TraceSynthetic = ''synthetic''"
| "trace_kind_string (TraceKindOther s) = s"

definition trace_kind_of :: "string \<Rightarrow> trace_kind" where
  "trace_kind_of s =
     (if s = ''captured'' then TraceCaptured else if s = ''imported'' then TraceImported
      else if s = ''synthetic'' then TraceSynthetic else TraceKindOther s)"

fun target_kind_string :: "target_kind \<Rightarrow> string" where
  "target_kind_string TargetFile = ''file''"
| "target_kind_string TargetObject = ''object''"
| "target_kind_string (TargetKindOther s) = s"

definition target_kind_of :: "string \<Rightarrow> target_kind" where
  "target_kind_of s =
     (if s = ''file'' then TargetFile else if s = ''object'' then TargetObject
      else TargetKindOther s)"

lemma op_kind_string_of [simp]: "op_kind_string (op_kind_of s) = s"
  by (simp add: op_kind_of_def)

lemma op_kind_of_string: "op_kind_valid k \<Longrightarrow> op_kind_of (op_kind_string k) = k"
  by (cases k) (simp_all add: op_kind_of_def)


section \<open>Op records\<close>

definition omit_none :: "string \<Rightarrow> int option \<Rightarrow> (string \<times> json) list" where
  "omit_none k v = (case v of None \<Rightarrow> [] | Some n \<Rightarrow> [(k, JInt n)])"

definition omit_empty :: "string \<Rightarrow> string \<Rightarrow> (string \<times> json) list" where
  "omit_empty k s = (if s = [] then [] else [(k, JStr s)])"

definition omit_nil :: "string \<Rightarrow> json list \<Rightarrow> (string \<times> json) list" where
  "omit_nil k js = (if js = [] then [] else [(k, JArr js)])"

definition encode_op :: "op \<Rightarrow> json" where
  "encode_op x = JObj
     ([(''t'', JInt (op_t x))]
      @ omit_none ''op_id'' (op_id x)
      @ [(''s'', JInt (op_s x)), (''op'', JStr (op_kind_string (op_op x)))]
      @ omit_none ''group'' (op_group x)
      @ omit_none ''tgt'' (op_tgt x)
      @ omit_none ''h'' (op_h x)
      @ omit_empty ''mode'' (mode_string (op_mode x))
      @ omit_nil ''flags'' (map JStr (op_flags x))
      @ omit_none ''off'' (op_off x)
      @ omit_none ''len'' (op_len x)
      @ omit_none ''ret'' (op_ret x)
      @ omit_none ''dur'' (op_dur x))"

definition dec_op_field :: "string \<Rightarrow> json \<Rightarrow> op \<Rightarrow> op option" where
  "dec_op_field k j x =
     (if k = ''t'' then map_option (\<lambda>v. x\<lparr>op_t := v\<rparr>) (dec_int (op_t x) j)
      else if k = ''op_id'' then map_option (\<lambda>v. x\<lparr>op_id := v\<rparr>) (dec_ptr j)
      else if k = ''s'' then map_option (\<lambda>v. x\<lparr>op_s := v\<rparr>) (dec_int (op_s x) j)
      else if k = ''op'' then
        map_option (\<lambda>v. x\<lparr>op_op := op_kind_of v\<rparr>) (dec_str (op_kind_string (op_op x)) j)
      else if k = ''group'' then map_option (\<lambda>v. x\<lparr>op_group := v\<rparr>) (dec_ptr j)
      else if k = ''tgt'' then map_option (\<lambda>v. x\<lparr>op_tgt := v\<rparr>) (dec_ptr j)
      else if k = ''h'' then map_option (\<lambda>v. x\<lparr>op_h := v\<rparr>) (dec_ptr j)
      else if k = ''mode'' then
        map_option (\<lambda>v. x\<lparr>op_mode := mode_of v\<rparr>) (dec_str (mode_string (op_mode x)) j)
      else if k = ''flags'' then map_option (\<lambda>v. x\<lparr>op_flags := v\<rparr>) (dec_slice (dec_str []) j)
      else if k = ''off'' then map_option (\<lambda>v. x\<lparr>op_off := v\<rparr>) (dec_ptr j)
      else if k = ''len'' then map_option (\<lambda>v. x\<lparr>op_len := v\<rparr>) (dec_ptr j)
      else if k = ''ret'' then map_option (\<lambda>v. x\<lparr>op_ret := v\<rparr>) (dec_ptr j)
      else if k = ''dur'' then map_option (\<lambda>v. x\<lparr>op_dur := v\<rparr>) (dec_ptr j)
      else Some x)"

definition decode_op :: "json \<Rightarrow> op option" where
  "decode_op j = dec_struct dec_op_field zero_op j"

section \<open>Header records\<close>

definition encode_target :: "target_info \<Rightarrow> json" where
  "encode_target t = JObj
     [(''id'', JInt (ti_id t)), (''name'', JStr (ti_name t)),
      (''kind'', JStr (target_kind_string (ti_kind t))), (''size'', JInt (ti_size t))]"

definition dec_target_field :: "string \<Rightarrow> json \<Rightarrow> target_info \<Rightarrow> target_info option" where
  "dec_target_field k j x =
     (if k = ''id'' then map_option (\<lambda>v. x\<lparr>ti_id := v\<rparr>) (dec_int (ti_id x) j)
      else if k = ''name'' then map_option (\<lambda>v. x\<lparr>ti_name := v\<rparr>) (dec_str (ti_name x) j)
      else if k = ''kind'' then
        map_option (\<lambda>v. x\<lparr>ti_kind := target_kind_of v\<rparr>) (dec_str (target_kind_string (ti_kind x)) j)
      else if k = ''size'' then map_option (\<lambda>v. x\<lparr>ti_size := v\<rparr>) (dec_int (ti_size x) j)
      else Some x)"

definition zero_target :: target_info where
  "zero_target = \<lparr>ti_id = 0, ti_name = [], ti_kind = TargetKindOther [], ti_size = 0\<rparr>"

definition omit_zero :: "string \<Rightarrow> int \<Rightarrow> (string \<times> json) list" where
  "omit_zero k n = (if n = 0 then [] else [(k, JInt n)])"

definition encode_summary :: "summary \<Rightarrow> json" where
  "encode_summary s = JObj
     ([(''num_ops'', JInt (sum_num_ops s)), (''num_streams'', JInt (sum_num_streams s)),
       (''num_groups'', JInt (sum_num_groups s)), (''total_bytes'', JInt (sum_total_bytes s)),
       (''duration_ns'', JInt (sum_duration_ns s))]
      @ omit_zero ''num_partial_reads'' (sum_num_partial_reads s))"

definition dec_summary_field :: "string \<Rightarrow> json \<Rightarrow> summary \<Rightarrow> summary option" where
  "dec_summary_field k j x =
     (if k = ''num_ops'' then map_option (\<lambda>v. x\<lparr>sum_num_ops := v\<rparr>) (dec_int (sum_num_ops x) j)
      else if k = ''num_streams'' then
        map_option (\<lambda>v. x\<lparr>sum_num_streams := v\<rparr>) (dec_int (sum_num_streams x) j)
      else if k = ''num_groups'' then
        map_option (\<lambda>v. x\<lparr>sum_num_groups := v\<rparr>) (dec_int (sum_num_groups x) j)
      else if k = ''total_bytes'' then
        map_option (\<lambda>v. x\<lparr>sum_total_bytes := v\<rparr>) (dec_int (sum_total_bytes x) j)
      else if k = ''duration_ns'' then
        map_option (\<lambda>v. x\<lparr>sum_duration_ns := v\<rparr>) (dec_int (sum_duration_ns x) j)
      else if k = ''num_partial_reads'' then
        map_option (\<lambda>v. x\<lparr>sum_num_partial_reads := v\<rparr>) (dec_int (sum_num_partial_reads x) j)
      else Some x)"

definition encode_transformation :: "transformation \<Rightarrow> json" where
  "encode_transformation t = JObj
     ([(''kind'', JStr (tr_kind t))]
      @ (if tr_params t = [] then []
         else [(''params'', JObj (map (\<lambda>(k, v). (k, JStr v)) (tr_params t)))])
      @ omit_empty ''source_digest'' (tr_source_digest t)
      @ omit_empty ''applied_utc'' (tr_applied_utc t)
      @ omit_empty ''note'' (tr_note t))"

text \<open>A Go map decodes entry by entry with exact keys; \<open>null\<close> clears it.\<close>

fun dec_string_map :: "(string \<times> string) list \<Rightarrow> json \<Rightarrow> (string \<times> string) list option" where
  "dec_string_map cur JNull = Some []"
| "dec_string_map cur (JObj []) = Some cur"
| "dec_string_map cur (JObj ((k, j) # rest)) =
     (case dec_str [] j of None \<Rightarrow> None
      | Some v \<Rightarrow> dec_string_map (AList.update k v cur) (JObj rest))"
| "dec_string_map cur _ = None"

definition dec_transformation_field :: "string \<Rightarrow> json \<Rightarrow> transformation \<Rightarrow> transformation option" where
  "dec_transformation_field k j x =
     (if k = ''kind'' then map_option (\<lambda>v. x\<lparr>tr_kind := v\<rparr>) (dec_str (tr_kind x) j)
      else if k = ''params'' then
        map_option (\<lambda>v. x\<lparr>tr_params := v\<rparr>) (dec_string_map (tr_params x) j)
      else if k = ''source_digest'' then
        map_option (\<lambda>v. x\<lparr>tr_source_digest := v\<rparr>) (dec_str (tr_source_digest x) j)
      else if k = ''applied_utc'' then
        map_option (\<lambda>v. x\<lparr>tr_applied_utc := v\<rparr>) (dec_str (tr_applied_utc x) j)
      else if k = ''note'' then map_option (\<lambda>v. x\<lparr>tr_note := v\<rparr>) (dec_str (tr_note x) j)
      else Some x)"

definition zero_transformation :: transformation where
  "zero_transformation =
     \<lparr>tr_kind = [], tr_params = [], tr_source_digest = [], tr_applied_utc = [], tr_note = []\<rparr>"

definition encode_header :: "header \<Rightarrow> json" where
  "encode_header h = JObj
     ([(''ioflux_trace_version'', JInt (hdr_version h)),
       (''kind'', JStr (trace_kind_string (hdr_kind h)))]
      @ omit_empty ''profile'' (hdr_profile h)
      @ omit_empty ''generated_by'' (hdr_generated_by h)
      @ omit_empty ''created_utc'' (hdr_created_utc h)
      @ [(''time_unit'', JStr (hdr_time_unit h))]
      @ omit_empty ''capture_method'' (hdr_capture_method h)
      @ omit_empty ''capture_limitations'' (hdr_capture_limitations h)
      @ [(''scrubbed'', JBool (hdr_scrubbed h)),
         (''targets'', JArr (map encode_target (hdr_targets h))),
         (''summary'', encode_summary (hdr_summary h))]
      @ omit_empty ''notes'' (hdr_notes h)
      @ omit_nil ''transformations'' (map encode_transformation (hdr_transformations h)))"

definition dec_header_field :: "string \<Rightarrow> json \<Rightarrow> header \<Rightarrow> header option" where
  "dec_header_field k j x =
     (if k = ''ioflux_trace_version'' then
        map_option (\<lambda>v. x\<lparr>hdr_version := v\<rparr>) (dec_int (hdr_version x) j)
      else if k = ''kind'' then
        map_option (\<lambda>v. x\<lparr>hdr_kind := trace_kind_of v\<rparr>) (dec_str (trace_kind_string (hdr_kind x)) j)
      else if k = ''profile'' then
        map_option (\<lambda>v. x\<lparr>hdr_profile := v\<rparr>) (dec_str (hdr_profile x) j)
      else if k = ''generated_by'' then
        map_option (\<lambda>v. x\<lparr>hdr_generated_by := v\<rparr>) (dec_str (hdr_generated_by x) j)
      else if k = ''created_utc'' then
        map_option (\<lambda>v. x\<lparr>hdr_created_utc := v\<rparr>) (dec_str (hdr_created_utc x) j)
      else if k = ''time_unit'' then
        map_option (\<lambda>v. x\<lparr>hdr_time_unit := v\<rparr>) (dec_str (hdr_time_unit x) j)
      else if k = ''capture_method'' then
        map_option (\<lambda>v. x\<lparr>hdr_capture_method := v\<rparr>) (dec_str (hdr_capture_method x) j)
      else if k = ''capture_limitations'' then
        map_option (\<lambda>v. x\<lparr>hdr_capture_limitations := v\<rparr>) (dec_str (hdr_capture_limitations x) j)
      else if k = ''scrubbed'' then
        map_option (\<lambda>v. x\<lparr>hdr_scrubbed := v\<rparr>) (dec_bool (hdr_scrubbed x) j)
      else if k = ''targets'' then
        map_option (\<lambda>v. x\<lparr>hdr_targets := v\<rparr>) (dec_slice (dec_struct dec_target_field zero_target) j)
      else if k = ''summary'' then
        map_option (\<lambda>v. x\<lparr>hdr_summary := v\<rparr>) (dec_struct dec_summary_field (hdr_summary x) j)
      else if k = ''notes'' then map_option (\<lambda>v. x\<lparr>hdr_notes := v\<rparr>) (dec_str (hdr_notes x) j)
      else if k = ''transformations'' then
        map_option (\<lambda>v. x\<lparr>hdr_transformations := v\<rparr>)
          (dec_slice (dec_struct dec_transformation_field zero_transformation) j)
      else Some x)"

definition decode_header :: "json \<Rightarrow> header option" where
  "decode_header j = dec_struct dec_header_field zero_header j"

section \<open>Reader\<close>

datatype raw_line = LBlank | LJson json | LMalformed | LScanErr

datatype trace_err =
    EmptyInput | ReadHeader | ParseHeader | ReadOp int | ParseOp int
  | ErrHeaderAlreadyWritten | ErrHeaderNotWritten | WriteHeaderErr | WriteOpErr

text \<open>\<open>LScanErr\<close> is a line longer than \<open>MaxLineBytes\<close> or a failing underlying reader.\<close>

record reader =
  rd_lines :: "raw_line list"
  rd_hdr :: header
  rd_headerRaw :: json
  rd_line :: int

fun newReader :: "raw_line list \<Rightarrow> trace_err + reader" where
  "newReader [] = Inl EmptyInput"
| "newReader (LScanErr # _) = Inl ReadHeader"
| "newReader (LJson j # rest) =
     (case decode_header j of
        None \<Rightarrow> Inl ParseHeader
      | Some h \<Rightarrow> Inr \<lparr>rd_lines = rest, rd_hdr = h, rd_headerRaw = j, rd_line = 1\<rparr>)"
| "newReader (_ # _) = Inl ParseHeader"

datatype 'a next_result = EOF | NextErr trace_err | Got 'a

fun scanNext :: "raw_line list \<Rightarrow> int \<Rightarrow> op next_result \<times> raw_line list \<times> int" where
  "scanNext [] line = (EOF, [], line)"
| "scanNext (LScanErr # rest) line = (NextErr (ReadOp line), [], line)"
| "scanNext (LBlank # rest) line = scanNext rest (line + 1)"
| "scanNext (LMalformed # rest) line = (NextErr (ParseOp (line + 1)), rest, line + 1)"
| "scanNext (LJson j # rest) line =
     (case decode_op j of
        None \<Rightarrow> (NextErr (ParseOp (line + 1)), rest, line + 1)
      | Some x \<Rightarrow> (Got x, rest, line + 1))"

definition next_op :: "reader \<Rightarrow> op next_result \<times> reader" where
  "next_op r =
     (let (res, rest, line) = scanNext (rd_lines r) (rd_line r)
      in (res, r\<lparr>rd_lines := rest, rd_line := line\<rparr>))"

section \<open>Writer\<close>

text \<open>
  The sink of the writer: \<open>wr_accepts n\<close> says whether the underlying writer accepts the
  \<open>n\<close>-th line (a \<open>bytes.Buffer\<close> always does).
\<close>

record trace_writer =
  wr_out :: "raw_line list"
  wr_wroteHeader :: bool
  wr_accepts :: "nat \<Rightarrow> bool"

definition newWriter :: "(nat \<Rightarrow> bool) \<Rightarrow> trace_writer" where
  "newWriter acc = \<lparr>wr_out = [], wr_wroteHeader = False, wr_accepts = acc\<rparr>"

definition writeHeader :: "trace_writer \<Rightarrow> header \<Rightarrow> trace_err + trace_writer" where
  "writeHeader w h =
     (if wr_wroteHeader w then Inl ErrHeaderAlreadyWritten
      else if \<not> wr_accepts w (length (wr_out w)) then Inl WriteHeaderErr
      else Inr (w\<lparr>wr_out := wr_out w @ [LJson (encode_header h)], wr_wroteHeader := True\<rparr>))"

definition writeOp :: "trace_writer \<Rightarrow> op \<Rightarrow> trace_err + trace_writer" where
  "writeOp w x =
     (if \<not> wr_wroteHeader w then Inl ErrHeaderNotWritten
      else if \<not> wr_accepts w (length (wr_out w)) then Inl WriteOpErr
      else Inr (w\<lparr>wr_out := wr_out w @ [LJson (encode_op x)]\<rparr>))"

fun writeOps :: "trace_writer \<Rightarrow> op list \<Rightarrow> trace_err + trace_writer" where
  "writeOps w [] = Inr w"
| "writeOps w (x # xs) =
     (case writeOp w x of Inl e \<Rightarrow> Inl e | Inr w' \<Rightarrow> writeOps w' xs)"

section \<open>The codec contract\<close>

text \<open>
  What the rest of the development needs from an encoder and a decoder: decoding an
  encoded well-formed value gives it back. Slices inherit the contract elementwise.
\<close>

locale codec =
  fixes enc :: "'a \<Rightarrow> json" and dec :: "json \<Rightarrow> 'a option" and wf :: "'a \<Rightarrow> bool"
  assumes dec_enc: "wf x \<Longrightarrow> dec (enc x) = Some x"
begin

lemma dec_all_enc: "(\<And>x. x \<in> set xs \<Longrightarrow> wf x) \<Longrightarrow> dec_all dec (map enc xs) = Some xs"
  by (induction xs) (auto simp: dec_enc)

lemma dec_slice_enc: "(\<And>x. x \<in> set xs \<Longrightarrow> wf x) \<Longrightarrow> dec_slice dec (JArr (map enc xs)) = Some xs"
  by (simp add: dec_all_enc)

lemma enc_inj: "wf x \<Longrightarrow> wf y \<Longrightarrow> enc x = enc y \<Longrightarrow> x = y"
  by (metis dec_enc option.inject)

end

interpretation str_codec: codec JStr "dec_str []" "\<lambda>_. True"
  by unfold_locales simp

section \<open>Field steps\<close>

definition in64_opt :: "int option \<Rightarrow> bool" where
  "in64_opt v = (case v of None \<Rightarrow> True | Some n \<Rightarrow> in64 n)"

lemma in64_opt_simps [simp]: "in64_opt None" "in64_opt (Some n) \<longleftrightarrow> in64 n"
  by (simp_all add: in64_opt_def)

text \<open>
  Decoding a field that the encoder wrote, or left out because it holds the zero value
  the decoder starts from, has the same effect: the field holds the encoded value.
\<close>

lemma dec_omit_none:
  assumes "fold_key k = k" and "v = None \<Longrightarrow> y = x"
    and "\<And>n. v = Some n \<Longrightarrow> f k (JInt n) x = Some y"
  shows "dec_fields f (omit_none k v @ rest) x = dec_fields f rest y"
  using assms by (cases v) (simp_all add: omit_none_def)

lemma dec_omit_empty:
  assumes "fold_key k = k" and "s = [] \<Longrightarrow> y = x"
    and "s \<noteq> [] \<Longrightarrow> f k (JStr s) x = Some y"
  shows "dec_fields f (omit_empty k s @ rest) x = dec_fields f rest y"
  using assms by (simp add: omit_empty_def)

lemma dec_opt_fields:
  "op_id x = None \<Longrightarrow> in64_opt v \<Longrightarrow>
     dec_fields dec_op_field (omit_none ''op_id'' v @ rest) x = dec_fields dec_op_field rest (x\<lparr>op_id := v\<rparr>)"
  "op_group x = None \<Longrightarrow> in64_opt v \<Longrightarrow>
     dec_fields dec_op_field (omit_none ''group'' v @ rest) x = dec_fields dec_op_field rest (x\<lparr>op_group := v\<rparr>)"
  "op_tgt x = None \<Longrightarrow> in64_opt v \<Longrightarrow>
     dec_fields dec_op_field (omit_none ''tgt'' v @ rest) x = dec_fields dec_op_field rest (x\<lparr>op_tgt := v\<rparr>)"
  "op_h x = None \<Longrightarrow> in64_opt v \<Longrightarrow>
     dec_fields dec_op_field (omit_none ''h'' v @ rest) x = dec_fields dec_op_field rest (x\<lparr>op_h := v\<rparr>)"
  "op_off x = None \<Longrightarrow> in64_opt v \<Longrightarrow>
     dec_fields dec_op_field (omit_none ''off'' v @ rest) x = dec_fields dec_op_field rest (x\<lparr>op_off := v\<rparr>)"
  "op_len x = None \<Longrightarrow> in64_opt v \<Longrightarrow>
     dec_fields dec_op_field (omit_none ''len'' v @ rest) x = dec_fields dec_op_field rest (x\<lparr>op_len := v\<rparr>)"
  "op_ret x = None \<Longrightarrow> in64_opt v \<Longrightarrow>
     dec_fields dec_op_field (omit_none ''ret'' v @ rest) x = dec_fields dec_op_field rest (x\<lparr>op_ret := v\<rparr>)"
  "op_dur x = None \<Longrightarrow> in64_opt v \<Longrightarrow>
     dec_fields dec_op_field (omit_none ''dur'' v @ rest) x = dec_fields dec_op_field rest (x\<lparr>op_dur := v\<rparr>)"
  by (rule dec_omit_none; cases x; auto simp: dec_op_field_def fold_key_def ascii_lower_def)+

text \<open>A string that names no constant: what the \<open>Other\<close> constructors hold after decoding.\<close>

definition wf_op :: "op \<Rightarrow> bool" where
  "wf_op x \<longleftrightarrow> op_kind_of (op_kind_string (op_op x)) = op_op x
     \<and> mode_of (mode_string (op_mode x)) = op_mode x
     \<and> in64 (op_t x) \<and> in64 (op_s x) \<and> in64_opt (op_id x) \<and> in64_opt (op_group x)
     \<and> in64_opt (op_tgt x) \<and> in64_opt (op_h x) \<and> in64_opt (op_off x) \<and> in64_opt (op_len x)
     \<and> in64_opt (op_ret x) \<and> in64_opt (op_dur x)"

lemma dec_plain_fields:
  "in64 v \<Longrightarrow>
     dec_fields dec_op_field ((''t'', JInt v) # rest) x = dec_fields dec_op_field rest (x\<lparr>op_t := v\<rparr>)"
  "in64 v \<Longrightarrow>
     dec_fields dec_op_field ((''s'', JInt v) # rest) x = dec_fields dec_op_field rest (x\<lparr>op_s := v\<rparr>)"
  "dec_fields dec_op_field ((''op'', JStr s) # rest) x = dec_fields dec_op_field rest (x\<lparr>op_op := op_kind_of s\<rparr>)"
  by (simp_all add: dec_op_field_def fold_key_def ascii_lower_def)

lemma dec_mode_field:
  "op_mode x = ModeAbsent \<Longrightarrow> mode_of (mode_string m) = m \<Longrightarrow>
     dec_fields dec_op_field (omit_empty ''mode'' (mode_string m) @ rest) x
     = dec_fields dec_op_field rest (x\<lparr>op_mode := m\<rparr>)"
  by (rule dec_omit_empty; cases x; cases m; auto simp: dec_op_field_def fold_key_def ascii_lower_def)

lemma dec_flags_field:
  "op_flags x = [] \<Longrightarrow>
     dec_fields dec_op_field (omit_nil ''flags'' (map JStr fs) @ rest) x
     = dec_fields dec_op_field rest (x\<lparr>op_flags := fs\<rparr>)"
  by (cases x) (simp add: omit_nil_def dec_op_field_def fold_key_def ascii_lower_def str_codec.dec_all_enc)

lemma decode_encode_op: "wf_op x \<Longrightarrow> decode_op (encode_op x) = Some x"
proof -
  assume wf: "wf_op x"
  have "decode_op (encode_op x) = dec_fields dec_op_field [] x"
    using wf
    by (cases x) (simp add: decode_op_def encode_op_def wf_op_def zero_op_def
      dec_opt_fields dec_plain_fields dec_mode_field dec_flags_field
      dec_opt_fields(8) [where rest = "[]", simplified] del: dec_fields.simps(2))
  then show ?thesis by simp
qed

interpretation op_codec: codec encode_op decode_op wf_op
  by unfold_locales (rule decode_encode_op)

text \<open>The records of the header, inside out.\<close>

definition wf_target :: "target_info \<Rightarrow> bool" where
  "wf_target t \<longleftrightarrow> in64 (ti_id t) \<and> in64 (ti_size t)
     \<and> target_kind_of (target_kind_string (ti_kind t)) = ti_kind t"

interpretation target_codec: codec encode_target "dec_struct dec_target_field zero_target" wf_target
proof
  fix x assume "wf_target x"
  then show "dec_struct dec_target_field zero_target (encode_target x) = Some x"
    by (cases x) (simp add: encode_target_def wf_target_def zero_target_def dec_target_field_def
      fold_key_def ascii_lower_def)
qed

definition wf_summary :: "summary \<Rightarrow> bool" where
  "wf_summary s \<longleftrightarrow> in64 (sum_num_ops s) \<and> in64 (sum_num_streams s) \<and> in64 (sum_num_groups s)
     \<and> in64 (sum_total_bytes s) \<and> in64 (sum_duration_ns s) \<and> in64 (sum_num_partial_reads s)"

interpretation summary_codec: codec encode_summary "dec_struct dec_summary_field zero_summary" wf_summary
proof
  fix x assume "wf_summary x"
  then show "dec_struct dec_summary_field zero_summary (encode_summary x) = Some x"
    by (cases x) (simp add: encode_summary_def wf_summary_def zero_summary_def dec_summary_field_def
      omit_zero_def fold_key_def ascii_lower_def)
qed

definition wf_transformation :: "transformation \<Rightarrow> bool" where
  "wf_transformation t \<longleftrightarrow> distinct (map fst (tr_params t))"

lemma alist_update_fresh: "k \<notin> fst ` set al \<Longrightarrow> AList.update k v al = al @ [(k, v)]"
  by (induction al) auto

lemma dec_string_map_enc:
  "distinct (map fst (acc @ ps)) \<Longrightarrow>
     dec_string_map acc (JObj (map (\<lambda>(k, v). (k, JStr v)) ps)) = Some (acc @ ps)"
proof (induction ps arbitrary: acc)
  case Nil
  then show ?case by simp
next
  case (Cons p ps)
  obtain k v where p: "p = (k, v)" by (cases p)
  with Cons.prems have "k \<notin> fst ` set acc" by auto
  then have upd: "AList.update k v acc = acc @ [(k, v)]" by (rule alist_update_fresh)
  have "distinct (map fst ((acc @ [(k, v)]) @ ps))" using Cons.prems p by simp
  from Cons.IH [OF this] show ?case by (simp add: p upd)
qed

interpretation transformation_codec: codec encode_transformation
  "dec_struct dec_transformation_field zero_transformation" wf_transformation
proof
  fix x assume "wf_transformation x"
  then show "dec_struct dec_transformation_field zero_transformation (encode_transformation x) = Some x"
    by (cases x) (simp add: encode_transformation_def wf_transformation_def zero_transformation_def
      dec_transformation_field_def omit_empty_def fold_key_def ascii_lower_def
      dec_string_map_enc [of "[]", simplified])
qed

definition wf_header :: "header \<Rightarrow> bool" where
  "wf_header h \<longleftrightarrow> in64 (hdr_version h)
     \<and> trace_kind_of (trace_kind_string (hdr_kind h)) = hdr_kind h
     \<and> (\<forall>t \<in> set (hdr_targets h). wf_target t)
     \<and> wf_summary (hdr_summary h)
     \<and> (\<forall>t \<in> set (hdr_transformations h). wf_transformation t)"

lemma dec_header_omitted:
  "hdr_profile x = [] \<Longrightarrow> dec_fields dec_header_field (omit_empty ''profile'' s @ rest) x
     = dec_fields dec_header_field rest (x\<lparr>hdr_profile := s\<rparr>)"
  "hdr_generated_by x = [] \<Longrightarrow> dec_fields dec_header_field (omit_empty ''generated_by'' s @ rest) x
     = dec_fields dec_header_field rest (x\<lparr>hdr_generated_by := s\<rparr>)"
  "hdr_created_utc x = [] \<Longrightarrow> dec_fields dec_header_field (omit_empty ''created_utc'' s @ rest) x
     = dec_fields dec_header_field rest (x\<lparr>hdr_created_utc := s\<rparr>)"
  "hdr_capture_method x = [] \<Longrightarrow> dec_fields dec_header_field (omit_empty ''capture_method'' s @ rest) x
     = dec_fields dec_header_field rest (x\<lparr>hdr_capture_method := s\<rparr>)"
  "hdr_capture_limitations x = [] \<Longrightarrow>
     dec_fields dec_header_field (omit_empty ''capture_limitations'' s @ rest) x
     = dec_fields dec_header_field rest (x\<lparr>hdr_capture_limitations := s\<rparr>)"
  "hdr_notes x = [] \<Longrightarrow> dec_fields dec_header_field (omit_empty ''notes'' s @ rest) x
     = dec_fields dec_header_field rest (x\<lparr>hdr_notes := s\<rparr>)"
  by (rule dec_omit_empty; cases x; auto simp: dec_header_field_def fold_key_def ascii_lower_def)+

lemma dec_header_plain:
  "in64 v \<Longrightarrow> dec_fields dec_header_field ((''ioflux_trace_version'', JInt v) # rest) x
     = dec_fields dec_header_field rest (x\<lparr>hdr_version := v\<rparr>)"
  "dec_fields dec_header_field ((''kind'', JStr s) # rest) x
     = dec_fields dec_header_field rest (x\<lparr>hdr_kind := trace_kind_of s\<rparr>)"
  "dec_fields dec_header_field ((''time_unit'', JStr s) # rest) x
     = dec_fields dec_header_field rest (x\<lparr>hdr_time_unit := s\<rparr>)"
  "dec_fields dec_header_field ((''scrubbed'', JBool b) # rest) x
     = dec_fields dec_header_field rest (x\<lparr>hdr_scrubbed := b\<rparr>)"
  by (simp_all add: dec_header_field_def fold_key_def ascii_lower_def)

lemma dec_header_nested:
  "(\<And>t. t \<in> set ts \<Longrightarrow> wf_target t) \<Longrightarrow>
     dec_fields dec_header_field ((''targets'', JArr (map encode_target ts)) # rest) x
     = dec_fields dec_header_field rest (x\<lparr>hdr_targets := ts\<rparr>)"
  "hdr_summary x = zero_summary \<Longrightarrow> wf_summary s \<Longrightarrow>
     dec_fields dec_header_field ((''summary'', encode_summary s) # rest) x
     = dec_fields dec_header_field rest (x\<lparr>hdr_summary := s\<rparr>)"
  "hdr_transformations x = [] \<Longrightarrow> (\<And>t. t \<in> set trs \<Longrightarrow> wf_transformation t) \<Longrightarrow>
     dec_fields dec_header_field (omit_nil ''transformations'' (map encode_transformation trs)) x
     = Some (x\<lparr>hdr_transformations := trs\<rparr>)"
  by (simp_all add: dec_header_field_def fold_key_def ascii_lower_def omit_nil_def
    target_codec.dec_all_enc summary_codec.dec_enc transformation_codec.dec_all_enc)

interpretation header_codec: codec encode_header decode_header wf_header
proof
  fix x assume "wf_header x"
  then show "decode_header (encode_header x) = Some x"
    by (cases x) (simp add: decode_header_def encode_header_def wf_header_def zero_header_def
      dec_header_omitted dec_header_plain dec_header_nested del: dec_fields.simps)
qed

section \<open>Reading back a written file\<close>

text \<open>The ops a reader delivers with their line numbers, and the error that ends the stream, if any.\<close>

fun scanOps :: "raw_line list \<Rightarrow> int \<Rightarrow> (int \<times> op) list \<times> trace_err option" where
  "scanOps [] line = ([], None)"
| "scanOps (LScanErr # rest) line = ([], Some (ReadOp line))"
| "scanOps (LBlank # rest) line = scanOps rest (line + 1)"
| "scanOps (LMalformed # rest) line = ([], Some (ParseOp (line + 1)))"
| "scanOps (LJson j # rest) line =
     (case decode_op j of
        None \<Rightarrow> ([], Some (ParseOp (line + 1)))
      | Some x \<Rightarrow> (let (xs, e) = scanOps rest (line + 1) in ((line + 1, x) # xs, e)))"

fun numbered :: "int \<Rightarrow> 'a list \<Rightarrow> (int \<times> 'a) list" where
  "numbered line [] = []"
| "numbered line (x # xs) = (line + 1, x) # numbered (line + 1) xs"

lemma map_snd_numbered [simp]: "map snd (numbered line xs) = xs"
  by (induction xs arbitrary: line) auto

text \<open>\<open>scanOps\<close> is the iteration of the reader's own step.\<close>

lemma scanOps_next:
  "scanOps lines line =
     (case scanNext lines line of
        (EOF, _, _) \<Rightarrow> ([], None)
      | (NextErr e, _, _) \<Rightarrow> ([], Some e)
      | (Got x, rest, l) \<Rightarrow> ((l, x) # fst (scanOps rest l), snd (scanOps rest l)))"
  by (induction lines line rule: scanNext.induct) (auto split: option.splits prod.splits)

lemma scanNext_shorter: "scanNext lines line = (Got x, rest, l) \<Longrightarrow> length rest < length lines"
  by (induction lines line rule: scanNext.induct) (auto split: option.splits)

lemma scanOps_encoded:
  "(\<And>x. x \<in> set xs \<Longrightarrow> wf_op x) \<Longrightarrow>
     scanOps (map (\<lambda>x. LJson (encode_op x)) xs) line = (numbered line xs, None)"
  by (induction xs arbitrary: line) (auto simp: decode_encode_op)

lemma writeOps_out:
  "writeOps w xs = Inr w' \<Longrightarrow> wr_out w' = wr_out w @ map (\<lambda>x. LJson (encode_op x)) xs"
  by (induction xs arbitrary: w) (auto simp: writeOp_def split: sum.splits if_splits)

lemma writeOps_total:
  "wr_wroteHeader w \<Longrightarrow> (\<And>n. wr_accepts w n) \<Longrightarrow> \<exists>w'. writeOps w xs = Inr w'"
  by (induction xs arbitrary: w) (auto simp: writeOp_def)


section \<open>Properties\<close>

lemma writeHeader_fresh:
  "writeHeader (newWriter (\<lambda>_. True)) h =
     Inr \<lparr>wr_out = [LJson (encode_header h)], wr_wroteHeader = True, wr_accepts = (\<lambda>_. True)\<rparr>"
  by (simp add: writeHeader_def newWriter_def)



text \<open>
  The writer enforces the file's shape. An op before the header is refused, a second
  header is refused, both without writing anything, and after any accepted sequence of ops
  the output is the header line followed by one line per op.
\<close>

lemma writer_protocol:
  "writeOp (newWriter acc) x = Inl ErrHeaderNotWritten
   \<and> (\<forall>w h h'. writeHeader w h = Inr w' \<longrightarrow> writeHeader w' h' = Inl ErrHeaderAlreadyWritten)
   \<and> (\<forall>h w ops w''. writeHeader (newWriter acc) h = Inr w \<and> writeOps w ops = Inr w'' \<longrightarrow>
        wr_out w'' = LJson (encode_header h) # map (\<lambda>x. LJson (encode_op x)) ops)"
  by (auto simp: writeOp_def newWriter_def writeHeader_def dest!: writeOps_out split: if_splits)

lemma writer_protocol_witness:
  "\<exists>w. writeHeader (newWriter (\<lambda>_. True)) zero_header = Inr w
     \<and> writeHeader w zero_header = Inl ErrHeaderAlreadyWritten"
proof -
  have h: "\<forall>w h h'. writeHeader w h = Inr w' \<longrightarrow> writeHeader w' h' = Inl ErrHeaderAlreadyWritten" for w'
    using writer_protocol [of "\<lambda>_. True" zero_op w'] by blast
  show ?thesis using h writeHeader_fresh [of zero_header] by blast
qed

end
