(* ===== verification/Trace_Validate.thy ===== *)
theory Trace_Validate
  imports Trace_Jsonl
begin

text \<open>
  The streaming validator of \<open>pkg/trace/validate.go\<close>.

  A check of the code appends issues to the report it is given; here it returns the list
  of issues it appends, in the same order, and \<open>addErrors\<close> appends them. The text of an
  issue is a constructor with the values the code formats into the message. The maps the
  loop keeps (open handles, seen op ids, last op id per stream and group, ops per stream)
  are association lists; Go's iteration order over them is unspecified and only the
  warnings at the end depend on it.
\<close>

section \<open>Issues and reports\<close>

datatype msg =
    MMissingField | MNotArray | MNotObject
  | MUnsupportedVersion int | MInvalidKind trace_kind | MUnsupportedTimeUnit string
  | MInvalidCaptureMethod string | MMustDeclare trace_kind
  | MCannotUseMethod string | MMustUseImport
  | MTargetId int int | MTargetNoName int | MTargetNoKind int
  | MTargetBadKind int target_kind | MTargetSize int int | MNegative
  | MNonMonotonic int int
  | MOpIdNegative int | MDuplicateOpId int int | MOpIdOrder int int int int
  | MUnknownOp op_kind | MMustNotCarry op_kind | MOpMissing op_kind | MTgtRange int int
  | MHandleReused int int | MInvalidMode mode
  | MUnknownHandle op_kind int | MClosedHandle op_kind int | MForeignHandle op_kind int int int
  | MOpNegative op_kind int | MRetNotAllowed op_kind | MRetNegative int | MRetExceeds int int
  | MRetVersion int int | MDurNegative int | MNeverClosed int int int
  | MSummaryMismatch int int

record issue =
  iss_line :: int
  iss_field :: string
  iss_msg :: msg

abbreviation iss :: "int \<Rightarrow> string \<Rightarrow> msg \<Rightarrow> issue" where
  "iss line field m \<equiv> \<lparr>iss_line = line, iss_field = field, iss_msg = m\<rparr>"

record report =
  rep_header :: header
  rep_num_ops :: int
  rep_num_partial :: int
  rep_streams :: "(int \<times> int) list"
  rep_errors :: "issue list"
  rep_warnings :: "issue list"

definition report_ok :: "report \<Rightarrow> bool" where
  "report_ok r \<longleftrightarrow> length (rep_errors r) = 0"

definition addErrors :: "issue list \<Rightarrow> report \<Rightarrow> report" where
  "addErrors is r = r\<lparr>rep_errors := rep_errors r @ is\<rparr>"

section \<open>Header checks\<close>

text \<open>A raw JSON object decoded into a Go map: the last entry of a repeated key wins.\<close>

fun raw_object :: "json \<Rightarrow> (string \<times> json) list option" where
  "raw_object JNull = Some []"
| "raw_object (JObj fs) = Some (rev fs)"
| "raw_object _ = None"

fun missingFields :: "string \<Rightarrow> (string \<times> json) list \<Rightarrow> string list \<Rightarrow> issue list" where
  "missingFields pre obj [] = []"
| "missingFields pre obj (f # fs) =
     (if map_of obj f = None then [iss 1 (pre @ f) MMissingField] else []) @ missingFields pre obj fs"

definition validateHeaderPresence :: "json \<Rightarrow> issue list" where
  "validateHeaderPresence raw =
     (case raw_object raw of
        None \<Rightarrow> []
      | Some obj \<Rightarrow>
          missingFields [] obj [''targets'', ''summary'']
          @ (if map_of obj ''targets'' = Some JNull then [iss 1 ''targets'' MNotArray] else [])
          @ (case map_of obj ''summary'' of
               None \<Rightarrow> []
             | Some rawSummary \<Rightarrow>
                 if rawSummary = JNull then [iss 1 ''summary'' MNotObject]
                 else (case raw_object rawSummary of
                         None \<Rightarrow> []
                       | Some summary \<Rightarrow> missingFields ''summary.'' summary
                           [''num_ops'', ''num_streams'', ''num_groups'', ''total_bytes'', ''duration_ns''])))"

fun validateTargets :: "int \<Rightarrow> target_info list \<Rightarrow> issue list" where
  "validateTargets i [] = []"
| "validateTargets i (t # ts) =
     (if ti_id t \<noteq> i then [iss 1 ''targets'' (MTargetId i (ti_id t))] else [])
     @ (if ti_name t = [] then [iss 1 ''targets.name'' (MTargetNoName i)] else [])
     @ (if ti_kind t = TargetKindOther [] then [iss 1 ''targets.kind'' (MTargetNoKind i)]
        else if \<not> target_kind_valid (ti_kind t)
             then [iss 1 ''targets.kind'' (MTargetBadKind i (ti_kind t))] else [])
     @ (if ti_size t < 0 then [iss 1 ''targets.size'' (MTargetSize i (ti_size t))] else [])
     @ validateTargets (i + 1) ts"

definition negField :: "string \<Rightarrow> int \<Rightarrow> issue list" where
  "negField f n = (if n < 0 then [iss 1 f MNegative] else [])"

definition validateHeader :: "header \<Rightarrow> issue list" where
  "validateHeader h =
     (if hdr_version h = 0 then [iss 1 ''ioflux_trace_version'' MMissingField]
      else if hdr_version h < TraceFormatVersion \<or> hdr_version h > TraceFormatVersionMax
           then [iss 1 ''ioflux_trace_version'' (MUnsupportedVersion (hdr_version h))] else [])
     @ (if hdr_kind h = TraceKindOther [] then [iss 1 ''kind'' MMissingField]
        else if \<not> trace_kind_valid (hdr_kind h) then [iss 1 ''kind'' (MInvalidKind (hdr_kind h))] else [])
     @ (if hdr_time_unit h = [] then [iss 1 ''time_unit'' MMissingField]
        else if hdr_time_unit h \<noteq> TimeUnitNanoseconds
             then [iss 1 ''time_unit'' (MUnsupportedTimeUnit (hdr_time_unit h))] else [])
     @ (if hdr_capture_method h \<noteq> [] \<and> \<not> capture_valid (hdr_capture_method h)
        then [iss 1 ''capture_method'' (MInvalidCaptureMethod (hdr_capture_method h))] else [])
     @ (if hdr_kind h = TraceCaptured \<or> hdr_kind h = TraceImported then
          (if hdr_capture_method h = [] then [iss 1 ''capture_method'' (MMustDeclare (hdr_kind h))] else [])
          @ (if hdr_capture_limitations h = []
             then [iss 1 ''capture_limitations'' (MMustDeclare (hdr_kind h))] else [])
        else [])
     @ (if hdr_kind h = TraceCaptured
           \<and> (hdr_capture_method h = CaptureSynthetic \<or> capture_isImport (hdr_capture_method h))
        then [iss 1 ''capture_method'' (MCannotUseMethod (hdr_capture_method h))] else [])
     @ (if hdr_kind h = TraceImported \<and> hdr_capture_method h \<noteq> []
           \<and> \<not> capture_isImport (hdr_capture_method h)
        then [iss 1 ''capture_method'' MMustUseImport] else [])
     @ (if hdr_kind h = TraceSynthetic \<and> hdr_capture_method h \<noteq> []
           \<and> hdr_capture_method h \<noteq> CaptureSynthetic
        then [iss 1 ''capture_method'' (MCannotUseMethod (hdr_capture_method h))] else [])
     @ validateTargets 0 (hdr_targets h)
     @ negField ''summary.num_ops'' (sum_num_ops (hdr_summary h))
     @ negField ''summary.num_streams'' (sum_num_streams (hdr_summary h))
     @ negField ''summary.num_groups'' (sum_num_groups (hdr_summary h))
     @ negField ''summary.total_bytes'' (sum_total_bytes (hdr_summary h))
     @ negField ''summary.duration_ns'' (sum_duration_ns (hdr_summary h))"

section \<open>Per-op checks\<close>

record handleState =
  hs_stream :: int
  hs_target :: int
  hs_openLine :: int
  hs_closed :: bool

definition requireTarget :: "int \<Rightarrow> op \<Rightarrow> header \<Rightarrow> issue list \<times> int option" where
  "requireTarget line x h =
     (case op_tgt x of
        None \<Rightarrow> ([iss line ''tgt'' (MOpMissing (op_op x))], None)
      | Some t \<Rightarrow>
          if t < 0 \<or> t \<ge> int (length (hdr_targets h))
          then ([iss line ''tgt'' (MTgtRange t (int (length (hdr_targets h))))], None)
          else ([], Some t))"

definition forbidTarget :: "int \<Rightarrow> op \<Rightarrow> issue list" where
  "forbidTarget line x = (if op_tgt x \<noteq> None then [iss line ''tgt'' (MMustNotCarry (op_op x))] else [])"

definition requireOpenHandle :: "int \<Rightarrow> op \<Rightarrow> (int \<times> handleState) list \<Rightarrow> issue list \<times> bool" where
  "requireOpenHandle line x handles =
     (case op_h x of
        None \<Rightarrow> ([iss line ''h'' (MOpMissing (op_op x))], False)
      | Some h \<Rightarrow>
          (case map_of handles h of
             None \<Rightarrow> ([iss line ''h'' (MUnknownHandle (op_op x) h)], False)
           | Some st \<Rightarrow>
               if hs_closed st then ([iss line ''h'' (MClosedHandle (op_op x) h)], False)
               else if hs_stream st \<noteq> op_s x
                    then ([iss line ''h'' (MForeignHandle (op_op x) h (hs_stream st) (op_s x))], False)
               else ([], True)))"

definition forbidHandle :: "int \<Rightarrow> op \<Rightarrow> issue list" where
  "forbidHandle line x = (if op_h x \<noteq> None then [iss line ''h'' (MMustNotCarry (op_op x))] else [])"

definition requireLen :: "int \<Rightarrow> op \<Rightarrow> issue list" where
  "requireLen line x =
     (case op_len x of
        None \<Rightarrow> [iss line ''len'' (MOpMissing (op_op x))]
      | Some n \<Rightarrow> if n < 0 then [iss line ''len'' (MOpNegative (op_op x) n)] else [])"

definition requireOffLen :: "int \<Rightarrow> op \<Rightarrow> issue list" where
  "requireOffLen line x =
     (case op_off x of
        None \<Rightarrow> [iss line ''off'' (MOpMissing (op_op x))]
      | Some n \<Rightarrow> if n < 0 then [iss line ''off'' (MOpNegative (op_op x) n)] else [])
     @ requireLen line x"

definition forbidPositional :: "int \<Rightarrow> op \<Rightarrow> issue list" where
  "forbidPositional line x =
     (if op_off x \<noteq> None then [iss line ''off'' (MMustNotCarry (op_op x))] else [])
     @ (if op_len x \<noteq> None then [iss line ''len'' (MMustNotCarry (op_op x))] else [])"

definition validateRet :: "int \<Rightarrow> op \<Rightarrow> header \<Rightarrow> issue list" where
  "validateRet line x h =
     (case op_ret x of
        None \<Rightarrow> []
      | Some r \<Rightarrow>
          if \<not> (op_op x = OpRead \<or> op_op x = OpGet)
          then [iss line ''ret'' (MRetNotAllowed (op_op x))]
          else (if r < 0 then [iss line ''ret'' (MRetNegative r)] else [])
               @ (case op_len x of
                    None \<Rightarrow> []
                  | Some n \<Rightarrow> if r > n then [iss line ''ret'' (MRetExceeds r n)] else [])
               @ (if hdr_version h > 0 \<and> hdr_version h < minVersion x
                  then [iss line ''ret'' (MRetVersion (minVersion x) (hdr_version h))] else []))"

section \<open>The validator's loop\<close>

record vstate =
  v_handles :: "(int \<times> handleState) list"
  v_seen :: "(int \<times> int) list"
  v_last :: "((int \<times> int) \<times> int) list"
  v_lastT :: int
  v_sawAny :: bool
  v_rep :: report

definition group_of :: "op \<Rightarrow> int" where
  "group_of x = (case op_group x of None \<Rightarrow> 0 | Some g \<Rightarrow> g)"

definition validateOpID :: "int \<Rightarrow> op \<Rightarrow> vstate \<Rightarrow> vstate" where
  "validateOpID line x vs =
     (case op_id x of
        None \<Rightarrow> vs\<lparr>v_rep := addErrors [iss line ''op_id'' MMissingField] (v_rep vs)\<rparr>
      | Some i \<Rightarrow>
          let neg = (if i < 0 then [iss line ''op_id'' (MOpIdNegative i)] else []);
              (dup, seen) = (case map_of (v_seen vs) i of
                  Some prevLine \<Rightarrow> ([iss line ''op_id'' (MDuplicateOpId i prevLine)], v_seen vs)
                | None \<Rightarrow> ([], AList.update i line (v_seen vs)));
              sg = (op_s x, group_of x);
              ord = (case map_of (v_last vs) sg of
                  Some prevId \<Rightarrow> if i \<le> prevId
                    then [iss line ''op_id'' (MOpIdOrder i prevId (op_s x) (group_of x))] else []
                | None \<Rightarrow> [])
          in vs\<lparr>v_seen := seen, v_last := AList.update sg i (v_last vs),
                v_rep := addErrors (neg @ dup @ ord) (v_rep vs)\<rparr>)"

definition validateOpen :: "int \<Rightarrow> op \<Rightarrow> vstate \<Rightarrow> vstate" where
  "validateOpen line x vs =
     (let (tgtIss, tgt) = requireTarget line x (rep_header (v_rep vs));
          (hIss, handles) =
            (case op_h x of
               None \<Rightarrow> ([iss line ''h'' (MOpMissing OpOpen)], v_handles vs)
             | Some h \<Rightarrow>
                 (case map_of (v_handles vs) h of
                    Some prev \<Rightarrow> ([iss line ''h'' (MHandleReused h (hs_openLine prev))], v_handles vs)
                  | None \<Rightarrow>
                      (case tgt of
                         Some t \<Rightarrow> ([], AList.update h \<lparr>hs_stream = op_s x, hs_target = t,
                                          hs_openLine = line, hs_closed = False\<rparr> (v_handles vs))
                       | None \<Rightarrow> ([], v_handles vs))));
          modeIss = (if op_mode x = ModeAbsent then [iss line ''mode'' (MOpMissing OpOpen)]
                     else if \<not> mode_valid (op_mode x)
                          then [iss line ''mode'' (MInvalidMode (op_mode x))] else [])
      in vs\<lparr>v_handles := handles,
            v_rep := addErrors (tgtIss @ hIss @ modeIss @ forbidPositional line x) (v_rep vs)\<rparr>)"

definition validateFsyncClose :: "int \<Rightarrow> op \<Rightarrow> vstate \<Rightarrow> vstate" where
  "validateFsyncClose line x vs =
     (let (hIss, good) = requireOpenHandle line x (v_handles vs);
          handles = (if good \<and> op_op x = OpClose
                     then (case op_h x of
                             None \<Rightarrow> v_handles vs
                           | Some h \<Rightarrow>
                               (case map_of (v_handles vs) h of
                                  None \<Rightarrow> v_handles vs
                                | Some st \<Rightarrow> AList.update h (st\<lparr>hs_closed := True\<rparr>) (v_handles vs)))
                     else v_handles vs)
      in vs\<lparr>v_handles := handles,
            v_rep := addErrors (hIss @ forbidTarget line x @ forbidPositional line x) (v_rep vs)\<rparr>)"

text \<open>The \<open>switch\<close> over the op kind.\<close>

definition addIssues :: "issue list \<Rightarrow> vstate \<Rightarrow> vstate" where
  "addIssues is vs = vs\<lparr>v_rep := addErrors is (v_rep vs)\<rparr>"

fun validateKind :: "op_kind \<Rightarrow> int \<Rightarrow> op \<Rightarrow> vstate \<Rightarrow> vstate" where
  "validateKind OpOpen line x vs = validateOpen line x vs"
| "validateKind OpRead line x vs = addIssues (fst (requireOpenHandle line x (v_handles vs))
     @ forbidTarget line x @ requireOffLen line x) vs"
| "validateKind OpWrite line x vs = addIssues (fst (requireOpenHandle line x (v_handles vs))
     @ forbidTarget line x @ requireOffLen line x) vs"
| "validateKind OpFsync line x vs = validateFsyncClose line x vs"
| "validateKind OpClose line x vs = validateFsyncClose line x vs"
| "validateKind OpStat line x vs = addIssues (fst (requireTarget line x (rep_header (v_rep vs)))
     @ forbidHandle line x @ forbidPositional line x) vs"
| "validateKind OpGet line x vs = addIssues (fst (requireTarget line x (rep_header (v_rep vs)))
     @ forbidHandle line x @ requireOffLen line x) vs"
| "validateKind OpPut line x vs = addIssues (fst (requireTarget line x (rep_header (v_rep vs)))
     @ forbidHandle line x
     @ (if op_off x \<noteq> None then [iss line ''off'' (MMustNotCarry OpPut)] else [])
     @ requireLen line x) vs"
| "validateKind OpHead line x vs = addIssues (fst (requireTarget line x (rep_header (v_rep vs)))
     @ forbidHandle line x @ forbidPositional line x) vs"
| "validateKind OpDelete line x vs = addIssues (fst (requireTarget line x (rep_header (v_rep vs)))
     @ forbidHandle line x @ forbidPositional line x) vs"
| "validateKind (OpOther _) line x vs = vs"


definition bumpCount :: "int \<Rightarrow> (int \<times> int) list \<Rightarrow> (int \<times> int) list" where
  "bumpCount k al = AList.update k ((case map_of al k of None \<Rightarrow> 0 | Some n \<Rightarrow> n) + 1) al"

text \<open>The counters and the timestamp check at the top of the loop body.\<close>

definition validateArrival :: "int \<Rightarrow> op \<Rightarrow> vstate \<Rightarrow> vstate" where
  "validateArrival line x vs =
     (let r = v_rep vs;
          r = r\<lparr>rep_num_ops := rep_num_ops r + 1, rep_streams := bumpCount (op_s x) (rep_streams r)\<rparr>;
          mono = (if v_sawAny vs \<and> op_t x < v_lastT vs
                  then [iss line ''t'' (MNonMonotonic (op_t x) (v_lastT vs))] else [])
      in vs\<lparr>v_rep := addErrors mono r,
            v_lastT := (if \<not> v_sawAny vs \<or> op_t x > v_lastT vs then op_t x else v_lastT vs),
            v_sawAny := True\<rparr>)"

definition notOpenIssues :: "int \<Rightarrow> op \<Rightarrow> issue list" where
  "notOpenIssues line x =
     (if op_op x \<noteq> OpOpen then
        (if op_mode x \<noteq> ModeAbsent then [iss line ''mode'' (MMustNotCarry (op_op x))] else [])
        @ (if length (op_flags x) > 0 then [iss line ''flags'' (MMustNotCarry (op_op x))] else [])
      else [])"

text \<open>The checks after the \<open>switch\<close>.\<close>

definition validateTail :: "int \<Rightarrow> op \<Rightarrow> vstate \<Rightarrow> vstate" where
  "validateTail line x vs =
     (let r = addErrors (validateRet line x (rep_header (v_rep vs))) (v_rep vs);
          r = (if isPartialTransfer x then r\<lparr>rep_num_partial := rep_num_partial r + 1\<rparr> else r);
          durIss = (case op_dur x of
                      None \<Rightarrow> []
                    | Some d \<Rightarrow> if d < 0 then [iss line ''dur'' (MDurNegative d)] else [])
      in vs\<lparr>v_rep := addErrors durIss r\<rparr>)"

text \<open>
  One pass of the loop body: the state after it and whether it reached the callback (an
  unknown op kind leaves the body early).
\<close>

definition validateOp :: "int \<Rightarrow> op \<Rightarrow> vstate \<Rightarrow> vstate \<times> bool" where
  "validateOp line x vs =
     (let vs1 = validateOpID line x (validateArrival line x vs)
      in if \<not> op_kind_valid (op_op x)
         then (addIssues [iss line ''op'' (MUnknownOp (op_op x))] vs1, False)
         else (validateTail line x
                 (validateKind (op_op x) line x (addIssues (notOpenIssues line x) vs1)), True))"

datatype 'e validate_err = ReaderErr trace_err | CallbackErr 'e

text \<open>
  The loop: read, check, call back. The callback is the closure \<open>onOp\<close> over a state of
  the caller; its error ends the loop, as a read or parse error does.
\<close>

function validateLoop ::
  "('s \<Rightarrow> op \<Rightarrow> 'e + 's) \<Rightarrow> raw_line list \<Rightarrow> int \<Rightarrow> vstate \<Rightarrow> 's \<Rightarrow> vstate \<times> 'e validate_err option \<times> 's" where
  "validateLoop onOp lines line vs s =
     (case scanNext lines line of
        (EOF, _, _) \<Rightarrow> (vs, None, s)
      | (NextErr e, _, _) \<Rightarrow> (vs, Some (ReaderErr e), s)
      | (Got x, rest, line') \<Rightarrow>
          (case validateOp line' x vs of
             (vs', False) \<Rightarrow> validateLoop onOp rest line' vs' s
           | (vs', True) \<Rightarrow>
               (case onOp s x of
                  Inl e \<Rightarrow> (vs', Some (CallbackErr e), s)
                | Inr s' \<Rightarrow> validateLoop onOp rest line' vs' s')))"
  by pat_completeness auto
termination
  by (relation "measure (\<lambda>(_, lines, _). length lines)") (auto dest: sym [THEN scanNext_shorter])

declare validateLoop.simps [simp del]

fun unclosedWarnings :: "(int \<times> handleState) list \<Rightarrow> issue list" where
  "unclosedWarnings [] = []"
| "unclosedWarnings ((h, st) # rest) =
     (if \<not> hs_closed st
      then [iss 0 ''open'' (MNeverClosed h (hs_stream st) (hs_target st))] else [])
     @ unclosedWarnings rest"

definition validateSummaryAgreement :: "report \<Rightarrow> issue list" where
  "validateSummaryAgreement r =
     (let s = hdr_summary (rep_header r) in
      (if sum_num_ops s \<noteq> rep_num_ops r
       then [iss 1 ''summary.num_ops'' (MSummaryMismatch (sum_num_ops s) (rep_num_ops r))] else [])
      @ (if sum_num_streams s \<noteq> int (length (rep_streams r))
         then [iss 1 ''summary.num_streams''
                 (MSummaryMismatch (sum_num_streams s) (int (length (rep_streams r))))] else [])
      @ (if sum_num_partial_reads s \<noteq> rep_num_partial r
         then [iss 1 ''summary.num_partial_reads''
                 (MSummaryMismatch (sum_num_partial_reads s) (rep_num_partial r))] else []))"

definition initReport :: "reader \<Rightarrow> report" where
  "initReport r =
     addErrors (validateHeader (rd_hdr r))
       (addErrors (validateHeaderPresence (rd_headerRaw r))
          \<lparr>rep_header = rd_hdr r, rep_num_ops = 0, rep_num_partial = 0, rep_streams = [],
           rep_errors = [], rep_warnings = []\<rparr>)"

definition initVState :: "reader \<Rightarrow> vstate" where
  "initVState r = \<lparr>v_handles = [], v_seen = [], v_last = [], v_lastT = 0, v_sawAny = False,
     v_rep = initReport r\<rparr>"

definition validateWithOps ::
  "reader \<Rightarrow> ('s \<Rightarrow> op \<Rightarrow> 'e + 's) \<Rightarrow> 's \<Rightarrow> report \<times> 'e validate_err option \<times> 's" where
  "validateWithOps r onOp s =
     (case validateLoop onOp (rd_lines r) (rd_line r) (initVState r) s of
        (vs, Some e, s') \<Rightarrow> (v_rep vs, Some e, s')
      | (vs, None, s') \<Rightarrow>
          let rep = (v_rep vs)\<lparr>rep_warnings := rep_warnings (v_rep vs) @ unclosedWarnings (v_handles vs)\<rparr>
          in (addErrors (validateSummaryAgreement rep) rep, None, s'))"

text \<open>\<open>Validate\<close> passes no callback.\<close>

definition noCallback :: "unit \<Rightarrow> op \<Rightarrow> unit + unit" where
  "noCallback s x = Inr s"

definition validate :: "reader \<Rightarrow> report \<times> unit validate_err option" where
  "validate r = (case validateWithOps r noCallback () of (rep, e, _) \<Rightarrow> (rep, e))"

text \<open>
  \<open>ValidateLoadedRaw\<close> re-encodes the ops behind the raw header line and validates the
  result; encoding into a buffer cannot fail.
\<close>

definition validateLoadedRaw :: "raw_line \<Rightarrow> op list \<Rightarrow> trace_err + (report \<times> unit validate_err option)" where
  "validateLoadedRaw headerRaw ops =
     (case newReader (headerRaw # map (\<lambda>x. LJson (encode_op x)) ops) of
        Inl e \<Rightarrow> Inl e
      | Inr r \<Rightarrow> Inr (validate r))"

end
