(* ===== verification/Validate_Spec.thy ===== *)
theory Validate_Spec
  imports Trace_Validate
begin

text \<open>
  What a valid trace is, stated without the validator's state, and the proof that the
  validator of \<open>pkg/trace/validate.go\<close> decides exactly that.

  \<open>op_spec hdr pre x\<close> says that the op \<open>x\<close> may follow the ops \<open>pre\<close>; a stream of ops is
  valid when every op may follow those before it. The validator's maps are related to the
  prefix they summarise by \<open>vinv\<close>.
\<close>

section \<open>The specification\<close>

definition each_after :: "('a list \<Rightarrow> 'a \<Rightarrow> bool) \<Rightarrow> 'a list \<Rightarrow> bool" where
  "each_after P xs \<longleftrightarrow> (\<forall>pre x post. xs = pre @ x # post \<longrightarrow> P pre x)"

lemma each_after_Nil [simp]: "each_after P []"
  by (simp add: each_after_def)

lemma each_after_snoc [simp]: "each_after P (xs @ [x]) \<longleftrightarrow> each_after P xs \<and> P xs x"
proof
  assume h: "each_after P (xs @ [x])"
  have "P pre y" if "xs = pre @ y # post" for pre y post
    using h that unfolding each_after_def by (metis append.assoc append_Cons)
  moreover have "P xs x" using h unfolding each_after_def by blast
  ultimately show "each_after P xs \<and> P xs x" by (simp add: each_after_def)
next
  assume h: "each_after P xs \<and> P xs x"
  show "each_after P (xs @ [x])"
    unfolding each_after_def
  proof (intro allI impI)
    fix pre y post assume e: "xs @ [x] = pre @ y # post"
    show "P pre y"
    proof (cases post rule: rev_cases)
      case Nil
      with e h show ?thesis by simp
    next
      case (snoc post' z)
      with e have "xs = pre @ y # post'" by simp
      with h show ?thesis by (simp add: each_after_def)
    qed
  qed
qed

lemma each_after_append: "each_after P (xs @ ys) \<Longrightarrow> each_after P xs"
  by (induction ys rule: rev_induct) (auto simp flip: append_assoc)

lemma each_after_nth: "each_after P xs \<Longrightarrow> i < length xs \<Longrightarrow> P (take i xs) (xs ! i)"
  unfolding each_after_def by (metis id_take_nth_drop)

definition opens :: "int \<Rightarrow> op \<Rightarrow> bool" where
  "opens h x \<longleftrightarrow> op_op x = OpOpen \<and> op_h x = Some h"

definition closes :: "int \<Rightarrow> op \<Rightarrow> bool" where
  "closes h x \<longleftrightarrow> op_op x = OpClose \<and> op_h x = Some h"

text \<open>After \<open>pre\<close>, handle \<open>h\<close> is open on stream \<open>s\<close>: opened there and not closed since.\<close>

definition live :: "op list \<Rightarrow> int \<Rightarrow> int \<Rightarrow> bool" where
  "live pre s h \<longleftrightarrow> (\<exists>a x b. pre = a @ x # b \<and> opens h x \<and> op_s x = s \<and> (\<forall>y \<in> set b. \<not> closes h y))"

lemma live_Nil [simp]: "\<not> live [] s h"
  by (simp add: live_def)

lemma live_snoc: "live (pre @ [y]) s h \<longleftrightarrow> (opens h y \<and> op_s y = s) \<or> (live pre s h \<and> \<not> closes h y)"
proof
  assume "live (pre @ [y]) s h"
  then obtain a x b where e: "pre @ [y] = a @ x # b" and x: "opens h x" "op_s x = s"
    and b: "\<forall>z \<in> set b. \<not> closes h z" by (auto simp: live_def)
  show "(opens h y \<and> op_s y = s) \<or> (live pre s h \<and> \<not> closes h y)"
  proof (cases b rule: rev_cases)
    case Nil
    with e x show ?thesis by simp
  next
    case (snoc b' z)
    with e have "pre = a @ x # b'" "z = y" by simp_all
    with x b snoc show ?thesis by (auto simp: live_def)
  qed
next
  assume h: "(opens h y \<and> op_s y = s) \<or> (live pre s h \<and> \<not> closes h y)"
  show "live (pre @ [y]) s h"
  proof (cases "opens h y \<and> op_s y = s")
    case True
    then show ?thesis unfolding live_def by (intro exI [of _ pre] exI [of _ y] exI [of _ "[]"]) simp
  next
    case False
    with h obtain a x b where "pre = a @ x # b" "opens h x" "op_s x = s"
      "\<forall>z \<in> set b. \<not> closes h z" "\<not> closes h y" by (auto simp: live_def)
    then show ?thesis unfolding live_def
      by (intro exI [of _ a] exI [of _ x] exI [of _ "b @ [y]"]) auto
  qed
qed

definition target_ok :: "header \<Rightarrow> op \<Rightarrow> bool" where
  "target_ok h x \<longleftrightarrow> (case op_tgt x of None \<Rightarrow> False | Some t \<Rightarrow> 0 \<le> t \<and> t < int (length (hdr_targets h)))"

definition nat_field :: "int option \<Rightarrow> bool" where
  "nat_field v \<longleftrightarrow> (case v of None \<Rightarrow> False | Some n \<Rightarrow> 0 \<le> n)"

definition handle_ok :: "op list \<Rightarrow> op \<Rightarrow> bool" where
  "handle_ok pre x \<longleftrightarrow> (case op_h x of None \<Rightarrow> False | Some h \<Rightarrow> live pre (op_s x) h)"

definition no_position :: "op \<Rightarrow> bool" where
  "no_position x \<longleftrightarrow> op_off x = None \<and> op_len x = None"

fun kind_spec :: "op_kind \<Rightarrow> header \<Rightarrow> op list \<Rightarrow> op \<Rightarrow> bool" where
  "kind_spec OpOpen h pre x \<longleftrightarrow> target_ok h x
     \<and> (case op_h x of None \<Rightarrow> False | Some hh \<Rightarrow> \<forall>y \<in> set pre. \<not> opens hh y)
     \<and> mode_valid (op_mode x) \<and> no_position x"
| "kind_spec OpRead h pre x \<longleftrightarrow> handle_ok pre x \<and> op_tgt x = None \<and> nat_field (op_off x) \<and> nat_field (op_len x)"
| "kind_spec OpWrite h pre x \<longleftrightarrow> handle_ok pre x \<and> op_tgt x = None \<and> nat_field (op_off x) \<and> nat_field (op_len x)"
| "kind_spec OpFsync h pre x \<longleftrightarrow> handle_ok pre x \<and> op_tgt x = None \<and> no_position x"
| "kind_spec OpClose h pre x \<longleftrightarrow> handle_ok pre x \<and> op_tgt x = None \<and> no_position x"
| "kind_spec OpStat h pre x \<longleftrightarrow> target_ok h x \<and> op_h x = None \<and> no_position x"
| "kind_spec OpGet h pre x \<longleftrightarrow> target_ok h x \<and> op_h x = None \<and> nat_field (op_off x) \<and> nat_field (op_len x)"
| "kind_spec OpPut h pre x \<longleftrightarrow> target_ok h x \<and> op_h x = None \<and> op_off x = None \<and> nat_field (op_len x)"
| "kind_spec OpHead h pre x \<longleftrightarrow> target_ok h x \<and> op_h x = None \<and> no_position x"
| "kind_spec OpDelete h pre x \<longleftrightarrow> target_ok h x \<and> op_h x = None \<and> no_position x"
| "kind_spec (OpOther _) h pre x \<longleftrightarrow> False"

definition ret_spec :: "header \<Rightarrow> op \<Rightarrow> bool" where
  "ret_spec h x \<longleftrightarrow>
     (case op_ret x of None \<Rightarrow> True
      | Some r \<Rightarrow> (op_op x = OpRead \<or> op_op x = OpGet) \<and> 0 \<le> r
          \<and> (case op_len x of None \<Rightarrow> True | Some n \<Rightarrow> r \<le> n)
          \<and> \<not> (0 < hdr_version h \<and> hdr_version h < VersionPartialTransfer))"

definition id_spec :: "op list \<Rightarrow> op \<Rightarrow> bool" where
  "id_spec pre x \<longleftrightarrow>
     (case op_id x of None \<Rightarrow> False
      | Some i \<Rightarrow> 0 \<le> i \<and> (\<forall>y \<in> set pre. op_id y \<noteq> Some i)
          \<and> (\<forall>y \<in> set pre. op_s y = op_s x \<and> group_of y = group_of x \<longrightarrow>
               (\<exists>j. op_id y = Some j \<and> j < i)))"

definition op_spec :: "header \<Rightarrow> op list \<Rightarrow> op \<Rightarrow> bool" where
  "op_spec h pre x \<longleftrightarrow>
     (\<forall>y \<in> set pre. op_t y \<le> op_t x)
     \<and> id_spec pre x
     \<and> (op_op x \<noteq> OpOpen \<longrightarrow> op_mode x = ModeAbsent \<and> op_flags x = [])
     \<and> kind_spec (op_op x) h pre x
     \<and> ret_spec h x
     \<and> (case op_dur x of None \<Rightarrow> True | Some d \<Rightarrow> 0 \<le> d)"

definition ops_spec :: "header \<Rightarrow> op list \<Rightarrow> bool" where
  "ops_spec h ops \<longleftrightarrow> each_after (op_spec h) ops"

definition summary_spec :: "header \<Rightarrow> op list \<Rightarrow> bool" where
  "summary_spec h ops \<longleftrightarrow>
     sum_num_ops (hdr_summary h) = int (length ops)
     \<and> sum_num_streams (hdr_summary h) = int (card (op_s ` set ops))
     \<and> sum_num_partial_reads (hdr_summary h) = int (length (filter isPartialTransfer ops))"

section \<open>Reports\<close>

lemma report_ok_addErrors [ok_simps]: "report_ok (addErrors es r) \<longleftrightarrow> report_ok r \<and> es = []"
  by (auto simp: report_ok_def addErrors_def)

lemma addErrors_Nil [simp]: "addErrors [] r = r"
  by (simp add: addErrors_def)

lemma addErrors_frame [simp]:
  "rep_header (addErrors es r) = rep_header r"
  "rep_num_ops (addErrors es r) = rep_num_ops r"
  "rep_num_partial (addErrors es r) = rep_num_partial r"
  "rep_streams (addErrors es r) = rep_streams r"
  "rep_warnings (addErrors es r) = rep_warnings r"
  by (simp_all add: addErrors_def)

lemma addIssues_frame [simp]:
  "v_handles (addIssues es vs) = v_handles vs"
  "v_seen (addIssues es vs) = v_seen vs"
  "v_last (addIssues es vs) = v_last vs"
  "v_lastT (addIssues es vs) = v_lastT vs"
  "v_sawAny (addIssues es vs) = v_sawAny vs"
  "v_rep (addIssues es vs) = addErrors es (v_rep vs)"
  by (simp_all add: addIssues_def)

lemma report_ok_update [ok_simps]:
  "report_ok (r\<lparr>rep_num_ops := n\<rparr>) = report_ok r"
  "report_ok (r\<lparr>rep_num_partial := n\<rparr>) = report_ok r"
  "report_ok (r\<lparr>rep_streams := ss\<rparr>) = report_ok r"
  "report_ok (r\<lparr>rep_warnings := ws\<rparr>) = report_ok r"
  by (simp_all add: report_ok_def)


section \<open>What the validator's state says about the ops read so far\<close>

definition time_inv :: "op list \<Rightarrow> bool \<Rightarrow> int \<Rightarrow> bool" where
  "time_inv pre saw lastT \<longleftrightarrow> (saw \<longleftrightarrow> pre \<noteq> [])
     \<and> (pre \<noteq> [] \<longrightarrow> lastT \<in> op_t ` set pre \<and> (\<forall>y \<in> set pre. op_t y \<le> lastT))"

definition seen_inv :: "op list \<Rightarrow> (int \<times> int) list \<Rightarrow> bool" where
  "seen_inv pre seen \<longleftrightarrow> (\<forall>i. map_of seen i = None \<longleftrightarrow> (\<forall>y \<in> set pre. op_id y \<noteq> Some i))"

definition in_group :: "int \<times> int \<Rightarrow> op \<Rightarrow> bool" where
  "in_group sg y \<longleftrightarrow> (op_s y, group_of y) = sg"

definition last_inv :: "op list \<Rightarrow> ((int \<times> int) \<times> int) list \<Rightarrow> bool" where
  "last_inv pre lst \<longleftrightarrow> (\<forall>sg. case map_of lst sg of
      None \<Rightarrow> \<forall>y \<in> set pre. \<not> in_group sg y
    | Some l \<Rightarrow> (\<exists>y \<in> set pre. in_group sg y \<and> op_id y = Some l)
        \<and> (\<forall>y \<in> set pre. in_group sg y \<longrightarrow> (\<exists>j. op_id y = Some j \<and> j \<le> l)))"

definition handles_inv :: "op list \<Rightarrow> (int \<times> handleState) list \<Rightarrow> bool" where
  "handles_inv pre hs \<longleftrightarrow>
     (\<forall>h. map_of hs h = None \<longleftrightarrow> (\<forall>y \<in> set pre. \<not> opens h y))
     \<and> (\<forall>h s. live pre s h \<longleftrightarrow>
            (\<exists>st. map_of hs h = Some st \<and> \<not> hs_closed st \<and> hs_stream st = s))"

definition vinv :: "op list \<Rightarrow> vstate \<Rightarrow> bool" where
  "vinv pre vs \<longleftrightarrow> time_inv pre (v_sawAny vs) (v_lastT vs) \<and> seen_inv pre (v_seen vs)
     \<and> last_inv pre (v_last vs) \<and> handles_inv pre (v_handles vs)"

definition vcount :: "op list \<Rightarrow> report \<Rightarrow> bool" where
  "vcount pre r \<longleftrightarrow> rep_num_ops r = int (length pre)
     \<and> rep_num_partial r = int (length (filter isPartialTransfer pre))
     \<and> fst ` set (rep_streams r) = op_s ` set pre \<and> distinct (map fst (rep_streams r))"

section \<open>Each check succeeds exactly when its condition holds\<close>

lemma requireTarget_ok [ok_simps]: "fst (requireTarget line x h) = [] \<longleftrightarrow> target_ok h x"
  by (auto simp: requireTarget_def target_ok_def split: option.splits)

lemma requireTarget_snd: "target_ok h x \<Longrightarrow> snd (requireTarget line x h) = op_tgt x"
  by (auto simp: requireTarget_def target_ok_def split: option.splits)

lemma simple_checks_ok [ok_simps]:
  "forbidTarget line x = [] \<longleftrightarrow> op_tgt x = None"
  "forbidHandle line x = [] \<longleftrightarrow> op_h x = None"
  "requireLen line x = [] \<longleftrightarrow> nat_field (op_len x)"
  "requireOffLen line x = [] \<longleftrightarrow> nat_field (op_off x) \<and> nat_field (op_len x)"
  "forbidPositional line x = [] \<longleftrightarrow> no_position x"
  "notOpenIssues line x = [] \<longleftrightarrow> (op_op x \<noteq> OpOpen \<longrightarrow> op_mode x = ModeAbsent \<and> op_flags x = [])"
  by (auto simp: forbidTarget_def forbidHandle_def requireLen_def requireOffLen_def
      forbidPositional_def notOpenIssues_def nat_field_def no_position_def split: option.splits)

lemma validateRet_ok [ok_simps]: "validateRet line x h = [] \<longleftrightarrow> ret_spec h x"
  by (auto simp: validateRet_def ret_spec_def minVersion_def split: option.splits)

lemma requireOpenHandle_snd: "snd (requireOpenHandle line x hs) \<longleftrightarrow> fst (requireOpenHandle line x hs) = []"
  by (auto simp: requireOpenHandle_def split: option.splits)

lemma handles_inv_None: "handles_inv pre hs \<Longrightarrow> map_of hs h = None \<longleftrightarrow> (\<forall>y \<in> set pre. \<not> opens h y)"
  by (simp add: handles_inv_def)

lemma handles_inv_live:
  "handles_inv pre hs \<Longrightarrow> live pre s h \<longleftrightarrow>
     (\<exists>st. map_of hs h = Some st \<and> \<not> hs_closed st \<and> hs_stream st = s)"
  by (simp add: handles_inv_def)

lemma requireOpenHandle_ok [ok_simps]:
  "handles_inv pre hs \<Longrightarrow> fst (requireOpenHandle line x hs) = [] \<longleftrightarrow> handle_ok pre x"
  by (simp add: requireOpenHandle_def handle_ok_def handles_inv_live split: option.split)

section \<open>The invariants are kept\<close>

lemma time_inv_step:
  "time_inv pre saw t \<Longrightarrow> \<forall>y \<in> set pre. op_t y \<le> op_t x \<Longrightarrow>
     time_inv (pre @ [x]) True (if \<not> saw \<or> op_t x > t then op_t x else t)"
  by (fastforce simp: time_inv_def)

lemma time_inv_check:
  "time_inv pre saw t \<Longrightarrow> \<not> (saw \<and> op_t x < t) \<longleftrightarrow> (\<forall>y \<in> set pre. op_t y \<le> op_t x)"
  by (fastforce simp: time_inv_def)

lemma seen_inv_step:
  "seen_inv pre seen \<Longrightarrow> op_id x = Some i \<Longrightarrow> seen_inv (pre @ [x]) (AList.update i line seen)"
  by (auto simp: seen_inv_def)

lemma last_inv_None: "last_inv pre lst \<Longrightarrow> map_of lst sg = None \<Longrightarrow> y \<in> set pre \<Longrightarrow> \<not> in_group sg y"
  unfolding last_inv_def by (drule spec [of _ sg]) simp

lemma last_inv_Some:
  assumes "last_inv pre lst" and "map_of lst sg = Some l"
  shows "\<exists>y \<in> set pre. in_group sg y \<and> op_id y = Some l"
    and "y \<in> set pre \<Longrightarrow> in_group sg y \<Longrightarrow> \<exists>j. op_id y = Some j \<and> j \<le> l"
  using assms unfolding last_inv_def by (drule_tac [1-2] spec [of _ sg]) simp_all

lemma last_inv_lookup:
  assumes "last_inv pre lst"
  shows "(case map_of lst sg of None \<Rightarrow> True | Some l \<Rightarrow> l < i) \<longleftrightarrow>
    (\<forall>y \<in> set pre. in_group sg y \<longrightarrow> (\<exists>j. op_id y = Some j \<and> j < i))"
proof (cases "map_of lst sg")
  case None
  with last_inv_None [OF assms] show ?thesis by auto
next
  case (Some l)
  then show ?thesis
    using last_inv_Some(1) [OF assms Some] last_inv_Some(2) [OF assms Some] by fastforce
qed

lemma last_inv_step:
  assumes inv: "last_inv pre lst" and x: "in_group sg x" "op_id x = Some i"
    and ord: "\<forall>y \<in> set pre. in_group sg y \<longrightarrow> (\<exists>j. op_id y = Some j \<and> j < i)"
  shows "last_inv (pre @ [x]) (AList.update sg i lst)"
  unfolding last_inv_def
proof
  fix sg'
  show "case map_of (AList.update sg i lst) sg' of
      None \<Rightarrow> \<forall>y \<in> set (pre @ [x]). \<not> in_group sg' y
    | Some l \<Rightarrow> (\<exists>y \<in> set (pre @ [x]). in_group sg' y \<and> op_id y = Some l)
        \<and> (\<forall>y \<in> set (pre @ [x]). in_group sg' y \<longrightarrow> (\<exists>j. op_id y = Some j \<and> j \<le> l))"
  proof (cases "sg' = sg")
    case True
    with x ord show ?thesis by fastforce
  next
    case False
    with x have nx: "\<not> in_group sg' x" by (simp add: in_group_def)
    show ?thesis
    proof (cases "map_of lst sg'")
      case None
      with False nx last_inv_None [OF inv None] show ?thesis by simp
    next
      case (Some l)
      with False nx last_inv_Some [OF inv Some] show ?thesis by simp
    qed
  qed
qed

lemma live_opens: "live pre s h \<Longrightarrow> \<exists>y \<in> set pre. opens h y"
  by (auto simp: live_def)

lemma handles_invI:
  assumes "\<And>h. map_of hs h = None \<longleftrightarrow> (\<forall>y \<in> set pre. \<not> opens h y)"
    and "\<And>h s. live pre s h \<longleftrightarrow> (\<exists>st. map_of hs h = Some st \<and> \<not> hs_closed st \<and> hs_stream st = s)"
  shows "handles_inv pre hs"
  using assms by (simp add: handles_inv_def)

lemma handles_inv_open:
  assumes inv: "handles_inv pre hs" and x: "opens h x" and fresh: "\<forall>y \<in> set pre. \<not> opens h y"
    and st: "hs_stream st = op_s x" "\<not> hs_closed st"
  shows "handles_inv (pre @ [x]) (AList.update h st hs)"
proof (rule handles_invI)
  have other: "opens h' x \<longleftrightarrow> h' = h" "\<not> closes h' x" for h'
    using x by (auto simp: opens_def closes_def)
  fix h'
  show "map_of (AList.update h st hs) h' = None \<longleftrightarrow> (\<forall>y \<in> set (pre @ [x]). \<not> opens h' y)"
    using handles_inv_None [OF inv, of h'] by (simp add: other)
  fix s
  show "live (pre @ [x]) s h' \<longleftrightarrow>
      (\<exists>st'. map_of (AList.update h st hs) h' = Some st' \<and> \<not> hs_closed st' \<and> hs_stream st' = s)"
  proof (cases "h' = h")
    case True
    have "\<not> live pre s h" using fresh live_opens by blast
    with True st show ?thesis by (auto simp: live_snoc other)
  next
    case False
    with handles_inv_live [OF inv, of s h'] show ?thesis by (simp add: live_snoc other)
  qed
qed

lemma handles_inv_close:
  assumes inv: "handles_inv pre hs" and x: "closes h x" and st: "map_of hs h = Some st"
  shows "handles_inv (pre @ [x]) (AList.update h (st\<lparr>hs_closed := True\<rparr>) hs)"
proof (rule handles_invI)
  have other: "closes h' x \<longleftrightarrow> h' = h" "\<not> opens h' x" for h'
    using x by (auto simp: opens_def closes_def)
  fix h'
  show "map_of (AList.update h (st\<lparr>hs_closed := True\<rparr>) hs) h' = None \<longleftrightarrow>
      (\<forall>y \<in> set (pre @ [x]). \<not> opens h' y)"
    using handles_inv_None [OF inv, of h'] handles_inv_None [OF inv, of h] st by (auto simp: other)
  fix s
  show "live (pre @ [x]) s h' \<longleftrightarrow> (\<exists>st'. map_of (AList.update h (st\<lparr>hs_closed := True\<rparr>) hs) h' = Some st'
      \<and> \<not> hs_closed st' \<and> hs_stream st' = s)"
    using handles_inv_live [OF inv, of s h'] by (cases "h' = h") (auto simp: live_snoc other)
qed

lemma handles_inv_other:
  "handles_inv pre hs \<Longrightarrow> op_op x \<noteq> OpOpen \<Longrightarrow> op_op x \<noteq> OpClose \<Longrightarrow> handles_inv (pre @ [x]) hs"
  by (simp add: handles_inv_def live_snoc opens_def closes_def)

lemma id_spec_state:
  assumes "seen_inv pre seen" "last_inv pre lst" "op_id x = Some i"
  shows "id_spec pre x \<longleftrightarrow> 0 \<le> i \<and> map_of seen i = None
     \<and> (case map_of lst (op_s x, group_of x) of None \<Rightarrow> True | Some l \<Rightarrow> l < i)"
proof -
  have "map_of seen i = None \<longleftrightarrow> (\<forall>y \<in> set pre. op_id y \<noteq> Some i)"
    using assms(1) by (simp add: seen_inv_def)
  then show ?thesis
    using assms(3) by (simp add: id_spec_def last_inv_lookup [OF assms(2)] in_group_def)
qed


section \<open>One pass of the loop body\<close>

lemma validateArrival_frame [simp]:
  "v_handles (validateArrival line x vs) = v_handles vs"
  "v_seen (validateArrival line x vs) = v_seen vs"
  "v_last (validateArrival line x vs) = v_last vs"
  "v_sawAny (validateArrival line x vs) = True"
  "v_lastT (validateArrival line x vs) =
     (if \<not> v_sawAny vs \<or> op_t x > v_lastT vs then op_t x else v_lastT vs)"
  "rep_header (v_rep (validateArrival line x vs)) = rep_header (v_rep vs)"
  "rep_num_ops (v_rep (validateArrival line x vs)) = rep_num_ops (v_rep vs) + 1"
  "rep_num_partial (v_rep (validateArrival line x vs)) = rep_num_partial (v_rep vs)"
  "rep_streams (v_rep (validateArrival line x vs)) = bumpCount (op_s x) (rep_streams (v_rep vs))"
  by (simp_all add: validateArrival_def Let_def)

lemma validateArrival_ok [ok_simps]:
  "report_ok (v_rep (validateArrival line x vs)) \<longleftrightarrow>
     report_ok (v_rep vs) \<and> \<not> (v_sawAny vs \<and> op_t x < v_lastT vs)"
  by (simp add: validateArrival_def ok_simps Let_def)

lemma validateOpID_frame [simp]:
  "v_handles (validateOpID line x vs) = v_handles vs"
  "v_lastT (validateOpID line x vs) = v_lastT vs"
  "v_sawAny (validateOpID line x vs) = v_sawAny vs"
  "rep_header (v_rep (validateOpID line x vs)) = rep_header (v_rep vs)"
  "rep_num_ops (v_rep (validateOpID line x vs)) = rep_num_ops (v_rep vs)"
  "rep_num_partial (v_rep (validateOpID line x vs)) = rep_num_partial (v_rep vs)"
  "rep_streams (v_rep (validateOpID line x vs)) = rep_streams (v_rep vs)"
  by (auto simp: validateOpID_def Let_def split: option.splits prod.splits)

lemma validateOpID_ok:
  assumes "seen_inv pre (v_seen vs)" "last_inv pre (v_last vs)"
  shows "report_ok (v_rep (validateOpID line x vs)) \<longleftrightarrow> report_ok (v_rep vs) \<and> id_spec pre x"
proof (cases "op_id x")
  case None
  then show ?thesis by (simp add: validateOpID_def ok_simps id_spec_def)
next
  case (Some i)
  then show ?thesis
    unfolding id_spec_state [OF assms Some] validateOpID_def Let_def
    by (cases "map_of (v_seen vs) i"; cases "map_of (v_last vs) (op_s x, group_of x)")
      (auto simp: ok_simps)
qed

lemma validateOpID_inv:
  assumes "seen_inv pre (v_seen vs)" "last_inv pre (v_last vs)" "id_spec pre x"
  shows "seen_inv (pre @ [x]) (v_seen (validateOpID line x vs))"
    and "last_inv (pre @ [x]) (v_last (validateOpID line x vs))"
proof -
  from assms(3) obtain i where i: "op_id x = Some i" by (auto simp: id_spec_def split: option.splits)
  with assms have st: "0 \<le> i" "map_of (v_seen vs) i = None" by (simp_all add: id_spec_state)
  then have "v_seen (validateOpID line x vs) = AList.update i line (v_seen vs)"
    "v_last (validateOpID line x vs) = AList.update (op_s x, group_of x) i (v_last vs)"
    using i by (simp_all add: validateOpID_def Let_def)
  moreover have "\<forall>y \<in> set pre. in_group (op_s x, group_of x) y \<longrightarrow> (\<exists>j. op_id y = Some j \<and> j < i)"
    using assms(3) i by (simp add: id_spec_def in_group_def)
  ultimately show "seen_inv (pre @ [x]) (v_seen (validateOpID line x vs))"
    "last_inv (pre @ [x]) (v_last (validateOpID line x vs))"
    using i by (simp_all add: seen_inv_step [OF assms(1)] last_inv_step [OF assms(2)] in_group_def)
qed

lemma validateKind_frame [simp]:
  "v_seen (validateKind k line x vs) = v_seen vs"
  "v_last (validateKind k line x vs) = v_last vs"
  "v_lastT (validateKind k line x vs) = v_lastT vs"
  "v_sawAny (validateKind k line x vs) = v_sawAny vs"
  "rep_header (v_rep (validateKind k line x vs)) = rep_header (v_rep vs)"
  "rep_num_ops (v_rep (validateKind k line x vs)) = rep_num_ops (v_rep vs)"
  "rep_num_partial (v_rep (validateKind k line x vs)) = rep_num_partial (v_rep vs)"
  "rep_streams (v_rep (validateKind k line x vs)) = rep_streams (v_rep vs)"
  by (cases k; simp add: validateOpen_def validateFsyncClose_def Let_def split: prod.split)+

lemma modeIssues_ok:
  "(if m = ModeAbsent then [iss line ''mode'' (MOpMissing OpOpen)]
    else if \<not> mode_valid m then [iss line ''mode'' (MInvalidMode m)] else []) = [] \<longleftrightarrow> mode_valid m"
  by (cases m) auto

lemma validateOpen_ok:
  assumes inv: "handles_inv pre (v_handles vs)"
  shows "report_ok (v_rep (validateOpen line x vs)) \<longleftrightarrow>
       report_ok (v_rep vs) \<and> kind_spec OpOpen (rep_header (v_rep vs)) pre x"
proof -
  obtain ti tg where t: "requireTarget line x (rep_header (v_rep vs)) = (ti, tg)" by fastforce
  have ti: "ti = [] \<longleftrightarrow> target_ok (rep_header (v_rep vs)) x"
    using requireTarget_ok [of line x "rep_header (v_rep vs)"] by (simp add: t)
  show ?thesis
  proof (cases "op_h x")
    case None
    then show ?thesis by (simp add: validateOpen_def t ok_simps)
  next
    case (Some h)
    show ?thesis
    proof (cases "map_of (v_handles vs) h")
      case None
      then have "\<forall>y \<in> set pre. \<not> opens h y" using handles_inv_None [OF inv] by simp
      with None Some show ?thesis
        by (cases tg) (simp_all add: validateOpen_def t ti ok_simps modeIssues_ok del: if_split)
    next
      case (Some st)
      then have "\<not> (\<forall>y \<in> set pre. \<not> opens h y)" using handles_inv_None [OF inv, of h] by simp
      with Some \<open>op_h x = Some h\<close> show ?thesis by (simp add: validateOpen_def t ok_simps)
    qed
  qed
qed

lemma validateFsyncClose_ok:
  assumes inv: "handles_inv pre (v_handles vs)"
  shows "report_ok (v_rep (validateFsyncClose line x vs)) \<longleftrightarrow>
       report_ok (v_rep vs) \<and> handle_ok pre x \<and> op_tgt x = None \<and> no_position x"
proof -
  obtain hi good where h: "requireOpenHandle line x (v_handles vs) = (hi, good)" by fastforce
  have "hi = [] \<longleftrightarrow> handle_ok pre x" using requireOpenHandle_ok [OF inv, of line x] by (simp add: h)
  then show ?thesis by (simp add: validateFsyncClose_def h ok_simps)
qed

lemma validateKind_ok:
  "handles_inv pre (v_handles vs) \<Longrightarrow> op_kind_valid k \<Longrightarrow>
     report_ok (v_rep (validateKind k line x vs)) \<longleftrightarrow>
       report_ok (v_rep vs) \<and> kind_spec k (rep_header (v_rep vs)) pre x"
  by (cases k) (simp_all add: ok_simps validateOpen_ok validateFsyncClose_ok del: kind_spec.simps(1))

lemma validateKind_inv:
  assumes inv: "handles_inv pre (v_handles vs)" and spec: "kind_spec (op_op x) (rep_header (v_rep vs)) pre x"
  shows "handles_inv (pre @ [x]) (v_handles (validateKind (op_op x) line x vs))"
proof (cases "op_op x = OpOpen \<or> op_op x = OpClose")
  case False
  then have "v_handles (validateKind (op_op x) line x vs) = v_handles vs"
    by (cases "op_op x") (auto simp: validateFsyncClose_def Let_def split: prod.split)
  with False inv show ?thesis by (simp add: handles_inv_other)
next
  case True
  then show ?thesis
  proof
    assume k: "op_op x = OpOpen"
    with spec obtain h t where h: "op_h x = Some h" "\<forall>y \<in> set pre. \<not> opens h y"
      and t: "target_ok (rep_header (v_rep vs)) x" "op_tgt x = Some t"
      by (auto simp: target_ok_def split: option.splits)
    have n: "map_of (v_handles vs) h = None" using h(2) handles_inv_None [OF inv] by simp
    have "v_handles (validateOpen line x vs) =
        AList.update h \<lparr>hs_stream = op_s x, hs_target = t, hs_openLine = line, hs_closed = False\<rparr> (v_handles vs)"
      using h n t requireTarget_snd [OF t(1), of line]
      by (cases "requireTarget line x (rep_header (v_rep vs))") (simp add: validateOpen_def)
    with inv h k show ?thesis by (simp add: handles_inv_open opens_def)
  next
    assume k: "op_op x = OpClose"
    with spec have hok: "handle_ok pre x" by simp
    then obtain h where h: "op_h x = Some h" "live pre (op_s x) h"
      by (auto simp: handle_ok_def split: option.splits)
    from h(2) obtain st where st: "map_of (v_handles vs) h = Some st"
      by (auto simp: handles_inv_live [OF inv])
    have "snd (requireOpenHandle line x (v_handles vs))"
      using hok inv by (simp add: requireOpenHandle_snd ok_simps)
    then have "v_handles (validateFsyncClose line x vs) =
        AList.update h (st\<lparr>hs_closed := True\<rparr>) (v_handles vs)"
      using h k st by (cases "requireOpenHandle line x (v_handles vs)") (simp add: validateFsyncClose_def)
    with inv h k st show ?thesis by (simp add: handles_inv_close closes_def)
  qed
qed

lemma validateTail_frame [simp]:
  "v_handles (validateTail line x vs) = v_handles vs"
  "v_seen (validateTail line x vs) = v_seen vs"
  "v_last (validateTail line x vs) = v_last vs"
  "v_lastT (validateTail line x vs) = v_lastT vs"
  "v_sawAny (validateTail line x vs) = v_sawAny vs"
  "rep_header (v_rep (validateTail line x vs)) = rep_header (v_rep vs)"
  "rep_num_ops (v_rep (validateTail line x vs)) = rep_num_ops (v_rep vs)"
  "rep_num_partial (v_rep (validateTail line x vs)) =
     rep_num_partial (v_rep vs) + (if isPartialTransfer x then 1 else 0)"
  "rep_streams (v_rep (validateTail line x vs)) = rep_streams (v_rep vs)"
  by (simp_all add: validateTail_def Let_def)

lemma validateTail_ok [ok_simps]:
  "report_ok (v_rep (validateTail line x vs)) \<longleftrightarrow> report_ok (v_rep vs)
     \<and> ret_spec (rep_header (v_rep vs)) x \<and> (case op_dur x of None \<Rightarrow> True | Some d \<Rightarrow> 0 \<le> d)"
  by (auto simp: validateTail_def Let_def ok_simps split: option.splits)

lemma kind_spec_valid: "kind_spec k h pre x \<Longrightarrow> op_kind_valid k"
  by (cases k) auto

lemma validateOp_header [simp]:
  "rep_header (v_rep (fst (validateOp line x vs))) = rep_header (v_rep vs)"
  by (simp add: validateOp_def Let_def)

lemma validateOp_ok:
  assumes "vinv pre vs"
  shows "report_ok (v_rep (fst (validateOp line x vs))) \<longleftrightarrow>
    report_ok (v_rep vs) \<and> op_spec (rep_header (v_rep vs)) pre x"
proof -
  let ?va = "validateArrival line x vs"
  let ?vi = "validateOpID line x ?va"
  let ?vn = "addIssues (notOpenIssues line x) ?vi"
  from assms have inv: "time_inv pre (v_sawAny vs) (v_lastT vs)" "handles_inv pre (v_handles ?vn)"
    "seen_inv pre (v_seen ?va)" "last_inv pre (v_last ?va)" by (simp_all add: vinv_def)
  have base: "report_ok (v_rep ?vi) \<longleftrightarrow>
      report_ok (v_rep vs) \<and> (\<forall>y \<in> set pre. op_t y \<le> op_t x) \<and> id_spec pre x"
    by (simp add: validateOpID_ok [OF inv(3,4)] ok_simps time_inv_check [OF inv(1)] conj_assoc del: de_Morgan_conj)
  show ?thesis
  proof (cases "op_kind_valid (op_op x)")
    case False
    then have "\<not> op_spec (rep_header (v_rep vs)) pre x"
      using kind_spec_valid by (auto simp: op_spec_def)
    with False show ?thesis by (simp add: validateOp_def ok_simps)
  next
    case True
    then show ?thesis
      by (simp add: validateOp_def Let_def ok_simps validateKind_ok [OF inv(2)] base op_spec_def)
  qed
qed

lemma validateOp_inv:
  assumes inv: "vinv pre vs" and spec: "op_spec (rep_header (v_rep vs)) pre x"
  shows "vinv (pre @ [x]) (fst (validateOp line x vs))"
proof -
  from spec have s: "\<forall>y \<in> set pre. op_t y \<le> op_t x" "id_spec pre x"
    "kind_spec (op_op x) (rep_header (v_rep vs)) pre x" by (simp_all add: op_spec_def)
  from s(3) have k: "op_kind_valid (op_op x)" by (rule kind_spec_valid)
  let ?vn = "addIssues (notOpenIssues line x) (validateOpID line x (validateArrival line x vs))"
  from inv have "handles_inv pre (v_handles ?vn)" by (simp add: vinv_def)
  from validateKind_inv [OF this, of x line] s(3)
  have h: "handles_inv (pre @ [x]) (v_handles (validateKind (op_op x) line x ?vn))" by simp
  from inv have "seen_inv pre (v_seen (validateArrival line x vs))"
    "last_inv pre (v_last (validateArrival line x vs))" by (simp_all add: vinv_def)
  note ids = validateOpID_inv [OF this s(2), of line]
  from inv have "time_inv pre (v_sawAny vs) (v_lastT vs)" by (simp add: vinv_def)
  from time_inv_step [OF this s(1)] h ids k show ?thesis
    by (simp add: vinv_def validateOp_def Let_def)
qed

lemma bumpCount_keys:
  "fst ` set (bumpCount k al) = insert k (fst ` set al)"
  "distinct (map fst al) \<Longrightarrow> distinct (map fst (bumpCount k al))"
  by (simp_all add: bumpCount_def distinct_update flip: dom_map_of_alist)

lemma validateOp_count:
  "vcount pre (v_rep vs) \<Longrightarrow> op_kind_valid (op_op x) \<Longrightarrow>
     vcount (pre @ [x]) (v_rep (fst (validateOp line x vs)))"
  by (auto simp: vcount_def validateOp_def Let_def bumpCount_keys)

lemma validateOp_continues: "snd (validateOp line x vs) \<longleftrightarrow> op_kind_valid (op_op x)"
  by (simp add: validateOp_def Let_def)

text \<open>Errors are never retracted, whatever the state.\<close>

lemma validateKind_grows: "report_ok (v_rep (validateKind k line x vs)) \<Longrightarrow> report_ok (v_rep vs)"
  by (cases k; simp add: validateOpen_def validateFsyncClose_def Let_def ok_simps split: prod.splits)

lemma validateOpID_grows: "report_ok (v_rep (validateOpID line x vs)) \<Longrightarrow> report_ok (v_rep vs)"
  by (cases "op_id x") (simp_all add: validateOpID_def Let_def ok_simps split: prod.splits)

lemma validateOp_grows: "report_ok (v_rep (fst (validateOp line x vs))) \<Longrightarrow> report_ok (v_rep vs)"
  by (auto simp: validateOp_def Let_def ok_simps split: if_splits
      dest!: validateKind_grows validateOpID_grows)


section \<open>The whole loop\<close>

fun foldOps :: "('s \<Rightarrow> op \<Rightarrow> 'e + 's) \<Rightarrow> op list \<Rightarrow> 's \<Rightarrow> 'e + 's" where
  "foldOps f [] s = Inr s"
| "foldOps f (x # xs) s = (case f s x of Inl e \<Rightarrow> Inl e | Inr s' \<Rightarrow> foldOps f xs s')"

fun runOps :: "(int \<times> op) list \<Rightarrow> vstate \<Rightarrow> vstate" where
  "runOps [] vs = vs"
| "runOps ((line, x) # xs) vs = runOps xs (fst (validateOp line x vs))"

lemma runOps_append: "runOps (xs @ ys) vs = runOps ys (runOps xs vs)"
  by (induction xs vs rule: runOps.induct) auto

text \<open>
  A run that ends without an error is the fold of the body over the ops the reader
  delivered, with the callback applied to those of a known kind.
\<close>

lemma validateLoop_finished:
  "validateLoop onOp lines line vs s = (vs', None, s') \<longleftrightarrow>
     (\<exists>nops. scanOps lines line = (nops, None) \<and> vs' = runOps nops vs
        \<and> foldOps onOp (filter (\<lambda>x. op_kind_valid (op_op x)) (map snd nops)) s = Inr s')"
proof (induction onOp lines line vs s rule: validateLoop.induct)
  case (1 onOp lines line vs s)
  obtain res rest l where nx: "scanNext lines line = (res, rest, l)" by (metis prod_cases3)
  show ?case
  proof (cases res)
    case EOF
    then show ?thesis
      by (auto simp: validateLoop.simps [of onOp lines] scanOps_next [of lines] nx)
  next
    case (NextErr e)
    then show ?thesis
      by (simp add: validateLoop.simps [of onOp lines] scanOps_next [of lines] nx)
  next
    case (Got x)
    obtain vs1 b where vo: "validateOp l x vs = (vs1, b)" by fastforce
    have b: "b \<longleftrightarrow> op_kind_valid (op_op x)" using validateOp_continues [of l x vs] by (simp add: vo)
    obtain ns e where ns: "scanOps rest l = (ns, e)" by fastforce
    have sc: "scanOps lines line = ((l, x) # ns, e)"
      using Got by (subst scanOps_next) (simp add: nx ns)
    show ?thesis
    proof (cases b)
      case False
      have "validateLoop onOp lines line vs s = validateLoop onOp rest l vs1 s"
        using Got vo nx False by (subst validateLoop.simps) simp
      moreover from "1.IH"(2) [OF nx [symmetric] Got refl vo [symmetric]] False
      have "(validateLoop onOp rest l vs1 s = (vs', None, s')) \<longleftrightarrow> e = None \<and> vs' = runOps ns vs1
          \<and> foldOps onOp (filter (\<lambda>x. op_kind_valid (op_op x)) (map snd ns)) s = Inr s'"
        by (simp add: ns)
      ultimately show ?thesis using False b vo by (simp add: sc)
    next
      case True
      show ?thesis
      proof (cases "onOp s x")
        case (Inl er)
        with Got vo nx True b show ?thesis
          by (subst validateLoop.simps) (simp add: sc)
      next
        case (Inr s1)
        have "validateLoop onOp lines line vs s = validateLoop onOp rest l vs1 s1"
          using Got vo nx True Inr by (subst validateLoop.simps) simp
        moreover from "1.IH"(1) [OF nx [symmetric] Got refl vo [symmetric]] True Inr
        have "(validateLoop onOp rest l vs1 s1 = (vs', None, s')) \<longleftrightarrow> e = None \<and> vs' = runOps ns vs1
            \<and> foldOps onOp (filter (\<lambda>x. op_kind_valid (op_op x)) (map snd ns)) s1 = Inr s'"
          by (simp add: ns)
        ultimately show ?thesis using True Inr b vo by (simp add: sc)
      qed
    qed
  qed
qed

lemma runOps_grows: "report_ok (v_rep (runOps xs vs)) \<Longrightarrow> report_ok (v_rep vs)"
  by (induction xs vs rule: runOps.induct) (auto dest: validateOp_grows)

lemma runOps_header [simp]: "rep_header (v_rep (runOps xs vs)) = rep_header (v_rep vs)"
  by (induction xs vs rule: runOps.induct) auto

lemma ops_spec_kinds: "ops_spec h ops \<Longrightarrow> x \<in> set ops \<Longrightarrow> op_kind_valid (op_op x)"
  unfolding ops_spec_def
  by (induction ops rule: rev_induct) (auto simp: op_spec_def dest: kind_spec_valid)

text \<open>
  From a state that summarises no ops, the loop reports no error exactly when the ops it
  read are valid, and its state then summarises them.
\<close>

lemma runOps_spec:
  assumes "vinv [] vs" and "vcount [] (v_rep vs)"
  shows "(report_ok (v_rep (runOps nops vs)) \<longleftrightarrow>
            report_ok (v_rep vs) \<and> ops_spec (rep_header (v_rep vs)) (map snd nops))
       \<and> (report_ok (v_rep (runOps nops vs)) \<longrightarrow>
            vinv (map snd nops) (runOps nops vs) \<and> vcount (map snd nops) (v_rep (runOps nops vs)))"
proof (induction nops rule: rev_induct)
  case Nil
  with assms show ?case by (simp add: ops_spec_def)
next
  case (snoc nx nops)
  obtain line x where nx: "nx = (line, x)" by fastforce
  let ?pre = "map snd nops" and ?vs = "runOps nops vs" and ?h = "rep_header (v_rep vs)"
  have step: "runOps (nops @ [nx]) vs = fst (validateOp line x ?vs)" by (simp add: runOps_append nx)
  show ?case
  proof (cases "report_ok (v_rep ?vs)")
    case False
    then have "\<not> report_ok (v_rep (runOps (nops @ [nx]) vs))" unfolding step using validateOp_grows by blast
    with False snoc.IH show ?thesis by (auto simp: ops_spec_def)
  next
    case True
    with snoc.IH have inv: "vinv ?pre ?vs" "vcount ?pre (v_rep ?vs)"
      and old: "report_ok (v_rep vs)" "ops_spec ?h ?pre" by blast+
    have eq: "report_ok (v_rep (runOps (nops @ [nx]) vs)) \<longleftrightarrow> op_spec ?h ?pre x"
      using True by (simp add: step validateOp_ok [OF inv(1)])
    show ?thesis
    proof (cases "op_spec ?h ?pre x")
      case True
      then have "op_kind_valid (op_op x)" by (auto simp: op_spec_def dest: kind_spec_valid)
      with validateOp_inv [OF inv(1), of x line] validateOp_count [OF inv(2), of x line] eq old True
      show ?thesis by (simp add: runOps_append nx ops_spec_def)
    next
      case False
      with eq show ?thesis by (simp add: nx ops_spec_def)
    qed
  qed
qed

section \<open>The header\<close>

fun targets_spec :: "int \<Rightarrow> target_info list \<Rightarrow> bool" where
  "targets_spec i [] \<longleftrightarrow> True"
| "targets_spec i (t # ts) \<longleftrightarrow> ti_id t = i \<and> ti_name t \<noteq> [] \<and> target_kind_valid (ti_kind t)
     \<and> 0 \<le> ti_size t \<and> targets_spec (i + 1) ts"

fun capture_spec :: "trace_kind \<Rightarrow> capture_method \<Rightarrow> string \<Rightarrow> bool" where
  "capture_spec TraceCaptured m lim \<longleftrightarrow> m \<in> {''python-io-hooks'', ''ebpf-syscall'', ''mmap-aware''} \<and> lim \<noteq> []"
| "capture_spec TraceImported m lim \<longleftrightarrow> (\<exists>src. m = ImportPrefix @ src \<and> src \<noteq> []) \<and> lim \<noteq> []"
| "capture_spec TraceSynthetic m lim \<longleftrightarrow> m = [] \<or> m = ''synthetic''"
| "capture_spec (TraceKindOther _) m lim \<longleftrightarrow> False"

definition header_spec :: "header \<Rightarrow> bool" where
  "header_spec h \<longleftrightarrow> 1 \<le> hdr_version h \<and> hdr_version h \<le> 3
     \<and> hdr_time_unit h = ''ns''
     \<and> capture_spec (hdr_kind h) (hdr_capture_method h) (hdr_capture_limitations h)
     \<and> targets_spec 0 (hdr_targets h)
     \<and> 0 \<le> sum_num_ops (hdr_summary h) \<and> 0 \<le> sum_num_streams (hdr_summary h)
     \<and> 0 \<le> sum_num_groups (hdr_summary h) \<and> 0 \<le> sum_total_bytes (hdr_summary h)
     \<and> 0 \<le> sum_duration_ns (hdr_summary h)"

lemma validateTargets_ok [ok_simps]: "validateTargets i ts = [] \<longleftrightarrow> targets_spec i ts"
  by (induction i ts rule: validateTargets.induct) auto

lemma capture_isImport_iff: "capture_isImport m \<longleftrightarrow> (\<exists>src. m = ImportPrefix @ src \<and> src \<noteq> [])"
  by (auto simp: capture_isImport_def hasPrefix_iff)

lemma capture_valid_iff:
  "capture_valid m \<longleftrightarrow> m \<in> {''python-io-hooks'', ''ebpf-syscall'', ''mmap-aware'', ''synthetic''} \<or> capture_isImport m"
  unfolding capture_valid_def capture_isImport_def [symmetric]
  by (simp add: CapturePythonHooks_def CaptureEBPFSyscall_def CaptureMmapAware_def CaptureSynthetic_def)

lemma named_not_import [simp]:
  "\<not> capture_isImport ''python-io-hooks''" "\<not> capture_isImport ''ebpf-syscall''"
  "\<not> capture_isImport ''mmap-aware''" "\<not> capture_isImport ''synthetic''" "\<not> capture_isImport []"
  by (simp_all add: capture_isImport_iff ImportPrefix_def)

lemma validateHeader_ok [ok_simps]: "validateHeader h = [] \<longleftrightarrow> header_spec h"
  by (cases "hdr_kind h")
    (auto simp: validateHeader_def header_spec_def ok_simps version_defs TimeUnitNanoseconds_def
      negField_def capture_valid_iff CaptureSynthetic_def simp flip: capture_isImport_iff)

section \<open>The validator decides the specification\<close>

lemma initVState_inv: "vinv [] (initVState r)" "vcount [] (v_rep (initVState r))"
  by (simp_all add: initVState_def initReport_def vinv_def time_inv_def seen_inv_def last_inv_def
      handles_inv_def vcount_def)

lemma initVState_rep [simp]:
  "rep_header (v_rep (initVState r)) = rd_hdr r"
  "report_ok (v_rep (initVState r)) \<longleftrightarrow>
     validateHeaderPresence (rd_headerRaw r) = [] \<and> header_spec (rd_hdr r)"
  by (auto simp: initVState_def initReport_def ok_simps) (auto simp: report_ok_def)

lemma summaryAgreement_ok:
  assumes "vcount ops r"
  shows "validateSummaryAgreement r = [] \<longleftrightarrow> summary_spec (rep_header r) ops"
proof -
  have "int (length (rep_streams r)) = int (card (op_s ` set ops))"
    using assms length_alist_card [of "rep_streams r"] by (simp add: vcount_def dom_map_of_alist)
  with assms show ?thesis
    by (auto simp: validateSummaryAgreement_def Let_def summary_spec_def vcount_def)
qed

definition trace_spec :: "reader \<Rightarrow> op list \<Rightarrow> bool" where
  "trace_spec r ops \<longleftrightarrow> validateHeaderPresence (rd_headerRaw r) = [] \<and> header_spec (rd_hdr r)
     \<and> ops_spec (rd_hdr r) ops \<and> summary_spec (rd_hdr r) ops"

lemma validateWithOps_finished:
  assumes "validateWithOps r onOp s = (rep, None, s')"
  obtains nops where "scanOps (rd_lines r) (rd_line r) = (nops, None)"
    and "report_ok rep \<longleftrightarrow> trace_spec r (map snd nops)"
    and "foldOps onOp (filter (\<lambda>x. op_kind_valid (op_op x)) (map snd nops)) s = Inr s'"
    and "rep_header rep = rd_hdr r"
proof -
  obtain vs where loop: "validateLoop onOp (rd_lines r) (rd_line r) (initVState r) s = (vs, None, s')"
    and rep: "rep = (let q = (v_rep vs)\<lparr>rep_warnings := rep_warnings (v_rep vs) @ unclosedWarnings (v_handles vs)\<rparr>
                     in addErrors (validateSummaryAgreement q) q)"
    using assms by (auto simp: validateWithOps_def Let_def split: prod.splits option.splits)
  from loop obtain nops where n: "scanOps (rd_lines r) (rd_line r) = (nops, None)"
    "vs = runOps nops (initVState r)"
    "foldOps onOp (filter (\<lambda>x. op_kind_valid (op_op x)) (map snd nops)) s = Inr s'"
    unfolding validateLoop_finished by blast
  have hdr: "rep_header (v_rep vs) = rd_hdr r" by (simp add: n(2))
  have rep': "report_ok rep \<longleftrightarrow> report_ok (v_rep vs) \<and> validateSummaryAgreement (v_rep vs) = []"
    by (auto simp: rep Let_def ok_simps validateSummaryAgreement_def)
  note spec = runOps_spec [OF initVState_inv, of nops r]
  have "report_ok rep \<longleftrightarrow> trace_spec r (map snd nops)"
  proof (cases "report_ok (v_rep vs)")
    case True
    with spec n(2) have "vcount (map snd nops) (v_rep vs)" by simp
    from summaryAgreement_ok [OF this] True spec n(2) hdr show ?thesis
      by (simp add: rep' trace_spec_def)
  next
    case False
    with spec n(2) show ?thesis by (auto simp: rep' trace_spec_def)
  qed
  with n hdr that show thesis by (auto simp: rep Let_def)
qed

lemma foldOps_noCallback [simp]: "foldOps noCallback xs s = Inr s"
  by (induction xs arbitrary: s) (auto simp: noCallback_def)

lemma validate_scanned:
  assumes "scanOps (rd_lines r) (rd_line r) = (nops, None)"
  shows "snd (validate r) = None \<and> (report_ok (fst (validate r)) \<longleftrightarrow> trace_spec r (map snd nops))"
proof -
  have "validateLoop noCallback (rd_lines r) (rd_line r) (initVState r) () = (runOps nops (initVState r), None, ())"
    unfolding validateLoop_finished using assms by simp
  then obtain rep where v: "validateWithOps r noCallback () = (rep, None, ())"
    by (simp add: validateWithOps_def Let_def)
  from validateWithOps_finished [OF v] assms have "report_ok rep \<longleftrightarrow> trace_spec r (map snd nops)"
    by (metis Pair_inject)
  with v show ?thesis by (simp add: validate_def)
qed

section \<open>A sample trace\<close>

text \<open>
  One stream opens a file, reads past its end (three of four bytes come back) and closes
  it: the smallest trace with a partial transfer, hence format version 2.
\<close>

definition sample_ops :: "op list" where
  "sample_ops =
     [zero_op\<lparr>op_id := Some 0, op_op := OpOpen, op_tgt := Some 0, op_h := Some 7, op_mode := ModeRead\<rparr>,
      zero_op\<lparr>op_t := 10, op_id := Some 1, op_op := OpRead, op_h := Some 7, op_off := Some 8,
              op_len := Some 4, op_ret := Some 3, op_dur := Some 5\<rparr>,
      zero_op\<lparr>op_t := 20, op_id := Some 2, op_op := OpClose, op_h := Some 7\<rparr>]"

definition sample_header :: header where
  "sample_header = zero_header\<lparr>hdr_version := 2, hdr_kind := TraceSynthetic, hdr_time_unit := ''ns'',
     hdr_targets := [\<lparr>ti_id = 0, ti_name = ''a'', ti_kind = TargetFile, ti_size = 11\<rparr>],
     hdr_summary := \<lparr>sum_num_ops = 3, sum_num_streams = 1, sum_num_groups = 0, sum_total_bytes = 3,
                      sum_duration_ns = 20, sum_num_partial_reads = 1\<rparr>\<rparr>"

definition sample_reader :: reader where
  "sample_reader = \<lparr>rd_lines = map (\<lambda>x. LJson (encode_op x)) sample_ops, rd_hdr = sample_header,
     rd_headerRaw = encode_header sample_header, rd_line = 1\<rparr>"

lemma sample_scan: "scanOps (rd_lines sample_reader) (rd_line sample_reader) = (numbered 1 sample_ops, None)"
proof -
  have "\<forall>x \<in> set sample_ops. wf_op x"
    by (simp add: sample_ops_def wf_op_def zero_op_def in64_def op_kind_of_def mode_of_def)
  then show ?thesis by (simp add: sample_reader_def scanOps_encoded)
qed

lemma each_after_Cons: "each_after P (x # xs) \<longleftrightarrow> P [] x \<and> each_after (\<lambda>pre. P (x # pre)) xs"
proof
  assume h: "each_after P (x # xs)"
  have "P (x # pre) y" if "xs = pre @ y # post" for pre y post
    using h that by (metis append_Cons each_after_def)
  moreover have "P [] x" using h unfolding each_after_def by (metis append_Nil)
  ultimately show "P [] x \<and> each_after (\<lambda>pre. P (x # pre)) xs" by (simp add: each_after_def)
next
  assume h: "P [] x \<and> each_after (\<lambda>pre. P (x # pre)) xs"
  show "each_after P (x # xs)"
    unfolding each_after_def
  proof (intro allI impI)
    fix pre y post assume "x # xs = pre @ y # post"
    with h show "P pre y" by (cases pre) (simp_all add: each_after_def)
  qed
qed

lemma live_Cons:
  "live (x # xs) s h \<longleftrightarrow> (opens h x \<and> op_s x = s \<and> (\<forall>y \<in> set xs. \<not> closes h y)) \<or> live xs s h"
  by (auto simp: live_def Cons_eq_append_conv)

lemmas spec_eval = each_after_Cons live_Cons opens_def closes_def op_spec_def id_spec_def ret_spec_def
  target_ok_def nat_field_def handle_ok_def no_position_def group_of_def version_defs

lemma sample_spec: "trace_spec sample_reader sample_ops"
proof -
  have "validateHeaderPresence (encode_header sample_header) = []"
    by (simp add: validateHeaderPresence_def encode_header_def sample_header_def zero_header_def
        omit_empty_def omit_nil_def encode_summary_def omit_zero_def)
  moreover have "header_spec sample_header"
    by (simp add: header_spec_def sample_header_def zero_header_def)
  moreover have "ops_spec sample_header sample_ops"
    by (simp add: ops_spec_def spec_eval sample_ops_def sample_header_def zero_header_def zero_op_def)
  moreover have "summary_spec sample_header sample_ops"
    by (simp add: summary_spec_def sample_header_def sample_ops_def zero_op_def isPartialTransfer_def)
  ultimately show ?thesis by (simp add: trace_spec_def sample_reader_def)
qed

section \<open>Properties\<close>

text \<open>
  C1: the streaming validator decides trace validity. When the reader delivers every op
  without a read or parse error, \<open>Validate\<close> returns no I/O error, and its report is OK
  exactly when the header is well formed and complete, every op may follow the ops before
  it (ordered timestamps, unique and per-group increasing ids, the schema of its kind, an
  open handle of its own stream, a coherent partial transfer) and the header's summary
  counts the ops that are there.
\<close>

theorem validate_decides_spec:
  assumes "scanOps (rd_lines r) (rd_line r) = (nops, None)"
  shows "snd (validate r) = None \<and> (report_ok (fst (validate r)) \<longleftrightarrow>
     validateHeaderPresence (rd_headerRaw r) = [] \<and> header_spec (rd_hdr r)
     \<and> ops_spec (rd_hdr r) (map snd nops) \<and> summary_spec (rd_hdr r) (map snd nops))"
  using validate_scanned [OF assms] by (simp add: trace_spec_def)

theorem validate_decides_spec_witness:
  "snd (validate sample_reader) = None \<and> report_ok (fst (validate sample_reader))"
  using validate_decides_spec [OF sample_scan] sample_spec
  by (simp add: trace_spec_def sample_reader_def)

text \<open>
  A truncated trace is never mistaken for a complete one. If a file validates, the same
  header over any proper prefix of its op lines is rejected with a validation error.
\<close>

lemma truncated_trace_rejected:
  assumes full: "scanOps (rd_lines r) (rd_line r) = (nops, None)" "report_ok (fst (validate r))"
    and cut: "scanOps lines' (rd_line r) = (take k nops, None)" "k < length nops"
  shows "snd (validate (r\<lparr>rd_lines := lines'\<rparr>)) = None
    \<and> \<not> report_ok (fst (validate (r\<lparr>rd_lines := lines'\<rparr>)))"
proof -
  have "summary_spec (rd_hdr r) (map snd nops)"
    using validate_scanned [OF full(1)] full(2) by (simp add: trace_spec_def)
  then have "\<not> summary_spec (rd_hdr r) (map snd (take k nops))"
    using cut(2) by (simp add: summary_spec_def)
  then show ?thesis
    using validate_scanned [of "r\<lparr>rd_lines := lines'\<rparr>" "take k nops"] cut(1) by (simp add: trace_spec_def)
qed

lemma sample_truncated_scan:
  "scanOps (take 2 (rd_lines sample_reader)) (rd_line sample_reader) = (take 2 (numbered 1 sample_ops), None)"
proof -
  have "\<forall>x \<in> set (take 2 sample_ops). wf_op x"
    by (simp add: sample_ops_def wf_op_def zero_op_def in64_def op_kind_of_def mode_of_def)
  then have "scanOps (map (\<lambda>x. LJson (encode_op x)) (take 2 sample_ops)) 1 = (numbered 1 (take 2 sample_ops), None)"
    by (simp add: scanOps_encoded)
  then show ?thesis by (simp add: sample_reader_def take_map sample_ops_def)
qed

lemma truncated_trace_rejected_witness:
  "report_ok (fst (validate sample_reader))
   \<and> \<not> report_ok (fst (validate (sample_reader\<lparr>rd_lines := take 2 (rd_lines sample_reader)\<rparr>)))"
proof -
  have ok: "report_ok (fst (validate sample_reader))"
    using validate_scanned [OF sample_scan] sample_spec by (simp add: sample_ops_def)
  have "2 < length (numbered 1 sample_ops)" by (simp add: sample_ops_def)
  from truncated_trace_rejected [OF sample_scan ok sample_truncated_scan this] ok
  show ?thesis by simp
qed

end
