(* ===== verification/Text.thy ===== *)
theory Text
  imports Trace_Types "HOL-Library.List_Lexorder" "HOL-Library.Char_ord" "HOL-Library.Product_Lexorder"
begin

text \<open>
  The parts of Go's \<open>strings\<close>, \<open>bytes\<close> and \<open>strconv\<close> packages that the repository's text
  handling uses, on strings of bytes. White space is Unicode white space in UTF-8, as
  \<open>strings.TrimSpace\<close> has it.
\<close>

section \<open>Bytes\<close>

abbreviation byte_of :: "char \<Rightarrow> nat" where "byte_of c \<equiv> of_char c"

definition isDigit :: "char \<Rightarrow> bool" where
  "isDigit c \<longleftrightarrow> 48 \<le> byte_of c \<and> byte_of c \<le> 57"

definition digitVal :: "char \<Rightarrow> int" where
  "digitVal c = int (byte_of c) - 48"

text \<open>\<open>string(b)\<close> of a byte is the UTF-8 encoding of the code point of that number.\<close>

definition runeString :: "char \<Rightarrow> string" where
  "runeString c = (let n = byte_of c in
     if n < 128 then [c] else [char_of (192 + n div 64), char_of (128 + n mod 64)])"

section \<open>Searching and cutting\<close>

text \<open>\<open>strings.Index\<close>: \<open>-1\<close> when there is no occurrence.\<close>

fun strIndex :: "string \<Rightarrow> string \<Rightarrow> int" where
  "strIndex s p =
     (if hasPrefix s p then 0
      else (case s of [] \<Rightarrow> - 1 | c # s' \<Rightarrow> (let i = strIndex s' p in if i < 0 then - 1 else i + 1)))"

declare strIndex.simps [simp del]

definition hasSuffix :: "string \<Rightarrow> string \<Rightarrow> bool" where
  "hasSuffix s p = hasPrefix (rev s) (rev p)"

text \<open>\<open>strings.LastIndexByte\<close>.\<close>

fun lastIndexByte :: "string \<Rightarrow> char \<Rightarrow> int" where
  "lastIndexByte [] c = - 1"
| "lastIndexByte (d # s) c = (let i = lastIndexByte s c in if 0 \<le> i then i + 1 else if d = c then 0 else - 1)"

definition trimPrefix :: "string \<Rightarrow> string \<Rightarrow> string" where
  "trimPrefix s p = (if hasPrefix s p then drop (length p) s else s)"

text \<open>\<open>strings.TrimLeft\<close> and \<open>TrimRight\<close> with an ASCII cut set.\<close>

definition trimLeft :: "string \<Rightarrow> string \<Rightarrow> string" where
  "trimLeft s cutset = dropWhile (\<lambda>c. c \<in> set cutset) s"

definition trimRight :: "string \<Rightarrow> string \<Rightarrow> string" where
  "trimRight s cutset = rev (trimLeft (rev s) cutset)"

text \<open>The encodings of the runes that \<open>unicode.IsSpace\<close> accepts.\<close>

definition spaceRunes :: "string list" where
  "spaceRunes = [[CHR 0x20], [CHR 0x09], [CHR 0x0A], [CHR 0x0B], [CHR 0x0C], [CHR 0x0D],
     [CHR 0xC2, CHR 0x85], [CHR 0xC2, CHR 0xA0], [CHR 0xE1, CHR 0x9A, CHR 0x80],
     [CHR 0xE2, CHR 0x80, CHR 0x80], [CHR 0xE2, CHR 0x80, CHR 0x81], [CHR 0xE2, CHR 0x80, CHR 0x82],
     [CHR 0xE2, CHR 0x80, CHR 0x83], [CHR 0xE2, CHR 0x80, CHR 0x84], [CHR 0xE2, CHR 0x80, CHR 0x85],
     [CHR 0xE2, CHR 0x80, CHR 0x86], [CHR 0xE2, CHR 0x80, CHR 0x87], [CHR 0xE2, CHR 0x80, CHR 0x88],
     [CHR 0xE2, CHR 0x80, CHR 0x89], [CHR 0xE2, CHR 0x80, CHR 0x8A], [CHR 0xE2, CHR 0x80, CHR 0xA8],
     [CHR 0xE2, CHR 0x80, CHR 0xA9], [CHR 0xE2, CHR 0x80, CHR 0xAF], [CHR 0xE2, CHR 0x81, CHR 0x9F],
     [CHR 0xE3, CHR 0x80, CHR 0x80]]"

function trimRunes :: "string list \<Rightarrow> string \<Rightarrow> string" where
  "trimRunes rs s =
     (case find (\<lambda>r. r \<noteq> [] \<and> hasPrefix s r) rs of
        None \<Rightarrow> s
      | Some r \<Rightarrow> trimRunes rs (drop (length r) s))"
  by pat_completeness auto
termination
proof (relation "measure (\<lambda>(rs, s). length s)")
  fix rs s r assume "find (\<lambda>r. r \<noteq> [] \<and> hasPrefix s r) rs = Some r"
  then have "r \<noteq> []" "hasPrefix s r" by (auto simp: find_Some_iff)
  then have "0 < length r" "length r \<le> length s" by (auto simp: hasPrefix_iff)
  then have "length s - length r < length s" by linarith
  then show "((rs, drop (length r) s), (rs, s)) \<in> measure (\<lambda>(rs, s). length s)" by simp
qed simp

declare trimRunes.simps [simp del]

definition trimSpace :: "string \<Rightarrow> string" where
  "trimSpace s = rev (trimRunes (map rev spaceRunes) (rev (trimRunes spaceRunes s)))"

text \<open>\<open>strings.Split\<close> with a one-byte separator.\<close>

fun splitOn :: "string \<Rightarrow> char \<Rightarrow> string list" where
  "splitOn [] sep = [[]]"
| "splitOn (c # s) sep =
     (if c = sep then [] # splitOn s sep
      else (case splitOn s sep of [] \<Rightarrow> [[c]] | f # fs \<Rightarrow> (c # f) # fs))"

section \<open>Numbers\<close>

text \<open>The value of a run of digits.\<close>

definition digitsVal :: "int \<Rightarrow> string \<Rightarrow> int" where
  "digitsVal base ds = foldl (\<lambda>v c. base * v + digitVal c) 0 ds"

text \<open>\<open>strconv.ParseInt(s, 10, 64)\<close> on an optional sign and a non-empty run of digits.\<close>

definition parseInt64 :: "string \<Rightarrow> int option" where
  "parseInt64 s =
     (let neg = (s \<noteq> [] \<and> hd s = CHR ''-'');
          ds = (if s \<noteq> [] \<and> hd s \<in> {CHR ''-'', CHR ''+''} then tl s else s);
          v = (if neg then - digitsVal 10 ds else digitsVal 10 ds)
      in if ds \<noteq> [] \<and> list_all isDigit ds \<and> in64 v then Some v else None)"

text \<open>\<open>strconv.Itoa\<close>, and \<open>%d\<close> in a format.\<close>

fun digitsOf :: "nat \<Rightarrow> string" where
  "digitsOf n = (if n < 10 then [char_of (48 + n)] else digitsOf (n div 10) @ [char_of (48 + n mod 10)])"

declare digitsOf.simps [simp del]

definition itoa :: "int \<Rightarrow> string" where
  "itoa n = (if n < 0 then CHR ''-'' # digitsOf (nat (- n)) else digitsOf (nat n))"

definition hexVal :: "char \<Rightarrow> int option" where
  "hexVal c = (let n = byte_of c in
     if 48 \<le> n \<and> n \<le> 57 then Some (int n - 48)
     else if 97 \<le> n \<and> n \<le> 102 then Some (int n - 87)
     else if 65 \<le> n \<and> n \<le> 70 then Some (int n - 55) else None)"

lemma parseInt64_in64: "parseInt64 s = Some v \<Longrightarrow> in64 v"
  by (auto simp: parseInt64_def Let_def split: if_splits)

end
