(* ===== verification/Transform.thy ===== *)
theory Transform
  imports Validate_Spec Text
begin

text \<open>
  The split-reads transformation of \<open>pkg/transform/splitreads.go\<close>.

  The loop over one operation adds the block size to a 64-bit counter, so it is a partial
  function: \<open>None\<close> is a loop that never ends. Every other failure is a value of
  \<open>transform_err\<close>. The wall-clock time stamped into the ledger is an argument.
\<close>

datatype transform_err = BlockNotPositive int | NoOffset op_kind int

section \<open>The code\<close>

partial_function (option) splitLoop :: "op \<Rightarrow> int \<Rightarrow> int \<Rightarrow> int \<Rightarrow> int \<Rightarrow> op list \<Rightarrow> op list option" where
  "splitLoop x off block moved covered pieces =
     (if covered < moved
      then (let rem = i64 (moved - covered);
                size = (if rem < block then rem else block);
                piece = x\<lparr>op_off := Some (i64 (off + covered)), op_len := Some size,
                          op_ret := None, op_dur := None\<rparr>
            in splitLoop x off block moved (i64 (covered + block)) (pieces @ [piece]))
      else Some pieces)"

definition splitOne :: "op \<Rightarrow> int \<Rightarrow> (transform_err + op list) option" where
  "splitOne x block =
     (if op_op x \<noteq> OpRead \<and> op_op x \<noteq> OpGet then Some (Inr [x])
      else case transferredBytes x of
        None \<Rightarrow> Some (Inr [x])
      | Some moved \<Rightarrow>
          if moved \<le> 0 then Some (Inr [x])
          else (case op_off x of
                  None \<Rightarrow> Some (Inl (NoOffset (op_op x) (op_t x)))
                | Some off \<Rightarrow>
                    if moved \<le> block then Some (Inr [x])
                    else map_option Inr (splitLoop x off block moved 0 [])))"

fun splitAll :: "op list \<Rightarrow> int \<Rightarrow> op list \<Rightarrow> (transform_err + op list) option" where
  "splitAll [] block out = Some (Inr out)"
| "splitAll (x # xs) block out =
     (case splitOne x block of
        None \<Rightarrow> None
      | Some (Inl e) \<Rightarrow> Some (Inl e)
      | Some (Inr pieces) \<Rightarrow> splitAll xs block (out @ pieces))"

fun renumber :: "int \<Rightarrow> op list \<Rightarrow> op list" where
  "renumber i [] = []"
| "renumber i (x # xs) = x\<lparr>op_id := Some i\<rparr> # renumber (i + 1) xs"

definition splitReads :: "op list \<Rightarrow> int \<Rightarrow> (transform_err + op list) option" where
  "splitReads ops block =
     (if block \<le> 0 then Some (Inl (BlockNotPositive block))
      else case splitAll ops block [] of
        None \<Rightarrow> None
      | Some (Inl e) \<Rightarrow> Some (Inl e)
      | Some (Inr out) \<Rightarrow> Some (Inr (renumber 0 out)))"

fun countsBytes :: "op_kind \<Rightarrow> bool" where
  "countsBytes OpRead = True"
| "countsBytes OpWrite = True"
| "countsBytes OpGet = True"
| "countsBytes OpPut = True"
| "countsBytes _ = False"

text \<open>The loop of \<open>recomputeSummary\<close>: streams seen, bytes moved, partial transfers.\<close>

fun summaryLoop :: "op list \<Rightarrow> int list \<Rightarrow> int \<Rightarrow> int \<Rightarrow> int list \<times> int \<times> int" where
  "summaryLoop [] streams tot partial = (streams, tot, partial)"
| "summaryLoop (x # xs) streams tot partial =
     summaryLoop xs
       (if op_s x \<in> set streams then streams else op_s x # streams)
       (case transferredBytes x of
          None \<Rightarrow> tot
        | Some moved \<Rightarrow> if countsBytes (op_op x) then i64 (tot + moved) else tot)
       (if isPartialTransfer x then partial + 1 else partial)"

definition recomputeSummary :: "summary \<Rightarrow> op list \<Rightarrow> summary" where
  "recomputeSummary s ops =
     (let (streams, tot, partial) = summaryLoop ops [] 0 0
      in s\<lparr>sum_num_ops := int (length ops), sum_num_streams := int (length streams),
           sum_total_bytes := tot, sum_num_partial_reads := partial\<rparr>)"

definition headerVersion :: "header \<Rightarrow> op list \<Rightarrow> int" where
  "headerVersion h ops =
     (let v = minVersionForOps ops; hv = minVersionForHeader h in if hv > v then hv else v)"

definition TransformSplitReads :: string where "TransformSplitReads = ''split-reads''"

definition splitReadsHeader :: "string \<Rightarrow> header \<Rightarrow> op list \<Rightarrow> int \<Rightarrow> string \<Rightarrow> header" where
  "splitReadsHeader now h ops block sourceDigest =
     (let h1 = h\<lparr>hdr_transformations := hdr_transformations h @
             [\<lparr>tr_kind = TransformSplitReads, tr_params = [(''block'', itoa block)],
               tr_source_digest = sourceDigest, tr_applied_utc = now,
               tr_note = ''READ/GET operations larger than '' @ itoa block
                 @ '' bytes were divided into requests of at most that size over identical extents''\<rparr>]\<rparr>;
          h2 = h1\<lparr>hdr_summary := recomputeSummary (hdr_summary h1) ops\<rparr>
      in h2\<lparr>hdr_version := headerVersion h2 ops\<rparr>)"


section \<open>The pieces of one operation\<close>

text \<open>The piece that starts \<open>c\<close> bytes into a transfer of \<open>moved\<close> bytes.\<close>

definition piece :: "op \<Rightarrow> int \<Rightarrow> int \<Rightarrow> int \<Rightarrow> int \<Rightarrow> op" where
  "piece x off block moved c = x\<lparr>op_off := Some (off + c), op_len := Some (min block (moved - c)),
     op_ret := None, op_dur := None\<rparr>"

function piecesFrom :: "op \<Rightarrow> int \<Rightarrow> int \<Rightarrow> int \<Rightarrow> int \<Rightarrow> op list" where
  "piecesFrom x off block moved c =
     (if 0 < block \<and> c < moved then piece x off block moved c # piecesFrom x off block moved (c + block) else [])"
  by pat_completeness auto
termination
  by (relation "measure (\<lambda>(_, _, block, moved, c). nat (moved - c))") auto

declare piecesFrom.simps [simp del]

text \<open>While nothing overflows, the loop terminates and returns exactly these pieces.\<close>

lemma splitLoop_pieces:
  assumes "0 < block" "0 \<le> c" "0 \<le> off" "0 \<le> moved" "moved + block < 2 ^ 63" "off + moved < 2 ^ 63"
    "c < 2 ^ 63"
  shows "splitLoop x off block moved c pieces = Some (pieces @ piecesFrom x off block moved c)"
  using assms
proof (induction x off block moved c arbitrary: pieces rule: piecesFrom.induct)
  case (1 x off block moved c)
  show ?case
  proof (cases "c < moved")
    case False
    then show ?thesis by (simp add: splitLoop.simps piecesFrom.simps)
  next
    case True
    with "1.prems" have w: "i64 (moved - c) = moved - c" "i64 (off + c) = off + c" "i64 (c + block) = c + block"
      by (simp_all add: i64_nonneg_bounded)
    have p: "x\<lparr>op_off := Some (off + c), op_len := Some (if moved - c < block then moved - c else block),
        op_ret := None, op_dur := None\<rparr> = piece x off block moved c" by (simp add: piece_def min_def)
    from True "1.prems" have "splitLoop x off block moved (c + block) (pieces @ [piece x off block moved c])
        = Some ((pieces @ [piece x off block moved c]) @ piecesFrom x off block moved (c + block))"
      by (intro "1.IH") simp_all
    then have "splitLoop x off block moved c pieces =
        Some ((pieces @ [piece x off block moved c]) @ piecesFrom x off block moved (c + block))"
      using True by (subst splitLoop.simps) (simp add: w p)
    with True "1.prems" show ?thesis by (simp add: piecesFrom.simps [of x off block moved c])
  qed
qed

lemma piecesFrom_elem:
  "0 \<le> c \<Longrightarrow> p \<in> set (piecesFrom x off block moved c) \<Longrightarrow> \<exists>d. c \<le> d \<and> d < moved \<and> p = piece x off block moved d"
proof (induction x off block moved c rule: piecesFrom.induct)
  case (1 x off block moved c)
  from "1.prems" have g: "0 < block \<and> c < moved" by (auto simp: piecesFrom.simps [of x off block moved c] split: if_splits)
  with "1.prems" consider "p = piece x off block moved c" | "p \<in> set (piecesFrom x off block moved (c + block))"
    by (auto simp: piecesFrom.simps [of x off block moved c])
  then show ?case
  proof cases
    case 1
    with g show ?thesis by blast
  next
    case 2
    with "1.IH" g "1.prems"(1) obtain d where "c + block \<le> d" "d < moved" "p = piece x off block moved d" by auto
    with g show ?thesis by (intro exI [of _ d]) simp
  qed
qed

text \<open>
  The pieces are consecutive and cover the transfer: the first starts where the transfer
  does, each starts where the one before it ends, and the last ends at \<open>moved\<close>.
\<close>

fun consecutive :: "int \<Rightarrow> int \<Rightarrow> op list \<Rightarrow> bool" where
  "consecutive from to [] \<longleftrightarrow> from = to"
| "consecutive from to (p # ps) \<longleftrightarrow>
     (case (op_off p, op_len p) of
        (Some off, Some len) \<Rightarrow> off = from \<and> 0 < len \<and> consecutive (off + len) to ps
      | _ \<Rightarrow> False)"

lemma piecesFrom_consecutive:
  "0 < block \<Longrightarrow> c \<le> moved \<Longrightarrow> consecutive (off + c) (off + moved) (piecesFrom x off block moved c)"
proof (induction x off block moved c rule: piecesFrom.induct)
  case (1 x off block moved c)
  show ?case
  proof (cases "c < moved")
    case False
    with "1.prems" show ?thesis by (simp add: piecesFrom.simps)
  next
    case True
    show ?thesis
    proof (cases "c + block \<le> moved")
      case le: True
      with "1.IH" True "1.prems" have "consecutive (off + (c + block)) (off + moved) (piecesFrom x off block moved (c + block))"
        by simp
      with True le "1.prems" show ?thesis
        by (simp add: piecesFrom.simps [of x off block moved c] piece_def min_def algebra_simps)
    next
      case gt: False
      then have "piecesFrom x off block moved (c + block) = []" by (simp add: piecesFrom.simps)
      with True gt "1.prems" show ?thesis
        by (simp add: piecesFrom.simps [of x off block moved c] piece_def min_def)
    qed
  qed
qed

definition bytesMoved :: "op \<Rightarrow> int" where
  "bytesMoved x = (if countsBytes (op_op x) then (case transferredBytes x of None \<Rightarrow> 0 | Some n \<Rightarrow> n) else 0)"

definition totalMoved :: "op list \<Rightarrow> int" where
  "totalMoved ops = sum_list (map bytesMoved ops)"

lemma totalMoved_simps [simp]:
  "totalMoved [] = 0" "totalMoved (x # xs) = bytesMoved x + totalMoved xs"
  "totalMoved (xs @ ys) = totalMoved xs + totalMoved ys"
  by (simp_all add: totalMoved_def)

lemma piecesFrom_total:
  assumes "0 < block" "countsBytes (op_op x)" "c \<le> moved"
  shows "totalMoved (piecesFrom x off block moved c) = moved - c"
  using assms
proof (induction x off block moved c rule: piecesFrom.induct)
  case (1 x off block moved c)
  show ?case
  proof (cases "c < moved")
    case False
    with "1.prems" show ?thesis by (simp add: piecesFrom.simps)
  next
    case True
    have b: "bytesMoved (piece x off block moved c) = min block (moved - c)"
      using "1.prems" by (simp add: bytesMoved_def piece_def transferredBytes_def requestedBytes_def)
    show ?thesis
    proof (cases "c + block \<le> moved")
      case le: True
      with "1.IH" True "1.prems" have "totalMoved (piecesFrom x off block moved (c + block)) = moved - (c + block)" by simp
      with True le "1.prems" b show ?thesis by (simp add: piecesFrom.simps [of x off block moved c])
    next
      case gt: False
      then have "piecesFrom x off block moved (c + block) = []" by (simp add: piecesFrom.simps)
      with True gt "1.prems" b show ?thesis by (simp add: piecesFrom.simps [of x off block moved c])
    qed
  qed
qed

section \<open>What one operation becomes\<close>

text \<open>The range in which the offsets and sizes of an operation do not overflow.\<close>

definition split_range :: "int \<Rightarrow> op \<Rightarrow> bool" where
  "split_range block x \<longleftrightarrow>
     (case (op_off x, transferredBytes x) of
        (Some off, Some moved) \<Rightarrow> 0 \<le> off \<and> off + moved < 2 ^ 63 \<and> moved + block < 2 ^ 63
      | _ \<Rightarrow> True)"

definition splittable :: "int \<Rightarrow> op \<Rightarrow> bool" where
  "splittable block x \<longleftrightarrow> (op_op x = OpRead \<or> op_op x = OpGet)
     \<and> (case transferredBytes x of None \<Rightarrow> False | Some moved \<Rightarrow> 0 < moved \<and> block < moved)"

definition has_offset :: "op \<Rightarrow> bool" where
  "has_offset x \<longleftrightarrow> (op_op x = OpRead \<or> op_op x = OpGet \<longrightarrow> op_off x \<noteq> None)"

definition piecesOf :: "int \<Rightarrow> op \<Rightarrow> op list" where
  "piecesOf block x =
     (if splittable block x then piecesFrom x (the (op_off x)) block (the (transferredBytes x)) 0 else [x])"

lemma splitOne_pieces:
  assumes "0 < block" "split_range block x" "has_offset x"
  shows "splitOne x block = Some (Inr (piecesOf block x))"
proof (cases "splittable block x")
  case False
  then show ?thesis
    using assms(1,3) by (auto simp: splitOne_def piecesOf_def splittable_def has_offset_def split: option.splits)
next
  case True
  then obtain moved off where m: "transferredBytes x = Some moved" "0 < moved" "block < moved"
    and k: "op_op x = OpRead \<or> op_op x = OpGet" and o: "op_off x = Some off"
    using assms(3) by (auto simp: splittable_def has_offset_def split: option.splits)
  with assms have "splitLoop x off block moved 0 [] = Some (piecesFrom x off block moved 0)"
    by (subst splitLoop_pieces) (auto simp: split_range_def)
  with k m o True show ?thesis by (auto simp: splitOne_def piecesOf_def)
qed

lemma splitAll_pieces:
  assumes "0 < block" "\<forall>x \<in> set ops. split_range block x \<and> has_offset x"
  shows "splitAll ops block out = Some (Inr (out @ concat (map (piecesOf block) ops)))"
  using assms by (induction ops arbitrary: out) (auto simp: splitOne_pieces)

lemma splitReads_pieces:
  assumes "0 < block" "\<forall>x \<in> set ops. split_range block x \<and> has_offset x"
  shows "splitReads ops block = Some (Inr (renumber 0 (concat (map (piecesOf block) ops))))"
  using splitAll_pieces [OF assms, of "[]"] assms(1) by (simp add: splitReads_def)

text \<open>Every piece agrees with its operation on all fields but the extent, and on all of them when it was not split.\<close>

definition same_op :: "op \<Rightarrow> op \<Rightarrow> bool" where
  "same_op x p \<longleftrightarrow> op_t p = op_t x \<and> op_s p = op_s x \<and> op_op p = op_op x \<and> op_group p = op_group x
     \<and> op_tgt p = op_tgt x \<and> op_h p = op_h x \<and> op_mode p = op_mode x \<and> op_flags p = op_flags x"

lemma same_op_piece: "same_op x (piece x off block moved c)"
  by (simp add: same_op_def piece_def)

lemma piecesOf_elem:
  assumes "0 < block" "has_offset x" "p \<in> set (piecesOf block x)"
  obtains "p = x" "\<not> splittable block x"
  | off moved d where "splittable block x" "op_off x = Some off" "transferredBytes x = Some moved"
    "0 \<le> d" "d < moved" "p = piece x off block moved d"
proof (cases "splittable block x")
  case False
  with assms that(1) show thesis by (simp add: piecesOf_def)
next
  case True
  then obtain off moved where o: "op_off x = Some off" "transferredBytes x = Some moved"
    using assms(2) by (auto simp: splittable_def has_offset_def split: option.splits)
  with assms(3) True have "p \<in> set (piecesFrom x off block moved 0)" by (simp add: piecesOf_def)
  from piecesFrom_elem [OF _ this] that(2) True o show thesis by auto
qed

lemma piecesOf_same:
  "0 < block \<Longrightarrow> has_offset x \<Longrightarrow> p \<in> set (piecesOf block x) \<Longrightarrow> same_op x p"
  by (erule (2) piecesOf_elem) (simp_all add: same_op_piece, simp add: same_op_def)

lemma piecesOf_total:
  assumes "0 < block" "has_offset x"
  shows "totalMoved (piecesOf block x) = bytesMoved x"
proof (cases "splittable block x")
  case False
  then show ?thesis by (simp add: piecesOf_def)
next
  case True
  then obtain moved where "transferredBytes x = Some moved" "0 < moved" "countsBytes (op_op x)"
    by (auto simp: splittable_def split: option.splits)
  with True assms(1) piecesFrom_total [of block x 0 moved] show ?thesis
    by (simp add: piecesOf_def bytesMoved_def)
qed

lemma piecesOf_nonempty: "0 < block \<Longrightarrow> piecesOf block x \<noteq> []"
  by (auto simp: piecesOf_def splittable_def piecesFrom.simps [of x _ block _ 0] split: option.splits)

section \<open>Renumbering\<close>

lemma renumber_append [simp]:
  "renumber i (xs @ ys) = renumber i xs @ renumber (i + int (length xs)) ys"
  by (induction xs arbitrary: i) (auto simp: algebra_simps)

lemma length_renumber [simp]: "length (renumber i xs) = length xs"
  by (induction xs arbitrary: i) auto

lemma renumber_elem: "y \<in> set (renumber i xs) \<Longrightarrow> \<exists>x \<in> set xs. \<exists>j. y = x\<lparr>op_id := Some j\<rparr> \<and> i \<le> j \<and> j < i + int (length xs)"
proof (induction xs arbitrary: i)
  case Nil
  then show ?case by simp
next
  case (Cons x xs)
  then show ?case by (fastforce dest: Cons.IH)
qed

lemma bytesMoved_renamed [simp]: "bytesMoved (x\<lparr>op_id := j\<rparr>) = bytesMoved x"
  by (simp add: bytesMoved_def transferredBytes_def requestedBytes_def split: option.split)

lemma totalMoved_renumber [simp]: "totalMoved (renumber i xs) = totalMoved xs"
  by (induction xs arbitrary: i) auto

lemma totalMoved_pieces:
  "0 < block \<Longrightarrow> \<forall>x \<in> set ops. has_offset x \<Longrightarrow> totalMoved (concat (map (piecesOf block) ops)) = totalMoved ops"
  by (induction ops) (auto simp: piecesOf_total)

section \<open>The transformed trace is valid\<close>

text \<open>
  \<open>carries P out\<close>: the output \<open>out\<close> written for the source prefix \<open>P\<close> offers everything a later
  op may rely on: no later timestamp, no handle opened that \<open>P\<close> did not open, and every
  handle live after \<open>P\<close> still live.
\<close>

definition carries :: "op list \<Rightarrow> op list \<Rightarrow> bool" where
  "carries P out \<longleftrightarrow> (\<forall>y \<in> set out. \<exists>z \<in> set P. op_t y = op_t z)
     \<and> (\<forall>h. (\<forall>z \<in> set P. \<not> opens h z) \<longrightarrow> (\<forall>y \<in> set out. \<not> opens h y))
     \<and> (\<forall>s h. live P s h \<longrightarrow> live out s h)"

definition ids_below :: "op list \<Rightarrow> bool" where
  "ids_below out \<longleftrightarrow> (\<forall>y \<in> set out. \<exists>j. op_id y = Some j \<and> j < int (length out))"

text \<open>\<open>op_ok\<close> is \<open>op_spec\<close> without its condition on ids.\<close>

definition op_ok :: "header \<Rightarrow> op list \<Rightarrow> op \<Rightarrow> bool" where
  "op_ok h pre x \<longleftrightarrow>
     (\<forall>y \<in> set pre. op_t y \<le> op_t x)
     \<and> (op_op x \<noteq> OpOpen \<longrightarrow> op_mode x = ModeAbsent \<and> op_flags x = [])
     \<and> kind_spec (op_op x) h pre x \<and> ret_spec h x
     \<and> (case op_dur x of None \<Rightarrow> True | Some d \<Rightarrow> 0 \<le> d)"

lemma op_spec_op_ok: "op_spec h pre x \<longleftrightarrow> op_ok h pre x \<and> id_spec pre x"
  by (auto simp: op_spec_def op_ok_def)

lemma kind_spec_carries:
  assumes "carries P out" and "hdr_targets h' = hdr_targets h" and "kind_spec k h P x"
  shows "kind_spec k h' out (x\<lparr>op_id := i\<rparr>)"
proof -
  have "handle_ok out (x\<lparr>op_id := i\<rparr>)" if "handle_ok P x"
    using assms(1) that by (auto simp: handle_ok_def carries_def split: option.splits)
  moreover have "\<forall>y \<in> set out. \<not> opens n y" if "\<forall>z \<in> set P. \<not> opens n z" for n
    using assms(1) that by (auto simp: carries_def)
  moreover have "target_ok h' (x\<lparr>op_id := i\<rparr>) = target_ok h x" by (simp add: target_ok_def assms(2) split: option.split)
  moreover have "no_position (x\<lparr>op_id := i\<rparr>) = no_position x" by (simp add: no_position_def)
  ultimately show ?thesis using assms(3) by (cases k) (auto split: option.splits)
qed

lemma op_ok_carries:
  assumes "carries P out" "ids_below out" "hdr_targets h' = hdr_targets h" "VersionPartialTransfer \<le> hdr_version h'"
    and ok: "op_ok h P x"
  shows "op_spec h' out (x\<lparr>op_id := Some (int (length out))\<rparr>)"
proof -
  have "\<forall>y \<in> set out. op_t y \<le> op_t x"
    using assms(1) ok by (fastforce simp: carries_def op_ok_def)
  moreover have "id_spec out (x\<lparr>op_id := Some (int (length out))\<rparr>)"
    using assms(2) by (fastforce simp: id_spec_def ids_below_def)
  moreover have "ret_spec h' (x\<lparr>op_id := Some (int (length out))\<rparr>)"
    using assms(4) ok by (auto simp: op_ok_def ret_spec_def split: option.splits)
  ultimately show ?thesis
    using ok kind_spec_carries [OF assms(1,3), of _ x] by (simp add: op_spec_op_ok op_ok_def)
qed

lemma ids_below_snoc: "ids_below out \<Longrightarrow> ids_below (out @ [x\<lparr>op_id := Some (int (length out))\<rparr>])"
  by (fastforce simp: ids_below_def)

lemma live_same: "opens h (x\<lparr>op_id := i\<rparr>) = opens h x" "closes h (x\<lparr>op_id := i\<rparr>) = closes h x"
  by (simp_all add: opens_def closes_def)

lemma carries_snoc: "carries P out \<Longrightarrow> carries (P @ [x]) (out @ [x\<lparr>op_id := i\<rparr>])"
  by (fastforce simp: carries_def live_snoc live_same)

lemma carries_skip:
  "carries P out \<Longrightarrow> op_op x = OpRead \<or> op_op x = OpGet \<Longrightarrow> carries (P @ [x]) out"
  by (fastforce simp: carries_def live_snoc opens_def closes_def)

lemma carries_extra:
  "carries P out \<Longrightarrow> z \<in> set P \<Longrightarrow> op_t p = op_t z \<Longrightarrow> op_op p = OpRead \<or> op_op p = OpGet \<Longrightarrow>
     carries P (out @ [p\<lparr>op_id := i\<rparr>])"
  by (fastforce simp: carries_def live_snoc opens_def closes_def)

definition trace_sim :: "header \<Rightarrow> op list \<Rightarrow> op list \<Rightarrow> bool" where
  "trace_sim h' P out \<longleftrightarrow> carries P out \<and> ids_below out \<and> ops_spec h' out"

definition piece_ok :: "header \<Rightarrow> op list \<Rightarrow> op \<Rightarrow> op \<Rightarrow> bool" where
  "piece_ok h P x p \<longleftrightarrow> op_ok h P p \<and> op_t p = op_t x \<and> (op_op p = OpRead \<or> op_op p = OpGet)"

lemma trace_sim_pieces:
  assumes "trace_sim h' P out" "hdr_targets h' = hdr_targets h" "VersionPartialTransfer \<le> hdr_version h'"
    and "z \<in> set P" and "\<forall>p \<in> set ps. piece_ok h P z p"
  shows "trace_sim h' P (out @ renumber (int (length out)) ps)"
  using assms(5)
proof (induction ps rule: rev_induct)
  case Nil
  with assms(1) show ?case by simp
next
  case (snoc p ps)
  let ?out = "out @ renumber (int (length out)) ps"
  from snoc have sim: "trace_sim h' P ?out" and p: "piece_ok h P z p" by simp_all
  from sim have c: "carries P ?out" "ids_below ?out" "ops_spec h' ?out" by (simp_all add: trace_sim_def)
  let ?p = "p\<lparr>op_id := Some (int (length ?out))\<rparr>"
  have "op_ok h P p" using p by (simp add: piece_ok_def)
  from op_ok_carries [OF c(1,2) assms(2,3) this] have "op_spec h' ?out ?p" .
  moreover have "carries P (?out @ [?p])"
    using p by (intro carries_extra [OF c(1) assms(4)]) (simp_all add: piece_ok_def)
  ultimately have "trace_sim h' P (?out @ [?p])"
    using c(3) ids_below_snoc [OF c(2), of p] unfolding trace_sim_def ops_spec_def each_after_snoc by blast
  then show ?case by simp
qed

lemma has_offset_spec: "kind_spec (op_op x) h P x \<Longrightarrow> has_offset x"
  by (cases "op_op x") (auto simp: has_offset_def nat_field_def split: option.splits)

text \<open>The bytes a valid operation moved are what it counts, and never negative.\<close>

lemma bytesMoved_spec: "op_spec h P x \<Longrightarrow> 0 \<le> bytesMoved x"
  by (cases "op_op x")
    (auto simp: bytesMoved_def op_spec_def ret_spec_def nat_field_def transferredBytes_def requestedBytes_def
      split: option.splits)

lemma piece_op_ok:
  assumes sp: "op_spec h P x" and split: "splittable block x" and o: "op_off x = Some off"
    and m: "transferredBytes x = Some moved" and d: "0 \<le> d" "d < moved" and b: "0 < block"
  shows "piece_ok h (P @ [x]) x (piece x off block moved d)"
proof -
  let ?p = "piece x off block moved d"
  from split have k: "op_op x = OpRead \<or> op_op x = OpGet" by (simp add: splittable_def)
  from sp have t: "\<forall>y \<in> set P. op_t y \<le> op_t x" and ks: "kind_spec (op_op x) h P x"
    and mf: "op_mode x = ModeAbsent \<and> op_flags x = []"
    using k by (auto simp: op_spec_def)
  have f: "op_t ?p = op_t x" "op_op ?p = op_op x" "op_mode ?p = op_mode x" "op_flags ?p = op_flags x"
    "op_ret ?p = None" "op_dur ?p = None" "op_tgt ?p = op_tgt x" "op_h ?p = op_h x" "op_s ?p = op_s x"
    by (simp_all add: piece_def)
  have off: "nat_field (op_off ?p)" using k ks o d by (auto simp: piece_def nat_field_def)
  have len: "nat_field (op_len ?p)" using b d by (simp add: piece_def nat_field_def)
  have hk: "handle_ok (P @ [x]) ?p" if "handle_ok P x"
    using that k by (auto simp: handle_ok_def f live_snoc closes_def split: option.splits)
  have tk: "target_ok h ?p" if "target_ok h x" using that by (simp add: target_ok_def f)
  have "kind_spec (op_op x) h (P @ [x]) ?p" using k ks off len hk tk f by auto
  then show ?thesis using t mf k by (auto simp: piece_ok_def op_ok_def f ret_spec_def)
qed

lemma trace_sim_step:
  assumes sim: "trace_sim h' P out" and h': "hdr_targets h' = hdr_targets h" "VersionPartialTransfer \<le> hdr_version h'"
    and sp: "op_spec h P x" and b: "0 < block"
  shows "trace_sim h' (P @ [x]) (out @ renumber (int (length out)) (piecesOf block x))"
proof (cases "splittable block x")
  case False
  from sim have c: "carries P out" "ids_below out" "ops_spec h' out" by (simp_all add: trace_sim_def)
  from sp have "op_ok h P x" by (simp add: op_spec_op_ok)
  from op_ok_carries [OF c(1,2) h' this]
  have "trace_sim h' (P @ [x]) (out @ [x\<lparr>op_id := Some (int (length out))\<rparr>])"
    using carries_snoc [OF c(1)] ids_below_snoc [OF c(2)] c(3)
    unfolding trace_sim_def ops_spec_def each_after_snoc by blast
  with False show ?thesis by (simp add: piecesOf_def)
next
  case True
  then have k: "op_op x = OpRead \<or> op_op x = OpGet" by (simp add: splittable_def)
  have ho: "has_offset x" using sp by (auto simp: op_spec_def intro: has_offset_spec)
  have "piece_ok h (P @ [x]) x p" if "p \<in> set (piecesOf block x)" for p
    using piecesOf_elem [OF b ho that] piece_op_ok [OF sp True _ _ _ _ b] True by metis
  moreover have "trace_sim h' (P @ [x]) out"
    using sim carries_skip [OF _ k] by (auto simp: trace_sim_def)
  ultimately show ?thesis using h' by (intro trace_sim_pieces [of h' _ _ h x]) auto
qed

lemma trace_sim_all:
  assumes "hdr_targets h' = hdr_targets h" "VersionPartialTransfer \<le> hdr_version h'" "0 < block" "ops_spec h ops"
  shows "trace_sim h' ops (renumber 0 (concat (map (piecesOf block) ops)))"
  using assms(4)
proof (induction ops rule: rev_induct)
  case Nil
  then show ?case by (simp add: trace_sim_def carries_def ids_below_def ops_spec_def)
next
  case (snoc x ops)
  then have "trace_sim h' ops (renumber 0 (concat (map (piecesOf block) ops)))" "op_spec h ops x"
    by (simp_all add: ops_spec_def)
  from trace_sim_step [OF this(1) assms(1,2) this(2) assms(3)] show ?case by simp
qed

section \<open>The recomputed summary\<close>

lemma summaryLoop_spec:
  assumes "summaryLoop ops streams t p = (streams', t', p')" "distinct streams"
    and "\<forall>x \<in> set ops. 0 \<le> bytesMoved x" "0 \<le> t" "t + totalMoved ops < 2 ^ 63"
  shows "distinct streams' \<and> set streams' = set streams \<union> op_s ` set ops
    \<and> t' = t + totalMoved ops \<and> p' = p + int (length (filter isPartialTransfer ops))"
  using assms
proof (induction ops arbitrary: streams t p)
  case Nil
  then show ?case by simp
next
  case (Cons x xs)
  let ?st = "if op_s x \<in> set streams then streams else op_s x # streams"
  let ?p = "if isPartialTransfer x then p + 1 else p"
  have nn: "0 \<le> totalMoved xs"
    using Cons.prems(3) by (auto simp: totalMoved_def intro!: sum_list_nonneg)
  have tot: "(case transferredBytes x of None \<Rightarrow> t
      | Some moved \<Rightarrow> if countsBytes (op_op x) then i64 (t + moved) else t) = t + bytesMoved x"
    using Cons.prems(3-5) nn by (auto simp: bytesMoved_def i64_nonneg_bounded split: option.splits)
  have "summaryLoop xs ?st (t + bytesMoved x) ?p = (streams', t', p')"
    using Cons.prems(1) by (simp add: tot)
  from Cons.IH [OF this] Cons.prems(2-5) have "distinct streams' \<and> set streams' = set ?st \<union> op_s ` set xs
    \<and> t' = t + bytesMoved x + totalMoved xs \<and> p' = ?p + int (length (filter isPartialTransfer xs))"
    by simp
  then show ?case by auto
qed

lemma recomputeSummary_spec:
  assumes "\<forall>x \<in> set ops. 0 \<le> bytesMoved x" "totalMoved ops < 2 ^ 63"
  shows "recomputeSummary s ops = s\<lparr>sum_num_ops := int (length ops),
     sum_num_streams := int (card (op_s ` set ops)), sum_total_bytes := totalMoved ops,
     sum_num_partial_reads := int (length (filter isPartialTransfer ops))\<rparr>"
proof -
  obtain st t p where l: "summaryLoop ops [] 0 0 = (st, t, p)" by (metis prod_cases3)
  from summaryLoop_spec [OF l] assms have "distinct st" "set st = op_s ` set ops" "t = totalMoved ops"
    "p = int (length (filter isPartialTransfer ops))" by simp_all
  moreover from this have "length st = card (op_s ` set ops)" by (metis distinct_card)
  ultimately show ?thesis by (simp add: recomputeSummary_def l)
qed

section \<open>Properties\<close>

lemma splitReadsHeader_fields:
  "hdr_version (splitReadsHeader now h ops block d) = VersionTransformed"
  "hdr_targets (splitReadsHeader now h ops block d) = hdr_targets h"
  "hdr_kind (splitReadsHeader now h ops block d) = hdr_kind h"
  "hdr_time_unit (splitReadsHeader now h ops block d) = hdr_time_unit h"
  "hdr_capture_method (splitReadsHeader now h ops block d) = hdr_capture_method h"
  "hdr_capture_limitations (splitReadsHeader now h ops block d) = hdr_capture_limitations h"
  "hdr_summary (splitReadsHeader now h ops block d) = recomputeSummary (hdr_summary h) ops"
  by (auto simp: splitReadsHeader_def Let_def headerVersion_def minVersionForHeader_def
      minVersionForOps_eq version_defs)

lemma ops_spec_elem:
  assumes "ops_spec h ops" "x \<in> set ops"
  obtains P where "op_spec h P x"
  using assms unfolding ops_spec_def each_after_def by (meson split_list)

text \<open>The header and the operations of a split trace meet the specification again.\<close>

lemma split_reads_spec:
  assumes hs: "header_spec h" and os: "ops_spec h ops" and b: "0 < block"
    and rng: "\<forall>x \<in> set ops. split_range block x" and tot: "totalMoved ops < 2 ^ 63"
  defines "out \<equiv> renumber 0 (concat (map (piecesOf block) ops))"
  shows "splitReads ops block = Some (Inr out)" "header_spec (splitReadsHeader now h out block digest)"
    "ops_spec (splitReadsHeader now h out block digest) out" "summary_spec (splitReadsHeader now h out block digest) out"
proof -
  let ?h = "splitReadsHeader now h out block digest"
  have ho: "\<forall>x \<in> set ops. has_offset x"
    using os by (auto elim!: ops_spec_elem simp: op_spec_def intro: has_offset_spec)
  with rng show "splitReads ops block = Some (Inr out)"
    using splitReads_pieces [OF b] unfolding out_def by blast
  show outs: "ops_spec ?h out"
    using trace_sim_all [OF _ _ b os, of ?h] by (simp add: splitReadsHeader_fields version_defs trace_sim_def out_def)
  have tm: "totalMoved out = totalMoved ops" using totalMoved_pieces [OF b ho] by (simp add: out_def)
  have nn: "\<forall>x \<in> set out. 0 \<le> bytesMoved x" using outs by (auto elim!: ops_spec_elem intro: bytesMoved_spec)
  then have "0 \<le> totalMoved out" by (auto simp: totalMoved_def intro!: sum_list_nonneg)
  note rs = recomputeSummary_spec [OF nn, of "hdr_summary h"]
  show "header_spec ?h"
    using hs tot tm rs \<open>0 \<le> totalMoved out\<close> by (simp add: header_spec_def splitReadsHeader_fields version_defs)
  show "summary_spec ?h out"
    using tot tm rs by (simp add: summary_spec_def splitReadsHeader_fields)
qed

lemma sample_split:
  "header_spec sample_header" "ops_spec sample_header sample_ops" "\<forall>x \<in> set sample_ops. split_range 2 x"
  "totalMoved sample_ops < 2 ^ 63"
  using sample_spec
  by (simp_all add: trace_spec_def sample_reader_def sample_ops_def zero_op_def split_range_def
      transferredBytes_def requestedBytes_def totalMoved_def bytesMoved_def)

text \<open>
  C14: splitting preserves what was transferred. Each operation is replaced, in place, by
  operations that agree with it on timestamp, stream, kind, group, target, handle, mode and
  flags; a read that moved more than the block becomes full reads of at most the block size
  whose extents are consecutive from its offset to the end of its transfer; the total
  number of bytes moved is unchanged, and the ids are renumbered from zero.
\<close>

theorem split_reads_extents:
  assumes b: "0 < block" and ops: "\<forall>x \<in> set ops. split_range block x \<and> has_offset x"
  shows "splitReads ops block = Some (Inr (renumber 0 (concat (map (piecesOf block) ops))))
    \<and> totalMoved (renumber 0 (concat (map (piecesOf block) ops))) = totalMoved ops
    \<and> (\<forall>x \<in> set ops.
         (\<forall>p \<in> set (piecesOf block x). same_op x p)
         \<and> (if splittable block x
            then (\<forall>p \<in> set (piecesOf block x). op_ret p = None \<and> (\<exists>n. op_len p = Some n \<and> n \<le> block))
                 \<and> consecutive (the (op_off x)) (the (op_off x) + the (transferredBytes x)) (piecesOf block x)
            else piecesOf block x = [x]))"
proof (intro conjI ballI)
  show "splitReads ops block = Some (Inr (renumber 0 (concat (map (piecesOf block) ops))))"
    using splitReads_pieces [OF b] ops by blast
  show "totalMoved (renumber 0 (concat (map (piecesOf block) ops))) = totalMoved ops"
    using totalMoved_pieces [OF b] ops by simp
next
  fix x assume x: "x \<in> set ops"
  then have ho: "has_offset x" using ops by blast
  show "same_op x p" if "p \<in> set (piecesOf block x)" for p using piecesOf_same [OF b ho that] .
  show "if splittable block x
      then (\<forall>p \<in> set (piecesOf block x). op_ret p = None \<and> (\<exists>n. op_len p = Some n \<and> n \<le> block))
           \<and> consecutive (the (op_off x)) (the (op_off x) + the (transferredBytes x)) (piecesOf block x)
      else piecesOf block x = [x]"
  proof (cases "splittable block x")
    case False
    then show ?thesis by (simp add: piecesOf_def)
  next
    case True
    then obtain moved where m: "transferredBytes x = Some moved" "0 < moved"
      by (auto simp: splittable_def split: option.splits)
    have "op_ret p = None \<and> (\<exists>n. op_len p = Some n \<and> n \<le> block)" if "p \<in> set (piecesOf block x)" for p
      by (rule piecesOf_elem [OF b ho that]) (use True in \<open>simp_all add: piece_def\<close>)
    then have "\<forall>p \<in> set (piecesOf block x). op_ret p = None \<and> (\<exists>n. op_len p = Some n \<and> n \<le> block)" by blast
    moreover have "consecutive (the (op_off x)) (the (op_off x) + the (transferredBytes x)) (piecesOf block x)"
      using True m b piecesFrom_consecutive [of block 0 moved "the (op_off x)" x] by (simp add: piecesOf_def)
    ultimately show ?thesis using True by simp
  qed
qed

theorem split_reads_extents_witness:
  "\<exists>out. splitReads sample_ops 2 = Some (Inr out) \<and> totalMoved out = 3"
proof -
  have "\<forall>x \<in> set sample_ops. split_range 2 x \<and> has_offset x"
    using sample_split(3) by (simp add: sample_ops_def has_offset_def zero_op_def)
  moreover have "totalMoved sample_ops = 3"
    by (simp add: sample_ops_def zero_op_def totalMoved_def bytesMoved_def)
  ultimately show ?thesis using split_reads_extents [of 2 sample_ops] by auto
qed

section \<open>What the comments do not say\<close>

text \<open>
  A read that came back short with at most \<open>block\<close> bytes is passed through with its
  original request, however large that is: the guard compares the bytes moved, not the
  bytes requested. So an output operation may request more than \<open>block\<close> bytes.
\<close>

lemma short_read_keeps_request:
  "splitReads [zero_op\<lparr>op_op := OpRead, op_h := Some 1, op_off := Some 0, op_len := Some 1000, op_ret := Some 10\<rparr>] 64
   = Some (Inr [zero_op\<lparr>op_id := Some 0, op_op := OpRead, op_h := Some 1, op_off := Some 0,
                  op_len := Some 1000, op_ret := Some 10\<rparr>])"
  by (simp add: splitReads_def splitOne_def zero_op_def)

text \<open>
  The loop counter is a 64-bit integer. For a transfer of the largest length and a block of
  2^62 bytes it takes the values 0, 2^62, -2^63, -2^62 and 0 again, and never reaches the end.
\<close>

definition cycle :: "int set" where
  "cycle = {0, 2 ^ 62, - (2 ^ 63), - (2 ^ 62)}"

lemma cycle_step: "c \<in> cycle \<Longrightarrow> c < 2 ^ 63 - 1 \<and> i64 (c + 2 ^ 62) \<in> cycle"
  unfolding cycle_def by (elim insertE) (simp_all add: i64_def)

lemma split_counter_cycles: "splitLoop x off (2 ^ 62) (2 ^ 63 - 1) 0 pieces = None"
proof (rule ccontr)
  assume "\<not> ?thesis"
  then obtain r where ret: "splitLoop x off (2 ^ 62) (2 ^ 63 - 1) 0 pieces = Some r" by auto
  have "(2 ^ 62 :: int) = 2 ^ 62 \<longrightarrow> (2 ^ 63 - 1 :: int) = 2 ^ 63 - 1 \<longrightarrow> 0 \<notin> cycle"
  proof (rule splitLoop.raw_induct [where P = "\<lambda>x off block moved covered pieces r.
        block = 2 ^ 62 \<longrightarrow> moved = 2 ^ 63 - 1 \<longrightarrow> covered \<notin> cycle"
        and xa = "(((((x, off), 2 ^ 62), 2 ^ 63 - 1), 0), pieces)" and y = r, unfolded prod.case])
    fix f x off block moved covered pieces r
    assume IH: "\<And>x off block moved covered pieces r. f x off block moved covered pieces = Some r \<Longrightarrow>
        block = 2 ^ 62 \<longrightarrow> moved = 2 ^ 63 - 1 \<longrightarrow> covered \<notin> cycle"
      and eq: "(if covered < moved
        then let rem = i64 (moved - covered); size = if rem < block then rem else block;
                 piece = x\<lparr>op_off := Some (i64 (off + covered)), op_len := Some size, op_ret := None, op_dur := None\<rparr>
             in f x off block moved (i64 (covered + block)) (pieces @ [piece])
        else Some pieces) = Some r"
    show "block = 2 ^ 62 \<longrightarrow> moved = 2 ^ 63 - 1 \<longrightarrow> covered \<notin> cycle"
    proof (intro impI notI)
      assume h: "block = 2 ^ 62" "moved = 2 ^ 63 - 1" "covered \<in> cycle"
      note cs = cycle_step [OF h(3)]
      with eq h(1,2) obtain q where "f x off block moved (i64 (covered + block)) q = Some r"
        by (auto simp only: Let_def split: if_splits)
      from IH [OF this] h(1,2) cs show False by blast
    qed
  next
    show "splitLoop x off (2 ^ 62) (2 ^ 63 - 1) 0 pieces = Some r" by (rule ret)
  qed
  then show False by (simp add: cycle_def)
qed

end
