(* ===== verification/Importer.thy ===== *)
theory Importer
  imports Transform
begin

text \<open>
  The importers' shared core: the descriptor table of \<open>pkg/importer/fdtable.go\<close> and the trace
  builder of \<open>pkg/importer/build.go\<close>. Go's maps are association lists; \<open>SkippedReasons\<close> and
  \<open>Lossy\<close> map reasons to counts. The writer's output file is the parameter \<open>writable\<close>, whether
  its one \<open>Write\<close> succeeds.
\<close>

section \<open>Descriptor table\<close>

record fd_entry =
  fe_HasHandle :: bool
  fe_Handle :: int
  fe_TargetID :: int
  fe_Cursor :: int
  fe_Path :: string
  fe_AppendMode :: bool

record fd_table =
  ft_entries :: "((int \<times> int) \<times> fd_entry) list"
  ft_nextHandle :: int

definition newFDTable :: fd_table where
  "newFDTable = \<lparr>ft_entries = [], ft_nextHandle = 0\<rparr>"

definition fdOpen :: "int \<Rightarrow> int \<Rightarrow> int \<Rightarrow> string \<Rightarrow> bool \<Rightarrow> fd_table \<Rightarrow> fd_table \<times> int" where
  "fdOpen stream fd targetID path appendMode t =
     (let h = ft_nextHandle t in
      (t\<lparr>ft_nextHandle := i64 (ft_nextHandle t + 1),
         ft_entries := AList.update (stream, fd)
           \<lparr>fe_HasHandle = True, fe_Handle = h, fe_TargetID = targetID, fe_Cursor = 0, fe_Path = path,
            fe_AppendMode = appendMode\<rparr> (ft_entries t)\<rparr>, h))"

definition fdOpenDir :: "int \<Rightarrow> int \<Rightarrow> string \<Rightarrow> fd_table \<Rightarrow> fd_table" where
  "fdOpenDir stream fd path t =
     t\<lparr>ft_entries := AList.update (stream, fd)
         \<lparr>fe_HasHandle = False, fe_Handle = 0, fe_TargetID = 0, fe_Cursor = 0, fe_Path = path, fe_AppendMode = False\<rparr>
         (ft_entries t)\<rparr>"

definition fdResolve :: "int \<Rightarrow> int \<Rightarrow> fd_table \<Rightarrow> fd_entry option" where
  "fdResolve stream fd t = map_of (ft_entries t) (stream, fd)"

definition fdPathFor :: "int \<Rightarrow> int \<Rightarrow> fd_table \<Rightarrow> string option" where
  "fdPathFor stream fd t = map_option fe_Path (map_of (ft_entries t) (stream, fd))"

definition fdAdvance :: "int \<Rightarrow> int \<Rightarrow> int \<Rightarrow> fd_table \<Rightarrow> fd_table" where
  "fdAdvance stream fd n t =
     (case map_of (ft_entries t) (stream, fd) of
        None \<Rightarrow> t
      | Some e \<Rightarrow> t\<lparr>ft_entries := AList.update (stream, fd) (e\<lparr>fe_Cursor := i64 (fe_Cursor e + n)\<rparr>) (ft_entries t)\<rparr>)"

definition fdSetCursor :: "int \<Rightarrow> int \<Rightarrow> int \<Rightarrow> fd_table \<Rightarrow> fd_table" where
  "fdSetCursor stream fd pos t =
     (case map_of (ft_entries t) (stream, fd) of
        None \<Rightarrow> t
      | Some e \<Rightarrow> t\<lparr>ft_entries := AList.update (stream, fd) (e\<lparr>fe_Cursor := pos\<rparr>) (ft_entries t)\<rparr>)"

text \<open>The handle the closed descriptor held, if it held one.\<close>

definition fdClose :: "int \<Rightarrow> int \<Rightarrow> fd_table \<Rightarrow> fd_table \<times> int option" where
  "fdClose stream fd t =
     (case map_of (ft_entries t) (stream, fd) of
        None \<Rightarrow> (t, None)
      | Some e \<Rightarrow> (t\<lparr>ft_entries := AList.delete (stream, fd) (ft_entries t)\<rparr>,
                   if fe_HasHandle e then Some (fe_Handle e) else None))"

section \<open>Builder\<close>

record header_meta =
  hm_Kind :: trace_kind
  hm_CaptureMethod :: capture_method
  hm_CaptureLimitations :: string
  hm_GeneratedBy :: string
  hm_Notes :: string
  hm_CreatedUTC :: string

record import_report =
  ir_NumOps :: int
  ir_NumStreams :: int
  ir_NumTargets :: int
  ir_SkippedOps :: int
  ir_TimestampClamped :: int
  ir_SkippedReasons :: "(string \<times> int) list"
  ir_Lossy :: "(string \<times> int) list"

record stream_op =
  so_streamID :: int
  so_localIdx :: int
  so_op :: op

record builder =
  bd_targets :: "target_info list"
  bd_targetIdx :: "(string \<times> int) list"
  bd_perStream :: "(int \<times> stream_op list) list"
  bd_report :: import_report

definition emptyReport :: import_report where
  "emptyReport = \<lparr>ir_NumOps = 0, ir_NumStreams = 0, ir_NumTargets = 0, ir_SkippedOps = 0, ir_TimestampClamped = 0,
     ir_SkippedReasons = [], ir_Lossy = []\<rparr>"

definition newBuilder :: builder where
  "newBuilder = \<lparr>bd_targets = [], bd_targetIdx = [], bd_perStream = [], bd_report = emptyReport\<rparr>"

definition bdTarget :: "string \<Rightarrow> target_kind \<Rightarrow> builder \<Rightarrow> builder \<times> int" where
  "bdTarget name kind b =
     (case map_of (bd_targetIdx b) name of
        Some i \<Rightarrow> (b, i)
      | None \<Rightarrow>
          let i = int (length (bd_targets b)) in
          (b\<lparr>bd_targetIdx := AList.update name i (bd_targetIdx b),
             bd_targets := bd_targets b @ [\<lparr>ti_id = i, ti_name = name, ti_kind = kind, ti_size = 0\<rparr>]\<rparr>, i))"

definition streamAt :: "builder \<Rightarrow> int \<Rightarrow> stream_op list" where
  "streamAt b s = (case map_of (bd_perStream b) s of None \<Rightarrow> [] | Some xs \<Rightarrow> xs)"

definition bdAdd :: "op \<Rightarrow> builder \<Rightarrow> builder" where
  "bdAdd x b =
     (let s = op_s x; xs = streamAt b s in
      b\<lparr>bd_perStream := AList.update s
          (xs @ [\<lparr>so_streamID = s, so_localIdx = int (length xs), so_op = x\<rparr>]) (bd_perStream b)\<rparr>)"

definition bumpReason :: "string \<Rightarrow> (string \<times> int) list \<Rightarrow> (string \<times> int) list" where
  "bumpReason reason m = AList.update reason ((case map_of m reason of None \<Rightarrow> 0 | Some n \<Rightarrow> n) + 1) m"

definition bdSkip :: "string \<Rightarrow> builder \<Rightarrow> builder" where
  "bdSkip reason b =
     b\<lparr>bd_report := (bd_report b)\<lparr>ir_SkippedReasons := bumpReason reason (ir_SkippedReasons (bd_report b)),
         ir_SkippedOps := ir_SkippedOps (bd_report b) + 1\<rparr>\<rparr>"

definition bdNote :: "string \<Rightarrow> builder \<Rightarrow> builder" where
  "bdNote reason b = b\<lparr>bd_report := (bd_report b)\<lparr>ir_Lossy := bumpReason reason (ir_Lossy (bd_report b))\<rparr>\<rparr>"

definition LossyRequestedLenUnobservable :: string where
  "LossyRequestedLenUnobservable = ''requested_len_unobservable''"

fun joinCounts :: "(string \<times> int) list \<Rightarrow> string" where
  "joinCounts [] = []"
| "joinCounts [(k, n)] = k @ ''='' @ itoa n"
| "joinCounts ((k, n) # xs) = k @ ''='' @ itoa n @ '', '' @ joinCounts xs"

definition lossySummary :: "builder \<Rightarrow> string" where
  "lossySummary b =
     (let m = ir_Lossy (bd_report b) in
      if m = [] then [] else ''lossy: '' @ joinCounts (map (\<lambda>k. (k, the (map_of m k))) (sort (map fst m))))"

section \<open>Assembling the trace\<close>

text \<open>The least timestamp over the streams, with whether there is one.\<close>

fun minLoop :: "stream_op list \<Rightarrow> int option \<Rightarrow> int option" where
  "minLoop [] m = m"
| "minLoop (x # xs) m =
     minLoop xs (case m of None \<Rightarrow> Some (op_t (so_op x)) | Some v \<Rightarrow> Some (if op_t (so_op x) < v then op_t (so_op x) else v))"

definition minTimestamp :: "builder \<Rightarrow> int list \<Rightarrow> int option" where
  "minTimestamp b ids = minLoop (concat (map (streamAt b) ids)) None"

definition setT :: "int \<Rightarrow> stream_op \<Rightarrow> stream_op" where
  "setT t x = x\<lparr>so_op := (so_op x)\<lparr>op_t := t\<rparr>\<rparr>"

text \<open>Rebasing and clamping one stream: \<open>first\<close> marks its first op, \<open>prev\<close> the last timestamp.\<close>

fun clampLoop :: "int option \<Rightarrow> bool \<Rightarrow> int \<Rightarrow> stream_op list \<Rightarrow> stream_op list \<times> int" where
  "clampLoop minT first prev [] = ([], 0)"
| "clampLoop minT first prev (x # xs) =
     (let t = (case minT of None \<Rightarrow> op_t (so_op x) | Some m \<Rightarrow> i64 (op_t (so_op x) - m));
          (t', c) = (if \<not> first \<and> t < prev then (prev, 1) else (t, 0));
          (xs', n) = clampLoop minT False t' xs
      in (setT t' x # xs', c + n))"

fun clampAll :: "builder \<Rightarrow> int option \<Rightarrow> int list \<Rightarrow> stream_op list \<times> int" where
  "clampAll b minT [] = ([], 0)"
| "clampAll b minT (s # ids) =
     (let (xs, n) = clampLoop minT True 0 (streamAt b s);
          (ys, k) = clampAll b minT ids
      in (xs @ ys, n + k))"

definition mergeKey :: "stream_op \<Rightarrow> int \<times> int \<times> int" where
  "mergeKey x = (op_t (so_op x), so_streamID x, so_localIdx x)"

text \<open>Numbering the ops and adding up what the header declares about them.\<close>

fun totalsLoop :: "op list \<Rightarrow> int \<Rightarrow> int \<Rightarrow> int \<Rightarrow> int \<times> int \<times> int" where
  "totalsLoop [] totalBytes partials version = (totalBytes, partials, version)"
| "totalsLoop (x # xs) totalBytes partials version =
     totalsLoop xs
       (case transferredBytes x of
          None \<Rightarrow> totalBytes
        | Some moved \<Rightarrow> if countsBytes (op_op x) then i64 (totalBytes + moved) else totalBytes)
       (if isPartialTransfer x then partials + 1 else partials)
       (if minVersion x > version then minVersion x else version)"

datatype import_err =
    IEWrite trace_err
  | IESelfRead trace_err
  | IESelfValidate "unit validate_err"
  | IEInvalid report
  | IEOutput

definition builtHeader :: "header_meta \<Rightarrow> builder \<Rightarrow> int list \<Rightarrow> op list \<Rightarrow> header" where
  "builtHeader meta b ids ops =
     (let (totalBytes, partials, version) = totalsLoop ops 0 0 TraceFormatVersion in
      zero_header\<lparr>hdr_version := version, hdr_kind := hm_Kind meta, hdr_generated_by := hm_GeneratedBy meta,
        hdr_created_utc := hm_CreatedUTC meta, hdr_time_unit := TimeUnitNanoseconds,
        hdr_capture_method := hm_CaptureMethod meta, hdr_capture_limitations := hm_CaptureLimitations meta,
        hdr_targets := bd_targets b,
        hdr_summary := \<lparr>sum_num_ops = int (length ops), sum_num_streams = int (length ids), sum_num_groups = 0,
          sum_total_bytes = totalBytes, sum_duration_ns = (if ops = [] then 0 else op_t (last ops)),
          sum_num_partial_reads = partials\<rparr>,
        hdr_notes := hm_Notes meta\<rparr>)"

definition mergedOps :: "builder \<Rightarrow> int list \<Rightarrow> op list \<times> int" where
  "mergedOps b ids =
     (let (all, clamped) = clampAll b (minTimestamp b ids) ids
      in (renumber 0 (map so_op (sort_key mergeKey all)), clamped))"

definition writeTo :: "bool \<Rightarrow> header_meta \<Rightarrow> builder \<Rightarrow> import_err + raw_line list \<times> import_report" where
  "writeTo writable meta b =
     (let ids = sort (map fst (bd_perStream b));
          (ops, clamped) = mergedOps b ids;
          hdr = builtHeader meta b ids ops
      in (case writeHeader (newWriter (\<lambda>_. True)) hdr of
            Inl e \<Rightarrow> Inl (IEWrite e)
          | Inr w \<Rightarrow>
              (case writeOps w ops of
                 Inl e \<Rightarrow> Inl (IEWrite e)
               | Inr w' \<Rightarrow>
                   (case newReader (wr_out w') of
                      Inl e \<Rightarrow> Inl (IESelfRead e)
                    | Inr rd \<Rightarrow>
                        (case validate rd of
                           (rep, Some e) \<Rightarrow> Inl (IESelfValidate e)
                         | (rep, None) \<Rightarrow>
                             if \<not> report_ok rep then Inl (IEInvalid rep)
                             else if \<not> writable then Inl IEOutput
                             else Inr (wr_out w', (bd_report b)
                               \<lparr>ir_TimestampClamped := ir_TimestampClamped (bd_report b) + clamped,
                                ir_NumOps := int (length ops), ir_NumStreams := int (length ids),
                                ir_NumTargets := int (length (bd_targets b))\<rparr>))))))"

end
