(* ===== verification/Import_Valid.thy ===== *)
theory Import_Valid
  imports Importer "HOL-Library.Multiset"
begin

text \<open>
  Why the importer's self-validation accepts what it builds: if every stream on its own obeys
  the format's rules and no two streams share a handle, merging the streams by time keeps the
  rules, whatever the interleaving, and the header the builder computes declares what is there.
\<close>

section \<open>Streams on their own\<close>

text \<open>The conditions of \<open>op_spec\<close> other than those on timestamps and ids.\<close>

definition body_spec :: "header \<Rightarrow> op list \<Rightarrow> op \<Rightarrow> bool" where
  "body_spec h pre x \<longleftrightarrow>
     (op_op x \<noteq> OpOpen \<longrightarrow> op_mode x = ModeAbsent \<and> op_flags x = [])
     \<and> kind_spec (op_op x) h pre x \<and> ret_spec h x
     \<and> (case op_dur x of None \<Rightarrow> True | Some d \<Rightarrow> 0 \<le> d)"

lemma op_spec_body: "op_spec h pre x \<longleftrightarrow> (\<forall>y \<in> set pre. op_t y \<le> op_t x) \<and> id_spec pre x \<and> body_spec h pre x"
  by (auto simp: op_spec_def body_spec_def)

definition untimed :: "op \<Rightarrow> op" where
  "untimed x = x\<lparr>op_t := 0, op_id := None\<rparr>"

lemma untimed_simps [simp]:
  "op_op (untimed x) = op_op x" "op_s (untimed x) = op_s x" "op_h (untimed x) = op_h x" "op_tgt (untimed x) = op_tgt x"
  "op_mode (untimed x) = op_mode x" "op_flags (untimed x) = op_flags x" "op_off (untimed x) = op_off x"
  "op_len (untimed x) = op_len x" "op_ret (untimed x) = op_ret x" "op_dur (untimed x) = op_dur x"
  "opens h (untimed x) = opens h x" "closes h (untimed x) = closes h x"
  by (simp_all add: untimed_def opens_def closes_def)

lemma live_untimed [simp]: "live (map untimed pre) s h = live pre s h"
  by (induction pre rule: rev_induct) (simp_all add: live_snoc)

lemma handle_ok_untimed [simp]: "handle_ok (map untimed pre) (untimed x) = handle_ok pre x"
  by (simp add: handle_ok_def split: option.split)

lemma kind_spec_untimed [simp]: "kind_spec k h (map untimed pre) (untimed x) = kind_spec k h pre x"
  by (cases k) (simp_all add: target_ok_def no_position_def split: option.split)

lemma body_untimed: "body_spec h (map untimed pre) (untimed x) = body_spec h pre x"
  by (simp add: body_spec_def ret_spec_def split: option.split)

lemma each_after_untimed: "each_after (body_spec h) (map untimed xs) = each_after (body_spec h) xs"
  by (induction xs rule: rev_induct) (simp_all add: body_untimed)

section \<open>Merging\<close>

definition stream_of :: "int \<Rightarrow> op list \<Rightarrow> op list" where
  "stream_of s ops = filter (\<lambda>x. op_s x = s) ops"

definition own_handles :: "op list \<Rightarrow> bool" where
  "own_handles ops \<longleftrightarrow> (\<forall>x \<in> set ops. \<forall>y \<in> set ops. \<forall>h. op_h x = Some h \<and> op_h y = Some h \<longrightarrow> op_s x = op_s y)"

lemma own_handlesD: "own_handles ops \<Longrightarrow> x \<in> set ops \<Longrightarrow> y \<in> set ops \<Longrightarrow> op_h x = Some h \<Longrightarrow> op_h y = Some h \<Longrightarrow> op_s x = op_s y"
  unfolding own_handles_def by blast

lemma own_handles_subset: "own_handles ops \<Longrightarrow> set ops' \<subseteq> set ops \<Longrightarrow> own_handles ops'"
  unfolding own_handles_def by blast

lemma live_merged:
  assumes "live (stream_of s ops) s h" "\<forall>y \<in> set ops. op_h y = Some h \<longrightarrow> op_s y = s"
  shows "live ops s h"
  using assms
proof (induction ops rule: rev_induct)
  case (snoc y ops)
  show ?case
  proof (cases "op_s y = s")
    case True
    with snoc show ?thesis by (auto simp: stream_of_def live_snoc)
  next
    case False
    with snoc.prems have "live (stream_of s ops) s h" "\<not> closes h y" by (auto simp: stream_of_def closes_def)
    with snoc show ?thesis by (simp add: live_snoc)
  qed
qed (simp add: stream_of_def)

lemma body_merged:
  assumes b: "body_spec h (stream_of (op_s x) ops) x" and own: "own_handles (ops @ [x])"
  shows "body_spec h ops x"
proof -
  have mine: "op_s y = op_s x" if "y \<in> set ops" "op_h y = Some hh" "op_h x = Some hh" for y hh
    using own_handlesD [OF own _ _ that(2,3)] that(1) by simp
  have hok: "handle_ok ops x" if h: "handle_ok (stream_of (op_s x) ops) x"
  proof -
    obtain hh where hh: "op_h x = Some hh" "live (stream_of (op_s x) ops) (op_s x) hh"
      using h by (auto simp: handle_ok_def split: option.splits)
    from live_merged [OF hh(2)] mine [OF _ _ hh(1)] have "live ops (op_s x) hh" by blast
    with hh(1) show ?thesis by (simp add: handle_ok_def)
  qed
  have fresh: "\<forall>y \<in> set ops. \<not> opens hh y"
    if none: "\<forall>y \<in> set (stream_of (op_s x) ops). \<not> opens hh y" and hx: "op_h x = Some hh" for hh
  proof
    fix y assume y: "y \<in> set ops"
    show "\<not> opens hh y"
    proof
      assume o: "opens hh y"
      then have "op_h y = Some hh" by (simp add: opens_def)
      with mine [OF y _ hx] have "y \<in> set (stream_of (op_s x) ops)" using y by (simp add: stream_of_def)
      with none o show False by blast
    qed
  qed
  have "kind_spec (op_op x) h ops x"
    using b hok fresh by (cases "op_op x") (auto simp: body_spec_def split: option.splits)
  with b show ?thesis by (simp add: body_spec_def)
qed

lemma renumber_untimed: "map untimed (renumber i ops) = map untimed ops"
  by (induction i ops rule: renumber.induct) (simp_all add: untimed_def)

lemma id_spec_renumbered: "id_spec (renumber 0 ops) (x\<lparr>op_id := Some (int (length ops))\<rparr>)"
proof -
  have "\<exists>j. op_id y = Some j \<and> j < int (length ops)" if "y \<in> set (renumber 0 ops)" for y
    using renumber_elem [OF that] by auto
  then show ?thesis unfolding id_spec_def by fastforce
qed

lemma renumber_times: "map op_t (renumber i ops) = map op_t ops"
  by (induction i ops rule: renumber.induct) simp_all

lemma merged_valid:
  assumes "\<forall>s. each_after (body_spec h) (stream_of s ops)" "own_handles ops" "sorted (map op_t ops)"
  shows "ops_spec h (renumber 0 ops)"
  using assms
proof (induction ops rule: rev_induct)
  case Nil
  then show ?case by (simp add: ops_spec_def)
next
  case (snoc x ops)
  let ?x = "x\<lparr>op_id := Some (int (length ops))\<rparr>"
  have "each_after (body_spec h) (stream_of s ops)" for s
    using snoc.prems(1) each_after_append [of _ "stream_of s ops" "stream_of s [x]"] by (simp add: stream_of_def)
  moreover have "own_handles ops" "sorted (map op_t ops)"
    using own_handles_subset [OF snoc.prems(2), of ops] snoc.prems(3) by (auto simp: sorted_append)
  ultimately have IH: "ops_spec h (renumber 0 ops)" using snoc.IH by blast
  have "each_after (body_spec h) (stream_of (op_s x) ops @ [x])"
    using snoc.prems(1) [rule_format, of "op_s x"] by (simp add: stream_of_def)
  then have "body_spec h ops x" using snoc.prems(2) by (simp add: body_merged)
  then have "body_spec h (renumber 0 ops) ?x"
    using body_untimed [of h "renumber 0 ops" ?x] body_untimed [of h ops x]
    by (simp add: renumber_untimed) (simp add: untimed_def)
  moreover have "\<forall>y \<in> set (renumber 0 ops). op_t y \<le> op_t x"
  proof -
    have "\<forall>t \<in> set (map op_t ops). t \<le> op_t x" using snoc.prems(3) by (simp add: sorted_append)
    then have "\<forall>t \<in> set (map op_t (renumber 0 ops)). t \<le> op_t x" by (simp only: renumber_times)
    then show ?thesis by simp
  qed
  ultimately have "op_spec h (renumber 0 ops) ?x"
    using id_spec_renumbered [of ops x] by (simp add: op_spec_body)
  with IH show ?case by (simp add: ops_spec_def)
qed

section \<open>Rebasing and clamping\<close>

lemma setT_simps [simp]:
  "so_streamID (setT t x) = so_streamID x" "so_localIdx (setT t x) = so_localIdx x"
  "so_op (setT t x) = (so_op x)\<lparr>op_t := t\<rparr>"
  by (simp_all add: setT_def)

lemma untimed_retimed [simp]: "untimed (x\<lparr>op_t := t\<rparr>) = untimed x"
  by (simp add: untimed_def)

lemma clampLoop_frame:
  assumes "clampLoop m first prev xs = (xs', n)"
  shows "map so_streamID xs' = map so_streamID xs \<and> map so_localIdx xs' = map so_localIdx xs
    \<and> map (untimed \<circ> so_op) xs' = map (untimed \<circ> so_op) xs"
  using assms
proof (induction xs arbitrary: first prev xs' n)
  case (Cons x xs)
  then show ?case by (auto simp: Let_def split: prod.splits if_splits)
qed simp

lemma clampLoop_sorted:
  assumes "clampLoop m first prev xs = (xs', n)"
  shows "sorted (map (\<lambda>x. op_t (so_op x)) xs') \<and> (\<not> first \<longrightarrow> (\<forall>x \<in> set xs'. prev \<le> op_t (so_op x)))"
  using assms
proof (induction xs arbitrary: first prev xs' n)
  case (Cons x xs)
  let ?t = "case m of None \<Rightarrow> op_t (so_op x) | Some v \<Rightarrow> i64 (op_t (so_op x) - v)"
  define t' where "t' = (if \<not> first \<and> ?t < prev then prev else ?t)"
  obtain ys k where ys: "clampLoop m False t' xs = (ys, k)" by fastforce
  with Cons.prems have e: "xs' = setT t' x # ys" by (auto simp: Let_def t'_def split: if_splits)
  from Cons.IH [OF ys] have "sorted (map (\<lambda>x. op_t (so_op x)) ys)" "\<forall>y \<in> set ys. t' \<le> op_t (so_op y)" by auto
  moreover have "\<not> first \<longrightarrow> prev \<le> t'" by (simp add: t'_def)
  ultimately show ?case using e by auto
qed simp

lemma clampLoop_range:
  assumes "clampLoop (Some m) first prev xs = (xs', n)" "\<forall>x \<in> set xs. m \<le> op_t (so_op x) \<and> op_t (so_op x) - m < 2 ^ 63"
    "0 \<le> prev" "prev < 2 ^ 63"
  shows "\<forall>x \<in> set xs'. 0 \<le> op_t (so_op x) \<and> op_t (so_op x) < 2 ^ 63"
  using assms
proof (induction xs arbitrary: first prev xs' n)
  case (Cons x xs)
  let ?t = "i64 (op_t (so_op x) - m)"
  let ?t' = "if \<not> first \<and> ?t < prev then prev else ?t"
  obtain ys k where ys: "clampLoop (Some m) False ?t' xs = (ys, k)" by fastforce
  with Cons.prems(1) have e: "xs' = setT ?t' x # ys" by (auto simp: Let_def split: if_splits)
  have "?t = op_t (so_op x) - m" using Cons.prems(2) by (intro i64_nonneg_bounded) auto
  with Cons.prems(2-4) have t: "0 \<le> ?t'" "?t' < 2 ^ 63" by auto
  from Cons.IH [OF ys] t Cons.prems(2) e show ?case by auto
qed simp


section \<open>The builder\<close>

definition targetsHeader :: "target_info list \<Rightarrow> header" where
  "targetsHeader ts = zero_header\<lparr>hdr_targets := ts\<rparr>"

definition stream_wf :: "int \<Rightarrow> stream_op list \<Rightarrow> bool" where
  "stream_wf s xs \<longleftrightarrow> xs \<noteq> [] \<and> map so_localIdx xs = map int [0..<length xs]
     \<and> (\<forall>x \<in> set xs. so_streamID x = s \<and> op_s (so_op x) = s)"

definition allOps :: "builder \<Rightarrow> op list" where
  "allOps b = map so_op (concat (map snd (bd_perStream b)))"

definition builder_ok :: "builder \<Rightarrow> bool" where
  "builder_ok b \<longleftrightarrow> distinct (map fst (bd_perStream b))
     \<and> (\<forall>(s, xs) \<in> set (bd_perStream b). stream_wf s xs
          \<and> each_after (body_spec (targetsHeader (bd_targets b))) (map so_op xs))
     \<and> (\<forall>x \<in> set (allOps b). wf_op x \<and> 0 \<le> op_t x)
     \<and> own_handles (allOps b) \<and> targets_spec 0 (bd_targets b) \<and> (\<forall>t \<in> set (bd_targets b). wf_target t)"

lemma streamAt_in: "distinct (map fst (bd_perStream b)) \<Longrightarrow> (s, xs) \<in> set (bd_perStream b) \<Longrightarrow> streamAt b s = xs"
  by (simp add: streamAt_def)

lemma streamAt_cases: "streamAt b s = [] \<or> (s, streamAt b s) \<in> set (bd_perStream b)"
  by (auto simp: streamAt_def dest: map_of_SomeD split: option.splits)

lemma streamAt_none: "s \<notin> set (map fst (bd_perStream b)) \<Longrightarrow> streamAt b s = []"
  using map_of_eq_None_iff [of "bd_perStream b" s] by (simp add: streamAt_def)

lemma streamAt_wf:
  assumes "builder_ok b" "s \<in> set (map fst (bd_perStream b))"
  shows "stream_wf s (streamAt b s)" "each_after (body_spec (targetsHeader (bd_targets b))) (map so_op (streamAt b s))"
proof -
  obtain xs where "(s, xs) \<in> set (bd_perStream b)" using assms(2) by auto
  with assms(1) show "stream_wf s (streamAt b s)" "each_after (body_spec (targetsHeader (bd_targets b))) (map so_op (streamAt b s))"
    using streamAt_in [of b s xs] by (auto simp: builder_ok_def)
qed

lemma sorted_keys:
  assumes "sorted (map (\<lambda>x. op_t (so_op x)) ys)" "\<forall>x \<in> set ys. so_streamID x = s" "map so_localIdx ys = map int [0..<length ys]"
  shows "sorted (map mergeKey ys)"
  unfolding sorted_iff_nth_mono
proof (intro allI impI)
  fix i j assume ij: "i \<le> j" "j < length (map mergeKey ys)"
  then have "op_t (so_op (ys ! i)) \<le> op_t (so_op (ys ! j))" using assms(1) by (simp add: sorted_iff_nth_mono)
  moreover have "so_localIdx (ys ! k) = int k" if "k < length ys" for k
    using arg_cong [OF assms(3), of "\<lambda>l. l ! k"] that by simp
  ultimately show "map mergeKey ys ! i \<le> map mergeKey ys ! j" using ij assms(2) by (simp add: mergeKey_def)
qed

lemma clamp_stream:
  assumes "stream_wf s xs" "clampLoop m True 0 xs = (ys, n)"
  shows "\<forall>y \<in> set ys. so_streamID y = s \<and> op_s (so_op y) = s" "sorted (map mergeKey ys)"
    "map (untimed \<circ> so_op) ys = map (untimed \<circ> so_op) xs"
proof -
  note f = clampLoop_frame [OF assms(2)]
  then have len: "length ys = length xs" by (metis length_map)
  have ids: "\<forall>y \<in> set ys. so_streamID y = s"
  proof -
    have "\<forall>i \<in> set (map so_streamID xs). i = s" using assms(1) by (auto simp: stream_wf_def)
    then have "\<forall>i \<in> set (map so_streamID ys). i = s" using f by simp
    then show ?thesis by simp
  qed
  have ops: "\<forall>y \<in> set ys. op_s (so_op y) = s"
  proof -
    have "\<forall>u \<in> set (map (untimed \<circ> so_op) xs). op_s u = s" using assms(1) by (auto simp: stream_wf_def)
    then have "\<forall>u \<in> set (map (untimed \<circ> so_op) ys). op_s u = s" using f by simp
    then show ?thesis by simp
  qed
  show "\<forall>y \<in> set ys. so_streamID y = s \<and> op_s (so_op y) = s" using ids ops by simp
  show "sorted (map mergeKey ys)"
    by (rule sorted_keys [OF _ ids]) (use clampLoop_sorted [OF assms(2)] f assms(1) len in \<open>simp_all add: stream_wf_def\<close>)
  show "map (untimed \<circ> so_op) ys = map (untimed \<circ> so_op) xs" using f by simp
qed

lemma clampAll_filter:
  assumes "\<forall>s \<in> set ids. stream_wf s (streamAt b s)" "distinct ids"
  shows "filter (\<lambda>x. so_streamID x = s) (fst (clampAll b m ids))
    = (if s \<in> set ids then fst (clampLoop m True 0 (streamAt b s)) else [])"
  using assms
proof (induction ids)
  case (Cons r ids)
  obtain xs n where xs: "clampLoop m True 0 (streamAt b r) = (xs, n)" by fastforce
  obtain ys k where ys: "clampAll b m ids = (ys, k)" by fastforce
  have r: "\<forall>y \<in> set xs. so_streamID y = r" using clamp_stream(1) [OF _ xs] Cons.prems(1) by simp
  have "filter (\<lambda>x. so_streamID x = s) xs = (if s = r then xs else [])" using r by (auto simp: filter_empty_conv)
  with Cons xs ys show ?case by (auto split: if_splits)
qed simp

lemma clampAll_untimed:
  "map (untimed \<circ> so_op) (fst (clampAll b m ids)) = map (untimed \<circ> so_op) (concat (map (streamAt b) ids))"
proof (induction ids)
  case (Cons r ids)
  obtain xs n where xs: "clampLoop m True 0 (streamAt b r) = (xs, n)" by fastforce
  obtain ys k where ys: "clampAll b m ids = (ys, k)" by fastforce
  from Cons clampLoop_frame [OF xs] xs ys show ?case by (simp add: comp_def)
qed simp

lemma clampAll_elem:
  assumes "\<forall>s \<in> set ids. stream_wf s (streamAt b s)" "x \<in> set (fst (clampAll b m ids))"
  shows "op_s (so_op x) = so_streamID x"
  using assms
proof (induction ids)
  case (Cons r ids)
  obtain xs n where xs: "clampLoop m True 0 (streamAt b r) = (xs, n)" by fastforce
  obtain ys k where ys: "clampAll b m ids = (ys, k)" by fastforce
  have "\<forall>y \<in> set xs. so_streamID y = r \<and> op_s (so_op y) = r" using clamp_stream(1) [OF _ xs] Cons.prems(1) by simp
  with Cons xs ys show ?case by auto
qed simp

definition sortedIDs :: "builder \<Rightarrow> int list" where
  "sortedIDs b = sort (map fst (bd_perStream b))"

lemma sortedIDs_streams:
  assumes "builder_ok b"
  shows "\<forall>s \<in> set (sortedIDs b). stream_wf s (streamAt b s)" "distinct (sortedIDs b)"
  using assms streamAt_wf(1) [OF assms] by (simp_all add: sortedIDs_def builder_ok_def)

lemma merged_streams:
  assumes "builder_ok b"
  shows "stream_of s (map so_op (sort_key mergeKey (fst (clampAll b m (sortedIDs b)))))
    = map so_op (if s \<in> set (sortedIDs b) then fst (clampLoop m True 0 (streamAt b s)) else [])"
proof -
  let ?c = "fst (clampAll b m (sortedIDs b))"
  note w = sortedIDs_streams [OF assms]
  have "stream_of s (map so_op (sort_key mergeKey ?c)) = map so_op (filter (\<lambda>x. op_s (so_op x) = s) (sort_key mergeKey ?c))"
    by (simp add: stream_of_def filter_map comp_def)
  also have "filter (\<lambda>x. op_s (so_op x) = s) (sort_key mergeKey ?c) = filter (\<lambda>x. so_streamID x = s) (sort_key mergeKey ?c)"
    using clampAll_elem [OF w(1)] by (intro filter_cong) auto
  also have "\<dots> = sort_key mergeKey (if s \<in> set (sortedIDs b) then fst (clampLoop m True 0 (streamAt b s)) else [])"
    by (simp add: filter_sort clampAll_filter [OF w])
  also have "\<dots> = (if s \<in> set (sortedIDs b) then fst (clampLoop m True 0 (streamAt b s)) else [])"
  proof (cases "s \<in> set (sortedIDs b)")
    case True
    then have "stream_wf s (streamAt b s)" using w(1) by blast
    from clamp_stream(2) [OF this, of m "fst (clampLoop m True 0 (streamAt b s))" "snd (clampLoop m True 0 (streamAt b s))"]
    show ?thesis using True by (simp add: sorted_sort_id sort_key_id_if_sorted)
  qed simp
  finally show ?thesis .
qed


section \<open>What the merge keeps\<close>

lemma minLoop_bound:
  "minLoop xs m = Some v \<Longrightarrow> (\<forall>x \<in> set xs. v \<le> op_t (so_op x)) \<and> (\<forall>u. m = Some u \<longrightarrow> v \<le> u)"
proof (induction xs arbitrary: m)
  case (Cons x xs)
  from Cons.IH [OF Cons.prems [simplified]] show ?case by (auto split: option.splits if_splits)
qed simp

lemma minLoop_attained:
  "minLoop xs m = Some v \<Longrightarrow> m = Some v \<or> (\<exists>x \<in> set xs. v = op_t (so_op x))"
proof (induction xs arbitrary: m)
  case (Cons x xs)
  from Cons.IH [OF Cons.prems [simplified]] show ?case by (auto split: option.splits if_splits)
qed simp

lemma minLoop_some: "xs \<noteq> [] \<or> m \<noteq> None \<Longrightarrow> minLoop xs m \<noteq> None"
  by (induction xs arbitrary: m) (auto split: option.split)

lemma mset_streams:
  assumes "builder_ok b"
  shows "mset (concat (map (streamAt b) (sortedIDs b))) = mset (concat (map snd (bd_perStream b)))"
proof -
  have d: "distinct (map fst (bd_perStream b))" using assms by (simp add: builder_ok_def)
  have "streamAt b (fst p) = snd p" if "p \<in> set (bd_perStream b)" for p
    using streamAt_in [OF d, of "fst p" "snd p"] that by simp
  then have at: "map (streamAt b) (map fst (bd_perStream b)) = map snd (bd_perStream b)" by simp
  have "mset (map (streamAt b) (sortedIDs b)) = mset (map (streamAt b) (map fst (bd_perStream b)))"
    by (simp add: sortedIDs_def multiset.map_comp)
  then have "mset (map (streamAt b) (sortedIDs b)) = mset (map snd (bd_perStream b))" by (simp only: at)
  then show ?thesis by (metis mset_concat mset_map sum_mset_sum_list)
qed

lemma mset_merged:
  assumes "builder_ok b"
  shows "mset (map (untimed \<circ> so_op) (sort_key mergeKey (fst (clampAll b m (sortedIDs b))))) = mset (map untimed (allOps b))"
proof -
  let ?c = "fst (clampAll b m (sortedIDs b))"
  have "mset (map (untimed \<circ> so_op) (sort_key mergeKey ?c)) = mset (map (untimed \<circ> so_op) ?c)" by simp
  also have "\<dots> = mset (map (untimed \<circ> so_op) (concat (map (streamAt b) (sortedIDs b))))"
    by (simp only: clampAll_untimed)
  also have "\<dots> = mset (map (untimed \<circ> so_op) (concat (map snd (bd_perStream b))))"
    by (simp only: mset_map mset_streams [OF assms])
  finally show ?thesis by (simp add: allOps_def)
qed

lemma mergedOps_untimed:
  assumes "builder_ok b"
  shows "mset (map untimed (fst (mergedOps b (sortedIDs b)))) = mset (map untimed (allOps b))"
proof -
  obtain cs n where cs: "clampAll b (minTimestamp b (sortedIDs b)) (sortedIDs b) = (cs, n)" by fastforce
  then have "fst (mergedOps b (sortedIDs b)) = renumber 0 (map so_op (sort_key mergeKey cs))" by (simp add: mergedOps_def)
  with mset_merged [OF assms, of "minTimestamp b (sortedIDs b)"] cs show ?thesis
    by (simp only: renumber_untimed map_map fst_conv)
qed

lemma untimed_split: "untimed x = untimed y \<Longrightarrow> P (untimed x) = P (untimed y)"
  by simp

lemma mergedOps_own:
  assumes "builder_ok b" "mset (map untimed ops) = mset (map untimed (allOps b))"
  shows "own_handles ops"
  unfolding own_handles_def
proof (intro ballI allI impI)
  have u: "\<exists>z \<in> set (allOps b). untimed x = untimed z" if "x \<in> set ops" for x
  proof -
    have "untimed x \<in> set (map untimed ops)" using that by simp
    then have "untimed x \<in> set (map untimed (allOps b))" using assms(2) by (metis mset_eq_setD)
    then show ?thesis by auto
  qed
  fix x y h assume xy: "x \<in> set ops" "y \<in> set ops" "op_h x = Some h \<and> op_h y = Some h"
  obtain x' y' where x': "x' \<in> set (allOps b)" "untimed x = untimed x'" and y': "y' \<in> set (allOps b)" "untimed y = untimed y'"
    using u xy(1,2) by blast
  have "op_h x' = Some h" "op_s x' = op_s x" using x'(2) xy(3) by (metis untimed_simps(2,3))+
  moreover have "op_h y' = Some h" "op_s y' = op_s y" using y'(2) xy(3) by (metis untimed_simps(2,3))+
  moreover have "own_handles (allOps b)" using assms(1) by (simp add: builder_ok_def)
  ultimately show "op_s x = op_s y" using own_handlesD x'(1) y'(1) by metis
qed

lemma merged_streams_untimed:
  assumes "builder_ok b"
  shows "map untimed (stream_of s (map so_op (sort_key mergeKey (fst (clampAll b m (sortedIDs b)))))) = map (untimed \<circ> so_op) (streamAt b s)"
proof (cases "s \<in> set (sortedIDs b)")
  case True
  obtain ys n where ys: "clampLoop m True 0 (streamAt b s) = (ys, n)" by fastforce
  have "stream_wf s (streamAt b s)" using True sortedIDs_streams(1) [OF assms] by blast
  from clamp_stream(3) [OF this ys] show ?thesis using True ys by (simp add: merged_streams [OF assms])
next
  case False
  then have "streamAt b s = []" by (simp add: sortedIDs_def streamAt_none)
  with False show ?thesis by (simp add: merged_streams [OF assms])
qed

lemma untimed_stream_of: "map untimed (stream_of s ops) = stream_of s (map untimed ops)"
  by (simp add: stream_of_def filter_map comp_def)

lemma mergedOps_streams:
  assumes "builder_ok b"
  shows "map untimed (stream_of s (fst (mergedOps b (sortedIDs b)))) = map (untimed \<circ> so_op) (streamAt b s)"
proof -
  let ?m = "minTimestamp b (sortedIDs b)"
  obtain cs n where cs: "clampAll b ?m (sortedIDs b) = (cs, n)" by fastforce
  then have "fst (mergedOps b (sortedIDs b)) = renumber 0 (map so_op (sort_key mergeKey cs))" by (simp add: mergedOps_def)
  with merged_streams_untimed [OF assms, of s ?m] cs show ?thesis
    by (simp only: untimed_stream_of renumber_untimed fst_conv)
qed


section \<open>The header declares what is there\<close>

lemma totalsLoop_spec:
  assumes "totalsLoop ops t p v = (t', p', v')" "\<forall>x \<in> set ops. 0 \<le> bytesMoved x" "0 \<le> t" "t + totalMoved ops < 2 ^ 63"
    "1 \<le> v" "v \<le> 2"
  shows "t' = t + totalMoved ops \<and> p' = p + int (length (filter isPartialTransfer ops))
    \<and> v \<le> v' \<and> v' \<le> 2 \<and> (\<forall>x \<in> set ops. isPartialTransfer x \<longrightarrow> v' = 2)"
  using assms
proof (induction ops arbitrary: t p v)
  case (Cons x xs)
  let ?v = "if minVersion x > v then minVersion x else v"
  have nn: "0 \<le> totalMoved xs"
    using Cons.prems(2) by (auto simp: totalMoved_def intro!: sum_list_nonneg)
  have tot: "(case transferredBytes x of None \<Rightarrow> t
      | Some moved \<Rightarrow> if countsBytes (op_op x) then i64 (t + moved) else t) = t + bytesMoved x"
    using Cons.prems(2-4) nn by (auto simp: bytesMoved_def i64_nonneg_bounded split: option.splits)
  have v: "1 \<le> ?v" "?v \<le> 2" "v \<le> ?v" "isPartialTransfer x \<Longrightarrow> ?v = 2"
    using Cons.prems(5,6) by (auto simp: minVersion_def isPartialTransfer_def version_defs)
  have "totalsLoop xs (t + bytesMoved x) (if isPartialTransfer x then p + 1 else p) ?v = (t', p', v')"
    using Cons.prems(1) by (simp add: tot)
  from Cons.IH [OF this] Cons.prems(2-4) v show ?case by auto
qed simp

lemma bytesMoved_untimed [simp]: "bytesMoved (untimed x) = bytesMoved x"
  by (simp add: bytesMoved_def transferredBytes_def requestedBytes_def split: option.split)

lemma totalMoved_mset: "mset xs = mset ys \<Longrightarrow> totalMoved xs = totalMoved ys"
  unfolding totalMoved_def by (metis mset_map sum_mset_sum_list)

lemma totalMoved_untimed: "totalMoved (map untimed xs) = totalMoved xs"
  by (simp add: totalMoved_def comp_def)

lemma body_bytesMoved: "body_spec h pre x \<Longrightarrow> 0 \<le> bytesMoved x"
  by (cases "op_op x")
    (auto simp: bytesMoved_def body_spec_def ret_spec_def nat_field_def transferredBytes_def requestedBytes_def
      split: option.splits)

text \<open>A body condition under the targets alone holds under a header of those targets whose version admits it.\<close>

lemma body_spec_header:
  assumes "body_spec (targetsHeader (hdr_targets h)) pre x" "isPartialTransfer x \<longrightarrow> hdr_version h = 2"
  shows "body_spec h pre x"
proof -
  have "kind_spec (op_op x) h pre x"
    using assms(1) by (cases "op_op x") (auto simp: body_spec_def target_ok_def targetsHeader_def split: option.splits)
  with assms show ?thesis
    by (auto simp: body_spec_def ret_spec_def isPartialTransfer_def version_defs split: option.splits)
qed

lemma wf_op_untimed: "wf_op x \<longleftrightarrow> wf_op (untimed x) \<and> in64 (op_t x) \<and> in64_opt (op_id x)"
  by (auto simp: wf_op_def untimed_def in64_def)

section \<open>The written trace\<close>

definition meta_ok :: "header_meta \<Rightarrow> bool" where
  "meta_ok meta \<longleftrightarrow> capture_spec (hm_Kind meta) (hm_CaptureMethod meta) (hm_CaptureLimitations meta)"

definition sizes_ok :: "builder \<Rightarrow> bool" where
  "sizes_ok b \<longleftrightarrow> int (length (allOps b)) < 2 ^ 63 \<and> int (length (bd_perStream b)) < 2 ^ 63 \<and> totalMoved (allOps b) < 2 ^ 63"

lemma allOps_in: "x \<in> set (allOps b) \<longleftrightarrow> (\<exists>s xs y. (s, xs) \<in> set (bd_perStream b) \<and> y \<in> set xs \<and> x = so_op y)"
  by (force simp: allOps_def)

lemma clampAll_range:
  assumes "\<forall>x \<in> set (concat (map (streamAt b) ids)). m \<le> op_t (so_op x) \<and> op_t (so_op x) - m < 2 ^ 63"
  shows "\<forall>x \<in> set (fst (clampAll b (Some m) ids)). 0 \<le> op_t (so_op x) \<and> op_t (so_op x) < 2 ^ 63"
  using assms
proof (induction ids)
  case (Cons s ids)
  obtain xs n where xs: "clampLoop (Some m) True 0 (streamAt b s) = (xs, n)" by fastforce
  obtain ys k where ys: "clampAll b (Some m) ids = (ys, k)" by fastforce
  from clampLoop_range [OF xs] Cons xs ys show ?case by auto
qed simp

lemma mergedOps_times:
  assumes "builder_ok b"
  shows "\<forall>x \<in> set (fst (mergedOps b (sortedIDs b))). 0 \<le> op_t x \<and> op_t x < 2 ^ 63"
proof (cases "minTimestamp b (sortedIDs b)")
  case None
  then have "concat (map (streamAt b) (sortedIDs b)) = []"
    using minLoop_some [of "concat (map (streamAt b) (sortedIDs b))" None] unfolding minTimestamp_def by blast
  then have "fst (clampAll b None (sortedIDs b)) = []"
    using arg_cong [OF clampAll_untimed [of b None "sortedIDs b"], of length] by (simp del: concat_eq_Nil_conv)
  with None show ?thesis by (simp add: mergedOps_def split_def)
next
  case (Some m)
  let ?all = "concat (map (streamAt b) (sortedIDs b))"
  have "so_op x \<in> set (allOps b)" if "x \<in> set ?all" for x
  proof -
    have "x \<in> set (concat (map snd (bd_perStream b)))" using that by (simp only: mset_eq_setD [OF mset_streams [OF assms]])
    then show ?thesis by (simp add: allOps_def)
  qed
  then have r: "0 \<le> op_t (so_op x) \<and> op_t (so_op x) < 2 ^ 63" if "x \<in> set ?all" for x
    using that assms by (auto simp: builder_ok_def wf_op_def in64_def)
  have "\<forall>x \<in> set ?all. m \<le> op_t (so_op x)" "0 \<le> m"
    using minLoop_bound [OF Some [unfolded minTimestamp_def]] minLoop_attained [OF Some [unfolded minTimestamp_def]] r by auto
  with r have "\<forall>x \<in> set ?all. m \<le> op_t (so_op x) \<and> op_t (so_op x) - m < 2 ^ 63" by fastforce
  from clampAll_range [OF this]
  have "\<forall>x \<in> set (map so_op (sort_key mergeKey (fst (clampAll b (Some m) (sortedIDs b))))). 0 \<le> op_t x \<and> op_t x < 2 ^ 63" by simp
  moreover have "\<forall>t \<in> op_t ` set (renumber 0 xs). t \<in> op_t ` set xs" for xs
    using renumber_times [of 0 xs] by (metis set_map)
  ultimately show ?thesis using Some by (fastforce simp: mergedOps_def split: prod.splits)
qed


lemma mergedOps_facts:
  assumes "builder_ok b" "sizes_ok b"
  defines "ops \<equiv> fst (mergedOps b (sortedIDs b))"
  shows "length ops = length (allOps b)" "totalMoved ops = totalMoved (allOps b)" "op_s ` set ops = set (sortedIDs b)"
    "\<forall>x \<in> set ops. wf_op x"
proof -
  have m: "mset (map untimed ops) = mset (map untimed (allOps b))" unfolding ops_def by (rule mergedOps_untimed [OF assms(1)])
  from arg_cong [OF m, of size] show len: "length ops = length (allOps b)" by simp
  from totalMoved_mset [OF m] show "totalMoved ops = totalMoved (allOps b)" by (simp add: totalMoved_untimed)
  have "op_s ` set ops = op_s ` untimed ` set ops" by (simp add: image_image)
  also have "untimed ` set ops = untimed ` set (allOps b)" using mset_eq_setD [OF m] by simp
  also have "op_s ` untimed ` set (allOps b) = op_s ` set (allOps b)" by (simp add: image_image)
  also have "op_s ` set (allOps b) = set (sortedIDs b)"
  proof (intro set_eqI iffI)
    fix s assume "s \<in> op_s ` set (allOps b)"
    then obtain s' xs y where e: "(s', xs) \<in> set (bd_perStream b)" "y \<in> set xs" "s = op_s (so_op y)" by (auto simp: allOps_in)
    with assms(1) have "stream_wf s' xs" by (auto simp: builder_ok_def)
    with e show "s \<in> set (sortedIDs b)" by (force simp: sortedIDs_def stream_wf_def)
  next
    fix s assume "s \<in> set (sortedIDs b)"
    then obtain xs where e: "(s, xs) \<in> set (bd_perStream b)" by (auto simp: sortedIDs_def)
    with assms(1) have w: "stream_wf s xs" by (auto simp: builder_ok_def)
    then obtain y where y: "y \<in> set xs" by (cases xs) (auto simp: stream_wf_def)
    with e w have "so_op y \<in> set (allOps b)" "op_s (so_op y) = s" unfolding allOps_in stream_wf_def by blast+
    then show "s \<in> op_s ` set (allOps b)" by blast
  qed
  finally show "op_s ` set ops = set (sortedIDs b)" .
  show "\<forall>x \<in> set ops. wf_op x"
  proof
    fix x assume x: "x \<in> set ops"
    then have "untimed x \<in> set (map untimed (allOps b))" using mset_eq_setD [OF m] by (metis imageI list.set_map)
    then obtain z where "z \<in> set (allOps b)" "untimed x = untimed z" by auto
    then have "wf_op (untimed x)" using assms(1) by (simp add: builder_ok_def) (metis wf_op_untimed)
    moreover have "in64 (op_t x)" using mergedOps_times [OF assms(1)] x by (fastforce simp: ops_def in64_def)
    moreover have "in64_opt (op_id x)"
    proof -
      obtain cs n where "clampAll b (minTimestamp b (sortedIDs b)) (sortedIDs b) = (cs, n)" by fastforce
      then have e: "ops = renumber 0 (map so_op (sort_key mergeKey cs))" by (simp add: ops_def mergedOps_def)
      then have "length (map so_op (sort_key mergeKey cs)) = length ops" by simp
      with x e have "\<exists>j. op_id x = Some j \<and> 0 \<le> j \<and> j < int (length ops)" using renumber_elem [of x 0 "map so_op (sort_key mergeKey cs)"] by auto
      with len assms(2) show ?thesis by (auto simp: sizes_ok_def in64_opt_def in64_def)
    qed
    ultimately show "wf_op x" using wf_op_untimed [of x] by blast
  qed
qed

lemma sorted_fst: "sorted ps \<Longrightarrow> sorted (map fst (ps :: (int \<times> int \<times> int) list))"
proof (induction ps)
  case (Cons p ps)
  then have "\<forall>q \<in> set ps. fst p \<le> fst q" by (auto simp: less_eq_prod_def)
  with Cons show ?case by simp
qed simp

lemma mergedOps_body:
  assumes "builder_ok b"
  shows "each_after (body_spec (targetsHeader (bd_targets b))) (stream_of s (fst (mergedOps b (sortedIDs b))))"
proof -
  have "each_after (body_spec (targetsHeader (bd_targets b))) (map so_op (streamAt b s))"
    using streamAt_wf(2) [OF assms, of s] streamAt_none [of s b] by (cases "s \<in> set (map fst (bd_perStream b))") simp_all
  moreover have "map untimed (stream_of s (fst (mergedOps b (sortedIDs b)))) = map untimed (map so_op (streamAt b s))"
    using mergedOps_streams [OF assms, of s] by simp
  ultimately show ?thesis by (metis each_after_untimed)
qed

lemma mergedOps_nonneg:
  assumes "builder_ok b" "x \<in> set (fst (mergedOps b (sortedIDs b)))"
  shows "0 \<le> bytesMoved x"
proof -
  let ?ops = "fst (mergedOps b (sortedIDs b))"
  have "x \<in> set (stream_of (op_s x) ?ops)" using assms(2) by (simp add: stream_of_def)
  then obtain pre post where "stream_of (op_s x) ?ops = pre @ x # post" by (meson split_list)
  with mergedOps_body [OF assms(1), of "op_s x"] have "body_spec (targetsHeader (bd_targets b)) pre x" by (simp add: each_after_def)
  then show ?thesis by (rule body_bytesMoved)
qed

lemma mergedOps_ops_spec:
  assumes ok: "builder_ok b" and h: "hdr_targets hdr = bd_targets b"
    and v: "\<forall>x \<in> set (fst (mergedOps b (sortedIDs b))). isPartialTransfer x \<longrightarrow> hdr_version hdr = 2"
  shows "ops_spec hdr (fst (mergedOps b (sortedIDs b)))"
proof -
  obtain cs n where cs: "clampAll b (minTimestamp b (sortedIDs b)) (sortedIDs b) = (cs, n)" by fastforce
  let ?xs = "map so_op (sort_key mergeKey cs)" and ?ops = "fst (mergedOps b (sortedIDs b))"
  have ops: "?ops = renumber 0 ?xs" using cs by (simp add: mergedOps_def)
  have "sorted (map fst (map mergeKey (sort_key mergeKey cs)))" by (rule sorted_fst) simp
  then have srt: "sorted (map op_t ?xs)" by (simp add: comp_def mergeKey_def)
  have u: "map untimed ?xs = map untimed ?ops" by (simp only: ops renumber_untimed)
  have own: "own_handles ?xs" by (rule mergedOps_own [OF ok]) (simp only: u mergedOps_untimed [OF ok])
  have each: "each_after (body_spec hdr) (stream_of s ?xs)" for s
  proof -
    have "each_after (body_spec hdr) (stream_of s ?ops)"
      unfolding each_after_def
    proof (intro allI impI)
      fix pre x post assume e: "stream_of s ?ops = pre @ x # post"
      then have "x \<in> set (stream_of s ?ops)" by simp
      then have "isPartialTransfer x \<longrightarrow> hdr_version hdr = 2" using v by (auto simp: stream_of_def)
      moreover have "body_spec (targetsHeader (hdr_targets hdr)) pre x"
        using mergedOps_body [OF ok, of s] e unfolding each_after_def h by blast
      ultimately show "body_spec hdr pre x" by (simp add: body_spec_header)
    qed
    moreover have "map untimed (stream_of s ?xs) = map untimed (stream_of s ?ops)" by (simp only: untimed_stream_of u)
    ultimately show ?thesis by (metis each_after_untimed)
  qed
  show ?thesis unfolding ops by (rule merged_valid [OF allI [OF each] own srt])
qed

lemma built_header:
  assumes "builder_ok b" "sizes_ok b" "meta_ok meta"
  defines "ops \<equiv> fst (mergedOps b (sortedIDs b))" and "hdr \<equiv> builtHeader meta b (sortedIDs b) (fst (mergedOps b (sortedIDs b)))"
  shows "header_spec hdr" "wf_header hdr" "summary_spec hdr ops" "ops_spec hdr ops"
proof -
  note f = mergedOps_facts [OF assms(1,2), folded ops_def]
  obtain t p v where tl: "totalsLoop ops 0 0 TraceFormatVersion = (t, p, v)" by (metis prod_cases3)
  have nn: "\<forall>x \<in> set ops. 0 \<le> bytesMoved x" using mergedOps_nonneg [OF assms(1)] by (simp add: ops_def)
  have tot: "totalMoved ops < 2 ^ 63" "0 \<le> totalMoved ops"
    using f(2) assms(2) nn sum_list_nonneg [of "map bytesMoved ops"] by (auto simp: sizes_ok_def totalMoved_def)
  from totalsLoop_spec [OF tl nn] tot
  have tv: "t = totalMoved ops" "p = int (length (filter isPartialTransfer ops))" "1 \<le> v" "v \<le> 2"
    "\<forall>x \<in> set ops. isPartialTransfer x \<longrightarrow> v = 2" by (simp_all add: version_defs)
  have hdr: "hdr = zero_header\<lparr>hdr_version := v, hdr_kind := hm_Kind meta, hdr_generated_by := hm_GeneratedBy meta,
      hdr_created_utc := hm_CreatedUTC meta, hdr_time_unit := TimeUnitNanoseconds,
      hdr_capture_method := hm_CaptureMethod meta, hdr_capture_limitations := hm_CaptureLimitations meta,
      hdr_targets := bd_targets b,
      hdr_summary := \<lparr>sum_num_ops = int (length ops), sum_num_streams = int (length (sortedIDs b)), sum_num_groups = 0,
        sum_total_bytes = t, sum_duration_ns = (if ops = [] then 0 else op_t (last ops)), sum_num_partial_reads = p\<rparr>,
      hdr_notes := hm_Notes meta\<rparr>"
    using tl by (simp add: hdr_def builtHeader_def ops_def)
  have dur: "0 \<le> (if ops = [] then 0 else op_t (last ops))" "(if ops = [] then 0 else op_t (last ops)) < 2 ^ 63"
    using mergedOps_times [OF assms(1), folded ops_def] by (auto simp: last_in_set)
  have ids: "length (sortedIDs b) = length (bd_perStream b)" by (simp add: sortedIDs_def)
  have sz: "int (length ops) < 2 ^ 63" "int (length (bd_perStream b)) < 2 ^ 63" using assms(2) f(1) by (simp_all add: sizes_ok_def)
  have "length (filter isPartialTransfer ops) \<le> length ops" by simp
  with sz(1) have nparts: "int (length (filter isPartialTransfer ops)) < 2 ^ 63" by linarith
  show "header_spec hdr"
    using assms(1,3) tv(3,4) dur(1) tot tv(1) by (simp add: hdr header_spec_def meta_ok_def builder_ok_def TimeUnitNanoseconds_def)
  have kind: "trace_kind_of (trace_kind_string (hm_Kind meta)) = hm_Kind meta"
    using assms(3) by (cases "hm_Kind meta") (simp_all add: meta_ok_def trace_kind_of_def)
  show "wf_header hdr"
    using assms(1) kind tv dur tot sz ids nparts
    by (auto simp: hdr wf_header_def wf_summary_def in64_def builder_ok_def zero_header_def)
  show "summary_spec hdr ops"
    using f(3) sortedIDs_streams(2) [OF assms(1)] tv(2) by (simp add: hdr summary_spec_def distinct_card)
  show "ops_spec hdr ops"
    unfolding ops_def by (rule mergedOps_ops_spec [OF assms(1)]) (use tv(5) in \<open>simp_all add: hdr ops_def\<close>)
qed

lemma built_presence: "validateHeaderPresence (encode_header h) = []"
  by (simp add: validateHeaderPresence_def encode_header_def encode_summary_def omit_empty_def omit_nil_def)

definition written_as :: "raw_line list \<Rightarrow> op list \<Rightarrow> bool" where
  "written_as lines ops \<longleftrightarrow> (\<exists>rd. newReader lines = Inr rd \<and> scanOps (rd_lines rd) (rd_line rd) = (numbered 1 ops, None) \<and> trace_spec rd ops)"

lemma writeTo_valid:
  assumes "builder_ok b" "sizes_ok b" "meta_ok meta"
  shows "\<exists>lines rep ops. writeTo writable meta b = (if writable then Inr (lines, rep) else Inl IEOutput)
    \<and> written_as lines ops \<and> ir_NumOps rep = int (length ops) \<and> length ops = length (allOps b)
    \<and> (\<forall>s. map untimed (stream_of s ops) = map (untimed \<circ> so_op) (streamAt b s))"
proof -
  let ?ids = "sortedIDs b"
  obtain ops n where mo: "mergedOps b ?ids = (ops, n)" by fastforce
  let ?hdr = "builtHeader meta b ?ids ops"
  note hd = built_header [OF assms, unfolded mo fst_conv]
  note f = mergedOps_facts [OF assms(1,2), unfolded mo fst_conv]
  let ?w = "\<lparr>wr_out = [LJson (encode_header ?hdr)], wr_wroteHeader = True, wr_accepts = (\<lambda>_. True)\<rparr>"
  obtain w' where w': "writeOps ?w ops = Inr w'" using writeOps_total [of ?w ops] by auto
  have out: "wr_out w' = LJson (encode_header ?hdr) # map (\<lambda>x. LJson (encode_op x)) ops" using writeOps_out [OF w'] by simp
  have "\<exists>rd. newReader (wr_out w') = Inr rd \<and> rd_hdr rd = ?hdr \<and> rd_headerRaw rd = encode_header ?hdr
    \<and> rd_lines rd = map (\<lambda>x. LJson (encode_op x)) ops \<and> rd_line rd = 1"
    using hd(2) by (simp add: out header_codec.dec_enc)
  then obtain rd where rd: "newReader (wr_out w') = Inr rd" "rd_hdr rd = ?hdr" "rd_headerRaw rd = encode_header ?hdr"
    "rd_lines rd = map (\<lambda>x. LJson (encode_op x)) ops" "rd_line rd = 1" by blast
  have sc: "scanOps (rd_lines rd) (rd_line rd) = (numbered 1 ops, None)" using f(4) by (simp add: rd(4,5) scanOps_encoded)
  have ts: "trace_spec rd ops" using hd(1,3,4) by (simp add: trace_spec_def rd(2,3) built_presence)
  from validate_scanned [OF sc] ts obtain rep where v: "validate rd = (rep, None)" "report_ok rep"
    by (cases "validate rd") (simp add: map_snd_numbered)
  have "written_as (wr_out w') ops" using rd(1) sc ts by (auto simp: written_as_def)
  moreover have "map untimed (stream_of s ops) = map (untimed \<circ> so_op) (streamAt b s)" for s
    using mergedOps_streams [OF assms(1), of s] by (simp add: mo)
  ultimately show ?thesis using f(1)
    by (intro exI [of _ "wr_out w'"] exI [of _ "(bd_report b)\<lparr>ir_TimestampClamped := ir_TimestampClamped (bd_report b) + n,
        ir_NumOps := int (length ops), ir_NumStreams := int (length ?ids), ir_NumTargets := int (length (bd_targets b))\<rparr>"] exI [of _ ops])
      (simp add: writeTo_def Let_def mo w' rd(1) v writeHeader_fresh flip: sortedIDs_def)
qed

end
