(* ===== verification/Import_Inv.thy ===== *)
theory Import_Inv
  imports Import_Valid
begin

text \<open>
  The invariant that any importer keeps on its builder and descriptor table, one lemma per
  operation of the two, and why it makes the built trace valid.
\<close>

section \<open>What importing keeps true\<close>

text \<open>
  The invariant of an importer's builder and descriptor table. A number read from the input may
  be negative or too large; \<open>numbers_ok\<close> is what a trace needs of an op's numbers, and only ops
  that have it are claimed to obey the format.
\<close>

definition numbers_ok :: "op \<Rightarrow> bool" where
  "numbers_ok x \<longleftrightarrow> wf_op x \<and> 0 \<le> op_t x
     \<and> (case op_off x of None \<Rightarrow> True | Some v \<Rightarrow> 0 \<le> v) \<and> (case op_dur x of None \<Rightarrow> True | Some v \<Rightarrow> 0 \<le> v)"

definition opsAt :: "builder \<Rightarrow> int \<Rightarrow> op list" where
  "opsAt b s = map so_op (streamAt b s)"

definition shaped :: "target_info list \<Rightarrow> op list \<Rightarrow> op \<Rightarrow> bool" where
  "shaped ts pre x \<longleftrightarrow> (numbers_ok x \<longrightarrow> body_spec (targetsHeader ts) pre x)"

definition streams_inv :: "builder \<Rightarrow> bool" where
  "streams_inv b \<longleftrightarrow> distinct (map fst (bd_perStream b)) \<and> (\<forall>s xs. map_of (bd_perStream b) s = Some xs \<longrightarrow> xs \<noteq> [])
     \<and> (\<forall>s. map so_localIdx (streamAt b s) = map int [0..<length (streamAt b s)]
          \<and> (\<forall>x \<in> set (streamAt b s). so_streamID x = s \<and> op_s (so_op x) = s)
          \<and> each_after (shaped (bd_targets b)) (opsAt b s))"

definition targets_inv :: "builder \<Rightarrow> bool" where
  "targets_inv b \<longleftrightarrow> map ti_id (bd_targets b) = map int [0..<length (bd_targets b)]
     \<and> (\<forall>t \<in> set (bd_targets b). target_kind_valid (ti_kind t) \<and> ti_size t = 0)
     \<and> (\<forall>name i. map_of (bd_targetIdx b) name = Some i \<longrightarrow> 0 \<le> i \<and> i < int (length (bd_targets b)))"

definition used_handles_inv :: "builder \<Rightarrow> int \<Rightarrow> bool" where
  "used_handles_inv b n \<longleftrightarrow> (\<forall>s x h. x \<in> set (opsAt b s) \<and> op_h x = Some h \<longrightarrow> 0 \<le> h \<and> h < n)
     \<and> (\<forall>s s' x y h. x \<in> set (opsAt b s) \<and> y \<in> set (opsAt b s') \<and> op_h x = Some h \<and> op_h y = Some h \<longrightarrow> s = s')"

definition table_inv :: "builder \<Rightarrow> fd_table \<Rightarrow> bool" where
  "table_inv b t \<longleftrightarrow> (\<forall>s fd e. map_of (ft_entries t) (s, fd) = Some e \<and> fe_HasHandle e \<longrightarrow>
        0 \<le> fe_Handle e \<and> fe_Handle e < ft_nextHandle t \<and> live (opsAt b s) s (fe_Handle e))
     \<and> (\<forall>k k' e e'. map_of (ft_entries t) k = Some e \<and> map_of (ft_entries t) k' = Some e' \<and> fe_HasHandle e \<and> fe_HasHandle e'
          \<and> fe_Handle e = fe_Handle e' \<longrightarrow> k = k')"

definition import_inv :: "builder \<Rightarrow> fd_table \<Rightarrow> bool" where
  "import_inv b t \<longleftrightarrow> streams_inv b \<and> targets_inv b \<and> used_handles_inv b (ft_nextHandle t) \<and> table_inv b t
     \<and> 0 \<le> ft_nextHandle t \<and> ft_nextHandle t \<le> int (length (allOps b))"

subsection \<open>Adding an op\<close>

lemma streamAt_add:
  "streamAt (bdAdd x b) s = (if s = op_s x
     then streamAt b s @ [\<lparr>so_streamID = s, so_localIdx = int (length (streamAt b s)), so_op = x\<rparr>] else streamAt b s)"
  by (simp add: streamAt_def bdAdd_def Let_def)

lemma opsAt_add: "opsAt (bdAdd x b) s = (if s = op_s x then opsAt b s @ [x] else opsAt b s)"
  by (simp add: opsAt_def streamAt_add)

lemma bdAdd_targets [simp]: "bd_targets (bdAdd x b) = bd_targets b" "bd_targetIdx (bdAdd x b) = bd_targetIdx b"
  by (simp_all add: bdAdd_def Let_def)

lemma length_update_concat:
  "length (concat (map snd (AList.update k (v @ [y]) al))) + length (case map_of al k of None \<Rightarrow> [] | Some u \<Rightarrow> u)
     = length (concat (map snd al)) + Suc (length v)"
  by (induction al) (auto split: option.split)

lemma length_allOps_add: "length (allOps (bdAdd x b)) = Suc (length (allOps b))"
  using length_update_concat [of "op_s x" "streamAt b (op_s x)" "\<lparr>so_streamID = op_s x, so_localIdx = int (length (streamAt b (op_s x))), so_op = x\<rparr>"
      "bd_perStream b"]
  by (simp add: allOps_def bdAdd_def Let_def) (simp add: streamAt_def)

lemma streams_inv_add:
  assumes "streams_inv b" "shaped (bd_targets b) (opsAt b (op_s x)) x"
  shows "streams_inv (bdAdd x b)"
  unfolding streams_inv_def
proof (intro conjI allI)
  show "distinct (map fst (bd_perStream (bdAdd x b)))"
    using assms(1) by (simp add: streams_inv_def bdAdd_def Let_def distinct_keys_update)
  show "map_of (bd_perStream (bdAdd x b)) s = Some xs \<longrightarrow> xs \<noteq> []" for s xs
    using assms(1) by (auto simp: streams_inv_def bdAdd_def Let_def)
  fix s
  have s: "map so_localIdx (streamAt b s) = map int [0..<length (streamAt b s)]"
    "\<forall>x \<in> set (streamAt b s). so_streamID x = s \<and> op_s (so_op x) = s" "each_after (shaped (bd_targets b)) (opsAt b s)"
    using assms(1) by (simp_all add: streams_inv_def)
  show "map so_localIdx (streamAt (bdAdd x b) s) = map int [0..<length (streamAt (bdAdd x b) s)]"
    using s(1) by (cases "s = op_s x") (simp_all add: streamAt_add)
  show "\<forall>y \<in> set (streamAt (bdAdd x b) s). so_streamID y = s \<and> op_s (so_op y) = s"
    using s(2) by (auto simp: streamAt_add)
  show "each_after (shaped (bd_targets (bdAdd x b))) (opsAt (bdAdd x b) s)"
    using s(3) assms(2) by (cases "s = op_s x") (simp_all add: opsAt_add)
qed

text \<open>An op that uses no handle, or a handle its own stream has open and does not close.\<close>

lemma live_add: "\<forall>h. \<not> closes h x \<Longrightarrow> live (opsAt b s) s h \<Longrightarrow> live (opsAt (bdAdd x b) s) s h"
  by (cases "s = op_s x") (simp_all add: opsAt_add live_snoc)

lemma live_uses: "live pre s h \<Longrightarrow> \<exists>y \<in> set pre. op_h y = Some h"
  by (auto simp: live_def opens_def)

lemma used_handles_add:
  assumes "used_handles_inv b n" "op_h x = None \<or> (\<exists>h. op_h x = Some h \<and> live (opsAt b (op_s x)) (op_s x) h)"
  shows "used_handles_inv (bdAdd x b) n"
proof -
  have r: "0 \<le> h \<and> h < n" if "y \<in> set (opsAt b s)" "op_h y = Some h" for s y h
    using assms(1) that unfolding used_handles_inv_def by blast
  have u: "s = s'" if "y \<in> set (opsAt b s)" "z \<in> set (opsAt b s')" "op_h y = Some h" "op_h z = Some h" for s s' y z h
    using assms(1) that unfolding used_handles_inv_def by blast
  have x: "\<exists>y \<in> set (opsAt b (op_s x)). op_h y = Some h" if "op_h x = Some h" for h
    using assms(2) that live_uses by auto
  have mem: "(y = x \<and> s = op_s x) \<or> y \<in> set (opsAt b s)" if "y \<in> set (opsAt (bdAdd x b) s)" for y s
    using that by (auto simp: opsAt_add split: if_splits)
  show ?thesis unfolding used_handles_inv_def
  proof (intro conjI allI impI)
    fix s y h assume y: "y \<in> set (opsAt (bdAdd x b) s) \<and> op_h y = Some h"
    from y mem [of y s] r x show "0 \<le> h" "h < n" by metis+
  next
    fix s s' y z h assume a: "y \<in> set (opsAt (bdAdd x b) s) \<and> z \<in> set (opsAt (bdAdd x b) s') \<and> op_h y = Some h \<and> op_h z = Some h"
    from a mem [of y s] mem [of z s'] show "s = s'" using u x by metis
  qed
qed

lemma import_inv_add:
  assumes inv: "import_inv b t" and sh: "shaped (bd_targets b) (opsAt b (op_s x)) x"
    and h: "op_h x = None \<or> (\<exists>h. op_h x = Some h \<and> live (opsAt b (op_s x)) (op_s x) h)" and c: "\<forall>h. \<not> closes h x"
  shows "import_inv (bdAdd x b) t"
proof -
  have i: "streams_inv b" "targets_inv b" "used_handles_inv b (ft_nextHandle t)" "table_inv b t"
    "0 \<le> ft_nextHandle t" "ft_nextHandle t \<le> int (length (allOps b))" using inv by (simp_all add: import_inv_def)
  have "table_inv (bdAdd x b) t" using i(4) live_add [OF c] unfolding table_inv_def by blast
  moreover have "targets_inv (bdAdd x b)" using i(2) by (simp add: targets_inv_def)
  ultimately show ?thesis
    using streams_inv_add [OF i(1) sh] used_handles_add [OF i(3) h] i(5,6) length_allOps_add [of x b]
    by (simp add: import_inv_def)
qed


subsection \<open>Opening and closing\<close>

definition is_open_op :: "op \<Rightarrow> int \<Rightarrow> int \<Rightarrow> int \<Rightarrow> bool" where
  "is_open_op x s tgt h \<longleftrightarrow> op_op x = OpOpen \<and> op_s x = s \<and> op_tgt x = Some tgt \<and> op_h x = Some h
     \<and> mode_valid (op_mode x) \<and> no_position x \<and> op_ret x = None"

lemma fdOpen_simps:
  assumes "fdOpen s fd tgt path app t = (t', h)"
  shows "h = ft_nextHandle t" "ft_nextHandle t' = i64 (ft_nextHandle t + 1)"
    "ft_entries t' = AList.update (s, fd) \<lparr>fe_HasHandle = True, fe_Handle = h, fe_TargetID = tgt, fe_Cursor = 0, fe_Path = path, fe_AppendMode = app\<rparr> (ft_entries t)"
  using assms by (auto simp: fdOpen_def Let_def)

lemma import_inv_open:
  assumes inv: "import_inv b t" and op: "fdOpen s fd tgt path app t = (t', h)" and x: "is_open_op x s tgt h"
    and tgt: "0 \<le> tgt" "tgt < int (length (bd_targets b))" and room: "int (length (allOps b)) + 1 < 2 ^ 63"
  shows "import_inv (bdAdd x b) t'"
proof -
  note f = fdOpen_simps [OF op]
  have i: "streams_inv b" "targets_inv b" "used_handles_inv b (ft_nextHandle t)" "table_inv b t"
    "0 \<le> ft_nextHandle t" "ft_nextHandle t \<le> int (length (allOps b))" using inv by (simp_all add: import_inv_def)
  have nxt: "ft_nextHandle t' = ft_nextHandle t + 1" using f(2) i(5,6) room by (simp add: i64_nonneg_bounded)
  have used: "0 \<le> h' \<and> h' < h" if "y \<in> set (opsAt b r)" "op_h y = Some h'" for r y h'
    using i(3) that f(1) unfolding used_handles_inv_def by blast
  have own: "r = r'" if "y \<in> set (opsAt b r)" "z \<in> set (opsAt b r')" "op_h y = Some h'" "op_h z = Some h'" for r r' y z h'
    using i(3) that unfolding used_handles_inv_def by blast
  have xs: "op_s x = s" "op_h x = Some h" "op_op x = OpOpen" using x by (simp_all add: is_open_op_def)
  have sh: "shaped (bd_targets b) (opsAt b (op_s x)) x"
  proof -
    have "\<forall>y \<in> set (opsAt b s). \<not> opens h y" using used by (fastforce simp: opens_def)
    with x tgt show ?thesis
      by (auto simp: shaped_def body_spec_def is_open_op_def target_ok_def targetsHeader_def ret_spec_def numbers_ok_def)
  qed
  have mem: "(y = x \<and> r = s) \<or> y \<in> set (opsAt b r)" if "y \<in> set (opsAt (bdAdd x b) r)" for y r
    using that xs(1) by (auto simp: opsAt_add split: if_splits)
  have "used_handles_inv (bdAdd x b) (ft_nextHandle t')"
    unfolding used_handles_inv_def
  proof (intro conjI allI impI)
    fix r y h' assume y: "y \<in> set (opsAt (bdAdd x b) r) \<and> op_h y = Some h'"
    then have "h' = h \<or> (0 \<le> h' \<and> h' < h)" using mem [of y r] used xs(2) by auto
    with i(5) f(1) nxt show "0 \<le> h'" "h' < ft_nextHandle t'" by auto
  next
    fix r r' y z h' assume a: "y \<in> set (opsAt (bdAdd x b) r) \<and> z \<in> set (opsAt (bdAdd x b) r') \<and> op_h y = Some h' \<and> op_h z = Some h'"
    then have a: "y \<in> set (opsAt (bdAdd x b) r)" "z \<in> set (opsAt (bdAdd x b) r')" "op_h y = Some h'" "op_h z = Some h'" by simp_all
    have nu: "h' \<noteq> h" if "v \<in> set (opsAt b q)" "op_h v = Some h'" for v q using used [OF that] by simp
    from mem [OF a(1)] show "r = r'"
    proof
      assume yx: "y = x \<and> r = s"
      with a(3) xs(2) have "h' = h" by simp
      with mem [OF a(2)] nu a(4) yx show ?thesis by blast
    next
      assume y: "y \<in> set (opsAt b r)"
      from nu [OF y a(3)] xs(2) a(4) have "z \<noteq> x" by auto
      with mem [OF a(2)] have "z \<in> set (opsAt b r')" by blast
      from own [OF y this a(3,4)] show ?thesis .
    qed
  qed
  moreover have "table_inv (bdAdd x b) t'"
    unfolding table_inv_def
  proof (intro conjI allI impI)
    fix r fd' e assume a: "map_of (ft_entries t') (r, fd') = Some e \<and> fe_HasHandle e"
    show "0 \<le> fe_Handle e" "fe_Handle e < ft_nextHandle t'" "live (opsAt (bdAdd x b) r) r (fe_Handle e)"
    proof (atomize (full), cases "(r, fd') = (s, fd)")
      case True
      with a f(3) have "fe_Handle e = h" by auto
      moreover have "live (opsAt (bdAdd x b) s) s h" using xs by (simp add: opsAt_add live_snoc opens_def)
      ultimately show "0 \<le> fe_Handle e \<and> fe_Handle e < ft_nextHandle t' \<and> live (opsAt (bdAdd x b) r) r (fe_Handle e)"
        using True f(1) i(5) nxt by simp
    next
      case False
      with a f(3) have "map_of (ft_entries t) (r, fd') = Some e" by (auto split: if_splits)
      with i(4) a have "0 \<le> fe_Handle e \<and> fe_Handle e < ft_nextHandle t \<and> live (opsAt b r) r (fe_Handle e)"
        unfolding table_inv_def by blast
      moreover have "\<forall>h. \<not> closes h x" using xs(3) by (simp add: closes_def)
      ultimately show "0 \<le> fe_Handle e \<and> fe_Handle e < ft_nextHandle t' \<and> live (opsAt (bdAdd x b) r) r (fe_Handle e)"
        using nxt live_add by auto
    qed
  next
    fix k k' e e' assume a: "map_of (ft_entries t') k = Some e \<and> map_of (ft_entries t') k' = Some e' \<and> fe_HasHandle e \<and> fe_HasHandle e' \<and> fe_Handle e = fe_Handle e'"
    have old: "fe_Handle d < h" if "map_of (ft_entries t) q = Some d" "fe_HasHandle d" for q d
      using i(4) that f(1) unfolding table_inv_def by (metis surj_pair)
    have inj: "k = k'" if "map_of (ft_entries t) k = Some e" "map_of (ft_entries t) k' = Some e'"
      using i(4) a that unfolding table_inv_def by blast
    from a f(3) show "k = k'" using old [of k e] old [of k' e'] inj by (auto split: if_splits)
  qed
  moreover have "targets_inv (bdAdd x b)" using i(2) by (simp add: targets_inv_def)
  ultimately show ?thesis
    using streams_inv_add [OF i(1) sh] i(5,6) nxt length_allOps_add [of x b] by (simp add: import_inv_def)
qed

lemma import_inv_close:
  assumes inv: "import_inv b t" and cl: "fdClose s fd t = (t', Some h)" and x: "op_op x = OpClose" "op_s x = s" "op_h x = Some h"
    and sh: "live (opsAt b s) s h \<Longrightarrow> shaped (bd_targets b) (opsAt b s) x"
  shows "import_inv (bdAdd x b) t'"
proof -
  obtain e where e: "map_of (ft_entries t) (s, fd) = Some e" "fe_HasHandle e" "fe_Handle e = h"
      "t' = t\<lparr>ft_entries := AList.delete (s, fd) (ft_entries t)\<rparr>"
    using cl by (auto simp: fdClose_def split: option.splits if_splits)
  have i: "streams_inv b" "targets_inv b" "used_handles_inv b (ft_nextHandle t)" "table_inv b t"
    "0 \<le> ft_nextHandle t" "ft_nextHandle t \<le> int (length (allOps b))" using inv by (simp_all add: import_inv_def)
  have live: "live (opsAt b s) s h" using i(4) e(1-3) unfolding table_inv_def by blast
  have "table_inv (bdAdd x b) t'"
    unfolding table_inv_def
  proof (intro conjI allI impI)
    fix r fd' d assume a: "map_of (ft_entries t') (r, fd') = Some d \<and> fe_HasHandle d"
    then have d: "map_of (ft_entries t) (r, fd') = Some d" "(r, fd') \<noteq> (s, fd)" using e(4) by (auto split: if_splits)
    with a i(4) have l: "0 \<le> fe_Handle d \<and> fe_Handle d < ft_nextHandle t \<and> live (opsAt b r) r (fe_Handle d)"
      unfolding table_inv_def by blast
    have "fe_Handle d \<noteq> h" using i(4) d a e(1-3) unfolding table_inv_def by blast
    then have "\<not> closes (fe_Handle d) x" using x(3) by (simp add: closes_def)
    with l show "0 \<le> fe_Handle d" "fe_Handle d < ft_nextHandle t'" "live (opsAt (bdAdd x b) r) r (fe_Handle d)"
      using e(4) by (auto simp: opsAt_add live_snoc)
  next
    fix k k' d d' assume a: "map_of (ft_entries t') k = Some d \<and> map_of (ft_entries t') k' = Some d' \<and> fe_HasHandle d \<and> fe_HasHandle d' \<and> fe_Handle d = fe_Handle d'"
    then have "map_of (ft_entries t) k = Some d" "map_of (ft_entries t) k' = Some d'" using e(4) by (auto split: if_splits)
    with a i(4) show "k = k'" unfolding table_inv_def by blast
  qed
  moreover have "targets_inv (bdAdd x b)" using i(2) by (simp add: targets_inv_def)
  moreover have "used_handles_inv (bdAdd x b) (ft_nextHandle t)"
    by (rule used_handles_add [OF i(3)]) (use x live in auto)
  ultimately show ?thesis
    using streams_inv_add [OF i(1)] sh [OF live] x(2) i(5,6) length_allOps_add [of x b] e(4) by (simp add: import_inv_def)
qed

subsection \<open>Targets, notes and table updates\<close>

lemma each_after_mono: "each_after P xs \<Longrightarrow> (\<And>pre x. P pre x \<Longrightarrow> Q pre x) \<Longrightarrow> each_after Q xs"
  by (simp add: each_after_def)

lemma kind_spec_more_targets:
  "kind_spec k (targetsHeader ts) pre x \<Longrightarrow> kind_spec k (targetsHeader (ts @ us)) pre x"
  by (cases k) (auto simp: target_ok_def targetsHeader_def split: option.splits)

lemma shaped_more_targets: "shaped ts pre x \<Longrightarrow> shaped (ts @ us) pre x"
  using kind_spec_more_targets [of _ ts pre x us] by (auto simp: shaped_def body_spec_def ret_spec_def targetsHeader_def split: option.splits)

lemma import_inv_target:
  assumes "import_inv b t" "bdTarget name kind b = (b', i)" "target_kind_valid kind"
  shows "import_inv b' t \<and> 0 \<le> i \<and> i < int (length (bd_targets b')) \<and> allOps b' = allOps b"
proof (cases "map_of (bd_targetIdx b) name")
  case None
  with assms(2) have b': "b' = b\<lparr>bd_targetIdx := AList.update name i (bd_targetIdx b),
      bd_targets := bd_targets b @ [\<lparr>ti_id = i, ti_name = name, ti_kind = kind, ti_size = 0\<rparr>]\<rparr>" "i = int (length (bd_targets b))"
    by (auto simp: bdTarget_def Let_def)
  have at: "streamAt b' s = streamAt b s" "opsAt b' s = opsAt b s" "allOps b' = allOps b" for s
    using b'(1) by (simp_all add: streamAt_def opsAt_def allOps_def)
  have inv: "streams_inv b" "targets_inv b" "used_handles_inv b (ft_nextHandle t)" "table_inv b t"
    "0 \<le> ft_nextHandle t" "ft_nextHandle t \<le> int (length (allOps b))" using assms(1) by (simp_all add: import_inv_def)
  have each: "each_after (shaped (bd_targets b')) (opsAt b s)" for s
  proof -
    have "each_after (shaped (bd_targets b)) (opsAt b s)" using inv(1) by (simp add: streams_inv_def)
    then show ?thesis unfolding b'(1) by (rule each_after_mono) (simp add: shaped_more_targets)
  qed
  have "bd_perStream b' = bd_perStream b" by (simp add: b'(1))
  then have "streams_inv b'" using inv(1) each unfolding streams_inv_def at by simp
  moreover have "targets_inv b'" using inv(2) assms(3) b' by (fastforce simp: targets_inv_def)
  moreover have "used_handles_inv b' (ft_nextHandle t)" "table_inv b' t"
    using inv(3,4) by (simp_all only: used_handles_inv_def table_inv_def at)
  ultimately show ?thesis using inv(5,6) b' at(3) by (simp add: import_inv_def)
next
  case (Some j)
  with assms show ?thesis by (auto simp: bdTarget_def import_inv_def targets_inv_def)
qed

lemma import_inv_report: "import_inv (b\<lparr>bd_report := r\<rparr>) t = import_inv b t"
  by (simp add: import_inv_def streams_inv_def targets_inv_def used_handles_inv_def table_inv_def opsAt_def streamAt_def allOps_def)

lemma import_inv_skip [simp]: "import_inv (bdSkip reason b) t = import_inv b t" "import_inv (bdNote reason b) t = import_inv b t"
  by (simp_all add: bdSkip_def bdNote_def import_inv_report)

text \<open>A table whose handle entries are among the old ones.\<close>

lemma import_inv_table:
  assumes "import_inv b t" "ft_nextHandle t' = ft_nextHandle t"
    "\<And>k e. map_of (ft_entries t') k = Some e \<Longrightarrow> fe_HasHandle e \<Longrightarrow>
       \<exists>e0. map_of (ft_entries t) k = Some e0 \<and> fe_HasHandle e0 \<and> fe_Handle e0 = fe_Handle e"
  shows "import_inv b t'"
proof -
  have t: "table_inv b t" using assms(1) by (simp add: import_inv_def)
  have "table_inv b t'"
    unfolding table_inv_def
  proof (intro conjI allI impI)
    fix s fd e assume e: "map_of (ft_entries t') (s, fd) = Some e \<and> fe_HasHandle e"
    then obtain e0 where e0: "map_of (ft_entries t) (s, fd) = Some e0" "fe_HasHandle e0" "fe_Handle e0 = fe_Handle e"
      using assms(3) by blast
    then have "0 \<le> fe_Handle e0 \<and> fe_Handle e0 < ft_nextHandle t \<and> live (opsAt b s) s (fe_Handle e0)"
      using t unfolding table_inv_def by blast
    then show "0 \<le> fe_Handle e" "fe_Handle e < ft_nextHandle t'" "live (opsAt b s) s (fe_Handle e)"
      using e0(3) assms(2) by simp_all
  next
    fix k k' e e' assume a: "map_of (ft_entries t') k = Some e \<and> map_of (ft_entries t') k' = Some e' \<and> fe_HasHandle e \<and> fe_HasHandle e' \<and> fe_Handle e = fe_Handle e'"
    obtain e0 where e0: "map_of (ft_entries t) k = Some e0" "fe_HasHandle e0" "fe_Handle e0 = fe_Handle e" using assms(3) a by blast
    obtain e1 where e1: "map_of (ft_entries t) k' = Some e1" "fe_HasHandle e1" "fe_Handle e1 = fe_Handle e'" using assms(3) a by blast
    have "fe_Handle e0 = fe_Handle e1" using e0(3) e1(3) a by simp
    with e0 e1 t show "k = k'" unfolding table_inv_def by blast
  qed
  with assms(1,2) show ?thesis by (simp add: import_inv_def)
qed

lemma import_inv_fd:
  assumes "import_inv b t"
  shows "import_inv b (fdOpenDir s fd path t)" "import_inv b (fdAdvance s fd n t)" "import_inv b (fdSetCursor s fd n t)"
    "import_inv b (fst (fdClose s fd t))"
  by (rule import_inv_table [OF assms];
      auto simp: fdOpenDir_def fdAdvance_def fdSetCursor_def fdClose_def split: option.splits if_splits)+

lemma resolve_live:
  assumes "import_inv b t" "fdResolve s fd t = Some e" "fe_HasHandle e"
  shows "live (opsAt b s) s (fe_Handle e)"
  using assms unfolding import_inv_def table_inv_def fdResolve_def by blast

lemma import_inv_new: "import_inv newBuilder newFDTable"
  by (simp add: import_inv_def streams_inv_def targets_inv_def used_handles_inv_def table_inv_def newBuilder_def newFDTable_def
      streamAt_def opsAt_def)


section \<open>From the invariant to a valid trace\<close>

lemma targets_spec_iff:
  "targets_spec i ts \<longleftrightarrow> map ti_id ts = map (\<lambda>k. i + int k) [0..<length ts]
     \<and> (\<forall>t \<in> set ts. ti_name t \<noteq> [] \<and> target_kind_valid (ti_kind t) \<and> 0 \<le> ti_size t)"
proof (induction ts arbitrary: i)
  case (Cons t ts)
  have "map (\<lambda>k. i + int k) [0..<length (t # ts)] = i # map (\<lambda>k. i + 1 + int k) [0..<length ts]"
    by (simp add: upt_conv_Cons del: upt_Suc flip: map_Suc_upt)
  with Cons show ?case by auto
qed simp

lemma opsAt_allOps:
  assumes "distinct (map fst (bd_perStream b))" "x \<in> set (opsAt b s)"
  shows "x \<in> set (allOps b)"
proof -
  have "streamAt b s \<noteq> []" using assms(2) by (auto simp: opsAt_def)
  then have "(s, streamAt b s) \<in> set (bd_perStream b)" using streamAt_cases [of b s] by blast
  with assms(2) show ?thesis by (force simp: allOps_in opsAt_def)
qed

lemma import_builder_ok:
  assumes inv: "import_inv b t" and num: "\<forall>x \<in> set (allOps b). numbers_ok x"
    and names: "\<forall>tg \<in> set (bd_targets b). ti_name tg \<noteq> []" and size: "int (length (bd_targets b)) < 2 ^ 63"
  shows "builder_ok b"
proof -
  have i: "streams_inv b" "targets_inv b" "used_handles_inv b (ft_nextHandle t)" using inv by (simp_all add: import_inv_def)
  have d: "distinct (map fst (bd_perStream b))" using i(1) by (simp add: streams_inv_def)
  have streams: "stream_wf s xs \<and> each_after (body_spec (targetsHeader (bd_targets b))) (map so_op xs)"
    if "(s, xs) \<in> set (bd_perStream b)" for s xs
  proof
    have xs: "streamAt b s = xs" "map_of (bd_perStream b) s = Some xs" using streamAt_in [OF d that] d that by simp_all
    then show "stream_wf s xs" using i(1) unfolding streams_inv_def stream_wf_def by metis
    have "each_after (shaped (bd_targets b)) (map so_op xs)" using i(1) xs(1) unfolding streams_inv_def opsAt_def by metis
    moreover have "so_op v \<in> set (allOps b)" if "v \<in> set xs" for v
      using that \<open>(s, xs) \<in> set (bd_perStream b)\<close> unfolding allOps_in by blast
    then have "\<forall>x \<in> set (map so_op xs). numbers_ok x" using num by auto
    ultimately show "each_after (body_spec (targetsHeader (bd_targets b))) (map so_op xs)"
      unfolding each_after_def shaped_def by (metis in_set_conv_decomp)
  qed
  have "own_handles (allOps b)"
    unfolding own_handles_def
  proof (intro ballI allI impI)
    fix x y h assume a: "x \<in> set (allOps b)" "y \<in> set (allOps b)" "op_h x = Some h \<and> op_h y = Some h"
    have at: "z \<in> set (opsAt b (op_s z))" if z: "z \<in> set (allOps b)" for z
    proof -
      obtain s xs v where v: "(s, xs) \<in> set (bd_perStream b)" "v \<in> set xs" "z = so_op v"
        using z allOps_in [of z b] by blast
      with streams have "op_s z = s" by (auto simp: stream_wf_def)
      with v streamAt_in [OF d v(1)] show ?thesis by (simp add: opsAt_def)
    qed
    from at [OF a(1)] at [OF a(2)] a(3) i(3) show "op_s x = op_s y" unfolding used_handles_inv_def by blast
  qed
  moreover have "targets_spec 0 (bd_targets b)"
    using i(2) names by (auto simp: targets_spec_iff targets_inv_def)
  moreover have "wf_target tg" if tg: "tg \<in> set (bd_targets b)" for tg
  proof -
    have "ti_id tg \<in> set (map ti_id (bd_targets b))" using tg by simp
    also have "map ti_id (bd_targets b) = map int [0..<length (bd_targets b)]" using i(2) by (simp add: targets_inv_def)
    finally have "0 \<le> ti_id tg \<and> ti_id tg < int (length (bd_targets b))" by auto
    moreover have "target_kind_valid (ti_kind tg)" "ti_size tg = 0" using i(2) tg by (auto simp: targets_inv_def)
    ultimately show ?thesis using size by (cases "ti_kind tg") (auto simp: wf_target_def in64_def target_kind_of_def)
  qed
  ultimately show ?thesis using d streams num by (auto simp: builder_ok_def numbers_ok_def)
qed

end
