(* ===== verification/Float64.thy ===== *)
theory Float64
  imports Complex_Main "HOL-Library.Log_Nat" Text
begin

text \<open>
  Go's \<open>float64\<close>, as far as the repository computes with it: a finite double is the rational
  number it denotes, and each arithmetic operation is the exact result rounded by \<open>fl\<close> to the
  nearest double (53-bit significand, ties to even, subnormals from \<open>2 ^ - 1074\<close>). Infinities
  and NaNs are not represented; the code divides only by positive values.
\<close>

type_synonym f64 = rat

section \<open>Rounding\<close>

definition roundEven :: "rat \<Rightarrow> int" where
  "roundEven q = (let f = \<lfloor>q\<rfloor>; d = q - of_int f in
     if d < 1 / 2 then f else if 1 / 2 < d then f + 1 else if even f then f else f + 1)"

definition pow2 :: "int \<Rightarrow> rat" where
  "pow2 e = (if 0 \<le> e then 2 ^ nat e else 1 / 2 ^ nat (- e))"

text \<open>The exponent of a positive rational: \<open>pow2 (binExp q) \<le> q < pow2 (binExp q + 1)\<close>.\<close>

definition binExp :: "rat \<Rightarrow> int" where
  "binExp q = (case quotient_of q of (n, d) \<Rightarrow>
     (let e = bitlen n - bitlen d in if q < pow2 e then e - 1 else e))"

definition fl :: "rat \<Rightarrow> f64" where
  "fl q = (if q = 0 then 0
     else let e = max (binExp \<bar>q\<bar> - 52) (- 1074)
          in sgn q * of_int (roundEven (\<bar>q\<bar> / pow2 e)) * pow2 e)"

text \<open>\<open>float64(n)\<close> and \<open>int64(f)\<close>: the latter truncates, and gives the least integer when out of range.\<close>

definition f64_of_int :: "int \<Rightarrow> f64" where
  "f64_of_int n = fl (of_int n)"

definition int64_of :: "f64 \<Rightarrow> int" where
  "int64_of f = (let n = (if 0 \<le> f then \<lfloor>f\<rfloor> else \<lceil>f\<rceil>) in if in64 n then n else - (2 ^ 63))"

definition f64_mult :: "f64 \<Rightarrow> f64 \<Rightarrow> f64" where "f64_mult a b = fl (a * b)"
definition f64_div :: "f64 \<Rightarrow> f64 \<Rightarrow> f64" where "f64_div a b = fl (a / b)"
definition f64_add :: "f64 \<Rightarrow> f64 \<Rightarrow> f64" where "f64_add a b = fl (a + b)"
definition f64_sub :: "f64 \<Rightarrow> f64 \<Rightarrow> f64" where "f64_sub a b = fl (a - b)"

section \<open>Reading a decimal\<close>

text \<open>
  \<open>strconv.ParseFloat(s, 64)\<close> on decimal notation: sign, digits with an optional point, optional
  exponent; out of range is an error. The spellings of infinity and NaN and the hexadecimal
  notation, which the tools that write the inputs do not use, are refused here.
\<close>

definition pow10 :: "int \<Rightarrow> rat" where
  "pow10 e = (if 0 \<le> e then 10 ^ nat e else 1 / 10 ^ nat (- e))"

definition parseExponent :: "string \<Rightarrow> int option" where
  "parseExponent s =
     (case s of
        [] \<Rightarrow> Some 0
      | c # t \<Rightarrow> if c = CHR ''e'' \<or> c = CHR ''E'' then parseInt64 t else None)"

definition parseDecimal :: "string \<Rightarrow> rat option" where
  "parseDecimal s =
     (let neg = (s \<noteq> [] \<and> hd s = CHR ''-'');
          t = (if s \<noteq> [] \<and> hd s \<in> {CHR ''-'', CHR ''+''} then tl s else s);
          whole = takeWhile isDigit t;
          t1 = dropWhile isDigit t;
          (frac, t2) = (if t1 \<noteq> [] \<and> hd t1 = CHR ''.'' then (takeWhile isDigit (tl t1), dropWhile isDigit (tl t1)) else ([], t1))
      in if whole = [] \<and> frac = [] then None
         else (case parseExponent t2 of
                 None \<Rightarrow> None
               | Some e \<Rightarrow> (let v = of_int (digitsVal 10 (whole @ frac)) * pow10 (e - int (length frac)) in
                   Some (if neg then - v else v))))"

definition parseFloat :: "string \<Rightarrow> f64 option" where
  "parseFloat s = (case parseDecimal s of None \<Rightarrow> None
     | Some q \<Rightarrow> (let f = fl q in if \<bar>f\<bar> < 2 ^ 1024 then Some f else None))"

section \<open>Rounding is order preserving\<close>

lemma pow2_pos [simp]: "0 < pow2 e"
  by (simp add: pow2_def)

lemma roundEven_ge: "of_int n \<le> q \<Longrightarrow> n \<le> roundEven q"
proof -
  assume "of_int n \<le> q"
  then have "n \<le> \<lfloor>q\<rfloor>" by (simp add: le_floor_iff)
  then show ?thesis by (auto simp: roundEven_def Let_def)
qed

lemma roundEven_le: "q \<le> of_int n \<Longrightarrow> roundEven q \<le> n"
proof -
  assume h: "q \<le> of_int n"
  then have f: "\<lfloor>q\<rfloor> \<le> n" by (simp add: floor_le_iff)
  show ?thesis
  proof (cases "\<lfloor>q\<rfloor> = n")
    case True
    with h have "q - of_int \<lfloor>q\<rfloor> < 1 / 2" by simp
    with True show ?thesis by (simp add: roundEven_def Let_def)
  next
    case False
    with f have "\<lfloor>q\<rfloor> + 1 \<le> n" by simp
    then show ?thesis by (auto simp: roundEven_def Let_def)
  qed
qed

lemma roundEven_int [simp]: "roundEven (of_int n) = n"
  by (simp add: roundEven_def)

lemma fl_zero [simp]: "fl 0 = 0"
  by (simp add: fl_def)

lemma fl_nonneg: "0 \<le> q \<Longrightarrow> 0 \<le> fl q"
proof (cases "q = 0")
  case False
  assume "0 \<le> q"
  let ?e = "max (binExp \<bar>q\<bar> - 52) (- 1074)"
  have "0 \<le> \<bar>q\<bar> / pow2 ?e" by (intro divide_nonneg_pos) simp_all
  then have "0 \<le> roundEven (\<bar>q\<bar> / pow2 ?e)" using roundEven_ge [of 0] by simp
  with False \<open>0 \<le> q\<close> show ?thesis
    using pow2_pos [of ?e] by (simp add: fl_def Let_def zero_le_mult_iff less_imp_le)
qed simp

lemma int64_of_range: "in64 (int64_of f)"
  by (simp add: int64_of_def Let_def) (simp add: in64_def)

end
