(* ===== verification/Gen_Common.thy ===== *)
theory Gen_Common
  imports Import_Inv Float64
begin

text \<open>
  What the generators of \<open>pkg/gen\<close> share: per-worker streams of ops, the merge by time, stream
  and position, and the writing of the result. A generator issues \<^emph>\<open>sessions\<close>: an open of a
  handle never used before, ops on that handle, its close. Streams built of sessions merge into
  a trace that obeys the format (\<open>merged_sessions\<close>).
\<close>

definition genAppend :: "stream_op list \<Rightarrow> op \<Rightarrow> stream_op list" where
  "genAppend s x = s @ [\<lparr>so_streamID = op_s x, so_localIdx = int (length s), so_op = x\<rparr>]"

definition mergeAndSort :: "stream_op list list \<Rightarrow> stream_op list" where
  "mergeAndSort perStream = sort_key mergeKey (concat perStream)"

text \<open>Sequential op ids in file order.\<close>

definition fileOps :: "stream_op list list \<Rightarrow> op list" where
  "fileOps perStream = renumber 0 (map so_op (mergeAndSort perStream))"

definition writeTrace :: "(nat \<Rightarrow> bool) \<Rightarrow> header \<Rightarrow> op list \<Rightarrow> trace_err + raw_line list" where
  "writeTrace accepts hdr ops =
     (case writeHeader (newWriter accepts) hdr of
        Inl e \<Rightarrow> Inl e
      | Inr w \<Rightarrow> map_sum id wr_out (writeOps w ops))"

text \<open>\<open>%0wd\<close>: the decimal digits padded with zeros to a width, after the sign.\<close>

definition padZero :: "nat \<Rightarrow> int \<Rightarrow> string" where
  "padZero w n =
     (if n < 0 then (let s = itoa (- n) in ''-'' @ replicate (w - 1 - length s) (CHR ''0'') @ s)
      else (let s = itoa n in replicate (w - length s) (CHR ''0'') @ s))"

lemma written_trace:
  assumes "header_spec hdr" "wf_header hdr" "ops_spec hdr ops" "summary_spec hdr ops" "\<forall>x \<in> set ops. wf_op x"
  shows "\<exists>out. writeTrace (\<lambda>_. True) hdr ops = Inr out \<and> written_as out ops"
proof -
  let ?w = "\<lparr>wr_out = [LJson (encode_header hdr)], wr_wroteHeader = True, wr_accepts = (\<lambda>_. True)\<rparr>"
  obtain w' where w': "writeOps ?w ops = Inr w'" using writeOps_total [of ?w ops] by auto
  have out: "wr_out w' = LJson (encode_header hdr) # map (\<lambda>x. LJson (encode_op x)) ops" using writeOps_out [OF w'] by simp
  have "\<exists>rd. newReader (wr_out w') = Inr rd \<and> rd_hdr rd = hdr \<and> rd_headerRaw rd = encode_header hdr
    \<and> rd_lines rd = map (\<lambda>x. LJson (encode_op x)) ops \<and> rd_line rd = 1"
    using assms(2) by (simp add: out header_codec.dec_enc)
  then obtain rd where rd: "newReader (wr_out w') = Inr rd" "rd_hdr rd = hdr" "rd_headerRaw rd = encode_header hdr"
    "rd_lines rd = map (\<lambda>x. LJson (encode_op x)) ops" "rd_line rd = 1" by blast
  have "scanOps (rd_lines rd) (rd_line rd) = (numbered 1 ops, None)" using assms(5) by (simp add: rd(4,5) scanOps_encoded)
  moreover have "trace_spec rd ops" using assms by (simp add: trace_spec_def rd(2,3) built_presence)
  ultimately have "written_as (wr_out w') ops" using rd(1) by (auto simp: written_as_def)
  then show ?thesis by (simp add: writeTrace_def writeHeader_fresh w')
qed

text \<open>What was written determines the ops.\<close>

lemma written_as_unique: "written_as out ops \<Longrightarrow> written_as out ops' \<Longrightarrow> ops = ops'"
  by (metis Inr_inject map_snd_numbered prod.inject written_as_def)

definition noID :: "op \<Rightarrow> op" where
  "noID x = x\<lparr>op_id := None\<rparr>"

lemma noID_renumber: "map noID (renumber i xs) = map noID xs"
  by (induction xs arbitrary: i) (simp_all add: noID_def)

lemma noID_stream: "map noID (stream_of s xs) = stream_of s (map noID xs)"
  by (induction xs) (simp_all add: stream_of_def noID_def)

section \<open>Sessions\<close>

lemma appendOps_ops: "map so_op (foldl genAppend s xs) = map so_op s @ xs"
  by (induction xs arbitrary: s) (simp_all add: genAppend_def)

lemma appendOps_local:
  "map so_localIdx s = map int [0..<length s] \<Longrightarrow>
   map so_localIdx (foldl genAppend s xs) = map int [0..<length (foldl genAppend s xs)]"
  by (induction xs arbitrary: s) (simp_all add: genAppend_def)

lemma appendOps_ids:
  "x \<in> set (foldl genAppend s xs) \<Longrightarrow> x \<in> set s \<or> (so_op x \<in> set xs \<and> so_streamID x = op_s (so_op x))"
proof (induction xs arbitrary: s)
  case (Cons a xs)
  from Cons.IH [of "genAppend s a"] Cons.prems show ?case by (auto simp: genAppend_def)
qed simp

text \<open>An op inside a session on handle \<open>h\<close>.\<close>

definition uses_handle :: "int \<Rightarrow> op \<Rightarrow> bool" where
  "uses_handle h x \<longleftrightarrow> op_h x = Some h \<and> op_tgt x = None \<and> op_mode x = ModeAbsent \<and> op_flags x = [] \<and> op_ret x = None
     \<and> op_dur x = None
     \<and> (op_op x = OpFsync \<and> no_position x \<or> (op_op x = OpRead \<or> op_op x = OpWrite) \<and> nat_field (op_off x) \<and> nat_field (op_len x))"

definition opens_target :: "int \<Rightarrow> int \<Rightarrow> op \<Rightarrow> bool" where
  "opens_target h t x \<longleftrightarrow> op_op x = OpOpen \<and> op_h x = Some h \<and> op_tgt x = Some t \<and> mode_valid (op_mode x) \<and> no_position x
     \<and> op_ret x = None \<and> op_dur x = None"

definition closes_handle :: "int \<Rightarrow> op \<Rightarrow> bool" where
  "closes_handle h x \<longleftrightarrow> op_op x = OpClose \<and> op_h x = Some h \<and> op_tgt x = None \<and> op_mode x = ModeAbsent \<and> op_flags x = []
     \<and> no_position x \<and> op_ret x = None \<and> op_dur x = None"

definition session :: "int \<Rightarrow> int \<Rightarrow> int \<Rightarrow> op list \<Rightarrow> bool" where
  "session r h t xs \<longleftrightarrow> (\<exists>o' ms c. xs = o' # ms @ [c] \<and> opens_target h t o' \<and> closes_handle h c \<and> (\<forall>m \<in> set ms. uses_handle h m))
     \<and> (\<forall>x \<in> set xs. op_s x = r) \<and> sorted (map op_t xs)"

lemma session_middle:
  assumes "live pre r h" "\<forall>m \<in> set ms. uses_handle h m \<and> op_s m = r" "each_after (body_spec hdr) pre"
  shows "each_after (body_spec hdr) (pre @ ms) \<and> live (pre @ ms) r h"
  using assms(2)
proof (induction ms rule: rev_induct)
  case (snoc m ms)
  then have IH: "each_after (body_spec hdr) (pre @ ms)" "live (pre @ ms) r h" and m: "uses_handle h m" "op_s m = r" by simp_all
  have "body_spec hdr (pre @ ms) m"
    using m IH(2) by (auto simp: uses_handle_def body_spec_def handle_ok_def ret_spec_def)
  moreover have "live ((pre @ ms) @ [m]) r h" using IH(2) m unfolding live_snoc [of "pre @ ms"] by (auto simp: closes_def uses_handle_def)
  ultimately show ?case using IH(1) by (simp flip: append_assoc)
qed (use assms in simp)

lemma session_body:
  assumes "session r h t xs" "each_after (body_spec hdr) pre" "\<forall>y \<in> set pre. op_h y \<noteq> Some h"
    "0 \<le> t" "t < int (length (hdr_targets hdr))"
  shows "each_after (body_spec hdr) (pre @ xs)"
proof -
  obtain o' ms c where xs: "xs = o' # ms @ [c]" and o: "opens_target h t o'" and c: "closes_handle h c"
    and ms: "\<forall>m \<in> set ms. uses_handle h m" and s: "\<forall>x \<in> set xs. op_s x = r" using assms(1) by (auto simp: session_def)
  have "body_spec hdr pre o'"
    using o assms(3-5) by (auto simp: body_spec_def opens_target_def target_ok_def ret_spec_def opens_def)
  then have 1: "each_after (body_spec hdr) (pre @ [o'])" using assms(2) by simp
  have l: "live (pre @ [o']) r h" using o s xs by (simp add: live_snoc opens_def opens_target_def)
  have "\<forall>m \<in> set ms. uses_handle h m \<and> op_s m = r" using ms s xs by simp
  from session_middle [OF l this 1] have 2: "each_after (body_spec hdr) ((pre @ [o']) @ ms)" "live ((pre @ [o']) @ ms) r h" by simp_all
  have "body_spec hdr ((pre @ [o']) @ ms) c"
    using c 2(2) s xs by (auto simp: closes_handle_def body_spec_def handle_ok_def ret_spec_def)
  with 2(1) have "each_after (body_spec hdr) (((pre @ [o']) @ ms) @ [c])" by (simp only: each_after_snoc)
  then show ?thesis by (simp add: xs)
qed

lemma session_wf:
  assumes "op_op x \<in> {OpOpen, OpRead, OpWrite, OpFsync, OpClose}" "op_mode x \<in> {ModeAbsent, ModeRead, ModeWrite}"
    "in64 (op_t x)" "in64 (op_s x)" "list_all in64_opt [op_id x, op_group x, op_tgt x, op_h x, op_off x, op_len x, op_ret x, op_dur x]"
  shows "wf_op x"
proof -
  have "op_kind_of (op_kind_string k) = k" if "k \<in> {OpOpen, OpRead, OpWrite, OpFsync, OpClose}" for k
    using that by (auto simp: op_kind_of_def)
  moreover have "mode_of (mode_string m) = m" if "m \<in> {ModeAbsent, ModeRead, ModeWrite}" for m
    using that by (auto simp: mode_of_def)
  ultimately show ?thesis using assms unfolding wf_op_def by simp
qed

section \<open>Streams built of sessions\<close>

text \<open>
  Every stream is in time order and obeys the rules of the format; every handle in use is below
  the next one and belongs to one stream.
\<close>

definition stream_ok :: "header \<Rightarrow> int \<Rightarrow> int \<Rightarrow> stream_op list \<Rightarrow> bool" where
  "stream_ok hdr nextHandle r s \<longleftrightarrow> map so_localIdx s = map int [0..<length s]
     \<and> (\<forall>x \<in> set s. so_streamID x = r \<and> op_s (so_op x) = r \<and> (\<forall>h. op_h (so_op x) = Some h \<longrightarrow> h < nextHandle))
     \<and> sorted (map op_t (map so_op s)) \<and> each_after (body_spec hdr) (map so_op s)"

definition streams_ok :: "header \<Rightarrow> int \<Rightarrow> stream_op list list \<Rightarrow> bool" where
  "streams_ok hdr nextHandle ps \<longleftrightarrow> (\<forall>r < length ps. stream_ok hdr nextHandle (int r) (ps ! r))
     \<and> own_handles (map so_op (concat ps))"

lemma stream_ok_session:
  assumes "stream_ok hdr h r s" "session r h t xs" "0 \<le> t" "t < int (length (hdr_targets hdr))"
    "\<forall>y \<in> set s. \<forall>x \<in> set xs. op_t (so_op y) \<le> op_t x"
  shows "stream_ok hdr (h + 1) r (foldl genAppend s xs)"
proof -
  have "each_after (body_spec hdr) (map so_op s @ xs)"
    by (rule session_body [OF assms(2)]) (use assms(1,3,4) in \<open>force simp: stream_ok_def\<close>)+
  moreover have "op_h x = Some h" if "x \<in> set xs" for x
    using assms(2) that by (auto simp: session_def opens_target_def closes_handle_def uses_handle_def)
  moreover have "op_s x = r" if "x \<in> set xs" for x using assms(2) that by (auto simp: session_def)
  moreover have "sorted (map op_t (map so_op s @ xs))"
    using assms(1,2,5) by (auto simp: sorted_append stream_ok_def session_def)
  ultimately show ?thesis
    using assms(1) appendOps_local [of s xs] appendOps_ids [of _ s xs]
    unfolding stream_ok_def appendOps_ops by (metis add.commute less_add_one less_trans option.inject)
qed

lemma session_handle: "session r h t xs \<Longrightarrow> x \<in> set xs \<Longrightarrow> op_h x = Some h \<and> op_s x = r"
  by (auto simp: session_def opens_target_def closes_handle_def uses_handle_def)

lemma mset_concat_update:
  assumes "r < length ps"
  shows "mset (map so_op (concat (ps[r := foldl genAppend (ps ! r) xs]))) = mset (map so_op (concat ps)) + mset xs"
proof -
  have e: "mset (map so_op (foldl genAppend s xs)) = mset (map so_op s) + mset xs" for s by (simp only: appendOps_ops mset_append)
  have "ps = take r ps @ ps ! r # drop (Suc r) ps" using assms by (rule id_take_nth_drop)
  then have "mset (map so_op (concat ps)) = mset (map so_op (concat (take r ps))) + mset (map so_op (ps ! r)) + mset (map so_op (concat (drop (Suc r) ps)))"
    by (metis concat.simps(2) concat_append map_append mset_append union_assoc)
  then show ?thesis using e [of "ps ! r"] by (simp add: upd_conv_take_nth_drop [OF assms] del: mset_map)
qed

lemma concat_update_ops:
  assumes "r < length ps"
  shows "set (map so_op (concat (ps[r := foldl genAppend (ps ! r) xs]))) = set (map so_op (concat ps)) \<union> set xs"
    "length (concat (ps[r := foldl genAppend (ps ! r) xs])) = length (concat ps) + length xs"
    "totalMoved (map so_op (concat (ps[r := foldl genAppend (ps ! r) xs]))) = totalMoved (map so_op (concat ps)) + totalMoved xs"
proof -
  note m = mset_concat_update [OF assms, of xs]
  then have m': "mset (map so_op (concat (ps[r := foldl genAppend (ps ! r) xs]))) = mset (map so_op (concat ps) @ xs)" by simp
  from mset_eq_setD [OF m'] show "set (map so_op (concat (ps[r := foldl genAppend (ps ! r) xs]))) = set (map so_op (concat ps)) \<union> set xs"
    by (simp only: set_append)
  from arg_cong [OF m', of size] show "length (concat (ps[r := foldl genAppend (ps ! r) xs])) = length (concat ps) + length xs" by simp
  from totalMoved_mset [OF m'] show "totalMoved (map so_op (concat (ps[r := foldl genAppend (ps ! r) xs]))) = totalMoved (map so_op (concat ps)) + totalMoved xs"
    by (simp only: totalMoved_simps)
qed

lemma streams_ok_session:
  assumes "streams_ok hdr h ps" "r < length ps" "session (int r) h t xs" "0 \<le> t" "t < int (length (hdr_targets hdr))"
    "\<forall>y \<in> set (ps ! r). \<forall>x \<in> set xs. op_t (so_op y) \<le> op_t x"
  shows "streams_ok hdr (h + 1) (ps[r := foldl genAppend (ps ! r) xs])"
proof -
  have mono: "stream_ok hdr h i s \<Longrightarrow> stream_ok hdr (h + 1) i s" for i s by (fastforce simp: stream_ok_def)
  have "stream_ok hdr (h + 1) (int r) (foldl genAppend (ps ! r) xs)"
    by (rule stream_ok_session [OF _ assms(3-6)]) (use assms(1,2) in \<open>simp add: streams_ok_def\<close>)
  then have "\<forall>i < length ps. stream_ok hdr (h + 1) (int i) (ps[r := foldl genAppend (ps ! r) xs] ! i)"
    using assms(1,2) mono by (simp add: streams_ok_def nth_list_update)
  moreover have "own_handles (map so_op (concat (ps[r := foldl genAppend (ps ! r) xs])))"
  proof -
    have lt: "hh < h" if x: "x \<in> set (map so_op (concat ps))" "op_h x = Some hh" for x hh
    proof -
      from x(1) obtain q y where "q \<in> set ps" "y \<in> set q" "x = so_op y" by auto
      moreover from this(1) obtain i where "i < length ps" "ps ! i = q" by (metis in_set_conv_nth)
      ultimately show ?thesis using assms(1) x(2) unfolding streams_ok_def stream_ok_def by blast
    qed
    have own: "own_handles (map so_op (concat ps))" using assms(1) by (simp add: streams_ok_def)
    have "op_s x = op_s y"
      if "x \<in> set (map so_op (concat ps)) \<union> set xs" "y \<in> set (map so_op (concat ps)) \<union> set xs" "op_h x = Some hh" "op_h y = Some hh" for x y hh
      using that lt [of x hh] lt [of y hh] own_handlesD [OF own, of x y hh]
        session_handle [OF assms(3), of x] session_handle [OF assms(3), of y] by (metis Un_iff less_irrefl option.inject)
    then show ?thesis unfolding own_handles_def concat_update_ops(1) [OF assms(2)] by blast
  qed
  ultimately show ?thesis by (simp add: streams_ok_def)
qed

section \<open>The merge\<close>

lemma concat_stream:
  assumes "\<forall>r < length ps. stream_ok hdr h (int r) (ps ! r)"
  shows "filter (\<lambda>x. op_s (so_op x) = s) (concat ps) = (if 0 \<le> s \<and> nat s < length ps then ps ! nat s else [])"
  using assms
proof (induction ps rule: rev_induct)
  case (snoc q ps)
  then have IH: "filter (\<lambda>x. op_s (so_op x) = s) (concat ps) = (if 0 \<le> s \<and> nat s < length ps then ps ! nat s else [])"
    by (metis length_append_singleton less_Suc_eq nth_append)
  have "stream_ok hdr h (int (length ps)) q" using snoc.prems [rule_format, of "length ps"] by simp
  then have "filter (\<lambda>x. op_s (so_op x) = s) q = (if s = int (length ps) then q else [])"
    by (auto simp: stream_ok_def filter_empty_conv filter_id_conv)
  with IH show ?case by (auto simp: nth_append)
qed simp

lemma merged_stream:
  assumes "streams_ok hdr h ps"
  shows "stream_of s (map so_op (mergeAndSort ps)) = (if 0 \<le> s \<and> nat s < length ps then map so_op (ps ! nat s) else [])"
proof -
  have ok: "\<forall>r < length ps. stream_ok hdr h (int r) (ps ! r)" using assms by (simp add: streams_ok_def)
  have id: "sort_key mergeKey (ps ! r) = ps ! r" if "r < length ps" for r
    by (rule sort_key_id_if_sorted, rule sorted_keys [of _ "int r"]) (use ok that in \<open>auto simp: stream_ok_def comp_def\<close>)
  have "stream_of s (map so_op (mergeAndSort ps)) = map so_op (sort_key mergeKey (filter (\<lambda>x. op_s (so_op x) = s) (concat ps)))"
    by (simp add: stream_of_def mergeAndSort_def filter_map comp_def filter_sort)
  with id show ?thesis by (simp add: concat_stream [OF ok])
qed

lemma merged_sessions:
  assumes "streams_ok hdr h ps"
  shows "ops_spec hdr (fileOps ps)" "length (fileOps ps) = length (concat ps)" "totalMoved (fileOps ps) = totalMoved (map so_op (concat ps))"
    "op_s ` set (fileOps ps) = op_s ` so_op ` set (concat ps)" "sorted (map op_t (fileOps ps))"
    "map untimed (fileOps ps) = map untimed (map so_op (mergeAndSort ps))"
proof -
  let ?xs = "map so_op (mergeAndSort ps)"
  show u: "map untimed (fileOps ps) = map untimed ?xs" by (simp only: fileOps_def renumber_untimed)
  have m: "mset (mergeAndSort ps) = mset (concat ps)" by (simp add: mergeAndSort_def)
  have srt: "sorted (map op_t ?xs)"
    using sorted_fst [of "map mergeKey (mergeAndSort ps)"] by (simp add: mergeAndSort_def comp_def mergeKey_def)
  have own: "own_handles ?xs"
    by (rule own_handles_subset [of "map so_op (concat ps)"]) (use assms mset_eq_setD [OF m] in \<open>auto simp: streams_ok_def\<close>)
  have each: "each_after (body_spec hdr) (stream_of s ?xs)" for s
    using assms by (auto simp: merged_stream [OF assms] streams_ok_def stream_ok_def)
  show "ops_spec hdr (fileOps ps)" unfolding fileOps_def by (rule merged_valid [OF allI [OF each] own srt])
  show "length (fileOps ps) = length (concat ps)" using arg_cong [OF m, of size] by (simp add: fileOps_def)
  show "totalMoved (fileOps ps) = totalMoved (map so_op (concat ps))"
    unfolding fileOps_def totalMoved_renumber by (rule totalMoved_mset) (simp add: m)
  have "op_s ` set (fileOps ps) = set (map op_s (map untimed (fileOps ps)))" by (simp add: image_image)
  also have "\<dots> = op_s ` so_op ` set (mergeAndSort ps)" unfolding u by (simp add: image_image)
  finally show "op_s ` set (fileOps ps) = op_s ` so_op ` set (concat ps)" using mset_eq_setD [OF m] by simp
  show "sorted (map op_t (fileOps ps))" using srt by (simp add: fileOps_def renumber_times)
qed

lemma fileOps_elem:
  assumes "x \<in> set (fileOps ps)"
  shows "\<exists>y \<in> set (concat ps). \<exists>j. x = (so_op y)\<lparr>op_id := Some j\<rparr>"
proof -
  have "mset (mergeAndSort ps) = mset (concat ps)" by (simp add: mergeAndSort_def)
  then show ?thesis using renumber_elem [OF assms [unfolded fileOps_def]] mset_eq_setD by fastforce
qed

lemma merged_wf:
  assumes "\<forall>x \<in> set (concat ps). wf_op (so_op x)" "int (length (concat ps)) < 2 ^ 63"
  shows "\<forall>x \<in> set (fileOps ps). wf_op x"
proof
  fix x assume "x \<in> set (fileOps ps)"
  from renumber_elem [OF this [unfolded fileOps_def]]
  obtain y j where y: "y \<in> set (mergeAndSort ps)" "x = (so_op y)\<lparr>op_id := Some j\<rparr>" "0 \<le> j" "j < int (length (mergeAndSort ps))" by auto
  have m: "mset (mergeAndSort ps) = mset (concat ps)" by (simp add: mergeAndSort_def)
  have "wf_op (so_op y)" using y(1) assms(1) mset_eq_setD [OF m] by blast
  moreover have "in64 j" using y(3,4) assms(2) arg_cong [OF m, of size] by (simp add: in64_def)
  ultimately show "wf_op x" by (simp add: y(2) wf_op_def)
qed

end
