(* ===== verification/Gen_Training.thy ===== *)
theory Gen_Training
  imports Gen_Common
begin

text \<open>
  The training-read generator of \<open>pkg/gen/trainingread\<close> (generate.go and sizes.go). The random
  source of the standard library and its logarithm and exponential are parameters: a record of
  functions over the generator's state. \<open>Shuffle\<close> is the list of swaps it performs.
\<close>

record 'g rand_lib =
  rl_normFloat64 :: "'g \<Rightarrow> f64 \<times> 'g"
  rl_shuffle :: "nat \<Rightarrow> 'g \<Rightarrow> (nat \<times> nat) list \<times> 'g"
  rl_log :: "f64 \<Rightarrow> f64"
  rl_exp :: "f64 \<Rightarrow> f64"

record tr_params =
  pt_Shards :: int
  pt_ShardSize :: int
  pt_RecordSize :: int
  pt_RecordSizeDist :: string
  pt_Epochs :: int
  pt_DataloaderWorkers :: int
  pt_PrefetchDepth :: int
  pt_Shuffle :: bool
  pt_ReadWithinShard :: string
  pt_Seed :: int
  pt_CreatedUTC :: string

definition trDefaultParams :: tr_params where
  "trDefaultParams = \<lparr>pt_Shards = 1024, pt_ShardSize = 64 * 2 ^ 20, pt_RecordSize = 512 * 2 ^ 10, pt_RecordSizeDist = ''lognormal'',
     pt_Epochs = 1, pt_DataloaderWorkers = 8, pt_PrefetchDepth = 2, pt_Shuffle = True, pt_ReadWithinShard = ''sequential'',
     pt_Seed = 42, pt_CreatedUTC = []\<rparr>"

definition opDeltaNS :: int where "opDeltaNS = 1000000"

datatype tr_err =
    TRShards int
  | TRShardSize int
  | TRRecordSize int
  | TRRecordExceeds int int
  | TRDist string
  | TREpochs int
  | TRWorkers int
  | TRWithin string
  | TRWrite trace_err

definition trValidateParams :: "tr_params \<Rightarrow> tr_err option" where
  "trValidateParams p =
     (if pt_Shards p \<le> 0 then Some (TRShards (pt_Shards p))
      else if pt_ShardSize p \<le> 0 then Some (TRShardSize (pt_ShardSize p))
      else if pt_RecordSize p \<le> 0 then Some (TRRecordSize (pt_RecordSize p))
      else if pt_RecordSize p > pt_ShardSize p then Some (TRRecordExceeds (pt_RecordSize p) (pt_ShardSize p))
      else if pt_RecordSizeDist p \<noteq> ''lognormal'' then Some (TRDist (pt_RecordSizeDist p))
      else if pt_Epochs p \<le> 0 then Some (TREpochs (pt_Epochs p))
      else if pt_DataloaderWorkers p \<le> 0 then Some (TRWorkers (pt_DataloaderWorkers p))
      else if pt_ReadWithinShard p \<noteq> ''sequential'' \<and> pt_ReadWithinShard p \<noteq> ''random'' then Some (TRWithin (pt_ReadWithinShard p))
      else None)"

section \<open>The sampler\<close>

definition lognormalSigma :: f64 where "lognormalSigma = 1 / 2"

definition samplerMu :: "'g rand_lib \<Rightarrow> int \<Rightarrow> f64" where
  "samplerMu lib mean = f64_sub (rl_log lib (f64_of_int mean)) (f64_div (f64_mult lognormalSigma lognormalSigma) 2)"

text \<open>\<open>math.Round\<close>: to the nearest integer, halves away from zero.\<close>

definition mathRound :: "f64 \<Rightarrow> f64" where
  "mathRound q = (if 0 \<le> q then of_int \<lfloor>q + 1 / 2\<rfloor> else of_int \<lceil>q - 1 / 2\<rceil>)"

definition samplerSample :: "'g rand_lib \<Rightarrow> f64 \<Rightarrow> 'g \<Rightarrow> int \<times> 'g" where
  "samplerSample lib mu g =
     (let (z, g') = rl_normFloat64 lib g;
          v = mathRound (rl_exp lib (f64_add mu (f64_mult lognormalSigma z)))
      in (if v < 1 then 1 else int64_of v, g'))"

section \<open>One shard\<close>

definition swapAt :: "'a list \<Rightarrow> nat \<times> nat \<Rightarrow> 'a list" where
  "swapAt xs ij = xs[fst ij := xs ! snd ij, snd ij := xs ! fst ij]"

definition shuffled :: "'g rand_lib \<Rightarrow> 'a list \<Rightarrow> 'g \<Rightarrow> 'a list \<times> 'g" where
  "shuffled lib xs g = (let (swaps, g') = rl_shuffle lib (length xs) g in (foldl swapAt xs swaps, g'))"

text \<open>Offsets and sizes that use up what remains of the shard.\<close>

partial_function (option) readSpecs :: "'g rand_lib \<Rightarrow> f64 \<Rightarrow> int \<Rightarrow> int \<Rightarrow> (int \<times> int) list \<Rightarrow> 'g \<Rightarrow> ((int \<times> int) list \<times> 'g) option" where
  "readSpecs lib mu remaining off specs g =
     (if 0 < remaining
      then (let (n0, g') = samplerSample lib mu g; n = (if n0 > remaining then remaining else n0)
            in readSpecs lib mu (i64 (remaining - n)) (i64 (off + n)) (specs @ [(off, n)]) g')
      else Some (specs, g))"

fun readOps :: "int \<Rightarrow> int \<Rightarrow> int \<Rightarrow> (int \<times> int) list \<Rightarrow> op list" where
  "readOps h s t [] = []"
| "readOps h s t ((off, n) # specs) =
     zero_op\<lparr>op_t := t, op_s := s, op_op := OpRead, op_h := Some h, op_off := Some off, op_len := Some n\<rparr>
       # readOps h s (i64 (t + opDeltaNS)) specs"

definition buildReads :: "'g rand_lib \<Rightarrow> tr_params \<Rightarrow> f64 \<Rightarrow> int \<Rightarrow> int \<Rightarrow> int \<Rightarrow> 'g \<Rightarrow> (op list \<times> int \<times> 'g) option" where
  "buildReads lib p mu h s startT g =
     (case readSpecs lib mu (pt_ShardSize p) 0 [] g of
        None \<Rightarrow> None
      | Some (specs0, g1) \<Rightarrow>
          (let (specs, g2) = (if pt_ReadWithinShard p = ''random'' then shuffled lib specs0 g1 else (specs0, g1))
           in Some (readOps h s startT specs, foldl (\<lambda>n sp. i64 (n + snd sp)) 0 specs, g2)))"

definition openFlagsFor :: "string \<Rightarrow> string list" where
  "openFlagsFor how = (if how = ''random'' then [''rand''] else [''seq''])"

definition makeShardOrder :: "'g rand_lib \<Rightarrow> tr_params \<Rightarrow> 'g \<Rightarrow> nat list \<times> 'g" where
  "makeShardOrder lib p g =
     (let order = [0..<nat (pt_Shards p)] in if pt_Shuffle p then shuffled lib order g else (order, g))"

section \<open>The generator\<close>

record 'g tr_state =
  ts_perStream :: "stream_op list list"
  ts_streamT :: "int list"
  ts_nextHandle :: int
  ts_totalBytes :: int
  ts_rng :: 'g

text \<open>Position \<open>pos\<close> of an epoch's order: one worker reads one shard.\<close>

definition trShard :: "'g rand_lib \<Rightarrow> tr_params \<Rightarrow> f64 \<Rightarrow> nat \<Rightarrow> nat \<Rightarrow> 'g tr_state \<Rightarrow> 'g tr_state option" where
  "trShard lib p mu pos shardIdx st =
     (let wi = pos mod nat (pt_DataloaderWorkers p);
          t0 = ts_streamT st ! wi;
          h = ts_nextHandle st;
          s0 = genAppend (ts_perStream st ! wi)
                 (zero_op\<lparr>op_t := t0, op_s := int wi, op_op := OpOpen, op_tgt := Some (int shardIdx), op_h := Some h,
                          op_mode := ModeRead, op_flags := openFlagsFor (pt_ReadWithinShard p)\<rparr>);
          t1 = i64 (t0 + opDeltaNS)
      in (case buildReads lib p mu h (int wi) t1 (ts_rng st) of
            None \<Rightarrow> None
          | Some (reads, n, g) \<Rightarrow>
              (let t2 = i64 (t1 + i64 (opDeltaNS * int (length reads)));
                   s1 = genAppend (foldl genAppend s0 reads) (zero_op\<lparr>op_t := t2, op_s := int wi, op_op := OpClose, op_h := Some h\<rparr>)
               in Some \<lparr>ts_perStream = (ts_perStream st)[wi := s1], ts_streamT = (ts_streamT st)[wi := i64 (t2 + opDeltaNS)],
                        ts_nextHandle = h + 1, ts_totalBytes = i64 (ts_totalBytes st + n), ts_rng = g\<rparr>)))"

fun trShards :: "'g rand_lib \<Rightarrow> tr_params \<Rightarrow> f64 \<Rightarrow> nat \<Rightarrow> nat list \<Rightarrow> 'g tr_state \<Rightarrow> 'g tr_state option" where
  "trShards lib p mu pos [] st = Some st"
| "trShards lib p mu pos (i # idxs) st =
     (case trShard lib p mu pos i st of None \<Rightarrow> None | Some st' \<Rightarrow> trShards lib p mu (pos + 1) idxs st')"

fun trEpochs :: "'g rand_lib \<Rightarrow> tr_params \<Rightarrow> f64 \<Rightarrow> nat \<Rightarrow> 'g tr_state \<Rightarrow> 'g tr_state option" where
  "trEpochs lib p mu 0 st = Some st"
| "trEpochs lib p mu (Suc k) st =
     (let (order, g) = makeShardOrder lib p (ts_rng st) in
      (case trShards lib p mu 0 order (st\<lparr>ts_rng := g\<rparr>) of None \<Rightarrow> None | Some st' \<Rightarrow> trEpochs lib p mu k st'))"

definition trInit :: "tr_params \<Rightarrow> 'g \<Rightarrow> 'g tr_state" where
  "trInit p g = \<lparr>ts_perStream = replicate (nat (pt_DataloaderWorkers p)) [], ts_streamT = replicate (nat (pt_DataloaderWorkers p)) 0,
     ts_nextHandle = 1, ts_totalBytes = 0, ts_rng = g\<rparr>"

definition trRun :: "'g rand_lib \<Rightarrow> 'g \<Rightarrow> tr_params \<Rightarrow> 'g tr_state option" where
  "trRun lib g p = trEpochs lib p (samplerMu lib (pt_RecordSize p)) (nat (pt_Epochs p)) (trInit p g)"

definition trBuildTargets :: "tr_params \<Rightarrow> target_info list" where
  "trBuildTargets p =
     map (\<lambda>i. \<lparr>ti_id = int i, ti_name = ''shard_'' @ padZero 4 (int i) @ ''.tar'', ti_kind = TargetFile, ti_size = pt_ShardSize p\<rparr>)
       [0..<nat (pt_Shards p)]"

definition countStreams :: "op list \<Rightarrow> int" where
  "countStreams ops = int (length (remdups (map op_s ops)))"

definition trBuildNotes :: "tr_params \<Rightarrow> string" where
  "trBuildNotes p =
     itoa (pt_Shards p) @ '' shards '' @ [CHR 0xC3, CHR 0x97] @ '' '' @ itoa (pt_ShardSize p div 2 ^ 20) @ '' MiB, ''
       @ itoa (pt_DataloaderWorkers p) @ '' dataloader-workers, '' @ itoa (pt_Epochs p) @ '' epoch(s), shuffle=''
       @ (if pt_Shuffle p then ''true'' else ''false'') @ '', within-shard='' @ pt_ReadWithinShard p"

definition trHeader :: "tr_params \<Rightarrow> op list \<Rightarrow> int \<Rightarrow> header" where
  "trHeader p ops totalBytes =
     zero_header\<lparr>hdr_version := TraceFormatVersion, hdr_kind := TraceSynthetic, hdr_profile := ''training-read'',
       hdr_generated_by := ''ioflux-gen 0.1.0'', hdr_created_utc := pt_CreatedUTC p, hdr_time_unit := TimeUnitNanoseconds,
       hdr_capture_method := CaptureSynthetic, hdr_targets := trBuildTargets p,
       hdr_summary := \<lparr>sum_num_ops = int (length ops), sum_num_streams = countStreams ops, sum_num_groups = 0,
         sum_total_bytes = totalBytes, sum_duration_ns = (if ops = [] then 0 else op_t (last ops)), sum_num_partial_reads = 0\<rparr>,
       hdr_notes := trBuildNotes p\<rparr>"

text \<open>\<open>seeded\<close> is the random source \<open>rand.New(rand.NewPCG(uint64(p.Seed), 0))\<close> as a function of the seed.\<close>

definition trGenerate :: "'g rand_lib \<Rightarrow> (int \<Rightarrow> 'g) \<Rightarrow> (nat \<Rightarrow> bool) \<Rightarrow> tr_params \<Rightarrow> (tr_err + raw_line list) option" where
  "trGenerate lib seeded accepts p =
     (case trValidateParams p of
        Some e \<Rightarrow> Some (Inl e)
      | None \<Rightarrow>
          (case trRun lib (seeded (pt_Seed p)) p of
             None \<Rightarrow> None
           | Some st \<Rightarrow>
               let ops = fileOps (ts_perStream st) in
               Some (map_sum TRWrite id (writeTrace accepts (trHeader p ops (ts_totalBytes st)) ops))))"

end
