(* ===== verification/Gen_Checkpoint.thy ===== *)
theory Gen_Checkpoint
  imports Gen_Common
begin

text \<open>
  The checkpoint generator of \<open>pkg/gen/checkpoint/generate.go\<close>: each rank writes its shard of
  each checkpoint in blocks. The interval is a finite double or \<open>None\<close> for the infinities and
  NaN; \<open>%g\<close> of a double is the parameter \<open>fmt_g\<close>.
\<close>

definition FsyncPerFile :: string where "FsyncPerFile = ''per-file''"
definition FsyncFinal :: string where "FsyncFinal = ''final''"
definition FsyncNone :: string where "FsyncNone = ''none''"

record ck_params =
  pc_ModelSize :: int
  pc_WriterRanks :: int
  pc_WriteBlock :: int
  pc_NumCheckpoints :: int
  pc_IntervalSec :: "f64 option"
  pc_Fsync :: string
  pc_CreatedUTC :: string

definition defaultParams :: ck_params where
  "defaultParams = \<lparr>pc_ModelSize = 16 * 2 ^ 30, pc_WriterRanks = 8, pc_WriteBlock = 4 * 2 ^ 20, pc_NumCheckpoints = 1,
     pc_IntervalSec = Some 0, pc_Fsync = FsyncPerFile, pc_CreatedUTC = []\<rparr>"

datatype ck_err =
    CKModelSize int
  | CKWriterRanks int
  | CKRanksExceed int int
  | CKWriteBlock int
  | CKNumCheckpoints int
  | CKIntervalNotFinite
  | CKIntervalNegative f64
  | CKFsync string
  | CKWrite trace_err

definition ckValidateParams :: "ck_params \<Rightarrow> ck_err option" where
  "ckValidateParams p =
     (if pc_ModelSize p \<le> 0 then Some (CKModelSize (pc_ModelSize p))
      else if pc_WriterRanks p \<le> 0 then Some (CKWriterRanks (pc_WriterRanks p))
      else if pc_WriterRanks p > pc_ModelSize p then Some (CKRanksExceed (pc_WriterRanks p) (pc_ModelSize p))
      else if pc_WriteBlock p \<le> 0 then Some (CKWriteBlock (pc_WriteBlock p))
      else if pc_NumCheckpoints p \<le> 0 then Some (CKNumCheckpoints (pc_NumCheckpoints p))
      else (case pc_IntervalSec p of
              None \<Rightarrow> Some CKIntervalNotFinite
            | Some v \<Rightarrow> if v < 0 then Some (CKIntervalNegative v)
                else if pc_Fsync p \<noteq> FsyncPerFile \<and> pc_Fsync p \<noteq> FsyncFinal \<and> pc_Fsync p \<noteq> FsyncNone then Some (CKFsync (pc_Fsync p))
                else None))"

definition ckShardSize :: "ck_params \<Rightarrow> nat \<Rightarrow> int" where
  "ckShardSize p r =
     (let base = go_div (pc_ModelSize p) (pc_WriterRanks p); rest = pc_ModelSize p - base * pc_WriterRanks p
      in if int r = pc_WriterRanks p - 1 then i64 (base + rest) else base)"

definition ckBuildTargets :: "ck_params \<Rightarrow> target_info list" where
  "ckBuildTargets p =
     concat (map (\<lambda>c. map (\<lambda>r.
         \<lparr>ti_id = int c * pc_WriterRanks p + int r,
          ti_name = ''checkpoint_'' @ padZero 4 (int c) @ ''/shard_'' @ padZero 4 (int r) @ ''.pt'',
          ti_kind = TargetFile, ti_size = ckShardSize p r\<rparr>)
       [0..<nat (pc_WriterRanks p)]) [0..<nat (pc_NumCheckpoints p)])"

definition ckBuildNotes :: "(f64 \<Rightarrow> string) \<Rightarrow> ck_params \<Rightarrow> string" where
  "ckBuildNotes fmt_g p =
     itoa (pc_NumCheckpoints p) @ '' checkpoint(s) '' @ [CHR 0xC3, CHR 0x97] @ '' '' @ itoa (pc_WriterRanks p) @ '' writer-ranks, ''
       @ itoa (pc_ModelSize p div 2 ^ 20) @ '' MiB model, '' @ itoa (pc_WriteBlock p div 2 ^ 20) @ '' MiB write-block, interval ''
       @ (case pc_IntervalSec p of None \<Rightarrow> [] | Some v \<Rightarrow> fmt_g v) @ ''s, fsync='' @ pc_Fsync p"

section \<open>The generator\<close>

record gen_state =
  gs_perStream :: "stream_op list list"
  gs_streamT :: "int list"
  gs_nextHandle :: int
  gs_totalBytes :: int

text \<open>The inner loop: the whole shard in blocks, with the bytes written so far.\<close>

definition writeBlockOp :: "int \<Rightarrow> int \<Rightarrow> int \<Rightarrow> int \<Rightarrow> int \<Rightarrow> op" where
  "writeBlockOp t r h off n = zero_op\<lparr>op_t := t, op_s := r, op_op := OpWrite, op_h := Some h, op_off := Some off, op_len := Some n\<rparr>"

partial_function (option) writeBlocks ::
  "int \<Rightarrow> int \<Rightarrow> int \<Rightarrow> int \<Rightarrow> int \<Rightarrow> int \<Rightarrow> stream_op list \<Rightarrow> int \<Rightarrow> (stream_op list \<times> int) option" where
  "writeBlocks t r h sz block off s totalBytes =
     (if off < sz
      then (let rest = i64 (sz - off); n = (if rest < block then rest else block)
            in writeBlocks t r h sz block (i64 (off + n)) (genAppend s (writeBlockOp t r h off n)) (i64 (totalBytes + n)))
      else Some (s, totalBytes))"

text \<open>One rank's part of one checkpoint.\<close>

definition genShard :: "ck_params \<Rightarrow> int \<Rightarrow> target_info list \<Rightarrow> nat \<Rightarrow> nat \<Rightarrow> gen_state \<Rightarrow> gen_state option" where
  "genShard p intervalNS targets c r st =
     (let burst = i64 (int c * intervalNS);
          t = (if gs_streamT st ! r > burst then gs_streamT st ! r else burst);
          tgtID = c * nat (pc_WriterRanks p) + r;
          sz = ti_size (targets ! tgtID);
          h = gs_nextHandle st;
          s0 = genAppend (gs_perStream st ! r)
                 (zero_op\<lparr>op_t := t, op_s := int r, op_op := OpOpen, op_tgt := Some (int tgtID), op_h := Some h,
                          op_mode := ModeWrite, op_flags := [''create'', ''trunc'']\<rparr>)
      in (case writeBlocks t (int r) h sz (pc_WriteBlock p) 0 s0 (gs_totalBytes st) of
            None \<Rightarrow> None
          | Some (s1, tot) \<Rightarrow>
              (let s2 = (if pc_Fsync p = FsyncPerFile \<or> (pc_Fsync p = FsyncFinal \<and> int c = pc_NumCheckpoints p - 1)
                         then genAppend s1 (zero_op\<lparr>op_t := t, op_s := int r, op_op := OpFsync, op_h := Some h\<rparr>) else s1);
                   s3 = genAppend s2 (zero_op\<lparr>op_t := t, op_s := int r, op_op := OpClose, op_h := Some h\<rparr>)
               in Some \<lparr>gs_perStream = (gs_perStream st)[r := s3], gs_streamT = (gs_streamT st)[r := t],
                        gs_nextHandle = h + 1, gs_totalBytes = tot\<rparr>)))"

fun genRanks :: "ck_params \<Rightarrow> int \<Rightarrow> target_info list \<Rightarrow> nat \<Rightarrow> nat list \<Rightarrow> gen_state \<Rightarrow> gen_state option" where
  "genRanks p intervalNS targets c [] st = Some st"
| "genRanks p intervalNS targets c (r # rs) st =
     (case genShard p intervalNS targets c r st of None \<Rightarrow> None | Some st' \<Rightarrow> genRanks p intervalNS targets c rs st')"

fun genCheckpoints :: "ck_params \<Rightarrow> int \<Rightarrow> target_info list \<Rightarrow> nat list \<Rightarrow> gen_state \<Rightarrow> gen_state option" where
  "genCheckpoints p intervalNS targets [] st = Some st"
| "genCheckpoints p intervalNS targets (c # cs) st =
     (case genRanks p intervalNS targets c [0..<nat (pc_WriterRanks p)] st of
        None \<Rightarrow> None | Some st' \<Rightarrow> genCheckpoints p intervalNS targets cs st')"

definition ckInit :: "ck_params \<Rightarrow> gen_state" where
  "ckInit p = \<lparr>gs_perStream = replicate (nat (pc_WriterRanks p)) [], gs_streamT = replicate (nat (pc_WriterRanks p)) 0,
     gs_nextHandle = 1, gs_totalBytes = 0\<rparr>"

definition ckHeader :: "(f64 \<Rightarrow> string) \<Rightarrow> ck_params \<Rightarrow> target_info list \<Rightarrow> op list \<Rightarrow> int \<Rightarrow> header" where
  "ckHeader fmt_g p targets ops totalBytes =
     zero_header\<lparr>hdr_version := TraceFormatVersion, hdr_kind := TraceSynthetic, hdr_profile := ''checkpoint-write'',
       hdr_generated_by := ''ioflux-gen 0.1.0'', hdr_created_utc := pc_CreatedUTC p, hdr_time_unit := TimeUnitNanoseconds,
       hdr_capture_method := CaptureSynthetic, hdr_targets := targets,
       hdr_summary := \<lparr>sum_num_ops = int (length ops), sum_num_streams = pc_WriterRanks p, sum_num_groups = 0,
         sum_total_bytes = totalBytes, sum_duration_ns = (if ops = [] then 0 else op_t (last ops)), sum_num_partial_reads = 0\<rparr>,
       hdr_notes := ckBuildNotes fmt_g p\<rparr>"

definition intervalNS :: "ck_params \<Rightarrow> int" where
  "intervalNS p = (case pc_IntervalSec p of None \<Rightarrow> 0 | Some v \<Rightarrow> int64_of (f64_mult v (10 ^ 9)))"

text \<open>\<open>None\<close> when the write loop does not end.\<close>

definition ckGenerate :: "(f64 \<Rightarrow> string) \<Rightarrow> (nat \<Rightarrow> bool) \<Rightarrow> ck_params \<Rightarrow> (ck_err + raw_line list) option" where
  "ckGenerate fmt_g accepts p =
     (case ckValidateParams p of
        Some e \<Rightarrow> Some (Inl e)
      | None \<Rightarrow>
          let targets = ckBuildTargets p in
          (case genCheckpoints p (intervalNS p) targets [0..<nat (pc_NumCheckpoints p)] (ckInit p) of
             None \<Rightarrow> None
           | Some st \<Rightarrow>
               let ops = fileOps (gs_perStream st) in
               Some (map_sum CKWrite id (writeTrace accepts (ckHeader fmt_g p targets ops (gs_totalBytes st)) ops))))"

end
