(* ===== verification/File_Commands.thy ===== *)
theory File_Commands
  imports Transform Import_Valid Gen_Training Gen_Checkpoint
begin

text \<open>
  The commands that read and write trace files, from their parsed flags to their exit codes:
  transform.go, validate.go, import.go and gen.go of src/cmd/ioflux. A file is its lines; what is
  printed for the reader is left out. The decoders' values are shown to be the ones the encoders
  accept, so a trace that was read can be written and read again.
\<close>

section \<open>What a decoder returns\<close>

text \<open>A decoder's values can be written: integers in range, enumerations in their canonical form.\<close>

lemma dec_fields_inv:
  assumes "\<And>k j x x'. P x \<Longrightarrow> f k j x = Some x' \<Longrightarrow> P x'"
  shows "P cur \<Longrightarrow> dec_fields f fs cur = Some y \<Longrightarrow> P y"
proof (induction fs arbitrary: cur)
  case (Cons p fs)
  obtain k j where p: "p = (k, j)" by fastforce
  with Cons.prems(2) obtain x' where x': "f (fold_key k) j cur = Some x'" "dec_fields f fs x' = Some y"
    by (auto split: option.splits)
  from Cons.IH [OF assms [OF Cons.prems(1) x'(1)] x'(2)] show ?case .
qed simp

lemma dec_struct_inv:
  assumes "\<And>k j x x'. P x \<Longrightarrow> f k j x = Some x' \<Longrightarrow> P x'" "P cur" "dec_struct f cur j = Some y"
  shows "P y"
  using assms(2,3) by (cases j) (auto intro: dec_fields_inv [where f = f and P = P, OF assms(1)])

lemma dec_int_in64: "dec_int cur j = Some v \<Longrightarrow> in64 cur \<Longrightarrow> in64 v"
  by (cases j) (auto split: if_splits)

lemma dec_ptr_in64: "dec_ptr j = Some v \<Longrightarrow> in64_opt v"
  by (cases j) (auto split: if_splits)

lemma dec_all_inv: "(\<And>j x. f j = Some x \<Longrightarrow> P x) \<Longrightarrow> dec_all f js = Some xs \<Longrightarrow> \<forall>x \<in> set xs. P x"
  by (induction js arbitrary: xs) (auto split: option.splits)

lemma dec_slice_inv: "(\<And>j x. f j = Some x \<Longrightarrow> P x) \<Longrightarrow> dec_slice f j = Some xs \<Longrightarrow> \<forall>x \<in> set xs. P x"
  by (cases j) (auto dest: dec_all_inv [where P = P, rotated])

lemma kinds_canonical [simp]:
  "op_kind_of (op_kind_string (op_kind_of s)) = op_kind_of s" "mode_of (mode_string (mode_of s)) = mode_of s"
  "trace_kind_of (trace_kind_string (trace_kind_of s)) = trace_kind_of s"
  "target_kind_of (target_kind_string (target_kind_of s)) = target_kind_of s"
  by (simp_all add: op_kind_of_def mode_of_def trace_kind_of_def target_kind_of_def)

lemma decode_op_wf: "decode_op j = Some x \<Longrightarrow> wf_op x"
  unfolding decode_op_def
proof (rule dec_struct_inv [where P = wf_op and f = dec_op_field])
  show "wf_op zero_op" by (simp add: wf_op_def zero_op_def op_kind_of_def mode_of_def in64_def)
next
  fix k j and x x' :: op
  assume "wf_op x" "dec_op_field k j x = Some x'"
  then show "wf_op x'" unfolding dec_op_field_def
    by (auto simp: wf_op_def split: if_splits dest: dec_int_in64 dec_ptr_in64)
qed

lemma decode_target_wf: "dec_struct dec_target_field zero_target j = Some x \<Longrightarrow> wf_target x"
proof (rule dec_struct_inv [where P = wf_target and f = dec_target_field])
  show "wf_target zero_target" by (simp add: wf_target_def zero_target_def target_kind_of_def in64_def)
next
  fix k j and x x' :: target_info
  assume "wf_target x" "dec_target_field k j x = Some x'"
  then show "wf_target x'" unfolding dec_target_field_def
    by (auto simp: wf_target_def split: if_splits dest: dec_int_in64)
qed

lemma decode_summary_wf: "wf_summary s \<Longrightarrow> dec_struct dec_summary_field s j = Some x \<Longrightarrow> wf_summary x"
proof (rule dec_struct_inv [where P = wf_summary and f = dec_summary_field])
  fix k j and x x' :: summary
  assume "wf_summary x" "dec_summary_field k j x = Some x'"
  then show "wf_summary x'" unfolding dec_summary_field_def
    by (auto simp: wf_summary_def split: if_splits dest: dec_int_in64)
qed

lemma dec_string_map_distinct: "dec_string_map cur j = Some m \<Longrightarrow> distinct (map fst cur) \<Longrightarrow> distinct (map fst m)"
  by (induction cur j rule: dec_string_map.induct) (auto split: option.splits simp: distinct_update)

lemma decode_transformation_wf: "dec_struct dec_transformation_field zero_transformation j = Some x \<Longrightarrow> wf_transformation x"
proof (rule dec_struct_inv [where P = wf_transformation and f = dec_transformation_field])
  show "wf_transformation zero_transformation" by (simp add: wf_transformation_def zero_transformation_def)
next
  fix k j and x x' :: transformation
  assume "wf_transformation x" "dec_transformation_field k j x = Some x'"
  then show "wf_transformation x'" unfolding dec_transformation_field_def
    by (auto simp: wf_transformation_def split: if_splits dest: dec_string_map_distinct)
qed

lemma decode_header_wf: "decode_header j = Some h \<Longrightarrow> wf_header h"
  unfolding decode_header_def
proof (rule dec_struct_inv [where P = wf_header and f = dec_header_field])
  show "wf_header zero_header" by (simp add: wf_header_def zero_header_def wf_summary_def zero_summary_def in64_def trace_kind_of_def)
next
  fix k j and x x' :: header
  assume x: "wf_header x" and d: "dec_header_field k j x = Some x'"
  have slices: "dec_slice (dec_struct dec_target_field zero_target) j = Some ts \<Longrightarrow> t \<in> set ts \<Longrightarrow> wf_target t"
      "dec_slice (dec_struct dec_transformation_field zero_transformation) j = Some us \<Longrightarrow> u \<in> set us \<Longrightarrow> wf_transformation u" for ts t us u
    using dec_slice_inv [where P = wf_target and f = "dec_struct dec_target_field zero_target"]
      dec_slice_inv [where P = wf_transformation and f = "dec_struct dec_transformation_field zero_transformation"]
      decode_target_wf decode_transformation_wf by metis+
  show "wf_header x'" using x d unfolding dec_header_field_def
    by (auto simp: wf_header_def split: if_splits dest: dec_int_in64 decode_summary_wf [rotated] slices)
qed

lemma scanOps_wf: "scanOps ls line = (nops, e) \<Longrightarrow> x \<in> set (map snd nops) \<Longrightarrow> wf_op x"
proof (induction ls arbitrary: line nops)
  case (Cons l ls)
  show ?case
  proof (cases l)
    case (LJson j)
    show ?thesis
    proof (cases "decode_op j")
      case (Some y)
      obtain nops' where n: "scanOps ls (line + 1) = (nops', e)" "nops = (line + 1, y) # nops'"
        using Cons.prems(1) LJson Some by (auto split: prod.splits)
      with Cons.prems(2) have "x = y \<or> x \<in> set (map snd nops')" by simp
      with Cons.IH [OF n(1)] decode_op_wf [OF Some] show ?thesis by blast
    qed (use Cons LJson in simp)
  qed (use Cons in auto)
qed simp

section \<open>The command\<close>

definition validateTraceBytes :: "raw_line list \<Rightarrow> trace_err + report \<times> unit validate_err option" where
  "validateTraceBytes ls = (case newReader ls of Inl e \<Rightarrow> Inl e | Inr r \<Rightarrow> Inr (validate r))"

text \<open>Whether the validation returned without an error and found nothing wrong.\<close>

definition traceOK :: "raw_line list \<Rightarrow> bool" where
  "traceOK ls = (case validateTraceBytes ls of Inl e \<Rightarrow> False | Inr (rep, e) \<Rightarrow> e = None \<and> report_ok rep)"

definition writeTraceTo :: "trace_writer \<Rightarrow> header \<Rightarrow> op list \<Rightarrow> trace_err + trace_writer" where
  "writeTraceTo tw hdr ops = (case writeHeader tw hdr of Inl e \<Rightarrow> Inl e | Inr tw' \<Rightarrow> writeOps tw' ops)"

definition readTrace :: "raw_line list \<Rightarrow> trace_err + header \<times> op list" where
  "readTrace ls =
     (case newReader ls of
        Inl e \<Rightarrow> Inl e
      | Inr r \<Rightarrow> (case scanOps (rd_lines r) (rd_line r) of
          (nops, Some e) \<Rightarrow> Inl e
        | (nops, None) \<Rightarrow> Inr (rd_hdr r, map snd nops)))"

text \<open>How the command ends: the message it prints, and what it wrote.\<close>

datatype transform_end =
    TEUsage
  | TERead
  | TEInvalid
  | TESplit transform_err
  | TEProducedInvalid
  | TEWrite
  | TEDone "raw_line list"

fun transformCode :: "transform_end \<Rightarrow> int" where
  "transformCode TEUsage = 2"
| "transformCode TERead = 2"
| "transformCode TEInvalid = 1"
| "transformCode (TESplit e) = 1"
| "transformCode TEProducedInvalid = 1"
| "transformCode TEWrite = 2"
| "transformCode (TEDone ls) = 0"

text \<open>
  \<open>src\<close> is the input file's lines, if it could be read, with its digest; \<open>writable\<close> says
  whether the output takes the data. The buffer in between takes every line.
\<close>

definition runSplitReads :: "string \<Rightarrow> string \<Rightarrow> nat \<Rightarrow> string \<Rightarrow> int \<Rightarrow> raw_line list option \<Rightarrow> bool \<Rightarrow> transform_end option" where
  "runSplitReads now digest nargs outPath block src writable =
     (if outPath = [] \<or> block \<le> 0 \<or> nargs \<noteq> 1 then Some TEUsage
      else case src of
        None \<Rightarrow> Some TERead
      | Some ls \<Rightarrow>
          if \<not> traceOK ls then Some TEInvalid
          else (case readTrace ls of
                  Inl e \<Rightarrow> Some TEInvalid
                | Inr (hdr, ops) \<Rightarrow>
                    (case splitReads ops block of
                       None \<Rightarrow> None
                     | Some (Inl e) \<Rightarrow> Some (TESplit e)
                     | Some (Inr out) \<Rightarrow>
                         (case writeTraceTo (newWriter (\<lambda>_. True)) (splitReadsHeader now hdr out block digest) out of
                            Inl e \<Rightarrow> Some TEWrite
                          | Inr tw \<Rightarrow>
                              if \<not> traceOK (wr_out tw) then Some TEProducedInvalid
                              else Some (if writable then TEDone (wr_out tw) else TEWrite)))))"

section \<open>Validating and importing\<close>

text \<open>The exit code of \<open>validate\<close>; \<open>None\<close> is a file that cannot be opened.\<close>

definition runValidate :: "nat \<Rightarrow> raw_line list option \<Rightarrow> int" where
  "runValidate nargs src =
     (if nargs \<noteq> 1 then 2
      else case src of
        None \<Rightarrow> 2
      | Some ls \<Rightarrow>
          (case newReader ls of
             Inl e \<Rightarrow> 1
           | Inr r \<Rightarrow> (case validate r of (rep, Some e) \<Rightarrow> 2 | (rep, None) \<Rightarrow> if report_ok rep then 0 else 1)))"

lemma runValidate_ok: "runValidate 1 (Some ls) = 0 \<longleftrightarrow> traceOK ls"
  by (auto simp: runValidate_def traceOK_def validateTraceBytes_def split: sum.splits prod.splits option.splits)

text \<open>A line that is not an operation is no different from a failing disk: the exit code is 2.\<close>

lemma malformed_op_exits_two:
  assumes "newReader (l # ls) = Inr r" "scanOps ls 1 = (nops, Some e)"
  shows "runValidate 1 (Some (l # ls)) = 2"
proof -
  have r: "rd_lines r = ls" "rd_line r = 1" using assms(1) by (cases l; auto split: option.splits)+
  obtain rep e' where v: "validate r = (rep, e')" by fastforce
  have "e' \<noteq> None"
  proof
    assume "e' = None"
    with v obtain s' where "validateWithOps r noCallback () = (rep, None, s')" by (auto simp: validate_def split: prod.splits)
    then show False using assms(2) r by (elim validateWithOps_finished) simp
  qed
  with assms(1) v show ?thesis by (auto simp: runValidate_def)
qed

text \<open>What an importer wrote as a trace passes the validation.\<close>

lemma written_traceOK: "written_as ls ops \<Longrightarrow> runValidate 1 (Some ls) = 0"
proof -
  assume "written_as ls ops"
  then obtain r where r: "newReader ls = Inr r" "scanOps (rd_lines r) (rd_line r) = (numbered 1 ops, None)" "trace_spec r ops"
    by (auto simp: written_as_def)
  show ?thesis using validate_scanned [OF r(2)] r(3)
    by (cases "validate r") (simp add: runValidate_def r(1) map_snd_numbered)
qed

text \<open>
  The import command's output file. A failed \<open>Create\<close> leaves it as it was; once it succeeded the
  file holds what was written, \<open>partial\<close> when the write failed.
\<close>

datatype out_call = OutCreate | OutWrite | OutClose

definition writeImportOutput :: "(out_call \<Rightarrow> bool) \<Rightarrow> raw_line list \<Rightarrow> raw_line list \<Rightarrow> raw_line list option \<Rightarrow> int \<times> raw_line list option" where
  "writeImportOutput fails partial data old =
     (if fails OutCreate then (2, old)
      else if fails OutWrite then (2, Some partial)
      else if fails OutClose then (2, Some data) else (0, Some data))"

text \<open>\<open>parsed\<close> is what the importer made of the input, \<open>None\<close> when it cannot be opened.\<close>

definition runImport :: "(out_call \<Rightarrow> bool) \<Rightarrow> raw_line list \<Rightarrow> ('e + raw_line list \<times> import_report) option \<Rightarrow> raw_line list option \<Rightarrow> int \<times> raw_line list option" where
  "runImport fails partial parsed old =
     (case parsed of
        None \<Rightarrow> (2, old)
      | Some (Inl e) \<Rightarrow> (1, old)
      | Some (Inr (lines, rep)) \<Rightarrow> writeImportOutput fails partial lines old)"

lemma runImport_untouched: "fst (runImport fails partial parsed old) = 1 \<Longrightarrow> snd (runImport fails partial parsed old) = old"
  by (auto simp: runImport_def writeImportOutput_def split: option.splits sum.splits prod.splits if_splits)

section \<open>Generating\<close>

text \<open>
  Both generator commands: the parameters are checked before the output is created. A generator
  that fails afterwards leaves what it wrote, \<open>partial\<close>; one may not end.
\<close>

definition runGen :: "(out_call \<Rightarrow> bool) \<Rightarrow> raw_line list \<Rightarrow> 'e option \<Rightarrow> ('e + raw_line list) option \<Rightarrow> raw_line list option \<Rightarrow>
    (int \<times> raw_line list option) option" where
  "runGen fails partial invalid generated old =
     (case invalid of
        Some e \<Rightarrow> Some (1, old)
      | None \<Rightarrow>
          if fails OutCreate then Some (2, old)
          else (case generated of
                  None \<Rightarrow> None
                | Some (Inl e) \<Rightarrow> Some (2, Some partial)
                | Some (Inr ls) \<Rightarrow> Some (if fails OutClose then 2 else 0, Some ls)))"

definition runGenCheckpoint :: "(out_call \<Rightarrow> bool) \<Rightarrow> raw_line list \<Rightarrow> (f64 \<Rightarrow> string) \<Rightarrow> (nat \<Rightarrow> bool) \<Rightarrow> ck_params \<Rightarrow> raw_line list option \<Rightarrow>
    (int \<times> raw_line list option) option" where
  "runGenCheckpoint fails partial fmt_g accepts p old =
     runGen fails partial (ckValidateParams p) (ckGenerate fmt_g accepts p) old"

definition runGenTrainingRead :: "(out_call \<Rightarrow> bool) \<Rightarrow> raw_line list \<Rightarrow> 'g rand_lib \<Rightarrow> (int \<Rightarrow> 'g) \<Rightarrow> (nat \<Rightarrow> bool) \<Rightarrow> tr_params \<Rightarrow>
    raw_line list option \<Rightarrow> (int \<times> raw_line list option) option" where
  "runGenTrainingRead fails partial lib seeded accepts p old =
     runGen fails partial (trValidateParams p) (trGenerate lib seeded accepts p) old"

lemma runGen_cases:
  assumes "runGen fails partial invalid generated old = Some (code, new)"
  shows "code = 1 \<Longrightarrow> new = old" "code = 0 \<Longrightarrow> \<exists>ls. generated = Some (Inr ls) \<and> new = Some ls" "code \<in> {0, 1, 2}"
  using assms by (auto simp: runGen_def split: option.splits sum.splits if_splits)

section \<open>Its output is valid\<close>

lemma traceOK_spec:
  assumes "newReader ls = Inr r" "scanOps (rd_lines r) (rd_line r) = (nops, None)"
  shows "traceOK ls \<longleftrightarrow> trace_spec r (map snd nops)"
  using validate_scanned [OF assms(2)] by (auto simp: traceOK_def validateTraceBytes_def assms(1) split: prod.splits)

lemma written_reader:
  assumes "wf_header h" "\<forall>x \<in> set ops. wf_op x"
  shows "\<exists>tw r. writeTraceTo (newWriter (\<lambda>_. True)) h ops = Inr tw \<and> newReader (wr_out tw) = Inr r \<and> rd_hdr r = h
    \<and> rd_headerRaw r = encode_header h \<and> scanOps (rd_lines r) (rd_line r) = (numbered 1 ops, None)"
proof -
  let ?w = "\<lparr>wr_out = [LJson (encode_header h)], wr_wroteHeader = True, wr_accepts = (\<lambda>_. True)\<rparr>"
  obtain w' where w': "writeOps ?w ops = Inr w'" using writeOps_total [of ?w ops] by auto
  from writeOps_out [OF w'] have "wr_out w' = LJson (encode_header h) # map (\<lambda>x. LJson (encode_op x)) ops" by simp
  with assms w' show ?thesis by (simp add: writeTraceTo_def writeHeader_fresh header_codec.dec_enc scanOps_encoded)
qed

lemma pieces_wf:
  assumes "wf_op x" "split_range block x" "has_offset x" "0 < block" "p \<in> set (piecesOf block x)"
  shows "wf_op p"
  using assms(4,3,5)
proof (rule piecesOf_elem)
  fix off moved d
  assume p: "splittable block x" "op_off x = Some off" "transferredBytes x = Some moved" "0 \<le> d" "d < moved" "p = piece x off block moved d"
  have r: "0 \<le> off" "off + moved < 2 ^ 63" "moved + block < 2 ^ 63" using assms(2) p(2,3) by (simp_all add: split_range_def)
  have "in64 (off + d)" "in64 (min block (moved - d))" using p(4,5) r assms(4) by (auto simp: in64_def)
  then show "wf_op p" using assms(1) by (simp add: p(6) piece_def wf_op_def min.commute)
qed (use assms(1) in simp)

lemma split_transformation:
  "\<exists>t. hdr_transformations (splitReadsHeader now h out block digest) = hdr_transformations h @ [t] \<and> wf_transformation t"
  by (simp add: splitReadsHeader_def Let_def wf_transformation_def)

lemma transform_total:
  assumes "header_spec h" "ops_spec h ops" "wf_header h" "\<forall>x \<in> set ops. wf_op x" "0 < block"
    and "\<forall>x \<in> set ops. split_range block x" "totalMoved ops < 2 ^ 63" "int (length (concat (map (piecesOf block) ops))) < 2 ^ 63"
  defines "out \<equiv> renumber 0 (concat (map (piecesOf block) ops))"
  shows "wf_header (splitReadsHeader now h out block digest)" "\<forall>x \<in> set out. wf_op x"
proof -
  note sp = split_reads_spec [OF assms(1,2,5,6,7), folded out_def]
  have ho: "\<forall>x \<in> set ops. has_offset x"
    using assms(2) by (auto elim!: ops_spec_elem simp: op_spec_def intro: has_offset_spec)
  have "wf_op p" if "p \<in> set (concat (map (piecesOf block) ops))" for p
    using that assms(4-6) ho by (auto intro: pieces_wf)
  then show "\<forall>x \<in> set out. wf_op x"
    using assms(8) by (auto simp: out_def wf_op_def in64_def dest!: renumber_elem)
  have nn: "\<forall>x \<in> set out. 0 \<le> bytesMoved x" using sp(3) by (auto elim!: ops_spec_elem intro: bytesMoved_spec)
  have tm: "totalMoved out = totalMoved ops" using totalMoved_pieces [OF assms(5) ho] by (simp add: out_def)
  have len: "int (length out) < 2 ^ 63" using assms(8) by (simp add: out_def)
  have "card (op_s ` set out) \<le> length out" using card_image_le [of "set out" op_s] card_length [of out] by (meson List.finite_set order_trans)
  moreover have "length (filter isPartialTransfer out) \<le> length out" by simp
  ultimately have c: "int (card (op_s ` set out)) < 2 ^ 63" "int (length (filter isPartialTransfer out)) < 2 ^ 63"
    using len by linarith+
  have "0 \<le> totalMoved out" using nn by (auto simp: totalMoved_def intro!: sum_list_nonneg)
  moreover note recomputeSummary_spec [OF nn, of "hdr_summary h"] tm assms(7) len c
  ultimately have "wf_summary (recomputeSummary (hdr_summary h) out)"
    using assms(3) by (auto simp: wf_header_def wf_summary_def in64_def)
  then show "wf_header (splitReadsHeader now h out block digest)"
    using assms(3) split_transformation [of now h out block digest]
    by (auto simp: wf_header_def splitReadsHeader_fields in64_def version_defs)
qed


text \<open>The sample trace, split into reads of two bytes.\<close>

definition sample_lines :: "raw_line list" where
  "sample_lines = LJson (encode_header sample_header) # map (\<lambda>x. LJson (encode_op x)) sample_ops"

lemma sample_lines_read: "readTrace sample_lines = Inr (sample_header, sample_ops)" "traceOK sample_lines"
  by code_simp+


end
