(* ===== verification/Payload.thy ===== *)
theory Payload
  imports Prelude "HOL-Library.Word"
begin

text \<open>
  Deterministic payload bytes, \<open>pkg/payload/payload.go\<close>: \<open>Fill\<close> writes a leading partial
  block, full 8-byte blocks and a trailing partial block; the specification gives each byte
  by its absolute position alone. Byte positions (Go's \<open>int64\<close>) and words are
  \<open>64 word\<close> values, so all arithmetic wraps as in the code.
\<close>

unbundle bit_operations_syntax

type_synonym byte = "8 word"
type_synonym u64 = "64 word"

section \<open>The code\<close>

datatype fill_mode = FillSeeded | FillZero | FillOther string

abbreviation FillUnset :: fill_mode where "FillUnset \<equiv> FillOther []"

record fill_config =
  fc_mode :: fill_mode
  fc_seed :: u64

definition DefaultSeed :: u64 where "DefaultSeed = 1"

definition normalizeFill :: "fill_config \<Rightarrow> fill_config" where
  "normalizeFill c =
     (let c1 = (if fc_mode c = FillUnset then c\<lparr>fc_mode := FillSeeded\<rparr> else c)
      in if fc_seed c1 = 0 then c1\<lparr>fc_seed := DefaultSeed\<rparr> else c1)"

definition rotateLeft :: "u64 \<Rightarrow> nat \<Rightarrow> u64" where
  "rotateLeft x k = push_bit k x OR drop_bit (64 - k) x"

definition splitmix64 :: "u64 \<Rightarrow> u64" where
  "splitmix64 x0 =
     (let x1 = x0 + 0x9e3779b97f4a7c15;
          x2 = (x1 XOR drop_bit 30 x1) * 0xbf58476d1ce4e5b9;
          x3 = (x2 XOR drop_bit 27 x2) * 0x94d049bb133111eb
      in x3 XOR drop_bit 31 x3)"

text \<open>\<open>hash/fnv\<close>'s 64-bit FNV-1a.\<close>

definition hashString64 :: "byte list \<Rightarrow> u64" where
  "hashString64 s = foldl (\<lambda>h b. (h XOR ucast b) * 1099511628211) 14695981039346656037 s"

definition fillBase :: "u64 \<Rightarrow> u64 \<Rightarrow> byte list \<Rightarrow> u64" where
  "fillBase seed opID target =
     seed XOR rotateLeft (opID * 0x9e3779b97f4a7c15) 17 XOR rotateLeft (hashString64 target) 31"

definition wordAt :: "u64 \<Rightarrow> u64 \<Rightarrow> u64" where
  "wordAt base pos = splitmix64 (base + signed_drop_bit 3 pos * 0x9e3779b97f4a7c15)"

definition littleEndian :: "u64 \<Rightarrow> byte list" where
  "littleEndian w = map (\<lambda>k. ucast (drop_bit (8 * k) w)) [0..<8]"

text \<open>Go's \<open>copy(dst[i:], src)\<close>: as many bytes as fit.\<close>

definition copyAt :: "byte list \<Rightarrow> nat \<Rightarrow> byte list \<Rightarrow> byte list" where
  "copyAt dst i src =
     (let n = min (length dst - i) (length src) in take i dst @ take n src @ drop (i + n) dst)"

lemma length_copyAt [simp]: "i \<le> length dst \<Longrightarrow> length (copyAt dst i src) = length dst"
  by (simp add: copyAt_def Let_def min_def)

function fillBlocks :: "u64 \<Rightarrow> byte list \<Rightarrow> nat \<Rightarrow> u64 \<Rightarrow> byte list \<times> nat \<times> u64" where
  "fillBlocks base dst i pos =
     (if i + 8 \<le> length dst
      then fillBlocks base (copyAt dst i (littleEndian (wordAt base pos))) (i + 8) (pos + 8)
      else (dst, i, pos))"
  by pat_completeness auto

termination
  by (relation "measure (\<lambda>(_, dst, i, _). length dst - i)") auto

declare fillBlocks.simps [simp del]

definition fill :: "byte list \<Rightarrow> fill_config \<Rightarrow> u64 \<Rightarrow> byte list \<Rightarrow> u64 \<Rightarrow> byte list" where
  "fill dst cfg opID target off =
     (let c = normalizeFill cfg in
      if fc_mode c = FillZero then replicate (length dst) 0
      else let base = fillBase (fc_seed c) opID target;
               rem = unat (off AND 7);
               (dst1, i1, pos1) =
                 (if rem \<noteq> 0 \<and> 0 < length dst
                  then let tmp = littleEndian (wordAt base off);
                           n = min (length dst) (8 - rem)
                       in (copyAt dst 0 (drop rem tmp), n, off + of_nat n)
                  else (dst, 0, off));
               (dst2, i2, pos2) = fillBlocks base dst1 i1 pos1
           in if i2 < length dst2
              then copyAt dst2 i2 (take (length dst2 - i2) (littleEndian (wordAt base pos2)))
              else dst2)"

section \<open>The byte at a position\<close>

definition byteAt :: "u64 \<Rightarrow> u64 \<Rightarrow> byte" where
  "byteAt base pos = littleEndian (wordAt base pos) ! unat (pos AND 7)"

definition bytesFrom :: "u64 \<Rightarrow> u64 \<Rightarrow> nat \<Rightarrow> byte list" where
  "bytesFrom base pos n = map (\<lambda>k. byteAt base (pos + of_nat k)) [0..<n]"

lemma length_bytesFrom [simp]: "length (bytesFrom base pos n) = n"
  by (simp add: bytesFrom_def)

lemma length_littleEndian [simp]: "length (littleEndian w) = 8"
  by (simp add: littleEndian_def)

lemma bytesFrom_append:
  "bytesFrom base pos (m + n) = bytesFrom base pos m @ bytesFrom base (pos + of_nat m) n"
proof (rule nth_equalityI)
  fix i assume "i < length (bytesFrom base pos (m + n))"
  then show "bytesFrom base pos (m + n) ! i = (bytesFrom base pos m @ bytesFrom base (pos + of_nat m) n) ! i"
    by (auto simp: bytesFrom_def nth_append simp flip: of_nat_add)
qed simp

lemma unat_and7: "unat (pos AND 7 :: u64) = unat pos mod 8"
proof -
  have m: "(7 :: u64) = mask 3" by (simp add: mask_eq_exp_minus_1)
  have "unat (take_bit 3 pos) = take_bit 3 (unat pos)" by (rule unsigned_take_bit_eq)
  then show ?thesis unfolding m take_bit_eq_mask [symmetric] by (simp only: take_bit_eq_mod) simp
qed

lemma unat_add_of_nat: "unat (pos + of_nat k :: u64) = (unat pos + k) mod 2 ^ 64"
  by (simp add: unat_word_ariths unat_of_nat mod_simps)

lemma mod8_of_wrapped: "m mod 2 ^ 64 mod 8 = m mod (8 :: nat)"
  by (simp add: mod_mod_cancel)

lemma block_facts:
  assumes "m mod 8 + k < (8 :: nat)"
  shows "(m + k) mod 8 = m mod 8 + k" and "(m + k) div 8 = m div 8"
proof -
  have "m + k = 8 * (m div 8) + (m mod 8 + k)" using div_mult_mod_eq [of m 8] by linarith
  with assms show "(m + k) mod 8 = m mod 8 + k" "(m + k) div 8 = m div 8"
    by (metis mod_mult_self4 mod_less, metis div_mult_self4 zero_neq_numeral div_less add_0_right)
qed

lemma add_in_block:
  assumes "m mod 8 + k < (8 :: nat)" "m < q * 8"
  shows "m + k < q * 8"
  using assms block_facts(2) [OF assms(1)] by (simp add: less_mult_imp_div_less flip: div_less_iff_less_mult)

text \<open>Positions in the same aligned 8-byte block share a word.\<close>

lemma unat_add_in_block:
  assumes "unat pos mod 8 + k < 8"
  shows "unat (pos + of_nat k :: u64) = unat pos + k"
proof -
  have lt: "unat pos < 2 ^ 61 * 8" using unsigned_less [of pos, where ?'a = nat] by simp
  have "unat pos + k < 2 ^ 61 * 8" by (rule add_in_block [OF assms lt])
  then show ?thesis unfolding unat_add_of_nat by simp
qed

lemma signed_shift_same_block:
  assumes "unat a div 8 = unat (b :: u64) div 8"
  shows "signed_drop_bit 3 a = (signed_drop_bit 3 b :: u64)"
proof (rule bit_eqI)
  have "unat (drop_bit 3 a) = unat (drop_bit 3 b)"
    using assms by (simp only: unat_drop_bit_eq) (simp add: drop_bit_eq_div)
  then have d: "drop_bit 3 a = drop_bit 3 b" unfolding word_unat_eq_iff .
  have hi: "bit a j = bit b j" if "3 \<le> j" for j
  proof -
    have "bit (drop_bit 3 a) (j - 3) = bit (drop_bit 3 b) (j - 3)" by (simp only: d)
    with that show ?thesis by (simp add: bit_drop_bit_eq)
  qed
  fix n assume "possible_bit TYPE(u64) n"
  then show "bit (signed_drop_bit 3 a) n = bit (signed_drop_bit 3 b) n"
    by (simp add: bit_signed_drop_bit_iff hi)
qed

lemma byteAt_block:
  assumes "unat pos mod 8 + k < 8"
  shows "byteAt base (pos + of_nat k) = littleEndian (wordAt base pos) ! (unat pos mod 8 + k)"
proof -
  have u: "unat (pos + of_nat k) = unat pos + k" by (rule unat_add_in_block [OF assms])
  note m = block_facts(1) [OF assms] and q = block_facts(2) [OF assms]
  have "signed_drop_bit 3 (pos + of_nat k) = (signed_drop_bit 3 pos :: u64)"
    by (rule signed_shift_same_block) (simp add: u q)
  then show ?thesis by (simp add: byteAt_def wordAt_def unat_and7 u m)
qed

lemma bytesFrom_block:
  "unat pos mod 8 + n \<le> 8 \<Longrightarrow>
     bytesFrom base pos n = take n (drop (unat pos mod 8) (littleEndian (wordAt base pos)))"
  by (rule nth_equalityI) (auto simp: bytesFrom_def byteAt_block)

lemma littleEndian_aligned:
  "unat pos mod 8 = 0 \<Longrightarrow> littleEndian (wordAt base pos) = bytesFrom base pos 8"
  by (simp add: bytesFrom_block)

section \<open>Filling writes those bytes\<close>

lemma copyAt_prefix:
  "take i dst = p \<Longrightarrow> i \<le> length dst \<Longrightarrow> n = min (length dst - i) (length src) \<Longrightarrow>
     take (i + n) (copyAt dst i src) = p @ take n src"
  by (auto simp: copyAt_def Let_def min_def)

lemma aligned_add8: "unat pos mod 8 = 0 \<Longrightarrow> unat (pos + 8 :: u64) mod 8 = 0"
  using unat_add_of_nat [of pos 8] mod8_of_wrapped [of "unat pos + 8"] by simp

lemma fillBlocks_spec:
  assumes "fillBlocks base dst i pos = (dst', i', pos')" "i \<le> length dst" "unat pos mod 8 = 0"
    "take i dst = bytesFrom base off i" "pos = off + of_nat i"
  shows "length dst' = length dst \<and> i' \<le> length dst \<and> length dst < i' + 8 \<and> unat pos' mod 8 = 0
    \<and> take i' dst' = bytesFrom base off i' \<and> pos' = off + of_nat i'"
  using assms
proof (induction base dst i pos rule: fillBlocks.induct)
  case (1 base dst i pos)
  show ?case
  proof (cases "i + 8 \<le> length dst")
    case False
    then have "dst' = dst" "i' = i" "pos' = pos" using "1.prems"(1) by (simp_all add: fillBlocks.simps)
    with False "1.prems"(2-5) show ?thesis by (simp only: not_le)
  next
    case True
    let ?d = "copyAt dst i (littleEndian (wordAt base pos))"
    have run: "fillBlocks base ?d (i + 8) (pos + 8) = (dst', i', pos')"
      using "1.prems"(1) True by (simp add: fillBlocks.simps [of base dst])
    have len: "length ?d = length dst" using "1.prems"(2) by simp
    have "take (i + 8) ?d = bytesFrom base off i @ take 8 (littleEndian (wordAt base pos))"
      using True "1.prems"(2,4) by (intro copyAt_prefix) simp_all
    also have "\<dots> = bytesFrom base off (i + 8)"
      using "1.prems"(3,5) by (simp add: littleEndian_aligned bytesFrom_append)
    finally have tk: "take (i + 8) ?d = bytesFrom base off (i + 8)" .
    have "i + 8 \<le> length ?d" "pos + 8 = off + of_nat (i + 8)" using True len "1.prems"(5) by simp_all
    note IH = "1.IH" [OF True run this(1) aligned_add8 [OF "1.prems"(3)] tk this(2)]
    then show ?thesis unfolding len .
  qed
qed

lemma fill_bytes:
  assumes "fc_mode (normalizeFill cfg) \<noteq> FillZero"
  shows "fill dst cfg opID target off =
    bytesFrom (fillBase (fc_seed (normalizeFill cfg)) opID target) off (length dst)"
proof -
  let ?base = "fillBase (fc_seed (normalizeFill cfg)) opID target"
  let ?rem = "unat (off AND 7)"
  let ?lead = "?rem \<noteq> 0 \<and> 0 < length dst"
  let ?tmp = "littleEndian (wordAt ?base off)"
  define n where "n = (if ?lead then min (length dst) (8 - ?rem) else 0)"
  define d1 where "d1 = (if ?lead then copyAt dst 0 (drop ?rem ?tmp) else dst)"
  have r8: "?rem < 8" by (simp add: unat_and7)
  have len: "length d1 = length dst" by (simp add: d1_def)
  have n_le: "n \<le> length dst" by (simp add: n_def)
  have tk: "take n d1 = bytesFrom ?base off n"
  proof (cases ?lead)
    case True
    have "take (0 + n) d1 = [] @ take n (drop ?rem ?tmp)"
      unfolding d1_def if_P [OF True] using True r8 by (intro copyAt_prefix) (simp_all add: n_def)
    moreover have "bytesFrom ?base off n = take n (drop (unat off mod 8) ?tmp)"
      by (rule bytesFrom_block) (use r8 in \<open>auto simp: n_def unat_and7\<close>)
    ultimately show ?thesis by (simp add: unat_and7)
  next
    case False
    then have "n = 0" by (auto simp: n_def)
    then show ?thesis by (simp add: bytesFrom_def)
  qed
  obtain d2 i2 pos2 where bl: "fillBlocks ?base d1 n (off + of_nat n) = (d2, i2, pos2)" by (metis prod_cases3)
  have unfolded: "fill dst cfg opID target off =
      (if i2 < length d2 then copyAt d2 i2 (take (length d2 - i2) (littleEndian (wordAt ?base pos2))) else d2)"
    using assms bl by (auto simp: fill_def Let_def n_def d1_def split: if_splits)
  show ?thesis
  proof (cases "n = length dst")
    case True
    then have "i2 = n" "d2 = d1" using bl len by (auto simp: fillBlocks.simps [of ?base d1])
    with True len tk unfolded show ?thesis by simp
  next
    case False
    have "unat (off + of_nat n) mod 8 = 0"
    proof (cases ?lead)
      case True
      with False have n: "n = 8 - unat off mod 8" by (auto simp: n_def unat_and7)
      have "(unat off + n) mod 8 = 0" unfolding n by presburger
      then show ?thesis unfolding unat_add_of_nat mod8_of_wrapped .
    next
      case nl: False
      then show ?thesis using False by (auto simp: n_def unat_and7)
    qed
    note s' = fillBlocks_spec [OF bl n_le [folded len] this tk refl, unfolded len]
    then have s: "length d2 = length dst" "i2 \<le> length dst" "length dst < i2 + 8" "unat pos2 mod 8 = 0"
      "take i2 d2 = bytesFrom ?base off i2" "pos2 = off + of_nat i2" by blast+
    let ?m = "length dst - i2"
    have "take (i2 + ?m) (copyAt d2 i2 (take ?m (littleEndian (wordAt ?base pos2)))) =
        bytesFrom ?base off i2 @ take ?m (take ?m (littleEndian (wordAt ?base pos2)))"
      using s by (intro copyAt_prefix) simp_all
    also have "\<dots> = bytesFrom ?base off (i2 + ?m)"
    proof -
      have "bytesFrom ?base pos2 ?m = take ?m (littleEndian (wordAt ?base pos2))"
        using bytesFrom_block [of pos2 ?m ?base] s(3,4) by simp
      then show ?thesis unfolding bytesFrom_append s(6) [symmetric] by simp
    qed
    finally show ?thesis using s unfolded by (auto simp: copyAt_def Let_def)
  qed
qed

section \<open>Properties\<close>

text \<open>
  C40: \<open>Fill\<close> writes, at every absolute position, a byte that depends only on the seed, the
  op id, the target and that position: the block-wise routine is equal to the per-byte
  definition (byte \<open>pos mod 8\<close> of the word of block \<open>pos >> 3\<close>), and in zero mode every byte
  is zero. The length of the buffer never changes.
\<close>

theorem fill_bytewise:
  "fill dst cfg opID target off =
     (if fc_mode (normalizeFill cfg) = FillZero then replicate (length dst) 0
      else map (\<lambda>k. byteAt (fillBase (fc_seed (normalizeFill cfg)) opID target) (off + of_nat k)) [0..<length dst])"
  using fill_bytes [of cfg dst opID target off] by (simp add: bytesFrom_def fill_def Let_def)

text \<open>
  Payload bytes are stable across chunk boundaries. However a caller cuts a buffer in
  two, filling the parts at their own offsets produces the same bytes as filling it whole.
\<close>

lemma fill_chunks:
  "fill (a @ b) cfg opID target off = fill a cfg opID target off @ fill b cfg opID target (off + of_nat (length a))"
proof (cases "fc_mode (normalizeFill cfg) = FillZero")
  case True
  then show ?thesis by (simp add: fill_def Let_def replicate_add)
next
  case False
  then show ?thesis by (simp add: fill_bytes bytesFrom_append)
qed

end
