(* ===== verification/Engine.thy ===== *)
theory Engine
  imports Trace_Types Payload
begin

text \<open>
  The storage-backend interface of \<open>pkg/engine/engine.go\<close>: sentinel errors and their wrapping,
  open flags, capabilities, and the \<open>Engine\<close> interface as a record of functions over a
  backend state \<open>'s\<close>. A call returns \<open>None\<close> when the Go call panics and otherwise the new
  backend state with the call's results. Contexts carry no data in a call that is not
  cancelled and are left out.

  \<open>Put\<close> takes an \<open>io.Reader\<close>. \<open>eng_put\<close> is the call on a reader that delivers the given bytes
  and then ends; \<open>eng_put_early\<close> tells whether \<open>Put\<close> returns while its reader could still
  deliver more: after it was offered the given bytes, \<open>Some (k, e)\<close> says it returned \<open>e\<close>
  having consumed the first \<open>k\<close> of them.
\<close>

section \<open>Errors\<close>

text \<open>\<open>Errorf\<close> is an error built from a format and its arguments, \<open>Wrap\<close> one that wraps
  another with \<open>%w\<close>.\<close>

datatype engine_error =
    ErrUnsupported | ErrNotFound | ErrShortRead | ErrShortWrite | ErrOutsideRoot
  | ErrClosedPipe
  | Errorf string "int list"
  | Wrap string "int list" engine_error

text \<open>\<open>errors.Is\<close>.\<close>

fun errIs :: "engine_error option \<Rightarrow> engine_error \<Rightarrow> bool" where
  "errIs None t = False"
| "errIs (Some e) t = (if e = t then True else (case e of Wrap _ _ e' \<Rightarrow> errIs (Some e') t | _ \<Rightarrow> False))"

section \<open>Flags, capabilities, object information\<close>

type_synonym handle = int
type_synonym open_flags = "32 word"

definition OpenFlagNone :: open_flags where "OpenFlagNone = 0"
definition OpenFlagDirect :: open_flags where "OpenFlagDirect = push_bit 0 1"
definition OpenFlagSeq :: open_flags where "OpenFlagSeq = push_bit 1 1"
definition OpenFlagRand :: open_flags where "OpenFlagRand = push_bit 2 1"
definition OpenFlagSync :: open_flags where "OpenFlagSync = push_bit 3 1"
definition OpenFlagAppend :: open_flags where "OpenFlagAppend = push_bit 4 1"
definition OpenFlagCreate :: open_flags where "OpenFlagCreate = push_bit 5 1"
definition OpenFlagTrunc :: open_flags where "OpenFlagTrunc = push_bit 6 1"

lemmas open_flag_defs = OpenFlagNone_def OpenFlagDirect_def OpenFlagSeq_def OpenFlagRand_def
  OpenFlagSync_def OpenFlagAppend_def OpenFlagCreate_def OpenFlagTrunc_def

record capabilities =
  cap_Seekable :: bool
  cap_PartialWrite :: bool
  cap_Durable :: bool
  cap_ObjectAPI :: bool
  cap_Multipart :: bool
  cap_OSPageCache :: bool

record object_info =
  oi_Name :: string
  oi_Size :: int

section \<open>The interface\<close>

record 's engine =
  eng_caps :: capabilities
  eng_open :: "string \<Rightarrow> mode \<Rightarrow> open_flags \<Rightarrow> 's \<Rightarrow> ('s \<times> (engine_error + handle)) option"
  eng_read :: "handle \<Rightarrow> int \<Rightarrow> int \<Rightarrow> byte list \<Rightarrow> 's \<Rightarrow> ('s \<times> byte list \<times> int \<times> engine_error option) option"
  eng_write :: "handle \<Rightarrow> int \<Rightarrow> byte list \<Rightarrow> 's \<Rightarrow> ('s \<times> int \<times> engine_error option) option"
  eng_fsync :: "handle \<Rightarrow> 's \<Rightarrow> ('s \<times> engine_error option) option"
  eng_close :: "handle \<Rightarrow> 's \<Rightarrow> ('s \<times> engine_error option) option"
  eng_stat :: "string \<Rightarrow> 's \<Rightarrow> ('s \<times> (engine_error + object_info)) option"
  eng_put :: "string \<Rightarrow> byte list \<Rightarrow> int \<Rightarrow> 's \<Rightarrow> ('s \<times> engine_error option) option"
  eng_put_early :: "string \<Rightarrow> int \<Rightarrow> byte list \<Rightarrow> 's \<Rightarrow> (nat \<times> engine_error option) option"
  eng_get :: "string \<Rightarrow> int \<Rightarrow> int \<Rightarrow> byte list \<Rightarrow> 's \<Rightarrow> ('s \<times> byte list \<times> int \<times> engine_error option) option"
  eng_head :: "string \<Rightarrow> 's \<Rightarrow> ('s \<times> (engine_error + object_info)) option"
  eng_delete :: "string \<Rightarrow> 's \<Rightarrow> ('s \<times> engine_error option) option"
  eng_checkTarget :: "(string \<Rightarrow> engine_error option) option"
  eng_limitations :: "('s \<Rightarrow> string list) option"

section \<open>Files as byte lists\<close>

text \<open>What a positioned read returns and a positioned write leaves, as functions on contents.\<close>

definition file_read :: "byte list \<Rightarrow> int \<Rightarrow> int \<Rightarrow> byte list" where
  "file_read data off len = take (nat len) (drop (nat off) data)"

definition file_write :: "byte list \<Rightarrow> int \<Rightarrow> byte list \<Rightarrow> byte list" where
  "file_write data off bs =
     (let e = nat off + length bs;
          d = (if e > length data then data @ replicate (e - length data) 0 else data)
      in take (nat off) d @ bs @ drop e d)"

definition padded :: "byte list \<Rightarrow> nat \<Rightarrow> byte list" where
  "padded data e = (if e > length data then data @ replicate (e - length data) 0 else data)"

lemma length_padded [simp]: "length (padded data e) = max (length data) e"
  by (simp add: padded_def)

lemma nth_padded: "i < length (padded data e) \<Longrightarrow> padded data e ! i = (if i < length data then data ! i else 0)"
  by (simp add: padded_def nth_append split: if_splits)

lemma file_write_padded:
  "file_write data off bs =
     take (nat off) (padded data (nat off + length bs)) @ bs @ drop (nat off + length bs) (padded data (nat off + length bs))"
  by (simp add: file_write_def padded_def Let_def)

lemma length_file_write [simp]: "length (file_write data off bs) = max (length data) (nat off + length bs)"
  unfolding file_write_padded by simp

lemma take_padded_len: "length (take (nat off) (padded data (nat off + n))) = nat off"
  by simp

lemma file_read_write [simp]: "file_read (file_write data off bs) off (int (length bs)) = bs"
  by (simp add: file_read_def file_write_padded)

lemma nth_file_write:
  assumes "i < length (file_write data off bs)"
  shows "file_write data off bs ! i =
       (if nat off \<le> i \<and> i < nat off + length bs then bs ! (i - nat off)
        else if i < length data then data ! i else 0)"
proof -
  have i: "i < length (padded data (nat off + length bs))" using assms by simp
  consider "i < nat off" | "nat off \<le> i" "i < nat off + length bs" "i - nat off < length bs"
    | "nat off + length bs \<le> i" "\<not> i < nat off" "\<not> i - nat off < length bs" by linarith
  then show ?thesis
    by cases (use nth_padded [OF i] i in
      \<open>simp_all add: file_write_padded nth_append take_padded_len del: length_take length_padded\<close>)
qed

lemma length_file_read:
  "0 \<le> off \<Longrightarrow> 0 \<le> len \<Longrightarrow>
     int (length (file_read data off len)) = min len (max 0 (int (length data) - off))"
  by (auto simp: file_read_def)

section \<open>The contract of a file backend\<close>

text \<open>
  What a dispatcher relies on. \<open>contents s t\<close> is the contents of target \<open>t\<close> (for a target not yet
  touched, the contents it will be created with), \<open>opened s h\<close> the target behind a handle,
  \<open>room s\<close> a number of opens the backend can still serve.
\<close>

locale file_backend =
  fixes eng :: "('s, 'z) engine_scheme"
    and inv :: "'s \<Rightarrow> bool"
    and contents :: "'s \<Rightarrow> string \<Rightarrow> byte list"
    and opened :: "'s \<Rightarrow> handle \<Rightarrow> string option"
    and room :: "'s \<Rightarrow> nat"
  assumes open_ok: "inv s \<Longrightarrow> 0 < room s \<Longrightarrow>
      \<exists>s' h. eng_open eng t m f s = Some (s', Inr h) \<and> inv s' \<and> room s' = room s - 1
        \<and> contents s' = contents s \<and> opened s h = None \<and> opened s' = (opened s)(h \<mapsto> t)"
    and read_ok: "inv s \<Longrightarrow> opened s h = Some t \<Longrightarrow> 0 \<le> off \<Longrightarrow> 0 \<le> len \<Longrightarrow> off + len < 2 ^ 63 \<Longrightarrow>
      int (length buf) = len \<Longrightarrow>
      \<exists>buf' e. eng_read eng h off len buf s = Some (s, buf', int (length (file_read (contents s t) off len)), e)
        \<and> length buf' = length buf
        \<and> take (length (file_read (contents s t) off len)) buf' = file_read (contents s t) off len
        \<and> (e = None \<or> e = Some ErrShortRead)
        \<and> (int (length (file_read (contents s t) off len)) < len \<longrightarrow> e = Some ErrShortRead)"
    and write_ok: "inv s \<Longrightarrow> opened s h = Some t \<Longrightarrow> 0 \<le> off \<Longrightarrow> off + int (length bs) < 2 ^ 63 \<Longrightarrow>
      \<exists>s'. eng_write eng h off bs s = Some (s', int (length bs), None) \<and> inv s' \<and> room s' = room s
        \<and> opened s' = opened s \<and> contents s' = (contents s)(t := file_write (contents s t) off bs)"
    and close_ok: "inv s \<Longrightarrow> opened s h = Some t \<Longrightarrow>
      \<exists>s'. eng_close eng h s = Some (s', None) \<and> inv s' \<and> room s' = room s
        \<and> contents s' = contents s \<and> opened s' = (opened s)(h := None)"
    and stat_ok: "inv s \<Longrightarrow>
      \<exists>s'. eng_stat eng t s = Some (s', Inr \<lparr>oi_Name = t, oi_Size = int (length (contents s t))\<rparr>)
        \<and> inv s' \<and> room s' = room s \<and> contents s' = contents s \<and> opened s' = opened s"
begin

text \<open>Every handle open on the target reads back what was written, whichever handle wrote it.\<close>

lemma read_after_write:
  assumes "inv s" "opened s h = Some t" "opened s h' = Some t" "0 \<le> off" "off + int (length bs) < 2 ^ 63"
    "length buf = length bs" "bs \<noteq> []"
  obtains s' e where "eng_write eng h off bs s = Some (s', int (length bs), None)"
    "eng_read eng h' off (int (length bs)) buf s' = Some (s', bs, int (length bs), e)"
    "e = None \<or> e = Some ErrShortRead"
proof -
  obtain s' where w: "eng_write eng h off bs s = Some (s', int (length bs), None)" and s': "inv s'"
    "opened s' = opened s" "contents s' = (contents s)(t := file_write (contents s t) off bs)"
    using write_ok [OF assms(1,2,4,5)] by blast
  have o: "opened s' h' = Some t" and f: "contents s' t = file_write (contents s t) off bs"
    using s'(2,3) assms(3) by simp_all
  obtain buf' e where "eng_read eng h' off (int (length bs)) buf s' = Some (s', buf', int (length bs), e)"
    "length buf' = length buf" "take (length bs) buf' = bs" "e = None \<or> e = Some ErrShortRead"
    using read_ok [OF s'(1) o assms(4) _ assms(5), of buf] assms(6) unfolding f file_read_write
    by auto
  with that [OF w, of e] assms(6) show ?thesis by simp
qed

lemma write_elsewhere:
  assumes "inv s" "opened s h = Some t" "0 \<le> off" "off + int (length bs) < 2 ^ 63" "t' \<noteq> t"
  obtains s' where "eng_write eng h off bs s = Some (s', int (length bs), None)" "inv s'"
    "contents s' t' = contents s t'"
  using write_ok [OF assms(1-4)] assms(5) by fastforce

end

end
