(* ===== verification/Mem.thy ===== *)
theory Mem
  imports Engine
begin

text \<open>
  The in-process engine of \<open>pkg/engine/mem/mem.go\<close>. Objects live in an explicit store indexed
  by reference, since the code shares one \<open>*memObject\<close> between the object table and every
  handle opened on it. Injected delays and \<open>Gosched\<close> do not change the state and are left out;
  each operation runs under the engine's locks and is one step here. \<open>sizeOf\<close> is the size
  function the engine was built with.
\<close>

section \<open>State\<close>

record open_handle =
  oh_target :: string
  oh_mode :: mode
  oh_obj :: nat

record mem_state =
  mem_objects :: "(string \<times> nat) list"
  mem_store :: "byte list list"
  mem_handles :: "(handle \<times> open_handle) list"
  mem_nextH :: int

type_synonym size_of = "string \<Rightarrow> int"

definition defaultSize :: size_of where "defaultSize t = 67108864"
definition withFixedSize :: "int \<Rightarrow> size_of" where "withFixedSize n = (\<lambda>_. n)"

definition memNew :: mem_state where
  "memNew = \<lparr>mem_objects = [], mem_store = [], mem_handles = [], mem_nextH = 0\<rparr>"

definition memCaps :: capabilities where
  "memCaps = \<lparr>cap_Seekable = True, cap_PartialWrite = True, cap_Durable = False,
     cap_ObjectAPI = False, cap_Multipart = False, cap_OSPageCache = False\<rparr>"

section \<open>Operations\<close>

text \<open>\<open>make([]byte, n)\<close> panics for a negative size.\<close>

definition makeBytes :: "int \<Rightarrow> byte list option" where
  "makeBytes n = (if n < 0 then None else Some (replicate (nat n) 0))"

text \<open>The lookup with lazy creation that \<open>Open\<close> and \<open>Stat\<close> share.\<close>

definition memObject :: "size_of \<Rightarrow> string \<Rightarrow> mem_state \<Rightarrow> (mem_state \<times> nat) option" where
  "memObject sizeOf target st =
     (case map_of (mem_objects st) target of
        Some r \<Rightarrow> Some (st, r)
      | None \<Rightarrow>
          (case makeBytes (sizeOf target) of
             None \<Rightarrow> None
           | Some bs \<Rightarrow>
               let r = length (mem_store st)
               in Some (st\<lparr>mem_store := mem_store st @ [bs],
                          mem_objects := AList.update target r (mem_objects st)\<rparr>, r)))"

definition memOpen :: "size_of \<Rightarrow> string \<Rightarrow> mode \<Rightarrow> open_flags \<Rightarrow> mem_state
    \<Rightarrow> (mem_state \<times> (engine_error + handle)) option" where
  "memOpen sizeOf target m flags st =
     (case memObject sizeOf target st of
        None \<Rightarrow> None
      | Some (st1, r) \<Rightarrow>
          let h = i64 (mem_nextH st1 + 1)
          in Some (st1\<lparr>mem_nextH := h,
               mem_handles := AList.update h \<lparr>oh_target = target, oh_mode = m, oh_obj = r\<rparr> (mem_handles st1)\<rparr>,
               Inr h))"

definition lookupHandle :: "handle \<Rightarrow> mem_state \<Rightarrow> engine_error + open_handle" where
  "lookupHandle h st =
     (case map_of (mem_handles st) h of
        None \<Rightarrow> Inl (Wrap ''mem: unknown handle %d: %w'' [h] ErrNotFound)
      | Some oh \<Rightarrow> Inr oh)"

definition memRead :: "handle \<Rightarrow> int \<Rightarrow> int \<Rightarrow> byte list \<Rightarrow> mem_state
    \<Rightarrow> (mem_state \<times> byte list \<times> int \<times> engine_error option) option" where
  "memRead h off len buf st =
     (if off < 0 then Some (st, buf, 0, Some (Errorf ''mem: Read: offset %d must be non-negative'' [off]))
      else if len < 0 then Some (st, buf, 0, Some (Errorf ''mem: Read: length %d must be non-negative'' [len]))
      else case lookupHandle h st of
        Inl err \<Rightarrow> Some (st, buf, 0, Some err)
      | Inr oh \<Rightarrow>
          let data = mem_store st ! oh_obj oh in
          if off \<ge> int (length data) then Some (st, buf, 0, Some ErrShortRead)
          else let end0 = i64 (off + len);
                   e = (if end0 > int (length data) then int (length data) else end0)
               in if e < off then None
                  else let src = take (nat (e - off)) (drop (nat off) data);
                           n = min (length buf) (length src)
                       in Some (st, copyAt buf 0 src, int n, if int n < len then Some ErrShortRead else None))"

definition memWrite :: "handle \<Rightarrow> int \<Rightarrow> byte list \<Rightarrow> mem_state
    \<Rightarrow> (mem_state \<times> int \<times> engine_error option) option" where
  "memWrite h off bs st =
     (if off < 0 then Some (st, 0, Some (Errorf ''mem: Write: offset %d must be non-negative'' [off]))
      else case lookupHandle h st of
        Inl err \<Rightarrow> Some (st, 0, Some err)
      | Inr oh \<Rightarrow>
          let data = mem_store st ! oh_obj oh;
              e = i64 (off + int (length bs))
          in (case (if e > int (length data)
                    then map_option (\<lambda>grown. copyAt grown 0 data) (makeBytes e) else Some data) of
                None \<Rightarrow> None
              | Some d \<Rightarrow>
                  if off > int (length d) then None
                  else Some (st\<lparr>mem_store := (mem_store st)[oh_obj oh := copyAt d (nat off) bs]\<rparr>,
                             int (length bs), None)))"

definition memFsync :: "handle \<Rightarrow> mem_state \<Rightarrow> (mem_state \<times> engine_error option) option" where
  "memFsync h st = Some (st, Some ErrUnsupported)"

definition memClose :: "handle \<Rightarrow> mem_state \<Rightarrow> (mem_state \<times> engine_error option) option" where
  "memClose h st =
     (case map_of (mem_handles st) h of
        None \<Rightarrow> Some (st, Some (Wrap ''mem: Close: unknown handle %d: %w'' [h] ErrNotFound))
      | Some _ \<Rightarrow> Some (st\<lparr>mem_handles := AList.delete h (mem_handles st)\<rparr>, None))"

definition memStat :: "size_of \<Rightarrow> string \<Rightarrow> mem_state \<Rightarrow> (mem_state \<times> (engine_error + object_info)) option" where
  "memStat sizeOf target st =
     (case memObject sizeOf target st of
        None \<Rightarrow> None
      | Some (st1, r) \<Rightarrow> Some (st1, Inr \<lparr>oi_Name = target, oi_Size = int (length (mem_store st1 ! r))\<rparr>))"

definition memPut :: "string \<Rightarrow> byte list \<Rightarrow> int \<Rightarrow> mem_state \<Rightarrow> (mem_state \<times> engine_error option) option" where
  "memPut key bs n st = Some (st, Some ErrUnsupported)"

definition memGet :: "string \<Rightarrow> int \<Rightarrow> int \<Rightarrow> byte list \<Rightarrow> mem_state
    \<Rightarrow> (mem_state \<times> byte list \<times> int \<times> engine_error option) option" where
  "memGet key off len buf st = Some (st, buf, 0, Some ErrUnsupported)"

definition memHead :: "string \<Rightarrow> mem_state \<Rightarrow> (mem_state \<times> (engine_error + object_info)) option" where
  "memHead key st = Some (st, Inl ErrUnsupported)"

definition memDelete :: "string \<Rightarrow> mem_state \<Rightarrow> (mem_state \<times> engine_error option) option" where
  "memDelete key st = Some (st, Some ErrUnsupported)"

text \<open>\<open>Put\<close> returns at once, without reading.\<close>

definition memEngine :: "size_of \<Rightarrow> mem_state engine" where
  "memEngine sizeOf = \<lparr>eng_caps = memCaps, eng_open = memOpen sizeOf, eng_read = memRead,
     eng_write = memWrite, eng_fsync = memFsync, eng_close = memClose, eng_stat = memStat sizeOf,
     eng_put = memPut, eng_put_early = (\<lambda>key n offered st. Some (0, Some ErrUnsupported)),
     eng_get = memGet, eng_head = memHead, eng_delete = memDelete,
     eng_checkTarget = None, eng_limitations = None\<rparr>"

section \<open>Invariant and abstraction\<close>

definition objects_ok :: "mem_state \<Rightarrow> bool" where
  "objects_ok st \<longleftrightarrow> (\<forall>t r. map_of (mem_objects st) t = Some r \<longrightarrow> r < length (mem_store st))
     \<and> (\<forall>t t' r. map_of (mem_objects st) t = Some r \<longrightarrow> map_of (mem_objects st) t' = Some r \<longrightarrow> t = t')"

definition handles_ok :: "mem_state \<Rightarrow> bool" where
  "handles_ok st \<longleftrightarrow> 0 \<le> mem_nextH st \<and> mem_nextH st < 2 ^ 63
     \<and> (\<forall>h oh. map_of (mem_handles st) h = Some oh \<longrightarrow>
          0 < h \<and> h \<le> mem_nextH st \<and> map_of (mem_objects st) (oh_target oh) = Some (oh_obj oh))"

definition mem_inv :: "mem_state \<Rightarrow> bool" where
  "mem_inv st \<longleftrightarrow> objects_ok st \<and> handles_ok st"

definition memContents :: "size_of \<Rightarrow> mem_state \<Rightarrow> string \<Rightarrow> byte list" where
  "memContents sizeOf st t =
     (case map_of (mem_objects st) t of Some r \<Rightarrow> mem_store st ! r | None \<Rightarrow> replicate (nat (sizeOf t)) 0)"

definition memOpened :: "mem_state \<Rightarrow> handle \<Rightarrow> string option" where
  "memOpened st h = map_option oh_target (map_of (mem_handles st) h)"

definition memRoom :: "mem_state \<Rightarrow> nat" where
  "memRoom st = nat (2 ^ 63 - 1 - mem_nextH st)"

lemma memNew_inv [simp]: "mem_inv memNew"
  by (simp add: mem_inv_def objects_ok_def handles_ok_def memNew_def)

lemma objects_ok_lookup: "objects_ok st \<Longrightarrow> map_of (mem_objects st) t = Some r \<Longrightarrow> r < length (mem_store st)"
  by (simp add: objects_ok_def)

lemma objects_ok_inj:
  "objects_ok st \<Longrightarrow> map_of (mem_objects st) t = Some r \<Longrightarrow> map_of (mem_objects st) t' = Some r \<Longrightarrow> t = t'"
  by (simp add: objects_ok_def)

lemma handles_ok_lookup:
  assumes "handles_ok st" "map_of (mem_handles st) h = Some oh"
  shows "0 < h" "h \<le> mem_nextH st" "map_of (mem_objects st) (oh_target oh) = Some (oh_obj oh)"
  using assms by (auto simp: handles_ok_def)

lemma memContents_frame:
  "mem_objects st' = mem_objects st \<Longrightarrow> mem_store st' = mem_store st \<Longrightarrow>
     memContents sizeOf st' = memContents sizeOf st"
  by (rule ext) (simp add: memContents_def split: option.split)

lemma memOpened_lookup:
  assumes "memOpened st h = Some t"
  obtains oh where "map_of (mem_handles st) h = Some oh" "oh_target oh = t" "lookupHandle h st = Inr oh"
  using assms by (auto simp: memOpened_def lookupHandle_def)

lemma memContents_handle:
  "handles_ok st \<Longrightarrow> map_of (mem_handles st) h = Some oh \<Longrightarrow>
     memContents sizeOf st (oh_target oh) = mem_store st ! oh_obj oh"
  by (simp add: memContents_def handles_ok_lookup)

section \<open>Lazy creation\<close>

lemma memObject_ok:
  assumes "mem_inv st" "0 \<le> sizeOf t"
  obtains st' r where "memObject sizeOf t st = Some (st', r)" "mem_inv st'"
    "map_of (mem_objects st') t = Some r" "mem_handles st' = mem_handles st" "mem_nextH st' = mem_nextH st"
    "memContents sizeOf st' = memContents sizeOf st"
    "memContents sizeOf st t = mem_store st' ! r"
proof (cases "map_of (mem_objects st) t")
  case (Some r)
  then show ?thesis using assms by (intro that [of st r]) (simp_all add: memObject_def memContents_def)
next
  case None
  let ?r = "length (mem_store st)"
  define st' where "st' = st\<lparr>mem_store := mem_store st @ [replicate (nat (sizeOf t)) 0],
    mem_objects := AList.update t ?r (mem_objects st)\<rparr>"
  have o: "objects_ok st" and hs: "handles_ok st" using assms(1) by (simp_all add: mem_inv_def)
  have "objects_ok st'"
    using o by (auto simp: objects_ok_def st'_def less_Suc_eq split: if_splits dest: less_imp_neq)
  moreover have "handles_ok st'"
    using hs None by (auto simp: handles_ok_def st'_def)
  moreover have "memContents sizeOf st' t' = memContents sizeOf st t'" for t'
    using objects_ok_lookup [OF o, of t'] None
    by (auto simp: memContents_def st'_def nth_append split: option.split)
  ultimately have inv: "mem_inv st'" and c: "memContents sizeOf st' = memContents sizeOf st"
    by (simp_all add: mem_inv_def fun_eq_iff)
  have m: "memObject sizeOf t st = Some (st', ?r)"
    using None assms(2) by (simp add: memObject_def makeBytes_def Let_def st'_def)
  show ?thesis by (rule that [OF m inv _ _ _ c]) (simp_all add: st'_def memContents_def None)
qed

section \<open>The operations meet the contract\<close>

lemma memOpen_ok:
  assumes "mem_inv st" "0 \<le> sizeOf t" "0 < memRoom st"
  shows "\<exists>st' h. memOpen sizeOf t m f st = Some (st', Inr h) \<and> mem_inv st' \<and> memRoom st' = memRoom st - 1
    \<and> memContents sizeOf st' = memContents sizeOf st \<and> memOpened st h = None
    \<and> memOpened st' = (memOpened st)(h \<mapsto> t) \<and> h = mem_nextH st + 1"
proof -
  obtain st1 r where ob: "memObject sizeOf t st = Some (st1, r)" and s1: "mem_inv st1"
    "map_of (mem_objects st1) t = Some r" "mem_handles st1 = mem_handles st" "mem_nextH st1 = mem_nextH st"
    "memContents sizeOf st1 = memContents sizeOf st"
    using memObject_ok [where sizeOf = sizeOf and t = t, OF assms(1,2)] by metis
  have hs: "handles_ok st" "handles_ok st1" and ob1: "objects_ok st1" using assms(1) s1(1) by (simp_all add: mem_inv_def)
  have n: "0 \<le> mem_nextH st" "mem_nextH st + 1 < 2 ^ 63"
    using hs(1) assms(3) by (auto simp: handles_ok_def memRoom_def)
  then have h: "i64 (mem_nextH st1 + 1) = mem_nextH st + 1" by (simp add: s1(4) i64_nonneg_bounded)
  let ?h = "mem_nextH st + 1" and ?oh = "\<lparr>oh_target = t, oh_mode = m, oh_obj = r\<rparr>"
  define st' where "st' = st1\<lparr>mem_nextH := ?h, mem_handles := AList.update ?h ?oh (mem_handles st1)\<rparr>"
  have "memOpen sizeOf t m f st = Some (st', Inr ?h)" by (simp add: memOpen_def ob Let_def h st'_def)
  moreover have "handles_ok st'"
    using handles_ok_lookup [OF hs(2)] n s1(2,4) by (fastforce simp: handles_ok_def st'_def split: if_splits)
  then have "mem_inv st'" using ob1 by (simp add: mem_inv_def objects_ok_def st'_def)
  moreover have "memRoom st' = memRoom st - 1" using n by (simp add: memRoom_def st'_def)
  moreover have "memContents sizeOf st' = memContents sizeOf st"
    unfolding s1(5) [symmetric] by (rule memContents_frame) (simp_all add: st'_def)
  moreover have "memOpened st ?h = None"
    using handles_ok_lookup(2) [OF hs(1), of ?h] by (cases "map_of (mem_handles st) ?h") (auto simp: memOpened_def)
  moreover have "memOpened st' = (memOpened st)(?h \<mapsto> t)" by (auto simp: memOpened_def st'_def s1(3))
  ultimately show ?thesis by blast
qed

lemma memRead_ok:
  fixes sizeOf :: size_of
  assumes "mem_inv st" "memOpened st h = Some t" "0 \<le> off" "0 \<le> len" "off + len < 2 ^ 63" "int (length buf) = len"
  defines "src \<equiv> file_read (memContents sizeOf st t) off len"
  shows "memRead h off len buf st = Some (st, copyAt buf 0 src, int (length src),
    if off \<ge> int (length (memContents sizeOf st t)) \<or> int (length src) < len then Some ErrShortRead else None)"
proof -
  obtain oh where oh: "map_of (mem_handles st) h = Some oh" "oh_target oh = t" "lookupHandle h st = Inr oh"
    by (rule memOpened_lookup [OF assms(2)])
  let ?data = "mem_store st ! oh_obj oh"
  have c: "memContents sizeOf st t = ?data"
    using memContents_handle [of st h oh] assms(1) oh(1,2) by (auto simp: mem_inv_def)
  show ?thesis
  proof (cases "off \<ge> int (length ?data)")
    case True
    then have "src = []" by (simp add: src_def c file_read_def)
    with True show ?thesis using assms(3,4) by (simp add: memRead_def oh(3) Let_def c copyAt_def)
  next
    case False
    let ?e = "if i64 (off + len) > int (length ?data) then int (length ?data) else i64 (off + len)"
    have i: "i64 (off + len) = off + len" using assms(3-5) by (simp add: i64_nonneg_bounded)
    have ge: "\<not> ?e < off" using False assms(4) by (simp add: i)
    have src: "take (nat (?e - off)) (drop (nat off) ?data) = src"
      unfolding src_def c file_read_def i using False assms(3,4) by (auto simp: nat_add_distrib)
    have "length src \<le> length buf" using assms(4,6) by (simp add: src_def file_read_def)
    then have n: "min (length buf) (length src) = length src" by simp
    show ?thesis using False assms(3,4) unfolding memRead_def oh(3) Let_def c sum.case
      by (simp only: ge src n if_False not_less [symmetric] simp_thms)
  qed
qed

lemma copyAt_inside: "i + length src \<le> length dst \<Longrightarrow> copyAt dst i src = take i dst @ src @ drop (i + length src) dst"
  by (simp add: copyAt_def Let_def min_absorb2)

lemma memWrite_ok:
  assumes "mem_inv st" "memOpened st h = Some t" "0 \<le> off" "off + int (length bs) < 2 ^ 63"
  shows "\<exists>st'. memWrite h off bs st = Some (st', int (length bs), None) \<and> mem_inv st' \<and> memRoom st' = memRoom st
    \<and> memOpened st' = memOpened st
    \<and> memContents sizeOf st' = (memContents sizeOf st)(t := file_write (memContents sizeOf st t) off bs)"
proof -
  obtain oh where oh: "map_of (mem_handles st) h = Some oh" "oh_target oh = t" "lookupHandle h st = Inr oh"
    by (rule memOpened_lookup [OF assms(2)])
  have ob: "objects_ok st" and hs: "handles_ok st" using assms(1) by (simp_all add: mem_inv_def)
  let ?r = "oh_obj oh" let ?data = "mem_store st ! ?r" let ?e = "nat off + length bs"
  have ref: "map_of (mem_objects st) t = Some ?r" using handles_ok_lookup(3) [OF hs oh(1)] oh(2) by simp
  have c: "memContents sizeOf st t = ?data" by (simp add: memContents_def ref)
  have i: "i64 (off + int (length bs)) = int ?e" using assms(3,4) by (simp add: i64_nonneg_bounded)
  have grow: "(if int ?e > int (length ?data) then map_option (\<lambda>grown. copyAt grown 0 ?data) (makeBytes (int ?e))
      else Some ?data) = Some (padded ?data ?e)"
    by (simp add: makeBytes_def padded_def copyAt_inside del: of_nat_add)
  have wr: "copyAt (padded ?data ?e) (nat off) bs = file_write ?data off bs"
    by (simp add: copyAt_inside file_write_padded)
  let ?st = "st\<lparr>mem_store := (mem_store st)[?r := file_write ?data off bs]\<rparr>"
  have "memWrite h off bs st = Some (?st, int (length bs), None)"
    using assms(3) unfolding memWrite_def oh(3) Let_def sum.case i grow option.case wr by simp
  moreover have "mem_inv ?st" using ob hs by (simp add: mem_inv_def objects_ok_def handles_ok_def)
  moreover have "memContents sizeOf ?st t' = ((memContents sizeOf st)(t := file_write ?data off bs)) t'" for t'
  proof (cases "t' = t")
    case True
    then show ?thesis using objects_ok_lookup [OF ob ref] ref by (simp add: memContents_def)
  next
    case False
    then show ?thesis using objects_ok_inj [OF ob ref, of t']
      by (cases "map_of (mem_objects st) t'") (auto simp: memContents_def intro!: nth_list_update_neq)
  qed
  then have "memContents sizeOf ?st = (memContents sizeOf st)(t := file_write ?data off bs)" by (rule ext)
  moreover have "memRoom ?st = memRoom st" "memOpened ?st = memOpened st" by (simp_all add: memRoom_def memOpened_def fun_eq_iff)
  ultimately show ?thesis unfolding c by blast
qed

lemma memClose_ok:
  assumes "mem_inv st" "memOpened st h = Some t"
  shows "\<exists>st'. memClose h st = Some (st', None) \<and> mem_inv st' \<and> memRoom st' = memRoom st
    \<and> memContents sizeOf st' = memContents sizeOf st \<and> memOpened st' = (memOpened st)(h := None)"
proof -
  obtain oh where oh: "map_of (mem_handles st) h = Some oh" by (rule memOpened_lookup [OF assms(2)])
  let ?st = "st\<lparr>mem_handles := AList.delete h (mem_handles st)\<rparr>"
  have "mem_inv ?st" using assms(1) by (auto simp: mem_inv_def objects_ok_def handles_ok_def)
  moreover have "memContents sizeOf ?st = memContents sizeOf st" by (rule memContents_frame) simp_all
  ultimately show ?thesis
    by (auto simp: memClose_def oh memRoom_def memOpened_def)
qed

lemma memStat_ok:
  assumes "mem_inv st" "0 \<le> sizeOf t"
  shows "\<exists>st'. memStat sizeOf t st = Some (st', Inr \<lparr>oi_Name = t, oi_Size = int (length (memContents sizeOf st t))\<rparr>)
    \<and> mem_inv st' \<and> memRoom st' = memRoom st \<and> memContents sizeOf st' = memContents sizeOf st
    \<and> memOpened st' = memOpened st"
proof -
  obtain st1 r where ob: "memObject sizeOf t st = Some (st1, r)" and s1: "mem_inv st1"
    "mem_handles st1 = mem_handles st" "mem_nextH st1 = mem_nextH st"
    "memContents sizeOf st1 = memContents sizeOf st" "memContents sizeOf st t = mem_store st1 ! r"
    using memObject_ok [where sizeOf = sizeOf and t = t, OF assms] by metis
  then show ?thesis by (auto simp: memStat_def ob memRoom_def memOpened_def)
qed

definition size_ok :: "size_of \<Rightarrow> bool" where
  "size_ok sizeOf \<longleftrightarrow> (\<forall>t. 0 \<le> sizeOf t)"

lemma size_okD: "size_ok sizeOf \<Longrightarrow> 0 \<le> sizeOf t"
  by (simp add: size_ok_def)

interpretation mem: file_backend "memEngine sizeOf" "\<lambda>st. mem_inv st \<and> size_ok sizeOf"
  "memContents sizeOf" memOpened memRoom for sizeOf
proof (unfold_locales, goal_cases)
  case (1 s t m f)
  then show ?case using memOpen_ok [of s sizeOf t m f] by (auto simp: memEngine_def size_okD)
next
  case (2 s h t off len buf)
  let ?src = "file_read (memContents sizeOf s t) off len"
  have "length ?src \<le> length buf" using 2(6) by (simp add: file_read_def)
  then have "length (copyAt buf 0 ?src) = length buf" "take (length ?src) (copyAt buf 0 ?src) = ?src"
    by (simp_all add: copyAt_inside)
  then show ?case using memRead_ok [OF _ 2(2-6), of sizeOf] 2(1) by (auto simp: memEngine_def)
next
  case (3 s h t off bs)
  then show ?case using memWrite_ok [OF _ 3(2-4), of sizeOf] by (auto simp: memEngine_def)
next
  case (4 s h t)
  then show ?case using memClose_ok [OF _ 4(2), of sizeOf] by (auto simp: memEngine_def)
next
  case (5 s t)
  then show ?case using memStat_ok [of s sizeOf t] by (auto simp: memEngine_def size_okD)
qed

section \<open>Reachable states\<close>

text \<open>Any sequence of calls, in any order and with any arguments; \<open>n\<close> counts the opens.\<close>

inductive mem_reach :: "size_of \<Rightarrow> nat \<Rightarrow> mem_state \<Rightarrow> bool" for sizeOf where
  reach_new: "mem_reach sizeOf 0 memNew"
| reach_open: "mem_reach sizeOf n st \<Longrightarrow> memOpen sizeOf t m f st = Some (st', r) \<Longrightarrow> mem_reach sizeOf (Suc n) st'"
| reach_read: "mem_reach sizeOf n st \<Longrightarrow> memRead h off len buf st = Some (st', buf', k, e) \<Longrightarrow> mem_reach sizeOf n st'"
| reach_write: "mem_reach sizeOf n st \<Longrightarrow> memWrite h off bs st = Some (st', k, e) \<Longrightarrow> mem_reach sizeOf n st'"
| reach_fsync: "mem_reach sizeOf n st \<Longrightarrow> memFsync h st = Some (st', e) \<Longrightarrow> mem_reach sizeOf n st'"
| reach_close: "mem_reach sizeOf n st \<Longrightarrow> memClose h st = Some (st', e) \<Longrightarrow> mem_reach sizeOf n st'"
| reach_stat: "mem_reach sizeOf n st \<Longrightarrow> memStat sizeOf t st = Some (st', r') \<Longrightarrow> mem_reach sizeOf n st'"

lemma memRead_state: "memRead h off len buf st = Some (st', buf', k, e) \<Longrightarrow> st' = st"
  by (auto simp: memRead_def Let_def split: if_splits sum.splits)

lemma memWrite_state:
  "memWrite h off bs st = Some (st', k, e) \<Longrightarrow>
     mem_objects st' = mem_objects st \<and> mem_handles st' = mem_handles st \<and> mem_nextH st' = mem_nextH st
     \<and> length (mem_store st') = length (mem_store st)"
  by (auto simp: memWrite_def Let_def split: if_splits sum.splits option.splits)

lemma memClose_state:
  "memClose h st = Some (st', e) \<Longrightarrow>
     mem_objects st' = mem_objects st \<and> mem_nextH st' = mem_nextH st \<and> mem_store st' = mem_store st
     \<and> map_of (mem_handles st') \<subseteq>\<^sub>m map_of (mem_handles st)"
  by (auto simp: memClose_def map_le_def split: option.splits if_splits)

lemma mem_inv_frame:
  assumes "mem_inv st" "mem_objects st' = mem_objects st" "mem_nextH st' = mem_nextH st"
    "length (mem_store st') = length (mem_store st)" "map_of (mem_handles st') \<subseteq>\<^sub>m map_of (mem_handles st)"
  shows "mem_inv st'"
proof -
  have "handles_ok st'"
    using assms unfolding handles_ok_def mem_inv_def map_le_def by (metis domI)
  then show ?thesis using assms by (simp add: mem_inv_def objects_ok_def)
qed

lemma memRoom_nextH: "mem_inv st \<Longrightarrow> mem_nextH st = 2 ^ 63 - 1 - int (memRoom st)"
  by (simp add: memRoom_def mem_inv_def handles_ok_def)

lemma mem_reach_inv:
  "mem_reach sizeOf n st \<Longrightarrow> size_ok sizeOf \<Longrightarrow> int n < 2 ^ 63 \<Longrightarrow> mem_inv st \<and> mem_nextH st = int n"
proof (induction rule: mem_reach.induct)
  case reach_new
  show ?case by simp (simp add: memNew_def)
next
  case (reach_open n st t m f st' r)
  then have st: "mem_inv st" "mem_nextH st = int n" by simp_all
  have "0 < memRoom st" using reach_open.prems st(2) by (simp add: memRoom_def)
  from memOpen_ok [where t = t and sizeOf = sizeOf and m = m and f = f, OF st(1) _ this] reach_open st(2)
  have "mem_inv st'" and room: "memRoom st' = memRoom st - 1" by (auto simp: size_okD)
  moreover have "mem_nextH st' = int n + 1"
    using room memRoom_nextH [OF st(1)] memRoom_nextH [OF \<open>mem_inv st'\<close>] \<open>0 < memRoom st\<close> st(2) by simp
  ultimately show ?case by simp
next
  case (reach_read n st h off len buf st' buf' k e)
  then show ?case using memRead_state [OF reach_read.hyps(2)] by simp
next
  case (reach_write n st h off bs st' k e)
  then show ?case using memWrite_state [OF reach_write.hyps(2)] by (auto intro: mem_inv_frame [of st])
next
  case (reach_fsync n st h st' e)
  then show ?case by (simp add: memFsync_def)
next
  case (reach_close n st h st' e)
  then show ?case using memClose_state [OF reach_close.hyps(2)] by (auto intro: mem_inv_frame [of st])
next
  case (reach_stat n st t st' r')
  then have st: "mem_inv st" "mem_nextH st = int n" by simp_all
  from memStat_ok [where sizeOf = sizeOf and t = t, OF st(1)] reach_stat
  have "mem_inv st'" "memRoom st' = memRoom st" by (auto simp: size_okD)
  then show ?case using st memRoom_nextH [of st] memRoom_nextH [of st'] by simp
qed

section \<open>Properties\<close>

text \<open>
  C17: after any sequence of calls the engine's tables are consistent (every reference points
  into the store, distinct targets have distinct objects, every handle points to its target's
  object), and the next \<open>Open\<close> succeeds with a handle that is not in use, leaves every open
  handle as it was, and changes the contents of no target.
\<close>

theorem mem_open_fresh:
  assumes "mem_reach sizeOf n st" "size_ok sizeOf" "int n + 1 < 2 ^ 63"
  shows "mem_inv st \<and> (\<exists>st' h. memOpen sizeOf t m f st = Some (st', Inr h) \<and> memOpened st h = None
    \<and> memOpened st' = (memOpened st)(h \<mapsto> t) \<and> memContents sizeOf st' = memContents sizeOf st)"
proof -
  have st: "mem_inv st" "mem_nextH st = int n" using mem_reach_inv [OF assms(1,2)] assms(3) by simp_all
  then have "0 < memRoom st" using assms(3) by (simp add: memRoom_def)
  with st(1) memOpen_ok [where sizeOf = sizeOf and t = t and m = m and f = f, OF st(1) size_okD [OF assms(2)] this]
  show ?thesis by blast
qed

theorem mem_open_fresh_witness:
  "mem_inv memNew \<and> (\<exists>st' h. memOpen (withFixedSize 4) ''a'' ModeRead 0 memNew = Some (st', Inr h)
    \<and> memOpened memNew h = None \<and> memOpened st' = (memOpened memNew)(h \<mapsto> ''a'')
    \<and> memContents (withFixedSize 4) st' = memContents (withFixedSize 4) memNew)"
  by (rule mem_open_fresh [OF reach_new]) (simp_all add: size_ok_def withFixedSize_def)


text \<open>The engine with one target open twice, as a concrete reachable state.\<close>

definition twice_open :: mem_state where
  "twice_open = \<lparr>mem_objects = [(''a'', 0)], mem_store = [[0, 0, 0, 0]],
     mem_handles = [(1, \<lparr>oh_target = ''a'', oh_mode = ModeWrite, oh_obj = 0\<rparr>),
       (2, \<lparr>oh_target = ''a'', oh_mode = ModeRead, oh_obj = 0\<rparr>)], mem_nextH = 2\<rparr>"

lemma twice_open_reach: "mem_reach (withFixedSize 4) (Suc (Suc 0)) twice_open"
proof (rule reach_open [OF reach_open [OF reach_new]])
  show "memOpen (withFixedSize 4) ''a'' ModeWrite 0 memNew = Some
      (\<lparr>mem_objects = [(''a'', 0)], mem_store = [[0, 0, 0, 0]],
        mem_handles = [(1, \<lparr>oh_target = ''a'', oh_mode = ModeWrite, oh_obj = 0\<rparr>)], mem_nextH = 1\<rparr>, Inr 1)"
    by code_simp
  show "memOpen (withFixedSize 4) ''a'' ModeRead 0
      \<lparr>mem_objects = [(''a'', 0)], mem_store = [[0, 0, 0, 0]],
        mem_handles = [(1, \<lparr>oh_target = ''a'', oh_mode = ModeWrite, oh_obj = 0\<rparr>)], mem_nextH = 1\<rparr>
      = Some (twice_open, Inr 2)"
    by code_simp
qed


end
