(* ===== verification/Dispatch.thy ===== *)
theory Dispatch
  imports Mem "HOL-Library.Monad_Syntax"
begin

text \<open>
  Executing one op against a backend: \<open>dispatchOp\<close> and its helpers
  (\<open>pkg/replay/scheduler.go\<close>) and the object pipe (\<open>pkg/replay/objectwrite.go\<close>).
  A nil dereference, an index out of range or a slice bound out of range is \<open>None\<close>; a call
  that returns gives the backend's new state, the stream's handle map and buffer, and the
  three results \<open>bytesN\<close>, \<open>shortRead\<close>, \<open>opErr\<close>.
\<close>

section \<open>Transfer checks\<close>

definition validTransferredBytes :: "int \<Rightarrow> int \<Rightarrow> int" where
  "validTransferredBytes n requested = (if n < 0 then 0 else if n > requested then requested else n)"

definition checkedReadTransfer :: "int \<Rightarrow> int \<Rightarrow> int \<Rightarrow> engine_error option \<Rightarrow> int \<times> bool \<times> engine_error option" where
  "checkedReadTransfer n requested expected err =
     (let bytesN = validTransferredBytes n requested in
      if n < 0 \<or> n > requested
      then (bytesN, True, Some (Errorf ''engine returned invalid read count %d for %d requested bytes'' [n, requested]))
      else if n \<noteq> expected
      then (bytesN, True,
        if err = None
        then Some (Wrap ''%w: completed %d of %d expected bytes (%d requested)'' [n, expected, requested] ErrShortRead)
        else err)
      else (bytesN, False, if errIs err ErrShortRead then None else err))"

definition checkedWriteTransfer :: "int \<Rightarrow> int \<Rightarrow> engine_error option \<Rightarrow> int \<times> engine_error option" where
  "checkedWriteTransfer n requested err =
     (let bytesN = validTransferredBytes n requested in
      if n < 0 \<or> n > requested
      then (bytesN, Some (Errorf ''engine returned invalid write count %d for %d requested bytes'' [n, requested]))
      else (bytesN,
        if n \<noteq> requested \<and> err = None
        then Some (Wrap ''%w: completed %d of %d requested bytes'' [n, requested] ErrShortWrite) else err))"

section \<open>Open flags and buffers\<close>

fun parseOpenFlagsLoop :: "open_flags \<Rightarrow> string list \<Rightarrow> open_flags" where
  "parseOpenFlagsLoop f [] = f"
| "parseOpenFlagsLoop f (s # ss) = parseOpenFlagsLoop
     (if s = ''direct'' then f OR OpenFlagDirect
      else if s = ''seq'' then f OR OpenFlagSeq
      else if s = ''rand'' then f OR OpenFlagRand
      else if s = ''sync'' then f OR OpenFlagSync
      else if s = ''append'' then f OR OpenFlagAppend
      else if s = ''create'' then f OR OpenFlagCreate
      else if s = ''trunc'' then f OR OpenFlagTrunc
      else f) ss"

definition parseOpenFlags :: "string list \<Rightarrow> open_flags" where
  "parseOpenFlags flags = parseOpenFlagsLoop OpenFlagNone flags"

definition growBuf :: "byte list \<Rightarrow> int \<Rightarrow> byte list" where
  "growBuf buf need = (if int (length buf) \<ge> need then buf else replicate (nat need) 0)"

text \<open>The slice \<open>buf[:n]\<close> and the buffer after its bytes were replaced.\<close>

definition bufSlice :: "byte list \<Rightarrow> int \<Rightarrow> byte list option" where
  "bufSlice buf n = (if n < 0 \<or> n > int (length buf) then None else Some (take (nat n) buf))"

definition bufPut :: "byte list \<Rightarrow> byte list \<Rightarrow> byte list" where
  "bufPut buf front = front @ drop (length front) buf"

section \<open>The object pipe\<close>

text \<open>\<open>pipe_ended\<close> is the result of a \<open>Put\<close> that returned before its reader was drained.\<close>

record object_pipe =
  pipe_key :: string
  pipe_size :: int
  pipe_fed :: "byte list"
  pipe_ended :: "engine_error option option"

record replay_handle =
  rh_handle :: handle
  rh_target :: string
  rh_objWrite :: "object_pipe option"

definition zero_replay_handle :: replay_handle where
  "zero_replay_handle = \<lparr>rh_handle = 0, rh_target = [], rh_objWrite = None\<rparr>"

type_synonym handle_map = "(int \<times> replay_handle) list"

definition lookupRH :: "handle_map \<Rightarrow> int \<Rightarrow> replay_handle" where
  "lookupRH hm h = (case map_of hm h of Some rh \<Rightarrow> rh | None \<Rightarrow> zero_replay_handle)"

definition startObjectPut :: "string \<Rightarrow> int \<Rightarrow> object_pipe" where
  "startObjectPut key n = \<lparr>pipe_key = key, pipe_size = n, pipe_fed = [], pipe_ended = None\<rparr>"

text \<open>What \<open>io.PipeWriter.Write\<close> reports once the read side was closed with \<open>e\<close>.\<close>

definition closedWith :: "engine_error option \<Rightarrow> engine_error" where
  "closedWith e = (case e of None \<Rightarrow> ErrClosedPipe | Some x \<Rightarrow> x)"

definition pipe_write :: "('s, 'z) engine_scheme \<Rightarrow> object_pipe \<Rightarrow> byte list \<Rightarrow> 's \<Rightarrow> object_pipe \<times> int \<times> engine_error option" where
  "pipe_write eng p bs s =
     (case pipe_ended p of
        Some e \<Rightarrow> (p, 0, Some (closedWith e))
      | None \<Rightarrow>
          (let offered = pipe_fed p @ bs in
           case eng_put_early eng (pipe_key p) (pipe_size p) offered s of
             None \<Rightarrow> (p\<lparr>pipe_fed := offered\<rparr>, int (length bs), None)
           | Some (k, e) \<Rightarrow>
               let n = k - length (pipe_fed p) in
               (p\<lparr>pipe_fed := take k offered, pipe_ended := Some e\<rparr>, int n,
                if bs \<noteq> [] \<and> n = length bs then None else Some (closedWith e))))"

definition pipe_finish :: "('s, 'z) engine_scheme \<Rightarrow> object_pipe \<Rightarrow> 's \<Rightarrow> ('s \<times> engine_error option) option" where
  "pipe_finish eng p s =
     (case pipe_ended p of
        Some e \<Rightarrow> Some (s, e)
      | None \<Rightarrow> eng_put eng (pipe_key p) (pipe_fed p) (pipe_size p) s)"

section \<open>Dispatch\<close>

record 's dispatched =
  d_state :: 's
  d_handles :: handle_map
  d_buf :: "byte list"
  d_bytes :: int
  d_short :: bool
  d_err :: "engine_error option"

definition result :: "'s \<Rightarrow> handle_map \<Rightarrow> byte list \<Rightarrow> int \<Rightarrow> bool \<Rightarrow> engine_error option \<Rightarrow> 's dispatched" where
  "result s hm buf n short err =
     \<lparr>d_state = s, d_handles = hm, d_buf = buf, d_bytes = n, d_short = short, d_err = err\<rparr>"

lemma result_simps [simp]:
  "d_state (result s hm buf n sh e) = s" "d_handles (result s hm buf n sh e) = hm"
  "d_buf (result s hm buf n sh e) = buf" "d_bytes (result s hm buf n sh e) = n"
  "d_short (result s hm buf n sh e) = sh" "d_err (result s hm buf n sh e) = e"
  by (simp_all add: result_def)

text \<open>\<open>hdr.Targets[*op.Tgt].Name\<close>.\<close>

definition targetNameOf :: "header \<Rightarrow> op \<Rightarrow> string option" where
  "targetNameOf hdr x =
     (case op_tgt x of None \<Rightarrow> None
      | Some i \<Rightarrow> if 0 \<le> i \<and> i < int (length (hdr_targets hdr)) then Some (ti_name (hdr_targets hdr ! nat i)) else None)"

definition opIDof :: "op \<Rightarrow> int" where
  "opIDof x = (case op_id x of None \<Rightarrow> 0 | Some i \<Rightarrow> i)"

definition stringBytes :: "string \<Rightarrow> byte list" where
  "stringBytes s = map of_char s"

text \<open>\<open>expected, _ := op.TransferredBytes()\<close>, with Go's zero when there is no count.\<close>

definition expectedBytes :: "op \<Rightarrow> int" where
  "expectedBytes x = (case transferredBytes x of None \<Rightarrow> 0 | Some n \<Rightarrow> n)"

definition dispatchOpen :: "('s, 'z) engine_scheme \<Rightarrow> header \<Rightarrow> (int \<times> int) list \<Rightarrow> op \<Rightarrow> 's \<Rightarrow> handle_map \<Rightarrow> byte list
    \<Rightarrow> 's dispatched option" where
  "dispatchOpen eng hdr objSizes x s hm buf =
     do { name \<leftarrow> targetNameOf hdr x;
          tgt \<leftarrow> op_tgt x;
          (case (if op_mode x = ModeWrite then map_of objSizes tgt else None) of
             Some n \<Rightarrow>
               do { h \<leftarrow> op_h x;
                    Some (result s (AList.update h
                       \<lparr>rh_handle = 0, rh_target = name, rh_objWrite = Some (startObjectPut name n)\<rparr> hm)
                       buf 0 False None) }
           | None \<Rightarrow>
               do { (s', r) \<leftarrow> eng_open eng name (op_mode x) (parseOpenFlags (op_flags x)) s;
                    (case r of
                       Inl e \<Rightarrow> Some (result s' hm buf 0 False (Some e))
                     | Inr eh \<Rightarrow>
                         do { h \<leftarrow> op_h x;
                              Some (result s' (AList.update h
                                \<lparr>rh_handle = eh, rh_target = name, rh_objWrite = None\<rparr> hm)
                                buf 0 False None) }) }) }"

definition dispatchRead :: "('s, 'z) engine_scheme \<Rightarrow> op \<Rightarrow> 's \<Rightarrow> handle_map \<Rightarrow> byte list \<Rightarrow> 's dispatched option" where
  "dispatchRead eng x s hm buf =
     do { h \<leftarrow> op_h x;
          off \<leftarrow> op_off x;
          requested \<leftarrow> op_len x;
          let buf1 = growBuf buf requested;
          front \<leftarrow> bufSlice buf1 requested;
          (s', front', n, err) \<leftarrow> eng_read eng (rh_handle (lookupRH hm h)) off requested front s;
          let (bytesN, short, opErr) = checkedReadTransfer n requested (expectedBytes x) err;
          Some (result s' hm (bufPut buf1 front') bytesN short opErr) }"

definition dispatchWrite :: "('s, 'z) engine_scheme \<Rightarrow> fill_config \<Rightarrow> op \<Rightarrow> 's \<Rightarrow> handle_map \<Rightarrow> byte list \<Rightarrow> 's dispatched option" where
  "dispatchWrite eng cfg x s hm buf =
     do { h \<leftarrow> op_h x;
          let rh = lookupRH hm h;
          off \<leftarrow> op_off x;
          len \<leftarrow> op_len x;
          let buf1 = growBuf buf len;
          front \<leftarrow> bufSlice buf1 len;
          let bytes = fill front cfg (of_int (opIDof x)) (stringBytes (rh_target rh)) (of_int off);
          (case rh_objWrite rh of
             Some p \<Rightarrow>
               let (p', n, err) = pipe_write eng p bytes s;
                   (bytesN, opErr) = checkedWriteTransfer n len err
               in Some (result s (AList.update h (rh\<lparr>rh_objWrite := Some p'\<rparr>) hm) (bufPut buf1 bytes) bytesN False opErr)
           | None \<Rightarrow>
               do { (s', n, err) \<leftarrow> eng_write eng (rh_handle rh) off bytes s;
                    let (bytesN, opErr) = checkedWriteTransfer n len err;
                    Some (result s' hm (bufPut buf1 bytes) bytesN False opErr) }) }"

definition dispatchFsync :: "('s, 'z) engine_scheme \<Rightarrow> op \<Rightarrow> 's \<Rightarrow> handle_map \<Rightarrow> byte list \<Rightarrow> 's dispatched option" where
  "dispatchFsync eng x s hm buf =
     do { h \<leftarrow> op_h x;
          let rh = lookupRH hm h;
          (case rh_objWrite rh of
             Some _ \<Rightarrow> Some (result s hm buf 0 False None)
           | None \<Rightarrow> do { (s', err) \<leftarrow> eng_fsync eng (rh_handle rh) s;
                        Some (result s' hm buf 0 False err) }) }"

definition dispatchClose :: "('s, 'z) engine_scheme \<Rightarrow> op \<Rightarrow> 's \<Rightarrow> handle_map \<Rightarrow> byte list \<Rightarrow> 's dispatched option" where
  "dispatchClose eng x s hm buf =
     do { h \<leftarrow> op_h x;
          let rh = lookupRH hm h;
          (s', err) \<leftarrow> (case rh_objWrite rh of
             Some p \<Rightarrow> pipe_finish eng p s
           | None \<Rightarrow> eng_close eng (rh_handle rh) s);
          Some (result s' (if err = None then AList.delete h hm else hm) buf 0 False err) }"

definition errOf :: "engine_error + 'a \<Rightarrow> engine_error option" where
  "errOf r = (case r of Inl e \<Rightarrow> Some e | Inr _ \<Rightarrow> None)"

definition dispatchStat :: "('s, 'z) engine_scheme \<Rightarrow> header \<Rightarrow> op \<Rightarrow> 's \<Rightarrow> handle_map \<Rightarrow> byte list \<Rightarrow> 's dispatched option" where
  "dispatchStat eng hdr x s hm buf =
     do { name \<leftarrow> targetNameOf hdr x;
          (s', r) \<leftarrow> eng_stat eng name s;
          Some (result s' hm buf 0 False (errOf r)) }"

definition dispatchPut :: "('s, 'z) engine_scheme \<Rightarrow> header \<Rightarrow> fill_config \<Rightarrow> op \<Rightarrow> 's \<Rightarrow> handle_map \<Rightarrow> byte list \<Rightarrow> 's dispatched option" where
  "dispatchPut eng hdr cfg x s hm buf =
     do { key \<leftarrow> targetNameOf hdr x;
          len \<leftarrow> op_len x;
          let buf1 = growBuf buf len;
          front \<leftarrow> bufSlice buf1 len;
          let bytes = fill front cfg (of_int (opIDof x)) (stringBytes key) 0;
          (s', err) \<leftarrow> eng_put eng key bytes len s;
          Some (result s' hm (bufPut buf1 bytes) (if err = None then len else 0) False err) }"

definition dispatchGet :: "('s, 'z) engine_scheme \<Rightarrow> header \<Rightarrow> op \<Rightarrow> 's \<Rightarrow> handle_map \<Rightarrow> byte list \<Rightarrow> 's dispatched option" where
  "dispatchGet eng hdr x s hm buf =
     do { key \<leftarrow> targetNameOf hdr x;
          off \<leftarrow> op_off x;
          requested \<leftarrow> op_len x;
          let buf1 = growBuf buf requested;
          front \<leftarrow> bufSlice buf1 requested;
          (s', front', n, err) \<leftarrow> eng_get eng key off requested front s;
          let (bytesN, short, opErr) = checkedReadTransfer n requested (expectedBytes x) err;
          Some (result s' hm (bufPut buf1 front') bytesN short opErr) }"

definition dispatchHead :: "('s, 'z) engine_scheme \<Rightarrow> header \<Rightarrow> op \<Rightarrow> 's \<Rightarrow> handle_map \<Rightarrow> byte list \<Rightarrow> 's dispatched option" where
  "dispatchHead eng hdr x s hm buf =
     do { name \<leftarrow> targetNameOf hdr x;
          (s', r) \<leftarrow> eng_head eng name s;
          Some (result s' hm buf 0 False (errOf r)) }"

definition dispatchDelete :: "('s, 'z) engine_scheme \<Rightarrow> header \<Rightarrow> op \<Rightarrow> 's \<Rightarrow> handle_map \<Rightarrow> byte list \<Rightarrow> 's dispatched option" where
  "dispatchDelete eng hdr x s hm buf =
     do { name \<leftarrow> targetNameOf hdr x;
          (s', err) \<leftarrow> eng_delete eng name s;
          Some (result s' hm buf 0 False err) }"

definition dispatchOp :: "('s, 'z) engine_scheme \<Rightarrow> header \<Rightarrow> fill_config \<Rightarrow> (int \<times> int) list \<Rightarrow> op \<Rightarrow> 's \<Rightarrow> handle_map \<Rightarrow> byte list
    \<Rightarrow> 's dispatched option" where
  "dispatchOp eng hdr cfg objSizes x s hm buf =
     (case op_op x of
        OpOpen \<Rightarrow> dispatchOpen eng hdr objSizes x s hm buf
      | OpRead \<Rightarrow> dispatchRead eng x s hm buf
      | OpWrite \<Rightarrow> dispatchWrite eng cfg x s hm buf
      | OpFsync \<Rightarrow> dispatchFsync eng x s hm buf
      | OpClose \<Rightarrow> dispatchClose eng x s hm buf
      | OpStat \<Rightarrow> dispatchStat eng hdr x s hm buf
      | OpPut \<Rightarrow> dispatchPut eng hdr cfg x s hm buf
      | OpGet \<Rightarrow> dispatchGet eng hdr x s hm buf
      | OpHead \<Rightarrow> dispatchHead eng hdr x s hm buf
      | OpDelete \<Rightarrow> dispatchDelete eng hdr x s hm buf
      | OpOther _ \<Rightarrow> Some (result s hm buf 0 False None))"

section \<open>Accounting\<close>

lemma validTransferredBytes_bounds:
  "0 \<le> requested \<Longrightarrow> 0 \<le> validTransferredBytes n requested \<and> validTransferredBytes n requested \<le> requested"
  by (simp add: validTransferredBytes_def)

lemma checkedRead_bytes: "fst (checkedReadTransfer n requested expected err) = validTransferredBytes n requested"
  by (simp add: checkedReadTransfer_def Let_def)

lemma checkedWrite_bytes: "fst (checkedWriteTransfer n requested err) = validTransferredBytes n requested"
  by (simp add: checkedWriteTransfer_def Let_def)

lemma dispatchRead_result:
  assumes "dispatchRead eng x s hm buf = Some r"
  shows "\<exists>n requested err. op_len x = Some requested \<and> 0 \<le> requested
    \<and> checkedReadTransfer n requested (expectedBytes x) err = (d_bytes r, d_short r, d_err r)"
  using assms by (auto simp: dispatchRead_def bufSlice_def Let_def split: bind_splits if_splits prod.splits; blast)

lemma dispatchGet_result:
  assumes "dispatchGet eng hdr x s hm buf = Some r"
  shows "\<exists>n requested err. op_len x = Some requested \<and> 0 \<le> requested
    \<and> checkedReadTransfer n requested (expectedBytes x) err = (d_bytes r, d_short r, d_err r)"
  using assms by (auto simp: dispatchGet_def bufSlice_def Let_def split: bind_splits if_splits prod.splits; blast)

lemma dispatchWrite_result:
  assumes "dispatchWrite eng cfg x s hm buf = Some r"
  shows "\<not> d_short r \<and> (\<exists>n requested err. op_len x = Some requested \<and> 0 \<le> requested
    \<and> checkedWriteTransfer n requested err = (d_bytes r, d_err r))"
  using assms
  by (auto simp: dispatchWrite_def bufSlice_def Let_def split: bind_splits if_splits prod.splits option.splits; blast)

lemma dispatch_quiet:
  assumes "dispatchOp eng hdr cfg objSizes x s hm buf = Some r"
    "op_op x \<notin> {OpRead, OpWrite, OpPut, OpGet}"
  shows "d_bytes r = 0 \<and> \<not> d_short r"
  using assms
  by (cases "op_op x") (auto simp: dispatchOp_def dispatchOpen_def dispatchFsync_def dispatchClose_def dispatchStat_def
    dispatchHead_def dispatchDelete_def Let_def split: bind_splits option.splits sum.splits if_splits)

lemma dispatchPut_result:
  assumes "dispatchPut eng hdr cfg x s hm buf = Some r"
  shows "\<not> d_short r \<and> (\<exists>len. op_len x = Some len \<and> 0 \<le> len \<and> d_bytes r = (if d_err r = None then len else 0))"
  using assms by (auto simp: dispatchPut_def bufSlice_def Let_def split: bind_splits if_splits)

lemma checkedRead_facts:
  "checkedReadTransfer n req expected err = (b, sh, e) \<Longrightarrow> 0 \<le> req \<Longrightarrow> 0 \<le> b \<and> b \<le> req \<and> (sh \<longrightarrow> e \<noteq> None)"
  by (auto simp: checkedReadTransfer_def validTransferredBytes_def Let_def split: if_splits)

lemma checkedWrite_facts: "checkedWriteTransfer n req err = (b, e) \<Longrightarrow> 0 \<le> req \<Longrightarrow> 0 \<le> b \<and> b \<le> req"
  by (auto simp: checkedWriteTransfer_def validTransferredBytes_def Let_def split: if_splits)

text \<open>The most an op can transfer.\<close>

definition requestOf :: "op \<Rightarrow> int" where
  "requestOf x = (if op_op x \<in> {OpRead, OpWrite, OpPut, OpGet} then (case op_len x of None \<Rightarrow> 0 | Some n \<Rightarrow> n) else 0)"

lemma dispatch_bytes:
  assumes "dispatchOp eng hdr cfg objSizes x s hm buf = Some r"
  shows "0 \<le> d_bytes r \<and> d_bytes r \<le> requestOf x \<and> (d_short r \<longrightarrow> d_err r \<noteq> None)"
proof (cases "op_op x \<in> {OpRead, OpWrite, OpPut, OpGet}")
  case False
  with dispatch_quiet [OF assms this] show ?thesis by (simp add: requestOf_def)
next
  case True
  then consider "op_op x = OpRead" | "op_op x = OpWrite" | "op_op x = OpPut" | "op_op x = OpGet" by blast
  then show ?thesis
  proof cases
    case 1
    with assms have "dispatchRead eng x s hm buf = Some r" by (simp add: dispatchOp_def)
    from dispatchRead_result [OF this] 1 show ?thesis by (auto simp: requestOf_def dest: checkedRead_facts)
  next
    case 2
    with assms have "dispatchWrite eng cfg x s hm buf = Some r" by (simp add: dispatchOp_def)
    from dispatchWrite_result [OF this] 2 show ?thesis by (auto simp: requestOf_def dest: checkedWrite_facts)
  next
    case 3
    with assms have "dispatchPut eng hdr cfg x s hm buf = Some r" by (simp add: dispatchOp_def)
    from dispatchPut_result [OF this] 3 show ?thesis by (auto simp: requestOf_def)
  next
    case 4
    with assms have "dispatchGet eng hdr x s hm buf = Some r" by (simp add: dispatchOp_def)
    from dispatchGet_result [OF this] 4 show ?thesis by (auto simp: requestOf_def dest: checkedRead_facts)
  qed
qed

section \<open>Dispatch on a file backend\<close>

lemma bufSlice_grow: "0 \<le> n \<Longrightarrow> bufSlice (growBuf buf n) n = Some (take (nat n) (growBuf buf n))"
  by (simp add: bufSlice_def growBuf_def)

lemma length_slice: "0 \<le> n \<Longrightarrow> int (length (take (nat n) (growBuf buf n))) = n"
  by (simp add: growBuf_def)

lemma checkedRead_exact:
  "0 \<le> n \<Longrightarrow> n \<le> req \<Longrightarrow> err = None \<or> err = Some ErrShortRead \<Longrightarrow>
     checkedReadTransfer n req n err = (n, False, None)"
  by (auto simp: checkedReadTransfer_def validTransferredBytes_def Let_def)

lemma checkedWrite_exact: "0 \<le> n \<Longrightarrow> checkedWriteTransfer n n None = (n, None)"
  by (simp add: checkedWriteTransfer_def validTransferredBytes_def Let_def)

text \<open>The bytes an op writes: \<open>Fill\<close> overwrites its whole buffer.\<close>

definition payloadOf :: "fill_config \<Rightarrow> op \<Rightarrow> string \<Rightarrow> int \<Rightarrow> int \<Rightarrow> byte list" where
  "payloadOf cfg x target off len =
     fill (replicate (nat len) 0) cfg (of_int (opIDof x)) (stringBytes target) (of_int off)"

lemma fill_length_only: "length a = length b \<Longrightarrow> fill a cfg i t off = fill b cfg i t off"
  by (cases "fc_mode (normalizeFill cfg) = FillZero", simp add: fill_def Let_def) (simp add: fill_bytes)

lemma length_fill [simp]: "length (fill a cfg i t off) = length a"
  by (cases "fc_mode (normalizeFill cfg) = FillZero", simp add: fill_def Let_def) (simp add: fill_bytes)

lemma length_payloadOf [simp]: "length (payloadOf cfg x t off len) = nat len"
  by (simp add: payloadOf_def)

context file_backend
begin

lemma dispatch_open:
  assumes "inv s" "0 < room s" "op_op x = OpOpen" "targetNameOf hdr x = Some t" "op_tgt x = Some i"
    "op_h x = Some h" "map_of objSizes i = None"
  shows "\<exists>s' eh. dispatchOp eng hdr cfg objSizes x s hm buf =
      Some (result s' (AList.update h \<lparr>rh_handle = eh, rh_target = t, rh_objWrite = None\<rparr> hm) buf 0 False None)
    \<and> inv s' \<and> room s' = room s - 1 \<and> contents s' = contents s \<and> opened s eh = None
    \<and> opened s' = (opened s)(eh \<mapsto> t)"
proof -
  obtain s' eh where "eng_open eng t (op_mode x) (parseOpenFlags (op_flags x)) s = Some (s', Inr eh)"
    and s': "inv s' \<and> room s' = room s - 1 \<and> contents s' = contents s \<and> opened s eh = None
      \<and> opened s' = (opened s)(eh \<mapsto> t)"
    using open_ok [OF assms(1,2), of t "op_mode x" "parseOpenFlags (op_flags x)"] by blast
  then have "dispatchOp eng hdr cfg objSizes x s hm buf =
      Some (result s' (AList.update h \<lparr>rh_handle = eh, rh_target = t, rh_objWrite = None\<rparr> hm) buf 0 False None)"
    using assms(3-7) by (cases "op_mode x = ModeWrite") (simp_all add: dispatchOp_def dispatchOpen_def)
  with s' show ?thesis by blast
qed

lemma dispatch_read:
  assumes "inv s" "op_op x = OpRead" "op_h x = Some h" "map_of hm h = Some rh" "opened s (rh_handle rh) = Some t"
    "op_off x = Some off" "op_len x = Some len" "0 \<le> off" "0 \<le> len" "off + len < 2 ^ 63"
    "expectedBytes x = int (length (file_read (contents s t) off len))"
  shows "\<exists>buf'. dispatchOp eng hdr cfg objSizes x s hm buf = Some (result s hm buf' (expectedBytes x) False None)"
proof -
  let ?front = "take (nat len) (growBuf buf len)" and ?n = "int (length (file_read (contents s t) off len))"
  obtain b' e where r: "eng_read eng (rh_handle rh) off len ?front s = Some (s, b', ?n, e)"
    "e = None \<or> e = Some ErrShortRead"
    using read_ok [OF assms(1,5,8-10) length_slice [OF assms(9)]] by blast
  have "?n \<le> len" using assms(9) by (simp add: file_read_def)
  then have "checkedReadTransfer ?n len ?n e = (?n, False, None)" using r(2) by (simp add: checkedRead_exact)
  then show ?thesis
    using assms r(1) by (simp add: dispatchOp_def dispatchRead_def lookupRH_def bufSlice_grow) blast
qed

lemma dispatch_write:
  assumes "inv s" "op_op x = OpWrite" "op_h x = Some h" "map_of hm h = Some rh" "opened s (rh_handle rh) = Some t"
    "rh_objWrite rh = None" "op_off x = Some off" "op_len x = Some len" "0 \<le> off" "0 \<le> len" "off + len < 2 ^ 63"
  shows "\<exists>s' buf'. dispatchOp eng hdr cfg objSizes x s hm buf = Some (result s' hm buf' len False None)
    \<and> inv s' \<and> room s' = room s \<and> opened s' = opened s
    \<and> contents s' = (contents s)(t := file_write (contents s t) off (payloadOf cfg x (rh_target rh) off len))"
proof -
  let ?front = "take (nat len) (growBuf buf len)"
  let ?bs = "payloadOf cfg x (rh_target rh) off len"
  have f: "fill ?front cfg (of_int (opIDof x)) (stringBytes (rh_target rh)) (of_int off) = ?bs"
    unfolding payloadOf_def by (rule fill_length_only) (use length_slice [OF assms(10), of buf] in simp)
  have n: "int (length ?bs) = len" using assms(10) by simp
  obtain s' where w: "eng_write eng (rh_handle rh) off ?bs s = Some (s', len, None)" and s': "inv s'" "room s' = room s"
    "opened s' = opened s" "contents s' = (contents s)(t := file_write (contents s t) off ?bs)"
    using write_ok [OF assms(1,5,9), of ?bs] assms(11) unfolding n by blast
  have "\<exists>buf'. dispatchOp eng hdr cfg objSizes x s hm buf = Some (result s' hm buf' len False None)"
    using assms w f by (simp add: dispatchOp_def dispatchWrite_def lookupRH_def bufSlice_grow checkedWrite_exact Let_def) blast
  with s' show ?thesis by blast
qed

lemma dispatch_close:
  assumes "inv s" "op_op x = OpClose" "op_h x = Some h" "map_of hm h = Some rh" "opened s (rh_handle rh) = Some t"
    "rh_objWrite rh = None"
  shows "\<exists>s'. dispatchOp eng hdr cfg objSizes x s hm buf = Some (result s' (AList.delete h hm) buf 0 False None)
    \<and> inv s' \<and> room s' = room s \<and> contents s' = contents s \<and> opened s' = (opened s)(rh_handle rh := None)"
  using close_ok [OF assms(1,5)] assms(2-4,6)
  by (auto simp: dispatchOp_def dispatchClose_def lookupRH_def Let_def)

lemma dispatch_stat:
  assumes "inv s" "op_op x = OpStat" "targetNameOf hdr x = Some t"
  shows "\<exists>s'. dispatchOp eng hdr cfg objSizes x s hm buf = Some (result s' hm buf 0 False None)
    \<and> inv s' \<and> room s' = room s \<and> contents s' = contents s \<and> opened s' = opened s"
  using stat_ok [OF assms(1), of t] assms(2,3) by (auto simp: dispatchOp_def dispatchStat_def errOf_def)

end

section \<open>Open flags\<close>

definition flag_names :: "string list" where
  "flag_names = [''direct'', ''seq'', ''rand'', ''sync'', ''append'', ''create'', ''trunc'']"

lemma bit_single: "n < 32 \<Longrightarrow> bit (push_bit n 1 :: open_flags) k \<longleftrightarrow> k = n"
  by (auto simp: bit_exp_iff)

lemma open_flag_bit [simp]:
  "bit OpenFlagDirect k \<longleftrightarrow> k = 0" "bit OpenFlagSeq k \<longleftrightarrow> k = 1" "bit OpenFlagRand k \<longleftrightarrow> k = 2"
  "bit OpenFlagSync k \<longleftrightarrow> k = 3" "bit OpenFlagAppend k \<longleftrightarrow> k = 4" "bit OpenFlagCreate k \<longleftrightarrow> k = 5"
  "bit OpenFlagTrunc k \<longleftrightarrow> k = 6"
  by (simp_all only: open_flag_defs bit_single)

lemma parseOpenFlagsLoop_step:
  "\<exists>g. parseOpenFlagsLoop f (s # fs) = parseOpenFlagsLoop g fs
     \<and> (\<forall>k. bit g k \<longleftrightarrow> bit f k \<or> (k < 7 \<and> flag_names ! k = s))"
proof -
  have names: "k < 7 \<and> flag_names ! k = s \<longleftrightarrow>
      (k = 0 \<and> s = ''direct'') \<or> (k = 1 \<and> s = ''seq'') \<or> (k = 2 \<and> s = ''rand'') \<or> (k = 3 \<and> s = ''sync'')
      \<or> (k = 4 \<and> s = ''append'') \<or> (k = 5 \<and> s = ''create'') \<or> (k = 6 \<and> s = ''trunc'')" for k
  proof -
    consider "k = 0" | "k = 1" | "k = 2" | "k = 3" | "k = 4" | "k = 5" | "k = 6" | "7 \<le> k" by linarith
    then show ?thesis by cases (auto simp: flag_names_def)
  qed
  show ?thesis unfolding names parseOpenFlagsLoop.simps
    by (intro exI conjI, rule refl) (simp add: bit_or_iff)
qed

lemma parseOpenFlagsLoop_bit:
  "bit (parseOpenFlagsLoop f fs) k \<longleftrightarrow> bit f k \<or> (k < 7 \<and> flag_names ! k \<in> set fs)"
proof (induction fs arbitrary: f)
  case (Cons s fs)
  obtain g where "parseOpenFlagsLoop f (s # fs) = parseOpenFlagsLoop g fs"
    "\<forall>k. bit g k \<longleftrightarrow> bit f k \<or> (k < 7 \<and> flag_names ! k = s)" using parseOpenFlagsLoop_step by blast
  with Cons.IH [of g] show ?case by auto
qed simp

section \<open>Properties\<close>

text \<open>
  An engine's read result is accepted exactly when its count is possible for the request
  and equal to the count the trace recorded, and its error is none or the short-read
  sentinel; every other outcome fails the op, and the op is marked as a short read exactly
  when the counts disagree. The bytes credited are the count clamped to the request.
\<close>

lemma read_transfer_verdict:
  "checkedReadTransfer n requested expected err = (bytesN, short, opErr) \<longleftrightarrow>
     bytesN = validTransferredBytes n requested
     \<and> short = (\<not> (0 \<le> n \<and> n \<le> requested \<and> n = expected))
     \<and> opErr = (if \<not> (0 \<le> n \<and> n \<le> requested)
         then Some (Errorf ''engine returned invalid read count %d for %d requested bytes'' [n, requested])
         else if n = expected then (if errIs err ErrShortRead then None else err)
         else if err = None
         then Some (Wrap ''%w: completed %d of %d expected bytes (%d requested)'' [n, expected, requested] ErrShortRead)
         else err)"
  by (auto simp: checkedReadTransfer_def Let_def)

text \<open>
  C34: whatever an engine reports, a dispatched op is credited with between zero and its
  requested bytes (zero for an op that moves no data), and an op counted as a short read
  always carries an error.
\<close>

theorem dispatch_credit:
  assumes "dispatchOp eng hdr cfg objSizes x s hm buf = Some r"
  shows "0 \<le> d_bytes r \<and> d_bytes r \<le> requestOf x \<and> (d_short r \<longrightarrow> d_err r \<noteq> None)"
  by (rule dispatch_bytes [OF assms])

definition sample_read :: op where
  "sample_read = zero_op\<lparr>op_op := OpRead, op_h := Some 5, op_off := Some 1, op_len := Some 2\<rparr>"

definition sample_handles :: handle_map where
  "sample_handles = [(5, \<lparr>rh_handle = 2, rh_target = ''a'', rh_objWrite = None\<rparr>)]"

definition sample_fill :: fill_config where
  "sample_fill = \<lparr>fc_mode = FillZero, fc_seed = 1\<rparr>"

lemma sample_dispatch:
  "dispatchOp (memEngine (withFixedSize 4)) zero_header sample_fill [] sample_read twice_open sample_handles []
     = Some (result twice_open sample_handles [0, 0] 2 False None)"
  by code_simp

theorem dispatch_credit_witness:
  "\<exists>r. dispatchOp (memEngine (withFixedSize 4)) zero_header sample_fill [] sample_read twice_open sample_handles [] = Some r
     \<and> d_bytes r = 2 \<and> 0 \<le> d_bytes r \<and> d_bytes r \<le> requestOf sample_read"
  using dispatch_credit [OF sample_dispatch] sample_dispatch by auto

text \<open>
  The engine's open flags have exactly the bits of the flag names in the trace record,
  each at its position in \<open>OpenFlags\<close>; unknown names set nothing.
\<close>

lemma open_flags_bits:
  "bit (parseOpenFlags fs) k \<longleftrightarrow>
     k < 7 \<and> [''direct'', ''seq'', ''rand'', ''sync'', ''append'', ''create'', ''trunc''] ! k \<in> set fs"
  by (simp add: parseOpenFlags_def parseOpenFlagsLoop_bit OpenFlagNone_def flag_names_def)

end
