(* ===== verification/Targetmap.thy ===== *)
theory Targetmap
  imports Text
begin

text \<open>
  Target rewriting, \<open>pkg/targetmap/targetmap.go\<close>: rules ordered by \<open>sortedRules\<close>, the first
  match applied, the target's kind derived from the destination's URI scheme. \<open>net/url.Parse\<close>
  is the parameter \<open>parseURL\<close>: \<open>None\<close> for a parse error, else the host and the path.
\<close>

section \<open>The code\<close>

record rule =
  rule_From :: string
  rule_To :: string

record target_map =
  tm_Rules :: "rule list"
  tm_AllowPassthrough :: bool

record engine_context =
  ec_EngineKind :: string
  ec_Bucket :: string

datatype tm_error =
    TMNoRule string
  | TMInvalidURI string
  | TMBucket string string

type_synonym url_parser = "string \<Rightarrow> (string \<times> string) option"

definition isAlnum :: "char \<Rightarrow> bool" where
  "isAlnum c \<longleftrightarrow> (let n = of_char c :: nat in
     (97 \<le> n \<and> n \<le> 122) \<or> (65 \<le> n \<and> n \<le> 90) \<or> (48 \<le> n \<and> n \<le> 57)
     \<or> c = CHR ''+'' \<or> c = CHR ''-'' \<or> c = CHR ''.'')"

definition toLower :: "string \<Rightarrow> string" where
  "toLower s = map (\<lambda>c. let n = of_char c :: nat in if 65 \<le> n \<and> n \<le> 90 then char_of (n + 32) else c) s"

definition uriScheme :: "string \<Rightarrow> string" where
  "uriScheme to =
     (let idx = strIndex to ''://'' in
      if idx \<le> 0 then []
      else let scheme = take (nat idx) to in
        if list_all isAlnum scheme then toLower scheme else [])"

definition rewriteTo :: "url_parser \<Rightarrow> string \<Rightarrow> string \<Rightarrow> target_info \<Rightarrow> engine_context \<Rightarrow> tm_error + target_info" where
  "rewriteTo parseURL to suffix tgt ec =
     (let scheme = uriScheme to in
      if scheme = [] then Inr (tgt\<lparr>ti_name := to @ suffix\<rparr>)
      else if scheme = ''file'' then
        (case parseURL to of
           None \<Rightarrow> Inl (TMInvalidURI to)
         | Some (host, path) \<Rightarrow> Inr (tgt\<lparr>ti_name := path @ suffix\<rparr>))
      else if scheme = ''s3'' then
        (case parseURL to of
           None \<Rightarrow> Inl (TMInvalidURI to)
         | Some (bucket, path) \<Rightarrow>
             if ec_Bucket ec \<noteq> [] \<and> bucket \<noteq> ec_Bucket ec then Inl (TMBucket bucket (ec_Bucket ec))
             else Inr (tgt\<lparr>ti_name := trimPrefix path ''/'' @ suffix, ti_kind := TargetObject\<rparr>))
      else
        (case parseURL to of
           None \<Rightarrow> Inl (TMInvalidURI to)
         | Some (host, path) \<Rightarrow>
             Inr (tgt\<lparr>ti_name := trimPrefix path ''/'' @ suffix, ti_kind := TargetObject\<rparr>)))"

fun applyFirst :: "url_parser \<Rightarrow> rule list \<Rightarrow> target_info \<Rightarrow> engine_context \<Rightarrow> tm_error + target_info option" where
  "applyFirst parseURL [] tgt ec = Inr None"
| "applyFirst parseURL (r # rs) tgt ec =
     (if \<not> hasPrefix (ti_name tgt) (rule_From r) then applyFirst parseURL rs tgt ec
      else (case rewriteTo parseURL (rule_To r) (drop (length (rule_From r)) (ti_name tgt)) tgt ec of
              Inl e \<Rightarrow> Inl e
            | Inr res \<Rightarrow> Inr (Some res)))"

definition sortedRules :: "rule list \<Rightarrow> rule list" where
  "sortedRules rules =
     (let specific = filter (\<lambda>r. rule_From r \<noteq> []) rules;
          catchAll = filter (\<lambda>r. rule_From r = []) rules
      in sort_key (\<lambda>r. - int (length (rule_From r))) specific @ catchAll)"

text \<open>The loop over the targets, with the rewritten and the unmatched targets so far.\<close>

fun rewriteLoop :: "url_parser \<Rightarrow> target_map \<Rightarrow> rule list \<Rightarrow> engine_context \<Rightarrow> target_info list
    \<Rightarrow> target_info list \<Rightarrow> target_info list \<Rightarrow> tm_error + target_info list \<times> target_info list" where
  "rewriteLoop parseURL m ordered ec [] acc un = Inr (acc, un)"
| "rewriteLoop parseURL m ordered ec (tgt # tgts) acc un =
     (case applyFirst parseURL ordered tgt ec of
        Inl e \<Rightarrow> Inl e
      | Inr None \<Rightarrow>
          if \<not> tm_AllowPassthrough m then Inl (TMNoRule (ti_name tgt))
          else rewriteLoop parseURL m ordered ec tgts (acc @ [tgt]) (un @ [tgt])
      | Inr (Some t') \<Rightarrow> rewriteLoop parseURL m ordered ec tgts (acc @ [t']) un)"

definition rewrite :: "url_parser \<Rightarrow> target_map \<Rightarrow> target_info list \<Rightarrow> engine_context
    \<Rightarrow> tm_error + target_info list \<times> target_info list" where
  "rewrite parseURL m targets ec = rewriteLoop parseURL m (sortedRules (tm_Rules m)) ec targets [] []"

section \<open>The rule that applies\<close>

text \<open>The first rule, in file order, among those whose \<open>From\<close> is the longest matching prefix.\<close>

definition matching :: "rule list \<Rightarrow> string \<Rightarrow> rule list" where
  "matching rules name = filter (\<lambda>r. hasPrefix name (rule_From r)) rules"

definition longest :: "rule list \<Rightarrow> nat" where
  "longest rs = foldr (\<lambda>r n. max (length (rule_From r)) n) rs 0"

definition bestRule :: "rule list \<Rightarrow> string \<Rightarrow> rule option" where
  "bestRule rules name =
     (let ms = matching rules name in List.find (\<lambda>r. length (rule_From r) = longest ms) ms)"

definition rewriteBy :: "url_parser \<Rightarrow> rule list \<Rightarrow> target_info \<Rightarrow> engine_context \<Rightarrow> tm_error + target_info option" where
  "rewriteBy parseURL rules tgt ec =
     (case bestRule rules (ti_name tgt) of
        None \<Rightarrow> Inr None
      | Some r \<Rightarrow> map_sum id Some
          (rewriteTo parseURL (rule_To r) (drop (length (rule_From r)) (ti_name tgt)) tgt ec))"

lemma longest_upper: "r \<in> set rs \<Longrightarrow> length (rule_From r) \<le> longest rs"
  by (induction rs) (auto simp: longest_def)

lemma longest_attained: "rs \<noteq> [] \<Longrightarrow> \<exists>r \<in> set rs. length (rule_From r) = longest rs"
proof (induction rs)
  case (Cons r rs)
  then show ?case by (cases "rs = []") (auto simp: longest_def max_def)
qed simp

lemma applyFirst_find:
  "applyFirst parseURL rs tgt ec =
     (case List.find (\<lambda>r. hasPrefix (ti_name tgt) (rule_From r)) rs of
        None \<Rightarrow> Inr None
      | Some r \<Rightarrow> map_sum id Some
          (rewriteTo parseURL (rule_To r) (drop (length (rule_From r)) (ti_name tgt)) tgt ec))"
  by (induction rs) (auto split: sum.split)

text \<open>In a list sorted by descending length the first match is a longest one.\<close>

lemma find_filter: "List.find P xs = (case filter P xs of [] \<Rightarrow> None | x # _ \<Rightarrow> Some x)"
  by (induction xs) auto

lemma find_sorted_key:
  fixes f :: "'a \<Rightarrow> int"
  assumes "filter P xs \<noteq> []" "\<forall>x \<in> set (filter P xs). m \<le> f x" "\<exists>x \<in> set (filter P xs). f x = m"
  shows "List.find P (sort_key f xs) = List.find (\<lambda>x. f x = m) (filter P xs)"
proof -
  let ?ys = "filter P xs"
  have srt: "filter P (sort_key f xs) = sort_key f ?ys" by (simp add: filter_sort)
  have "sort_key f ?ys \<noteq> []" using assms(1) by (metis length_0_conv length_sort)
  then obtain z zs where z: "sort_key f ?ys = z # zs" by (meson neq_Nil_conv)
  have sorted: "sorted (map f (z # zs))" using sorted_sort_key [of f ?ys] z by simp
  have st: "set ?ys = set (z # zs)" using set_sort [of f ?ys] z by simp
  have fz: "f z = m"
  proof (rule antisym)
    obtain x where "x \<in> set (z # zs)" "f x = m" using assms(3) unfolding st by blast
    then show "f z \<le> m" using sorted by auto
    show "m \<le> f z" using assms(2) unfolding st by simp
  qed
  have "filter (\<lambda>x. f x = m) (sort_key f ?ys) = filter (\<lambda>x. f x = m) ?ys" by (rule sort_key_stable)
  then have "filter (\<lambda>x. f x = m) ?ys = z # filter (\<lambda>x. f x = m) zs" unfolding z using fz by simp
  then show ?thesis unfolding find_filter [of P] find_filter [of _ ?ys] srt z by (simp only: list.case)
qed

lemma find_append: "List.find P (xs @ ys) = (case List.find P xs of None \<Rightarrow> List.find P ys | Some x \<Rightarrow> Some x)"
  by (induction xs) auto

lemma find_cong: "(\<And>x. x \<in> set xs \<Longrightarrow> P x = Q x) \<Longrightarrow> List.find P xs = List.find Q xs"
  by (induction xs) auto

lemma find_filter_filter: "List.find P (filter Q xs) = List.find (\<lambda>x. Q x \<and> P x) xs"
  by (induction xs) auto

lemma sortedRules_find:
  "List.find (\<lambda>r. hasPrefix name (rule_From r)) (sortedRules rules) = bestRule rules name"
proof -
  let ?P = "\<lambda>r. hasPrefix name (rule_From r)" and ?S = "\<lambda>r. rule_From r \<noteq> []"
  let ?f = "\<lambda>r. - int (length (rule_From r))" and ?sp = "filter (\<lambda>r. rule_From r \<noteq> []) rules"
  let ?ms = "matching rules name"
  show ?thesis
  proof (cases "filter ?P ?sp = []")
    case True
    then have none: "\<not> hasPrefix name (rule_From r)" if "r \<in> set rules" "rule_From r \<noteq> []" for r
      using that by (auto simp: filter_empty_conv)
    have "List.find ?P (sort_key ?f ?sp) = None" using none by (auto simp: find_None_iff)
    moreover have "longest ?ms = 0"
    proof (cases "?ms = []")
      case False
      from longest_attained [OF this] obtain r where "r \<in> set ?ms" "length (rule_From r) = longest ?ms" by blast
      moreover have "rule_From r = []" using \<open>r \<in> set ?ms\<close> none by (auto simp: matching_def)
      ultimately show ?thesis by simp
    qed (simp add: longest_def)
    then have "bestRule rules name = List.find (\<lambda>r. ?P r \<and> rule_From r = []) rules"
      by (simp add: bestRule_def matching_def find_filter_filter Let_def)
    moreover have "List.find ?P (filter (\<lambda>r. rule_From r = []) rules) = List.find (\<lambda>r. ?P r \<and> rule_From r = []) rules"
      unfolding find_filter_filter by (rule find_cong) auto
    ultimately show ?thesis by (simp add: sortedRules_def find_append)
  next
    case False
    then obtain r0 where r0: "r0 \<in> set rules" "?P r0" "rule_From r0 \<noteq> []" by (auto simp: filter_empty_conv)
    then have "r0 \<in> set ?ms" by (simp add: matching_def)
    moreover have "0 < length (rule_From r0)" using r0(3) by simp
    ultimately have pos: "0 < longest ?ms" and ne: "?ms \<noteq> []"
      using longest_upper [of r0 ?ms] by (linarith, auto)
    obtain r1 where r1: "r1 \<in> set ?ms" "length (rule_From r1) = longest ?ms" using longest_attained [OF ne] by blast
    have "List.find ?P (sort_key ?f ?sp) = List.find (\<lambda>x. ?f x = - int (longest ?ms)) (filter ?P ?sp)"
    proof (rule find_sorted_key [OF False])
      show "\<forall>x \<in> set (filter ?P ?sp). - int (longest ?ms) \<le> ?f x"
        using longest_upper [of _ ?ms] by (auto simp: matching_def)
      show "\<exists>x \<in> set (filter ?P ?sp). ?f x = - int (longest ?ms)"
        using r1 pos by (auto simp: matching_def intro!: bexI [of _ r1])
    qed
    also have "\<dots> = bestRule rules name"
      unfolding bestRule_def Let_def matching_def find_filter_filter
      by (rule find_cong) (use pos in \<open>auto simp: matching_def\<close>)
    finally have b: "List.find ?P (sort_key ?f ?sp) = bestRule rules name" .
    have "bestRule rules name \<noteq> None" using r1 by (auto simp: bestRule_def find_None_iff Let_def)
    with b show ?thesis by (auto simp: sortedRules_def find_append)
  qed
qed

lemma applyFirst_best: "applyFirst parseURL (sortedRules rules) tgt ec = rewriteBy parseURL rules tgt ec"
  unfolding applyFirst_find sortedRules_find rewriteBy_def ..

lemma bestRule_None: "bestRule rules name = None \<longleftrightarrow> matching rules name = []"
  using longest_attained [of "matching rules name"] by (auto simp: bestRule_def find_None_iff Let_def)

lemma find_SomeD: "List.find P xs = Some x \<Longrightarrow> x \<in> set xs \<and> P x"
  by (induction xs) (auto split: if_splits)

lemma bestRule_Some:
  assumes "bestRule rules name = Some r"
  shows "r \<in> set rules" "hasPrefix name (rule_From r)"
    "\<forall>r' \<in> set rules. hasPrefix name (rule_From r') \<longrightarrow> length (rule_From r') \<le> length (rule_From r)"
proof -
  have r: "r \<in> set (matching rules name)" "length (rule_From r) = longest (matching rules name)"
    using find_SomeD assms by (fastforce simp: bestRule_def Let_def)+
  from r(1) show "r \<in> set rules" "hasPrefix name (rule_From r)" by (simp_all add: matching_def)
  show "\<forall>r' \<in> set rules. hasPrefix name (rule_From r') \<longrightarrow> length (rule_From r') \<le> length (rule_From r)"
    using longest_upper [of _ "matching rules name"] r(2) by (simp add: matching_def)
qed

lemma rewriteTo_frame:
  "rewriteTo parseURL to suffix tgt ec = Inr t' \<Longrightarrow> ti_id t' = ti_id tgt \<and> ti_size t' = ti_size tgt"
  by (auto simp: rewriteTo_def Let_def split: if_splits option.splits)

lemma rewriteLoop_Inr:
  "rewriteLoop parseURL m (sortedRules rules) ec tgts acc un = Inr (out, un') \<Longrightarrow>
     \<exists>new. out = acc @ new \<and> un' = un @ filter (\<lambda>t. bestRule rules (ti_name t) = None) tgts
       \<and> list_all2 (\<lambda>t t'. rewriteBy parseURL rules t ec = Inr (Some t')
            \<or> (rewriteBy parseURL rules t ec = Inr None \<and> tm_AllowPassthrough m \<and> t' = t)) tgts new"
proof (induction tgts arbitrary: acc un)
  case (Cons t ts)
  show ?case
  proof (cases "bestRule rules (ti_name t)")
    case None
    then have b: "rewriteBy parseURL rules t ec = Inr None" by (simp add: rewriteBy_def)
    with Cons.prems have pass: "tm_AllowPassthrough m"
      and "rewriteLoop parseURL m (sortedRules rules) ec ts (acc @ [t]) (un @ [t]) = Inr (out, un')"
      by (simp_all add: applyFirst_best split: if_splits)
    from Cons.IH [OF this(2)] b pass None show ?thesis by (auto intro: exI [of _ "t # _"])
  next
    case (Some r)
    with Cons.prems obtain t' where b: "rewriteBy parseURL rules t ec = Inr (Some t')"
      and "rewriteLoop parseURL m (sortedRules rules) ec ts (acc @ [t']) un = Inr (out, un')"
      by (auto simp: applyFirst_best rewriteBy_def map_sum_def split: sum.splits)
    from Cons.IH [OF this(2)] b Some show ?thesis by (auto intro: exI [of _ "t' # _"])
  qed
qed simp

section \<open>Properties\<close>

text \<open>What rewriting may do to one target.\<close>

definition rewritten_as :: "url_parser \<Rightarrow> target_map \<Rightarrow> engine_context \<Rightarrow> target_info \<Rightarrow> target_info \<Rightarrow> bool" where
  "rewritten_as parseURL m ec t t' \<longleftrightarrow>
     (\<exists>r \<in> set (tm_Rules m). hasPrefix (ti_name t) (rule_From r)
        \<and> (\<forall>r' \<in> set (tm_Rules m). hasPrefix (ti_name t) (rule_From r') \<longrightarrow> length (rule_From r') \<le> length (rule_From r))
        \<and> rewriteTo parseURL (rule_To r) (drop (length (rule_From r)) (ti_name t)) t ec = Inr t')
     \<or> ((\<forall>r \<in> set (tm_Rules m). \<not> hasPrefix (ti_name t) (rule_From r)) \<and> tm_AllowPassthrough m \<and> t' = t)"

lemma rewriteBy_cases:
  "rewriteBy parseURL (tm_Rules m) t ec = Inr (Some t')
     \<or> (rewriteBy parseURL (tm_Rules m) t ec = Inr None \<and> tm_AllowPassthrough m \<and> t' = t)
   \<Longrightarrow> rewritten_as parseURL m ec t t'"
proof (cases "bestRule (tm_Rules m) (ti_name t)")
  case None
  then have "\<forall>r \<in> set (tm_Rules m). \<not> hasPrefix (ti_name t) (rule_From r)"
    by (auto simp: bestRule_None matching_def filter_empty_conv)
  moreover assume "rewriteBy parseURL (tm_Rules m) t ec = Inr (Some t')
     \<or> (rewriteBy parseURL (tm_Rules m) t ec = Inr None \<and> tm_AllowPassthrough m \<and> t' = t)"
  ultimately show ?thesis using None by (simp add: rewriteBy_def rewritten_as_def)
next
  case (Some r)
  moreover assume "rewriteBy parseURL (tm_Rules m) t ec = Inr (Some t')
     \<or> (rewriteBy parseURL (tm_Rules m) t ec = Inr None \<and> tm_AllowPassthrough m \<and> t' = t)"
  ultimately have "rewriteTo parseURL (rule_To r) (drop (length (rule_From r)) (ti_name t)) t ec = Inr t'"
    by (auto simp: rewriteBy_def map_sum_def split: sum.splits)
  with bestRule_Some [OF Some] show ?thesis unfolding rewritten_as_def by blast
qed

text \<open>
  C39: a successful \<open>Rewrite\<close> rewrites every target by a rule whose \<open>From\<close> is a longest
  matching prefix of its name (whatever the order of the rules in the file), lets a target
  through unchanged only when no rule matches and passthrough is allowed, reports exactly
  the targets without a match, and keeps every target's id, size and position.
\<close>

theorem rewrite_longest_prefix:
  assumes "rewrite parseURL m targets ec = Inr (out, un)"
  shows "list_all2 (rewritten_as parseURL m ec) targets out
    \<and> map ti_id out = map ti_id targets \<and> map ti_size out = map ti_size targets
    \<and> un = filter (\<lambda>t. \<forall>r \<in> set (tm_Rules m). \<not> hasPrefix (ti_name t) (rule_From r)) targets"
proof -
  from rewriteLoop_Inr [OF assms [unfolded rewrite_def]]
  have l: "list_all2 (\<lambda>t t'. rewriteBy parseURL (tm_Rules m) t ec = Inr (Some t')
      \<or> (rewriteBy parseURL (tm_Rules m) t ec = Inr None \<and> tm_AllowPassthrough m \<and> t' = t)) targets out"
    and un: "un = filter (\<lambda>t. bestRule (tm_Rules m) (ti_name t) = None) targets" by auto
  have r: "list_all2 (rewritten_as parseURL m ec) targets out"
    by (rule list_all2_mono [OF l]) (rule rewriteBy_cases)
  have "ti_id t' = ti_id t \<and> ti_size t' = ti_size t" if "rewritten_as parseURL m ec t t'" for t t'
    using that rewriteTo_frame by (auto simp: rewritten_as_def)
  with r have "map ti_id out = map ti_id targets \<and> map ti_size out = map ti_size targets"
    by (induction rule: list_all2_induct) auto
  moreover have "un = filter (\<lambda>t. \<forall>r \<in> set (tm_Rules m). \<not> hasPrefix (ti_name t) (rule_From r)) targets"
    unfolding un by (simp add: bestRule_None matching_def filter_empty_conv)
  ultimately show ?thesis using r by blast
qed

definition sample_map :: target_map where
  "sample_map = \<lparr>tm_Rules = [\<lparr>rule_From = ''/d/'', rule_To = ''/x/''\<rparr>, \<lparr>rule_From = ''/d/a/'', rule_To = ''/y/''\<rparr>],
     tm_AllowPassthrough = True\<rparr>"

definition sample_targets :: "target_info list" where
  "sample_targets = [\<lparr>ti_id = 0, ti_name = ''/d/a/f'', ti_kind = TargetFile, ti_size = 9\<rparr>,
     \<lparr>ti_id = 1, ti_name = ''/e'', ti_kind = TargetFile, ti_size = 3\<rparr>]"

definition sample_rewritten :: "target_info list" where
  "sample_rewritten = [\<lparr>ti_id = 0, ti_name = ''/y/f'', ti_kind = TargetFile, ti_size = 9\<rparr>,
     \<lparr>ti_id = 1, ti_name = ''/e'', ti_kind = TargetFile, ti_size = 3\<rparr>]"

theorem rewrite_longest_prefix_witness:
  "list_all2 (rewritten_as (\<lambda>_. None) sample_map \<lparr>ec_EngineKind = [], ec_Bucket = []\<rparr>) sample_targets sample_rewritten
    \<and> map ti_id sample_rewritten = map ti_id sample_targets
    \<and> map ti_size sample_rewritten = map ti_size sample_targets
    \<and> [sample_targets ! 1] = filter (\<lambda>t. list_all (\<lambda>r. \<not> hasPrefix (ti_name t) (rule_From r)) (tm_Rules sample_map)) sample_targets"
  unfolding list_all_iff by (rule rewrite_longest_prefix) code_simp

end
