(* ===== verification/Object_Write.thy ===== *)
theory Object_Write
  imports Validate_Spec
begin

text \<open>
  Which write handles may be replayed as one object \<open>Put\<close>: \<open>objectWriteEligibility\<close>
  (\<open>pkg/replay/objectwrite.go\<close>), and what it guarantees about a validated trace.
\<close>

section \<open>The code\<close>

record ow_handle =
  ow_target :: int
  ow_mode :: mode
  ow_nextOff :: int

record eligibility =
  el_handles :: "(int \<times> ow_handle) list"
  el_sizes :: "(int \<times> int) list"

definition newObjectWriteEligibility :: eligibility where
  "newObjectWriteEligibility = \<lparr>el_handles = [], el_sizes = []\<rparr>"

datatype ow_error =
    OWMode string mode
  | OWOffset string int int
  | OWCoverage string int int

definition targetName :: "target_info list \<Rightarrow> int \<Rightarrow> string" where
  "targetName targets idx =
     (if idx < 0 \<or> idx \<ge> int (length targets) then ''?'' else ti_name (targets ! nat idx))"

definition observeOpen :: "op \<Rightarrow> eligibility \<Rightarrow> eligibility" where
  "observeOpen x e =
     (case (op_h x, op_tgt x) of
        (Some h, Some t) \<Rightarrow>
          e\<lparr>el_handles := AList.update h \<lparr>ow_target = t, ow_mode = op_mode x, ow_nextOff = 0\<rparr> (el_handles e)\<rparr>
      | _ \<Rightarrow> e)"

definition observeWrite :: "op \<Rightarrow> target_info list \<Rightarrow> eligibility \<Rightarrow> ow_error + eligibility" where
  "observeWrite x targets e =
     (case op_h x of
        None \<Rightarrow> Inr e
      | Some h \<Rightarrow>
          (case map_of (el_handles e) h of
             None \<Rightarrow> Inr e
           | Some st \<Rightarrow>
               if ow_mode st \<noteq> ModeWrite then Inl (OWMode (targetName targets (ow_target st)) (ow_mode st))
               else (case (op_off x, op_len x) of
                  (Some off, Some len) \<Rightarrow>
                    if off \<noteq> ow_nextOff st
                    then Inl (OWOffset (targetName targets (ow_target st)) off (ow_nextOff st))
                    else Inr (e\<lparr>el_handles :=
                           AList.update h (st\<lparr>ow_nextOff := i64 (ow_nextOff st + len)\<rparr>) (el_handles e)\<rparr>)
                | _ \<Rightarrow> Inr e)))"

definition observeClose :: "op \<Rightarrow> target_info list \<Rightarrow> eligibility \<Rightarrow> ow_error + eligibility" where
  "observeClose x targets e =
     (case op_h x of
        None \<Rightarrow> Inr e
      | Some h \<Rightarrow>
          (case map_of (el_handles e) h of
             None \<Rightarrow> Inr e
           | Some st \<Rightarrow>
               let e1 = e\<lparr>el_handles := AList.delete h (el_handles e)\<rparr> in
               if ow_mode st \<noteq> ModeWrite then Inr e1
               else if ow_target st < 0 \<or> ow_target st \<ge> int (length targets) then Inr e1
               else let sz = ti_size (targets ! nat (ow_target st)) in
                 if sz > 0 \<and> ow_nextOff st \<noteq> sz
                 then Inl (OWCoverage (ti_name (targets ! nat (ow_target st))) (ow_nextOff st) sz)
                 else Inr (e1\<lparr>el_sizes := AList.update (ow_target st) (ow_nextOff st) (el_sizes e1)\<rparr>)))"

definition observe :: "target_info list \<Rightarrow> eligibility \<Rightarrow> op \<Rightarrow> ow_error + eligibility" where
  "observe targets e x =
     (case op_op x of
        OpOpen \<Rightarrow> Inr (observeOpen x e)
      | OpWrite \<Rightarrow> observeWrite x targets e
      | OpClose \<Rightarrow> observeClose x targets e
      | _ \<Rightarrow> Inr e)"

section \<open>Specification\<close>

text \<open>The writes through a handle and the bytes they cover, each starting where the last ended.\<close>

definition writes_of :: "int \<Rightarrow> op list \<Rightarrow> op list" where
  "writes_of h ops = filter (\<lambda>x. op_op x = OpWrite \<and> op_h x = Some h) ops"

definition lenOf :: "op \<Rightarrow> int" where
  "lenOf x = (case op_len x of None \<Rightarrow> 0 | Some n \<Rightarrow> n)"

definition written :: "op list \<Rightarrow> int" where
  "written ws = sum_list (map lenOf ws)"

definition sequential :: "op list \<Rightarrow> bool" where
  "sequential ws \<longleftrightarrow> (\<forall>pre x post. ws = pre @ x # post \<longrightarrow> op_off x = Some (written pre))"

definition opened_as :: "op list \<Rightarrow> int \<Rightarrow> int \<Rightarrow> mode \<Rightarrow> bool" where
  "opened_as ops h t m \<longleftrightarrow> (\<exists>x \<in> set ops. opens h x \<and> op_tgt x = Some t \<and> op_mode x = m)"

definition closed_in :: "op list \<Rightarrow> int \<Rightarrow> bool" where
  "closed_in ops h \<longleftrightarrow> (\<exists>x \<in> set ops. closes h x)"

lemma sequential_each_after: "sequential ws \<longleftrightarrow> each_after (\<lambda>pre x. op_off x = Some (written pre)) ws"
  by (simp add: sequential_def each_after_def)

lemma writes_of_simps [simp]:
  "writes_of h [] = []"
  "writes_of h (ops @ [x]) = writes_of h ops @ (if op_op x = OpWrite \<and> op_h x = Some h then [x] else [])"
  by (simp_all add: writes_of_def)

lemma written_simps [simp]: "written [] = 0" "written (ws @ [x]) = written ws + lenOf x"
  by (simp_all add: written_def)

lemma sequential_simps [simp]:
  "sequential []" "sequential (ws @ [x]) \<longleftrightarrow> sequential ws \<and> op_off x = Some (written ws)"
  by (simp_all add: sequential_each_after)

lemma opened_as_simps [simp]:
  "\<not> opened_as [] h t m"
  "opened_as (ops @ [x]) h t m \<longleftrightarrow> opened_as ops h t m \<or> (opens h x \<and> op_tgt x = Some t \<and> op_mode x = m)"
  by (auto simp: opened_as_def)

lemma closed_in_simps [simp]: "\<not> closed_in [] h" "closed_in (ops @ [x]) h \<longleftrightarrow> closed_in ops h \<or> closes h x"
  by (auto simp: closed_in_def)

text \<open>The total the trace writes; the running offsets stay below it.\<close>

definition total_written :: "op list \<Rightarrow> int" where
  "total_written ops = sum_list (map lenOf (filter (\<lambda>x. op_op x = OpWrite) ops))"

lemma written_nonneg: "(\<And>x. x \<in> set ws \<Longrightarrow> 0 \<le> lenOf x) \<Longrightarrow> 0 \<le> written ws"
  unfolding written_def by (rule sum_list_nonneg) auto

lemma written_le_total:
  assumes "\<And>x. x \<in> set ops \<Longrightarrow> op_op x = OpWrite \<Longrightarrow> 0 \<le> lenOf x"
  shows "written (writes_of h ops) \<le> total_written ops"
  using assms by (induction ops) (auto simp: written_def writes_of_def total_written_def intro: add_increasing)

section \<open>Invariant of the pass\<close>

text \<open>An open write handle's offset is the number of bytes written through it so far.\<close>

definition entry_ok :: "op list \<Rightarrow> int \<Rightarrow> ow_handle \<Rightarrow> bool" where
  "entry_ok pre h st \<longleftrightarrow> opened_as pre h (ow_target st) (ow_mode st) \<and> \<not> closed_in pre h
     \<and> (ow_mode st = ModeWrite \<longrightarrow> sequential (writes_of h pre) \<and> ow_nextOff st = written (writes_of h pre))
     \<and> (ow_mode st \<noteq> ModeWrite \<longrightarrow> writes_of h pre = [])"

definition open_inv :: "op list \<Rightarrow> (int \<times> ow_handle) list \<Rightarrow> bool" where
  "open_inv pre hs \<longleftrightarrow> (\<forall>h st. map_of hs h = Some st \<longrightarrow> entry_ok pre h st)"

lemma entry_ok_other: "entry_ok pre h st \<Longrightarrow> op_h x \<noteq> Some h \<Longrightarrow> entry_ok (pre @ [x]) h st"
  by (simp add: entry_ok_def opens_def closes_def)

lemma open_inv_update:
  assumes "open_inv pre hs" "op_h x = Some h" "entry_ok (pre @ [x]) h st"
  shows "open_inv (pre @ [x]) (AList.update h st hs)"
  unfolding open_inv_def
proof (intro allI impI)
  fix h' st' assume l: "map_of (AList.update h st hs) h' = Some st'"
  show "entry_ok (pre @ [x]) h' st'"
  proof (cases "h' = h")
    case True
    with l assms(3) show ?thesis by simp
  next
    case False
    with l have "map_of hs h' = Some st'" by simp
    then have "entry_ok pre h' st'" using assms(1) by (simp add: open_inv_def)
    with False assms(2) show ?thesis by (intro entry_ok_other) simp_all
  qed
qed

definition tracked :: "op list \<Rightarrow> (int \<times> ow_handle) list \<Rightarrow> bool" where
  "tracked pre hs \<longleftrightarrow> (\<forall>h x. x \<in> set pre \<and> opens h x \<and> \<not> closed_in pre h \<longrightarrow>
     (\<exists>st. map_of hs h = Some st \<and> op_tgt x = Some (ow_target st) \<and> op_mode x = ow_mode st))"

definition declared :: "target_info list \<Rightarrow> int \<Rightarrow> int" where
  "declared targets t = (if 0 \<le> t \<and> t < int (length targets) then ti_size (targets ! nat t) else 0)"

text \<open>A closed write handle wrote its target from the first byte on, up to its declared size.\<close>

definition closed_inv :: "target_info list \<Rightarrow> op list \<Rightarrow> (int \<times> int) list \<Rightarrow> bool" where
  "closed_inv targets pre sizes \<longleftrightarrow> (\<forall>h t. opened_as pre h t ModeWrite \<and> closed_in pre h \<longrightarrow>
     sequential (writes_of h pre) \<and> map_of sizes t \<noteq> None
     \<and> (0 < declared targets t \<longrightarrow>
          written (writes_of h pre) = declared targets t \<and> map_of sizes t = Some (declared targets t)))"

definition sizes_inv :: "target_info list \<Rightarrow> op list \<Rightarrow> (int \<times> int) list \<Rightarrow> bool" where
  "sizes_inv targets pre sizes \<longleftrightarrow> (\<forall>t n. map_of sizes t = Some n \<longrightarrow>
     (\<exists>h. opened_as pre h t ModeWrite \<and> closed_in pre h \<and> written (writes_of h pre) = n))"

section \<open>Handles of a valid trace\<close>

definition uses :: "int \<Rightarrow> op \<Rightarrow> bool" where
  "uses h x \<longleftrightarrow> isHandleOp (op_op x) \<and> op_h x = Some h"

lemma op_spec_uses:
  assumes "op_spec hdr pre x" "uses h x"
  shows "live pre (op_s x) h"
  using assms by (cases "op_op x") (auto simp: op_spec_def uses_def handle_ok_def)

lemma op_spec_opens: "op_spec hdr pre x \<Longrightarrow> opens h x \<Longrightarrow> y \<in> set pre \<Longrightarrow> \<not> opens h y"
  by (auto simp: op_spec_def opens_def)

lemma ops_spec_use:
  assumes "ops_spec hdr ops" "y \<in> set ops" "uses h y"
  shows "\<exists>x \<in> set ops. opens h x"
proof -
  obtain pre post where sp: "ops = pre @ y # post" using assms(2) by (meson split_list)
  then have "op_spec hdr pre y" using assms(1) by (simp add: ops_spec_def each_after_def)
  from live_opens [OF op_spec_uses [OF this assms(3)]] sp show ?thesis by auto
qed

lemma closes_uses: "closes h y \<Longrightarrow> uses h y"
  by (simp add: closes_def uses_def)

lemma write_uses: "op_op y = OpWrite \<Longrightarrow> op_h y = Some h \<Longrightarrow> uses h y"
  by (simp add: uses_def)

lemma fresh_handle:
  assumes "ops_spec hdr pre" "\<forall>y \<in> set pre. \<not> opens h y"
  shows "\<not> closed_in pre h" "writes_of h pre = []"
proof -
  have no: "\<not> uses h y" if "y \<in> set pre" for y using ops_spec_use [OF assms(1) that] assms(2) by blast
  then show "\<not> closed_in pre h" by (auto simp: closed_in_def dest: closes_uses)
  show "writes_of h pre = []" using no by (auto simp: writes_of_def filter_empty_conv dest: write_uses)
qed

lemma live_not_closed:
  assumes "ops_spec hdr pre" "live pre s h"
  shows "\<not> closed_in pre h"
proof -
  obtain a x b where sp: "pre = a @ x # b" and x: "opens h x" and b: "\<forall>y \<in> set b. \<not> closes h y"
    using assms(2) by (auto simp: live_def)
  have a: "ops_spec hdr a" using assms(1) sp each_after_append [of "op_spec hdr" a] by (simp add: ops_spec_def)
  have "op_spec hdr a x" using assms(1) sp by (simp add: ops_spec_def each_after_def)
  then have "\<forall>y \<in> set a. \<not> opens h y" using x by (auto dest: op_spec_opens)
  from fresh_handle(1) [OF a this] have "\<not> closed_in a h" .
  moreover have "\<not> closes h x" using x by (simp add: opens_def closes_def)
  ultimately show ?thesis using b sp by (auto simp: closed_in_def)
qed

lemma handle_opened_once:
  assumes "ops_spec hdr ops" "opened_as ops h t m" "opened_as ops h t' m'"
  shows "t = t' \<and> m = m'"
  using assms
proof (induction ops rule: rev_induct)
  case (snoc x ops)
  then have "ops_spec hdr ops" and sp: "op_spec hdr ops x" by (simp_all add: ops_spec_def)
  moreover have "\<not> opened_as ops h t m" if "opens h x" for t m
    using op_spec_opens [OF sp that] by (auto simp: opened_as_def)
  ultimately show ?case using snoc by auto
qed simp

section \<open>One op\<close>

definition ow_inv :: "target_info list \<Rightarrow> op list \<Rightarrow> eligibility \<Rightarrow> bool" where
  "ow_inv targets pre e \<longleftrightarrow> open_inv pre (el_handles e) \<and> tracked pre (el_handles e)
     \<and> closed_inv targets pre (el_sizes e) \<and> sizes_inv targets pre (el_sizes e)"

lemma ow_inv_new: "ow_inv targets [] newObjectWriteEligibility"
  by (simp add: ow_inv_def newObjectWriteEligibility_def open_inv_def tracked_def closed_inv_def sizes_inv_def)

lemma ow_inv_other:
  assumes "op_op x \<notin> {OpOpen, OpWrite, OpClose}" "ow_inv targets pre e"
  shows "ow_inv targets (pre @ [x]) e"
proof -
  have x: "\<not> opens h x" "\<not> closes h x" "op_op x \<noteq> OpWrite" for h
    using assms(1) by (auto simp: opens_def closes_def)
  then have same: "opened_as (pre @ [x]) = opened_as pre" "closed_in (pre @ [x]) = closed_in pre"
    "writes_of h (pre @ [x]) = writes_of h pre" for h
    by (simp_all add: fun_eq_iff)
  have "tracked (pre @ [x]) (el_handles e)"
    using assms(2) x(1) unfolding ow_inv_def tracked_def same set_append by auto
  then show ?thesis using assms(2) unfolding ow_inv_def open_inv_def entry_ok_def closed_inv_def sizes_inv_def same by blast
qed

text \<open>The recorded sizes stay right as long as no closed handle is written or reopened.\<close>

lemma sizes_inv_step:
  assumes "sizes_inv targets pre sizes" "\<And>h. closed_in pre h \<Longrightarrow> writes_of h (pre @ [x]) = writes_of h pre"
  shows "sizes_inv targets (pre @ [x]) sizes"
  unfolding sizes_inv_def
proof (intro allI impI)
  fix t n assume "map_of sizes t = Some n"
  then obtain h where h: "opened_as pre h t ModeWrite" "closed_in pre h" "written (writes_of h pre) = n"
    using assms(1) unfolding sizes_inv_def by blast
  then have "opened_as (pre @ [x]) h t ModeWrite" "closed_in (pre @ [x]) h" by (auto simp: closed_in_def opened_as_def)
  with h(3) assms(2) [OF h(2)] show "\<exists>h. opened_as (pre @ [x]) h t ModeWrite \<and> closed_in (pre @ [x]) h
      \<and> written (writes_of h (pre @ [x])) = n" by metis
qed

lemma closed_inv_step:
  assumes "closed_inv targets pre sizes" "\<And>h. closed_in pre h \<Longrightarrow> writes_of h (pre @ [x]) = writes_of h pre"
    "\<And>h. closes h x = False" "\<And>h t. opened_as (pre @ [x]) h t ModeWrite \<Longrightarrow> closed_in pre h \<Longrightarrow> opened_as pre h t ModeWrite"
  shows "closed_inv targets (pre @ [x]) sizes"
  unfolding closed_inv_def
proof (intro allI impI)
  fix h t assume "opened_as (pre @ [x]) h t ModeWrite \<and> closed_in (pre @ [x]) h"
  then have h: "closed_in pre h" "opened_as pre h t ModeWrite" using assms(3,4) by auto
  show "sequential (writes_of h (pre @ [x])) \<and> map_of sizes t \<noteq> None \<and> (0 < declared targets t \<longrightarrow>
      written (writes_of h (pre @ [x])) = declared targets t \<and> map_of sizes t = Some (declared targets t))"
    using assms(1) h unfolding assms(2) [OF h(1)] closed_inv_def by blast
qed

lemma tracked_lookup:
  assumes "tracked pre hs" "y \<in> set pre" "opens h y" "\<not> closed_in pre h"
  obtains st where "map_of hs h = Some st" "op_tgt y = Some (ow_target st)" "op_mode y = ow_mode st"
  using assms unfolding tracked_def by blast

lemma ow_inv_open:
  assumes ops: "ops_spec hdr pre" and sp: "op_spec hdr pre x" and k: "op_op x = OpOpen"
    and inv: "ow_inv targets pre e"
  shows "ow_inv targets (pre @ [x]) (observeOpen x e)"
proof -
  obtain h t where x: "op_h x = Some h" "op_tgt x = Some t" and o: "opens h x"
    using sp k by (auto simp: op_spec_def target_ok_def opens_def split: option.splits)
  have others: "h' = h" if "opens h' x" for h' using that x by (simp add: opens_def)
  have nx: "\<not> closes h' x" "op_op x \<noteq> OpWrite" for h' using k by (simp_all add: closes_def)
  have fr: "\<forall>y \<in> set pre. \<not> opens h y" using op_spec_opens [OF sp o] by blast
  note fresh = fresh_handle [OF ops fr]
  have nop: "\<not> opened_as pre h t' m" for t' m using fr by (auto simp: opened_as_def)
  let ?st = "\<lparr>ow_target = t, ow_mode = op_mode x, ow_nextOff = 0\<rparr>"
  have e': "observeOpen x e = e\<lparr>el_handles := AList.update h ?st (el_handles e)\<rparr>" by (simp add: observeOpen_def x)
  have "open_inv (pre @ [x]) (AList.update h ?st (el_handles e))"
    using inv fresh nx o x by (intro open_inv_update) (simp_all add: ow_inv_def entry_ok_def)
  moreover have "tracked (pre @ [x]) (AList.update h ?st (el_handles e))"
    unfolding tracked_def
  proof (intro allI impI)
    fix h' z assume z: "z \<in> set (pre @ [x]) \<and> opens h' z \<and> \<not> closed_in (pre @ [x]) h'"
    show "\<exists>st. map_of (AList.update h ?st (el_handles e)) h' = Some st \<and> op_tgt z = Some (ow_target st) \<and> op_mode z = ow_mode st"
    proof (cases "h' = h")
      case True
      with z fr have "z = x" by auto
      with True x show ?thesis by simp
    next
      case False
      with z others have "z \<in> set pre" by auto
      with z inv False show ?thesis by (simp add: ow_inv_def tracked_def)
    qed
  qed
  moreover have "closed_inv targets (pre @ [x]) (el_sizes e)"
    using inv nx others fresh(1) by (intro closed_inv_step) (auto simp: ow_inv_def)
  moreover have "sizes_inv targets (pre @ [x]) (el_sizes e)"
    using inv nx by (intro sizes_inv_step) (auto simp: ow_inv_def)
  ultimately show ?thesis by (simp add: ow_inv_def e')
qed

lemma ow_inv_write:
  assumes ops: "ops_spec hdr pre" and sp: "op_spec hdr pre x" and k: "op_op x = OpWrite"
    and inv: "ow_inv targets pre e" and step: "observeWrite x targets e = Inr e'"
    and bound: "0 \<le> written (writes_of h pre) + lenOf x" "written (writes_of h pre) + lenOf x < 2 ^ 63"
    and h: "op_h x = Some h"
  shows "ow_inv targets (pre @ [x]) e'"
proof -
  have live: "live pre (op_s x) h" using op_spec_uses [OF sp] h k by (simp add: uses_def)
  note nc = live_not_closed [OF ops live]
  obtain y where y: "y \<in> set pre" "opens h y" using live_opens [OF live] by blast
  have tr: "tracked pre (el_handles e)" using inv by (simp add: ow_inv_def)
  obtain st where st: "map_of (el_handles e) h = Some st" by (rule tracked_lookup [OF tr y nc])
  obtain len off0 where len: "op_len x = Some len" and off0: "op_off x = Some off0"
    using sp k by (auto simp: op_spec_def nat_field_def split: option.splits)
  from step have m: "ow_mode st = ModeWrite" and off: "op_off x = Some (ow_nextOff st)"
    and e': "e' = e\<lparr>el_handles := AList.update h (st\<lparr>ow_nextOff := i64 (ow_nextOff st + len)\<rparr>) (el_handles e)\<rparr>"
    by (auto simp: observeWrite_def h st len off0 split: if_splits)
  have "entry_ok pre h st" using inv st unfolding ow_inv_def open_inv_def by blast
  with m have os: "opened_as pre h (ow_target st) ModeWrite" "sequential (writes_of h pre)"
    "ow_nextOff st = written (writes_of h pre)" by (simp_all add: entry_ok_def)
  have nx: "\<not> closes h' x" "\<not> opens h' x" for h' using k by (simp_all add: closes_def opens_def)
  have i: "i64 (ow_nextOff st + len) = written (writes_of h pre) + lenOf x"
    using bound os(3) len by (simp add: lenOf_def i64_nonneg_bounded)
  have "open_inv (pre @ [x]) (el_handles e')"
    using inv h os off nx nc m k i unfolding e'
    by (simp add: ow_inv_def) (intro open_inv_update, simp_all add: entry_ok_def)
  moreover have "tracked (pre @ [x]) (el_handles e')"
  proof -
    have "\<exists>st'. map_of (el_handles e') h' = Some st' \<and> op_tgt z = Some (ow_target st') \<and> op_mode z = ow_mode st'"
      if z: "z \<in> set pre" "opens h' z" "\<not> closed_in pre h'" for h' z
    proof -
      obtain st' where "map_of (el_handles e) h' = Some st'" "op_tgt z = Some (ow_target st')" "op_mode z = ow_mode st'"
        by (rule tracked_lookup [OF tr z])
      then show ?thesis using st by (cases "h' = h") (simp_all add: e')
    qed
    then show ?thesis using nx unfolding tracked_def by auto
  qed
  moreover have "closed_inv targets (pre @ [x]) (el_sizes e')"
    using inv nc nx h k unfolding e' by (intro closed_inv_step) (auto simp: ow_inv_def)
  moreover have "sizes_inv targets (pre @ [x]) (el_sizes e')"
    using inv nc nx h k unfolding e' by (intro sizes_inv_step) (auto simp: ow_inv_def)
  ultimately show ?thesis by (simp add: ow_inv_def)
qed

lemma ow_inv_close:
  assumes ops: "ops_spec hdr pre" and sp: "op_spec hdr pre x" and k: "op_op x = OpClose"
    and inv: "ow_inv targets pre e" and step: "observeClose x targets e = Inr e'"
    and tgts: "length targets = length (hdr_targets hdr)"
  shows "ow_inv targets (pre @ [x]) e'"
proof -
  obtain h where h: "op_h x = Some h" using sp k by (auto simp: op_spec_def handle_ok_def split: option.splits)
  have live: "live pre (op_s x) h" using op_spec_uses [OF sp] h k by (simp add: uses_def)
  note nc = live_not_closed [OF ops live]
  obtain y where y: "y \<in> set pre" "opens h y" using live_opens [OF live] by blast
  have tr: "tracked pre (el_handles e)" and op: "open_inv pre (el_handles e)"
    and cl: "closed_inv targets pre (el_sizes e)" and sz: "sizes_inv targets pre (el_sizes e)"
    using inv by (simp_all add: ow_inv_def)
  obtain st where st: "map_of (el_handles e) h = Some st" by (rule tracked_lookup [OF tr y nc])
  then have ent: "entry_ok pre h st" using op unfolding open_inv_def by blast
  have nx: "\<not> opens h' x" "closes h' x \<longleftrightarrow> h' = h" "op_op x \<noteq> OpWrite" for h'
    using k h by (auto simp: closes_def opens_def)
  have same: "opened_as (pre @ [x]) = opened_as pre" "writes_of h' (pre @ [x]) = writes_of h' pre" for h'
    using nx by (simp_all add: fun_eq_iff)
  have hs: "el_handles e' = AList.delete h (el_handles e)"
    using step by (auto simp: observeClose_def h st Let_def split: if_splits)
  have "open_inv (pre @ [x]) (el_handles e')"
    unfolding open_inv_def hs
  proof (intro allI impI)
    fix h' st' assume "map_of (AList.delete h (el_handles e)) h' = Some st'"
    then have "h' \<noteq> h" "map_of (el_handles e) h' = Some st'" by (auto split: if_splits)
    then show "entry_ok (pre @ [x]) h' st'" using op h by (intro entry_ok_other) (simp_all add: open_inv_def)
  qed
  moreover have "tracked (pre @ [x]) (el_handles e')"
    unfolding tracked_def hs
  proof (intro allI impI)
    fix h' z assume z: "z \<in> set (pre @ [x]) \<and> opens h' z \<and> \<not> closed_in (pre @ [x]) h'"
    then have "z \<in> set pre" "opens h' z" "\<not> closed_in pre h'" "h' \<noteq> h" using nx by auto
    then show "\<exists>st. map_of (AList.delete h (el_handles e)) h' = Some st \<and> op_tgt z = Some (ow_target st) \<and> op_mode z = ow_mode st"
      using tr by (auto simp: tracked_def)
  qed
  moreover have "closed_inv targets (pre @ [x]) (el_sizes e') \<and> sizes_inv targets (pre @ [x]) (el_sizes e')"
  proof (cases "ow_mode st = ModeWrite")
    case False
    then have eq: "el_sizes e' = el_sizes e" using step by (auto simp: observeClose_def h st Let_def)
    have no: "\<not> opened_as pre h t ModeWrite" for t
      using handle_opened_once [OF ops, of h] ent False by (auto simp: entry_ok_def)
    have "closed_inv targets (pre @ [x]) (el_sizes e')"
      using cl no nx(2) unfolding closed_inv_def same closed_in_simps eq by metis
    moreover have "sizes_inv targets (pre @ [x]) (el_sizes e')"
      using sz unfolding sizes_inv_def same closed_in_simps eq by metis
    ultimately show ?thesis ..
  next
    case True
    let ?t = "ow_target st" and ?n = "written (writes_of h pre)"
    have o: "opened_as pre h ?t ModeWrite" "sequential (writes_of h pre)" "ow_nextOff st = ?n"
      using ent True by (simp_all add: entry_ok_def)
    have range: "\<not> (?t < 0 \<or> ?t \<ge> int (length targets))"
    proof -
      obtain z where z: "z \<in> set pre" "opens h z" "op_tgt z = Some ?t" using o(1) by (auto simp: opened_as_def)
      obtain a b where "pre = a @ z # b" using z(1) by (meson split_list)
      then have "op_spec hdr a z" using ops by (simp add: ops_spec_def each_after_def)
      with z show ?thesis by (auto simp: op_spec_def opens_def target_ok_def tgts)
    qed
    have d: "0 < declared targets ?t \<longrightarrow> ?n = declared targets ?t"
      using step range True o(3) by (auto simp: observeClose_def h st Let_def declared_def split: if_splits)
    have e': "el_sizes e' = AList.update ?t ?n (el_sizes e)"
      using step range True o(3) by (auto simp: observeClose_def h st Let_def split: if_splits)
    have "closed_inv targets (pre @ [x]) (el_sizes e')"
      unfolding closed_inv_def same e'
    proof (intro allI impI)
      fix h' t assume a: "opened_as pre h' t ModeWrite \<and> closed_in (pre @ [x]) h'"
      show "sequential (writes_of h' pre) \<and> map_of (AList.update ?t ?n (el_sizes e)) t \<noteq> None \<and> (0 < declared targets t \<longrightarrow>
          written (writes_of h' pre) = declared targets t \<and>
          map_of (AList.update ?t ?n (el_sizes e)) t = Some (declared targets t))"
      proof (cases "h' = h")
        case True
        then have "t = ?t" using a o(1) handle_opened_once [OF ops] by blast
        with True o(2) d show ?thesis by simp
      next
        case False
        then have "closed_in pre h'" using a nx by simp
        with cl a have "sequential (writes_of h' pre)" "map_of (el_sizes e) t \<noteq> None" "0 < declared targets t \<Longrightarrow>
            written (writes_of h' pre) = declared targets t \<and> map_of (el_sizes e) t = Some (declared targets t)"
          unfolding closed_inv_def by blast+
        with d show ?thesis by simp
      qed
    qed
    moreover have "sizes_inv targets (pre @ [x]) (el_sizes e')"
      unfolding sizes_inv_def same e'
    proof (intro allI impI)
      fix t n assume m: "map_of (AList.update ?t ?n (el_sizes e)) t = Some n"
      show "\<exists>h. opened_as pre h t ModeWrite \<and> closed_in (pre @ [x]) h \<and> written (writes_of h pre) = n"
      proof (cases "t = ?t")
        case True
        with m o(1) nx show ?thesis by (intro exI [of _ h]) simp
      next
        case False
        with m have "map_of (el_sizes e) t = Some n" by simp
        then show ?thesis using sz unfolding sizes_inv_def closed_in_simps by blast
      qed
    qed
    ultimately show ?thesis ..
  qed
  ultimately show ?thesis by (simp add: ow_inv_def)
qed

section \<open>The whole pass\<close>

lemma foldOps_snoc:
  "foldOps f (xs @ [x]) s = (case foldOps f xs s of Inl e \<Rightarrow> Inl e | Inr s' \<Rightarrow> f s' x)"
  by (induction xs arbitrary: s) (auto split: sum.split)

lemma valid_write_len:
  assumes "ops_spec hdr ops" "x \<in> set ops" "op_op x = OpWrite"
  shows "0 \<le> lenOf x"
proof -
  obtain a b where "ops = a @ x # b" using assms(2) by (meson split_list)
  then have "op_spec hdr a x" using assms(1) by (simp add: ops_spec_def each_after_def)
  then show ?thesis using assms(3) by (auto simp: op_spec_def nat_field_def lenOf_def split: option.splits)
qed

lemma total_written_snoc:
  "total_written (ops @ [x]) = total_written ops + (if op_op x = OpWrite then lenOf x else 0)"
  by (simp add: total_written_def)

lemma observe_all:
  assumes "ops_spec hdr ops" "length targets = length (hdr_targets hdr)"
    "foldOps (observe targets) ops newObjectWriteEligibility = Inr e" "total_written ops < 2 ^ 63"
  shows "ow_inv targets ops e"
  using assms
proof (induction ops arbitrary: e rule: rev_induct)
  case Nil
  then show ?case by (simp add: ow_inv_new)
next
  case (snoc x ops)
  have ops: "ops_spec hdr ops" and sp: "op_spec hdr ops x" using snoc.prems(1) by (simp_all add: ops_spec_def)
  obtain e0 where f: "foldOps (observe targets) ops newObjectWriteEligibility = Inr e0"
    and st: "observe targets e0 x = Inr e"
    using snoc.prems(3) by (auto simp: foldOps_snoc split: sum.splits)
  have nn: "0 \<le> lenOf y" if "y \<in> set (ops @ [x])" "op_op y = OpWrite" for y
    using valid_write_len [OF snoc.prems(1) that] .
  have "total_written ops < 2 ^ 63" using snoc.prems(4) nn [of x] by (auto simp: total_written_snoc split: if_splits)
  from snoc.IH [OF ops snoc.prems(2) f this] have inv: "ow_inv targets ops e0" .
  consider "op_op x = OpOpen" | "op_op x = OpWrite" | "op_op x = OpClose" | "op_op x \<notin> {OpOpen, OpWrite, OpClose}" by blast
  then show ?case
  proof cases
    case 1
    with st have "e = observeOpen x e0" by (simp add: observe_def)
    with ow_inv_open [OF ops sp 1 inv] show ?thesis by simp
  next
    case 2
    obtain h where h: "op_h x = Some h" using sp 2 by (auto simp: op_spec_def handle_ok_def split: option.splits)
    have w: "0 \<le> written (writes_of h ops)" "written (writes_of h ops) \<le> total_written ops"
      using nn by (auto simp: writes_of_def intro!: written_nonneg written_le_total [unfolded writes_of_def])
    with snoc.prems(4) 2 nn [of x] have "0 \<le> written (writes_of h ops) + lenOf x" "written (writes_of h ops) + lenOf x < 2 ^ 63"
      by (simp_all add: total_written_snoc)
    moreover have "observeWrite x targets e0 = Inr e" using st 2 by (simp add: observe_def)
    ultimately show ?thesis by (intro ow_inv_write [OF ops sp 2 inv _ _ _ h])
  next
    case 3
    with st have "observeClose x targets e0 = Inr e" by (simp add: observe_def)
    from ow_inv_close [OF ops sp 3 inv this snoc.prems(2)] show ?thesis .
  next
    case 4
    with st have "e = e0" by (cases "op_op x") (auto simp: observe_def)
    with ow_inv_other [OF 4 inv] show ?thesis by simp
  qed
qed

section \<open>Properties\<close>

text \<open>
  C35: a valid trace whose every op passes the object-write check can be replayed as whole
  objects. Each write-only handle that is closed wrote its target as one sequential run of
  bytes from offset zero; if the target declares a size, the run covers it exactly and the
  size recorded for the \<open>Put\<close> is that size; and every recorded size is the byte count of some
  closed write-only handle of the target.
\<close>

theorem object_write_coalesces:
  assumes "ops_spec hdr ops" "length targets = length (hdr_targets hdr)"
    "foldOps (observe targets) ops newObjectWriteEligibility = Inr e" "total_written ops < 2 ^ 63"
  shows "(\<forall>h t. opened_as ops h t ModeWrite \<and> closed_in ops h \<longrightarrow>
      sequential (writes_of h ops) \<and> map_of (el_sizes e) t \<noteq> None
      \<and> (0 < declared targets t \<longrightarrow>
           written (writes_of h ops) = declared targets t \<and> map_of (el_sizes e) t = Some (declared targets t)))
    \<and> (\<forall>t n. map_of (el_sizes e) t = Some n \<longrightarrow>
         (\<exists>h. opened_as ops h t ModeWrite \<and> closed_in ops h \<and> written (writes_of h ops) = n))"
  using observe_all [OF assms] unfolding ow_inv_def closed_inv_def sizes_inv_def by blast

text \<open>Two write handles, one after the other, on a target without a declared size.\<close>

definition ow_header :: "int \<Rightarrow> header" where
  "ow_header n = zero_header\<lparr>hdr_version := 2, hdr_targets := [\<lparr>ti_id = 0, ti_name = ''k'', ti_kind = TargetObject, ti_size = n\<rparr>]\<rparr>"

definition ow_life :: "int \<Rightarrow> int \<Rightarrow> int \<Rightarrow> op list" where
  "ow_life i h n =
     [zero_op\<lparr>op_id := Some i, op_op := OpOpen, op_tgt := Some 0, op_h := Some h, op_mode := ModeWrite\<rparr>,
      zero_op\<lparr>op_id := Some (i + 1), op_op := OpWrite, op_h := Some h, op_off := Some 0, op_len := Some n\<rparr>,
      zero_op\<lparr>op_id := Some (i + 2), op_op := OpClose, op_h := Some h\<rparr>]"

lemma ow_life_valid: "ops_spec (ow_header n) (ow_life 0 7 4 @ ow_life 3 8 2)"
  by (simp add: ops_spec_def spec_eval ow_life_def ow_header_def zero_header_def zero_op_def)

lemma ow_one_life_valid: "ops_spec (ow_header n) (ow_life 0 7 4)"
  by (simp add: ops_spec_def spec_eval ow_life_def ow_header_def zero_header_def zero_op_def)

theorem object_write_coalesces_witness:
  "sequential (writes_of 7 (ow_life 0 7 4)) \<and> written (writes_of 7 (ow_life 0 7 4)) = 4"
proof -
  have f: "foldOps (observe (hdr_targets (ow_header 4))) (ow_life 0 7 4) newObjectWriteEligibility
      = Inr \<lparr>el_handles = [], el_sizes = [(0, 4)]\<rparr>" by code_simp
  have "opened_as (ow_life 0 7 4) 7 0 ModeWrite" "closed_in (ow_life 0 7 4) 7" "declared (hdr_targets (ow_header 4)) 0 = 4"
    "total_written (ow_life 0 7 4) < 2 ^ 63"
    by (simp_all add: opened_as_def closed_in_def declared_def opens_def closes_def ow_life_def ow_header_def zero_header_def
      total_written_def lenOf_def zero_op_def)
  with object_write_coalesces [OF ow_one_life_valid refl f] show ?thesis by fastforce
qed

text \<open>
  Without a declared size the last closed handle's byte count is recorded for the target, and
  the first handle's \<open>Put\<close> is then started with a size that its bytes do not have.
\<close>

lemma object_sizes_last_wins:
  "foldOps (observe (hdr_targets (ow_header 0))) (ow_life 0 7 4 @ ow_life 3 8 2) newObjectWriteEligibility
     = Inr \<lparr>el_handles = [], el_sizes = [(0, 2)]\<rparr>
   \<and> ops_spec (ow_header 0) (ow_life 0 7 4 @ ow_life 3 8 2)
   \<and> written (writes_of 7 (ow_life 0 7 4 @ ow_life 3 8 2)) = 4"
  by (intro conjI ow_life_valid) code_simp+

end
