(* ===== verification/Executor.thy ===== *)
theory Executor
  imports Dispatch Targetmap Object_Write
begin

text \<open>
  Preparing a run, \<open>pkg/replay/executor.go\<close>: \<open>prepareInternal\<close> validates the trace in one
  streaming pass whose callback checks capabilities and object-write eligibility, records
  the byte extent of every target, and groups the ops by stream.

  The plan's speed-up factor is passed on unread and left out.
\<close>

section \<open>Data\<close>

record plan =
  pl_TracePath :: string
  pl_EngineName :: string
  pl_Mode :: string
  pl_MaxInflight :: int
  pl_TargetMap :: "target_map option"
  pl_Bucket :: string
  pl_PrepareMode :: string
  pl_SourceRoot :: string
  pl_CacheMode :: string
  pl_FillMode :: fill_mode
  pl_FillSeed :: int

record prep_metadata =
  pm_Extents :: "(int \<times> int) list"
  pm_Fill :: fill_config

record executor =
  ex_plan :: plan
  ex_hdr :: header
  ex_byStream :: "(int \<times> op list) list"
  ex_prepMeta :: prep_metadata
  ex_originalTargets :: "target_info list"
  ex_objectWriteSizes :: "(int \<times> int) list"

datatype cap_error =
    CapRead | CapFsync | CapWriteSeek | CapWritePartial | CapStat | CapObject op_kind

datatype callback_error =
    CEGroup int
  | CECaps cap_error
  | CEObjectWrite ow_error

datatype prepare_error =
    PETargetMap tm_error
  | PEContainment engine_error
  | PEValidate "callback_error validate_err"
  | PEInvalid report
  | PEThink

section \<open>Checks on the target table and the ops\<close>

fun checkTargets :: "(string \<Rightarrow> engine_error option) \<Rightarrow> target_info list \<Rightarrow> engine_error option" where
  "checkTargets check [] = None"
| "checkTargets check (t # ts) = (case check (ti_name t) of Some e \<Rightarrow> Some e | None \<Rightarrow> checkTargets check ts)"

definition checkTargetContainment :: "('s, 'z) engine_scheme \<Rightarrow> target_info list \<Rightarrow> engine_error option" where
  "checkTargetContainment eng targets =
     (case eng_checkTarget eng of None \<Rightarrow> None | Some check \<Rightarrow> checkTargets check targets)"

definition checkOpCaps :: "op \<Rightarrow> capabilities \<Rightarrow> cap_error option" where
  "checkOpCaps x caps =
     (case op_op x of
        OpRead \<Rightarrow> if \<not> cap_Seekable caps then Some CapRead else None
      | OpFsync \<Rightarrow> if \<not> cap_Durable caps \<and> \<not> cap_ObjectAPI caps then Some CapFsync else None
      | OpWrite \<Rightarrow>
          if op_off x \<noteq> None \<and> \<not> cap_Seekable caps then Some CapWriteSeek
          else if op_off x \<noteq> None \<and> \<not> cap_PartialWrite caps \<and> \<not> cap_ObjectAPI caps then Some CapWritePartial
          else None
      | OpStat \<Rightarrow> if \<not> cap_Seekable caps then Some CapStat else None
      | OpPut \<Rightarrow> if \<not> cap_ObjectAPI caps then Some (CapObject OpPut) else None
      | OpGet \<Rightarrow> if \<not> cap_ObjectAPI caps then Some (CapObject OpGet) else None
      | OpHead \<Rightarrow> if \<not> cap_ObjectAPI caps then Some (CapObject OpHead) else None
      | OpDelete \<Rightarrow> if \<not> cap_ObjectAPI caps then Some (CapObject OpDelete) else None
      | _ \<Rightarrow> None)"

section \<open>Preparation metadata\<close>

text \<open>\<open>if end > meta.Extents[i] { meta.Extents[i] = end }\<close>, a missing entry reading as zero.\<close>

definition extentOf :: "(int \<times> int) list \<Rightarrow> int \<Rightarrow> int" where
  "extentOf ext i = (case map_of ext i of None \<Rightarrow> 0 | Some n \<Rightarrow> n)"

definition raiseExtent :: "int \<Rightarrow> int \<Rightarrow> (int \<times> int) list \<Rightarrow> (int \<times> int) list" where
  "raiseExtent i e ext = (if e > extentOf ext i then AList.update i e ext else ext)"

definition updatePrepMetadata :: "op \<Rightarrow> (int \<times> int) list \<times> (int \<times> int) list \<Rightarrow> (int \<times> int) list \<times> (int \<times> int) list" where
  "updatePrepMetadata x m =
     (case m of (ext, h2t) \<Rightarrow>
       if op_op x = OpOpen then
         (case (op_h x, op_tgt x) of (Some h, Some t) \<Rightarrow> (ext, AList.update h t h2t) | _ \<Rightarrow> (ext, h2t))
       else if op_op x = OpRead \<or> op_op x = OpWrite then
         (case (op_h x, op_off x, op_len x) of
            (Some h, Some off, Some _) \<Rightarrow>
              (case map_of h2t h of
                 None \<Rightarrow> (ext, h2t)
               | Some idx \<Rightarrow> (raiseExtent idx (i64 (off + expectedBytes x)) ext, h2t))
          | _ \<Rightarrow> (ext, h2t))
       else if op_op x = OpClose then
         (case op_h x of Some h \<Rightarrow> (ext, AList.delete h h2t) | None \<Rightarrow> (ext, h2t))
       else if op_op x = OpGet \<or> op_op x = OpPut then
         (case (op_tgt x, op_len x) of
            (Some t, Some _) \<Rightarrow>
              let off = (case op_off x of None \<Rightarrow> 0 | Some o' \<Rightarrow> o')
              in (raiseExtent t (i64 (off + expectedBytes x)) ext, h2t)
          | _ \<Rightarrow> (ext, h2t))
       else (ext, h2t))"

section \<open>The streaming pass\<close>

text \<open>The variables the callback closes over.\<close>

record prep_state =
  ps_byStream :: "(int \<times> op list) list"
  ps_opsWithDur :: int
  ps_eligibility :: "eligibility option"
  ps_meta :: "(int \<times> int) list \<times> (int \<times> int) list"

definition streamOps :: "(int \<times> op list) list \<Rightarrow> int \<Rightarrow> op list" where
  "streamOps bs s = (case map_of bs s of None \<Rightarrow> [] | Some xs \<Rightarrow> xs)"

definition appendOp :: "op \<Rightarrow> (int \<times> op list) list \<Rightarrow> (int \<times> op list) list" where
  "appendOp x bs = AList.update (op_s x) (streamOps bs (op_s x) @ [x]) bs"

definition prepareOp :: "capabilities \<Rightarrow> target_info list \<Rightarrow> int list \<Rightarrow> bool \<Rightarrow> prep_state \<Rightarrow> op \<Rightarrow> callback_error + prep_state" where
  "prepareOp caps targets streamIDs loadAll ps x =
     (let ps1 = (if op_dur x \<noteq> None then ps\<lparr>ps_opsWithDur := ps_opsWithDur ps + 1\<rparr> else ps) in
      if op_group x \<noteq> None \<and> op_group x \<noteq> Some 0 then Inl (CEGroup (the (op_group x)))
      else (case checkOpCaps x caps of
        Some e \<Rightarrow> Inl (CECaps e)
      | None \<Rightarrow>
          (case (case ps_eligibility ps1 of
                   None \<Rightarrow> Inr None
                 | Some el \<Rightarrow> map_sum id Some (observe targets el x)) of
             Inl e \<Rightarrow> Inl (CEObjectWrite e)
           | Inr el' \<Rightarrow>
               let ps2 = ps1\<lparr>ps_eligibility := el', ps_meta := updatePrepMetadata x (ps_meta ps1)\<rparr>
               in if loadAll \<or> op_s x \<in> set streamIDs
                  then Inr (ps2\<lparr>ps_byStream := appendOp x (ps_byStream ps2)\<rparr>)
                  else Inr ps2)))"

definition initPrepState :: "capabilities \<Rightarrow> prep_state" where
  "initPrepState caps = \<lparr>ps_byStream = [], ps_opsWithDur = 0,
     ps_eligibility = (if cap_ObjectAPI caps \<and> \<not> cap_PartialWrite caps then Some newObjectWriteEligibility else None),
     ps_meta = ([], [])\<rparr>"

definition prepareInternal :: "url_parser \<Rightarrow> ('s, 'z) engine_scheme \<Rightarrow> plan \<Rightarrow> reader \<Rightarrow> int list \<Rightarrow> bool \<Rightarrow> prepare_error + executor" where
  "prepareInternal parseURL eng pl r streamIDs loadAll =
     (let hdr0 = rd_hdr r in
      (case (case pl_TargetMap pl of
               None \<Rightarrow> Inr (hdr_targets hdr0)
             | Some m \<Rightarrow> map_sum id fst (rewrite parseURL m (hdr_targets hdr0)
                 \<lparr>ec_EngineKind = pl_EngineName pl, ec_Bucket = pl_Bucket pl\<rparr>)) of
         Inl e \<Rightarrow> Inl (PETargetMap e)
       | Inr targets \<Rightarrow>
           (case checkTargetContainment eng targets of
              Some e \<Rightarrow> Inl (PEContainment e)
            | None \<Rightarrow>
                (case validateWithOps r (prepareOp (eng_caps eng) targets streamIDs loadAll) (initPrepState (eng_caps eng)) of
                   (rep, Some e, _) \<Rightarrow> Inl (PEValidate e)
                 | (rep, None, ps) \<Rightarrow>
                     if \<not> report_ok rep then Inl (PEInvalid rep)
                     else if pl_Mode pl = ''think'' \<and> ps_opsWithDur ps = 0 then Inl PEThink
                     else Inr \<lparr>ex_plan = pl, ex_hdr = hdr0\<lparr>hdr_targets := targets\<rparr>,
                       ex_byStream = ps_byStream ps,
                       ex_prepMeta = \<lparr>pm_Extents = fst (ps_meta ps),
                         pm_Fill = normalizeFill \<lparr>fc_mode = pl_FillMode pl, fc_seed = of_int (pl_FillSeed pl)\<rparr>\<rparr>,
                       ex_originalTargets = hdr_targets hdr0,
                       ex_objectWriteSizes = (case ps_eligibility ps of None \<Rightarrow> [] | Some el \<Rightarrow> el_sizes el)\<rparr>))))"

definition prepare :: "url_parser \<Rightarrow> ('s, 'z) engine_scheme \<Rightarrow> plan \<Rightarrow> reader \<Rightarrow> prepare_error + executor" where
  "prepare parseURL eng pl r = prepareInternal parseURL eng pl r [] True"

definition prepareAssigned :: "url_parser \<Rightarrow> ('s, 'z) engine_scheme \<Rightarrow> plan \<Rightarrow> reader \<Rightarrow> int list \<Rightarrow> prepare_error + executor" where
  "prepareAssigned parseURL eng pl r streamIDs = prepareInternal parseURL eng pl r streamIDs False"

section \<open>The executor's accessors\<close>

definition EquivalenceObjectLevel :: string where "EquivalenceObjectLevel = ''object-level''"
definition EquivalenceSyscallLevel :: string where "EquivalenceSyscallLevel = ''syscall-level''"

definition replayEquivalence :: "executor \<Rightarrow> string" where
  "replayEquivalence ex =
     (if length (ex_objectWriteSizes ex) > 0 then EquivalenceObjectLevel else EquivalenceSyscallLevel)"

fun withStreamsLoop :: "(int \<times> op list) list \<Rightarrow> int list \<Rightarrow> (int \<times> op list) list \<Rightarrow> (int \<times> op list) list" where
  "withStreamsLoop bs [] sub = sub"
| "withStreamsLoop bs (sid # sids) sub =
     withStreamsLoop bs sids (case map_of bs sid of Some ops \<Rightarrow> AList.update sid ops sub | None \<Rightarrow> sub)"

definition withStreams :: "executor \<Rightarrow> int list \<Rightarrow> executor" where
  "withStreams ex streamIDs = ex\<lparr>ex_byStream := withStreamsLoop (ex_byStream ex) streamIDs []\<rparr>"

definition streamIDs :: "executor \<Rightarrow> int list" where
  "streamIDs ex = sort (map fst (ex_byStream ex))"

definition runModeOK :: "executor \<Rightarrow> bool" where
  "runModeOK ex \<longleftrightarrow> pl_Mode (ex_plan ex) \<in> {''asap'', ''think'', ''timeline'', ''scaled''}"

section \<open>What the pass computes\<close>

lemma streamOps_append: "streamOps (appendOp x bs) s = (if s = op_s x then streamOps bs s @ [x] else streamOps bs s)"
  by (simp add: streamOps_def appendOp_def)

text \<open>The callback of one op, seen from its effects.\<close>

lemma prepareOp_Inr:
  assumes "prepareOp caps targets ids all ps x = Inr ps'"
  shows "(op_group x = None \<or> op_group x = Some 0) \<and> checkOpCaps x caps = None
    \<and> ps_meta ps' = updatePrepMetadata x (ps_meta ps)
    \<and> ps_opsWithDur ps' = ps_opsWithDur ps + (if op_dur x \<noteq> None then 1 else 0)
    \<and> ps_byStream ps' = (if all \<or> op_s x \<in> set ids then appendOp x (ps_byStream ps) else ps_byStream ps)
    \<and> (case ps_eligibility ps of None \<Rightarrow> ps_eligibility ps' = None
         | Some el \<Rightarrow> \<exists>el'. observe targets el x = Inr el' \<and> ps_eligibility ps' = Some el')"
  using assms
  by (cases "ps_eligibility ps"; cases "op_dur x = None")
    (auto simp: prepareOp_def Let_def map_sum_def split: if_splits option.splits sum.splits)

definition wanted :: "bool \<Rightarrow> int list \<Rightarrow> op \<Rightarrow> bool" where
  "wanted all ids x \<longleftrightarrow> all \<or> op_s x \<in> set ids"

definition pass_ok :: "capabilities \<Rightarrow> target_info list \<Rightarrow> int list \<Rightarrow> bool \<Rightarrow> op list \<Rightarrow> prep_state \<Rightarrow> bool" where
  "pass_ok caps targets ids all ops ps \<longleftrightarrow>
     (\<forall>x \<in> set ops. (op_group x = None \<or> op_group x = Some 0) \<and> checkOpCaps x caps = None)
     \<and> ps_meta ps = fold updatePrepMetadata ops ([], [])
     \<and> ps_opsWithDur ps = int (length (filter (\<lambda>x. op_dur x \<noteq> None) ops))
     \<and> (case ps_eligibility (initPrepState caps) of None \<Rightarrow> ps_eligibility ps = None
          | Some el0 \<Rightarrow> \<exists>el. foldOps (observe targets) ops el0 = Inr el \<and> ps_eligibility ps = Some el)"

definition grouped :: "int list \<Rightarrow> bool \<Rightarrow> op list \<Rightarrow> (int \<times> op list) list \<Rightarrow> bool" where
  "grouped ids all ops bs \<longleftrightarrow> distinct (map fst bs)
     \<and> (\<forall>s. map_of bs s =
          (let own = filter (\<lambda>x. op_s x = s \<and> wanted all ids x) ops in if own = [] then None else Some own))"

lemma grouped_append:
  assumes "grouped ids all ops bs"
  shows "grouped ids all (ops @ [x]) (if wanted all ids x then appendOp x bs else bs)"
  using assms by (auto simp: grouped_def appendOp_def streamOps_def Let_def distinct_keys_update)

lemma pass_result:
  assumes "foldOps (prepareOp caps targets ids all) ops (initPrepState caps) = Inr ps"
  shows "pass_ok caps targets ids all ops ps \<and> grouped ids all ops (ps_byStream ps)"
  using assms
proof (induction ops arbitrary: ps rule: rev_induct)
  case Nil
  then show ?case by (auto simp: pass_ok_def grouped_def initPrepState_def split: option.split)
next
  case (snoc x ops)
  obtain ps0 where f: "foldOps (prepareOp caps targets ids all) ops (initPrepState caps) = Inr ps0"
    and st: "prepareOp caps targets ids all ps0 x = Inr ps"
    using snoc.prems by (auto simp: foldOps_snoc split: sum.splits)
  note IH = snoc.IH [OF f] and step = prepareOp_Inr [OF st]
  have "grouped ids all (ops @ [x]) (ps_byStream ps)"
    using grouped_append [of ids all ops "ps_byStream ps0" x] IH step by (simp add: wanted_def)
  moreover have "pass_ok caps targets ids all (ops @ [x]) ps"
    using IH step by (cases "ps_eligibility (initPrepState caps)") (auto simp: pass_ok_def foldOps_snoc)
  ultimately show ?case by blast
qed

lemma rewrite_length: "rewrite parseURL m targets ec = Inr (out, un) \<Longrightarrow> length out = length targets"
  using rewriteLoop_Inr [of parseURL m "tm_Rules m" ec targets "[]" "[]" out un]
  by (auto simp: rewrite_def dest: list_all2_lengthD)

lemma prepareInternal_Inr:
  assumes "prepareInternal parseURL eng pl r ids all = Inr ex"
  obtains nops ps where "scanOps (rd_lines r) (rd_line r) = (nops, None)" "trace_spec r (map snd nops)"
    "length (hdr_targets (ex_hdr ex)) = length (hdr_targets (rd_hdr r))"
    "ex_hdr ex = (rd_hdr r)\<lparr>hdr_targets := hdr_targets (ex_hdr ex)\<rparr>"
    "checkTargetContainment eng (hdr_targets (ex_hdr ex)) = None"
    "pass_ok (eng_caps eng) (hdr_targets (ex_hdr ex)) ids all (map snd nops) ps"
    "grouped ids all (map snd nops) (ex_byStream ex)"
    "pm_Extents (ex_prepMeta ex) = fst (ps_meta ps)"
    "ex_objectWriteSizes ex = (case ps_eligibility ps of None \<Rightarrow> [] | Some el \<Rightarrow> el_sizes el)"
    "pl_Mode pl = ''think'' \<longrightarrow> ps_opsWithDur ps \<noteq> 0"
proof -
  obtain targets where t: "(case pl_TargetMap pl of None \<Rightarrow> Inr (hdr_targets (rd_hdr r))
      | Some m \<Rightarrow> map_sum id fst (rewrite parseURL m (hdr_targets (rd_hdr r))
          \<lparr>ec_EngineKind = pl_EngineName pl, ec_Bucket = pl_Bucket pl\<rparr>)) = (Inr targets :: tm_error + _)"
    using assms by (auto simp: prepareInternal_def Let_def split: sum.splits)
  have len: "length targets = length (hdr_targets (rd_hdr r))"
    using t rewrite_length by (auto simp: map_sum_def split: option.splits sum.splits)
  obtain rep ps where c: "checkTargetContainment eng targets = None"
    and v: "validateWithOps r (prepareOp (eng_caps eng) targets ids all) (initPrepState (eng_caps eng)) = (rep, None, ps)"
    and ok: "report_ok rep"
    and th: "\<not> (pl_Mode pl = ''think'' \<and> ps_opsWithDur ps = 0)"
    and ex: "ex = \<lparr>ex_plan = pl, ex_hdr = (rd_hdr r)\<lparr>hdr_targets := targets\<rparr>,
        ex_byStream = ps_byStream ps,
        ex_prepMeta = \<lparr>pm_Extents = fst (ps_meta ps),
          pm_Fill = normalizeFill \<lparr>fc_mode = pl_FillMode pl, fc_seed = of_int (pl_FillSeed pl)\<rparr>\<rparr>,
        ex_originalTargets = hdr_targets (rd_hdr r),
        ex_objectWriteSizes = (case ps_eligibility ps of None \<Rightarrow> [] | Some el \<Rightarrow> el_sizes el)\<rparr>"
    using assms unfolding prepareInternal_def Let_def t
    by (auto split: option.splits prod.splits if_splits)
  obtain nops where n: "scanOps (rd_lines r) (rd_line r) = (nops, None)" "report_ok rep \<longleftrightarrow> trace_spec r (map snd nops)"
    "foldOps (prepareOp (eng_caps eng) targets ids all) (filter (\<lambda>x. op_kind_valid (op_op x)) (map snd nops))
       (initPrepState (eng_caps eng)) = Inr ps"
    by (rule validateWithOps_finished [OF v])
  have ts: "trace_spec r (map snd nops)" using n(2) ok by simp
  then have "filter (\<lambda>x. op_kind_valid (op_op x)) (map snd nops) = map snd nops"
    using ops_spec_kinds [of "rd_hdr r" "map snd nops"] unfolding trace_spec_def filter_id_conv by blast
  with n(3) have "foldOps (prepareOp (eng_caps eng) targets ids all) (map snd nops) (initPrepState (eng_caps eng)) = Inr ps"
    by simp
  note pr = pass_result [OF this]
  show thesis
    by (rule that [OF n(1) ts]) (use pr c th len in \<open>auto simp: ex\<close>)
qed

section \<open>Extents\<close>

text \<open>The op \<open>x\<close> shows that target \<open>t\<close> has at least \<open>e\<close> bytes.\<close>

definition touches :: "op list \<Rightarrow> op \<Rightarrow> int \<Rightarrow> int \<Rightarrow> bool" where
  "touches ops x t e \<longleftrightarrow>
     ((op_op x = OpRead \<or> op_op x = OpWrite)
        \<and> (\<exists>h m. op_h x = Some h \<and> opened_as ops h t m) \<and> e = the (op_off x) + expectedBytes x)
     \<or> ((op_op x = OpGet \<or> op_op x = OpPut) \<and> op_tgt x = Some t
        \<and> e = (case op_off x of None \<Rightarrow> 0 | Some off \<Rightarrow> off) + expectedBytes x)"

definition extents_inv :: "op list \<Rightarrow> (int \<times> int) list \<Rightarrow> bool" where
  "extents_inv pre ext \<longleftrightarrow> (\<forall>t. 0 \<le> extentOf ext t
     \<and> (\<forall>x \<in> set pre. \<forall>e. touches pre x t e \<longrightarrow> e \<le> extentOf ext t)
     \<and> (extentOf ext t = 0 \<or> (\<exists>x \<in> set pre. touches pre x t (extentOf ext t))))"

definition h2t_inv :: "op list \<Rightarrow> (int \<times> int) list \<Rightarrow> bool" where
  "h2t_inv pre h2t \<longleftrightarrow> (\<forall>h t. map_of h2t h = Some t \<longrightarrow> (\<exists>m. opened_as pre h t m))
     \<and> (\<forall>h t m. opened_as pre h t m \<and> \<not> closed_in pre h \<longrightarrow> map_of h2t h = Some t)"

lemma extents_invD:
  assumes "extents_inv pre ext"
  shows "0 \<le> extentOf ext t" "x \<in> set pre \<Longrightarrow> touches pre x t e \<Longrightarrow> e \<le> extentOf ext t"
    "extentOf ext t = 0 \<or> (\<exists>x \<in> set pre. touches pre x t (extentOf ext t))"
  using assms by (simp_all add: extents_inv_def)

lemma extentOf_raise [simp]:
  "extentOf (raiseExtent i e ext) t = (if t = i then max e (extentOf ext i) else extentOf ext t)"
  by (auto simp: raiseExtent_def extentOf_def)

lemma touches_unique:
  assumes "ops_spec hdr ops" "touches ops x t e" "touches ops x t' e'"
  shows "t = t' \<and> e = e'"
  using assms handle_opened_once [OF assms(1)] by (auto simp: touches_def)

lemma touches_mono: "touches pre x t e \<Longrightarrow> touches (pre @ [y]) x t e"
  by (auto simp: touches_def)

text \<open>A later op never changes what an earlier one touches.\<close>

lemma touches_back:
  assumes "ops_spec hdr (pre @ [y])" "x \<in> set pre" "touches (pre @ [y]) x t e"
  shows "touches pre x t e"
proof (cases "op_op x = OpRead \<or> op_op x = OpWrite")
  case True
  then obtain h m where h: "op_h x = Some h" "opened_as (pre @ [y]) h t m" using assms(3) by (auto simp: touches_def)
  have pre: "ops_spec hdr pre" "op_spec hdr pre y" using assms(1) by (simp_all add: ops_spec_def)
  have "uses h x" using True h(1) by (auto simp: uses_def)
  from ops_spec_use [OF pre(1) assms(2) this] obtain z where "z \<in> set pre" "opens h z" ..
  then have "\<not> opens h y" using op_spec_opens [OF pre(2)] by blast
  with h assms(3) True show ?thesis by (auto simp: touches_def)
next
  case False
  with assms(3) show ?thesis by (auto simp: touches_def)
qed

lemma extents_inv_touch:
  assumes ops: "ops_spec hdr (pre @ [x])" and inv: "extents_inv pre ext" and t: "touches (pre @ [x]) x t e"
  shows "extents_inv (pre @ [x]) (raiseExtent t e ext)"
  unfolding extents_inv_def
proof (intro allI conjI ballI impI)
  fix t' show "0 \<le> extentOf (raiseExtent t e ext) t'" using extents_invD(1) [OF inv, of t'] by (auto simp: max_def)
next
  fix t' y e' assume y: "y \<in> set (pre @ [x])" and tc: "touches (pre @ [x]) y t' e'"
  show "e' \<le> extentOf (raiseExtent t e ext) t'"
  proof (cases "y \<in> set pre")
    case True
    then have "e' \<le> extentOf ext t'" using inv touches_back [OF ops True tc] by (auto simp: extents_inv_def)
    then show ?thesis by (auto simp: le_max_iff_disj)
  next
    case False
    with y have "y = x" by simp
    with touches_unique [OF ops t] tc have "t' = t" "e' = e" by blast+
    then show ?thesis by simp
  qed
next
  fix t'
  have old: "extentOf ext t' = 0 \<or> (\<exists>y \<in> set (pre @ [x]). touches (pre @ [x]) y t' (extentOf ext t'))"
    using extents_invD(3) [OF inv, of t'] touches_mono by fastforce
  show "extentOf (raiseExtent t e ext) t' = 0 \<or>
      (\<exists>y \<in> set (pre @ [x]). touches (pre @ [x]) y t' (extentOf (raiseExtent t e ext) t'))"
    using old t by (auto simp: max_def)
qed

lemma extents_inv_quiet:
  assumes "ops_spec hdr (pre @ [x])" "extents_inv pre ext" "\<And>t e. \<not> touches (pre @ [x]) x t e"
  shows "extents_inv (pre @ [x]) ext"
  unfolding extents_inv_def
proof (intro allI conjI ballI impI)
  fix t show "0 \<le> extentOf ext t" using assms(2) by (simp add: extents_inv_def)
next
  fix t y e assume y: "y \<in> set (pre @ [x])" "touches (pre @ [x]) y t e"
  then have "y \<in> set pre" using assms(3) by auto
  with touches_back [OF assms(1) this y(2)] assms(2) show "e \<le> extentOf ext t" by (simp add: extents_inv_def)
next
  fix t show "extentOf ext t = 0 \<or> (\<exists>y \<in> set (pre @ [x]). touches (pre @ [x]) y t (extentOf ext t))"
    using extents_invD(3) [OF assms(2), of t] touches_mono by fastforce
qed

definition endOf :: "op \<Rightarrow> int" where
  "endOf x = (case op_off x of None \<Rightarrow> 0 | Some off \<Rightarrow> off) + expectedBytes x"

lemma valid_expected:
  assumes "op_spec hdr pre x" "op_op x \<in> {OpRead, OpWrite, OpGet, OpPut}"
  shows "0 \<le> expectedBytes x" "expectedBytes x \<le> lenOf x" "\<exists>n. op_len x = Some n \<and> 0 \<le> n"
    "op_op x \<noteq> OpPut \<Longrightarrow> \<exists>off. op_off x = Some off \<and> 0 \<le> off"
  using assms
  by (auto simp: op_spec_def expectedBytes_def transferredBytes_def requestedBytes_def ret_spec_def lenOf_def nat_field_def
      split: option.splits)

lemma h2t_invD:
  assumes "h2t_inv pre h2t"
  shows "map_of h2t h = Some t \<Longrightarrow> \<exists>m. opened_as pre h t m"
    "opened_as pre h t m \<Longrightarrow> \<not> closed_in pre h \<Longrightarrow> map_of h2t h = Some t"
  using assms unfolding h2t_inv_def by blast+

lemma h2t_invI:
  assumes "\<And>h t. map_of h2t h = Some t \<Longrightarrow> \<exists>m. opened_as pre h t m"
    "\<And>h t m. opened_as pre h t m \<Longrightarrow> \<not> closed_in pre h \<Longrightarrow> map_of h2t h = Some t"
  shows "h2t_inv pre h2t"
  using assms unfolding h2t_inv_def by blast

lemma h2t_inv_other:
  assumes "h2t_inv pre h2t" "op_op x \<noteq> OpOpen"
  shows "h2t_inv (pre @ [x]) h2t"
proof (rule h2t_invI)
  have x: "\<not> opens h x" for h using assms(2) by (simp add: opens_def)
  fix h t assume "map_of h2t h = Some t"
  from h2t_invD(1) [OF assms(1) this] show "\<exists>m. opened_as (pre @ [x]) h t m" by auto
next
  have x: "\<not> opens h x" for h using assms(2) by (simp add: opens_def)
  fix h t m assume "opened_as (pre @ [x]) h t m" "\<not> closed_in (pre @ [x]) h"
  then have "opened_as pre h t m" "\<not> closed_in pre h" using x by simp_all
  from h2t_invD(2) [OF assms(1) this] show "map_of h2t h = Some t" .
qed

lemma extents_step:
  assumes ops: "ops_spec hdr (pre @ [x])" and inv: "extents_inv pre ext" and h2t: "h2t_inv pre h2t"
    and bound: "endOf x < 2 ^ 63"
  shows "extents_inv (pre @ [x]) (fst (updatePrepMetadata x (ext, h2t)))
    \<and> h2t_inv (pre @ [x]) (snd (updatePrepMetadata x (ext, h2t)))"
proof -
  have pre: "ops_spec hdr pre" and sp: "op_spec hdr pre x" using ops by (simp_all add: ops_spec_def)
  consider "op_op x = OpOpen" | "op_op x = OpRead \<or> op_op x = OpWrite" | "op_op x = OpClose"
    | "op_op x = OpGet \<or> op_op x = OpPut" | "op_op x \<notin> {OpOpen, OpRead, OpWrite, OpClose, OpGet, OpPut}" by blast
  then show ?thesis
  proof cases
    case 1
    then obtain h t where x: "op_h x = Some h" "op_tgt x = Some t"
      using sp by (auto simp: op_spec_def target_ok_def split: option.splits)
    have fr: "\<forall>y \<in> set pre. \<not> opens h y" using op_spec_opens [OF sp] 1 x by (simp add: opens_def)
    then have nop: "\<not> opened_as pre h t' m" for t' m by (auto simp: opened_as_def)
    have u: "updatePrepMetadata x (ext, h2t) = (ext, AList.update h t h2t)" by (simp add: updatePrepMetadata_def 1 x)
    have "extents_inv (pre @ [x]) ext" by (rule extents_inv_quiet [OF ops inv]) (simp add: touches_def 1)
    moreover have "h2t_inv (pre @ [x]) (AList.update h t h2t)"
    proof (rule h2t_invI)
      fix h' t' assume "map_of (AList.update h t h2t) h' = Some t'"
      then show "\<exists>m. opened_as (pre @ [x]) h' t' m"
        using h2t_invD(1) [OF h2t, of h' t'] x 1 by (cases "h' = h") (auto simp: opens_def)
    next
      fix h' t' m assume o: "opened_as (pre @ [x]) h' t' m" "\<not> closed_in (pre @ [x]) h'"
      show "map_of (AList.update h t h2t) h' = Some t'"
      proof (cases "h' = h")
        case True
        with o nop x show ?thesis by (simp add: opens_def)
      next
        case False
        with o x have "opened_as pre h' t' m" "\<not> closed_in pre h'" by (simp_all add: opens_def)
        from h2t_invD(2) [OF h2t this] False show ?thesis by simp
      qed
    qed
    ultimately show ?thesis by (simp add: u)
  next
    case 2
    then have k: "op_op x \<in> {OpRead, OpWrite, OpGet, OpPut}" by auto
    from valid_expected [OF sp k] 2 obtain off n where x: "op_off x = Some off" "0 \<le> off" "op_len x = Some n" by auto
    obtain h where h: "op_h x = Some h" using sp 2 by (auto simp: op_spec_def handle_ok_def split: option.splits)
    have "uses h x" using 2 h by (auto simp: uses_def)
    note lv = op_spec_uses [OF sp this]
    obtain y where "y \<in> set pre" "opens h y" using live_opens [OF lv] by blast
    moreover have "op_tgt y \<noteq> None"
    proof -
      obtain a b where "pre = a @ y # b" using \<open>y \<in> set pre\<close> by (meson split_list)
      then have "op_spec hdr a y" using pre by (simp add: ops_spec_def each_after_def)
      then show ?thesis using \<open>opens h y\<close> by (auto simp: op_spec_def opens_def target_ok_def split: option.splits)
    qed
    ultimately obtain t m where o: "opened_as pre h t m" by (auto simp: opened_as_def)
    then have l: "map_of h2t h = Some t" using h2t_invD(2) [OF h2t] live_not_closed [OF pre lv] by blast
    have e: "i64 (off + expectedBytes x) = endOf x"
      using bound x valid_expected(1) [OF sp k] by (simp add: endOf_def i64_nonneg_bounded)
    have u: "updatePrepMetadata x (ext, h2t) = (raiseExtent t (endOf x) ext, h2t)"
      using 2 by (auto simp: updatePrepMetadata_def x h l e)
    have "touches (pre @ [x]) x t (endOf x)" using 2 o h x by (auto simp: touches_def endOf_def)
    from extents_inv_touch [OF ops inv this] h2t_inv_other [OF h2t] 2 show ?thesis by (auto simp: u)
  next
    case 3
    then obtain h where h: "op_h x = Some h" using sp by (auto simp: op_spec_def handle_ok_def split: option.splits)
    have u: "updatePrepMetadata x (ext, h2t) = (ext, AList.delete h h2t)" by (simp add: updatePrepMetadata_def 3 h)
    have "extents_inv (pre @ [x]) ext" by (rule extents_inv_quiet [OF ops inv]) (simp add: touches_def 3)
    moreover have "h2t_inv (pre @ [x]) (AList.delete h h2t)"
      by (rule h2t_invI) (use h2t_invD [OF h2t] 3 h in \<open>auto simp: opens_def closes_def split: if_splits\<close>)
    ultimately show ?thesis by (simp add: u)
  next
    case 4
    then have k: "op_op x \<in> {OpRead, OpWrite, OpGet, OpPut}" by auto
    obtain t n where x: "op_tgt x = Some t" "op_len x = Some n"
      using sp 4 by (auto simp: op_spec_def target_ok_def nat_field_def split: option.splits)
    have "0 \<le> endOf x"
      using valid_expected(1,4) [OF sp k] 4 sp by (auto simp: endOf_def op_spec_def split: option.splits)
    then have e: "i64 (endOf x) = endOf x" using bound by (simp add: i64_nonneg_bounded)
    have u: "updatePrepMetadata x (ext, h2t) = (raiseExtent t (endOf x) ext, h2t)"
      using 4 e by (auto simp: updatePrepMetadata_def x endOf_def Let_def split: option.split)
    have "touches (pre @ [x]) x t (endOf x)" using 4 x by (auto simp: touches_def endOf_def)
    from extents_inv_touch [OF ops inv this] h2t_inv_other [OF h2t] 4 show ?thesis by (auto simp: u)
  next
    case 5
    have u: "updatePrepMetadata x (ext, h2t) = (ext, h2t)" using 5 by (simp add: updatePrepMetadata_def)
    have "extents_inv (pre @ [x]) ext" by (rule extents_inv_quiet [OF ops inv]) (use 5 in \<open>simp add: touches_def\<close>)
    with h2t_inv_other [OF h2t] 5 show ?thesis by (simp add: u)
  qed
qed

lemma extents_all:
  assumes "ops_spec hdr ops" "\<forall>x \<in> set ops. endOf x < 2 ^ 63"
  shows "extents_inv ops (fst (fold updatePrepMetadata ops ([], [])))
    \<and> h2t_inv ops (snd (fold updatePrepMetadata ops ([], [])))"
  using assms
proof (induction ops rule: rev_induct)
  case Nil
  then show ?case by (simp add: extents_inv_def h2t_inv_def extentOf_def)
next
  case (snoc x ops)
  then have "ops_spec hdr ops" by (simp add: ops_spec_def)
  with snoc have "extents_inv ops (fst (fold updatePrepMetadata ops ([], [])))"
    "h2t_inv ops (snd (fold updatePrepMetadata ops ([], [])))" by simp_all
  from extents_step [OF snoc.prems(1) this] snoc.prems(2) show ?case by simp
qed

section \<open>Two passes with related callbacks\<close>

lemma validateLoop_related:
  assumes "R s1 s2"
    and step: "\<And>a b x. R a b \<Longrightarrow> (\<exists>e. f a x = Inl e \<and> g b x = Inl e) \<or> (\<exists>a' b'. f a x = Inr a' \<and> g b x = Inr b' \<and> R a' b')"
  shows "\<exists>vs' e a' b'. validateLoop f lines line vs s1 = (vs', e, a') \<and> validateLoop g lines line vs s2 = (vs', e, b') \<and> R a' b'"
  using assms
proof (induction f lines line vs s1 arbitrary: s2 rule: validateLoop.induct)
  case (1 f lines line vs s1)
  note step = "1.prems"(2)
  obtain res rest l where nx: "scanNext lines line = (res, rest, l)" by (metis prod_cases3)
  show ?case
  proof (cases res)
    case (Got x)
    obtain vs1 b where vo: "validateOp l x vs = (vs1, b)" by fastforce
    show ?thesis
    proof (cases b)
      case False
      then show ?thesis
        using "1.IH"(2) [OF nx [symmetric] Got refl vo [symmetric] _ "1.prems"] nx Got vo
        by (simp add: validateLoop.simps [of _ lines])
    next
      case True
      from step [OF "1.prems"(1), of x] show ?thesis
      proof (elim disjE exE conjE)
        fix e assume "f s1 x = Inl e" "g s2 x = Inl e"
        with True nx Got vo "1.prems"(1) show ?thesis by (simp add: validateLoop.simps [of _ lines])
      next
        fix a' b' assume fg: "f s1 x = Inr a'" "g s2 x = Inr b'" and R: "R a' b'"
        with "1.IH"(1) [OF nx [symmetric] Got refl vo [symmetric] _ fg(1) R step] True nx Got vo
        show ?thesis by (simp add: validateLoop.simps [of _ lines])
      qed
    qed
  qed (use nx "1.prems"(1) in \<open>simp_all add: validateLoop.simps [of _ lines]\<close>)
qed

lemma validateWithOps_related:
  assumes "R s1 s2"
    and "\<And>a b x. R a b \<Longrightarrow> (\<exists>e. f a x = Inl e \<and> g b x = Inl e) \<or> (\<exists>a' b'. f a x = Inr a' \<and> g b x = Inr b' \<and> R a' b')"
  shows "\<exists>rep e a' b'. validateWithOps r f s1 = (rep, e, a') \<and> validateWithOps r g s2 = (rep, e, b') \<and> R a' b'"
proof -
  obtain vs' e a' b' where l: "validateLoop f (rd_lines r) (rd_line r) (initVState r) s1 = (vs', e, a')"
    "validateLoop g (rd_lines r) (rd_line r) (initVState r) s2 = (vs', e, b')" "R a' b'"
    using validateLoop_related [of R s1 s2 f g "rd_lines r" "rd_line r" "initVState r", OF assms] by blast
  then show ?thesis by (cases e) (simp_all add: validateWithOps_def Let_def)
qed

text \<open>Two callback states that differ only in which streams they kept.\<close>

definition same_pass :: "int list \<Rightarrow> prep_state \<Rightarrow> prep_state \<Rightarrow> bool" where
  "same_pass ids a b \<longleftrightarrow> ps_opsWithDur a = ps_opsWithDur b \<and> ps_eligibility a = ps_eligibility b \<and> ps_meta a = ps_meta b
     \<and> map_of (ps_byStream b) = map_of (ps_byStream a) |` set ids"

lemma same_pass_init: "same_pass ids (initPrepState caps) (initPrepState caps)"
  by (simp add: same_pass_def initPrepState_def)

lemma appendOp_restrict:
  assumes "map_of bs' = map_of bs |` S"
  shows "map_of (if op_s x \<in> S then appendOp x bs' else bs') = map_of (appendOp x bs) |` S"
  using assms by (auto simp: appendOp_def streamOps_def restrict_map_def fun_eq_iff)

lemma same_pass_step:
  assumes "same_pass ids a b"
  shows "(\<exists>e. prepareOp caps targets [] True a x = Inl e \<and> prepareOp caps targets ids False b x = Inl e)
    \<or> (\<exists>a' b'. prepareOp caps targets [] True a x = Inr a' \<and> prepareOp caps targets ids False b x = Inr b' \<and> same_pass ids a' b')"
proof (cases "prepareOp caps targets [] True a x")
  case (Inl e)
  with assms show ?thesis
    by (auto simp: prepareOp_def Let_def same_pass_def map_sum_def split: if_splits option.splits sum.splits)
next
  case (Inr a')
  obtain b' where b': "prepareOp caps targets ids False b x = Inr b'"
  proof (cases "prepareOp caps targets ids False b x")
    case (Inl e)
    with Inr assms have False
      by (auto simp: prepareOp_def Let_def same_pass_def map_sum_def split: if_splits option.splits sum.splits)
    then show ?thesis ..
  qed (rule that)
  have "same_pass ids a' b'"
    using prepareOp_Inr [OF Inr] prepareOp_Inr [OF b'] assms
      appendOp_restrict [of "ps_byStream b" "ps_byStream a" "set ids" x]
    by (auto simp: same_pass_def split: option.splits if_splits)
  with Inr b' show ?thesis by blast
qed

lemma withStreamsLoop_map:
  "map_of (withStreamsLoop bs ids sub) = map_of sub ++ (map_of bs |` set ids)"
proof (induction ids arbitrary: sub)
  case (Cons s ids)
  show ?case
    unfolding withStreamsLoop.simps Cons.IH
    by (rule ext) (auto simp: map_add_def restrict_map_def split: option.splits)
qed simp

lemma prepareAssigned_same:
  assumes "prepare parseURL eng pl r = Inr ex"
  obtains ex' where "prepareAssigned parseURL eng pl r ids = Inr ex'"
    "ex' = ex\<lparr>ex_byStream := ex_byStream ex'\<rparr>"
    "map_of (ex_byStream ex') = map_of (ex_byStream ex) |` set ids"
proof -
  obtain targets where t: "(case pl_TargetMap pl of None \<Rightarrow> Inr (hdr_targets (rd_hdr r))
      | Some m \<Rightarrow> map_sum id fst (rewrite parseURL m (hdr_targets (rd_hdr r))
          \<lparr>ec_EngineKind = pl_EngineName pl, ec_Bucket = pl_Bucket pl\<rparr>)) = (Inr targets :: tm_error + _)"
    using assms by (auto simp: prepare_def prepareInternal_def Let_def split: sum.splits)
  obtain rep e a b where v: "validateWithOps r (prepareOp (eng_caps eng) targets [] True) (initPrepState (eng_caps eng)) = (rep, e, a)"
    "validateWithOps r (prepareOp (eng_caps eng) targets ids False) (initPrepState (eng_caps eng)) = (rep, e, b)"
    "same_pass ids a b"
    using validateWithOps_related [where R = "same_pass ids" and r = r and f = "prepareOp (eng_caps eng) targets [] True"
        and g = "prepareOp (eng_caps eng) targets ids False", OF same_pass_init same_pass_step] by blast
  have ok: "checkTargetContainment eng targets = None" "e = None" "report_ok rep"
      "\<not> (pl_Mode pl = ''think'' \<and> ps_opsWithDur a = 0)"
    and ex: "ex = \<lparr>ex_plan = pl, ex_hdr = (rd_hdr r)\<lparr>hdr_targets := targets\<rparr>, ex_byStream = ps_byStream a,
        ex_prepMeta = \<lparr>pm_Extents = fst (ps_meta a),
          pm_Fill = normalizeFill \<lparr>fc_mode = pl_FillMode pl, fc_seed = of_int (pl_FillSeed pl)\<rparr>\<rparr>,
        ex_originalTargets = hdr_targets (rd_hdr r),
        ex_objectWriteSizes = (case ps_eligibility a of None \<Rightarrow> [] | Some el \<Rightarrow> el_sizes el)\<rparr>"
    using assms unfolding prepare_def prepareInternal_def Let_def t
    by (auto simp: v split: option.splits if_splits)
  show thesis
    by (rule that [of "ex\<lparr>ex_byStream := ps_byStream b\<rparr>"])
      (use v(2,3) ok in \<open>auto simp: prepareAssigned_def prepareInternal_def Let_def t ex same_pass_def\<close>)
qed

section \<open>A sample run\<close>

definition sample_plan :: plan where
  "sample_plan = \<lparr>pl_TracePath = ''t'', pl_EngineName = ''mem'', pl_Mode = ''think'', pl_MaxInflight = 0, pl_TargetMap = None,
     pl_Bucket = [], pl_PrepareMode = [], pl_SourceRoot = [], pl_CacheMode = [], pl_FillMode = FillUnset, pl_FillSeed = 0\<rparr>"

definition sample_executor :: executor where
  "sample_executor = \<lparr>ex_plan = sample_plan, ex_hdr = sample_header, ex_byStream = [(0, sample_ops)],
     ex_prepMeta = \<lparr>pm_Extents = [(0, 11)], pm_Fill = \<lparr>fc_mode = FillSeeded, fc_seed = 1\<rparr>\<rparr>,
     ex_originalTargets = hdr_targets sample_header, ex_objectWriteSizes = []\<rparr>"

lemma sample_prepare:
  "prepare (\<lambda>_. None) (memEngine (withFixedSize 11)) sample_plan sample_reader = Inr sample_executor"
  by code_simp

section \<open>Properties\<close>

lemma grouped_stream: "grouped ids all ops bs \<Longrightarrow> streamOps bs s = filter (\<lambda>x. op_s x = s \<and> wanted all ids x) ops"
  by (auto simp: grouped_def streamOps_def Let_def split: option.split)

lemma grouped_keys: "grouped ids all ops bs \<Longrightarrow> set (map fst bs) = op_s ` {x \<in> set ops. wanted all ids x}"
proof -
  assume g: "grouped ids all ops bs"
  have k: "s \<in> fst ` set bs \<longleftrightarrow> filter (\<lambda>x. op_s x = s \<and> wanted all ids x) ops \<noteq> []" for s
    using g by (auto simp: grouped_def Let_def simp flip: dom_map_of_alist)
  show ?thesis unfolding set_map by (rule set_eqI, unfold k) (auto simp: filter_empty_conv)
qed

lemma counted_nonempty: "n = int (length xs) \<Longrightarrow> n \<noteq> 0 \<Longrightarrow> xs \<noteq> []"
  by auto

lemma scan_unique: "scanOps ls l = (nops, None) \<Longrightarrow> scanOps ls l = (nops', None) \<Longrightarrow> nops = nops'"
  by simp

text \<open>
  C18: a trace that \<open>Prepare\<close> accepts is valid, uses only the default group and only ops the
  engine can serve, every target is inside the engine's containment root, and in think mode
  some op has a recorded duration. The ops are partitioned into their streams, each stream in
  trace order, and the stream ids come out ascending and without repetition.
\<close>

theorem prepare_accepts:
  assumes "prepare parseURL eng pl r = Inr ex" "scanOps (rd_lines r) (rd_line r) = (nops, None)"
  shows "trace_spec r (map snd nops)
    \<and> (\<forall>x \<in> set (map snd nops). group_of x = 0 \<and> checkOpCaps x (eng_caps eng) = None)
    \<and> checkTargetContainment eng (hdr_targets (ex_hdr ex)) = None
    \<and> (pl_Mode pl = ''think'' \<longrightarrow> (\<exists>x \<in> set (map snd nops). op_dur x \<noteq> None))
    \<and> (\<forall>s. streamOps (ex_byStream ex) s = filter (\<lambda>x. op_s x = s) (map snd nops))
    \<and> sorted (streamIDs ex) \<and> distinct (streamIDs ex) \<and> set (streamIDs ex) = op_s ` set (map snd nops)"
proof -
  obtain nops' ps where p: "scanOps (rd_lines r) (rd_line r) = (nops', None)" "trace_spec r (map snd nops')"
    "checkTargetContainment eng (hdr_targets (ex_hdr ex)) = None"
    "pass_ok (eng_caps eng) (hdr_targets (ex_hdr ex)) [] True (map snd nops') ps"
    "grouped [] True (map snd nops') (ex_byStream ex)" "pl_Mode pl = ''think'' \<longrightarrow> ps_opsWithDur ps \<noteq> 0"
    by (rule prepareInternal_Inr [OF assms(1) [unfolded prepare_def]])
  have n: "nops' = nops" using scan_unique [OF p(1) assms(2)] .
  have g: "op_group x = None \<or> op_group x = Some 0" "checkOpCaps x (eng_caps eng) = None" if "x \<in> set (map snd nops)" for x
    using p(4) that unfolding pass_ok_def n by blast+
  have "group_of x = 0 \<and> checkOpCaps x (eng_caps eng) = None" if "x \<in> set (map snd nops)" for x
    using g [OF that] by (auto simp: group_of_def)
  moreover have "\<exists>x \<in> set (map snd nops). op_dur x \<noteq> None" if "pl_Mode pl = ''think''"
  proof -
    have "ps_opsWithDur ps = int (length (filter (\<lambda>x. op_dur x \<noteq> None) (map snd nops)))"
      using p(4) unfolding pass_ok_def n by blast
    moreover have "ps_opsWithDur ps \<noteq> 0" using p(6) that by blast
    ultimately have "filter (\<lambda>x. op_dur x \<noteq> None) (map snd nops) \<noteq> []" by (rule counted_nonempty)
    then show ?thesis unfolding filter_empty_conv by blast
  qed
  moreover have "streamOps (ex_byStream ex) s = filter (\<lambda>x. op_s x = s) (map snd nops)" for s
    using grouped_stream [OF p(5)] by (simp add: wanted_def n)
  moreover have "set (streamIDs ex) = op_s ` set (map snd nops)"
    using grouped_keys [OF p(5)] by (simp add: streamIDs_def wanted_def n)
  moreover have "sorted (streamIDs ex)" "distinct (streamIDs ex)"
    using p(5) by (simp_all add: streamIDs_def grouped_def)
  ultimately show ?thesis using p(2,3) unfolding n by blast
qed

theorem prepare_accepts_witness:
  "trace_spec sample_reader sample_ops
    \<and> streamOps (ex_byStream sample_executor) 0 = filter (\<lambda>x. op_s x = 0) sample_ops
    \<and> sorted (streamIDs sample_executor) \<and> set (streamIDs sample_executor) = op_s ` set sample_ops"
  using prepare_accepts [OF sample_prepare sample_scan] by simp

text \<open>
  C19: the size a target is prepared with is exactly the furthest byte the trace shows to
  exist: no op transfers beyond it, and unless it is zero some op transfers up to it. A short
  read counts for the bytes it returned, not for those it asked for.
\<close>

theorem prepare_extents:
  assumes "prepare parseURL eng pl r = Inr ex" "scanOps (rd_lines r) (rd_line r) = (nops, None)"
    "\<forall>x \<in> set (map snd nops). endOf x < 2 ^ 63"
  shows "(\<forall>x \<in> set (map snd nops). touches (map snd nops) x t e \<longrightarrow> e \<le> extentOf (pm_Extents (ex_prepMeta ex)) t)
    \<and> (extentOf (pm_Extents (ex_prepMeta ex)) t = 0
       \<or> (\<exists>x \<in> set (map snd nops). touches (map snd nops) x t (extentOf (pm_Extents (ex_prepMeta ex)) t)))"
proof -
  obtain nops' ps where p: "scanOps (rd_lines r) (rd_line r) = (nops', None)" "trace_spec r (map snd nops')"
    "pass_ok (eng_caps eng) (hdr_targets (ex_hdr ex)) [] True (map snd nops') ps"
    "pm_Extents (ex_prepMeta ex) = fst (ps_meta ps)"
    by (rule prepareInternal_Inr [OF assms(1) [unfolded prepare_def]])
  have n: "nops' = nops" using scan_unique [OF p(1) assms(2)] .
  have "ops_spec (rd_hdr r) (map snd nops)" using p(2) by (simp add: trace_spec_def n)
  from extents_all [OF this assms(3)] have "extents_inv (map snd nops) (pm_Extents (ex_prepMeta ex))"
    using p(3,4) by (simp add: pass_ok_def n)
  from extents_invD [OF this] show ?thesis by blast
qed

lemma sample_touches: "touches sample_ops (sample_ops ! 1) 0 11"
  by (auto simp: touches_def sample_ops_def zero_op_def opened_as_def opens_def expectedBytes_def transferredBytes_def)

theorem prepare_extents_witness:
  "touches sample_ops (sample_ops ! 1) 0 11 \<and> 11 \<le> extentOf (pm_Extents (ex_prepMeta sample_executor)) 0"
proof -
  have "\<forall>x \<in> set (map snd (numbered 1 sample_ops)). endOf x < 2 ^ 63"
    by (simp add: sample_ops_def zero_op_def endOf_def expectedBytes_def transferredBytes_def requestedBytes_def)
  from prepare_extents [OF sample_prepare sample_scan this, of 0 11] sample_touches
  show ?thesis by (simp add: sample_ops_def)
qed

text \<open>
  C21: a distributed worker prepares what the coordinator would have handed it. Whenever the
  full \<open>Prepare\<close> succeeds, \<open>PrepareAssigned\<close> succeeds on the same trace, with the same header,
  extents, fill and object sizes, and its streams are those of the full executor restricted by
  \<open>WithStreams\<close>.
\<close>

theorem assigned_is_restricted:
  assumes "prepare parseURL eng pl r = Inr ex"
  shows "\<exists>ex'. prepareAssigned parseURL eng pl r ids = Inr ex' \<and> ex' = ex\<lparr>ex_byStream := ex_byStream ex'\<rparr>
    \<and> map_of (ex_byStream ex') = map_of (ex_byStream (withStreams ex ids))"
proof -
  obtain ex' where "prepareAssigned parseURL eng pl r ids = Inr ex'" "ex' = ex\<lparr>ex_byStream := ex_byStream ex'\<rparr>"
    "map_of (ex_byStream ex') = map_of (ex_byStream ex) |` set ids"
    by (rule prepareAssigned_same [OF assms])
  then show ?thesis by (auto simp: withStreams_def withStreamsLoop_map)
qed

theorem assigned_is_restricted_witness:
  "\<exists>ex'. prepareAssigned (\<lambda>_. None) (memEngine (withFixedSize 11)) sample_plan sample_reader [0, 4] = Inr ex'
    \<and> ex' = sample_executor\<lparr>ex_byStream := ex_byStream ex'\<rparr>
    \<and> map_of (ex_byStream ex') = map_of (ex_byStream (withStreams sample_executor [0, 4]))"
  by (rule assigned_is_restricted [OF sample_prepare])

text \<open>
  A run is labelled object-level exactly when the engine takes whole objects but no
  partial writes and the trace closes some write-only handle, that is, when some write was
  coalesced into a \<open>Put\<close>; otherwise it is labelled syscall-level.
\<close>

lemma equivalence_label:
  assumes "prepare parseURL eng pl r = Inr ex" "scanOps (rd_lines r) (rd_line r) = (nops, None)"
    "total_written (map snd nops) < 2 ^ 63"
  shows "replayEquivalence ex = (if cap_ObjectAPI (eng_caps eng) \<and> \<not> cap_PartialWrite (eng_caps eng)
      \<and> (\<exists>h t. opened_as (map snd nops) h t ModeWrite \<and> closed_in (map snd nops) h)
    then EquivalenceObjectLevel else EquivalenceSyscallLevel)"
proof -
  obtain nops' ps where p: "scanOps (rd_lines r) (rd_line r) = (nops', None)" "trace_spec r (map snd nops')"
    "length (hdr_targets (ex_hdr ex)) = length (hdr_targets (rd_hdr r))"
    "pass_ok (eng_caps eng) (hdr_targets (ex_hdr ex)) [] True (map snd nops') ps"
    "ex_objectWriteSizes ex = (case ps_eligibility ps of None \<Rightarrow> [] | Some el \<Rightarrow> el_sizes el)"
    by (rule prepareInternal_Inr [OF assms(1) [unfolded prepare_def]])
  have n: "nops' = nops" using scan_unique [OF p(1) assms(2)] .
  have ops: "ops_spec (rd_hdr r) (map snd nops)" using p(2) by (simp add: trace_spec_def n)
  show ?thesis
  proof (cases "cap_ObjectAPI (eng_caps eng) \<and> \<not> cap_PartialWrite (eng_caps eng)")
    case True
    then obtain el where el: "foldOps (observe (hdr_targets (ex_hdr ex))) (map snd nops) newObjectWriteEligibility = Inr el"
      "ex_objectWriteSizes ex = el_sizes el"
      using p(4,5) by (auto simp: pass_ok_def initPrepState_def n)
    from observe_all [OF ops p(3) el(1) assms(3)]
    have inv: "closed_inv (hdr_targets (ex_hdr ex)) (map snd nops) (el_sizes el)"
      "sizes_inv (hdr_targets (ex_hdr ex)) (map snd nops) (el_sizes el)" by (simp_all add: ow_inv_def)
    have "el_sizes el \<noteq> [] \<longleftrightarrow> (\<exists>h t. opened_as (map snd nops) h t ModeWrite \<and> closed_in (map snd nops) h)"
    proof
      assume "el_sizes el \<noteq> []"
      then obtain t k where "map_of (el_sizes el) t = Some k" by (metis ext map_of_eq_empty_iff not_None_eq)
      then show "\<exists>h t. opened_as (map snd nops) h t ModeWrite \<and> closed_in (map snd nops) h"
        using inv(2) unfolding sizes_inv_def by blast
    next
      assume "\<exists>h t. opened_as (map snd nops) h t ModeWrite \<and> closed_in (map snd nops) h"
      then show "el_sizes el \<noteq> []" using inv(1) unfolding closed_inv_def by fastforce
    qed
    with True el(2) show ?thesis by (simp add: replayEquivalence_def)
  next
    case False
    then have "ps_eligibility ps = None" using p(4) by (auto simp: pass_ok_def initPrepState_def)
    with False p(5) show ?thesis by (auto simp: replayEquivalence_def)
  qed
qed

lemma equivalence_label_witness: "replayEquivalence sample_executor = EquivalenceSyscallLevel"
proof -
  have "total_written (map snd (numbered 1 sample_ops)) < 2 ^ 63"
    by (simp add: total_written_def sample_ops_def zero_op_def)
  from equivalence_label [OF sample_prepare sample_scan this] show ?thesis by (simp add: memEngine_def memCaps_def)
qed

end
