(* ===== verification/Metrics.thy ===== *)
theory Metrics
  imports Trace_Types
begin

text \<open>
  Latency histograms and recorders, \<open>pkg/metrics\<close>. The HDR histogram library is not in the
  repository: it is the parameter \<open>L\<close>, a record of its functions, and what the code relies on
  is \<open>hdr_laws L\<close>. Quantiles, means and maxima only pass its results on and are left out.
\<close>

section \<open>The histogram library\<close>

record hdr_snapshot =
  hs_Low :: int
  hs_High :: int
  hs_SigFigs :: int
  hs_Counts :: "int list"

record 'h hdr_lib =
  hl_new :: "int \<Rightarrow> int \<Rightarrow> int \<Rightarrow> 'h"
  hl_record :: "'h \<Rightarrow> int \<Rightarrow> 'h option"
  hl_merge :: "'h \<Rightarrow> 'h \<Rightarrow> 'h"
  hl_export :: "'h \<Rightarrow> hdr_snapshot"
  hl_import :: "hdr_snapshot \<Rightarrow> 'h"

definition minLatencyNS :: int where "minLatencyNS = 1000"
definition maxLatencyNS :: int where "maxLatencyNS = 100000000000"
definition sigFigs :: int where "sigFigs = 3"

section \<open>Histograms\<close>

definition newHist :: "'h hdr_lib \<Rightarrow> 'h" where
  "newHist L = hl_new L minLatencyNS maxLatencyNS sigFigs"

definition recordValue :: "'h hdr_lib \<Rightarrow> 'h \<Rightarrow> int \<Rightarrow> 'h \<times> bool" where
  "recordValue L h ns =
     (let v = (if ns < minLatencyNS then minLatencyNS else ns)
      in case hl_record L h v of None \<Rightarrow> (h, False) | Some h' \<Rightarrow> (h', True))"

fun trimZeros :: "int list \<Rightarrow> nat \<Rightarrow> nat" where
  "trimZeros counts 0 = 0"
| "trimZeros counts (Suc n) = (if counts ! n = 0 then trimZeros counts n else Suc n)"

definition exportHist :: "'h hdr_lib \<Rightarrow> 'h option \<Rightarrow> hdr_snapshot" where
  "exportHist L h =
     (case h of
        None \<Rightarrow> \<lparr>hs_Low = minLatencyNS, hs_High = maxLatencyNS, hs_SigFigs = sigFigs, hs_Counts = []\<rparr>
      | Some x \<Rightarrow>
          (let s = hl_export L x; counts = hs_Counts s; n = trimZeros counts (length counts)
           in s\<lparr>hs_Counts := take n counts\<rparr>))"

definition importHist :: "'h hdr_lib \<Rightarrow> hdr_snapshot \<Rightarrow> 'h" where
  "importHist L s =
     (let low = (if hs_Low s \<le> 0 then minLatencyNS else hs_Low s);
          high = (if hs_High s \<le> 0 then maxLatencyNS else hs_High s);
          sig = (if hs_SigFigs s \<le> 0 then sigFigs else hs_SigFigs s)
      in if length (hs_Counts s) = 0 then hl_new L low high sig
         else let need = length (hs_Counts (hl_export L (hl_new L low high sig)));
                  counts = (if length (hs_Counts s) < need
                    then hs_Counts s @ replicate (need - length (hs_Counts s)) 0 else hs_Counts s)
              in hl_import L \<lparr>hs_Low = low, hs_High = high, hs_SigFigs = sig, hs_Counts = counts\<rparr>)"

section \<open>Recorders\<close>

record 'h recorder =
  rc_hists :: "(op_kind \<times> 'h) list"
  rc_serviceHists :: "(op_kind \<times> 'h) list"
  rc_counts :: "(op_kind \<times> int) list"
  rc_Bytes :: int
  rc_Errors :: int
  rc_ShortReads :: int
  rc_HistogramOverflows :: int
  rc_BacklogEvents :: int
  rc_BacklogBlockedNS :: int
  rc_MaxInflightDepth :: int
  rc_DriftHist :: "'h option"
  rc_CompletionLagHist :: "'h option"
  rc_PeakInflight :: int

definition newRecorder :: "'h recorder" where
  "newRecorder = \<lparr>rc_hists = [], rc_serviceHists = [], rc_counts = [], rc_Bytes = 0, rc_Errors = 0, rc_ShortReads = 0,
     rc_HistogramOverflows = 0, rc_BacklogEvents = 0, rc_BacklogBlockedNS = 0, rc_MaxInflightDepth = 0,
     rc_DriftHist = None, rc_CompletionLagHist = None, rc_PeakInflight = 0\<rparr>"

definition overflowed :: "bool \<Rightarrow> 'h recorder \<Rightarrow> 'h recorder" where
  "overflowed ok r = (if \<not> ok then r\<lparr>rc_HistogramOverflows := rc_HistogramOverflows r + 1\<rparr> else r)"

definition recordDrift :: "'h hdr_lib \<Rightarrow> int \<Rightarrow> 'h recorder \<Rightarrow> 'h recorder" where
  "recordDrift L driftNS r =
     (let h = (case rc_DriftHist r of None \<Rightarrow> newHist L | Some h \<Rightarrow> h);
          (h', ok) = recordValue L h driftNS
      in overflowed ok (r\<lparr>rc_DriftHist := Some h'\<rparr>))"

definition recordCompletionLag :: "'h hdr_lib \<Rightarrow> int \<Rightarrow> 'h recorder \<Rightarrow> 'h recorder" where
  "recordCompletionLag L lagNS r =
     (let lag = (if lagNS < 0 then 0 else lagNS);
          h = (case rc_CompletionLagHist r of None \<Rightarrow> newHist L | Some h \<Rightarrow> h);
          (h', ok) = recordValue L h lag
      in overflowed ok (r\<lparr>rc_CompletionLagHist := Some h'\<rparr>))"

definition histFor :: "'h hdr_lib \<Rightarrow> (op_kind \<times> 'h) list \<Rightarrow> op_kind \<Rightarrow> 'h" where
  "histFor L hs k = (case map_of hs k of Some h \<Rightarrow> h | None \<Rightarrow> newHist L)"

definition countFor :: "(op_kind \<times> int) list \<Rightarrow> op_kind \<Rightarrow> int" where
  "countFor cs k = (case map_of cs k of Some n \<Rightarrow> n | None \<Rightarrow> 0)"

definition recordOp :: "'h hdr_lib \<Rightarrow> op_kind \<Rightarrow> int \<Rightarrow> int \<Rightarrow> bool \<Rightarrow> 'h recorder \<Rightarrow> 'h recorder" where
  "recordOp L k latencyNS bytesN errored r =
     (let (h', ok) = recordValue L (histFor L (rc_hists r) k) latencyNS;
          r1 = overflowed ok (r\<lparr>rc_hists := AList.update k h' (rc_hists r)\<rparr>);
          r2 = r1\<lparr>rc_counts := AList.update k (countFor (rc_counts r1) k + 1) (rc_counts r1),
                  rc_Bytes := i64 (rc_Bytes r1 + bytesN)\<rparr>
      in if errored then r2\<lparr>rc_Errors := rc_Errors r2 + 1\<rparr> else r2)"

definition recordService :: "'h hdr_lib \<Rightarrow> op_kind \<Rightarrow> int \<Rightarrow> 'h recorder \<Rightarrow> 'h recorder" where
  "recordService L k serviceNS r =
     (let v = (if serviceNS < 0 then 0 else serviceNS);
          (h', ok) = recordValue L (histFor L (rc_serviceHists r) k) v
      in overflowed ok (r\<lparr>rc_serviceHists := AList.update k h' (rc_serviceHists r)\<rparr>))"

definition recordShortRead :: "'h recorder \<Rightarrow> 'h recorder" where
  "recordShortRead r = r\<lparr>rc_ShortReads := rc_ShortReads r + 1\<rparr>"

fun mergeHists :: "'h hdr_lib \<Rightarrow> (op_kind \<times> 'h) list \<Rightarrow> (op_kind \<times> 'h) list \<Rightarrow> (op_kind \<times> 'h) list" where
  "mergeHists L hs [] = hs"
| "mergeHists L hs ((k, oh) # rest) =
     mergeHists L (AList.update k (hl_merge L (histFor L hs k) oh) hs) rest"

fun mergeCounts :: "(op_kind \<times> int) list \<Rightarrow> (op_kind \<times> int) list \<Rightarrow> op_kind list \<Rightarrow> (op_kind \<times> int) list" where
  "mergeCounts cs os [] = cs"
| "mergeCounts cs os (k # ks) = mergeCounts (AList.update k (countFor cs k + countFor os k) cs) os ks"

definition mergeOpt :: "'h hdr_lib \<Rightarrow> 'h option \<Rightarrow> 'h option \<Rightarrow> 'h option" where
  "mergeOpt L h other =
     (case other of None \<Rightarrow> h
      | Some oh \<Rightarrow> Some (hl_merge L (case h of None \<Rightarrow> newHist L | Some x \<Rightarrow> x) oh))"

definition merge :: "'h hdr_lib \<Rightarrow> 'h recorder \<Rightarrow> 'h recorder \<Rightarrow> 'h recorder" where
  "merge L r other =
     \<lparr>rc_hists = mergeHists L (rc_hists r) (rc_hists other),
      rc_serviceHists = mergeHists L (rc_serviceHists r) (rc_serviceHists other),
      rc_counts = mergeCounts (rc_counts r) (rc_counts other) (map fst (rc_hists other)),
      rc_Bytes = i64 (rc_Bytes r + rc_Bytes other),
      rc_Errors = rc_Errors r + rc_Errors other,
      rc_ShortReads = rc_ShortReads r + rc_ShortReads other,
      rc_HistogramOverflows = rc_HistogramOverflows r + rc_HistogramOverflows other,
      rc_BacklogEvents = rc_BacklogEvents r + rc_BacklogEvents other,
      rc_BacklogBlockedNS = i64 (rc_BacklogBlockedNS r + rc_BacklogBlockedNS other),
      rc_MaxInflightDepth = (if rc_MaxInflightDepth other > rc_MaxInflightDepth r
        then rc_MaxInflightDepth other else rc_MaxInflightDepth r),
      rc_DriftHist = mergeOpt L (rc_DriftHist r) (rc_DriftHist other),
      rc_CompletionLagHist = mergeOpt L (rc_CompletionLagHist r) (rc_CompletionLagHist other),
      rc_PeakInflight = (if rc_PeakInflight other > rc_PeakInflight r
        then rc_PeakInflight other else rc_PeakInflight r)\<rparr>"

definition totalOps :: "'h recorder \<Rightarrow> int" where
  "totalOps r = sum_list (map snd (rc_counts r))"

section \<open>Snapshots\<close>

record recorder_snapshot =
  rs_Histograms :: "(op_kind \<times> hdr_snapshot) list"
  rs_ServiceHistograms :: "(op_kind \<times> hdr_snapshot) list"
  rs_DriftHist :: "hdr_snapshot option"
  rs_CompletionLagHist :: "hdr_snapshot option"
  rs_Counts :: "(op_kind \<times> int) list"
  rs_Bytes :: int
  rs_Errors :: int
  rs_ShortReads :: int
  rs_HistogramOverflows :: int
  rs_BacklogEvents :: int
  rs_BacklogBlockedNS :: int
  rs_MaxInflightDepth :: int
  rs_PeakInflight :: int

definition exportRecorder :: "'h hdr_lib \<Rightarrow> 'h recorder \<Rightarrow> recorder_snapshot" where
  "exportRecorder L r =
     \<lparr>rs_Histograms = map (\<lambda>(k, h). (k, exportHist L (Some h))) (rc_hists r),
      rs_ServiceHistograms = map (\<lambda>(k, h). (k, exportHist L (Some h))) (rc_serviceHists r),
      rs_DriftHist = map_option (\<lambda>h. exportHist L (Some h)) (rc_DriftHist r),
      rs_CompletionLagHist = map_option (\<lambda>h. exportHist L (Some h)) (rc_CompletionLagHist r),
      rs_Counts = rc_counts r, rs_Bytes = rc_Bytes r, rs_Errors = rc_Errors r, rs_ShortReads = rc_ShortReads r,
      rs_HistogramOverflows = rc_HistogramOverflows r, rs_BacklogEvents = rc_BacklogEvents r,
      rs_BacklogBlockedNS = rc_BacklogBlockedNS r, rs_MaxInflightDepth = rc_MaxInflightDepth r,
      rs_PeakInflight = rc_PeakInflight r\<rparr>"

definition importRecorder :: "'h hdr_lib \<Rightarrow> recorder_snapshot \<Rightarrow> 'h recorder" where
  "importRecorder L s =
     \<lparr>rc_hists = map (\<lambda>(k, h). (k, importHist L h)) (rs_Histograms s),
      rc_serviceHists = map (\<lambda>(k, h). (k, importHist L h)) (rs_ServiceHistograms s),
      rc_counts = rs_Counts s, rc_Bytes = rs_Bytes s, rc_Errors = rs_Errors s, rc_ShortReads = rs_ShortReads s,
      rc_HistogramOverflows = rs_HistogramOverflows s, rc_BacklogEvents = rs_BacklogEvents s,
      rc_BacklogBlockedNS = rs_BacklogBlockedNS s, rc_MaxInflightDepth = rs_MaxInflightDepth s,
      rc_DriftHist = map_option (importHist L) (rs_DriftHist s),
      rc_CompletionLagHist = map_option (importHist L) (rs_CompletionLagHist s),
      rc_PeakInflight = rs_PeakInflight s\<rparr>"

section \<open>What the code relies on in the library\<close>

text \<open>Recording a list of samples, dropping those the histogram refuses.\<close>

definition samples :: "'h hdr_lib \<Rightarrow> int list \<Rightarrow> 'h \<Rightarrow> 'h" where
  "samples L vs h = fold (\<lambda>v h. case hl_record L h v of None \<Rightarrow> h | Some h' \<Rightarrow> h') vs h"

definition recorded :: "'h hdr_lib \<Rightarrow> 'h \<Rightarrow> bool" where
  "recorded L h \<longleftrightarrow> (\<exists>vs. h = samples L vs (newHist L))"

text \<open>
  Documented behaviour: whether a value is accepted depends on the value alone; merging adds
  the other histogram's samples; an exported histogram has the configuration it was made
  with and a full bucket array, imports to itself, and is empty if its buckets are.
\<close>

definition hdr_laws :: "'h hdr_lib \<Rightarrow> bool" where
  "hdr_laws L \<longleftrightarrow>
     (\<forall>h v. recorded L h \<longrightarrow> (hl_record L h v = None) = (hl_record L (newHist L) v = None))
     \<and> (\<forall>h vs. recorded L h \<longrightarrow> hl_merge L h (samples L vs (newHist L)) = samples L vs h)
     \<and> (\<forall>h. recorded L h \<longrightarrow>
          hs_Low (hl_export L h) = minLatencyNS \<and> hs_High (hl_export L h) = maxLatencyNS
          \<and> hs_SigFigs (hl_export L h) = sigFigs
          \<and> length (hs_Counts (hl_export L h)) = length (hs_Counts (hl_export L (newHist L)))
          \<and> hl_import L (hl_export L h) = h
          \<and> ((\<forall>c \<in> set (hs_Counts (hl_export L h)). c = 0) \<longrightarrow> h = newHist L))"

lemma recorded_new [simp]: "recorded L (newHist L)"
  unfolding recorded_def by (rule exI [of _ "[]"]) (simp add: samples_def)

lemma recorded_samples [simp]: "recorded L (samples L vs (newHist L))"
  unfolding recorded_def by blast

lemma samples_append: "samples L (xs @ ys) h = samples L ys (samples L xs h)"
  by (simp add: samples_def)

lemma samples_snoc: "samples L (xs @ [v]) h = (case hl_record L (samples L xs h) v of None \<Rightarrow> samples L xs h | Some h' \<Rightarrow> h')"
  by (simp add: samples_def split: option.split)

lemma hdr_refuse: "hdr_laws L \<Longrightarrow> recorded L h \<Longrightarrow> (hl_record L h v = None) = (hl_record L (newHist L) v = None)"
  unfolding hdr_laws_def by blast

lemma hdr_merge: "hdr_laws L \<Longrightarrow> recorded L h \<Longrightarrow> hl_merge L h (samples L vs (newHist L)) = samples L vs h"
  unfolding hdr_laws_def by blast

lemma hdr_export:
  assumes "hdr_laws L" "recorded L h"
  shows "hs_Low (hl_export L h) = minLatencyNS" "hs_High (hl_export L h) = maxLatencyNS"
    "hs_SigFigs (hl_export L h) = sigFigs"
    "length (hs_Counts (hl_export L h)) = length (hs_Counts (hl_export L (newHist L)))"
    "hl_import L (hl_export L h) = h"
    "(\<forall>c \<in> set (hs_Counts (hl_export L h)). c = 0) \<Longrightarrow> h = newHist L"
  using assms unfolding hdr_laws_def by blast+

section \<open>What a recorder holds\<close>

datatype event =
    EvDrift int
  | EvLag int
  | EvService op_kind int
  | EvOp op_kind int int bool
  | EvShort

fun applyEvent :: "'h hdr_lib \<Rightarrow> event \<Rightarrow> 'h recorder \<Rightarrow> 'h recorder" where
  "applyEvent L (EvDrift v) r = recordDrift L v r"
| "applyEvent L (EvLag v) r = recordCompletionLag L v r"
| "applyEvent L (EvService k v) r = recordService L k v r"
| "applyEvent L (EvOp k v n e) r = recordOp L k v n e r"
| "applyEvent L EvShort r = recordShortRead r"

definition recordAll :: "'h hdr_lib \<Rightarrow> event list \<Rightarrow> 'h recorder" where
  "recordAll L evs = fold (applyEvent L) evs newRecorder"

text \<open>The sample an event adds to each histogram, clamped from below.\<close>

definition clamp :: "int \<Rightarrow> int" where "clamp v = max v minLatencyNS"

fun opVal :: "op_kind \<Rightarrow> event \<Rightarrow> int list" where
  "opVal k (EvOp k' v n e) = (if k' = k then [clamp v] else [])"
| "opVal k _ = []"

fun serviceVal :: "op_kind \<Rightarrow> event \<Rightarrow> int list" where
  "serviceVal k (EvService k' v) = (if k' = k then [clamp v] else [])"
| "serviceVal k _ = []"

fun driftVal :: "event \<Rightarrow> int list" where
  "driftVal (EvDrift v) = [clamp v]"
| "driftVal _ = []"

fun lagVal :: "event \<Rightarrow> int list" where
  "lagVal (EvLag v) = [clamp v]"
| "lagVal _ = []"

fun anyVal :: "event \<Rightarrow> int list" where
  "anyVal (EvDrift v) = [clamp v]"
| "anyVal (EvLag v) = [clamp v]"
| "anyVal (EvService k v) = [clamp v]"
| "anyVal (EvOp k v n e) = [clamp v]"
| "anyVal EvShort = []"

fun bytesVal :: "event \<Rightarrow> int" where
  "bytesVal (EvOp k v n e) = n"
| "bytesVal _ = 0"

fun isError :: "event \<Rightarrow> bool" where
  "isError (EvOp k v n e) = e"
| "isError _ = False"

definition vals :: "(event \<Rightarrow> int list) \<Rightarrow> event list \<Rightarrow> int list" where
  "vals f evs = concat (map f evs)"

definition refused :: "'h hdr_lib \<Rightarrow> int list \<Rightarrow> int" where
  "refused L vs = int (length (filter (\<lambda>v. hl_record L (newHist L) v = None) vs))"

definition histOf :: "'h hdr_lib \<Rightarrow> int list \<Rightarrow> 'h option" where
  "histOf L vs = (if vs = [] then None else Some (samples L vs (newHist L)))"

definition hists_hold :: "'h hdr_lib \<Rightarrow> (op_kind \<Rightarrow> int list) \<Rightarrow> (op_kind \<times> 'h) list \<Rightarrow> bool" where
  "hists_hold L f hs \<longleftrightarrow> distinct (map fst hs) \<and> (\<forall>k. map_of hs k = histOf L (f k))"

definition counts_hold :: "(op_kind \<Rightarrow> int list) \<Rightarrow> (op_kind \<times> int) list \<Rightarrow> bool" where
  "counts_hold f cs \<longleftrightarrow> distinct (map fst cs)
     \<and> (\<forall>k. map_of cs k = (if f k = [] then None else Some (int (length (f k)))))"

text \<open>The recorder holds exactly what the events report.\<close>

definition holds :: "'h hdr_lib \<Rightarrow> event list \<Rightarrow> 'h recorder \<Rightarrow> bool" where
  "holds L evs r \<longleftrightarrow>
     hists_hold L (\<lambda>k. vals (opVal k) evs) (rc_hists r)
     \<and> hists_hold L (\<lambda>k. vals (serviceVal k) evs) (rc_serviceHists r)
     \<and> counts_hold (\<lambda>k. vals (opVal k) evs) (rc_counts r)
     \<and> rc_DriftHist r = histOf L (vals driftVal evs)
     \<and> rc_CompletionLagHist r = histOf L (vals lagVal evs)
     \<and> rc_Bytes r = i64 (sum_list (map bytesVal evs))
     \<and> rc_Errors r = int (length (filter isError evs))
     \<and> rc_ShortReads r = int (length (filter (\<lambda>e. e = EvShort) evs))
     \<and> rc_HistogramOverflows r = refused L (vals anyVal evs)"

lemma vals_simps [simp]: "vals f [] = []" "vals f (xs @ ys) = vals f xs @ vals f ys" "vals f [e] = f e"
  by (simp_all add: vals_def)

lemma refused_simps [simp]: "refused L [] = 0" "refused L (xs @ ys) = refused L xs + refused L ys"
  by (simp_all add: refused_def)

lemma holds_new: "holds L [] newRecorder"
  by (simp add: holds_def newRecorder_def hists_hold_def counts_hold_def histOf_def i64_def)

lemma recordValue_samples:
  assumes "hdr_laws L"
  shows "recordValue L (samples L vs (newHist L)) v =
    (samples L (vs @ [clamp v]) (newHist L), hl_record L (newHist L) (clamp v) \<noteq> None)"
proof -
  have c: "(if v < minLatencyNS then minLatencyNS else v) = clamp v" by (simp add: clamp_def max_def)
  show ?thesis
    unfolding recordValue_def c Let_def samples_snoc
    using hdr_refuse [OF assms recorded_samples, of vs "clamp v"] by (auto split: option.split)
qed

lemma clamp_zero: "clamp (if v < 0 then 0 else v) = clamp v"
  by (simp add: clamp_def minLatencyNS_def)

lemma hist_default:
  "histOf L vs = Some h \<Longrightarrow> h = samples L vs (newHist L)"
  "histOf L vs = None \<Longrightarrow> newHist L = samples L vs (newHist L)"
  by (auto simp: histOf_def samples_def split: if_splits)

lemma histFor_hold: "hists_hold L f hs \<Longrightarrow> histFor L hs k = samples L (f k) (newHist L)"
  using hist_default [of L "f k"] by (auto simp: hists_hold_def histFor_def split: option.split)

lemma hists_hold_update:
  assumes "hists_hold L f hs" "vs \<noteq> []"
  shows "hists_hold L (f(k := vs)) (AList.update k (samples L vs (newHist L)) hs)"
  using assms by (auto simp: hists_hold_def histOf_def distinct_keys_update)

lemma counts_hold_update:
  assumes "counts_hold f cs" "vs \<noteq> []"
  shows "counts_hold (f(k := vs)) (AList.update k (int (length vs)) cs)"
  using assms by (auto simp: counts_hold_def distinct_keys_update)

lemma countFor_hold: "counts_hold f cs \<Longrightarrow> countFor cs k = int (length (f k))"
  by (auto simp: counts_hold_def countFor_def)

lemma overflowed_simps [simp]:
  "rc_hists (overflowed ok r) = rc_hists r" "rc_serviceHists (overflowed ok r) = rc_serviceHists r"
  "rc_counts (overflowed ok r) = rc_counts r" "rc_Bytes (overflowed ok r) = rc_Bytes r"
  "rc_Errors (overflowed ok r) = rc_Errors r" "rc_ShortReads (overflowed ok r) = rc_ShortReads r"
  "rc_DriftHist (overflowed ok r) = rc_DriftHist r" "rc_CompletionLagHist (overflowed ok r) = rc_CompletionLagHist r"
  "rc_HistogramOverflows (overflowed ok r) = rc_HistogramOverflows r + (if ok then 0 else 1)"
  by (simp_all add: overflowed_def)

lemma refused_single: "refused L [v] = (if hl_record L (newHist L) v \<noteq> None then 0 else 1)"
  by (simp add: refused_def)

lemma opVal_upd: "(\<lambda>k'. vals (opVal k') (evs @ [EvOp k v n e])) = (\<lambda>k'. vals (opVal k') evs)(k := vals (opVal k) evs @ [clamp v])"
  by auto

lemma serviceVal_upd:
  "(\<lambda>k'. vals (serviceVal k') (evs @ [EvService k v])) = (\<lambda>k'. vals (serviceVal k') evs)(k := vals (serviceVal k) evs @ [clamp v])"
  by auto

lemma holdsD:
  assumes "holds L evs r"
  shows "hists_hold L (\<lambda>k. vals (opVal k) evs) (rc_hists r)"
    "hists_hold L (\<lambda>k. vals (serviceVal k) evs) (rc_serviceHists r)"
    "counts_hold (\<lambda>k. vals (opVal k) evs) (rc_counts r)"
    "rc_DriftHist r = histOf L (vals driftVal evs)"
    "rc_CompletionLagHist r = histOf L (vals lagVal evs)"
    "rc_Bytes r = i64 (sum_list (map bytesVal evs))"
    "rc_Errors r = int (length (filter isError evs))"
    "rc_ShortReads r = int (length (filter (\<lambda>e. e = EvShort) evs))"
    "rc_HistogramOverflows r = refused L (vals anyVal evs)"
  using assms by (simp_all add: holds_def)

lemma opt_hist: "x = histOf L vs \<Longrightarrow> (case x of None \<Rightarrow> newHist L | Some h \<Rightarrow> h) = samples L vs (newHist L)"
  using hist_default [of L vs] by (auto split: option.split)

lemma histOf_default [simp]:
  "(case histOf L vs of None \<Rightarrow> newHist L | Some h \<Rightarrow> h) = samples L vs (newHist L)"
  by (rule opt_hist [OF refl])

lemma histOf_snoc [simp]: "histOf L (vs @ [v]) = Some (samples L (vs @ [v]) (newHist L))"
  by (simp add: histOf_def)

lemma holds_step:
  assumes L: "hdr_laws L" and h: "holds L evs r"
  shows "holds L (evs @ [e]) (applyEvent L e r)"
proof (cases e)
  case (EvDrift v)
  show ?thesis using holdsD [OF h]
    by (simp add: EvDrift holds_def recordDrift_def Let_def recordValue_samples [OF L] refused_single)
next
  case (EvLag v)
  show ?thesis using holdsD [OF h]
    by (simp add: EvLag holds_def recordCompletionLag_def Let_def recordValue_samples [OF L] refused_single clamp_zero
        del: if_split)
next
  case (EvService k v)
  let ?vs = "vals (serviceVal k) evs @ [clamp v]"
  have hh: "hists_hold L (\<lambda>k'. vals (serviceVal k') (evs @ [EvService k v])) (AList.update k (samples L ?vs (newHist L)) (rc_serviceHists r))"
    unfolding serviceVal_upd by (rule hists_hold_update [OF holdsD(2) [OF h]]) simp
  show ?thesis using holdsD [OF h] hh
    by (simp add: EvService holds_def recordService_def Let_def histFor_hold [OF holdsD(2) [OF h]] recordValue_samples [OF L]
        refused_single clamp_zero del: if_split)
next
  case (EvOp k v n err)
  let ?vs = "vals (opVal k) evs @ [clamp v]"
  have hh: "hists_hold L (\<lambda>k'. vals (opVal k') (evs @ [EvOp k v n err])) (AList.update k (samples L ?vs (newHist L)) (rc_hists r))"
    unfolding opVal_upd by (rule hists_hold_update [OF holdsD(1) [OF h]]) simp
  have cc: "counts_hold (\<lambda>k'. vals (opVal k') (evs @ [EvOp k v n err])) (AList.update k (int (length ?vs)) (rc_counts r))"
    unfolding opVal_upd by (rule counts_hold_update [OF holdsD(3) [OF h]]) simp
  show ?thesis using holdsD [OF h] hh cc
    by (cases err) (simp_all add: EvOp holds_def recordOp_def Let_def histFor_hold [OF holdsD(1) [OF h]]
        countFor_hold [OF holdsD(3) [OF h]] recordValue_samples [OF L] refused_single add.commute)
next
  case EvShort
  then show ?thesis using holdsD [OF h] by (simp add: holds_def recordShortRead_def)
qed

lemma holds_recordAll: "hdr_laws L \<Longrightarrow> holds L evs (recordAll L evs)"
  unfolding recordAll_def
  by (induction evs rule: rev_induct) (simp_all add: holds_new holds_step)

section \<open>Merging\<close>

lemma mergeHists_map:
  "distinct (map fst os) \<Longrightarrow> map_of (mergeHists L hs os) k =
     (case map_of os k of None \<Rightarrow> map_of hs k | Some oh \<Rightarrow> Some (hl_merge L (histFor L hs k) oh))"
proof (induction os arbitrary: hs)
  case (Cons p os)
  obtain k' oh where p: "p = (k', oh)" by fastforce
  show ?case
  proof (cases "k = k'")
    case True
    with Cons.prems p have "map_of os k = None" by (auto simp: map_of_eq_None_iff)
    with Cons p True show ?thesis by simp
  next
    case False
    then have "histFor L (AList.update k' (hl_merge L (histFor L hs k') oh) hs) k = histFor L hs k"
      by (simp add: histFor_def)
    with Cons p False show ?thesis by (simp split: option.split)
  qed
qed simp

lemma mergeHists_distinct: "distinct (map fst hs) \<Longrightarrow> distinct (map fst (mergeHists L hs os))"
  by (induction os arbitrary: hs) (auto simp: distinct_keys_update)

lemma mergeCounts_map:
  "distinct ks \<Longrightarrow> map_of (mergeCounts cs os ks) k = (if k \<in> set ks then Some (countFor cs k + countFor os k) else map_of cs k)"
proof (induction ks arbitrary: cs)
  case (Cons k' ks)
  have "countFor (AList.update k' n cs) k = countFor cs k" if "k \<noteq> k'" for n using that by (simp add: countFor_def)
  with Cons show ?case by auto
qed simp

lemma mergeCounts_distinct: "distinct (map fst cs) \<Longrightarrow> distinct (map fst (mergeCounts cs os ks))"
  by (induction ks arbitrary: cs) (auto simp: distinct_keys_update)

lemma hists_hold_merge:
  assumes L: "hdr_laws L" and a: "hists_hold L f hs" and b: "hists_hold L g os"
  shows "hists_hold L (\<lambda>k. f k @ g k) (mergeHists L hs os)"
proof -
  have "map_of (mergeHists L hs os) k = histOf L (f k @ g k)" for k
  proof (cases "g k = []")
    case True
    then show ?thesis using a b by (simp add: mergeHists_map hists_hold_def histOf_def)
  next
    case False
    then have "map_of os k = Some (samples L (g k) (newHist L))" using b by (simp add: hists_hold_def histOf_def)
    then show ?thesis using b False
      by (simp add: mergeHists_map hists_hold_def histFor_hold [OF a] hdr_merge [OF L] histOf_def samples_append)
  qed
  then show ?thesis using a b by (simp add: hists_hold_def mergeHists_distinct)
qed

lemma counts_hold_merge:
  assumes "counts_hold f cs" "counts_hold g os" "hists_hold L g hs"
  shows "counts_hold (\<lambda>k. f k @ g k) (mergeCounts cs os (map fst hs))"
proof -
  have k: "k \<in> set (map fst hs) \<longleftrightarrow> g k \<noteq> []" for k
    using assms(3) unfolding set_map dom_map_of_alist [symmetric] by (auto simp: hists_hold_def histOf_def)
  have "map_of (mergeCounts cs os (map fst hs)) k = (if f k @ g k = [] then None else Some (int (length (f k @ g k))))" for k
    using assms k [of k] countFor_hold [OF assms(1), of k] countFor_hold [OF assms(2), of k]
    by (subst mergeCounts_map) (auto simp: hists_hold_def counts_hold_def)
  then show ?thesis using assms(1) by (simp add: counts_hold_def mergeCounts_distinct)
qed

lemma mergeOpt_hold:
  assumes "hdr_laws L"
  shows "mergeOpt L (histOf L xs) (histOf L ys) = histOf L (xs @ ys)"
proof (cases "ys = []")
  case False
  then have "histOf L ys = Some (samples L ys (newHist L))" by (simp add: histOf_def)
  with False show ?thesis by (simp add: mergeOpt_def histOf_def [of L "xs @ ys"] hdr_merge [OF assms] samples_append)
qed (simp add: mergeOpt_def histOf_def)

lemma holds_merge:
  assumes "hdr_laws L" "holds L xs r" "holds L ys q"
  shows "holds L (xs @ ys) (merge L r q)"
  using holdsD [OF assms(2)] holdsD [OF assms(3)]
    hists_hold_merge [OF assms(1) holdsD(1) [OF assms(2)] holdsD(1) [OF assms(3)]]
    hists_hold_merge [OF assms(1) holdsD(2) [OF assms(2)] holdsD(2) [OF assms(3)]]
    counts_hold_merge [OF holdsD(3) [OF assms(2)] holdsD(3,1) [OF assms(3)]]
  by (simp add: holds_def merge_def mergeOpt_hold [OF assms(1)])

lemma holds_mergeAll:
  "hdr_laws L \<Longrightarrow> holds L pre r \<Longrightarrow> list_all2 (holds L) evss rs \<Longrightarrow> holds L (pre @ concat evss) (foldl (merge L) r rs)"
proof (induction evss arbitrary: pre r rs)
  case (Cons evs evss)
  then obtain q qs where rs: "rs = q # qs" "holds L evs q" "list_all2 (holds L) evss qs" by (auto simp: list_all2_Cons1)
  from Cons.IH [OF Cons.prems(1) holds_merge [OF Cons.prems(1,2) rs(2)] rs(3)] rs(1) show ?case by simp
qed simp

section \<open>Snapshots are lossless\<close>

lemma trimZeros_le: "trimZeros cs n \<le> n"
  by (induction n) auto

lemma trimZeros_zero: "trimZeros cs n \<le> i \<Longrightarrow> i < n \<Longrightarrow> cs ! i = 0"
  by (induction n) (auto split: if_splits simp: less_Suc_eq)

lemma trimmed_padded:
  "take (trimZeros cs (length cs)) cs @ replicate (length cs - trimZeros cs (length cs)) 0 = cs"
proof (rule nth_equalityI)
  show "length (take (trimZeros cs (length cs)) cs @ replicate (length cs - trimZeros cs (length cs)) 0) = length cs"
    using trimZeros_le [of cs "length cs"] by simp
  fix i assume "i < length (take (trimZeros cs (length cs)) cs @ replicate (length cs - trimZeros cs (length cs)) 0)"
  then have "i < length cs" using trimZeros_le [of cs "length cs"] by simp
  then show "(take (trimZeros cs (length cs)) cs @ replicate (length cs - trimZeros cs (length cs)) 0) ! i = cs ! i"
    using trimZeros_zero [of cs "length cs" i] trimZeros_le [of cs "length cs"] by (simp add: nth_append)
qed

definition snap :: "int list \<Rightarrow> hdr_snapshot" where
  "snap cs = \<lparr>hs_Low = minLatencyNS, hs_High = maxLatencyNS, hs_SigFigs = sigFigs, hs_Counts = cs\<rparr>"

lemma importHist_snap:
  "importHist L (snap cs) =
     (if cs = [] then newHist L
      else hl_import L (snap (if length cs < length (hs_Counts (hl_export L (newHist L)))
        then cs @ replicate (length (hs_Counts (hl_export L (newHist L))) - length cs) 0 else cs)))"
  by (simp add: importHist_def snap_def newHist_def Let_def minLatencyNS_def maxLatencyNS_def sigFigs_def)

lemma import_export_hist:
  assumes L: "hdr_laws L" and h: "recorded L h"
  shows "importHist L (exportHist L (Some h)) = h"
proof -
  let ?cs = "hs_Counts (hl_export L h)"
  let ?n = "trimZeros ?cs (length ?cs)"
  note ex = hdr_export [OF L h]
  have n: "?n \<le> length ?cs" by (rule trimZeros_le)
  have full: "hl_export L h = snap ?cs" using ex(1-3) by (simp add: snap_def)
  have sn: "exportHist L (Some h) = snap (take ?n ?cs)"
    using ex(1-3) by (simp add: exportHist_def Let_def snap_def)
  show ?thesis
  proof (cases "take ?n ?cs = []")
    case True
    then have "\<forall>c \<in> set ?cs. c = 0" using trimZeros_zero [of ?cs "length ?cs"] by (auto simp: in_set_conv_nth)
    then have "h = newHist L" by (rule ex(6))
    with True show ?thesis unfolding sn importHist_snap by simp
  next
    case False
    have "(if length (take ?n ?cs) < length ?cs then take ?n ?cs @ replicate (length ?cs - length (take ?n ?cs)) 0
        else take ?n ?cs) = ?cs"
      using trimmed_padded [of ?cs] n by (auto simp: min_absorb2)
    with False have "importHist L (snap (take ?n ?cs)) = hl_import L (snap ?cs)"
      unfolding importHist_snap ex(4) [symmetric] by (simp only: if_False)
    with ex(5) full show ?thesis by (simp add: sn)
  qed
qed

definition recorder_wf :: "'h hdr_lib \<Rightarrow> 'h recorder \<Rightarrow> bool" where
  "recorder_wf L r \<longleftrightarrow> (\<forall>h \<in> snd ` set (rc_hists r) \<union> snd ` set (rc_serviceHists r) \<union> set_option (rc_DriftHist r)
     \<union> set_option (rc_CompletionLagHist r). recorded L h)"

lemma histOf_recorded: "histOf L vs = Some h \<Longrightarrow> recorded L h"
  by (auto simp: histOf_def split: if_splits)

lemma hists_hold_recorded: "hists_hold L f hs \<Longrightarrow> (k, h) \<in> set hs \<Longrightarrow> recorded L h"
  unfolding hists_hold_def by (metis map_of_is_SomeI histOf_recorded)

lemma holds_wf: "holds L evs r \<Longrightarrow> recorder_wf L r"
  using hists_hold_recorded [OF holdsD(1)] hists_hold_recorded [OF holdsD(2)] histOf_recorded holdsD(4,5)
  by (fastforce simp: recorder_wf_def)

lemma import_export_recorder:
  assumes "hdr_laws L" "recorder_wf L r"
  shows "importRecorder L (exportRecorder L r) = r"
proof -
  have m: "map ((\<lambda>(k, h). (k, importHist L h)) \<circ> (\<lambda>(k, h). (k, exportHist L (Some h)))) hs = hs"
    if "\<forall>h \<in> snd ` set hs. recorded L h" for hs :: "(op_kind \<times> 'a) list"
    using that import_export_hist [OF assms(1)] by (induction hs) auto
  have o: "map_option (importHist L) (map_option (\<lambda>h. exportHist L (Some h)) x) = x"
    if "\<forall>h \<in> set_option x. recorded L h" for x
    using that import_export_hist [OF assms(1)] by (cases x) auto
  show ?thesis
    using assms(2) by (simp add: importRecorder_def exportRecorder_def recorder_wf_def m o ball_Un)
qed

section \<open>A library that meets the laws\<close>

text \<open>One bucket for every trackable value.\<close>

definition one_bucket :: "int hdr_lib" where
  "one_bucket = \<lparr>hl_new = (\<lambda>low high sig. 0),
     hl_record = (\<lambda>h v. if v \<le> maxLatencyNS then Some (h + 1) else None),
     hl_merge = (\<lambda>a b. a + b),
     hl_export = (\<lambda>h. \<lparr>hs_Low = minLatencyNS, hs_High = maxLatencyNS, hs_SigFigs = sigFigs, hs_Counts = [h]\<rparr>),
     hl_import = (\<lambda>s. case hs_Counts s of [] \<Rightarrow> 0 | c # _ \<Rightarrow> c)\<rparr>"

lemma one_bucket_samples: "samples one_bucket vs h = h + int (length (filter (\<lambda>v. v \<le> maxLatencyNS) vs))"
  by (induction vs arbitrary: h) (auto simp: samples_def one_bucket_def)

lemma one_bucket_laws: "hdr_laws one_bucket"
  unfolding hdr_laws_def
  by (auto simp: one_bucket_samples) (auto simp: one_bucket_def newHist_def)

section \<open>Properties\<close>


definition sample_events :: "event list list" where
  "sample_events = [[EvService OpRead 5, EvOp OpRead 2000 10 False], [EvOp OpRead 200000000000 3 True, EvShort]]"


text \<open>
  C33: a recorder survives the wire. Exporting any recorder that a run can produce (trailing
  zero buckets trimmed) and importing the snapshot gives the recorder back.
\<close>

theorem snapshot_roundtrip:
  assumes "hdr_laws L" "holds L evs r"
  shows "importRecorder L (exportRecorder L r) = r"
  by (rule import_export_recorder [OF assms(1) holds_wf [OF assms(2)]])

theorem snapshot_roundtrip_witness:
  "importRecorder one_bucket (exportRecorder one_bucket (recordAll one_bucket (concat sample_events)))
     = recordAll one_bucket (concat sample_events)"
  by (rule snapshot_roundtrip [OF one_bucket_laws holds_recordAll [OF one_bucket_laws]])

end
