(* ===== verification/Scheduler.thy ===== *)
theory Scheduler
  imports Executor Metrics
begin

text \<open>
  Replaying one worker's streams, \<open>runStreams\<close> of \<open>pkg/replay/scheduler.go\<close>: one goroutine
  per stream, each issuing its ops in order under a semaphore shared by all streams. The
  goroutines interleave freely, so the run is a step relation; a step is one goroutine's
  action between two points where another may act. Clock readings are arbitrary non-negative
  numbers, so every pacing mode is covered: a paced stream is one that also records drift
  and completion lag. A cancelled context is a flag that any step may find set.
\<close>

section \<open>Think-time gaps\<close>

definition thinkGapNS :: "op \<Rightarrow> op \<Rightarrow> int" where
  "thinkGapNS prev cur =
     (case op_dur prev of
        None \<Rightarrow> 0
      | Some d \<Rightarrow> (let gap = i64 (op_t cur - i64 (op_t prev + d)) in if gap < 0 then 0 else gap))"

section \<open>State\<close>

text \<open>
  Where a stream's goroutine is: before the semaphore (\<open>Ready\<close>), waiting for a slot
  (\<open>Blocked\<close>), holding a slot with its op not yet issued (\<open>Holding\<close>), or with its op's
  result in hand (\<open>Returned\<close>).
\<close>

datatype phase = Ready | Blocked | Holding | Completed int bool "engine_error option"

record 'h stream =
  sm_sid :: int
  sm_ops :: "op list"
  sm_next :: nat
  sm_phase :: phase
  sm_handles :: handle_map
  sm_buf :: "byte list"
  sm_inflight :: int
  sm_rec :: "'h recorder"
  sm_exited :: bool
  sm_log :: "(op \<times> int \<times> bool \<times> engine_error option) list"

text \<open>\<open>sm_log\<close> is a history variable: the outcome of every op the stream has finished.\<close>

record ('s, 'h) run =
  rn_eng :: 's
  rn_streams :: "'h stream list"
  rn_sem :: nat
  rn_inflight :: int
  rn_maxDepth :: int
  rn_backlog :: int
  rn_backlogNS :: int
  rn_opsDone :: int
  rn_bytesDone :: int
  rn_cancelled :: bool

record ('s, 'h) run_config =
  cf_eng :: "'s engine"
  cf_hdr :: header
  cf_fill :: fill_config
  cf_objSizes :: "(int \<times> int) list"
  cf_hist :: "'h hdr_lib"
  cf_maxInflight :: int
  cf_paced :: bool

text \<open>\<open>if opts.MaxInflight <= 0 { opts.MaxInflight = 512 }\<close>.\<close>

definition capacity :: "('s, 'h) run_config \<Rightarrow> nat" where
  "capacity cf = (if cf_maxInflight cf \<le> 0 then 512 else nat (cf_maxInflight cf))"

lemma capacity_pos [simp]: "0 < capacity cf"
  by (simp add: capacity_def)

text \<open>\<open>buf := make([]byte, 64*1024)\<close>.\<close>

definition firstBuf :: "byte list" where
  "firstBuf = replicate 65536 0"

declare firstBuf_def [code del]

definition startStream :: "int \<times> op list \<Rightarrow> 'h stream" where
  "startStream so = \<lparr>sm_sid = fst so, sm_ops = snd so, sm_next = 0, sm_phase = Ready, sm_handles = [],
     sm_buf = firstBuf, sm_inflight = 0, sm_rec = newRecorder, sm_exited = False, sm_log = []\<rparr>"

definition startRun :: "(int \<times> op list) list \<Rightarrow> 's \<Rightarrow> ('s, 'h) run" where
  "startRun byStream s = \<lparr>rn_eng = s, rn_streams = map startStream byStream, rn_sem = 0, rn_inflight = 0,
     rn_maxDepth = 0, rn_backlog = 0, rn_backlogNS = 0, rn_opsDone = 0, rn_bytesDone = 0, rn_cancelled = False\<rparr>"

section \<open>Steps\<close>

text \<open>Taking the slot: \<open>currentInflight\<close> and its maximum, the stream's own depth, the drift.\<close>

definition enterStream :: "('s, 'h) run_config \<Rightarrow> int \<Rightarrow> 'h stream \<Rightarrow> 'h stream" where
  "enterStream cf drift st =
     (let n = sm_inflight st + 1;
          r = sm_rec st;
          r1 = (if n > rc_PeakInflight r then r\<lparr>rc_PeakInflight := n\<rparr> else r);
          r2 = (if cf_paced cf then recordDrift (cf_hist cf) (if drift < 0 then 0 else drift) r1 else r1)
      in st\<lparr>sm_phase := Holding, sm_inflight := n, sm_rec := r2\<rparr>)"

definition enterRun :: "('s, 'h) run_config \<Rightarrow> nat \<Rightarrow> int \<Rightarrow> ('s, 'h) run \<Rightarrow> ('s, 'h) run" where
  "enterRun cf i drift rn =
     (let cur = rn_inflight rn + 1 in
      rn\<lparr>rn_sem := rn_sem rn + 1, rn_inflight := cur,
         rn_maxDepth := (if cur \<le> rn_maxDepth rn then rn_maxDepth rn else cur),
         rn_streams := (rn_streams rn)[i := enterStream cf drift (rn_streams rn ! i)]\<rparr>)"

text \<open>Recording the outcome and giving the slot back.\<close>

definition recordOutcome :: "('s, 'h) run_config \<Rightarrow> op_kind \<Rightarrow> int \<Rightarrow> bool \<Rightarrow> engine_error option \<Rightarrow> int \<Rightarrow> int \<Rightarrow> 'h recorder \<Rightarrow> 'h recorder" where
  "recordOutcome cf k bytesN short err service latency r =
     (let L = cf_hist cf;
          r1 = recordService L k (if service < 0 then 0 else service) r;
          r2 = (if short then recordShortRead r1 else r1);
          r3 = (if cf_paced cf then recordCompletionLag L latency r2 else r2)
      in recordOp L k (if latency < 0 then 0 else latency) bytesN (err \<noteq> None) r3)"

definition leaveStream :: "('s, 'h) run_config \<Rightarrow> int \<Rightarrow> bool \<Rightarrow> engine_error option \<Rightarrow> int \<Rightarrow> int \<Rightarrow> 'h stream \<Rightarrow> 'h stream" where
  "leaveStream cf bytesN short err service latency st =
     (let x = sm_ops st ! sm_next st in
      st\<lparr>sm_phase := Ready, sm_next := sm_next st + 1, sm_inflight := sm_inflight st - 1,
         sm_rec := recordOutcome cf (op_op x) bytesN short err service latency (sm_rec st),
         sm_log := sm_log st @ [(x, bytesN, short, err)]\<rparr>)"

definition leaveRun :: "('s, 'h) run_config \<Rightarrow> nat \<Rightarrow> int \<Rightarrow> bool \<Rightarrow> engine_error option \<Rightarrow> int \<Rightarrow> int \<Rightarrow> ('s, 'h) run \<Rightarrow> ('s, 'h) run" where
  "leaveRun cf i bytesN short err service latency rn =
     rn\<lparr>rn_streams := (rn_streams rn)[i := leaveStream cf bytesN short err service latency (rn_streams rn ! i)],
        rn_opsDone := rn_opsDone rn + 1, rn_bytesDone := i64 (rn_bytesDone rn + bytesN),
        rn_inflight := rn_inflight rn - 1, rn_sem := rn_sem rn - 1\<rparr>"

definition issueRun :: "nat \<Rightarrow> 's dispatched \<Rightarrow> ('s, 'h) run \<Rightarrow> ('s, 'h) run" where
  "issueRun i r rn =
     rn\<lparr>rn_eng := d_state r,
        rn_streams := (rn_streams rn)[i := (rn_streams rn ! i)\<lparr>sm_phase := Completed (d_bytes r) (d_short r) (d_err r),
          sm_handles := d_handles r, sm_buf := d_buf r\<rparr>]\<rparr>"

definition issueOp :: "('s, 'h) run_config \<Rightarrow> 'h stream \<Rightarrow> 's \<Rightarrow> 's dispatched option" where
  "issueOp cf st s =
     dispatchOp (cf_eng cf) (cf_hdr cf) (cf_fill cf) (cf_objSizes cf) (sm_ops st ! sm_next st) s (sm_handles st) (sm_buf st)"

definition setPhase :: "nat \<Rightarrow> phase \<Rightarrow> ('s, 'h) run \<Rightarrow> ('s, 'h) run" where
  "setPhase i p rn = rn\<lparr>rn_streams := (rn_streams rn)[i := (rn_streams rn ! i)\<lparr>sm_phase := p\<rparr>]\<rparr>"

definition exitStream :: "nat \<Rightarrow> ('s, 'h) run \<Rightarrow> ('s, 'h) run" where
  "exitStream i rn = rn\<lparr>rn_streams := (rn_streams rn)[i := (rn_streams rn ! i)\<lparr>sm_exited := True\<rparr>]\<rparr>"

text \<open>Stream \<open>i\<close> is running, in the given phase.\<close>

definition at_phase :: "('s, 'h) run \<Rightarrow> nat \<Rightarrow> phase \<Rightarrow> bool" where
  "at_phase rn i p \<longleftrightarrow> i < length (rn_streams rn) \<and> \<not> sm_exited (rn_streams rn ! i) \<and> sm_phase (rn_streams rn ! i) = p"

definition has_next :: "'h stream \<Rightarrow> bool" where
  "has_next st \<longleftrightarrow> sm_next st < length (sm_ops st)"

inductive run_step :: "('s, 'h) run_config \<Rightarrow> ('s, 'h) run \<Rightarrow> ('s, 'h) run \<Rightarrow> bool" for cf where
  step_cancel: "\<not> rn_cancelled rn \<Longrightarrow> run_step cf rn (rn\<lparr>rn_cancelled := True\<rparr>)"
| step_finish: "at_phase rn i Ready \<Longrightarrow> \<not> has_next (rn_streams rn ! i) \<Longrightarrow> run_step cf rn (exitStream i rn)"
| step_abandon: "rn_cancelled rn \<Longrightarrow> at_phase rn i p \<Longrightarrow> p = Ready \<or> p = Blocked \<Longrightarrow> run_step cf rn (exitStream i rn)"
| step_acquire: "at_phase rn i Ready \<Longrightarrow> has_next (rn_streams rn ! i) \<Longrightarrow> rn_sem rn < capacity cf \<Longrightarrow>
    run_step cf rn (enterRun cf i drift rn)"
| step_block: "at_phase rn i Ready \<Longrightarrow> has_next (rn_streams rn ! i) \<Longrightarrow> rn_sem rn = capacity cf \<Longrightarrow>
    run_step cf rn (setPhase i Blocked rn)"
| step_unblock: "at_phase rn i Blocked \<Longrightarrow> rn_sem rn < capacity cf \<Longrightarrow>
    run_step cf rn ((enterRun cf i drift rn)\<lparr>rn_backlog := rn_backlog rn + 1, rn_backlogNS := i64 (rn_backlogNS rn + waited)\<rparr>)"
| step_issue: "at_phase rn i Holding \<Longrightarrow> issueOp cf (rn_streams rn ! i) (rn_eng rn) = Some r \<Longrightarrow>
    run_step cf rn (issueRun i r rn)"
| step_leave: "at_phase rn i (Completed b sh e) \<Longrightarrow> run_step cf rn (leaveRun cf i b sh e service latency rn)"

inductive reachable :: "('s, 'h) run_config \<Rightarrow> (int \<times> op list) list \<Rightarrow> 's \<Rightarrow> ('s, 'h) run \<Rightarrow> bool" for cf byStream s where
  reach_start: "reachable cf byStream s (startRun byStream s)"
| reach_step: "reachable cf byStream s rn \<Longrightarrow> run_step cf rn rn' \<Longrightarrow> reachable cf byStream s rn'"

inductive_cases run_stepE: "run_step cf rn rn'"

section \<open>Invariant\<close>

lemma sum_list_update_int:
  fixes f :: "'a \<Rightarrow> int"
  assumes "i < length xs"
  shows "sum_list (map f (xs[i := y])) = sum_list (map f xs) - f (xs ! i) + f y"
  using assms by (induction xs arbitrary: i) (auto split: nat.split)

fun holdsSlot :: "phase \<Rightarrow> bool" where
  "holdsSlot Ready = False"
| "holdsSlot Blocked = False"
| "holdsSlot Holding = True"
| "holdsSlot (Completed b sh e) = True"

definition slots :: "'h stream \<Rightarrow> int" where
  "slots st = (if holdsSlot (sm_phase st) then 1 else 0)"

text \<open>The ops a recorder has seen, as kind, bytes and failure.\<close>

fun opEvent :: "event \<Rightarrow> (op_kind \<times> int \<times> bool) list" where
  "opEvent (EvOp k v n e) = [(k, n, e)]"
| "opEvent _ = []"

definition logEntry :: "op \<times> int \<times> bool \<times> engine_error option \<Rightarrow> op_kind \<times> int \<times> bool" where
  "logEntry l = (case l of (x, n, sh, e) \<Rightarrow> (op_op x, n, e \<noteq> None))"

definition logShort :: "op \<times> int \<times> bool \<times> engine_error option \<Rightarrow> bool" where
  "logShort l = fst (snd (snd l))"

definition rec_inv :: "'h hdr_lib \<Rightarrow> 'h stream \<Rightarrow> bool" where
  "rec_inv L st \<longleftrightarrow> (\<exists>evs. holds L evs (sm_rec st) \<and> concat (map opEvent evs) = map logEntry (sm_log st)
     \<and> length (filter (\<lambda>e. e = EvShort) evs) = length (filter logShort (sm_log st)))"

definition stream_inv :: "'h stream \<Rightarrow> bool" where
  "stream_inv st \<longleftrightarrow> sm_next st \<le> length (sm_ops st) \<and> (sm_phase st \<noteq> Ready \<longrightarrow> has_next st)
     \<and> map fst (sm_log st) = take (sm_next st) (sm_ops st)
     \<and> sm_inflight st = slots st \<and> rc_PeakInflight (sm_rec st) \<le> 1
     \<and> (sm_exited st \<longrightarrow> slots st = 0)"

definition sem_inv :: "('s, 'h) run_config \<Rightarrow> ('s, 'h) run \<Rightarrow> bool" where
  "sem_inv cf rn \<longleftrightarrow> int (rn_sem rn) = sum_list (map slots (rn_streams rn)) \<and> rn_inflight rn = int (rn_sem rn)
     \<and> rn_sem rn \<le> capacity cf \<and> rn_inflight rn \<le> rn_maxDepth rn \<and> rn_maxDepth rn \<le> int (capacity cf)"

definition logBytes :: "'h stream \<Rightarrow> int" where
  "logBytes st = sum_list (map (\<lambda>l. fst (snd l)) (sm_log st))"

definition totals_inv :: "('s, 'h) run \<Rightarrow> bool" where
  "totals_inv rn \<longleftrightarrow> rn_opsDone rn = sum_list (map (\<lambda>st. int (sm_next st)) (rn_streams rn))
     \<and> rn_bytesDone rn = i64 (sum_list (map logBytes (rn_streams rn)))"

definition exit_inv :: "('s, 'h) run \<Rightarrow> bool" where
  "exit_inv rn \<longleftrightarrow> (\<forall>st \<in> set (rn_streams rn). sm_exited st \<and> has_next st \<longrightarrow> rn_cancelled rn)"

definition run_inv :: "('s, 'h) run_config \<Rightarrow> (int \<times> op list) list \<Rightarrow> ('s, 'h) run \<Rightarrow> bool" where
  "run_inv cf byStream rn \<longleftrightarrow> sem_inv cf rn \<and> totals_inv rn \<and> exit_inv rn
     \<and> (\<forall>st \<in> set (rn_streams rn). stream_inv st)
     \<and> map (\<lambda>st. (sm_sid st, sm_ops st)) (rn_streams rn) = byStream"

text \<open>Replacing one stream's state.\<close>

lemma all_update: "\<forall>x \<in> set xs. P x \<Longrightarrow> P y \<Longrightarrow> \<forall>x \<in> set (xs[i := y]). P x"
  using set_update_subset_insert [of xs i y] by blast

lemma ids_update:
  "map (\<lambda>st. (sm_sid st, sm_ops st)) sts = bs \<Longrightarrow> sm_sid st = sm_sid (sts ! i) \<Longrightarrow> sm_ops st = sm_ops (sts ! i) \<Longrightarrow>
     map (\<lambda>st. (sm_sid st, sm_ops st)) (sts[i := st]) = bs"
  by (cases "i < length sts") (auto simp: map_update list_update_same_conv list_update_beyond)

lemma exit_inv_update:
  assumes "exit_inv rn" "sm_exited st' \<and> has_next st' \<longrightarrow> rn_cancelled rn"
    "rn_cancelled rn' = rn_cancelled rn" "rn_streams rn' = (rn_streams rn)[i := st']"
  shows "exit_inv rn'"
  using assms set_update_subset_insert [of "rn_streams rn" i st'] unfolding exit_inv_def by (metis insert_iff subsetD)

lemma slots_bounds: "0 \<le> slots st" "slots st \<le> 1"
  by (simp_all add: slots_def)

lemma at_phaseD:
  assumes "at_phase rn i p"
  shows "i < length (rn_streams rn)" "\<not> sm_exited (rn_streams rn ! i)" "sm_phase (rn_streams rn ! i) = p"
    "rn_streams rn ! i \<in> set (rn_streams rn)"
  using assms by (simp_all add: at_phase_def)

lemma enterStream_simps [simp]:
  "sm_sid (enterStream cf d st) = sm_sid st" "sm_ops (enterStream cf d st) = sm_ops st"
  "sm_next (enterStream cf d st) = sm_next st" "sm_phase (enterStream cf d st) = Holding"
  "sm_inflight (enterStream cf d st) = sm_inflight st + 1" "sm_exited (enterStream cf d st) = sm_exited st"
  "sm_log (enterStream cf d st) = sm_log st" "sm_handles (enterStream cf d st) = sm_handles st"
  "sm_buf (enterStream cf d st) = sm_buf st"
  by (simp_all add: enterStream_def Let_def)

lemma record_peak [simp]:
  "rc_PeakInflight (overflowed ok r) = rc_PeakInflight r"
  "rc_PeakInflight (recordDrift L d r) = rc_PeakInflight r"
  "rc_PeakInflight (recordService L k v r) = rc_PeakInflight r"
  "rc_PeakInflight (recordShortRead r) = rc_PeakInflight r"
  "rc_PeakInflight (recordCompletionLag L v r) = rc_PeakInflight r"
  by (simp_all add: overflowed_def recordDrift_def recordService_def recordShortRead_def recordCompletionLag_def Let_def
      split: prod.split)

lemma recordOp_peak [simp]: "rc_PeakInflight (recordOp L k v n e r) = rc_PeakInflight r"
  by (simp add: recordOp_def Let_def split: prod.split)

lemma enterStream_peak:
  "rc_PeakInflight (sm_rec (enterStream cf d st)) = max (rc_PeakInflight (sm_rec st)) (sm_inflight st + 1)"
  by (simp add: enterStream_def Let_def max_def)

lemma recordOutcome_peak [simp]: "rc_PeakInflight (recordOutcome cf k b sh e sv lt r) = rc_PeakInflight r"
  by (simp add: recordOutcome_def Let_def)

lemma leaveStream_simps [simp]:
  "sm_sid (leaveStream cf b sh e sv lt st) = sm_sid st" "sm_ops (leaveStream cf b sh e sv lt st) = sm_ops st"
  "sm_next (leaveStream cf b sh e sv lt st) = sm_next st + 1" "sm_phase (leaveStream cf b sh e sv lt st) = Ready"
  "sm_inflight (leaveStream cf b sh e sv lt st) = sm_inflight st - 1"
  "sm_exited (leaveStream cf b sh e sv lt st) = sm_exited st"
  "sm_log (leaveStream cf b sh e sv lt st) = sm_log st @ [(sm_ops st ! sm_next st, b, sh, e)]"
  "rc_PeakInflight (sm_rec (leaveStream cf b sh e sv lt st)) = rc_PeakInflight (sm_rec st)"
  by (simp_all add: leaveStream_def Let_def)

lemma startRun_inv: "run_inv cf byStream (startRun byStream s)"
proof -
  have "sum_list (map (\<lambda>st. 0) xs) = (0 :: int)" for xs :: "(int \<times> op list) list" by (induction xs) auto
  then show ?thesis
    by (auto simp: run_inv_def sem_inv_def totals_inv_def exit_inv_def stream_inv_def startRun_def startStream_def slots_def
        has_next_def newRecorder_def logBytes_def comp_def i64_def sum_list_triv)
qed

lemma slots_enter [simp]: "slots (enterStream cf d st) = 1" "slots (leaveStream cf b sh e sv lt st) = 0"
  by (simp_all add: slots_def)

lemma logBytes_simps [simp]:
  "logBytes (enterStream cf d st) = logBytes st" "logBytes (leaveStream cf b sh e sv lt st) = logBytes st + b"
  by (simp_all add: logBytes_def)

lemma stream_inv_enter:
  assumes "stream_inv st" "has_next st" "slots st = 0" "\<not> sm_exited st"
  shows "stream_inv (enterStream cf d st)"
  using assms by (auto simp: stream_inv_def enterStream_peak has_next_def)

lemma stream_inv_leave:
  assumes "stream_inv st" "has_next st" "slots st = 1" "\<not> sm_exited st"
  shows "stream_inv (leaveStream cf b sh e sv lt st)"
  using assms by (auto simp: stream_inv_def has_next_def take_Suc_conv_app_nth)

lemma run_inv_enter:
  assumes inv: "run_inv cf bs rn" and i: "i < length (rn_streams rn)" and st: "slots (rn_streams rn ! i) = 0"
    "\<not> sm_exited (rn_streams rn ! i)" "has_next (rn_streams rn ! i)" and room: "rn_sem rn < capacity cf"
  shows "run_inv cf bs (enterRun cf i d rn)"
proof -
  let ?st = "rn_streams rn ! i"
  have sem: "sem_inv cf rn" and tot: "totals_inv rn" and ex: "exit_inv rn" and all: "\<forall>st \<in> set (rn_streams rn). stream_inv st"
    and ids: "map (\<lambda>st. (sm_sid st, sm_ops st)) (rn_streams rn) = bs" using inv by (simp_all add: run_inv_def)
  have "sem_inv cf (enterRun cf i d rn)"
    using sem room st(1) by (auto simp: sem_inv_def enterRun_def Let_def sum_list_update_int [OF i])
  moreover have "totals_inv (enterRun cf i d rn)"
    using tot by (simp add: totals_inv_def enterRun_def Let_def sum_list_update_int [OF i])
  moreover have "exit_inv (enterRun cf i d rn)"
    by (rule exit_inv_update [OF ex, of "enterStream cf d ?st" _ i]) (simp_all add: enterRun_def Let_def st(2))
  moreover have "\<forall>st \<in> set (rn_streams (enterRun cf i d rn)). stream_inv st"
    unfolding enterRun_def Let_def using all_update [OF all stream_inv_enter [OF _ st(3,1,2)]] all i by simp
  moreover have "map (\<lambda>st. (sm_sid st, sm_ops st)) (rn_streams (enterRun cf i d rn)) = bs"
    unfolding enterRun_def Let_def using ids_update [OF ids, of "enterStream cf d ?st" i] by simp
  ultimately show ?thesis by (simp add: run_inv_def)
qed

lemma run_inv_leave:
  assumes inv: "run_inv cf bs rn" and i: "i < length (rn_streams rn)" and st: "slots (rn_streams rn ! i) = 1"
    "\<not> sm_exited (rn_streams rn ! i)" "has_next (rn_streams rn ! i)"
  shows "run_inv cf bs (leaveRun cf i b sh e sv lt rn)"
proof -
  let ?st = "rn_streams rn ! i"
  have sem: "sem_inv cf rn" and tot: "totals_inv rn" and ex: "exit_inv rn" and all: "\<forall>st \<in> set (rn_streams rn). stream_inv st"
    and ids: "map (\<lambda>st. (sm_sid st, sm_ops st)) (rn_streams rn) = bs" using inv by (simp_all add: run_inv_def)
  have "slots ?st \<le> sum_list (map slots (rn_streams rn))"
    using i by (intro member_le_sum_list) (auto simp: slots_bounds)
  then have pos: "0 < rn_sem rn" using sem st(1) by (simp add: sem_inv_def)
  have "sem_inv cf (leaveRun cf i b sh e sv lt rn)"
    using sem pos st(1) by (auto simp: sem_inv_def leaveRun_def sum_list_update_int [OF i] of_nat_diff)
  moreover have "totals_inv (leaveRun cf i b sh e sv lt rn)"
    using tot by (simp add: totals_inv_def leaveRun_def sum_list_update_int [OF i] add.commute add.left_commute)
  moreover have "exit_inv (leaveRun cf i b sh e sv lt rn)"
    by (rule exit_inv_update [OF ex, of "leaveStream cf b sh e sv lt ?st" _ i]) (simp_all add: leaveRun_def st(2))
  moreover have "\<forall>st \<in> set (rn_streams (leaveRun cf i b sh e sv lt rn)). stream_inv st"
    unfolding leaveRun_def using all_update [OF all stream_inv_leave [OF _ st(3,1,2)]] all i by simp
  moreover have "map (\<lambda>st. (sm_sid st, sm_ops st)) (rn_streams (leaveRun cf i b sh e sv lt rn)) = bs"
    unfolding leaveRun_def using ids_update [OF ids, of "leaveStream cf b sh e sv lt ?st" i] by simp
  ultimately show ?thesis by (simp add: run_inv_def)
qed

text \<open>A step that keeps the stream's slots, position and log.\<close>

lemma run_inv_local:
  assumes inv: "run_inv cf bs rn" and i: "i < length (rn_streams rn)"
    and same: "slots st' = slots (rn_streams rn ! i)" "sm_next st' = sm_next (rn_streams rn ! i)"
      "sm_log st' = sm_log (rn_streams rn ! i)" "sm_sid st' = sm_sid (rn_streams rn ! i)" "sm_ops st' = sm_ops (rn_streams rn ! i)"
    and new: "stream_inv st'" "sm_exited st' \<and> has_next st' \<longrightarrow> rn_cancelled rn"
  shows "run_inv cf bs (rn\<lparr>rn_eng := s', rn_streams := (rn_streams rn)[i := st']\<rparr>)"
proof -
  have sem: "sem_inv cf rn" and tot: "totals_inv rn" and ex: "exit_inv rn" and all: "\<forall>st \<in> set (rn_streams rn). stream_inv st"
    and ids: "map (\<lambda>st. (sm_sid st, sm_ops st)) (rn_streams rn) = bs" using inv by (simp_all add: run_inv_def)
  let ?rn = "rn\<lparr>rn_eng := s', rn_streams := (rn_streams rn)[i := st']\<rparr>"
  have "sem_inv cf ?rn" using sem by (simp add: sem_inv_def sum_list_update_int [OF i] same)
  moreover have "totals_inv ?rn"
    using tot by (simp add: totals_inv_def sum_list_update_int [OF i] same logBytes_def)
  moreover have "exit_inv ?rn"
    by (rule exit_inv_update [OF ex new(2), of _ i]) simp_all
  moreover have "\<forall>st \<in> set (rn_streams ?rn). stream_inv st" using all_update [OF all new(1)] by simp
  moreover have "map (\<lambda>st. (sm_sid st, sm_ops st)) (rn_streams ?rn) = bs" using ids_update [OF ids same(4,5)] by simp
  ultimately show ?thesis by (simp add: run_inv_def)
qed

lemma run_inv_fields:
  "run_inv cf bs rn \<Longrightarrow> run_inv cf bs (rn\<lparr>rn_backlog := n, rn_backlogNS := m\<rparr>)"
  "run_inv cf bs rn \<Longrightarrow> run_inv cf bs (rn\<lparr>rn_cancelled := True\<rparr>)"
  by (simp_all add: run_inv_def sem_inv_def totals_inv_def exit_inv_def)

lemma run_inv_step:
  assumes inv: "run_inv cf bs rn" and step: "run_step cf rn rn'"
  shows "run_inv cf bs rn'"
  using step
proof cases
  case step_cancel
  then show ?thesis using run_inv_fields(2) [OF inv] by simp
next
  case (step_finish i)
  note a = at_phaseD [OF step_finish(2)]
  have st: "stream_inv (rn_streams rn ! i)" using inv a(4) by (simp add: run_inv_def)
  have "run_inv cf bs (rn\<lparr>rn_eng := rn_eng rn, rn_streams := (rn_streams rn)[i := (rn_streams rn ! i)\<lparr>sm_exited := True\<rparr>]\<rparr>)"
    by (rule run_inv_local [OF inv a(1)]) (use st a(3) step_finish(3) in \<open>simp_all add: slots_def stream_inv_def has_next_def\<close>)
  then show ?thesis by (simp add: step_finish(1) exitStream_def)
next
  case (step_abandon i p)
  note a = at_phaseD [OF step_abandon(3)]
  have st: "stream_inv (rn_streams rn ! i)" using inv a(4) by (simp add: run_inv_def)
  have p: "\<not> holdsSlot p" using step_abandon(4) by auto
  have "run_inv cf bs (rn\<lparr>rn_eng := rn_eng rn, rn_streams := (rn_streams rn)[i := (rn_streams rn ! i)\<lparr>sm_exited := True\<rparr>]\<rparr>)"
    by (rule run_inv_local [OF inv a(1)]) (use st a(3) p step_abandon(2) in \<open>simp_all add: slots_def stream_inv_def has_next_def\<close>)
  then show ?thesis by (simp add: step_abandon(1) exitStream_def)
next
  case (step_acquire i d)
  note a = at_phaseD [OF step_acquire(2)]
  show ?thesis unfolding step_acquire(1)
    by (rule run_inv_enter [OF inv a(1)]) (use a step_acquire in \<open>simp_all add: slots_def\<close>)
next
  case (step_block i)
  note a = at_phaseD [OF step_block(2)]
  have st: "stream_inv (rn_streams rn ! i)" using inv a(4) by (simp add: run_inv_def)
  have "run_inv cf bs (rn\<lparr>rn_eng := rn_eng rn, rn_streams := (rn_streams rn)[i := (rn_streams rn ! i)\<lparr>sm_phase := Blocked\<rparr>]\<rparr>)"
    by (rule run_inv_local [OF inv a(1)]) (use st a step_block(3) in \<open>simp_all add: slots_def stream_inv_def has_next_def\<close>)
  then show ?thesis by (simp add: step_block(1) setPhase_def)
next
  case (step_unblock i w d)
  note a = at_phaseD [OF step_unblock(2)]
  have "has_next (rn_streams rn ! i)" using inv a(3,4) by (auto simp: run_inv_def stream_inv_def)
  then have "run_inv cf bs (enterRun cf i d rn)"
    by (intro run_inv_enter [OF inv a(1)]) (use a step_unblock in \<open>simp_all add: slots_def\<close>)
  from run_inv_fields(1) [OF this] show ?thesis by (simp add: step_unblock(1))
next
  case (step_issue i r)
  note a = at_phaseD [OF step_issue(2)]
  have st: "stream_inv (rn_streams rn ! i)" using inv a(4) by (simp add: run_inv_def)
  have "run_inv cf bs (rn\<lparr>rn_eng := d_state r, rn_streams := (rn_streams rn)[i := (rn_streams rn ! i)
      \<lparr>sm_phase := Completed (d_bytes r) (d_short r) (d_err r), sm_handles := d_handles r, sm_buf := d_buf r\<rparr>]\<rparr>)"
    by (rule run_inv_local [OF inv a(1)]) (use st a in \<open>simp_all add: slots_def stream_inv_def has_next_def\<close>)
  then show ?thesis by (simp add: step_issue(1) issueRun_def)
next
  case (step_leave i b sh e sv lt)
  note a = at_phaseD [OF step_leave(2)]
  have "has_next (rn_streams rn ! i)" using inv a(3,4) by (auto simp: run_inv_def stream_inv_def)
  then show ?thesis unfolding step_leave(1)
    by (intro run_inv_leave [OF inv a(1)]) (use a in \<open>simp_all add: slots_def\<close>)
qed

lemma reachable_inv: "reachable cf bs s rn \<Longrightarrow> run_inv cf bs rn"
  by (induction rule: reachable.induct) (auto simp: startRun_inv intro: run_inv_step)

section \<open>The recorders\<close>

lemma holds_peak [simp]: "holds L evs (r\<lparr>rc_PeakInflight := n\<rparr>) = holds L evs r"
  by (simp add: holds_def)

lemma rec_inv_local:
  "rec_inv L st \<Longrightarrow> sm_rec st' = sm_rec st \<Longrightarrow> sm_log st' = sm_log st \<Longrightarrow> rec_inv L st'"
  by (simp add: rec_inv_def)

lemma rec_inv_enter:
  assumes L: "hdr_laws (cf_hist cf)" and "rec_inv (cf_hist cf) st"
  shows "rec_inv (cf_hist cf) (enterStream cf d st)"
proof -
  obtain evs where evs: "holds (cf_hist cf) evs (sm_rec st)" "concat (map opEvent evs) = map logEntry (sm_log st)"
    "length (filter (\<lambda>e. e = EvShort) evs) = length (filter logShort (sm_log st))" using assms(2) by (auto simp: rec_inv_def)
  let ?e = "EvDrift (if d < 0 then 0 else d)"
  have "holds (cf_hist cf) (if cf_paced cf then evs @ [?e] else evs) (sm_rec (enterStream cf d st))"
    using evs(1) holds_step [OF L, of evs _ ?e] by (auto simp: enterStream_def Let_def)
  then show ?thesis using evs(2,3)
    by (auto simp: rec_inv_def intro!: exI [of _ "if cf_paced cf then evs @ [?e] else evs"])
qed

lemma rec_inv_leave:
  assumes L: "hdr_laws (cf_hist cf)" and "rec_inv (cf_hist cf) st"
  shows "rec_inv (cf_hist cf) (leaveStream cf b sh e sv lt st)"
proof -
  obtain evs where evs: "holds (cf_hist cf) evs (sm_rec st)" "concat (map opEvent evs) = map logEntry (sm_log st)"
    "length (filter (\<lambda>e. e = EvShort) evs) = length (filter logShort (sm_log st))" using assms(2) by (auto simp: rec_inv_def)
  let ?k = "op_op (sm_ops st ! sm_next st)"
  let ?new = "[EvService ?k (if sv < 0 then 0 else sv)] @ (if sh then [EvShort] else []) @ (if cf_paced cf then [EvLag lt] else [])
    @ [EvOp ?k (if lt < 0 then 0 else lt) b (e \<noteq> None)]"
  have "holds (cf_hist cf) (evs @ ?new) (fold (applyEvent (cf_hist cf)) ?new (sm_rec st))"
  proof -
    have "holds (cf_hist cf) (evs @ new) (fold (applyEvent (cf_hist cf)) new (sm_rec st))" for new
      by (induction new rule: rev_induct) (simp_all add: evs(1) holds_step [OF L] flip: append_assoc)
    then show ?thesis .
  qed
  moreover have "fold (applyEvent (cf_hist cf)) ?new (sm_rec st) = sm_rec (leaveStream cf b sh e sv lt st)"
    by (simp add: leaveStream_def recordOutcome_def Let_def)
  ultimately have "holds (cf_hist cf) (evs @ ?new) (sm_rec (leaveStream cf b sh e sv lt st))" by simp
  then show ?thesis using evs(2,3)
    by (auto simp: rec_inv_def logEntry_def logShort_def intro!: exI [of _ "evs @ ?new"])
qed

lemma reachable_rec:
  assumes "reachable cf bs s rn" "hdr_laws (cf_hist cf)"
  shows "\<forall>st \<in> set (rn_streams rn). rec_inv (cf_hist cf) st"
  using assms(1)
proof (induction rule: reachable.induct)
  case reach_start
  have "rec_inv (cf_hist cf) (startStream so)" for so
    unfolding rec_inv_def by (rule exI [of _ "[]"]) (simp add: startStream_def holds_new)
  then show ?case by (auto simp: startRun_def)
next
  case (reach_step rn rn')
  have upd: "\<forall>st \<in> set ((rn_streams rn)[i := y]). rec_inv (cf_hist cf) st" if "rec_inv (cf_hist cf) y" for i y
    using all_update [OF reach_step.IH that] .
  have at: "rec_inv (cf_hist cf) (rn_streams rn ! i)" if "at_phase rn i p" for i p
    using at_phaseD(4) [OF that] reach_step.IH by blast
  from reach_step.hyps(2) show ?case
    by cases (auto simp: exitStream_def setPhase_def issueRun_def enterRun_def leaveRun_def Let_def reach_step.IH
      intro!: upd rec_inv_enter [OF assms(2)] rec_inv_leave [OF assms(2)] intro: at rec_inv_local [OF at])
qed

section \<open>Progress and termination\<close>

definition finished :: "('s, 'h) run \<Rightarrow> bool" where
  "finished rn \<longleftrightarrow> (\<forall>st \<in> set (rn_streams rn). sm_exited st)"

text \<open>Some stream is about to issue an op on which the dispatcher panics.\<close>

definition panics :: "('s, 'h) run_config \<Rightarrow> ('s, 'h) run \<Rightarrow> bool" where
  "panics cf rn \<longleftrightarrow> (\<exists>st \<in> set (rn_streams rn). \<not> sm_exited st \<and> sm_phase st = Holding \<and> issueOp cf st (rn_eng rn) = None)"

lemma slot_holder:
  assumes "0 < rn_sem rn" "sem_inv cf rn" "\<forall>st \<in> set (rn_streams rn). stream_inv st"
  obtains i where "i < length (rn_streams rn)" "\<not> sm_exited (rn_streams rn ! i)" "holdsSlot (sm_phase (rn_streams rn ! i))"
proof -
  have "\<exists>st \<in> set (rn_streams rn). slots st \<noteq> 0"
  proof (rule ccontr)
    assume none: "\<not> (\<exists>st \<in> set (rn_streams rn). slots st \<noteq> 0)"
    have "sum_list (map slots xs) = 0" if "\<forall>st \<in> set xs. slots st = 0" for xs :: "'b stream list"
      using that by (induction xs) auto
    from this [of "rn_streams rn"] none have "sum_list (map slots (rn_streams rn)) = 0" by blast
    then show False using assms(1,2) by (simp add: sem_inv_def)
  qed
  then obtain st where st: "st \<in> set (rn_streams rn)" "slots st \<noteq> 0" by blast
  then obtain i where "i < length (rn_streams rn)" "st = rn_streams rn ! i" by (auto simp: in_set_conv_nth)
  with st assms(3) that show thesis by (auto simp: slots_def stream_inv_def split: if_splits)
qed

lemma holder_steps:
  assumes "i < length (rn_streams rn)" "\<not> sm_exited (rn_streams rn ! i)" "holdsSlot (sm_phase (rn_streams rn ! i))" "\<not> panics cf rn"
  shows "\<exists>rn'. run_step cf rn rn'"
proof (cases "sm_phase (rn_streams rn ! i)")
  case Holding
  then have "issueOp cf (rn_streams rn ! i) (rn_eng rn) \<noteq> None" using assms by (auto simp: panics_def)
  then obtain r where "issueOp cf (rn_streams rn ! i) (rn_eng rn) = Some r" by blast
  with Holding assms(1,2) step_issue [of rn i cf r] show ?thesis by (auto simp: at_phase_def)
next
  case (Completed b sh e)
  with assms(1,2) step_leave [of rn i b sh e cf 0 0] show ?thesis by (auto simp: at_phase_def)
qed (use assms(3) in simp_all)

lemma run_progress:
  assumes inv: "run_inv cf bs rn" and "\<not> finished rn" "\<not> panics cf rn"
  shows "\<exists>rn'. run_step cf rn rn'"
proof -
  have sem: "sem_inv cf rn" and all: "\<forall>st \<in> set (rn_streams rn). stream_inv st" using inv by (simp_all add: run_inv_def)
  obtain i where i: "i < length (rn_streams rn)" "\<not> sm_exited (rn_streams rn ! i)"
    using assms(2) by (auto simp: finished_def in_set_conv_nth)
  show ?thesis
  proof (cases "holdsSlot (sm_phase (rn_streams rn ! i))")
    case True
    show ?thesis by (rule holder_steps [OF i True assms(3)])
  next
    case False
    then consider "sm_phase (rn_streams rn ! i) = Ready" | "sm_phase (rn_streams rn ! i) = Blocked"
      by (cases "sm_phase (rn_streams rn ! i)") auto
    then show ?thesis
    proof cases
      case 1
      then have at: "at_phase rn i Ready" using i by (simp add: at_phase_def)
      show ?thesis
      proof (cases "has_next (rn_streams rn ! i)")
        case True
        have "rn_sem rn \<le> capacity cf" using sem by (simp add: sem_inv_def)
        with step_acquire [OF at True, of cf 0] step_block [OF at True, of cf] show ?thesis by (metis le_less)
      qed (use step_finish [OF at] in blast)
    next
      case 2
      then have at: "at_phase rn i Blocked" using i by (simp add: at_phase_def)
      show ?thesis
      proof (cases "rn_sem rn < capacity cf")
        case True
        with step_unblock [OF at] show ?thesis by blast
      next
        case False
        then have "0 < rn_sem rn" using capacity_pos [of cf] by linarith
        from slot_holder [OF this sem all] obtain j where "j < length (rn_streams rn)" "\<not> sm_exited (rn_streams rn ! j)"
          "holdsSlot (sm_phase (rn_streams rn ! j))" by blast
        from holder_steps [OF this assms(3)] show ?thesis .
      qed
    qed
  qed
qed

fun rank :: "phase \<Rightarrow> nat" where
  "rank Ready = 4"
| "rank Blocked = 3"
| "rank Holding = 2"
| "rank (Completed b sh e) = 1"

definition stream_work :: "'h stream \<Rightarrow> nat" where
  "stream_work st = (if sm_exited st then 0 else 4 * (length (sm_ops st) - sm_next st) + rank (sm_phase st))"

definition work :: "('s, 'h) run \<Rightarrow> nat" where
  "work rn = sum_list (map stream_work (rn_streams rn)) + (if rn_cancelled rn then 0 else 1)"

lemma sum_work_less:
  assumes "i < length sts" "stream_work st' < stream_work (sts ! i)"
  shows "sum_list (map stream_work (sts[i := st'])) < sum_list (map stream_work sts)"
  using assms
proof (induction sts arbitrary: i)
  case (Cons x sts)
  then show ?case by (cases i) auto
qed simp

lemma work_less:
  assumes "at_phase rn i p" "rn_streams rn' = (rn_streams rn)[i := st']" "rn_cancelled rn' = rn_cancelled rn"
    "stream_work st' < 4 * (length (sm_ops (rn_streams rn ! i)) - sm_next (rn_streams rn ! i)) + rank p"
  shows "work rn' < work rn"
proof -
  note a = at_phaseD [OF assms(1)]
  have "stream_work (rn_streams rn ! i) = 4 * (length (sm_ops (rn_streams rn ! i)) - sm_next (rn_streams rn ! i)) + rank p"
    using a(2,3) by (simp add: stream_work_def)
  with sum_work_less [OF a(1), of st'] assms(4) show ?thesis by (simp add: work_def assms(2,3))
qed

lemma work_decreases:
  assumes inv: "run_inv cf bs rn" and step: "run_step cf rn rn'"
  shows "work rn' < work rn"
  using step
proof cases
  case step_cancel
  then show ?thesis by (simp add: work_def)
next
  case (step_finish i)
  show ?thesis by (rule work_less [OF step_finish(2), of _ "(rn_streams rn ! i)\<lparr>sm_exited := True\<rparr>"]) (simp_all add: step_finish(1) exitStream_def stream_work_def)
next
  case (step_abandon i p)
  show ?thesis by (rule work_less [OF step_abandon(3), of _ "(rn_streams rn ! i)\<lparr>sm_exited := True\<rparr>"])
      (use step_abandon(4) in \<open>auto simp: step_abandon(1) exitStream_def stream_work_def\<close>)
next
  case (step_acquire i d)
  show ?thesis by (rule work_less [OF step_acquire(2), of _ "enterStream cf d (rn_streams rn ! i)"]) (simp_all add: step_acquire(1) enterRun_def Let_def stream_work_def)
next
  case (step_block i)
  show ?thesis by (rule work_less [OF step_block(2), of _ "(rn_streams rn ! i)\<lparr>sm_phase := Blocked\<rparr>"]) (simp_all add: step_block(1) setPhase_def stream_work_def)
next
  case (step_unblock i w d)
  show ?thesis by (rule work_less [OF step_unblock(2), of _ "enterStream cf d (rn_streams rn ! i)"]) (simp_all add: step_unblock(1) enterRun_def Let_def stream_work_def)
next
  case (step_issue i r)
  show ?thesis by (rule work_less [OF step_issue(2), of _ "(rn_streams rn ! i)
      \<lparr>sm_phase := Completed (d_bytes r) (d_short r) (d_err r), sm_handles := d_handles r, sm_buf := d_buf r\<rparr>"]) (simp_all add: step_issue(1) issueRun_def stream_work_def)
next
  case (step_leave i b sh e sv lt)
  have "has_next (rn_streams rn ! i)" using inv at_phaseD(3,4) [OF step_leave(2)] by (auto simp: run_inv_def stream_inv_def)
  then show ?thesis
    by (intro work_less [OF step_leave(2), of _ "leaveStream cf b sh e sv lt (rn_streams rn ! i)"]) (auto simp: step_leave(1) leaveRun_def stream_work_def has_next_def)
qed

lemma work_start: "work (startRun byStream s) = sum_list (map (\<lambda>so. 4 * length (snd so) + 4) byStream) + 1"
  by (simp add: work_def startRun_def stream_work_def startStream_def comp_def)


section \<open>Runs and schedules\<close>

text \<open>
  \<open>stepStream\<close> performs the next action of stream \<open>i\<close> with the clock standing still; a schedule
  is the list of streams to move. It makes runs of the step relation that can be evaluated.
\<close>

definition stepStream :: "('s, 'h) run_config \<Rightarrow> nat \<Rightarrow> ('s, 'h) run \<Rightarrow> ('s, 'h) run option" where
  "stepStream cf i rn =
     (if i < length (rn_streams rn) \<and> \<not> sm_exited (rn_streams rn ! i) then
        (case sm_phase (rn_streams rn ! i) of
           Ready \<Rightarrow> (if has_next (rn_streams rn ! i)
             then (if rn_sem rn < capacity cf then Some (enterRun cf i 0 rn)
                   else if rn_sem rn = capacity cf then Some (setPhase i Blocked rn) else None)
             else Some (exitStream i rn))
         | Blocked \<Rightarrow> (if rn_sem rn < capacity cf
             then Some ((enterRun cf i 0 rn)\<lparr>rn_backlog := rn_backlog rn + 1, rn_backlogNS := i64 (rn_backlogNS rn + 0)\<rparr>) else None)
         | Holding \<Rightarrow> map_option (\<lambda>r. issueRun i r rn) (issueOp cf (rn_streams rn ! i) (rn_eng rn))
         | Completed b sh e \<Rightarrow> Some (leaveRun cf i b sh e 0 0 rn))
      else None)"

fun runSchedule :: "('s, 'h) run_config \<Rightarrow> nat list \<Rightarrow> ('s, 'h) run \<Rightarrow> ('s, 'h) run option" where
  "runSchedule cf [] rn = Some rn"
| "runSchedule cf (i # sched) rn = (case stepStream cf i rn of None \<Rightarrow> None | Some rn' \<Rightarrow> runSchedule cf sched rn')"

lemma stepStream_step: "stepStream cf i rn = Some rn' \<Longrightarrow> run_step cf rn rn'"
  unfolding stepStream_def
  by (auto split: if_splits phase.splits intro: step_finish step_acquire step_block step_issue step_leave
      step_unblock [of rn i cf 0 0, simplified] simp: at_phase_def)

lemma runSchedule_steps: "runSchedule cf sched rn = Some rn' \<Longrightarrow> (run_step cf ^^ length sched) rn rn'"
proof (induction sched arbitrary: rn)
  case (Cons i sched)
  then obtain rm where "stepStream cf i rn = Some rm" "runSchedule cf sched rm = Some rn'" by (auto split: option.splits)
  with Cons.IH stepStream_step show ?case by (metis length_Cons relpowp_Suc_I2)
qed simp

lemma steps_reachable: "(run_step cf ^^ n) (startRun bs s) rn \<Longrightarrow> reachable cf bs s rn"
  by (induction n arbitrary: rn) (auto intro: reachable.intros)

lemma steps_work:
  assumes "(run_step cf ^^ n) (startRun bs s) rn"
  shows "work rn + n \<le> sum_list (map (\<lambda>so. 4 * length (snd so) + 4) bs) + 1"
  using assms
proof (induction n arbitrary: rn)
  case (Suc n)
  then obtain rm where rm: "(run_step cf ^^ n) (startRun bs s) rm" "run_step cf rm rn" by auto
  have "work rn < work rm" by (rule work_decreases [OF reachable_inv [OF steps_reachable [OF rm(1)]] rm(2)])
  with Suc.IH [OF rm(1)] show ?case by simp
qed (auto simp: work_start)

lemma slots_count: "sum_list (map slots sts) = int (length (filter (\<lambda>st. holdsSlot (sm_phase st)) sts))"
  by (induction sts) (auto simp: slots_def)

lemma opEvent_bytes: "sum_list (map bytesVal evs) = sum_list (map (\<lambda>e. fst (snd e)) (concat (map opEvent evs)))"
proof (induction evs)
  case (Cons e evs)
  then show ?case by (cases e) auto
qed simp

lemma opEvent_errors: "length (filter isError evs) = length (filter (\<lambda>e. snd (snd e)) (concat (map opEvent evs)))"
proof (induction evs)
  case (Cons e evs)
  then show ?case by (cases e) auto
qed simp

definition logFailed :: "op \<times> int \<times> bool \<times> engine_error option \<Rightarrow> bool" where
  "logFailed l \<longleftrightarrow> snd (snd (snd l)) \<noteq> None"

lemma rec_inv_totals:
  assumes "rec_inv L st"
  shows "rc_Bytes (sm_rec st) = i64 (logBytes st) \<and> rc_Errors (sm_rec st) = int (length (filter logFailed (sm_log st)))
    \<and> rc_ShortReads (sm_rec st) = int (length (filter logShort (sm_log st)))"
proof -
  obtain evs where evs: "holds L evs (sm_rec st)" "concat (map opEvent evs) = map logEntry (sm_log st)"
    "length (filter (\<lambda>e. e = EvShort) evs) = length (filter logShort (sm_log st))" using assms by (auto simp: rec_inv_def)
  have b: "map (\<lambda>e. fst (snd e)) (map logEntry lg) = map (\<lambda>l. fst (snd l)) lg" for lg
    by (auto simp: logEntry_def)
  have f: "filter (\<lambda>e. snd (snd e)) (map logEntry lg) = map logEntry (filter logFailed lg)" for lg
    by (induction lg) (auto simp: logEntry_def logFailed_def)
  show ?thesis using evs(1,3) by (simp add: holds_def opEvent_bytes opEvent_errors evs(2) b f logBytes_def del: map_map)
qed

lemma finished_all_done:
  assumes inv: "run_inv cf bs rn" and fin: "finished rn" "\<not> rn_cancelled rn" and st: "st \<in> set (rn_streams rn)"
  shows "sm_next st = length (sm_ops st) \<and> map fst (sm_log st) = sm_ops st"
proof -
  have "stream_inv st" "exit_inv rn" "sm_exited st" using inv fin(1) st by (auto simp: run_inv_def finished_def)
  with fin(2) st have "sm_next st \<le> length (sm_ops st)" "\<not> has_next st" "map fst (sm_log st) = take (sm_next st) (sm_ops st)"
    by (auto simp: exit_inv_def stream_inv_def)
  then show ?thesis by (simp add: has_next_def)
qed

section \<open>Properties\<close>

text \<open>
  C2: replay respects its concurrency limits in every interleaving. The streams holding a slot
  are exactly the semaphore's count, never more than the configured cap (512 when it is not
  positive); the reported maximum depth is within the cap; no stream ever has two ops in
  flight; and each stream has issued a prefix of its ops, in trace order, with none skipped.
\<close>

theorem replay_bounded:
  assumes "reachable cf bs s rn"
  shows "length (filter (\<lambda>st. holdsSlot (sm_phase st)) (rn_streams rn)) = rn_sem rn \<and> rn_sem rn \<le> capacity cf
    \<and> rn_inflight rn \<le> rn_maxDepth rn \<and> rn_maxDepth rn \<le> int (capacity cf)
    \<and> map (\<lambda>st. (sm_sid st, sm_ops st)) (rn_streams rn) = bs
    \<and> (\<forall>st \<in> set (rn_streams rn). rc_PeakInflight (sm_rec st) \<le> 1 \<and> map fst (sm_log st) = take (sm_next st) (sm_ops st))"
proof -
  have inv: "sem_inv cf rn" "\<forall>st \<in> set (rn_streams rn). stream_inv st" "map (\<lambda>st. (sm_sid st, sm_ops st)) (rn_streams rn) = bs"
    using reachable_inv [OF assms] by (simp_all add: run_inv_def)
  show ?thesis using inv(1) slots_count [of "rn_streams rn"] inv(2,3) by (simp add: sem_inv_def stream_inv_def)
qed

definition sample_streams :: "(int \<times> op list) list" where
  "sample_streams =
     [(0, [zero_op\<lparr>op_op := OpOpen, op_id := Some 0, op_tgt := Some 0, op_h := Some 7, op_mode := ModeReadWrite\<rparr>,
           zero_op\<lparr>op_op := OpClose, op_id := Some 1, op_h := Some 7\<rparr>]),
      (1, [zero_op\<lparr>op_op := OpStat, op_id := Some 2, op_s := 1, op_tgt := Some 0\<rparr>])]"

definition sample_config :: "(mem_state, int) run_config" where
  "sample_config = \<lparr>cf_eng = memEngine (withFixedSize 16),
     cf_hdr = zero_header\<lparr>hdr_targets := [\<lparr>ti_id = 0, ti_name = ''a'', ti_kind = TargetFile, ti_size = 16\<rparr>]\<rparr>,
     cf_fill = \<lparr>fc_mode = FillZero, fc_seed = 0\<rparr>, cf_objSizes = [], cf_hist = one_bucket, cf_maxInflight = 1, cf_paced = True\<rparr>"

text \<open>With one slot, stream 1 finds the semaphore taken by stream 0 and has to wait.\<close>

definition sample_schedule :: "nat list" where
  "sample_schedule = [0, 1, 0, 0, 1, 1, 1, 0, 0, 0, 0, 1]"

definition sample_run :: "(mem_state, int) run" where
  "sample_run = the (runSchedule sample_config sample_schedule (startRun sample_streams memNew))"

lemma sample_run: "(run_step sample_config ^^ 12) (startRun sample_streams memNew) sample_run"
proof -
  have "runSchedule sample_config sample_schedule (startRun sample_streams memNew) = Some sample_run"
    by code_simp
  moreover have "length sample_schedule = 12" by (simp add: sample_schedule_def)
  ultimately show ?thesis by (metis runSchedule_steps)
qed

lemma sample_finished: "finished sample_run" "\<not> rn_cancelled sample_run"
  unfolding finished_def by code_simp+

theorem replay_bounded_witness:
  "length (filter (\<lambda>st. holdsSlot (sm_phase st)) (rn_streams sample_run)) = rn_sem sample_run
    \<and> rn_sem sample_run \<le> capacity sample_config
    \<and> rn_inflight sample_run \<le> rn_maxDepth sample_run \<and> rn_maxDepth sample_run \<le> int (capacity sample_config)
    \<and> map (\<lambda>st. (sm_sid st, sm_ops st)) (rn_streams sample_run) = sample_streams
    \<and> list_all (\<lambda>st. rc_PeakInflight (sm_rec st) \<le> 1 \<and> map fst (sm_log st) = take (sm_next st) (sm_ops st))
        (rn_streams sample_run)"
  unfolding list_all_iff by (rule replay_bounded [OF steps_reachable [OF sample_run]])



text \<open>
  C4: a replay that is not cancelled replays everything and accounts for all of it. When every
  stream has exited, each has issued all its ops in trace order; the live totals are the number
  of ops and the bytes credited; and each stream's recorder holds the bytes, errors and short
  reads of exactly the outcomes of its ops.
\<close>

theorem replay_complete:
  assumes "reachable cf bs s rn" "finished rn" "\<not> rn_cancelled rn" "hdr_laws (cf_hist cf)"
  shows "map (\<lambda>st. map fst (sm_log st)) (rn_streams rn) = map snd bs
    \<and> rn_opsDone rn = sum_list (map (\<lambda>so. int (length (snd so))) bs)
    \<and> rn_bytesDone rn = i64 (sum_list (map logBytes (rn_streams rn)))
    \<and> (\<forall>st \<in> set (rn_streams rn). rc_Bytes (sm_rec st) = i64 (logBytes st)
        \<and> rc_Errors (sm_rec st) = int (length (filter logFailed (sm_log st)))
        \<and> rc_ShortReads (sm_rec st) = int (length (filter logShort (sm_log st))))"
proof -
  have inv: "run_inv cf bs rn" by (rule reachable_inv [OF assms(1)])
  then have bs: "map (\<lambda>st. (sm_sid st, sm_ops st)) (rn_streams rn) = bs" and tot: "totals_inv rn" by (simp_all add: run_inv_def)
  have dn: "map (\<lambda>st. map fst (sm_log st)) (rn_streams rn) = map sm_ops (rn_streams rn)"
    "map (\<lambda>st. int (sm_next st)) (rn_streams rn) = map (\<lambda>st. int (length (sm_ops st))) (rn_streams rn)"
    using finished_all_done [OF inv assms(2,3)] by simp_all
  have recs: "\<forall>st \<in> set (rn_streams rn). rc_Bytes (sm_rec st) = i64 (logBytes st)
      \<and> rc_Errors (sm_rec st) = int (length (filter logFailed (sm_log st)))
      \<and> rc_ShortReads (sm_rec st) = int (length (filter logShort (sm_log st)))"
    using reachable_rec [OF assms(1,4)] by (intro ballI rec_inv_totals [where L = "cf_hist cf"]) simp
  from tot have "rn_opsDone rn = sum_list (map (\<lambda>st. int (length (sm_ops st))) (rn_streams rn))"
    "rn_bytesDone rn = i64 (sum_list (map logBytes (rn_streams rn)))" by (simp_all only: totals_inv_def dn)
  with dn(1) recs show ?thesis by (simp flip: bs add: comp_def)
qed

theorem replay_complete_witness:
  "map (\<lambda>st. map fst (sm_log st)) (rn_streams sample_run) = map snd sample_streams
    \<and> rn_opsDone sample_run = sum_list (map (\<lambda>so. int (length (snd so))) sample_streams)
    \<and> rn_bytesDone sample_run = i64 (sum_list (map logBytes (rn_streams sample_run)))
    \<and> list_all (\<lambda>st. rc_Bytes (sm_rec st) = i64 (logBytes st)
        \<and> rc_Errors (sm_rec st) = int (length (filter logFailed (sm_log st)))
        \<and> rc_ShortReads (sm_rec st) = int (length (filter logShort (sm_log st)))) (rn_streams sample_run)"
  unfolding list_all_iff by (rule replay_complete [OF steps_reachable [OF sample_run] sample_finished])
    (simp add: sample_config_def one_bucket_laws)

end
