(* ===== verification/Float64_Order.thy ===== *)
theory Float64_Order
  imports Float64
begin

text \<open>
  Order properties of \<open>float64\<close>: the exponent of a rational is where the definition says it is,
  rounding is monotone, and a number that is a double rounds to itself.
\<close>

section \<open>Powers of two\<close>

lemma pow2_add: "pow2 (a + b) = pow2 a * pow2 b"
proof -
  have "pow2 e = 2 powi e" for e
    by (simp add: pow2_def power_int_def inverse_eq_divide power_one_over)
  then show ?thesis by (simp add: power_int_add)
qed

lemma pow2_0 [simp]: "pow2 0 = 1" and pow2_1 [simp]: "pow2 1 = 2"
  by (simp_all add: pow2_def)

lemma pow2_nat: "0 \<le> e \<Longrightarrow> pow2 e = of_int (2 ^ nat e)"
  by (simp add: pow2_def)

lemma pow2_mono: "a \<le> b \<Longrightarrow> pow2 a \<le> pow2 b"
proof -
  assume "a \<le> b"
  then have "1 \<le> pow2 (b - a)" by (simp add: pow2_nat)
  moreover have "pow2 b = pow2 a * pow2 (b - a)" by (simp flip: pow2_add)
  ultimately show ?thesis using pow2_pos [of a] by simp
qed

lemma pow2_less: "pow2 a < pow2 b \<Longrightarrow> a < b"
  using pow2_mono [of b a] by linarith

lemma pow2_minus: "pow2 (a - b) = pow2 a / pow2 b"
proof -
  have "pow2 a = pow2 (a - b) * pow2 b" by (simp flip: pow2_add)
  then show ?thesis using pow2_pos [of b] by (simp add: field_simps less_imp_neq [OF pow2_pos, symmetric])
qed

lemma pow2_split: "u \<le> k \<Longrightarrow> of_int (2 ^ nat (k - u)) * pow2 u = pow2 k"
proof -
  assume "u \<le> k"
  then have "pow2 (k - u) = of_int (2 ^ nat (k - u))" by (intro pow2_nat) simp
  moreover have "pow2 k = pow2 (k - u) * pow2 u" by (simp flip: pow2_add)
  ultimately show ?thesis by simp
qed

section \<open>The exponent\<close>

lemma bitlen_bounds': "0 < n \<Longrightarrow> pow2 (bitlen n - 1) \<le> of_int n \<and> of_int n < pow2 (bitlen n)"
proof -
  assume n: "0 < n"
  have p: "pow2 (bitlen n - 1) = of_int (2 ^ nat (bitlen n - 1))" "pow2 (bitlen n) = of_int (2 ^ nat (bitlen n))"
    using n bitlen_nonneg [of n] bitlen_eq_zero_iff [of n] by (intro pow2_nat; linarith)+
  show ?thesis unfolding p of_int_le_iff of_int_less_iff using bitlen_bounds [OF n] by simp
qed

lemma binExp_bounds:
  assumes "0 < q"
  shows "pow2 (binExp q) \<le> q \<and> q < pow2 (binExp q + 1)"
proof -
  obtain n d where nd: "quotient_of q = (n, d)" by fastforce
  have q: "q = of_int n / of_int d" and d: "0 < d" using nd by (simp_all add: quotient_of_div quotient_of_denom_pos)
  have n: "0 < n" using assms q d by (simp add: zero_less_divide_iff)
  let ?e = "bitlen n - bitlen d"
  have bn: "pow2 (bitlen n - 1) \<le> of_int n" "of_int n < pow2 (bitlen n)"
    and bd: "pow2 (bitlen d - 1) \<le> of_int d" "of_int d < pow2 (bitlen d)"
    using bitlen_bounds' n d by blast+
  have dd: "(0 :: rat) < of_int d" using d by simp
  have lo: "pow2 (?e - 1) \<le> q"
  proof -
    have "pow2 (?e - 1) = pow2 (bitlen n - 1) / pow2 (bitlen d)" by (simp flip: pow2_minus add: algebra_simps)
    also have "\<dots> \<le> of_int n / of_int d" using bn(1) bd(2) dd n by (intro frac_le) auto
    finally show ?thesis by (simp add: q)
  qed
  have hi: "q < pow2 (?e + 1)"
  proof -
    have "of_int n / of_int d < pow2 (bitlen n) / pow2 (bitlen d - 1)" using bn(2) bd(1) n dd by (intro frac_less) auto
    also have "\<dots> = pow2 (?e + 1)" by (simp flip: pow2_minus add: algebra_simps)
    finally show ?thesis by (simp add: q)
  qed
  have "binExp q = (if q < pow2 ?e then ?e - 1 else ?e)" by (simp add: binExp_def nd Let_def)
  with lo hi show ?thesis by auto
qed

lemma binExp_mono: "0 < p \<Longrightarrow> p \<le> q \<Longrightarrow> binExp p \<le> binExp q"
  using pow2_less [of "binExp p" "binExp q + 1"] binExp_bounds [of p] binExp_bounds [of q] by linarith

section \<open>Rounding\<close>

lemma roundEven_mono: "p \<le> q \<Longrightarrow> roundEven p \<le> roundEven q"
proof -
  assume pq: "p \<le> q"
  show ?thesis
  proof (cases "\<lfloor>p\<rfloor> = \<lfloor>q\<rfloor>")
    case True
    with pq show ?thesis by (auto simp: roundEven_def Let_def)
  next
    case False
    with pq have "\<lfloor>p\<rfloor> + 1 \<le> \<lfloor>q\<rfloor>" using floor_mono [OF pq] by linarith
    moreover have "roundEven p \<le> \<lfloor>p\<rfloor> + 1" by (intro roundEven_le) linarith
    moreover have "\<lfloor>q\<rfloor> \<le> roundEven q" by (intro roundEven_ge) linarith
    ultimately show ?thesis by linarith
  qed
qed

definition ulpExp :: "rat \<Rightarrow> int" where
  "ulpExp q = max (binExp q - 52) (- 1074)"

lemma fl_pos: "0 < q \<Longrightarrow> fl q = of_int (roundEven (q / pow2 (ulpExp q))) * pow2 (ulpExp q)"
  by (simp add: fl_def ulpExp_def Let_def)

lemma fl_minus: "fl (- q) = - fl q"
  by (simp add: fl_def Let_def)

text \<open>A multiple of the last place of its binade, or a smaller one, is a double.\<close>

lemma fl_exact:
  assumes "0 < q" "q = of_int m * pow2 e" "ulpExp q \<le> e"
  shows "fl q = q"
proof -
  let ?u = "ulpExp q"
  have "q / pow2 ?u = of_int m * pow2 (e - ?u)" using assms(2) by (simp add: pow2_minus)
  also have "\<dots> = of_int (m * 2 ^ nat (e - ?u))" using assms(3) by (simp add: pow2_nat)
  finally have "q / pow2 ?u = of_int (m * 2 ^ nat (e - ?u))" .
  then have "of_int (roundEven (q / pow2 ?u)) = q / pow2 ?u" by (simp only: roundEven_int)
  then show ?thesis using less_imp_neq [OF pow2_pos, of ?u] by (simp add: fl_pos [OF assms(1)])
qed

lemma fl_pow2:
  assumes "- 1074 \<le> e"
  shows "fl (pow2 e) = pow2 e"
proof (rule fl_exact)
  show "pow2 e = of_int 1 * pow2 e" by simp
  have "pow2 (binExp (pow2 e)) \<le> pow2 e" using binExp_bounds by simp
  then have "binExp (pow2 e) < e + 1" by (intro pow2_less) (simp add: pow2_add le_less_trans)
  with assms show "ulpExp (pow2 e) \<le> e" by (simp add: ulpExp_def)
qed simp

lemma fl_le_pow2:
  assumes "0 < q" "q \<le> pow2 k" "ulpExp q \<le> k"
  shows "fl q \<le> pow2 k"
proof -
  let ?u = "ulpExp q"
  have "q / pow2 ?u \<le> of_int (2 ^ nat (k - ?u))"
    unfolding pos_divide_le_eq [OF pow2_pos] pow2_split [OF assms(3)] by (rule assms(2))
  then have "of_int (roundEven (q / pow2 ?u)) \<le> (of_int (2 ^ nat (k - ?u)) :: rat)"
    by (subst of_int_le_iff) (rule roundEven_le)
  then have "fl q \<le> of_int (2 ^ nat (k - ?u)) * pow2 ?u"
    unfolding fl_pos [OF assms(1)] by (rule mult_right_mono) (simp add: less_imp_le)
  also have "\<dots> = pow2 k" by (rule pow2_split [OF assms(3)])
  finally show ?thesis .
qed

lemma fl_ge_pow2:
  assumes "0 < q" "pow2 k \<le> q" "ulpExp q \<le> k"
  shows "pow2 k \<le> fl q"
proof -
  let ?u = "ulpExp q"
  have "of_int (2 ^ nat (k - ?u)) \<le> q / pow2 ?u"
    unfolding pos_le_divide_eq [OF pow2_pos] pow2_split [OF assms(3)] by (rule assms(2))
  then have "(of_int (2 ^ nat (k - ?u)) :: rat) \<le> of_int (roundEven (q / pow2 ?u))"
    by (subst of_int_le_iff) (rule roundEven_ge)
  then have "of_int (2 ^ nat (k - ?u)) * pow2 ?u \<le> fl q"
    unfolding fl_pos [OF assms(1)] by (rule mult_right_mono) (simp add: less_imp_le)
  moreover have "of_int (2 ^ nat (k - ?u)) * pow2 ?u = pow2 k"
    by (rule pow2_split [OF assms(3)])
  ultimately show ?thesis by simp
qed

lemma fl_mono_pos:
  assumes "0 < p" "p \<le> q"
  shows "fl p \<le> fl q"
proof (cases "ulpExp p = ulpExp q")
  case True
  have "p / pow2 (ulpExp q) \<le> q / pow2 (ulpExp q)" using assms(2) pow2_pos by (simp add: divide_right_mono less_imp_le)
  from roundEven_mono [OF this] show ?thesis
    using assms pow2_pos [of "ulpExp q"] by (simp add: fl_pos True)
next
  case False
  have b: "binExp p \<le> binExp q" using binExp_mono assms by blast
  with False have lt: "binExp p < binExp q" "- 1074 < binExp q - 52" "ulpExp q = binExp q - 52"
    by (auto simp: ulpExp_def split: if_splits)
  let ?k = "max (binExp p + 1) (- 1074)"
  have "fl p \<le> pow2 ?k"
  proof (rule fl_le_pow2 [OF assms(1)])
    show "p \<le> pow2 ?k" using binExp_bounds [OF assms(1)] pow2_mono [of "binExp p + 1" ?k] by linarith
  qed (simp add: ulpExp_def)
  also have "\<dots> \<le> pow2 (binExp q)" using lt by (intro pow2_mono) simp
  also have "\<dots> \<le> fl q" using assms lt(3) binExp_bounds [of q] by (intro fl_ge_pow2) simp_all
  finally show ?thesis .
qed

lemma fl_mono: "p \<le> q \<Longrightarrow> fl p \<le> fl q"
proof (cases "0 < p")
  case False
  assume pq: "p \<le> q"
  show ?thesis
  proof (cases "0 \<le> q")
    case True
    have "fl p = - fl (- p)" by (simp add: fl_minus)
    with False fl_nonneg [of "- p"] fl_nonneg [OF True] show ?thesis by simp
  next
    case q: False
    with pq fl_mono_pos [of "- q" "- p"] show ?thesis by (simp add: fl_minus)
  qed
qed (rule fl_mono_pos)

text \<open>A finite double, in the range where the rounding has its full precision or a coarser one.\<close>

definition is_f64 :: "rat \<Rightarrow> bool" where
  "is_f64 q \<longleftrightarrow> fl q = q"

lemma fl_idem_pos:
  assumes "0 < q"
  shows "fl (fl q) = fl q"
proof -
  let ?u = "ulpExp q" and ?m = "roundEven (q / pow2 (ulpExp q))"
  have eq: "fl q = of_int ?m * pow2 ?u" by (rule fl_pos [OF assms])
  let ?k = "max (binExp q + 1) (- 1074)"
  have le: "fl q \<le> pow2 ?k"
  proof (rule fl_le_pow2 [OF assms])
    show "q \<le> pow2 ?k" using binExp_bounds [OF assms] pow2_mono [of "binExp q + 1" ?k] by linarith
  qed (simp add: ulpExp_def)
  consider "fl q = 0" | "fl q = pow2 ?k" | "0 < fl q" "fl q < pow2 ?k"
    using le fl_nonneg [of q] assms by linarith
  then show ?thesis
  proof cases
    case 1
    then show ?thesis by simp
  next
    case 2
    then show ?thesis by (simp add: fl_pow2)
  next
    case 3
    have "pow2 (binExp (fl q)) < pow2 ?k" using binExp_bounds [OF 3(1)] 3(2) by linarith
    then have "binExp (fl q) < ?k" by (rule pow2_less)
    then have "ulpExp (fl q) \<le> ?u" by (auto simp: ulpExp_def)
    from fl_exact [OF 3(1) eq this] show ?thesis .
  qed
qed

lemma is_f64_fl [simp]: "is_f64 (fl q)"
proof -
  consider "q = 0" | "0 < q" | "0 < - q" by linarith
  then have "fl (fl q) = fl q"
  proof cases
    case 3
    have "fl q = - fl (- q)" by (simp add: fl_minus)
    with fl_idem_pos [OF 3] show ?thesis by (metis fl_minus)
  qed (simp_all add: fl_idem_pos)
  then show ?thesis by (simp add: is_f64_def)
qed

lemma fl_upper: "is_f64 b \<Longrightarrow> q \<le> b \<Longrightarrow> fl q \<le> b"
  using fl_mono [of q b] by (simp add: is_f64_def)

lemma fl_lower: "is_f64 a \<Longrightarrow> a \<le> q \<Longrightarrow> a \<le> fl q"
  using fl_mono [of a q] by (simp add: is_f64_def)

lemma is_f64_int:
  assumes "\<bar>n\<bar> \<le> 2 ^ 53"
  shows "is_f64 (of_int n)"
proof -
  have pos: "fl (of_int m) = of_int m" if m: "0 < m" "m \<le> 2 ^ 53" for m :: int
  proof (cases "m = 2 ^ 53")
    case True
    then have "(of_int m :: rat) = pow2 53" by (simp add: pow2_def)
    then show ?thesis using fl_pow2 [of 53] by simp
  next
    case False
    with m have lt: "(of_int m :: rat) < pow2 53"
      unfolding pow2_def using of_int_less_iff [of m "2 ^ 53", where ?'a = rat] by simp
    show ?thesis
    proof (rule fl_exact [of _ m 0])
      have "pow2 (binExp (of_int m)) < pow2 53" using binExp_bounds [of "of_int m"] lt m(1) by force
      then show "ulpExp (of_int m) \<le> 0" using pow2_less by (force simp: ulpExp_def)
    qed (use m in simp_all)
  qed
  consider "n = 0" | "0 < n" | "0 < - n" by linarith
  then show ?thesis
  proof cases
    case 3
    then have "fl (of_int (- n)) = of_int (- n)" using assms by (intro pos) auto
    then show ?thesis by (simp add: is_f64_def fl_minus)
  qed (use assms pos [of n] in \<open>auto simp: is_f64_def\<close>)
qed

lemma is_f64_zero [simp]: "is_f64 0"
  by (simp add: is_f64_def)

lemma is_f64_uminus [simp]: "is_f64 (- q) = is_f64 q"
  by (simp add: is_f64_def fl_minus)

lemma binExp_unique:
  assumes "pow2 e \<le> q" "q < pow2 (e + 1)"
  shows "binExp q = e"
proof -
  have q: "0 < q" using assms(1) pow2_pos [of e] by linarith
  note b = binExp_bounds [OF q]
  have "e < binExp q + 1" using b assms(1) by (intro pow2_less) linarith
  moreover have "binExp q < e + 1" using b assms(2) by (intro pow2_less) linarith
  ultimately show ?thesis by simp
qed

lemma fl_value:
  assumes "pow2 e \<le> q" "q < pow2 (e + 1)" "- 1022 \<le> e"
  shows "fl q = of_int (roundEven (q / pow2 (e - 52))) * pow2 (e - 52)"
proof -
  have "0 < q" using assms(1) pow2_pos [of e] by linarith
  with binExp_unique [OF assms(1,2)] assms(3) show ?thesis by (simp add: fl_pos ulpExp_def)
qed

text \<open>Multiples of \<open>pow2 e\<close> with at most 53 bits.\<close>

lemma is_f64_scaled:
  assumes "\<bar>m\<bar> \<le> 2 ^ 53" "- 1074 \<le> e"
  shows "is_f64 (of_int m * pow2 e)"
proof -
  have pos: "is_f64 (of_int m * pow2 e)" if m: "0 < m" "m \<le> 2 ^ 53" for m
  proof (cases "m = 2 ^ 53")
    case True
    then have "of_int m * pow2 e = pow2 (53 + e)" by (simp add: pow2_add) (simp add: pow2_def)
    with assms(2) show ?thesis by (simp add: is_f64_def fl_pow2)
  next
    case False
    have p: "0 < of_int m * pow2 e" using m(1) by simp
    have "(of_int m :: rat) < of_int (2 ^ 53)" using m(2) False by (subst of_int_less_iff) simp
    then have "of_int m * pow2 e < of_int (2 ^ 53) * pow2 e" by (rule mult_strict_right_mono) simp
    also have "\<dots> = pow2 (53 + e)" by (simp add: pow2_add) (simp add: pow2_def)
    finally have "binExp (of_int m * pow2 e) < 53 + e" using binExp_bounds [OF p] by (intro pow2_less) linarith
    with assms(2) show ?thesis unfolding is_f64_def by (intro fl_exact [OF p refl]) (simp add: ulpExp_def)
  qed
  consider "m = 0" | "0 < m" | "0 < - m" by linarith
  then show ?thesis
  proof cases
    case 3
    then have "is_f64 (of_int (- m) * pow2 e)" using assms(1) by (intro pos) auto
    then show ?thesis by simp
  qed (use assms(1) pos [of m] in auto)
qed

end
