(* ===== verification/Fidelity.thy ===== *)
theory Fidelity
  imports Metrics Float64_Order
begin

text \<open>
  The replay-fidelity report, \<open>pkg/fidelity/fidelity.go\<close>. The quantile queries are the histogram
  library's: a record of functions beside the library's other operations. The reason of the
  gate is a constructor holding the arguments of its message.
\<close>

section \<open>Queries of the histogram library\<close>

record 'h hdr_query =
  hq_ValueAtQuantile :: "'h \<Rightarrow> f64 \<Rightarrow> int"
  hq_Max :: "'h \<Rightarrow> int"
  hq_Mean :: "'h \<Rightarrow> f64"

text \<open>The constant \<open>99.9\<close> of the code, as a double.\<close>

definition q999 :: f64 where "q999 = fl (999 / 10)"

section \<open>The report\<close>

record percentile_summary =
  ps_P50NS :: int
  ps_P99NS :: int
  ps_P999NS :: int
  ps_MaxNS :: int
  ps_MeanNS :: f64

record backlog_summary =
  bs_TotalEvents :: int
  bs_TotalBlockedNS :: int
  bs_PeakInflightDepth :: int
  bs_FractionOpsBacklogged :: f64

record coverage_summary =
  cs_OpsInTrace :: int
  cs_OpsIssued :: int
  cs_OpsSkipped :: int

record concurrency_check =
  cc_MaxPerStreamInflight :: int
  cc_Violations :: "int list"

datatype low_fidelity =
    BehindSchedule int int int
  | BackendBacklog f64
  | CoverageGap int int

record fidelity_report =
  fr_ScheduleDrift :: percentile_summary
  fr_CompletionLag :: percentile_summary
  fr_Backlog :: backlog_summary
  fr_Coverage :: coverage_summary
  fr_ConcurrencyCheck :: concurrency_check
  fr_LowFidelity :: "low_fidelity option"

text \<open>\<open>fr_LowFidelity\<close> is the three fields of the code: \<open>None\<close> is \<open>false, "", ""\<close>.\<close>

fun fidelityCategory :: "low_fidelity option \<Rightarrow> string" where
  "fidelityCategory None = []"
| "fidelityCategory (Some (BehindSchedule p m t)) = ''behind_schedule''"
| "fidelityCategory (Some (BackendBacklog f)) = ''backend_backlog''"
| "fidelityCategory (Some (CoverageGap s n)) = ''coverage_gap''"

definition LowFidelityDriftFraction :: f64 where "LowFidelityDriftFraction = fl (1 / 10)"
definition LowFidelityDriftFallbackNS :: int where "LowFidelityDriftFallbackNS = 10000000"
definition LowFidelityDriftFloorNS :: int where "LowFidelityDriftFloorNS = 2000000"
definition LowFidelityBacklogFraction :: f64 where "LowFidelityBacklogFraction = fl (5 / 100)"

definition zeroSummary :: percentile_summary where
  "zeroSummary = \<lparr>ps_P50NS = 0, ps_P99NS = 0, ps_P999NS = 0, ps_MaxNS = 0, ps_MeanNS = 0\<rparr>"

definition summaryOf :: "'h hdr_query \<Rightarrow> 'h \<Rightarrow> percentile_summary" where
  "summaryOf Q h = \<lparr>ps_P50NS = hq_ValueAtQuantile Q h 50, ps_P99NS = hq_ValueAtQuantile Q h 99,
     ps_P999NS = hq_ValueAtQuantile Q h q999, ps_MaxNS = hq_Max Q h, ps_MeanNS = hq_Mean Q h\<rparr>"

definition countAt :: "(int \<times> int) list \<Rightarrow> int \<Rightarrow> int" where
  "countAt m k = (case map_of m k of None \<Rightarrow> 0 | Some n \<Rightarrow> n)"

fun checkStreams :: "(int \<times> int) list \<Rightarrow> int list \<Rightarrow> concurrency_check \<Rightarrow> concurrency_check" where
  "checkStreams peaks [] cc = cc"
| "checkStreams peaks (sid # sids) cc =
     (let peak = countAt peaks sid;
          cc1 = (if peak > cc_MaxPerStreamInflight cc then cc\<lparr>cc_MaxPerStreamInflight := peak\<rparr> else cc);
          cc2 = (if peak > 1 then cc1\<lparr>cc_Violations := cc_Violations cc1 @ [sid]\<rparr> else cc1)
      in checkStreams peaks sids cc2)"

definition buildConcurrencyCheck :: "(int \<times> int) list \<Rightarrow> concurrency_check" where
  "buildConcurrencyCheck peaks = checkStreams peaks (sort (map fst peaks)) \<lparr>cc_MaxPerStreamInflight = 0, cc_Violations = []\<rparr>"

definition driftThreshold :: "int \<Rightarrow> int" where
  "driftThreshold meanInterArrivalNS =
     (if meanInterArrivalNS > 0
      then (let t = int64_of (f64_mult (f64_of_int meanInterArrivalNS) LowFidelityDriftFraction)
            in if t < LowFidelityDriftFloorNS then LowFidelityDriftFloorNS else t)
      else LowFidelityDriftFallbackNS)"

definition assessFidelity :: "fidelity_report \<Rightarrow> int \<Rightarrow> string \<Rightarrow> low_fidelity option" where
  "assessFidelity r meanInterArrivalNS mode' =
     (if (mode' = ''timeline'' \<or> mode' = ''scaled'') \<and> ps_P99NS (fr_ScheduleDrift r) > driftThreshold meanInterArrivalNS
      then Some (BehindSchedule (ps_P99NS (fr_ScheduleDrift r)) meanInterArrivalNS (driftThreshold meanInterArrivalNS))
      else if bs_FractionOpsBacklogged (fr_Backlog r) > LowFidelityBacklogFraction
      then Some (BackendBacklog (bs_FractionOpsBacklogged (fr_Backlog r)))
      else if cs_OpsIssued (fr_Coverage r) < cs_OpsInTrace (fr_Coverage r)
      then Some (CoverageGap (cs_OpsSkipped (fr_Coverage r)) (cs_OpsInTrace (fr_Coverage r)))
      else None)"

definition fidelityBuild :: "'h hdr_query \<Rightarrow> 'h recorder \<Rightarrow> header \<Rightarrow> string \<Rightarrow> int \<Rightarrow> (int \<times> int) list \<Rightarrow> fidelity_report" where
  "fidelityBuild Q rec hdr mode' meanInterArrivalNS peakByStream =
     (let opsIssued = totalOps rec;
          skipped = i64 (sum_num_ops (hdr_summary hdr) - opsIssued);
          r = \<lparr>fr_ScheduleDrift = (case rc_DriftHist rec of None \<Rightarrow> zeroSummary | Some h \<Rightarrow> summaryOf Q h),
               fr_CompletionLag = (case rc_CompletionLagHist rec of None \<Rightarrow> zeroSummary | Some h \<Rightarrow> summaryOf Q h),
               fr_Backlog = \<lparr>bs_TotalEvents = rc_BacklogEvents rec, bs_TotalBlockedNS = rc_BacklogBlockedNS rec,
                 bs_PeakInflightDepth = rc_MaxInflightDepth rec,
                 bs_FractionOpsBacklogged = (if opsIssued > 0 then f64_div (f64_of_int (rc_BacklogEvents rec)) (f64_of_int opsIssued) else 0)\<rparr>,
               fr_Coverage = \<lparr>cs_OpsInTrace = sum_num_ops (hdr_summary hdr), cs_OpsIssued = opsIssued,
                 cs_OpsSkipped = (if skipped < 0 then 0 else skipped)\<rparr>,
               fr_ConcurrencyCheck = buildConcurrencyCheck peakByStream,
               fr_LowFidelity = None\<rparr>
      in r\<lparr>fr_LowFidelity := assessFidelity r meanInterArrivalNS mode'\<rparr>)"

section \<open>The concurrency check\<close>

lemma checkStreams_spec:
  assumes "0 \<le> cc_MaxPerStreamInflight cc"
  shows "cc_Violations (checkStreams peaks sids cc) = cc_Violations cc @ filter (\<lambda>s. countAt peaks s > 1) sids
    \<and> cc_MaxPerStreamInflight (checkStreams peaks sids cc) = fold max (map (countAt peaks) sids) (cc_MaxPerStreamInflight cc)"
  using assms
proof (induction sids arbitrary: cc)
  case (Cons sid sids)
  let ?cc = "(if countAt peaks sid > cc_MaxPerStreamInflight cc then cc\<lparr>cc_MaxPerStreamInflight := countAt peaks sid\<rparr> else cc)"
  let ?cc2 = "if countAt peaks sid > 1 then ?cc\<lparr>cc_Violations := cc_Violations ?cc @ [sid]\<rparr> else ?cc"
  have st: "checkStreams peaks (sid # sids) cc = checkStreams peaks sids ?cc2" by (simp add: Let_def countAt_def)
  have "0 \<le> cc_MaxPerStreamInflight ?cc2" using Cons.prems by simp
  from Cons.IH [OF this] show ?case unfolding st by (auto simp: max_def)
qed simp

section \<open>The thresholds\<close>

lemma roundEven_tenth: "roundEven (36028797018963968 / 5) = 7205759403792794"
proof -
  have "\<lfloor>36028797018963968 / 5 :: rat\<rfloor> = 7205759403792793" by (simp add: floor_eq_iff)
  then show ?thesis by (simp add: roundEven_def)
qed

lemma tenth: "LowFidelityDriftFraction = 7205759403792794 / 2 ^ 56"
proof -
  have "fl (1 / 10) = of_int (roundEven ((1 / 10) / pow2 (- 4 - 52))) * pow2 (- 4 - 52)"
    by (rule fl_value) (simp_all add: pow2_def)
  then show ?thesis by (simp add: LowFidelityDriftFraction_def pow2_def roundEven_tenth)
qed

lemma twentieth: "LowFidelityBacklogFraction = 7205759403792794 / 2 ^ 57"
proof -
  have "fl (5 / 100) = of_int (roundEven ((5 / 100) / pow2 (- 5 - 52))) * pow2 (- 5 - 52)"
    by (rule fl_value) (simp_all add: pow2_def)
  then show ?thesis by (simp add: LowFidelityBacklogFraction_def pow2_def roundEven_tenth)
qed

lemma f64_of_int_small: "0 \<le> n \<Longrightarrow> n \<le> 2 ^ 53 \<Longrightarrow> f64_of_int n = of_int n"
  using is_f64_int [of n] by (simp add: f64_of_int_def is_f64_def)

text \<open>The floating-point product truncates to the integer quotient.\<close>

lemma driftThreshold_exact:
  assumes "m \<le> 2 ^ 48"
  shows "driftThreshold m = (if m > 0 then max 2000000 (m div 10) else 10000000)"
proof (cases "m > 0")
  case True
  let ?k = "m div 10"
  let ?x = "of_int m * (7205759403792794 / 2 ^ 56) :: rat"
  have m: "m = 10 * ?k + m mod 10" "m mod 10 \<le> 9" "0 \<le> m mod 10" by simp_all
  have k: "0 \<le> ?k" "?k \<le> 2 ^ 45" using True assms by (auto intro: zdiv_mono1)
  have mr: "(of_int m :: rat) \<le> 10 * of_int ?k + 9" "10 * (of_int ?k :: rat) \<le> of_int m"
    using m by linarith+
  have mb: "(0 :: rat) < of_int m" "(of_int m :: rat) \<le> 2 ^ 48"
    using True assms of_int_le_iff [of m "2 ^ 48", where ?'a = rat] by simp_all
  have eq: "f64_mult (f64_of_int m) LowFidelityDriftFraction = fl ?x"
    using True assms by (simp add: f64_mult_def tenth f64_of_int_small)
  have lo: "of_int ?k \<le> fl ?x"
  proof (rule fl_lower)
    show "is_f64 (of_int ?k)" using k by (intro is_f64_int) simp
    have "(of_int ?k :: rat) \<le> of_int m / 10" using mr(2) by simp
    also have "\<dots> \<le> ?x" using mb(1) by simp
    finally show "of_int ?k \<le> ?x" .
  qed
  have hi: "fl ?x \<le> of_int (16 * ?k + 15) * pow2 (- 4)"
  proof (rule fl_upper)
    show "is_f64 (of_int (16 * ?k + 15) * pow2 (- 4))" using k by (intro is_f64_scaled) simp_all
    have "?x \<le> of_int m / 10 + 1 / 2 ^ 7" using mb(2) by (simp add: field_simps)
    also have "\<dots> \<le> of_int ?k + 9 / 10 + 1 / 2 ^ 7" using mr(1) by simp
    also have "\<dots> \<le> of_int (16 * ?k + 15) * pow2 (- 4)" by (simp add: pow2_def field_simps)
    finally show "?x \<le> of_int (16 * ?k + 15) * pow2 (- 4)" .
  qed
  have "fl ?x < of_int ?k + 1" using hi by (simp add: pow2_def field_simps)
  then have "\<lfloor>fl ?x\<rfloor> = ?k" using lo by (simp add: floor_eq_iff)
  moreover have "0 \<le> fl ?x" using lo k(1) of_int_0_le_iff [of ?k, where ?'a = rat] by linarith
  ultimately have "int64_of (fl ?x) = ?k" using k by (simp add: int64_of_def in64_def)
  with True show ?thesis by (simp add: driftThreshold_def eq LowFidelityDriftFloorNS_def max_def)
qed (simp add: driftThreshold_def LowFidelityDriftFallbackNS_def)

text \<open>The floating-point quotient exceeds the double 0.05 exactly when the events exceed a twentieth.\<close>

lemma backlog_exact:
  assumes "0 \<le> e" "e \<le> 2 ^ 50" "0 < n" "n \<le> 2 ^ 50"
  shows "f64_div (f64_of_int e) (f64_of_int n) > LowFidelityBacklogFraction \<longleftrightarrow> 20 * e > n"
proof -
  let ?x = "of_int e / of_int n :: rat"
  let ?c = "7205759403792794 / 2 ^ 57 :: rat"
  have n: "(0 :: rat) < of_int n" "(of_int n :: rat) \<le> 2 ^ 50"
    using assms(3,4) of_int_le_iff [of n "2 ^ 50", where ?'a = rat] by simp_all
  have eq: "f64_div (f64_of_int e) (f64_of_int n) = fl ?x"
    using assms by (simp add: f64_div_def f64_of_int_small)
  have "fl ?x \<le> ?c" if "20 * e \<le> n"
  proof -
    have c: "is_f64 ?c" by (metis is_f64_fl LowFidelityBacklogFraction_def twentieth)
    have "20 * (of_int e :: rat) \<le> of_int n" using that of_int_le_iff [of "20 * e" n, where ?'a = rat] by simp
    then have "?x \<le> 1 / 20" using n(1) by (simp add: field_simps)
    then show ?thesis using c by (intro fl_upper) simp_all
  qed
  moreover have "?c < fl ?x" if "n < 20 * e"
  proof -
    have "(of_int n :: rat) + 1 \<le> 20 * of_int e" using that of_int_le_iff [of "n + 1" "20 * e", where ?'a = rat] by simp
    then have "(of_int n + 1) / (20 * of_int n) \<le> 20 * of_int e / (20 * of_int n :: rat)" using n(1) by (intro divide_right_mono) simp_all
    then have "1 / 20 + 1 / (20 * of_int n) \<le> ?x" using n(1) by (simp add: add_divide_distrib)
    moreover have "1 / (20 * 2 ^ 50) \<le> 1 / (20 * of_int n :: rat)" using n by (intro divide_left_mono) simp_all
    ultimately have "of_int 7205759403792795 * pow2 (- 57) \<le> ?x" by (simp add: pow2_def)
    then have "of_int 7205759403792795 * pow2 (- 57) \<le> fl ?x" by (intro fl_lower is_f64_scaled) simp_all
    then show ?thesis by (simp add: pow2_def)
  qed
  ultimately show ?thesis unfolding eq twentieth by (auto simp: not_less [symmetric] not_le)
qed

section \<open>Properties\<close>

text \<open>
  C38: the fidelity gate decides by whole-number arithmetic, although the code computes it in
  floating point. While counts and times stay below 2 to the 48th, a run is behind schedule
  exactly when it is paced by the trace's timeline and its 99th percentile of drift exceeds a
  tenth of the mean inter-arrival time (at least 2 ms, 10 ms when unknown); otherwise backlogged
  when more than one op in twenty was blocked; otherwise incomplete when fewer ops were issued
  than the trace has; and the violations are the streams that had two ops in flight.
\<close>

theorem fidelity_gate:
  assumes "m \<le> 2 ^ 48" "0 \<le> rc_BacklogEvents rec" "rc_BacklogEvents rec \<le> 2 ^ 48" "0 \<le> totalOps rec" "totalOps rec \<le> 2 ^ 48"
  shows "fidelityCategory (fr_LowFidelity (fidelityBuild Q rec hdr mode' m peaks)) =
      (if mode' \<in> {''timeline'', ''scaled''} \<and> rc_DriftHist rec \<noteq> None
          \<and> hq_ValueAtQuantile Q (the (rc_DriftHist rec)) 99 > (if m > 0 then max 2000000 (m div 10) else 10000000)
       then ''behind_schedule''
       else if totalOps rec > 0 \<and> 20 * rc_BacklogEvents rec > totalOps rec then ''backend_backlog''
       else if totalOps rec < sum_num_ops (hdr_summary hdr) then ''coverage_gap'' else [])
    \<and> cc_Violations (fr_ConcurrencyCheck (fidelityBuild Q rec hdr mode' m peaks))
      = filter (\<lambda>s. countAt peaks s > 1) (sort (map fst peaks))"
proof -
  let ?r = "fidelityBuild Q rec hdr mode' m peaks"
  have v: "cc_Violations (fr_ConcurrencyCheck ?r) = filter (\<lambda>s. countAt peaks s > 1) (sort (map fst peaks))"
    using checkStreams_spec [of "\<lparr>cc_MaxPerStreamInflight = 0, cc_Violations = []\<rparr>" peaks "sort (map fst peaks)"]
    by (simp add: fidelityBuild_def Let_def buildConcurrencyCheck_def)
  have p: "ps_P99NS (fr_ScheduleDrift ?r) = (case rc_DriftHist rec of None \<Rightarrow> 0 | Some h \<Rightarrow> hq_ValueAtQuantile Q h 99)"
    by (simp add: fidelityBuild_def Let_def zeroSummary_def summaryOf_def split: option.split)
  have b: "bs_FractionOpsBacklogged (fr_Backlog ?r) > LowFidelityBacklogFraction
      \<longleftrightarrow> totalOps rec > 0 \<and> 20 * rc_BacklogEvents rec > totalOps rec"
    using assms backlog_exact [of "rc_BacklogEvents rec" "totalOps rec"]
    by (auto simp: fidelityBuild_def Let_def twentieth)
  have c: "cs_OpsIssued (fr_Coverage ?r) = totalOps rec" "cs_OpsInTrace (fr_Coverage ?r) = sum_num_ops (hdr_summary hdr)"
    by (simp_all add: fidelityBuild_def Let_def)
  have t: "0 < driftThreshold m" by (simp add: driftThreshold_exact [OF assms(1)] max_def)
  have a: "fr_LowFidelity ?r = assessFidelity ?r m mode'"
    by (simp add: fidelityBuild_def Let_def assessFidelity_def)
  have "fidelityCategory (assessFidelity ?r m mode') =
      (if mode' \<in> {''timeline'', ''scaled''} \<and> rc_DriftHist rec \<noteq> None
          \<and> hq_ValueAtQuantile Q (the (rc_DriftHist rec)) 99 > driftThreshold m then ''behind_schedule''
       else if totalOps rec > 0 \<and> 20 * rc_BacklogEvents rec > totalOps rec then ''backend_backlog''
       else if totalOps rec < sum_num_ops (hdr_summary hdr) then ''coverage_gap'' else [])"
    unfolding assessFidelity_def p b c using t by (cases "rc_DriftHist rec") simp_all
  with v show ?thesis unfolding a driftThreshold_exact [OF assms(1)] by blast
qed

definition sample_query :: "int hdr_query" where
  "sample_query = \<lparr>hq_ValueAtQuantile = (\<lambda>h q. h), hq_Max = (\<lambda>h. h), hq_Mean = of_int\<rparr>"

text \<open>Three ops, one of them blocked: more than one in twenty.\<close>

definition sample_recorder :: "int recorder" where
  "sample_recorder = newRecorder\<lparr>rc_counts := [(OpRead, 3)], rc_BacklogEvents := 1\<rparr>"

theorem fidelity_gate_witness:
  "fidelityCategory (fr_LowFidelity (fidelityBuild sample_query sample_recorder zero_header ''timeline'' 0 [(3, 2), (1, 1)])) = ''backend_backlog''
    \<and> cc_Violations (fr_ConcurrencyCheck (fidelityBuild sample_query sample_recorder zero_header ''timeline'' 0 [(3, 2), (1, 1)])) = [3]"
  using fidelity_gate [of 0 sample_recorder sample_query zero_header "''timeline''" "[(3, 2), (1, 1)]"]
  by (simp add: sample_recorder_def newRecorder_def totalOps_def countAt_def)

end
