(* ===== verification/Results.thy ===== *)
theory Results
  imports Trace_Jsonl Fidelity "HOL-Library.Char_ord" "HOL-Library.List_Lexorder"
begin

text \<open>
  The results of a run, \<open>pkg/results/results.go\<close> and \<open>csv.go\<close>. The time, the build and the host of
  the process are one argument, \<open>stamp\<close>. The results file is written by a sequence of system
  calls on a model of the file system, each of which may fail; what a crash leaves behind is the
  state after any of them.
\<close>

section \<open>Data\<close>

record plan_info =
  pi_TracePath :: string
  pi_TraceDigest :: string
  pi_Engine :: string
  pi_Mode :: string
  pi_MaxInflight :: int
  pi_SpeedupFactor :: f64
  pi_TraceKind :: string
  pi_Profile :: string
  pi_CaptureMethod :: string
  pi_CaptureLimitations :: string
  pi_NumStreams :: int
  pi_NumOps :: int
  pi_TotalBytes :: int
  pi_TargetRoot :: string
  pi_Bucket :: string
  pi_Endpoint :: string
  pi_TracePartialReads :: int
  pi_PrepareMode :: string
  pi_PrepareScope :: string
  pi_FillMode :: string
  pi_FillSeed :: int
  pi_PrepareTouchedSameData :: bool
  pi_PrepareVerified :: int
  pi_PrepareCreated :: int
  pi_PrepareCopied :: int
  pi_PrepareSkippedSizeUnknown :: int
  pi_PrepareDerivedSizeFromOps :: int
  pi_TraceTransformations :: "transformation list"
  pi_ReplayEquivalence :: string

record per_op_stats =
  po_OpType :: string
  po_Count :: int
  po_P50NS :: int
  po_P90NS :: int
  po_P99NS :: int
  po_P999NS :: int
  po_MaxNS :: int
  po_MeanNS :: f64

record drift_stats =
  ds_P99NS :: int
  ds_P999NS :: int
  ds_MaxNS :: int
  ds_MeanNS :: f64

record progress_point =
  pp_ElapsedNS :: int
  pp_Ops :: int
  pp_Bytes :: int
  pp_OpsDelta :: int
  pp_BytesDelta :: int

record run_env =
  rv_CacheMode :: string
  rv_CacheActions :: "string list"
  rv_CacheLimitations :: "string list"
  rv_EngineLimitations :: "string list"

record tool =
  tl_Version :: string
  tl_Revision :: string

record host =
  ho_Hostname :: string
  ho_OS :: string
  ho_Arch :: string
  ho_CPUs :: int

record cpu =
  cp_UserNS :: int
  cp_SysNS :: int
  cp_WallNS :: int

record host_result =
  hr_Hostname :: string
  hr_OpsCompleted :: int
  hr_BytesMoved :: int
  hr_CPU :: cpu
  hr_FirstDoneNS :: int
  hr_LastDoneNS :: int

record straggler_window =
  sw_FirstDoneNS :: int
  sw_LastDoneNS :: int
  sw_SkewNS :: int
  sw_FirstDoneOpsPerSec :: f64
  sw_LastDoneOpsPerSec :: f64
  sw_FirstDoneGiBPerSec :: f64
  sw_LastDoneGiBPerSec :: f64

definition SchemaVersion :: int where "SchemaVersion = 2"

record results =
  re_SchemaVersion :: int
  re_GeneratedAt :: string
  re_Tool :: tool
  re_Host :: host
  re_Plan :: plan_info
  re_RunEnv :: run_env
  re_DurationNS :: int
  re_OpsCompleted :: int
  re_BytesMoved :: int
  re_Errors :: int
  re_ShortReads :: int
  re_HistogramOverflows :: int
  re_PerOpStats :: "per_op_stats list"
  re_ServiceTimeStats :: "per_op_stats list"
  re_BacklogEvents :: int
  re_BacklogBlockedNS :: int
  re_MaxInflightDepth :: int
  re_ScheduleDrift :: drift_stats
  re_CPU :: cpu
  re_Fidelity :: fidelity_report
  re_HistogramSnapshot :: recorder_snapshot
  re_TimeSeries :: "progress_point list"
  re_Hosts :: "host_result list"
  re_Straggler :: "straggler_window option"
  re_GoDeliverySkewNS :: int

record stamp =
  st_GeneratedAt :: string
  st_Tool :: tool
  st_Host :: host

section \<open>Building results\<close>

definition opKinds :: "'h recorder \<Rightarrow> op_kind list" where
  "opKinds r = sort_key op_kind_string (map fst (rc_hists r))"

definition zeroCPU :: cpu where "zeroCPU = \<lparr>cp_UserNS = 0, cp_SysNS = 0, cp_WallNS = 0\<rparr>"

definition zeroPlan :: plan_info where
  "zeroPlan = \<lparr>pi_TracePath = [], pi_TraceDigest = [], pi_Engine = [], pi_Mode = [], pi_MaxInflight = 0, pi_SpeedupFactor = 0,
     pi_TraceKind = [], pi_Profile = [], pi_CaptureMethod = [], pi_CaptureLimitations = [], pi_NumStreams = 0, pi_NumOps = 0,
     pi_TotalBytes = 0, pi_TargetRoot = [], pi_Bucket = [], pi_Endpoint = [], pi_TracePartialReads = 0, pi_PrepareMode = [],
     pi_PrepareScope = [], pi_FillMode = [], pi_FillSeed = 0, pi_PrepareTouchedSameData = False, pi_PrepareVerified = 0,
     pi_PrepareCreated = 0, pi_PrepareCopied = 0, pi_PrepareSkippedSizeUnknown = 0, pi_PrepareDerivedSizeFromOps = 0,
     pi_TraceTransformations = [], pi_ReplayEquivalence = []\<rparr>"

definition zeroRunEnv :: run_env where
  "zeroRunEnv = \<lparr>rv_CacheMode = [], rv_CacheActions = [], rv_CacheLimitations = [], rv_EngineLimitations = []\<rparr>"

definition zeroFidelity :: fidelity_report where
  "zeroFidelity = \<lparr>fr_ScheduleDrift = zeroSummary, fr_CompletionLag = zeroSummary,
     fr_Backlog = \<lparr>bs_TotalEvents = 0, bs_TotalBlockedNS = 0, bs_PeakInflightDepth = 0, bs_FractionOpsBacklogged = 0\<rparr>,
     fr_Coverage = \<lparr>cs_OpsInTrace = 0, cs_OpsIssued = 0, cs_OpsSkipped = 0\<rparr>,
     fr_ConcurrencyCheck = \<lparr>cc_MaxPerStreamInflight = 0, cc_Violations = []\<rparr>, fr_LowFidelity = None\<rparr>"

definition statsOf :: "'h hdr_query \<Rightarrow> string \<Rightarrow> int \<Rightarrow> 'h \<Rightarrow> per_op_stats" where
  "statsOf Q k n h = \<lparr>po_OpType = k, po_Count = n, po_P50NS = hq_ValueAtQuantile Q h 50, po_P90NS = hq_ValueAtQuantile Q h 90,
     po_P99NS = hq_ValueAtQuantile Q h 99, po_P999NS = hq_ValueAtQuantile Q h q999, po_MaxNS = hq_Max Q h, po_MeanNS = hq_Mean Q h\<rparr>"

fun opStats :: "'h hdr_query \<Rightarrow> 'h recorder \<Rightarrow> op_kind list \<Rightarrow> per_op_stats list \<times> per_op_stats list" where
  "opStats Q r [] = ([], [])"
| "opStats Q r (k # ks) =
     (let (stats, service) = opStats Q r ks in
      case map_of (rc_hists r) k of
        None \<Rightarrow> (stats, service)
      | Some h \<Rightarrow> (statsOf Q (op_kind_string k) (countFor (rc_counts r) k) h # stats,
          (case map_of (rc_serviceHists r) k of None \<Rightarrow> service
           | Some sh \<Rightarrow> statsOf Q (op_kind_string k) (countFor (rc_counts r) k) sh # service)))"

definition resultsBuild :: "'h hdr_lib \<Rightarrow> 'h hdr_query \<Rightarrow> stamp \<Rightarrow> plan_info \<Rightarrow> run_env \<Rightarrow> 'h recorder \<Rightarrow> int \<Rightarrow> results" where
  "resultsBuild L Q st plan' runEnv rec durationNS =
     (let (stats, service) = opStats Q rec (opKinds rec) in
      \<lparr>re_SchemaVersion = SchemaVersion, re_GeneratedAt = st_GeneratedAt st, re_Tool = st_Tool st, re_Host = st_Host st,
       re_Plan = plan', re_RunEnv = runEnv, re_DurationNS = durationNS, re_OpsCompleted = totalOps rec,
       re_BytesMoved = rc_Bytes rec, re_Errors = rc_Errors rec, re_ShortReads = rc_ShortReads rec,
       re_HistogramOverflows = rc_HistogramOverflows rec, re_PerOpStats = stats, re_ServiceTimeStats = service,
       re_BacklogEvents = rc_BacklogEvents rec, re_BacklogBlockedNS = rc_BacklogBlockedNS rec,
       re_MaxInflightDepth = rc_MaxInflightDepth rec,
       re_ScheduleDrift = (case rc_DriftHist rec of
           None \<Rightarrow> \<lparr>ds_P99NS = 0, ds_P999NS = 0, ds_MaxNS = 0, ds_MeanNS = 0\<rparr>
         | Some dh \<Rightarrow> \<lparr>ds_P99NS = hq_ValueAtQuantile Q dh 99, ds_P999NS = hq_ValueAtQuantile Q dh q999,
             ds_MaxNS = hq_Max Q dh, ds_MeanNS = hq_Mean Q dh\<rparr>),
       re_CPU = zeroCPU, re_Fidelity = zeroFidelity, re_HistogramSnapshot = exportRecorder L rec,
       re_TimeSeries = [], re_Hosts = [], re_Straggler = None, re_GoDeliverySkewNS = 0\<rparr>)"

section \<open>Reading results\<close>

definition GiB :: f64 where "GiB = 1073741824"

definition throughput :: "results \<Rightarrow> f64 \<times> f64" where
  "throughput r =
     (if re_DurationNS r \<le> 0 then (0, 0)
      else let secs = f64_div (f64_of_int (re_DurationNS r)) 1000000000 in
        (f64_div (f64_of_int (re_OpsCompleted r)) secs, f64_div (f64_div (f64_of_int (re_BytesMoved r)) GiB) secs))"

definition perOpMap :: "results \<Rightarrow> (string \<times> per_op_stats) list" where
  "perOpMap r = foldl (\<lambda>m s. AList.update (po_OpType s) s m) [] (re_PerOpStats r)"

definition dataPriority :: "(string \<times> int) list" where
  "dataPriority = [(''WRITE'', 0), (''READ'', 1), (''PUT'', 2), (''GET'', 3)]"

fun dominantLoop :: "per_op_stats list \<Rightarrow> per_op_stats option \<Rightarrow> int \<Rightarrow> per_op_stats option" where
  "dominantLoop [] best bestRank = best"
| "dominantLoop (s # ss) best bestRank =
     (case map_of dataPriority (po_OpType s) of
        None \<Rightarrow> dominantLoop ss best bestRank
      | Some rank \<Rightarrow>
          (case best of
             None \<Rightarrow> dominantLoop ss (Some s) rank
           | Some b \<Rightarrow>
               if po_Count s > po_Count b \<or> (po_Count s = po_Count b \<and> rank < bestRank)
               then dominantLoop ss (Some s) rank else dominantLoop ss best bestRank))"

definition dominantDataOp :: "results \<Rightarrow> per_op_stats option" where
  "dominantDataOp r = dominantLoop (re_PerOpStats r) None (int (length dataPriority))"

definition allOpKinds :: "op list \<Rightarrow> op_kind set" where
  "allOpKinds ops = foldl (\<lambda>m x. insert (op_op x) m) {} ops"

section \<open>Writing the results file\<close>

record file_info =
  fi_data :: string
  fi_mode :: int
  fi_synced :: bool

type_synonym file_system = "(string \<times> file_info) list"

datatype io_call = IoCreateTemp | IoWrite | IoSync | IoChmod | IoClose | IoRename | IoRemove

definition resultsFileMode :: int where "resultsFileMode = 420"

text \<open>What a call does to the file of the given name; a failed write may leave any part of the data.\<close>

definition onFile :: "string \<Rightarrow> (file_info \<Rightarrow> file_info) \<Rightarrow> file_system \<Rightarrow> file_system" where
  "onFile name f fs = (case map_of fs name of None \<Rightarrow> fs | Some x \<Rightarrow> AList.update name (f x) fs)"

definition renameFile :: "string \<Rightarrow> string \<Rightarrow> file_system \<Rightarrow> file_system" where
  "renameFile old new fs = (case map_of fs old of None \<Rightarrow> fs | Some x \<Rightarrow> AList.update new x (AList.delete old fs))"

text \<open>
  The states the file system goes through, the last one first, and whether the call succeeded.
  The deferred cleanup closes and removes the temporary file unless the rename committed it.
\<close>

definition writeJSONFile :: "(io_call \<Rightarrow> bool) \<Rightarrow> string \<Rightarrow> string \<Rightarrow> string \<Rightarrow> string \<Rightarrow> file_system \<Rightarrow> file_system list \<times> io_call option" where
  "writeJSONFile fails path tmpName text partial fs =
     (let fs1 = AList.update tmpName \<lparr>fi_data = [], fi_mode = 384, fi_synced = False\<rparr> fs;
          fs2 = onFile tmpName (\<lambda>x. x\<lparr>fi_data := (if fails IoWrite then partial else text)\<rparr>) fs1;
          fs3 = onFile tmpName (\<lambda>x. x\<lparr>fi_synced := True\<rparr>) fs2;
          fs4 = onFile tmpName (\<lambda>x. x\<lparr>fi_mode := resultsFileMode\<rparr>) fs3;
          fs5 = renameFile tmpName path fs4;
          cleanup = (\<lambda>f. if fails IoRemove then f else AList.delete tmpName f)
      in if fails IoCreateTemp then ([fs], Some IoCreateTemp)
         else if fails IoWrite then ([cleanup fs2, fs2, fs1, fs], Some IoWrite)
         else if fails IoSync then ([cleanup fs2, fs2, fs1, fs], Some IoSync)
         else if fails IoChmod then ([cleanup fs3, fs3, fs2, fs1, fs], Some IoChmod)
         else if fails IoClose then ([cleanup fs4, fs4, fs3, fs2, fs1, fs], Some IoClose)
         else if fails IoRename then ([cleanup fs4, fs4, fs3, fs2, fs1, fs], Some IoRename)
         else ([fs5, fs4, fs3, fs2, fs1, fs], None))"

section \<open>A row of the CSV file\<close>

datatype csv_cell = CText string | CInt int | CFixed3 f64 | CBool bool

definition csvColumns :: "string list" where
  "csvColumns =
     [''timestamp'', ''trace_path'', ''trace_kind'', ''trace_profile'', ''engine'', ''mode'',
      ''num_streams'', ''num_ops'', ''max_inflight'', ''cache_mode'', ''prepare_mode'', ''replay_equivalence'',
      ''duration_ns'', ''ops_completed'', ''bytes_moved'', ''errors'',
      ''read_p50_ns'', ''read_p99_ns'', ''read_p999_ns'',
      ''data_op'', ''data_op_p50_ns'', ''data_op_p99_ns'', ''data_op_p999_ns'',
      ''ops_per_sec'', ''gib_per_sec'', ''cpu_user_ns'', ''cpu_sys_ns'',
      ''backlog_events'', ''schedule_drift_p99_ns'', ''low_fidelity'']"

definition zeroStats :: per_op_stats where
  "zeroStats = \<lparr>po_OpType = [], po_Count = 0, po_P50NS = 0, po_P90NS = 0, po_P99NS = 0, po_P999NS = 0, po_MaxNS = 0, po_MeanNS = 0\<rparr>"

definition csvRowFor :: "results \<Rightarrow> csv_cell list" where
  "csvRowFor r =
     (let read = (case map_of (perOpMap r) ''READ'' of None \<Rightarrow> zeroStats | Some s \<Rightarrow> s);
          dataOp = (case dominantDataOp r of None \<Rightarrow> zeroStats | Some s \<Rightarrow> s);
          (opsPerSec, gibPerSec) = throughput r
      in [CText (re_GeneratedAt r), CText (pi_TracePath (re_Plan r)), CText (pi_TraceKind (re_Plan r)),
          CText (pi_Profile (re_Plan r)), CText (pi_Engine (re_Plan r)), CText (pi_Mode (re_Plan r)),
          CInt (pi_NumStreams (re_Plan r)), CInt (pi_NumOps (re_Plan r)), CInt (pi_MaxInflight (re_Plan r)),
          CText (rv_CacheMode (re_RunEnv r)), CText (pi_PrepareMode (re_Plan r)), CText (pi_ReplayEquivalence (re_Plan r)),
          CInt (re_DurationNS r), CInt (re_OpsCompleted r), CInt (re_BytesMoved r), CInt (re_Errors r),
          CInt (po_P50NS read), CInt (po_P99NS read), CInt (po_P999NS read),
          CText (po_OpType dataOp), CInt (po_P50NS dataOp), CInt (po_P99NS dataOp), CInt (po_P999NS dataOp),
          CFixed3 opsPerSec, CFixed3 gibPerSec, CInt (cp_UserNS (re_CPU r)), CInt (cp_SysNS (re_CPU r)),
          CInt (re_BacklogEvents r), CInt (ds_P99NS (re_ScheduleDrift r)), CBool (fr_LowFidelity (re_Fidelity r) \<noteq> None)])"

text \<open>\<open>AppendCSV\<close>: the rows the file holds afterwards, given the rows it held, \<open>None\<close> when it does not exist.\<close>

definition appendCSV :: "csv_cell list list option \<Rightarrow> results \<Rightarrow> csv_cell list list" where
  "appendCSV rows r =
     (case rows of
        None \<Rightarrow> [map CText csvColumns, csvRowFor r]
      | Some rs \<Rightarrow> (if rs = [] then [map CText csvColumns] else rs) @ [csvRowFor r])"

section \<open>Properties\<close>

definition written_file :: "string \<Rightarrow> file_info" where
  "written_file text = \<lparr>fi_data = text, fi_mode = resultsFileMode, fi_synced = True\<rparr>"

lemma map_of_onFile: "map_of (onFile n f fs) = (map_of fs)(n := map_option f (map_of fs n))"
  by (auto simp: onFile_def split: option.split)

lemma map_of_renameFile: "map_of fs old = Some x \<Longrightarrow> map_of (renameFile old new fs) = ((map_of fs)(old := None))(new := Some x)"
  by (simp add: renameFile_def)

text \<open>
  C36: the results file is replaced atomically, whichever system call fails and wherever a crash
  interrupts the sequence. In every state the file system goes through, the path holds either
  what it held before or the complete new results, flushed and readable; it holds the new ones
  exactly when the call reports success; and no other file but the temporary one is touched,
  which is gone at the end unless its removal failed.
\<close>

theorem results_file_atomic:
  assumes "tmpName \<noteq> path" "map_of fs tmpName = None" "writeJSONFile fails path tmpName text partial fs = (states, err)"
  shows "(\<forall>fs' \<in> set states. (map_of fs' path = map_of fs path \<or> map_of fs' path = Some (written_file text))
        \<and> (\<forall>n. n \<noteq> path \<and> n \<noteq> tmpName \<longrightarrow> map_of fs' n = map_of fs n))
    \<and> (err = None \<longrightarrow> map_of (hd states) = (map_of fs)(path \<mapsto> written_file text))
    \<and> (err \<noteq> None \<longrightarrow> map_of (hd states) path = map_of fs path \<and> (\<not> fails IoRemove \<longrightarrow> map_of (hd states) = map_of fs))"
proof -
  have n: "(map_of fs)(tmpName := None) = map_of fs" using assms(2) by (simp add: fun_upd_idem)
  show ?thesis
    using assms(1,3) by (auto simp: writeJSONFile_def Let_def map_of_onFile map_of_renameFile written_file_def n split: if_splits)
qed

theorem results_file_atomic_witness:
  "map_of (hd (fst (writeJSONFile (\<lambda>c. c = IoClose) ''r'' ''.r.tmp-1'' ''new'' [] [(''r'', written_file ''old'')]))) ''r'' = Some (written_file ''old'')"
  using results_file_atomic [of "''.r.tmp-1''" "''r''" "[(''r'', written_file ''old'')]" "\<lambda>c. c = IoClose" "''new''" "[]"]
  by (simp add: writeJSONFile_def Let_def split: prod.split)

definition dataRank :: "per_op_stats \<Rightarrow> int option" where
  "dataRank s = map_of dataPriority (po_OpType s)"

text \<open>\<open>b\<close> was done more often than \<open>s\<close>, or as often and ranks no later.\<close>

definition outranks :: "per_op_stats \<Rightarrow> per_op_stats \<Rightarrow> bool" where
  "outranks b s \<longleftrightarrow> po_Count s < po_Count b \<or> po_Count s = po_Count b \<and> the (dataRank b) \<le> the (dataRank s)"

definition leads :: "per_op_stats \<Rightarrow> per_op_stats set \<Rightarrow> bool" where
  "leads b S \<longleftrightarrow> b \<in> S \<and> dataRank b \<noteq> None \<and> (\<forall>s \<in> S. dataRank s \<noteq> None \<longrightarrow> outranks b s)"

lemma dominantLoop_Some:
  assumes "dataRank b = Some rank"
  shows "\<exists>d. dominantLoop ss (Some b) rank = Some d \<and> leads d (insert b (set ss))"
  using assms
proof (induction ss arbitrary: b rank)
  case Nil
  then show ?case by (simp add: leads_def outranks_def)
next
  case (Cons s ss)
  consider "dataRank s = None" | r where "dataRank s = Some r" "po_Count s > po_Count b \<or> po_Count s = po_Count b \<and> r < rank"
    | r where "dataRank s = Some r" "\<not> (po_Count s > po_Count b \<or> po_Count s = po_Count b \<and> r < rank)" by blast
  then show ?case
  proof cases
    case 1
    with Cons show ?thesis by (fastforce simp: leads_def dataRank_def)
  next
    case 2
    have st: "dominantLoop (s # ss) (Some b) rank = dominantLoop ss (Some s) r"
      using 2 by (simp add: dataRank_def)
    have "outranks s b" using 2 Cons.prems by (auto simp: outranks_def)
    with Cons.IH [OF 2(1)] 2(1) show ?thesis unfolding st by (auto simp: leads_def outranks_def)
  next
    case 3
    have st: "dominantLoop (s # ss) (Some b) rank = dominantLoop ss (Some b) rank"
      using 3 by (auto simp: dataRank_def)
    have "outranks b s" using 3 Cons.prems by (auto simp: outranks_def)
    with Cons.IH [OF Cons.prems] Cons.prems show ?thesis unfolding st by (auto simp: leads_def outranks_def)
  qed
qed

lemma dominantLoop_None:
  "(case dominantLoop ss None rank of None \<Rightarrow> \<forall>s \<in> set ss. dataRank s = None | Some d \<Rightarrow> leads d (set ss))"
proof (induction ss)
  case (Cons s ss)
  show ?case
  proof (cases "dataRank s")
    case None
    with Cons show ?thesis by (auto simp: dataRank_def leads_def split: option.splits)
  next
    case (Some r)
    from dominantLoop_Some [OF this, of ss] Some show ?thesis by (auto simp: dataRank_def)
  qed
qed simp

text \<open>Results with the given counts per op type.\<close>

definition sample_results :: "(string \<times> int) list \<Rightarrow> results" where
  "sample_results counts =
     (resultsBuild (\<lparr>hl_new = (\<lambda>a b c. 0), hl_record = (\<lambda>h v. Some (h + 1)), hl_merge = (+),
          hl_export = (\<lambda>h. \<lparr>hs_Low = 0, hs_High = 0, hs_SigFigs = 0, hs_Counts = []\<rparr>), hl_import = (\<lambda>s. 0)\<rparr> :: int hdr_lib)
        sample_query \<lparr>st_GeneratedAt = [], st_Tool = \<lparr>tl_Version = [], tl_Revision = []\<rparr>,
          st_Host = \<lparr>ho_Hostname = [], ho_OS = [], ho_Arch = [], ho_CPUs = 1\<rparr>\<rparr>
        zeroPlan zeroRunEnv newRecorder 5)
       \<lparr>re_PerOpStats := map (\<lambda>(k, n). zeroStats\<lparr>po_OpType := k, po_Count := n\<rparr>) counts\<rparr>"

text \<open>
  The operation whose latency stands for a run is the one it did most: a data operation
  with the largest count, ties going to WRITE, READ, PUT and GET in that order; there is none
  exactly when the run moved no data. And the row of the CSV file has one cell per column.
\<close>

lemma dominant_op:
  "(case dominantDataOp r of
      None \<Rightarrow> \<forall>s \<in> set (re_PerOpStats r). po_OpType s \<notin> {''WRITE'', ''READ'', ''PUT'', ''GET''}
    | Some d \<Rightarrow> leads d (set (re_PerOpStats r)))
    \<and> length (csvRowFor r) = length csvColumns"
proof -
  have p: "dataRank s = None \<longleftrightarrow> po_OpType s \<notin> {''WRITE'', ''READ'', ''PUT'', ''GET''}" for s
    by (auto simp: dataRank_def dataPriority_def)
  have "length (csvRowFor r) = length csvColumns" by (simp add: csvRowFor_def csvColumns_def Let_def split: prod.split)
  with dominantLoop_None [of "re_PerOpStats r" "int (length dataPriority)"] show ?thesis
    unfolding dominantDataOp_def p by auto
qed

lemma dominant_op_witness:
  "dominantDataOp (sample_results [(''STAT'', 9), (''READ'', 4), (''WRITE'', 4)]) \<noteq> None"
  using dominant_op [of "sample_results [(''STAT'', 9), (''READ'', 4), (''WRITE'', 4)]"]
  by (auto simp: sample_results_def split: option.splits)

end
