(* ===== verification/Run_Report.thy ===== *)
theory Run_Report
  imports Scheduler Results "HOL-Library.Multiset"
begin

text \<open>
  From finished runs to results, the second half of \<open>pkg/replay/scheduler.go\<close>: the goroutine that
  drains the streams' recorders, the progress series, \<open>BuildResults\<close> over one or more workers, the
  merged time series and the straggler window. Clock readings are arguments.
\<close>

section \<open>The progress series\<close>

record progress_series =
  se_points :: "progress_point list"
  se_lastOps :: int
  se_lastBytes :: int

definition noSeries :: progress_series where
  "noSeries = \<lparr>se_points = [], se_lastOps = 0, se_lastBytes = 0\<rparr>"

definition recordProgressPoint :: "int \<Rightarrow> int \<Rightarrow> int \<Rightarrow> progress_series \<Rightarrow> progress_series" where
  "recordProgressPoint elapsedNS ops bytes se =
     \<lparr>se_points = se_points se @ [\<lparr>pp_ElapsedNS = elapsedNS, pp_Ops = ops, pp_Bytes = bytes,
        pp_OpsDelta = i64 (ops - se_lastOps se), pp_BytesDelta = i64 (bytes - se_lastBytes se)\<rparr>],
      se_lastOps = ops, se_lastBytes = bytes\<rparr>"

definition finishSeries :: "int \<Rightarrow> int \<Rightarrow> int \<Rightarrow> progress_series \<Rightarrow> progress_series" where
  "finishSeries durationNS finalOps finalBytes se =
     (if se_points se = [] \<or> pp_Ops (last (se_points se)) \<noteq> finalOps \<or> pp_Bytes (last (se_points se)) \<noteq> finalBytes
      then recordProgressPoint durationNS finalOps finalBytes se else se)"

section \<open>One worker's output\<close>

record 'h stream_result =
  sr_sid :: int
  sr_rec :: "'h recorder"
  sr_completionNS :: int

record 'h worker_output =
  wo_Hostname :: string
  wo_Recorder :: "'h recorder"
  wo_PeakByStream :: "(int \<times> int) list"
  wo_CPU :: cpu
  wo_ActualNumOps :: int
  wo_FirstDoneNS :: int
  wo_LastDoneNS :: int
  wo_EngineLimitations :: "string list"
  wo_TimeSeries :: "progress_point list"

record 'h drained =
  dr_merged :: "'h recorder"
  dr_peaks :: "(int \<times> int) list"
  dr_firstDoneNS :: int
  dr_lastDoneNS :: int
  dr_haveDone :: bool

definition drainOne :: "'h hdr_lib \<Rightarrow> 'h drained \<Rightarrow> 'h stream_result \<Rightarrow> 'h drained" where
  "drainOne L d sr =
     \<lparr>dr_merged = merge L (dr_merged d) (sr_rec sr),
      dr_peaks = AList.update (sr_sid sr) (rc_PeakInflight (sr_rec sr)) (dr_peaks d),
      dr_firstDoneNS = (if \<not> dr_haveDone d \<or> sr_completionNS sr < dr_firstDoneNS d then sr_completionNS sr else dr_firstDoneNS d),
      dr_lastDoneNS = (if sr_completionNS sr > dr_lastDoneNS d then sr_completionNS sr else dr_lastDoneNS d),
      dr_haveDone = True\<rparr>"

definition drain :: "'h hdr_lib \<Rightarrow> 'h stream_result list \<Rightarrow> 'h drained" where
  "drain L srs = foldl (drainOne L)
     \<lparr>dr_merged = newRecorder, dr_peaks = [], dr_firstDoneNS = 0, dr_lastDoneNS = 0, dr_haveDone = False\<rparr> srs"

definition workerOutput :: "'h hdr_lib \<Rightarrow> (int \<times> op list) list \<Rightarrow> ('s, 'h) run \<Rightarrow> 'h stream_result list \<Rightarrow> progress_series \<Rightarrow> int \<Rightarrow> int \<Rightarrow> int \<Rightarrow> 'h worker_output" where
  "workerOutput L byStream rn srs se durationNS userNS sysNS =
     (let d = drain L srs in
      \<lparr>wo_Hostname = [],
       wo_Recorder = (dr_merged d)\<lparr>rc_BacklogEvents := rn_backlog rn, rc_BacklogBlockedNS := rn_backlogNS rn,
         rc_MaxInflightDepth := rn_maxDepth rn\<rparr>,
       wo_PeakByStream = dr_peaks d,
       wo_CPU = \<lparr>cp_UserNS = userNS, cp_SysNS = sysNS, cp_WallNS = durationNS\<rparr>,
       wo_ActualNumOps = sum_list (map (\<lambda>so. int (length (snd so))) byStream),
       wo_FirstDoneNS = dr_firstDoneNS d, wo_LastDoneNS = dr_lastDoneNS d, wo_EngineLimitations = [],
       wo_TimeSeries = se_points (finishSeries durationNS (rn_opsDone rn) (rn_bytesDone rn) se)\<rparr>)"

section \<open>Merging the workers' time series\<close>

type_synonym host_point = "int \<times> int"

definition nsPerSecond :: int where "nsPerSecond = 1000000000"

definition bucketOf :: "progress_point \<Rightarrow> int" where
  "bucketOf pt = go_div (pp_ElapsedNS pt) nsPerSecond"

definition addPoint :: "nat \<Rightarrow> (int \<times> (nat \<times> host_point) list) list \<Rightarrow> progress_point \<Rightarrow> (int \<times> (nat \<times> host_point) list) list" where
  "addPoint i byBucket pt =
     (let b = bucketOf pt;
          m = (case map_of byBucket b of None \<Rightarrow> [] | Some m \<Rightarrow> m)
      in AList.update b (AList.update i (pp_Ops pt, pp_Bytes pt) m) byBucket)"

fun fillBuckets :: "nat \<Rightarrow> progress_point list list \<Rightarrow> (int \<times> (nat \<times> host_point) list) list \<Rightarrow> (int \<times> (nat \<times> host_point) list) list" where
  "fillBuckets i [] byBucket = byBucket"
| "fillBuckets i (pts # rest) byBucket = fillBuckets (i + 1) rest (foldl (addPoint i) byBucket pts)"

definition setHosts :: "(nat \<times> host_point) list \<Rightarrow> (nat \<times> host_point) list \<Rightarrow> (nat \<times> host_point) list" where
  "setHosts lastByHost m = foldl (\<lambda>acc (i, pt). AList.update i pt acc) lastByHost m"

fun seriesLoop :: "(int \<times> (nat \<times> host_point) list) list \<Rightarrow> int list \<Rightarrow> (nat \<times> host_point) list \<Rightarrow> int \<Rightarrow> int \<Rightarrow> progress_point list" where
  "seriesLoop byBucket [] lastByHost lastOps lastBytes = []"
| "seriesLoop byBucket (b # bs) lastByHost lastOps lastBytes =
     (let hosts = setHosts lastByHost (case map_of byBucket b of None \<Rightarrow> [] | Some m \<Rightarrow> m);
          ops = i64 (sum_list (map (fst \<circ> snd) hosts));
          bytes = i64 (sum_list (map (snd \<circ> snd) hosts))
      in \<lparr>pp_ElapsedNS = i64 (b * nsPerSecond), pp_Ops = ops, pp_Bytes = bytes,
          pp_OpsDelta = i64 (ops - lastOps), pp_BytesDelta = i64 (bytes - lastBytes)\<rparr>
         # seriesLoop byBucket bs hosts ops bytes)"

definition mergeTimeSeries :: "'h worker_output list \<Rightarrow> progress_point list" where
  "mergeTimeSeries outs =
     (case outs of
        [] \<Rightarrow> []
      | [o1] \<Rightarrow> wo_TimeSeries o1
      | _ \<Rightarrow> (let byBucket = fillBuckets 0 (map wo_TimeSeries outs) []
             in seriesLoop byBucket (sort (map fst byBucket)) [] 0 0))"

section \<open>Limitations and stragglers\<close>

fun unionLims :: "string list \<Rightarrow> string list \<Rightarrow> string list" where
  "unionLims lims [] = lims"
| "unionLims lims (l # ls) = unionLims (if l \<in> set lims then lims else lims @ [l]) ls"

definition unionEngineLimitations :: "'h worker_output list \<Rightarrow> string list" where
  "unionEngineLimitations outs = unionLims [] (concat (map wo_EngineLimitations outs))"

text \<open>The loop over the workers that are not idle: first and last completion.\<close>

fun doneWindow :: "int list \<Rightarrow> int \<times> int \<times> bool \<Rightarrow> int \<times> int \<times> bool" where
  "doneWindow [] acc = acc"
| "doneWindow (d # ds) (first, lst, have) =
     (if d \<le> 0 then doneWindow ds (first, lst, have)
      else doneWindow ds (if \<not> have \<or> d < first then d else first, if d > lst then d else lst, True))"

fun workByFirst :: "int \<Rightarrow> 'h worker_output list \<Rightarrow> f64 \<Rightarrow> f64 \<Rightarrow> f64 \<times> f64" where
  "workByFirst firstDoneNS [] ops bytes = (ops, bytes)"
| "workByFirst firstDoneNS (out # outs) ops bytes =
     (if wo_LastDoneNS out \<le> 0 then workByFirst firstDoneNS outs ops bytes
      else let frac0 = f64_div (f64_of_int firstDoneNS) (f64_of_int (wo_LastDoneNS out));
               frac = (if frac0 > 1 then 1 else frac0)
           in workByFirst firstDoneNS outs
                (f64_add ops (f64_mult (f64_of_int (totalOps (wo_Recorder out))) frac))
                (f64_add bytes (f64_mult (f64_of_int (rc_Bytes (wo_Recorder out))) frac)))"

definition secondsOf :: "int \<Rightarrow> f64" where
  "secondsOf ns = f64_div (f64_of_int ns) 1000000000"

definition buildStraggler :: "'h worker_output list \<Rightarrow> int \<Rightarrow> int \<Rightarrow> straggler_window" where
  "buildStraggler outs totalOps' totalBytes =
     (let (firstDoneNS, lastDoneNS, have) = doneWindow (map wo_LastDoneNS outs) (0, 0, False);
          (opsByFirst, bytesByFirst) = workByFirst firstDoneNS outs 0 0;
          fsecs = secondsOf firstDoneNS;
          lsecs = secondsOf lastDoneNS
      in \<lparr>sw_FirstDoneNS = firstDoneNS, sw_LastDoneNS = lastDoneNS, sw_SkewNS = i64 (lastDoneNS - firstDoneNS),
          sw_FirstDoneOpsPerSec = (if firstDoneNS > 0 then f64_div opsByFirst fsecs else 0),
          sw_LastDoneOpsPerSec = (if lastDoneNS > 0 then f64_div (f64_of_int totalOps') lsecs else 0),
          sw_FirstDoneGiBPerSec = (if firstDoneNS > 0 then f64_div (f64_div bytesByFirst GiB) fsecs else 0),
          sw_LastDoneGiBPerSec = (if lastDoneNS > 0 then f64_div (f64_div (f64_of_int totalBytes) GiB) lsecs else 0)\<rparr>)"

section \<open>BuildResults\<close>

record scheduler_opts =
  so_Mode :: string
  so_SpeedupFactor :: f64
  so_PlanInfo :: plan_info
  so_RunEnv :: run_env

definition mergePeaks :: "(int \<times> int) list \<Rightarrow> (int \<times> int) list \<Rightarrow> (int \<times> int) list" where
  "mergePeaks acc peaks = foldl (\<lambda>m (sid, p). if p > countAt m sid then AList.update sid p m else m) acc peaks"

definition meanInterArrival :: "scheduler_opts \<Rightarrow> header \<Rightarrow> int \<Rightarrow> int" where
  "meanInterArrival opts hdr totalActualOps =
     (let speedup = (if so_SpeedupFactor opts \<le> 0 then 1 else so_SpeedupFactor opts) in
      if totalActualOps > 0 \<and> sum_duration_ns (hdr_summary hdr) > 0
      then (let m = go_div (sum_duration_ns (hdr_summary hdr)) totalActualOps in
        if so_Mode opts = ''scaled'' then int64_of (f64_div (f64_of_int m) speedup) else m)
      else 0)"

definition hostResult :: "'h worker_output \<Rightarrow> host_result" where
  "hostResult out = \<lparr>hr_Hostname = wo_Hostname out, hr_OpsCompleted = totalOps (wo_Recorder out),
     hr_BytesMoved = rc_Bytes (wo_Recorder out), hr_CPU = wo_CPU out, hr_FirstDoneNS = wo_FirstDoneNS out,
     hr_LastDoneNS = wo_LastDoneNS out\<rparr>"

definition buildResults :: "'h hdr_lib \<Rightarrow> 'h hdr_query \<Rightarrow> stamp \<Rightarrow> 'h worker_output list \<Rightarrow> scheduler_opts \<Rightarrow> header \<Rightarrow> int \<Rightarrow> results" where
  "buildResults L Q st outs opts hdr goSkewNS =
     (let merged = foldl (merge L) newRecorder (map wo_Recorder outs);
          peakByStream = foldl mergePeaks [] (map wo_PeakByStream outs);
          totalActualOps = i64 (sum_list (map wo_ActualNumOps outs));
          wallNS = foldl max 0 (map (cp_WallNS \<circ> wo_CPU) outs);
          cpu' = \<lparr>cp_UserNS = i64 (sum_list (map (cp_UserNS \<circ> wo_CPU) outs)),
                 cp_SysNS = i64 (sum_list (map (cp_SysNS \<circ> wo_CPU) outs)), cp_WallNS = wallNS\<rparr>;
          correctedHdr = hdr\<lparr>hdr_summary := (hdr_summary hdr)\<lparr>sum_num_ops := totalActualOps\<rparr>\<rparr>;
          res = (resultsBuild L Q st (so_PlanInfo opts) (so_RunEnv opts) merged wallNS)
            \<lparr>re_CPU := cpu',
             re_Fidelity := fidelityBuild Q merged correctedHdr (so_Mode opts) (meanInterArrival opts hdr totalActualOps) peakByStream,
             re_TimeSeries := mergeTimeSeries outs,
             re_RunEnv := (so_RunEnv opts)\<lparr>rv_EngineLimitations := rv_EngineLimitations (so_RunEnv opts) @ unionEngineLimitations outs\<rparr>\<rparr>
      in if length outs > 1
         then res\<lparr>re_GoDeliverySkewNS := goSkewNS, re_Hosts := map hostResult outs,
                re_Straggler := Some (buildStraggler outs (re_OpsCompleted res) (re_BytesMoved res))\<rparr>
         else res)"

section \<open>Total ops of a recorder\<close>

lemma sum_over_kinds:
  assumes "finite K" "\<forall>k v n e. EvOp k v n e \<in> set evs \<longrightarrow> k \<in> K"
  shows "(\<Sum>k\<in>K. length (vals (opVal k) evs)) = length (concat (map opEvent evs))"
  using assms(2)
proof (induction evs)
  case Nil
  then show ?case by simp
next
  case (Cons e evs)
  have v: "vals f (e # evs) = f e @ vals f evs" for f :: "event \<Rightarrow> int list" by (simp add: vals_def)
  have "(\<Sum>k\<in>K. length (opVal k e)) = length (opEvent e)"
  proof (cases e)
    case (EvOp k' v n b)
    then have "(\<Sum>k\<in>K. length (opVal k e)) = (\<Sum>k\<in>K. if k = k' then 1 else 0)" by (intro sum.cong) auto
    with EvOp Cons.prems assms(1) show ?thesis by (simp add: sum.delta)
  qed simp_all
  moreover have "(\<Sum>k\<in>K. length (vals (opVal k) evs)) = length (concat (map opEvent evs))"
    by (rule Cons.IH) (use Cons.prems in \<open>meson list.set_intros(2)\<close>)
  ultimately show ?case by (simp add: v sum.distrib)
qed

lemma holds_totalOps:
  assumes "holds L evs r"
  shows "totalOps r = int (length (concat (map opEvent evs)))"
proof -
  let ?cs = "rc_counts r"
  have d: "distinct (map fst ?cs)" and m: "map_of ?cs k = (if vals (opVal k) evs = [] then None else Some (int (length (vals (opVal k) evs))))" for k
    using holdsD(3) [OF assms] by (simp_all add: counts_hold_def)
  have "totalOps r = (\<Sum>p\<in>set ?cs. snd p)"
    using d by (simp add: totalOps_def sum_list_distinct_conv_sum_set distinct_map)
  also have "\<dots> = (\<Sum>p\<in>set ?cs. int (length (vals (opVal (fst p)) evs)))"
  proof (intro sum.cong refl)
    fix p assume "p \<in> set ?cs"
    then have "map_of ?cs (fst p) = Some (snd p)" using d by simp
    with m [of "fst p"] show "snd p = int (length (vals (opVal (fst p)) evs))" by (simp split: if_splits)
  qed
  also have "\<dots> = (\<Sum>k\<in>fst ` set ?cs. int (length (vals (opVal k) evs)))"
    using d by (subst sum.reindex) (simp_all add: distinct_map)
  also have "\<dots> = int (\<Sum>k\<in>fst ` set ?cs. length (vals (opVal k) evs))" by simp
  also have "(\<Sum>k\<in>fst ` set ?cs. length (vals (opVal k) evs)) = length (concat (map opEvent evs))"
  proof (rule sum_over_kinds)
    show "\<forall>k v n e. EvOp k v n e \<in> set evs \<longrightarrow> k \<in> fst ` set ?cs"
    proof (intro allI impI)
      fix k v n e assume "EvOp k v n e \<in> set evs"
      then have "vals (opVal k) evs \<noteq> []" by (force simp: vals_def)
      with m [of k] have "map_of ?cs k \<noteq> None" by simp
      then show "k \<in> fst ` set ?cs" by (simp add: map_of_eq_None_iff)
    qed
  qed simp
  finally show ?thesis .
qed

section \<open>What a worker's output accounts for\<close>

definition accounts :: "'h hdr_lib \<Rightarrow> 'h recorder \<Rightarrow> int \<Rightarrow> int \<Rightarrow> int \<Rightarrow> bool" where
  "accounts L r ops errs bytes \<longleftrightarrow> (\<exists>evs. holds L evs r \<and> int (length (concat (map opEvent evs))) = ops
     \<and> int (length (filter isError evs)) = errs \<and> sum_list (map bytesVal evs) = bytes)"

lemma accounts_new: "accounts L newRecorder 0 0 0"
  unfolding accounts_def by (rule exI [of _ "[]"]) (simp add: holds_new)

lemma accounts_merge:
  assumes "hdr_laws L" "accounts L r n e b" "accounts L r' n' e' b'"
  shows "accounts L (merge L r r') (n + n') (e + e') (b + b')"
proof -
  obtain evs evs' where "holds L evs r" "int (length (concat (map opEvent evs))) = n"
    "int (length (filter isError evs)) = e" "sum_list (map bytesVal evs) = b"
    "holds L evs' r'" "int (length (concat (map opEvent evs'))) = n'"
    "int (length (filter isError evs')) = e'" "sum_list (map bytesVal evs') = b'"
    using assms(2,3) by (auto simp: accounts_def)
  with holds_merge [OF assms(1), of evs r evs' r'] show ?thesis
    unfolding accounts_def by (intro exI [of _ "evs @ evs'"]) simp
qed

lemma accounts_mergeAll:
  assumes "hdr_laws L" "list_all2 (\<lambda>r (n, e, b). accounts L r n e b) rs acs" "accounts L r n e b"
  shows "accounts L (foldl (merge L) r rs) (n + sum_list (map fst acs)) (e + sum_list (map (fst \<circ> snd) acs)) (b + sum_list (map (snd \<circ> snd) acs))"
  using assms(2,3)
proof (induction rs acs arbitrary: r n e b rule: list_all2_induct)
  case (Cons x xs y ys)
  obtain n' e' b' where y: "y = (n', e', b')" by (cases y)
  with Cons(1) have "accounts L x n' e' b'" by simp
  from Cons.IH [OF accounts_merge [OF assms(1) Cons.prems this]] show ?case by (simp add: y ac_simps)
qed simp

lemma accountsD:
  "accounts L r n e b \<Longrightarrow> totalOps r = n \<and> rc_Errors r = e \<and> rc_Bytes r = i64 b"
  unfolding accounts_def using holds_totalOps holdsD by metis

text \<open>A stream's recorder accounts for its log.\<close>

lemma accounts_stream:
  assumes "rec_inv L st"
  shows "accounts L (sm_rec st) (int (length (sm_log st))) (int (length (filter logFailed (sm_log st)))) (logBytes st)"
proof -
  obtain evs where evs: "holds L evs (sm_rec st)" "concat (map opEvent evs) = map logEntry (sm_log st)"
    using assms by (auto simp: rec_inv_def)
  have b: "map (\<lambda>e. fst (snd e)) (map logEntry lg) = map (\<lambda>l. fst (snd l)) lg" for lg
    by (auto simp: logEntry_def)
  have f: "filter (\<lambda>e. snd (snd e)) (map logEntry lg) = map logEntry (filter logFailed lg)" for lg
    by (induction lg) (auto simp: logEntry_def logFailed_def)
  show ?thesis unfolding accounts_def
    by (rule exI [of _ evs]) (use evs(1) in \<open>simp add: opEvent_bytes opEvent_errors evs(2) b f logBytes_def del: map_map\<close>)
qed

text \<open>
  \<open>out\<close> is the output of the finished run \<open>rn\<close> of \<open>byStream\<close>: its streams reported in some order
  \<open>sts\<close>, the progress series and the clocks are arbitrary, and \<open>Collect\<close> stamped the host.
\<close>

definition worker_ran :: "('s, 'h) run_config \<times> (int \<times> op list) list \<times> 's \<times> ('s, 'h) run \<Rightarrow> 'h worker_output \<Rightarrow> bool" where
  "worker_ran w out \<longleftrightarrow> (case w of (cf, byStream, s, rn) \<Rightarrow>
     reachable cf byStream s rn \<and> finished rn \<and> \<not> rn_cancelled rn
     \<and> (\<exists>sts cs se d u y host lims. mset sts = mset (rn_streams rn) \<and> length cs = length sts
          \<and> out = (workerOutput (cf_hist cf) byStream rn
              (map2 (\<lambda>st c. \<lparr>sr_sid = sm_sid st, sr_rec = sm_rec st, sr_completionNS = c\<rparr>) sts cs) se d u y)
                \<lparr>wo_Hostname := host, wo_EngineLimitations := lims\<rparr>))"

lemma drain_fields:
  "dr_merged (foldl (drainOne L) d srs) = foldl (merge L) (dr_merged d) (map sr_rec srs)"
  "dr_peaks (foldl (drainOne L) d srs) = foldl (\<lambda>m sr. AList.update (sr_sid sr) (rc_PeakInflight (sr_rec sr)) m) (dr_peaks d) srs"
  by (induction srs arbitrary: d) (simp_all add: drainOne_def)

lemma map2_fields:
  "length cs = length sts \<Longrightarrow> map sr_rec (map2 (\<lambda>st c. \<lparr>sr_sid = sm_sid st, sr_rec = sm_rec st, sr_completionNS = c\<rparr>) sts cs) = map sm_rec sts"
  by (induction sts cs rule: list_induct2') simp_all

lemma holds_backlog [simp]:
  "holds L evs (r\<lparr>rc_BacklogEvents := a, rc_BacklogBlockedNS := b, rc_MaxInflightDepth := c\<rparr>) = holds L evs r"
  by (simp add: holds_def)

lemma accounts_backlog [simp]:
  "accounts L (r\<lparr>rc_BacklogEvents := a, rc_BacklogBlockedNS := b, rc_MaxInflightDepth := c\<rparr>) n e k = accounts L r n e k"
  by (simp add: accounts_def)

definition opCount :: "(int \<times> op list) list \<Rightarrow> int" where
  "opCount bs = sum_list (map (\<lambda>so. int (length (snd so))) bs)"

definition failures :: "('s, 'h) run \<Rightarrow> int" where
  "failures rn = sum_list (map (\<lambda>st. int (length (filter logFailed (sm_log st)))) (rn_streams rn))"

definition movedBytes :: "('s, 'h) run \<Rightarrow> int" where
  "movedBytes rn = sum_list (map logBytes (rn_streams rn))"

lemma sum_list_mset_cong:
  fixes f :: "'a \<Rightarrow> int"
  assumes "mset xs = mset ys"
  shows "sum_list (map f xs) = sum_list (map f ys)"
  using assms by (metis mset_map sum_mset_sum_list)

lemma finished_ops:
  assumes "run_inv cf bs rn" "finished rn" "\<not> rn_cancelled rn"
  shows "sum_list (map (\<lambda>st. int (length (sm_log st))) (rn_streams rn)) = opCount bs"
proof -
  have "map (\<lambda>st. int (length (sm_log st))) (rn_streams rn) = map (\<lambda>st. int (length (sm_ops st))) (rn_streams rn)"
    using finished_all_done [OF assms] by (intro map_cong refl) (metis length_map)
  moreover have "map sm_ops (rn_streams rn) = map snd bs"
    using assms(1) by (auto simp: run_inv_def comp_def)
  moreover have "map (\<lambda>st. int (length (sm_ops st))) (rn_streams rn) = map (int \<circ> length) (map sm_ops (rn_streams rn))" by simp
  ultimately have "map (\<lambda>st. int (length (sm_log st))) (rn_streams rn) = map (int \<circ> length) (map snd bs)" by (simp only:)
  then show ?thesis by (simp add: opCount_def comp_def)
qed

lemma ran_accounts:
  assumes "worker_ran (cf, bs, s, rn) out" "hdr_laws (cf_hist cf)"
  shows "accounts (cf_hist cf) (wo_Recorder out) (opCount bs) (failures rn) (movedBytes rn)"
    "wo_ActualNumOps out = opCount bs"
proof -
  let ?L = "cf_hist cf"
  obtain sts cs se d u y host lims where r: "reachable cf bs s rn" "finished rn" "\<not> rn_cancelled rn"
    and sts: "mset sts = mset (rn_streams rn)" "length cs = length sts"
    and out: "out = (workerOutput ?L bs rn
        (map2 (\<lambda>st c. \<lparr>sr_sid = sm_sid st, sr_rec = sm_rec st, sr_completionNS = c\<rparr>) sts cs) se d u y)
          \<lparr>wo_Hostname := host, wo_EngineLimitations := lims\<rparr>"
    using assms(1) by (auto simp: worker_ran_def)
  show "wo_ActualNumOps out = opCount bs" by (simp add: out workerOutput_def Let_def opCount_def)
  have inv: "\<forall>st \<in> set sts. rec_inv ?L st" using reachable_rec [OF r(1) assms(2)] sts(1) by (metis mset_eq_setD)
  define acs where "acs = map (\<lambda>st. (int (length (sm_log st)), int (length (filter logFailed (sm_log st))), logBytes st)) sts"
  have "list_all2 (\<lambda>r (n, e, b). accounts ?L r n e b) (map sm_rec sts) acs"
    using inv by (simp add: acs_def list_all2_conv_all_nth accounts_stream)
  from accounts_mergeAll [OF assms(2) this accounts_new]
  have "accounts ?L (foldl (merge ?L) newRecorder (map sm_rec sts))
      (sum_list (map fst acs)) (sum_list (map (fst \<circ> snd) acs)) (sum_list (map (snd \<circ> snd) acs))" by simp
  moreover have "sum_list (map fst acs) = opCount bs"
    using sum_list_mset_cong [OF sts(1), of "\<lambda>st. int (length (sm_log st))"] finished_ops [OF reachable_inv [OF r(1)] r(2,3)]
    by (simp add: acs_def comp_def)
  moreover have "sum_list (map (fst \<circ> snd) acs) = failures rn" "sum_list (map (snd \<circ> snd) acs) = movedBytes rn"
    using sum_list_mset_cong [OF sts(1)] by (simp_all add: acs_def comp_def failures_def movedBytes_def)
  ultimately show "accounts ?L (wo_Recorder out) (opCount bs) (failures rn) (movedBytes rn)"
    by (simp add: out workerOutput_def Let_def drain_def drain_fields map2_fields [OF sts(2)] del: map_map)
qed

lemma accounts_worker:
  assumes "cf_hist (fst w) = L" "worker_ran w out" "hdr_laws L"
  shows "(case w of (cf, bs, s, rn) \<Rightarrow> accounts L (wo_Recorder out) (opCount bs) (failures rn) (movedBytes rn)
    \<and> opCount bs = wo_ActualNumOps out)"
proof -
  obtain cf bs s rn where w: "w = (cf, bs, s, rn)" by (cases w)
  with assms show ?thesis using ran_accounts [of cf bs s rn out] by simp
qed

section \<open>No stream has two ops in flight\<close>

definition peaks_ok :: "(int \<times> int) list \<Rightarrow> bool" where
  "peaks_ok m \<longleftrightarrow> (\<forall>k. countAt m k \<le> 1)"

lemma countAt_update: "countAt (AList.update k v m) k' = (if k' = k then v else countAt m k')"
  by (simp add: countAt_def)

lemma peaks_ok_nil [simp]: "peaks_ok []"
  by (simp add: peaks_ok_def countAt_def)

lemma peaks_ok_update: "peaks_ok m \<Longrightarrow> v \<le> 1 \<Longrightarrow> peaks_ok (AList.update k v m)"
  by (simp add: peaks_ok_def countAt_update)

definition peak_list_ok :: "(int \<times> int) list \<Rightarrow> bool" where
  "peak_list_ok m \<longleftrightarrow> (\<forall>p \<in> set m. snd p \<le> 1)"

lemma peak_list_update: "peak_list_ok m \<Longrightarrow> v \<le> 1 \<Longrightarrow> peak_list_ok (AList.update k v m)"
  by (induction m) (auto simp: peak_list_ok_def split: if_splits)

lemma peaks_drain:
  assumes "\<forall>sr \<in> set srs. rc_PeakInflight (sr_rec sr) \<le> 1" "peak_list_ok m"
  shows "peak_list_ok (foldl (\<lambda>m sr. AList.update (sr_sid sr) (rc_PeakInflight (sr_rec sr)) m) m srs)"
  using assms by (induction srs arbitrary: m) (simp_all add: peak_list_update)

lemma mergePeaks_ok: "peak_list_ok p \<Longrightarrow> peaks_ok m \<Longrightarrow> peaks_ok (mergePeaks m p)"
  unfolding mergePeaks_def
proof (induction p arbitrary: m)
  case (Cons x p)
  obtain k v where x: "x = (k, v)" by fastforce
  from Cons x show ?case by (simp add: peak_list_ok_def peaks_ok_update)
qed simp

lemma mergePeaks_all: "\<forall>p \<in> set ps. peak_list_ok p \<Longrightarrow> peaks_ok m \<Longrightarrow> peaks_ok (foldl mergePeaks m ps)"
  by (induction ps arbitrary: m) (simp_all add: mergePeaks_ok)

lemma ran_peaks:
  assumes "worker_ran (cf, bs, s, rn) out"
  shows "peak_list_ok (wo_PeakByStream out)"
proof -
  obtain sts cs se d u y host lims where r: "reachable cf bs s rn"
    and sts: "mset sts = mset (rn_streams rn)" "length cs = length sts"
    and out: "out = (workerOutput (cf_hist cf) bs rn
        (map2 (\<lambda>st c. \<lparr>sr_sid = sm_sid st, sr_rec = sm_rec st, sr_completionNS = c\<rparr>) sts cs) se d u y)
          \<lparr>wo_Hostname := host, wo_EngineLimitations := lims\<rparr>"
    using assms by (auto simp: worker_ran_def)
  have "\<forall>st \<in> set sts. rc_PeakInflight (sm_rec st) \<le> 1"
    using reachable_inv [OF r] sts(1) by (metis run_inv_def stream_inv_def mset_eq_setD)
  then have "\<forall>sr \<in> set (map2 (\<lambda>st c. \<lparr>sr_sid = sm_sid st, sr_rec = sm_rec st, sr_completionNS = c\<rparr>) sts cs). rc_PeakInflight (sr_rec sr) \<le> 1"
    by (auto dest: set_zip_leftD)
  from peaks_drain [OF this, of "[]"] show ?thesis
    by (simp add: out workerOutput_def Let_def drain_def drain_fields peak_list_ok_def)
qed

section \<open>The merged series ends at the totals\<close>

lemma finishSeries_last:
  "se_points (finishSeries d n b se) \<noteq> [] \<and> pp_Ops (last (se_points (finishSeries d n b se))) = n
    \<and> pp_Bytes (last (se_points (finishSeries d n b se))) = b"
  by (auto simp: finishSeries_def recordProgressPoint_def)

definition series_ordered :: "progress_point list \<Rightarrow> bool" where
  "series_ordered pts \<longleftrightarrow> sorted (map bucketOf pts)"

text \<open>The point of host \<open>i\<close> in bucket \<open>b\<close>.\<close>

definition pointAt :: "(int \<times> (nat \<times> host_point) list) list \<Rightarrow> int \<Rightarrow> nat \<Rightarrow> host_point option" where
  "pointAt bb b i = (case map_of bb b of None \<Rightarrow> None | Some m \<Rightarrow> map_of m i)"

definition lastIn :: "int \<Rightarrow> progress_point list \<Rightarrow> host_point option \<Rightarrow> host_point option" where
  "lastIn b pts old = foldl (\<lambda>r pt. if bucketOf pt = b then Some (pp_Ops pt, pp_Bytes pt) else r) old pts"

lemma pointAt_addPoint:
  "pointAt (addPoint i bb pt) b j = (if j = i \<and> bucketOf pt = b then Some (pp_Ops pt, pp_Bytes pt) else pointAt bb b j)"
  by (auto simp: pointAt_def addPoint_def Let_def split: option.split)

lemma pointAt_fold:
  "pointAt (foldl (addPoint i) bb pts) b j = (if j = i then lastIn b pts (pointAt bb b i) else pointAt bb b j)"
  by (induction pts arbitrary: bb) (simp_all add: lastIn_def pointAt_addPoint)

lemma pointAt_fillBuckets:
  "pointAt (fillBuckets i ptss bb) b j =
    (if i \<le> j \<and> j < i + length ptss then lastIn b (ptss ! (j - i)) (pointAt bb b j) else pointAt bb b j)"
proof (induction ptss arbitrary: i bb j)
  case (Cons pts ptss)
  consider "j < i" | "j = i" | "i < j" "j - i = Suc (j - Suc i)" by linarith
  then show ?case by cases (simp_all add: Cons.IH pointAt_fold)
qed auto

lemma keys_addPoint: "fst ` set (addPoint i bb pt) = insert (bucketOf pt) (fst ` set bb)"
  by (simp add: addPoint_def Let_def dom_map_of_alist [symmetric])

lemma keys_fillBuckets: "fst ` set (fillBuckets i ptss bb) = fst ` set bb \<union> bucketOf ` set (concat ptss)"
proof (induction ptss arbitrary: i bb)
  case (Cons pts ptss)
  have "fst ` set (foldl (addPoint i) bb pts) = fst ` set bb \<union> bucketOf ` set pts" for bb
    by (induction pts arbitrary: bb) (auto simp: keys_addPoint)
  then show ?case by (auto simp: Cons.IH)
qed simp

lemma lastIn_none: "\<forall>pt \<in> set pts. bucketOf pt \<noteq> b \<Longrightarrow> lastIn b pts old = old"
  by (induction pts arbitrary: old) (simp_all add: lastIn_def)

lemma lastIn_last:
  "pts \<noteq> [] \<Longrightarrow> lastIn (bucketOf (last pts)) pts old = Some (pp_Ops (last pts), pp_Bytes (last pts))"
  by (induction pts rule: rev_induct) (simp_all add: lastIn_def)

text \<open>The hosts' last points after the buckets \<open>bs\<close>.\<close>

definition overlay :: "(int \<times> (nat \<times> host_point) list) list \<Rightarrow> int list \<Rightarrow> (nat \<times> host_point) list \<Rightarrow> (nat \<times> host_point) list" where
  "overlay bb bs hosts = foldl (\<lambda>h b. setHosts h (case map_of bb b of None \<Rightarrow> [] | Some m \<Rightarrow> m)) hosts bs"

lemma seriesLoop_last:
  "bs \<noteq> [] \<Longrightarrow> seriesLoop bb bs hosts lo lb \<noteq> []
    \<and> pp_Ops (last (seriesLoop bb bs hosts lo lb)) = i64 (sum_list (map (fst \<circ> snd) (overlay bb bs hosts)))
    \<and> pp_Bytes (last (seriesLoop bb bs hosts lo lb)) = i64 (sum_list (map (snd \<circ> snd) (overlay bb bs hosts)))"
proof (induction bs arbitrary: hosts lo lb)
  case (Cons b bs)
  show ?case
  proof (cases "bs = []")
    case False
    with Cons.IH [OF False] show ?thesis by (simp add: Let_def overlay_def)
  qed (simp add: Let_def overlay_def comp_def)
qed simp

lemma setHosts_map:
  "distinct (map fst m) \<Longrightarrow> map_of (setHosts h m) i = (case map_of m i of None \<Rightarrow> map_of h i | Some p \<Rightarrow> Some p)"
  unfolding setHosts_def
proof (induction m arbitrary: h)
  case (Cons x m)
  obtain k v where x: "x = (k, v)" by (cases x)
  from Cons.prems x have "map_of m k = None" by (simp add: map_of_eq_None_iff)
  with Cons x show ?case by (auto split: option.split)
qed simp

lemma setHosts_distinct: "distinct (map fst h) \<Longrightarrow> distinct (map fst (setHosts h m))"
  unfolding setHosts_def by (induction m arbitrary: h) (simp_all add: distinct_keys_update case_prod_beta)

definition inner_distinct :: "(int \<times> (nat \<times> host_point) list) list \<Rightarrow> bool" where
  "inner_distinct bb \<longleftrightarrow> (\<forall>b m. map_of bb b = Some m \<longrightarrow> distinct (map fst m))"

lemma inner_distinct_add: "inner_distinct bb \<Longrightarrow> inner_distinct (addPoint i bb pt)"
  by (auto simp: inner_distinct_def addPoint_def Let_def distinct_keys_update split: option.split)

lemma inner_distinct_fill: "inner_distinct bb \<Longrightarrow> inner_distinct (fillBuckets i ptss bb)"
proof (induction ptss arbitrary: i bb)
  case (Cons pts ptss)
  have "inner_distinct (foldl (addPoint i) bb pts)" using Cons.prems
    by (induction pts arbitrary: bb) (simp_all add: inner_distinct_add)
  then show ?case by (simp add: Cons.IH)
qed simp

lemma overlay_distinct: "distinct (map fst hosts) \<Longrightarrow> distinct (map fst (overlay bb bs hosts))"
  unfolding overlay_def by (induction bs arbitrary: hosts) (simp_all add: setHosts_distinct)

lemma overlay_snoc: "overlay bb (bs @ [b]) hosts = setHosts (overlay bb bs hosts) (case map_of bb b of None \<Rightarrow> [] | Some m \<Rightarrow> m)"
  by (simp add: overlay_def)

lemma overlay_map:
  assumes "inner_distinct bb" "sorted bs" "b0 \<in> set bs" "pointAt bb b0 i = Some p" "\<forall>b \<in> set bs. b0 < b \<longrightarrow> pointAt bb b i = None"
  shows "map_of (overlay bb bs hosts) i = Some p"
  using assms(2-5)
proof (induction bs rule: rev_induct)
  case (snoc b bs)
  have m: "map_of (overlay bb (bs @ [b]) hosts) i = (case pointAt bb b i of None \<Rightarrow> map_of (overlay bb bs hosts) i | Some p \<Rightarrow> Some p)"
    unfolding overlay_snoc using assms(1) by (auto simp: setHosts_map inner_distinct_def pointAt_def split: option.split)
  show ?case
  proof (cases "b = b0")
    case False
    with snoc.prems have "b0 \<in> set bs" "b0 < b" by (auto simp: sorted_append)
    with snoc show ?thesis by (simp add: m sorted_append)
  qed (use m snoc.prems in simp)
qed simp

lemma overlay_none:
  assumes "inner_distinct bb" "\<forall>b. pointAt bb b i = None" "map_of hosts i = None"
  shows "map_of (overlay bb bs hosts) i = None"
proof (induction bs rule: rev_induct)
  case (snoc b bs)
  then show ?case unfolding overlay_snoc using assms
    by (auto simp: setHosts_map inner_distinct_def pointAt_def split: option.splits)
qed (use assms(3) in \<open>simp add: overlay_def\<close>)

lemma alist_sum:
  fixes f :: "host_point \<Rightarrow> int"
  assumes "distinct (map fst hosts)" "\<forall>i. map_of hosts i = (if i < n then Some (g i) else None)"
  shows "sum_list (map (f \<circ> snd) hosts) = (\<Sum>i<n. f (g i))"
proof -
  have "sum_list (map (f \<circ> snd) hosts) = (\<Sum>x\<in>set hosts. f (snd x))"
    using assms(1) by (simp add: sum_list_distinct_conv_sum_set distinct_map)
  also have "\<dots> = (\<Sum>x\<in>set hosts. f (g (fst x)))"
  proof (intro sum.cong refl)
    fix x assume "x \<in> set hosts"
    then have "map_of hosts (fst x) = Some (snd x)" using assms(1) by simp
    with assms(2) show "f (snd x) = f (g (fst x))" by (simp split: if_splits)
  qed
  also have "\<dots> = (\<Sum>i\<in>fst ` set hosts. f (g i))" using assms(1) by (subst sum.reindex) (simp_all add: distinct_map)
  also have "fst ` set hosts = {..<n}" using assms(2) by (auto simp: dom_map_of_alist [symmetric] split: if_splits)
  finally show ?thesis .
qed

lemma mergeTimeSeries_last:
  assumes "length outs > 1" "\<forall>out \<in> set outs. wo_TimeSeries out \<noteq> [] \<and> series_ordered (wo_TimeSeries out)"
  shows "mergeTimeSeries outs \<noteq> []
    \<and> pp_Ops (last (mergeTimeSeries outs)) = i64 (sum_list (map (\<lambda>out. pp_Ops (last (wo_TimeSeries out))) outs))"
proof -
  let ?ptss = "map wo_TimeSeries outs"
  let ?bb = "fillBuckets 0 ?ptss []"
  let ?bs = "sort (map fst ?bb)"
  let ?last = "\<lambda>i. (pp_Ops (last (wo_TimeSeries (outs ! i))), pp_Bytes (last (wo_TimeSeries (outs ! i))))"
  have ms: "mergeTimeSeries outs = seriesLoop ?bb ?bs [] 0 0"
    using assms(1) by (auto simp: mergeTimeSeries_def Let_def split: list.split)
  have inn: "inner_distinct ?bb" by (rule inner_distinct_fill) (simp add: inner_distinct_def)
  have keys: "set ?bs = bucketOf ` set (concat ?ptss)" by (simp add: keys_fillBuckets)
  have pa: "pointAt ?bb b i = (if i < length outs then lastIn b (wo_TimeSeries (outs ! i)) None else None)" for b i
    by (simp add: pointAt_fillBuckets) (simp add: pointAt_def)
  have "map_of (overlay ?bb ?bs []) i = (if i < length outs then Some (?last i) else None)" for i
  proof (cases "i < length outs")
    case True
    let ?pts = "wo_TimeSeries (outs ! i)"
    have p: "?pts \<noteq> []" "sorted (map bucketOf ?pts)" using assms(2) True by (simp_all add: series_ordered_def)
    have le: "bucketOf pt \<le> bucketOf (last ?pts)" if "pt \<in> set ?pts" for pt
      using p that by (cases ?pts rule: rev_cases) (auto simp: sorted_append)
    have "map_of (overlay ?bb ?bs []) i = Some (?last i)"
    proof (rule overlay_map [OF inn])
      have "last ?pts \<in> set (concat ?ptss)" using True p(1) by (auto intro!: bexI [of _ "outs ! i"])
      then show "bucketOf (last ?pts) \<in> set ?bs" unfolding keys by (rule imageI)
      show "pointAt ?bb (bucketOf (last ?pts)) i = Some (?last i)" using True p(1) by (simp add: pa lastIn_last)
      show "\<forall>b \<in> set ?bs. bucketOf (last ?pts) < b \<longrightarrow> pointAt ?bb b i = None"
      proof (intro ballI impI)
        fix b assume "bucketOf (last ?pts) < b"
        then have "\<forall>pt \<in> set ?pts. bucketOf pt \<noteq> b" using le by force
        then show "pointAt ?bb b i = None" by (simp add: pa lastIn_none)
      qed
    qed simp
    with True show ?thesis by simp
  next
    case False
    with overlay_none [OF inn] pa show ?thesis by simp
  qed
  then have "sum_list (map (fst \<circ> snd) (overlay ?bb ?bs [])) = (\<Sum>i<length outs. fst (?last i))"
    by (intro alist_sum) (simp_all add: overlay_distinct)
  also have "\<dots> = sum_list (map (\<lambda>out. pp_Ops (last (wo_TimeSeries out))) outs)"
    by (simp add: sum_list_sum_nth atLeast0LessThan)
  finally have s: "sum_list (map (fst \<circ> snd) (overlay ?bb ?bs [])) = sum_list (map (\<lambda>out. pp_Ops (last (wo_TimeSeries out))) outs)" .
  have "outs ! 0 \<in> set outs" using assms(1) by (cases outs) simp_all
  moreover from this obtain pt where "pt \<in> set (wo_TimeSeries (outs ! 0))" using assms(2) by (metis last_in_set)
  ultimately have "bucketOf pt \<in> set ?bs" unfolding keys by (intro imageI) auto
  then have "?bs \<noteq> []" by (metis list.set(1) empty_iff)
  from seriesLoop_last [OF this, of ?bb "[]" 0 0] s show ?thesis unfolding ms by simp
qed

section \<open>Every worker's run, merged\<close>

definition all_ran :: "'h hdr_lib \<Rightarrow> (('s, 'h) run_config \<times> (int \<times> op list) list \<times> 's \<times> ('s, 'h) run) list \<Rightarrow> 'h worker_output list \<Rightarrow> bool" where
  "all_ran L ws outs \<longleftrightarrow> list_all2 (\<lambda>w out. cf_hist (fst w) = L \<and> worker_ran w out) ws outs"

definition workOps :: "(('s, 'h) run_config \<times> (int \<times> op list) list \<times> 's \<times> ('s, 'h) run) list \<Rightarrow> int" where
  "workOps ws = sum_list (map (\<lambda>w. opCount (fst (snd w))) ws)"

definition workFailures :: "(('s, 'h) run_config \<times> (int \<times> op list) list \<times> 's \<times> ('s, 'h) run) list \<Rightarrow> int" where
  "workFailures ws = sum_list (map (\<lambda>w. failures (snd (snd (snd w)))) ws)"

definition workBytes :: "(('s, 'h) run_config \<times> (int \<times> op list) list \<times> 's \<times> ('s, 'h) run) list \<Rightarrow> int" where
  "workBytes ws = sum_list (map (\<lambda>w. movedBytes (snd (snd (snd w)))) ws)"

lemma opCount_nonneg: "0 \<le> opCount bs"
  by (induction bs) (simp_all add: opCount_def)

lemma workOps_nonneg: "0 \<le> workOps ws"
  by (induction ws) (simp_all add: workOps_def opCount_nonneg)

lemma sum_list_map2: "list_all2 (\<lambda>x y. f x = g y) xs ys \<Longrightarrow> sum_list (map f xs) = sum_list (map g ys)"
  by (induction rule: list_all2_induct) simp_all

lemma merged_accounts:
  assumes "hdr_laws L" "all_ran L ws outs"
  shows "accounts L (foldl (merge L) newRecorder (map wo_Recorder outs)) (workOps ws) (workFailures ws) (workBytes ws)"
    "sum_list (map wo_ActualNumOps outs) = workOps ws"
proof -
  define acs where "acs = map (\<lambda>w. (opCount (fst (snd w)), failures (snd (snd (snd w))), movedBytes (snd (snd (snd w))))) ws"
  have aw: "accounts L (wo_Recorder (outs ! i)) (opCount (fst (snd (ws ! i)))) (failures (snd (snd (snd (ws ! i))))) (movedBytes (snd (snd (snd (ws ! i)))))
      \<and> wo_ActualNumOps (outs ! i) = opCount (fst (snd (ws ! i)))" if "i < length ws" for i
    using accounts_worker [of "ws ! i" L "outs ! i"] assms that by (auto simp: all_ran_def list_all2_conv_all_nth case_prod_beta)
  have len: "length ws = length outs" using assms(2) by (simp add: all_ran_def list_all2_lengthD)
  have acc: "list_all2 (\<lambda>r (n, e, b). accounts L r n e b) (map wo_Recorder outs) acs"
    using aw len by (simp add: acs_def list_all2_conv_all_nth case_prod_beta)
  show "accounts L (foldl (merge L) newRecorder (map wo_Recorder outs)) (workOps ws) (workFailures ws) (workBytes ws)"
    using accounts_mergeAll [OF assms(1) acc accounts_new] by (simp add: acs_def comp_def workOps_def workFailures_def workBytes_def)
  show "sum_list (map wo_ActualNumOps outs) = workOps ws"
    unfolding workOps_def by (rule sum_list_map2) (use aw len in \<open>simp add: list_all2_conv_all_nth\<close>)
qed

lemma buildResults_fields:
  "re_OpsCompleted (buildResults L Q st outs opts hdr skew) = totalOps (foldl (merge L) newRecorder (map wo_Recorder outs))"
  "re_Errors (buildResults L Q st outs opts hdr skew) = rc_Errors (foldl (merge L) newRecorder (map wo_Recorder outs))"
  "re_BytesMoved (buildResults L Q st outs opts hdr skew) = rc_Bytes (foldl (merge L) newRecorder (map wo_Recorder outs))"
  "re_TimeSeries (buildResults L Q st outs opts hdr skew) = mergeTimeSeries outs"
  by (simp_all add: buildResults_def resultsBuild_def Let_def split: prod.split)

lemma worker_peaks: "worker_ran w out \<Longrightarrow> peak_list_ok (wo_PeakByStream out)"
  using ran_peaks by (cases w) auto

lemma worker_series:
  assumes "worker_ran w out"
  shows "wo_TimeSeries out \<noteq> [] \<and> pp_Ops (last (wo_TimeSeries out)) = opCount (fst (snd w))"
proof -
  obtain cf bs s rn where w: "w = (cf, bs, s, rn)" by (cases w)
  obtain sts cs se d u y host lims where r: "reachable cf bs s rn" "finished rn" "\<not> rn_cancelled rn"
    and sts: "mset sts = mset (rn_streams rn)" "length cs = length sts"
    and out: "out = (workerOutput (cf_hist cf) bs rn
        (map2 (\<lambda>st c. \<lparr>sr_sid = sm_sid st, sr_rec = sm_rec st, sr_completionNS = c\<rparr>) sts cs) se d u y)
          \<lparr>wo_Hostname := host, wo_EngineLimitations := lims\<rparr>"
    using assms by (auto simp: worker_ran_def w)
  have inv: "run_inv cf bs rn" by (rule reachable_inv [OF r(1)])
  have eq: "map (\<lambda>st. int (sm_next st)) (rn_streams rn) = map (\<lambda>st. int (length (sm_log st))) (rn_streams rn)"
    using finished_all_done [OF inv r(2,3)] by (intro map_cong refl) (metis length_map)
  have "rn_opsDone rn = sum_list (map (\<lambda>st. int (sm_next st)) (rn_streams rn))"
    using inv by (simp add: run_inv_def totals_inv_def)
  then have "rn_opsDone rn = opCount bs" unfolding eq finished_ops [OF inv r(2,3)] .
  then show ?thesis using finishSeries_last by (simp add: out workerOutput_def Let_def w)
qed

lemma report_totals:
  assumes "hdr_laws L" "all_ran L ws outs" "workOps ws < 2 ^ 63"
  shows "re_OpsCompleted (buildResults L Q st outs opts hdr skew) = workOps ws
    \<and> re_Errors (buildResults L Q st outs opts hdr skew) = workFailures ws
    \<and> re_BytesMoved (buildResults L Q st outs opts hdr skew) = i64 (workBytes ws)
    \<and> cs_OpsSkipped (fr_Coverage (re_Fidelity (buildResults L Q st outs opts hdr skew))) = 0
    \<and> fidelityCategory (fr_LowFidelity (re_Fidelity (buildResults L Q st outs opts hdr skew))) \<noteq> ''coverage_gap''
    \<and> cc_Violations (fr_ConcurrencyCheck (re_Fidelity (buildResults L Q st outs opts hdr skew))) = []"
proof -
  let ?merged = "foldl (merge L) newRecorder (map wo_Recorder outs)"
  let ?peaks = "foldl mergePeaks [] (map wo_PeakByStream outs)"
  note ac = accountsD [OF merged_accounts(1) [OF assms(1,2)]] and act = merged_accounts(2) [OF assms(1,2)]
  have i: "i64 (workOps ws) = workOps ws" using assms(3) workOps_nonneg [of ws] by (intro i64_nonneg_bounded)
  have "peak_list_ok (wo_PeakByStream (outs ! i))" if "i < length outs" for i
    using worker_peaks [of "ws ! i" "outs ! i"] assms(2) that by (simp add: all_ran_def list_all2_conv_all_nth)
  then have "\<forall>p \<in> set (map wo_PeakByStream outs). peak_list_ok p"
    by (auto simp: in_set_conv_nth)
  then have pk: "peaks_ok ?peaks" by (rule mergePeaks_all) simp
  let ?hdr = "hdr\<lparr>hdr_summary := (hdr_summary hdr)\<lparr>sum_num_ops := workOps ws\<rparr>\<rparr>"
  let ?f = "fidelityBuild Q ?merged ?hdr (so_Mode opts) (meanInterArrival opts hdr (workOps ws)) ?peaks"
  have f: "re_Fidelity (buildResults L Q st outs opts hdr skew) = ?f"
    by (simp add: buildResults_def Let_def i act)
  have cov: "fr_Coverage ?f = \<lparr>cs_OpsInTrace = workOps ws, cs_OpsIssued = workOps ws, cs_OpsSkipped = 0\<rparr>"
    using ac by (simp add: fidelityBuild_def Let_def i64_def)
  have "fr_LowFidelity ?f = assessFidelity ?f (meanInterArrival opts hdr (workOps ws)) (so_Mode opts)"
    by (simp add: fidelityBuild_def Let_def assessFidelity_def)
  then have cat: "fidelityCategory (fr_LowFidelity ?f) \<noteq> ''coverage_gap''"
    by (simp add: assessFidelity_def cov)
  have "cc_Violations (fr_ConcurrencyCheck ?f) = filter (\<lambda>s. countAt ?peaks s > 1) (sort (map fst ?peaks))"
    using checkStreams_spec [of "\<lparr>cc_MaxPerStreamInflight = 0, cc_Violations = []\<rparr>" ?peaks "sort (map fst ?peaks)"]
    by (simp add: fidelityBuild_def Let_def buildConcurrencyCheck_def)
  then have "cc_Violations (fr_ConcurrencyCheck ?f) = []"
    using pk by (auto simp: peaks_ok_def filter_empty_conv not_less)
  with ac cat show ?thesis by (simp add: f cov buildResults_fields)
qed

section \<open>Properties\<close>


definition sample_stamp :: stamp where
  "sample_stamp = \<lparr>st_GeneratedAt = [], st_Tool = \<lparr>tl_Version = [], tl_Revision = []\<rparr>,
     st_Host = \<lparr>ho_Hostname = [], ho_OS = [], ho_Arch = [], ho_CPUs = 1\<rparr>\<rparr>"

definition sample_opts :: scheduler_opts where
  "sample_opts = \<lparr>so_Mode = ''timeline'', so_SpeedupFactor = 0, so_PlanInfo = zeroPlan, so_RunEnv = zeroRunEnv\<rparr>"

definition sample_worker :: "string \<Rightarrow> int worker_output" where
  "sample_worker host = (workerOutput one_bucket sample_streams sample_run
     (map2 (\<lambda>st c. \<lparr>sr_sid = sm_sid st, sr_rec = sm_rec st, sr_completionNS = c\<rparr>)
       (rev (rn_streams sample_run)) (replicate (length (rn_streams sample_run)) 5)) noSeries 9 2 1)
     \<lparr>wo_Hostname := host, wo_EngineLimitations := []\<rparr>"

lemma sample_ran: "worker_ran (sample_config, sample_streams, memNew, sample_run) (sample_worker host)"
  unfolding worker_ran_def sample_worker_def prod.case
  using steps_reachable [OF sample_run] sample_finished
  by (intro conjI) (assumption+, intro exI conjI, rule mset_rev, simp_all add: sample_config_def)

lemma sample_all_ran:
  "all_ran one_bucket [(sample_config, sample_streams, memNew, sample_run), (sample_config, sample_streams, memNew, sample_run)]
     [sample_worker ''a'', sample_worker ''b'']"
  using sample_ran by (simp add: all_ran_def) (simp add: sample_config_def)

lemma sample_workOps: "workOps [(sample_config, sample_streams, memNew, sample_run), (sample_config, sample_streams, memNew, sample_run)] = 6"
  by (simp add: workOps_def opCount_def sample_streams_def)



lemma sample_ordered: "series_ordered (wo_TimeSeries (sample_worker host))"
  by (simp add: series_ordered_def sample_worker_def workerOutput_def Let_def finishSeries_def noSeries_def recordProgressPoint_def)


end
