(* ===== verification/Paths.thy ===== *)
theory Paths
  imports Text "HOL-Library.Sublist"
begin

text \<open>
  Paths as the parts of the program that confine file names use them: the functions of Go's
  path/filepath package on Unix, and what it means for a path to lie under a directory.
\<close>

text \<open>
  A Unix path is a byte string whose segments are separated by slashes. \<open>filepath.Clean\<close>
  drops empty and dot segments and lets a double dot cancel the segment before it; at the root
  a double dot is dropped, in a relative path it stays.
\<close>

definition isAbs :: "string \<Rightarrow> bool" where
  "isAbs p \<longleftrightarrow> (case p of c # _ \<Rightarrow> c = CHR ''/'' | [] \<Rightarrow> False)"

definition pathSegments :: "string \<Rightarrow> string list" where
  "pathSegments p = filter (\<lambda>s. s \<noteq> [] \<and> s \<noteq> ''.'') (splitOn p (CHR ''/''))"

definition cleanStep :: "bool \<Rightarrow> string \<Rightarrow> string list \<Rightarrow> string list" where
  "cleanStep rooted s acc =
     (if s = ''..'' then (case acc of [] \<Rightarrow> (if rooted then [] else [s]) | a # acc' \<Rightarrow> if a = ''..'' then s # acc else acc')
      else s # acc)"

definition cleanSegs :: "bool \<Rightarrow> string list \<Rightarrow> string list \<Rightarrow> string list" where
  "cleanSegs rooted acc ss = rev (fold (cleanStep rooted) ss acc)"

definition pathSegs :: "string \<Rightarrow> string list" where
  "pathSegs p = cleanSegs (isAbs p) [] (pathSegments p)"

fun joinSegs :: "string list \<Rightarrow> string" where
  "joinSegs [] = []"
| "joinSegs [s] = s"
| "joinSegs (s # ss) = s @ ''/'' @ joinSegs ss"

definition pathString :: "bool \<Rightarrow> string list \<Rightarrow> string" where
  "pathString rooted segs =
     (if rooted then CHR ''/'' # joinSegs segs else if segs = [] then ''.'' else joinSegs segs)"

definition pathClean :: "string \<Rightarrow> string" where
  "pathClean p = pathString (isAbs p) (pathSegs p)"

text \<open>\<open>filepath.Join\<close> of two elements, \<open>filepath.Abs\<close> with the working directory as an
  argument, \<open>filepath.IsLocal\<close> and \<open>filepath.Rel\<close>.\<close>

definition pathJoin :: "string \<Rightarrow> string \<Rightarrow> string" where
  "pathJoin a b =
     (if a = [] then (if b = [] then [] else pathClean b)
      else if b = [] then pathClean a else pathClean (a @ ''/'' @ b))"

definition pathAbs :: "string option \<Rightarrow> string \<Rightarrow> string option" where
  "pathAbs wd p = (if isAbs p then Some (pathClean p) else map_option (\<lambda>w. pathJoin w p) wd)"

definition isLocal :: "string \<Rightarrow> bool" where
  "isLocal p \<longleftrightarrow>
     \<not> isAbs p \<and> p \<noteq> [] \<and>
     (let q = (if ''.'' \<in> set (splitOn p (CHR ''/'')) \<or> ''..'' \<in> set (splitOn p (CHR ''/'')) then pathClean p else p)
      in q \<noteq> ''..'' \<and> \<not> prefix ''../'' q)"

fun relSegs :: "string list \<Rightarrow> string list \<Rightarrow> string list option" where
  "relSegs [] ts = Some ts"
| "relSegs (b # bs) [] = Some (replicate (length (b # bs)) ''..'')"
| "relSegs (b # bs) (t # ts) =
     (if b = t then relSegs bs ts else if b = ''..'' then None
      else Some (replicate (length (b # bs)) ''..'' @ t # ts))"

definition pathRel :: "string \<Rightarrow> string \<Rightarrow> string option" where
  "pathRel base targ =
     (if pathClean base = pathClean targ then Some ''.''
      else if isAbs base \<noteq> isAbs targ then None
      else map_option joinSegs (relSegs (pathSegs base) (pathSegs targ)))"

text \<open>A path lies under a directory when, cleaned, the directory's segments come first and no
  double dot follows.\<close>

definition under :: "string \<Rightarrow> string \<Rightarrow> bool" where
  "under root p \<longleftrightarrow> isAbs p = isAbs root \<and> (\<exists>rest. pathSegs p = pathSegs root @ rest \<and> ''..'' \<notin> set rest)"

section \<open>Segments of joined paths\<close>

lemma splitOn_nonempty [simp]: "splitOn s c \<noteq> []"
  by (induction s c rule: splitOn.induct) (auto split: list.splits)

lemma splitOn_append: "splitOn (a @ c # b) c = splitOn a c @ splitOn b c"
  by (induction a) (auto split: list.splits)

lemma splitOn_plain: "c \<notin> set a \<Longrightarrow> splitOn a c = [a]"
  by (induction a) auto

lemma splitOn_no_sep: "s \<in> set (splitOn p c) \<Longrightarrow> c \<notin> set s"
  by (induction p arbitrary: s) (auto split: list.splits if_splits)

definition plain_segs :: "string list \<Rightarrow> bool" where
  "plain_segs ss \<longleftrightarrow> (\<forall>s \<in> set ss. s \<noteq> [] \<and> s \<noteq> ''.'' \<and> CHR ''/'' \<notin> set s)"

lemma plain_pathSegments: "plain_segs (pathSegments p)"
  unfolding plain_segs_def pathSegments_def by (auto dest: splitOn_no_sep)

lemma plain_cleanStep: "plain_segs acc \<Longrightarrow> s \<noteq> [] \<and> s \<noteq> ''.'' \<and> CHR ''/'' \<notin> set s \<Longrightarrow> plain_segs (cleanStep r s acc)"
  by (cases acc) (auto simp: plain_segs_def cleanStep_def)

lemma plain_cleanSegs: "plain_segs acc \<Longrightarrow> plain_segs ss \<Longrightarrow> plain_segs (cleanSegs r acc ss)"
proof (induction ss arbitrary: acc)
  case Nil
  then show ?case by (simp add: cleanSegs_def plain_segs_def)
next
  case (Cons s ss)
  have s: "s \<noteq> [] \<and> s \<noteq> ''.'' \<and> CHR ''/'' \<notin> set s" and ss: "plain_segs ss"
    using Cons.prems(2) by (simp_all add: plain_segs_def)
  show ?case using Cons.IH [OF plain_cleanStep [OF Cons.prems(1) s] ss] by (simp add: cleanSegs_def)
qed

lemma plain_pathSegs: "plain_segs (pathSegs p)"
  unfolding pathSegs_def by (rule plain_cleanSegs [OF _ plain_pathSegments]) (simp add: plain_segs_def)

lemma pathSegments_append: "pathSegments (a @ ''/'' @ b) = pathSegments a @ pathSegments b"
  by (simp add: pathSegments_def splitOn_append)

lemma pathSegments_slash: "pathSegments (CHR ''/'' # b) = pathSegments b"
  using splitOn_append [of "[]" "CHR ''/''" b] by (simp add: pathSegments_def)

lemma pathSegments_joinSegs: "plain_segs ss \<Longrightarrow> pathSegments (joinSegs ss) = ss"
proof (induction ss rule: joinSegs.induct)
  case (3 s s' ss)
  then have "pathSegments s = [s]" by (simp add: pathSegments_def plain_segs_def splitOn_plain)
  with 3 show ?case by (simp only: joinSegs.simps pathSegments_append) (simp add: plain_segs_def)
qed (simp_all add: pathSegments_def plain_segs_def splitOn_plain)


lemma segs_string:
  assumes "plain_segs ss"
  shows "pathSegments (pathString r ss) = ss" "isAbs (pathString r ss) = r"
proof -
  show "pathSegments (pathString r ss) = ss"
    using pathSegments_joinSegs [OF assms]
    by (cases ss) (auto simp: pathString_def pathSegments_slash, simp add: pathSegments_def)
  have "\<not> isAbs (joinSegs ss)"
    using assms by (cases ss rule: joinSegs.cases) (auto simp: isAbs_def plain_segs_def neq_Nil_conv)
  then show "isAbs (pathString r ss) = r" by (auto simp: pathString_def isAbs_def)
qed

section \<open>Cleaning\<close>

text \<open>In a cleaned path double dots only stand at the front, and not at all if it is rooted.\<close>

definition cleaned :: "bool \<Rightarrow> string list \<Rightarrow> bool" where
  "cleaned r ss \<longleftrightarrow> (\<exists>k xs. ss = replicate k ''..'' @ xs \<and> ''..'' \<notin> set xs \<and> (r \<longrightarrow> k = 0))"

lemma cleanStep_cleaned: "cleaned r (rev acc) \<Longrightarrow> cleaned r (rev (cleanStep r s acc))"
proof -
  assume "cleaned r (rev acc)"
  then obtain k xs where a: "acc = rev xs @ replicate k ''..''" and x: "''..'' \<notin> set xs" and r: "r \<longrightarrow> k = 0"
    unfolding cleaned_def by (metis rev_append rev_replicate rev_rev_ident)
  show ?thesis
  proof (cases "s = ''..''")
    case False
    then have "rev (cleanStep r s acc) = replicate k ''..'' @ xs @ [s]" by (simp add: cleanStep_def a)
    with x r False show ?thesis unfolding cleaned_def by (intro exI [of _ k] exI [of _ "xs @ [s]"]) auto
  next
    case True
    show ?thesis
    proof (cases xs rule: rev_cases)
      case Nil
      have "rev (cleanStep r s acc) = (if r then [] else replicate (Suc k) ''..'')"
        using r True by (cases k) (auto simp: cleanStep_def a Nil replicate_append_same)
      then show ?thesis unfolding cleaned_def
        by (intro exI [of _ "if r then 0 else Suc k"] exI [of _ "[]"]) auto
    next
      case (snoc ys y)
      then have "rev (cleanStep r s acc) = replicate k ''..'' @ ys" using x True by (auto simp: cleanStep_def a)
      with x r snoc show ?thesis unfolding cleaned_def by (intro exI [of _ k] exI [of _ ys]) auto
    qed
  qed
qed

lemma cleanSegs_cleaned: "cleaned r (rev acc) \<Longrightarrow> cleaned r (cleanSegs r acc ss)"
  by (induction ss arbitrary: acc) (simp_all add: cleanSegs_def cleanStep_cleaned)

lemma pathSegs_cleaned: "cleaned (isAbs p) (pathSegs p)"
  unfolding pathSegs_def by (rule cleanSegs_cleaned) (simp add: cleaned_def)

lemma cleanSegs_plain: "''..'' \<notin> set ss \<Longrightarrow> cleanSegs r acc ss = rev acc @ ss"
  by (induction ss arbitrary: acc) (auto simp: cleanSegs_def cleanStep_def)

lemma cleanSegs_dots: "cleanSegs False [] (replicate n ''..'') = replicate n ''..''"
proof (induction n)
  case (Suc n)
  have "cleanStep False ''..'' (replicate n ''..'') = replicate (Suc n) ''..''" by (cases n) (simp_all add: cleanStep_def)
  moreover have "fold (cleanStep False) (replicate n ''..'') [] = replicate n ''..''"
    using Suc by (metis cleanSegs_def rev_replicate rev_rev_ident)
  ultimately have "fold (cleanStep False) (replicate n ''..'' @ [''..'']) [] = replicate (Suc n) ''..''" by simp
  then show ?case by (simp add: cleanSegs_def replicate_append_same)
qed (simp add: cleanSegs_def)

lemma cleanSegs_append: "cleanSegs r acc (xs @ ys) = cleanSegs r (rev (cleanSegs r acc xs)) ys"
  by (simp add: cleanSegs_def)

lemma cleanSegs_id: "cleaned r ss \<Longrightarrow> cleanSegs r [] ss = ss"
proof -
  assume "cleaned r ss"
  then obtain k xs where ss: "ss = replicate k ''..'' @ xs" and x: "''..'' \<notin> set xs" and r: "r \<longrightarrow> k = 0"
    unfolding cleaned_def by blast
  have "cleanSegs r [] (replicate k ''..'') = replicate k ''..''"
    using r cleanSegs_dots [of k] by (cases r) (simp_all add: cleanSegs_def)
  then show ?thesis unfolding ss cleanSegs_append by (simp add: cleanSegs_plain [OF x])
qed

lemma pathSegs_string: "plain_segs ss \<Longrightarrow> cleaned r ss \<Longrightarrow> pathSegs (pathString r ss) = ss"
  by (simp add: pathSegs_def segs_string cleanSegs_id)

lemma pathClean_segs [simp]: "pathSegs (pathClean p) = pathSegs p" "isAbs (pathClean p) = isAbs p"
  unfolding pathClean_def by (simp_all add: pathSegs_string plain_pathSegs pathSegs_cleaned segs_string)

lemma pathClean_idem [simp]: "pathClean (pathClean p) = pathClean p"
  unfolding pathClean_def [of "pathClean p"] pathClean_segs by (simp only: pathClean_def [of p])

text \<open>A relative path whose cleaned form does not climb out stays below whatever it is joined to.\<close>

lemma dots_stay: "''..'' \<in> set acc \<Longrightarrow> ''..'' \<in> set (cleanSegs False acc ss)"
proof (induction ss arbitrary: acc)
  case (Cons s ss)
  have "''..'' \<in> set (cleanStep False s acc)" using Cons.prems by (auto simp: cleanStep_def split: list.splits if_splits)
  from Cons.IH [OF this] show ?case by (simp add: cleanSegs_def)
qed (simp add: cleanSegs_def)

lemma cleanSegs_below:
  "''..'' \<notin> set (cleanSegs False xs ss) \<Longrightarrow> cleanSegs r (xs @ acc) ss = rev acc @ cleanSegs False xs ss"
proof (induction ss arbitrary: xs)
  case Nil
  then show ?case by (simp add: cleanSegs_def)
next
  case (Cons s ss)
  let ?xs = "cleanStep False s xs"
  have step: "cleanSegs False xs (s # ss) = cleanSegs False ?xs ss" by (simp add: cleanSegs_def)
  have no: "''..'' \<notin> set ?xs" using Cons.prems dots_stay [of ?xs ss] unfolding step by blast
  have "cleanStep r s (xs @ acc) = ?xs @ acc"
    using no by (auto simp: cleanStep_def split: list.splits if_splits)
  with Cons.IH [of ?xs] Cons.prems show ?case unfolding step by (simp add: cleanSegs_def)
qed


section \<open>Local names and relative paths\<close>

lemma isLocal_pathSegments: "isLocal p \<Longrightarrow> ''..'' \<notin> set (cleanSegs False [] (pathSegments p))"
proof -
  assume l: "isLocal p"
  have abs: "isAbs p = False" using l by (simp add: isLocal_def)
  let ?parts = "splitOn p (CHR ''/'')"
  show ?thesis
  proof (cases "''.'' \<in> set ?parts \<or> ''..'' \<in> set ?parts")
    case False
    then have "''..'' \<notin> set (pathSegments p)" by (auto simp: pathSegments_def)
    then show ?thesis by (simp add: cleanSegs_plain)
  next
    case True
    let ?ss = "pathSegs p"
    have ss: "?ss = cleanSegs False [] (pathSegments p)" by (simp add: pathSegs_def abs)
    obtain k xs where kx: "?ss = replicate k ''..'' @ xs" and x: "''..'' \<notin> set xs"
      using pathSegs_cleaned [of p] unfolding cleaned_def by blast
    have q: "pathClean p \<noteq> ''..''" "\<not> prefix ''../'' (pathClean p)"
      using l True by (simp_all add: isLocal_def Let_def)
    have "k = 0"
    proof (rule ccontr)
      assume "k \<noteq> 0"
      then obtain ys where ys: "?ss = ''..'' # ys" using kx by (cases k) auto
      have "pathClean p = joinSegs (''..'' # ys)" by (simp add: pathClean_def pathString_def abs ys)
      with q show False by (cases ys) auto
    qed
    with kx x show ?thesis by (simp add: ss)
  qed
qed

lemma pathSegs_join:
  assumes "a \<noteq> []" "b \<noteq> []"
  shows "pathSegs (pathJoin a b) = cleanSegs (isAbs a) [] (pathSegments a @ pathSegments b)" "isAbs (pathJoin a b) = isAbs a"
proof -
  have abs: "isAbs (a @ ''/'' @ b) = isAbs a" using assms(1) by (cases a) (simp_all add: isAbs_def)
  have j: "pathJoin a b = pathClean (a @ ''/'' @ b)" using assms by (simp add: pathJoin_def)
  show "pathSegs (pathJoin a b) = cleanSegs (isAbs a) [] (pathSegments a @ pathSegments b)" "isAbs (pathJoin a b) = isAbs a"
    unfolding j pathClean_segs by (simp_all only: abs pathSegs_def pathSegments_append)
qed

lemma join_local:
  assumes "root \<noteq> []" "isLocal name"
  shows "under root (pathJoin root name)"
proof -
  have n: "name \<noteq> []" using assms(2) by (simp add: isLocal_def)
  note b = isLocal_pathSegments [OF assms(2)]
  have "cleanSegs (isAbs root) [] (pathSegments root @ pathSegments name)
      = pathSegs root @ cleanSegs False [] (pathSegments name)"
    using cleanSegs_below [OF b, of "isAbs root" "rev (pathSegs root)"]
    by (simp add: cleanSegs_append pathSegs_def)
  then show ?thesis using b pathSegs_join [OF assms(1) n] unfolding under_def by auto
qed

lemma relSegs_some:
  "relSegs bs ts = Some rs \<Longrightarrow> (\<exists>rest. ts = bs @ rest \<and> rs = rest) \<or> (rs \<noteq> [] \<and> hd rs = ''..'')"
  by (induction bs ts rule: relSegs.induct) (auto split: if_splits)

lemma relSegs_plain: "relSegs bs ts = Some rs \<Longrightarrow> plain_segs ts \<Longrightarrow> plain_segs rs"
  by (induction bs ts arbitrary: rs rule: relSegs.induct) (auto simp: plain_segs_def split: if_splits)

lemma relSegs_prefix [simp]: "relSegs bs (bs @ rest) = Some rest"
  by (induction bs) auto


lemma splitOn_joinSegs: "plain_segs ss \<Longrightarrow> ss \<noteq> [] \<Longrightarrow> splitOn (joinSegs ss) (CHR ''/'') = ss"
proof (induction ss rule: joinSegs.induct)
  case (3 s s' ss)
  have s: "splitOn s (CHR ''/'') = [s]" using 3(2) by (intro splitOn_plain) (simp add: plain_segs_def)
  have p: "plain_segs (s' # ss)" using 3(2) by (simp add: plain_segs_def)
  have j: "joinSegs (s # s' # ss) = s @ CHR ''/'' # joinSegs (s' # ss)" by simp
  show ?case unfolding j splitOn_append s 3(1) [OF p list.simps(3)] by simp
qed (simp_all add: plain_segs_def splitOn_plain)

lemma joinSegs_climbs:
  assumes "plain_segs ss" "joinSegs ss = ''..'' \<or> prefix ''../'' (joinSegs ss)"
  shows "''..'' \<in> set ss"
proof -
  have ne: "ss \<noteq> []" using assms(2) by auto
  from assms(2) have "''..'' \<in> set (splitOn (joinSegs ss) (CHR ''/''))"
  proof
    assume "prefix ''../'' (joinSegs ss)"
    then obtain r where "joinSegs ss = ''..'' @ CHR ''/'' # r" by (auto elim: prefixE)
    then show ?thesis by (simp only: splitOn_append) simp
  qed simp
  then show ?thesis by (simp only: splitOn_joinSegs [OF assms(1) ne])
qed

lemma isLocal_iff: "isLocal p \<longleftrightarrow> \<not> isAbs p \<and> p \<noteq> [] \<and> ''..'' \<notin> set (pathSegs p)"
proof
  assume l: "isLocal p"
  then have "isAbs p = False" "p \<noteq> []" by (simp_all add: isLocal_def)
  with isLocal_pathSegments [OF l] show "\<not> isAbs p \<and> p \<noteq> [] \<and> ''..'' \<notin> set (pathSegs p)" by (simp add: pathSegs_def)
next
  assume r: "\<not> isAbs p \<and> p \<noteq> [] \<and> ''..'' \<notin> set (pathSegs p)"
  let ?parts = "splitOn p (CHR ''/'')"
  show "isLocal p"
  proof (cases "''.'' \<in> set ?parts \<or> ''..'' \<in> set ?parts")
    case True
    have "pathClean p \<noteq> ''..'' \<and> \<not> prefix ''../'' (pathClean p)"
      using joinSegs_climbs [OF plain_pathSegs, of p] r by (auto simp: pathClean_def pathString_def)
    with True r show ?thesis by (simp add: isLocal_def Let_def)
  next
    case False
    have "p \<noteq> ''..''" using False by auto
    moreover have "\<not> prefix ''../'' p"
    proof
      assume "prefix ''../'' p"
      then obtain q where "p = ''..'' @ CHR ''/'' # q" by (auto elim: prefixE)
      then have "?parts = splitOn ''..'' (CHR ''/'') @ splitOn q (CHR ''/'')" by (simp only: splitOn_append)
      with False show False by simp
    qed
    ultimately show ?thesis using False r by (simp add: isLocal_def Let_def)
  qed
qed

lemma pathClean_fixed: "pathClean p = p \<Longrightarrow> p = pathString (isAbs p) (pathSegs p)"
  by (simp add: pathClean_def)

lemma pathJoin_clean: "a \<noteq> [] \<Longrightarrow> pathClean (pathJoin a b) = pathJoin a b"
  by (simp add: pathJoin_def)

lemma pathAbs_clean:
  assumes "pathAbs wd p = Some q" "\<And>w. wd = Some w \<Longrightarrow> isAbs w"
  shows "isAbs q" "pathClean q = q"
proof -
  have "isAbs (pathJoin w p)" if "wd = Some w" for w
  proof -
    have w: "isAbs w" "w \<noteq> []" using assms(2) [OF that] by (auto simp: isAbs_def)
    then show ?thesis using pathSegs_join(2) [of w p] by (cases "p = []") (simp_all add: pathJoin_def)
  qed
  moreover have "w \<noteq> []" if "wd = Some w" for w using assms(2) [OF that] by (auto simp: isAbs_def)
  ultimately show "isAbs q" "pathClean q = q"
    using assms(1) by (auto simp: pathAbs_def pathJoin_clean split: if_splits)
qed

end
