(* ===== verification/Prepare.thy ===== *)
theory Prepare
  imports Executor Dispatch Paths
begin

text \<open>
  Dataset preparation, \<open>pkg/prepare/prepare.go\<close>, with \<open>Materialize\<close> of \<open>pkg/replay/executor.go\<close>:
  verifying existing targets, writing synthetic ones and copying from a source tree, against
  any engine. The lemmas of \<open>synced_backend\<close> say what a backend that keeps its contract holds
  afterwards; the in-memory engine is one.
\<close>

unbundle bit_operations_syntax

section \<open>Contexts\<close>

text \<open>
  A context is asked for its error between the steps of a preparation. It is the number of
  checks that still find it live; \<open>None\<close> is a context that is never cancelled.
\<close>

type_synonym ctx = "nat option"

fun ctxErr :: "ctx \<Rightarrow> ctx \<times> bool" where
  "ctxErr None = (None, False)"
| "ctxErr (Some 0) = (Some 0, True)"
| "ctxErr (Some (Suc n)) = (Some n, False)"

section \<open>Statistics, errors and metadata\<close>

record prep_stats =
  pt_Verified :: int
  pt_Created :: int
  pt_Copied :: int
  pt_SkippedSizeUnknown :: int
  pt_DerivedSizeFromOps :: int
  pt_TouchedSameData :: bool

definition noStats :: prep_stats where
  "noStats = \<lparr>pt_Verified = 0, pt_Created = 0, pt_Copied = 0, pt_SkippedSizeUnknown = 0,
     pt_DerivedSizeFromOps = 0, pt_TouchedSameData = False\<rparr>"

datatype copy_err =
    CPCancelled
  | CPOpen engine_error
  | CPWrite int engine_error
  | CPFsync engine_error
  | CPClose engine_error
  | CPPut engine_error
  | CPOpenSource string
  | CPStatSource string
  | CPReadSource string

datatype prep_err =
    PRUnknownMode string
  | PRNeedsSourceRoot
  | PRCancelled
  | PRTarget string engine_error
  | PRSizeMismatch string int int
  | PRSizeUnknown string
  | PRCopy string copy_err
  | PRTargetCount int int
  | PRUnsafePath string string

definition metadataFromOps :: "op list \<Rightarrow> fill_config \<Rightarrow> prep_metadata" where
  "metadataFromOps ops cfg =
     \<lparr>pm_Extents = fst (fold (\<lambda>x (ext, h2t).
         if op_op x = OpOpen \<and> op_h x \<noteq> None \<and> op_tgt x \<noteq> None
         then (ext, AList.update (the (op_h x)) (the (op_tgt x)) h2t)
         else if (op_op x \<noteq> OpRead \<and> op_op x \<noteq> OpWrite) \<or> op_off x = None \<or> op_len x = None \<or> op_h x = None
         then (ext, h2t)
         else (case map_of h2t (the (op_h x)) of
                 None \<Rightarrow> (ext, h2t)
               | Some idx \<Rightarrow> (raiseExtent idx (i64 (the (op_off x) + expectedBytes x)) ext, h2t)))
       ops ([], [])),
      pm_Fill = normalizeFill cfg\<rparr>"

section \<open>Verifying what exists\<close>

fun assumeExisting :: "('s, 'z) engine_scheme \<Rightarrow> ctx \<Rightarrow> target_info list \<Rightarrow> prep_stats \<Rightarrow> 's \<Rightarrow> ('s \<times> ctx \<times> (prep_err + prep_stats)) option" where
  "assumeExisting eng cx [] stats s = Some (s, cx, Inr stats)"
| "assumeExisting eng cx (t # ts) stats s =
     (case ctxErr cx of
        (cx1, True) \<Rightarrow> Some (s, cx1, Inl PRCancelled)
      | (cx1, False) \<Rightarrow>
          (case (if cap_ObjectAPI (eng_caps eng) then eng_head eng (ti_name t) s else eng_stat eng (ti_name t) s) of
             None \<Rightarrow> None
           | Some (s1, Inl e) \<Rightarrow> Some (s1, cx1, Inl (PRTarget (ti_name t) e))
           | Some (s1, Inr info) \<Rightarrow>
               if ti_size t = 0
               then assumeExisting eng cx1 ts (stats\<lparr>pt_SkippedSizeUnknown := pt_SkippedSizeUnknown stats + 1\<rparr>) s1
               else if oi_Size info \<noteq> ti_size t
               then Some (s1, cx1, Inl (PRSizeMismatch (ti_name t) (oi_Size info) (ti_size t)))
               else assumeExisting eng cx1 ts (stats\<lparr>pt_Verified := pt_Verified stats + 1\<rparr>) s1))"

section \<open>Writing synthetic contents\<close>

definition prepareChunkSize :: int where "prepareChunkSize = 2 ^ 20"

definition computeRequiredSizes :: "target_info list \<Rightarrow> prep_metadata \<Rightarrow> (string \<times> int) list" where
  "computeRequiredSizes targets meta =
     fold (\<lambda>t sizes.
       if ti_size t > 0 then AList.update (ti_name t) (ti_size t) sizes
       else let sz = extentOf (pm_Extents meta) (ti_id t)
            in if sz > 0 then AList.update (ti_name t) sz sizes else sizes)
     targets []"

text \<open>A count the engine could not have wr, or a short one it did not explain.\<close>

definition validateWriteCount :: "int \<Rightarrow> int \<Rightarrow> engine_error option \<Rightarrow> engine_error option" where
  "validateWriteCount wr requested writeErr =
     (if wr < 0 \<or> wr > requested
      then Some (Errorf ''engine returned invalid write count %d for %d requested bytes'' [wr, requested])
      else if wr \<noteq> requested \<and> writeErr = None
      then Some (Wrap ''completed %d of %d requested bytes'' [wr, requested] ErrShortWrite)
      else writeErr)"

lemma validateWriteCount_ok: "validateWriteCount wr requested e = None \<longleftrightarrow> wr = requested \<and> e = None \<and> 0 \<le> requested"
  by (auto simp: validateWriteCount_def split: if_splits)

text \<open>
  The payload of \<open>n\<close> bytes at an offset. \<open>Fill\<close> overwrites the whole slice, so what the reused
  buffer held before is not threaded through.
\<close>

definition fillChunk :: "fill_config \<Rightarrow> string \<Rightarrow> int \<Rightarrow> int \<Rightarrow> byte list" where
  "fillChunk cfg name off n = fill (replicate (nat n) 0) cfg 0 (stringBytes name) (of_int off)"

definition closeWith :: "('s, 'z) engine_scheme \<Rightarrow> handle \<Rightarrow> copy_err \<Rightarrow> ctx \<Rightarrow> 's \<Rightarrow> ('s \<times> ctx \<times> copy_err option) option" where
  "closeWith eng h e cx s = (case eng_close eng h s of None \<Rightarrow> None | Some (s', _) \<Rightarrow> Some (s', cx, Some e))"

text \<open>The end of both copy loops: flush where that means something, then close.\<close>

definition syncClose :: "('s, 'z) engine_scheme \<Rightarrow> handle \<Rightarrow> ctx \<Rightarrow> 's \<Rightarrow> ('s \<times> ctx \<times> copy_err option) option" where
  "syncClose eng h cx s =
     (case (if cap_Durable (eng_caps eng) then eng_fsync eng h s else Some (s, None)) of
        None \<Rightarrow> None
      | Some (s1, Some e) \<Rightarrow> closeWith eng h (CPFsync e) cx s1
      | Some (s1, None) \<Rightarrow>
          (case eng_close eng h s1 of None \<Rightarrow> None | Some (s2, e) \<Rightarrow> Some (s2, cx, map_option CPClose e)))"

function writeChunks :: "('s, 'z) engine_scheme \<Rightarrow> handle \<Rightarrow> string \<Rightarrow> int \<Rightarrow> fill_config \<Rightarrow> int \<Rightarrow> ctx \<Rightarrow> 's \<Rightarrow> ('s \<times> ctx \<times> copy_err option) option" where
  "writeChunks eng h name sz cfg off cx s =
     (if \<not> off < sz then syncClose eng h cx s
      else (case ctxErr cx of
        (cx1, True) \<Rightarrow> closeWith eng h CPCancelled cx1 s
      | (cx1, False) \<Rightarrow>
          let n = (if sz - off < prepareChunkSize then sz - off else prepareChunkSize) in
          (case eng_write eng h off (fillChunk cfg name off n) s of
             None \<Rightarrow> None
           | Some (s1, wr, e) \<Rightarrow>
               (case validateWriteCount wr n e of
                  Some e' \<Rightarrow> closeWith eng h (CPWrite off e') cx1 s1
                | None \<Rightarrow> writeChunks eng h name sz cfg (off + wr) cx1 s1))))"
  by pat_completeness auto

termination
  by (relation "measure (\<lambda>(eng, h, name, sz, cfg, off, cx, s). nat (sz - off))")
     (auto simp: validateWriteCount_ok prepareChunkSize_def split: if_splits)

declare writeChunks.simps [simp del]

definition writePOSIX :: "('s, 'z) engine_scheme \<Rightarrow> string \<Rightarrow> int \<Rightarrow> fill_config \<Rightarrow> ctx \<Rightarrow> 's \<Rightarrow> ('s \<times> ctx \<times> copy_err option) option" where
  "writePOSIX eng name sz cfg cx s =
     (case eng_open eng name ModeWrite (OpenFlagCreate OR OpenFlagTrunc) s of
        None \<Rightarrow> None
      | Some (s1, Inl e) \<Rightarrow> Some (s1, cx, Some (CPOpen e))
      | Some (s1, Inr h) \<Rightarrow> writeChunks eng h name sz cfg 0 cx s1)"

text \<open>The seekable source that a \<open>Put\<close> reads.\<close>

record fill_reader =
  fz_name :: string
  fz_off :: int
  fz_size :: int
  fz_fill :: fill_config

text \<open>One read into a buffer of the given length: the reader, the bytes, whether it was at the end.\<close>

definition zrRead :: "int \<Rightarrow> fill_reader \<Rightarrow> fill_reader \<times> byte list \<times> bool" where
  "zrRead len z =
     (if fz_off z \<ge> fz_size z then (z, [], True)
      else let n = (if fz_size z - fz_off z < len then fz_size z - fz_off z else len)
           in (z\<lparr>fz_off := fz_off z + n\<rparr>, fillChunk (fz_fill z) (fz_name z) (fz_off z) n, False))"

datatype whence = SeekStart | SeekCurrent | SeekEnd

definition zrSeek :: "int \<Rightarrow> whence \<Rightarrow> fill_reader \<Rightarrow> fill_reader \<times> int option" where
  "zrSeek offset w z =
     (let z1 = z\<lparr>fz_off := (case w of SeekStart \<Rightarrow> offset | SeekCurrent \<Rightarrow> i64 (fz_off z + offset) | SeekEnd \<Rightarrow> i64 (fz_size z + offset))\<rparr>
      in if fz_off z1 < 0 then (z1, None) else (z1, Some (fz_off z1)))"

text \<open>What a consumer gets that reads to the end through a buffer of the given length.\<close>

function zrAll :: "int \<Rightarrow> fill_reader \<Rightarrow> byte list" where
  "zrAll len z =
     (if len \<le> 0 then [] else (case zrRead len z of (z', bs, eof) \<Rightarrow> if eof then [] else bs @ zrAll len z'))"
  by pat_completeness auto

termination
  by (relation "measure (\<lambda>(len, z). nat (fz_size z - fz_off z))") (auto simp: zrRead_def Let_def split: if_splits)

declare zrAll.simps [simp del]

definition writeTarget :: "('s, 'z) engine_scheme \<Rightarrow> string \<Rightarrow> int \<Rightarrow> fill_config \<Rightarrow> ctx \<Rightarrow> 's \<Rightarrow> ('s \<times> ctx \<times> copy_err option) option" where
  "writeTarget eng name sz cfg cx s =
     (if cap_ObjectAPI (eng_caps eng)
      then (case eng_put eng name (zrAll prepareChunkSize \<lparr>fz_name = name, fz_off = 0, fz_size = sz, fz_fill = normalizeFill cfg\<rparr>) sz s of
              None \<Rightarrow> None | Some (s1, e) \<Rightarrow> Some (s1, cx, map_option CPPut e))
      else writePOSIX eng name sz (normalizeFill cfg) cx s)"

fun synthLoop :: "('s, 'z) engine_scheme \<Rightarrow> prep_metadata \<Rightarrow> (string \<times> int) list \<Rightarrow> ctx \<Rightarrow> target_info list \<Rightarrow> prep_stats \<Rightarrow> 's \<Rightarrow> ('s \<times> ctx \<times> (prep_err + prep_stats)) option" where
  "synthLoop eng meta sizes cx [] stats s = Some (s, cx, Inr (stats\<lparr>pt_TouchedSameData := True\<rparr>))"
| "synthLoop eng meta sizes cx (t # ts) stats s =
     (case ctxErr cx of
        (cx1, True) \<Rightarrow> Some (s, cx1, Inl PRCancelled)
      | (cx1, False) \<Rightarrow>
          (let sz = (case map_of sizes (ti_name t) of None \<Rightarrow> 0 | Some n \<Rightarrow> n) in
           if sz = 0 then Some (s, cx1, Inl (PRSizeUnknown (ti_name t)))
           else (case writeTarget eng (ti_name t) sz (pm_Fill meta) cx1 s of
                   None \<Rightarrow> None
                 | Some (s1, cx2, Some e) \<Rightarrow> Some (s1, cx2, Inl (PRCopy (ti_name t) e))
                 | Some (s1, cx2, None) \<Rightarrow>
                     synthLoop eng meta sizes cx2 ts
                       (stats\<lparr>pt_Created := pt_Created stats + 1,
                          pt_DerivedSizeFromOps := pt_DerivedSizeFromOps stats
                            + (if ti_size t = 0 \<and> extentOf (pm_Extents meta) (ti_id t) > 0 then 1 else 0)\<rparr>) s1)))"

definition materializeSynthetic :: "('s, 'z) engine_scheme \<Rightarrow> ctx \<Rightarrow> target_info list \<Rightarrow> prep_metadata \<Rightarrow> 's \<Rightarrow> ('s \<times> ctx \<times> (prep_err + prep_stats)) option" where
  "materializeSynthetic eng cx targets meta s =
     (let meta1 = meta\<lparr>pm_Fill := normalizeFill (pm_Fill meta)\<rparr>
      in synthLoop eng meta1 (computeRequiredSizes targets meta1) cx targets noStats s)"

section \<open>Copying from a source tree\<close>

text \<open>
  An open source file: what \<open>Stat\<close> says its size is, what its successive reads deliver, and
  whether the read after them fails instead of reporting the end.
\<close>

record source_file =
  so_size :: "int option"
  so_reads :: "byte list list"
  so_fails :: bool

definition resolveSourcePath :: "string \<Rightarrow> string \<Rightarrow> prep_err + string" where
  "resolveSourcePath root name = (if \<not> isLocal name then Inl (PRUnsafePath name root) else Inr (pathJoin root name))"

fun copyChunks :: "('s, 'z) engine_scheme \<Rightarrow> handle \<Rightarrow> int \<Rightarrow> byte list list \<Rightarrow> copy_err option \<Rightarrow> ctx \<Rightarrow> 's \<Rightarrow> ('s \<times> ctx \<times> copy_err option) option" where
  "copyChunks eng h off [] readErr cx s =
     (case ctxErr cx of
        (cx1, True) \<Rightarrow> closeWith eng h CPCancelled cx1 s
      | (cx1, False) \<Rightarrow> (case readErr of Some e \<Rightarrow> closeWith eng h e cx1 s | None \<Rightarrow> syncClose eng h cx1 s))"
| "copyChunks eng h off (c # cs) readErr cx s =
     (case ctxErr cx of
        (cx1, True) \<Rightarrow> closeWith eng h CPCancelled cx1 s
      | (cx1, False) \<Rightarrow>
          if c = [] then copyChunks eng h off cs readErr cx1 s
          else (case eng_write eng h off c s of
                  None \<Rightarrow> None
                | Some (s1, wr, e) \<Rightarrow>
                    (case validateWriteCount wr (int (length c)) e of
                       Some e' \<Rightarrow> closeWith eng h (CPWrite off e') cx1 s1
                     | None \<Rightarrow> copyChunks eng h (off + wr) cs readErr cx1 s1)))"

definition copyTarget :: "('s, 'z) engine_scheme \<Rightarrow> (string \<Rightarrow> source_file option) \<Rightarrow> string \<Rightarrow> string \<Rightarrow> ctx \<Rightarrow> 's \<Rightarrow> ('s \<times> ctx \<times> copy_err option) option" where
  "copyTarget eng src name srcPath cx s =
     (case src srcPath of
        None \<Rightarrow> Some (s, cx, Some (CPOpenSource srcPath))
      | Some f \<Rightarrow>
          if cap_ObjectAPI (eng_caps eng)
          then (case so_size f of
                  None \<Rightarrow> Some (s, cx, Some (CPStatSource srcPath))
                | Some n \<Rightarrow> (case eng_put eng name (take (nat n) (concat (so_reads f))) n s of
                               None \<Rightarrow> None | Some (s1, e) \<Rightarrow> Some (s1, cx, map_option CPPut e)))
          else (case eng_open eng name ModeWrite (OpenFlagCreate OR OpenFlagTrunc) s of
                  None \<Rightarrow> None
                | Some (s1, Inl e) \<Rightarrow> Some (s1, cx, Some (CPOpen e))
                | Some (s1, Inr h) \<Rightarrow>
                    copyChunks eng h 0 (so_reads f) (if so_fails f then Some (CPReadSource srcPath) else None) cx s1))"

fun sourceLoop :: "('s, 'z) engine_scheme \<Rightarrow> (string \<Rightarrow> source_file option) \<Rightarrow> string \<Rightarrow> ctx \<Rightarrow> (target_info \<times> target_info) list \<Rightarrow> prep_stats \<Rightarrow> 's \<Rightarrow> ('s \<times> ctx \<times> (prep_err + prep_stats)) option" where
  "sourceLoop eng src root cx [] stats s = Some (s, cx, Inr (stats\<lparr>pt_TouchedSameData := True\<rparr>))"
| "sourceLoop eng src root cx ((t, t0) # ts) stats s =
     (case ctxErr cx of
        (cx1, True) \<Rightarrow> Some (s, cx1, Inl PRCancelled)
      | (cx1, False) \<Rightarrow>
          (case resolveSourcePath root (ti_name t0) of
             Inl e \<Rightarrow> Some (s, cx1, Inl e)
           | Inr srcPath \<Rightarrow>
               (case copyTarget eng src (ti_name t) srcPath cx1 s of
                  None \<Rightarrow> None
                | Some (s1, cx2, Some e) \<Rightarrow> Some (s1, cx2, Inl (PRCopy (ti_name t) e))
                | Some (s1, cx2, None) \<Rightarrow> sourceLoop eng src root cx2 ts (stats\<lparr>pt_Copied := pt_Copied stats + 1\<rparr>) s1)))"

definition materializeFromSource :: "('s, 'z) engine_scheme \<Rightarrow> (string \<Rightarrow> source_file option) \<Rightarrow> string \<Rightarrow> ctx \<Rightarrow> target_info list \<Rightarrow> target_info list \<Rightarrow> 's \<Rightarrow> ('s \<times> ctx \<times> (prep_err + prep_stats)) option" where
  "materializeFromSource eng src root cx targets originalTargets s =
     (let originals = (if originalTargets = [] then targets else originalTargets)
      in if length originals \<noteq> length targets
         then Some (s, cx, Inl (PRTargetCount (int (length originals)) (int (length targets))))
         else sourceLoop eng src root cx (zip targets originals) noStats s)"

section \<open>The mode and the executor's use of it\<close>

datatype preparer = AssumeExisting | MaterializeSynthetic | MaterializeFromSource string

definition prepareFor :: "string \<Rightarrow> string \<Rightarrow> prep_err + preparer" where
  "prepareFor m sourceRoot =
     (if m = ''assume-existing'' then Inr AssumeExisting
      else if m = ''materialize-synthetic'' then Inr MaterializeSynthetic
      else if m = ''materialize-from-source''
      then (if sourceRoot = [] then Inl PRNeedsSourceRoot else Inr (MaterializeFromSource sourceRoot))
      else Inl (PRUnknownMode m))"

record mat_state =
  mt_prepStats :: prep_stats
  mt_materialized :: bool

text \<open>\<open>Materialize\<close>: nothing after the first success, nothing without a mode; a failed
  preparation leaves the executor as it was.\<close>

definition materialize :: "('s, 'z) engine_scheme \<Rightarrow> (string \<Rightarrow> source_file option) \<Rightarrow> executor \<Rightarrow> mat_state \<Rightarrow> ctx \<Rightarrow> 's \<Rightarrow> ('s \<times> ctx \<times> mat_state \<times> (prep_err + prep_stats)) option" where
  "materialize eng src ex mt cx s =
     (if mt_materialized mt then Some (s, cx, mt, Inr (mt_prepStats mt))
      else if pl_PrepareMode (ex_plan ex) = [] then Some (s, cx, mt\<lparr>mt_materialized := True\<rparr>, Inr (mt_prepStats mt))
      else (case prepareFor (pl_PrepareMode (ex_plan ex)) (pl_SourceRoot (ex_plan ex)) of
              Inl e \<Rightarrow> Some (s, cx, mt, Inl e)
            | Inr p \<Rightarrow>
                (case (case p of
                         AssumeExisting \<Rightarrow> assumeExisting eng cx (hdr_targets (ex_hdr ex)) noStats s
                       | MaterializeSynthetic \<Rightarrow> materializeSynthetic eng cx (hdr_targets (ex_hdr ex)) (ex_prepMeta ex) s
                       | MaterializeFromSource root \<Rightarrow>
                           materializeFromSource eng src root cx (hdr_targets (ex_hdr ex)) (ex_originalTargets ex) s) of
                   None \<Rightarrow> None
                 | Some (s1, cx1, Inl e) \<Rightarrow> Some (s1, cx1, mt, Inl e)
                 | Some (s1, cx1, Inr stats) \<Rightarrow>
                     Some (s1, cx1, \<lparr>mt_prepStats = stats, mt_materialized = True\<rparr>, Inr stats))))"

section \<open>Payload chunks\<close>

lemma length_fillChunk [simp]: "length (fillChunk cfg name off n) = nat n"
  by (simp add: fillChunk_def)

lemma fillChunk_append:
  assumes "0 \<le> a" "0 \<le> b"
  shows "fillChunk cfg name off (a + b) = fillChunk cfg name off a @ fillChunk cfg name (off + a) b"
proof -
  have z: "replicate (nat (a + b)) (0 :: byte) = replicate (nat a) 0 @ replicate (nat b) 0"
    using assms by (simp add: nat_add_distrib replicate_add)
  have o: "(of_int off :: u64) + of_nat (nat a) = of_int (off + a)" using assms(1) by simp
  show ?thesis unfolding fillChunk_def z fill_chunks by (simp only: length_replicate o)
qed

lemma fillChunk_zero [simp]: "fillChunk cfg name off 0 = []"
  by (simp add: length_0_conv [symmetric] del: length_0_conv)

lemma zrAll_bytes:
  "0 < len \<Longrightarrow> zrAll len z = fillChunk (fz_fill z) (fz_name z) (fz_off z) (max 0 (fz_size z - fz_off z))"
proof (induction len z rule: zrAll.induct)
  case (1 len z)
  show ?case
  proof (cases "fz_off z \<ge> fz_size z")
    case True
    then show ?thesis using 1(2) by (subst zrAll.simps) (simp add: zrRead_def)
  next
    case False
    define n where "n = (if fz_size z - fz_off z < len then fz_size z - fz_off z else len)"
    let ?z = "z\<lparr>fz_off := fz_off z + n\<rparr>"
    have r: "zrRead len z = (?z, fillChunk (fz_fill z) (fz_name z) (fz_off z) n, False)"
      using False by (simp add: zrRead_def n_def Let_def)
    have n: "0 \<le> n" "n \<le> fz_size z - fz_off z" using 1(2) False by (simp_all add: n_def)
    have "zrAll len z = fillChunk (fz_fill z) (fz_name z) (fz_off z) n @ zrAll len ?z"
      using 1(2) by (subst zrAll.simps) (simp add: r)
    also have "zrAll len ?z = fillChunk (fz_fill z) (fz_name z) (fz_off z + n) (fz_size z - (fz_off z + n))"
      using 1(1) [OF _ r [symmetric] refl, simplified] 1(2) n by simp
    finally show ?thesis using n fillChunk_append [of n "fz_size z - (fz_off z + n)"] False by simp
  qed
qed

lemma file_write_append:
  assumes "0 \<le> off"
  shows "file_write (file_write d off a) (off + int (length a)) b = file_write d off (a @ b)"
proof (rule nth_equalityI)
  have n: "nat (off + int (length a)) = nat off + length a" using assms by simp
  show "length (file_write (file_write d off a) (off + int (length a)) b) = length (file_write d off (a @ b))"
    by (simp add: n)
  fix i assume i: "i < length (file_write (file_write d off a) (off + int (length a)) b)"
  then have i2: "i < length (file_write d off (a @ b))" by (simp add: n)
  show "file_write (file_write d off a) (off + int (length a)) b ! i = file_write d off (a @ b) ! i"
    unfolding nth_file_write [OF i] nth_file_write [OF i2] n
    by (auto simp: nth_file_write nth_append)
qed

lemma file_write_nothing: "0 \<le> off \<Longrightarrow> nat off \<le> length d \<Longrightarrow> file_write d off [] = d"
  by (simp add: file_write_padded padded_def)

section \<open>Preparation against a backend that keeps its contract\<close>

locale synced_backend = file_backend +
  assumes sync_ok: "cap_Durable (eng_caps eng) \<Longrightarrow> inv s \<Longrightarrow> opened s h = Some t \<Longrightarrow>
      \<exists>s'. eng_fsync eng h s = Some (s', None) \<and> inv s' \<and> room s' = room s
        \<and> contents s' = contents s \<and> opened s' = opened s"
begin

lemma syncClose_ok:
  assumes "inv s" "opened s h = Some t"
  obtains s' where "syncClose eng h cx s = Some (s', cx, None)" "inv s'" "room s' = room s"
    "contents s' = contents s" "opened s' = (opened s)(h := None)"
proof -
  obtain s1 where s1: "(if cap_Durable (eng_caps eng) then eng_fsync eng h s else Some (s, None)) = Some (s1, None)"
    "inv s1" "room s1 = room s" "contents s1 = contents s" "opened s1 = opened s"
    using sync_ok [OF _ assms] assms(1) by (cases "cap_Durable (eng_caps eng)") auto
  obtain s2 where s2: "eng_close eng h s1 = Some (s2, None)" "inv s2" "room s2 = room s1"
    "contents s2 = contents s1" "opened s2 = (opened s1)(h := None)"
    using close_ok [OF s1(2), of h t] assms(2) s1(5) by auto
  show thesis by (rule that [of s2]) (use s1 s2 in \<open>simp_all add: syncClose_def\<close>)
qed

lemma writeChunks_ok:
  assumes "inv s" "opened s h = Some t" "0 \<le> off" "off \<le> sz" "sz < 2 ^ 63" "nat off \<le> length (contents s t)"
  shows "\<exists>s'. writeChunks eng h t sz cfg off None s = Some (s', None, None) \<and> inv s' \<and> room s' = room s
     \<and> opened s' = (opened s)(h := None)
     \<and> contents s' = (contents s)(t := file_write (contents s t) off (fillChunk cfg t off (sz - off)))"
  using assms
proof (induction "nat (sz - off)" arbitrary: off s rule: less_induct)
  case less
  show ?case
  proof (cases "off < sz")
    case False
    with less.prems have "off = sz" by simp
    moreover obtain s' where "syncClose eng h None s = Some (s', None, None)" "inv s'" "room s' = room s"
      "contents s' = contents s" "opened s' = (opened s)(h := None)"
      using syncClose_ok [OF less.prems(1,2), of None] by blast
    ultimately show ?thesis using less.prems(3,6)
      by (subst writeChunks.simps) (simp add: file_write_nothing)
  next
    case True
    define n where "n = (if sz - off < prepareChunkSize then sz - off else prepareChunkSize)"
    have n: "0 < n" "n \<le> sz - off" using True by (auto simp: n_def prepareChunkSize_def)
    let ?bs = "fillChunk cfg t off n"
    have fits: "off + int (length ?bs) < 2 ^ 63" using n less.prems(5) by simp
    obtain s1 where s1: "eng_write eng h off ?bs s = Some (s1, int (length ?bs), None)" "inv s1" "room s1 = room s"
      "opened s1 = opened s" "contents s1 = (contents s)(t := file_write (contents s t) off ?bs)"
      using write_ok [OF less.prems(1-3) fits] by blast
    have len: "int (length ?bs) = n" using n by simp
    have step: "writeChunks eng h t sz cfg off None s = writeChunks eng h t sz cfg (off + n) None s1"
      by (subst writeChunks.simps, unfold n_def [symmetric] Let_def)
         (use True s1(1) n in \<open>simp add: n_def [symmetric] validateWriteCount_ok [THEN iffD2]\<close>)
    have o1: "opened s1 h = Some t" using s1(4) less.prems(2) by simp
    have l1: "nat (off + n) \<le> length (contents s1 t)" using s1(5) n less.prems(3) by simp
    have dec: "nat (sz - (off + n)) < nat (sz - off)" using n by simp
    have o2: "0 \<le> off + n" "off + n \<le> sz" using n less.prems(3) by simp_all
    from less.hyps [OF dec s1(2) o1 o2 less.prems(5) l1]
    obtain s' where s': "writeChunks eng h t sz cfg (off + n) None s1 = Some (s', None, None)" "inv s'" "room s' = room s1"
      "opened s' = (opened s1)(h := None)"
      "contents s' = (contents s1)(t := file_write (contents s1 t) (off + n) (fillChunk cfg t (off + n) (sz - (off + n))))"
      by blast
    have "file_write (file_write (contents s t) off ?bs) (off + n) (fillChunk cfg t (off + n) (sz - (off + n)))
        = file_write (contents s t) off (fillChunk cfg t off (sz - off))"
      using file_write_append [OF less.prems(3), of "contents s t" ?bs] n
        fillChunk_append [of n "sz - (off + n)" cfg t off] by (simp add: len)
    then show ?thesis using s' s1 step by (auto simp: fun_upd_def)
  qed
qed

lemma writePOSIX_ok:
  assumes "inv s" "0 < room s" "0 \<le> sz" "sz < 2 ^ 63"
  shows "\<exists>s'. writePOSIX eng t sz cfg None s = Some (s', None, None) \<and> inv s' \<and> room s' = room s - 1
     \<and> opened s' = opened s \<and> contents s' = (contents s)(t := file_write (contents s t) 0 (fillChunk cfg t 0 sz))"
proof -
  obtain s1 h where s1: "eng_open eng t ModeWrite (OpenFlagCreate OR OpenFlagTrunc) s = Some (s1, Inr h)" "inv s1"
    "room s1 = room s - 1" "contents s1 = contents s" "opened s h = None" "opened s1 = (opened s)(h \<mapsto> t)"
    using open_ok [OF assms(1,2)] by blast
  have h: "opened s1 h = Some t" using s1(6) by simp
  obtain s' where "writeChunks eng h t sz cfg 0 None s1 = Some (s', None, None)" "inv s'" "room s' = room s1"
    "opened s' = (opened s1)(h := None)" "contents s' = (contents s1)(t := file_write (contents s1 t) 0 (fillChunk cfg t 0 (sz - 0)))"
    using writeChunks_ok [OF s1(2) h _ assms(3,4), of cfg] by auto
  then show ?thesis using s1 by (auto simp: writePOSIX_def fun_upd_idem)
qed

lemma file_write_again:
  "0 \<le> sz \<Longrightarrow> take (nat sz) d = bs \<Longrightarrow> length bs = nat sz \<Longrightarrow> file_write d 0 bs = d"
  by (rule nth_equalityI) (auto simp: nth_file_write)

text \<open>Every listed target holds its synthetic contents afterwards, and no other target changed.\<close>

lemma synthLoop_ok:
  assumes "\<not> cap_ObjectAPI (eng_caps eng)" "inv s" "length ts \<le> room s"
    "\<And>t. t \<in> set ts \<Longrightarrow> \<exists>n. map_of sizes (ti_name t) = Some n \<and> 0 < n \<and> n < 2 ^ 63"
  shows "\<exists>s' stats'. synthLoop eng meta sizes None ts stats s = Some (s', None, Inr stats') \<and> inv s'
     \<and> opened s' = opened s \<and> room s' = room s - length ts
     \<and> pt_Created stats' = pt_Created stats + int (length ts) \<and> pt_TouchedSameData stats'
     \<and> (\<forall>nm. contents s' nm = (if nm \<in> ti_name ` set ts
           then file_write (contents s nm) 0 (fillChunk (normalizeFill (pm_Fill meta)) nm 0 (the (map_of sizes nm)))
           else contents s nm))"
  using assms
proof (induction ts arbitrary: s stats)
  case (Cons t ts)
  let ?nm = "ti_name t"
  let ?cfg = "normalizeFill (pm_Fill meta)"
  obtain n where n: "map_of sizes ?nm = Some n" "0 < n" "n < 2 ^ 63" using Cons.prems(4) by auto
  have room: "0 < room s" using Cons.prems(3) by simp
  obtain s1 where s1: "writePOSIX eng ?nm n ?cfg None s = Some (s1, None, None)" "inv s1" "room s1 = room s - 1"
    "opened s1 = opened s" "contents s1 = (contents s)(?nm := file_write (contents s ?nm) 0 (fillChunk ?cfg ?nm 0 n))"
    using writePOSIX_ok [OF Cons.prems(2) room, of n ?nm ?cfg] n by auto
  have w: "writeTarget eng ?nm n (pm_Fill meta) None s = Some (s1, None, None)"
    using Cons.prems(1) s1(1) by (simp add: writeTarget_def)
  let ?st = "stats\<lparr>pt_Created := pt_Created stats + 1, pt_DerivedSizeFromOps := pt_DerivedSizeFromOps stats
      + (if ti_size t = 0 \<and> extentOf (pm_Extents meta) (ti_id t) > 0 then 1 else 0)\<rparr>"
  have len: "length ts \<le> room s1" using Cons.prems(3) s1(3) by simp
  have sizes: "\<And>t'. t' \<in> set ts \<Longrightarrow> \<exists>n. map_of sizes (ti_name t') = Some n \<and> 0 < n \<and> n < 2 ^ 63"
    by (rule Cons.prems(4)) simp
  from Cons.IH [OF Cons.prems(1) s1(2) len sizes, of ?st]
  obtain s' stats' where r: "synthLoop eng meta sizes None ts ?st s1 = Some (s', None, Inr stats')" "inv s'"
    "opened s' = opened s1" "room s' = room s1 - length ts"
    "pt_Created stats' = pt_Created ?st + int (length ts)" "pt_TouchedSameData stats'"
    "\<forall>nm. contents s' nm = (if nm \<in> ti_name ` set ts
        then file_write (contents s1 nm) 0 (fillChunk ?cfg nm 0 (the (map_of sizes nm))) else contents s1 nm)"
    by blast
  have twice: "file_write (file_write d 0 (fillChunk ?cfg ?nm 0 n)) 0 (fillChunk ?cfg ?nm 0 n)
      = file_write d 0 (fillChunk ?cfg ?nm 0 n)" for d
    by (rule file_write_again [of n]) (use n(2) in \<open>auto simp: file_write_padded\<close>)
  have "synthLoop eng meta sizes None (t # ts) stats s = synthLoop eng meta sizes None ts ?st s1"
    using n w by (simp add: Let_def)
  moreover have "contents s' nm = (if nm \<in> ti_name ` set (t # ts)
        then file_write (contents s nm) 0 (fillChunk ?cfg nm 0 (the (map_of sizes nm))) else contents s nm)" for nm
    using r(7) s1(5) n(1) twice by auto
  ultimately show ?case using r(1-6) s1(3,4) by auto
qed simp

end

interpretation mem_sync: synced_backend "memEngine sizeOf" "\<lambda>st. mem_inv st \<and> size_ok sizeOf"
  "memContents sizeOf" memOpened memRoom for sizeOf
  by unfold_locales (simp add: memEngine_def memCaps_def)


section \<open>What a prepared memory backend holds\<close>

text \<open>The size a target is created with: the declared one, else the furthest byte of the trace.\<close>

definition requiredSize :: "prep_metadata \<Rightarrow> target_info \<Rightarrow> int" where
  "requiredSize meta t = (if ti_size t > 0 then ti_size t else extentOf (pm_Extents meta) (ti_id t))"

lemma requiredSizes_fold:
  assumes "\<And>t. t \<in> set ts \<Longrightarrow> 0 < requiredSize meta t" "distinct (map ti_name ts)"
  shows "map_of (fold (\<lambda>t sizes.
       if ti_size t > 0 then AList.update (ti_name t) (ti_size t) sizes
       else let size = extentOf (pm_Extents meta) (ti_id t)
            in if size > 0 then AList.update (ti_name t) size sizes else sizes) ts acc) nm
    = (case find (\<lambda>t. ti_name t = nm) ts of Some t \<Rightarrow> Some (requiredSize meta t) | None \<Rightarrow> map_of acc nm)"
  using assms
proof (induction ts arbitrary: acc)
  case (Cons t ts)
  have t: "0 < requiredSize meta t" using Cons.prems(1) by simp
  have notin: "find (\<lambda>x. ti_name x = ti_name t) ts = None"
    using Cons.prems(2) by (force simp: find_None_iff image_iff)
  have upd: "(if ti_size t > 0 then AList.update (ti_name t) (ti_size t) acc
       else let size = extentOf (pm_Extents meta) (ti_id t)
            in if size > 0 then AList.update (ti_name t) size acc else acc)
     = AList.update (ti_name t) (requiredSize meta t) acc"
    using t by (auto simp: requiredSize_def Let_def split: if_splits)
  show ?case using Cons notin unfolding fold_Cons comp_def upd by (auto split: option.split)
qed simp

lemma requiredSizes:
  assumes "\<And>t. t \<in> set ts \<Longrightarrow> 0 < requiredSize meta t" "distinct (map ti_name ts)" "t \<in> set ts"
  shows "map_of (computeRequiredSizes ts meta) (ti_name t) = Some (requiredSize meta t)"
proof -
  obtain u where u: "find (\<lambda>x. ti_name x = ti_name t) ts = Some u"
    using assms(3) by (cases "find (\<lambda>x. ti_name x = ti_name t) ts") (auto simp: find_None_iff)
  then have "u \<in> set ts" "ti_name u = ti_name t" by (auto simp: find_Some_iff)
  then have "u = t" using assms(2,3) by (meson eq_key_imp_eq_value distinct_map inj_onD)
  with u show ?thesis unfolding computeRequiredSizes_def by (simp add: requiredSizes_fold [OF assms(1,2)])
qed


lemma pm_Fill_norm [simp]: "normalizeFill (normalizeFill c) = normalizeFill c"
  by (simp add: normalizeFill_def Let_def DefaultSeed_def)

lemma requiredSize_fill [simp]: "requiredSize (meta\<lparr>pm_Fill := c\<rparr>) t = requiredSize meta t"
  by (simp add: requiredSize_def)


definition sample_synthetic :: executor where
  "sample_synthetic = sample_executor\<lparr>ex_plan := sample_plan\<lparr>pl_PrepareMode := ''materialize-synthetic''\<rparr>\<rparr>"


text \<open>A target without a size stops the preparation before anything is written.\<close>

lemma synthetic_needs_sizes:
  assumes "hdr_targets (ex_hdr ex) = t # ts" "\<forall>u \<in> set (t # ts). requiredSize (ex_prepMeta ex) u \<le> 0"
    "pl_PrepareMode (ex_plan ex) = ''materialize-synthetic''" "\<not> mt_materialized mt"
  shows "materialize eng src ex mt None s = Some (s, None, mt, Inl (PRSizeUnknown (ti_name t)))"
proof -
  have none: "fold (\<lambda>t sizes.
       if ti_size t > 0 then AList.update (ti_name t) (ti_size t) sizes
       else let size = extentOf (pm_Extents meta) (ti_id t)
            in if size > 0 then AList.update (ti_name t) size sizes else sizes) us [] = []"
    if "\<forall>u \<in> set us. requiredSize meta u \<le> 0" for us and meta :: prep_metadata
    using that by (induction us) (auto simp: requiredSize_def Let_def split: if_splits)
  have "computeRequiredSizes (t # ts) ((ex_prepMeta ex)\<lparr>pm_Fill := c\<rparr>) = []" for c
    unfolding computeRequiredSizes_def by (rule none) (use assms(2) in simp)
  then show ?thesis using assms(1,3,4) by (simp add: materialize_def prepareFor_def materializeSynthetic_def Let_def)
qed

end
