(* ===== verification/Cache.thy ===== *)
theory Cache
  imports Prepare
begin

text \<open>
  Cache-state controls, \<open>pkg/cache\<close>, and \<open>ApplyCache\<close> of \<open>pkg/replay/executor.go\<close>: eviction by advice
  to the operating system (its answers are arguments) and priming by reading every target once
  through the engine.
\<close>

section \<open>Results\<close>

text \<open>The messages, each by the format it is made from. A result holds messages, or their texts
  once it has travelled.\<close>

datatype cache_note =
    NoteUnknownMode string
  | NoteNoPageCache | NoteUncontrolled | NoteS3Cold
  | NoteOpen string | NoteSync string | NoteSynced string | NoteFadvise string | NoteFadvised string
  | NotePlatform
  | NotePrime string engine_error | NotePrimed string

record 'n cache_result =
  cr_Actions :: "'n list"
  cr_Limitations :: "'n list"
  cr_Primed :: int

definition noCache :: "'n cache_result" where
  "noCache = \<lparr>cr_Actions = [], cr_Limitations = [], cr_Primed = 0\<rparr>"

section \<open>Cold\<close>

text \<open>The system calls on one file: whether it opens, syncs, and takes the advice.\<close>

record posix_file =
  px_open :: bool
  px_sync :: bool
  px_fadvise :: bool

fun applyPOSIXCold :: "(string \<Rightarrow> posix_file) \<Rightarrow> target_info list \<Rightarrow> cache_note list \<times> cache_note list" where
  "applyPOSIXCold os [] = ([], [])"
| "applyPOSIXCold os (t # ts) =
     (let f = os (ti_name t); nm = ti_name t; rest = applyPOSIXCold os ts in
      if \<not> px_open f then (fst rest, NoteOpen nm # snd rest)
      else if \<not> px_sync f then (fst rest, NoteSync nm # snd rest)
      else if \<not> px_fadvise f then (NoteSynced nm # fst rest, NoteFadvise nm # snd rest)
      else (NoteSynced nm # NoteFadvised nm # fst rest, snd rest))"

text \<open>The version of the other platforms.\<close>

definition applyColdOther :: "target_info list \<Rightarrow> cache_note list \<times> cache_note list" where
  "applyColdOther targets = (if length targets = 0 then ([], []) else ([], [NotePlatform]))"

definition applyCold :: "('s, 'z) engine_scheme \<Rightarrow> (target_info list \<Rightarrow> cache_note list \<times> cache_note list) \<Rightarrow> target_info list \<Rightarrow> cache_note cache_result" where
  "applyCold eng posixCold targets =
     (let fileTargets = filter (\<lambda>t. ti_kind t = TargetFile) targets;
          res = (if length fileTargets > 0
                 then if \<not> cap_OSPageCache (eng_caps eng)
                      then noCache\<lparr>cr_Limitations := [NoteNoPageCache]\<rparr>
                      else (case posixCold fileTargets of (acts, lims) \<Rightarrow>
                              noCache\<lparr>cr_Actions := acts, cr_Limitations := lims @ [NoteUncontrolled]\<rparr>)
                 else noCache)
      in if \<exists>t \<in> set targets. ti_kind t = TargetObject
         then res\<lparr>cr_Limitations := cr_Limitations res @ [NoteS3Cold]\<rparr> else res)"

section \<open>Warm\<close>

text \<open>
  Reading a file to its end; no result means that a call panicked or that the engine never
  reports the end.
\<close>

partial_function (option) primeLoop :: "('s, 'z) engine_scheme \<Rightarrow> handle \<Rightarrow> int \<Rightarrow> byte list \<Rightarrow> 's \<Rightarrow> ('s \<times> engine_error option) option" where
  "primeLoop eng h off buf s =
     Option.bind (eng_read eng h off (int (length buf)) buf s) (\<lambda>(s1, buf1, n, e).
       if e = Some ErrShortRead \<or> n = 0 then eng_close eng h s1
       else if e \<noteq> None then Option.bind (eng_close eng h s1) (\<lambda>(s2, _). Some (s2, e))
       else primeLoop eng h (i64 (off + n)) buf1 s1)"

definition primeFile :: "('s, 'z) engine_scheme \<Rightarrow> string \<Rightarrow> byte list \<Rightarrow> 's \<Rightarrow> ('s \<times> engine_error option) option" where
  "primeFile eng name buf s =
     (case eng_open eng name ModeRead OpenFlagSeq s of
        None \<Rightarrow> None
      | Some (s1, Inl e) \<Rightarrow> Some (s1, Some e)
      | Some (s1, Inr h) \<Rightarrow> primeLoop eng h 0 buf s1)"

definition shortPrime :: "int \<Rightarrow> int \<Rightarrow> engine_error option" where
  "shortPrime off sz = (if off < sz then Some (Errorf ''short prime: read %d of %d bytes'' [off, sz]) else None)"

text \<open>The engine writes into the first \<open>n\<close> bytes of the buffer.\<close>

partial_function (option) primeObjectLoop :: "('s, 'z) engine_scheme \<Rightarrow> string \<Rightarrow> int \<Rightarrow> int \<Rightarrow> byte list \<Rightarrow> 's \<Rightarrow> ('s \<times> engine_error option) option" where
  "primeObjectLoop eng key sz off buf s =
     (if \<not> off < sz then Some (s, shortPrime off sz)
      else let n = (if sz - off < int (length buf) then sz - off else int (length buf)) in
        Option.bind (eng_get eng key off n (take (nat n) buf) s) (\<lambda>(s1, front, got, e).
          if e \<noteq> None \<and> e \<noteq> Some ErrShortRead then Some (s1, e)
          else if got = 0 \<or> e = Some ErrShortRead then Some (s1, shortPrime (i64 (off + got)) sz)
          else primeObjectLoop eng key sz (i64 (off + got)) (front @ drop (nat n) buf) s1))"

definition primeObject :: "('s, 'z) engine_scheme \<Rightarrow> string \<Rightarrow> byte list \<Rightarrow> 's \<Rightarrow> ('s \<times> engine_error option) option" where
  "primeObject eng key buf s =
     (case eng_head eng key s of
        None \<Rightarrow> None
      | Some (s1, Inl e) \<Rightarrow> Some (s1, Some e)
      | Some (s1, Inr info) \<Rightarrow> primeObjectLoop eng key (oi_Size info) 0 buf s1)"

definition warmChunkSize :: nat where "warmChunkSize = 2 ^ 20"

text \<open>The buffer is shared by the targets and every read overwrites what it returns, so its
  contents are not threaded from one target to the next.\<close>

fun applyWarm :: "('s, 'z) engine_scheme \<Rightarrow> byte list \<Rightarrow> target_info list \<Rightarrow> cache_note cache_result \<Rightarrow> 's \<Rightarrow> ('s \<times> cache_note cache_result) option" where
  "applyWarm eng buf [] res s = Some (s, res)"
| "applyWarm eng buf (t # ts) res s =
     (case (if cap_ObjectAPI (eng_caps eng) then primeObject eng (ti_name t) buf s else primeFile eng (ti_name t) buf s) of
        None \<Rightarrow> None
      | Some (s1, Some e) \<Rightarrow> applyWarm eng buf ts (res\<lparr>cr_Limitations := cr_Limitations res @ [NotePrime (ti_name t) e]\<rparr>) s1
      | Some (s1, None) \<Rightarrow>
          applyWarm eng buf ts (res\<lparr>cr_Actions := cr_Actions res @ [NotePrimed (ti_name t)], cr_Primed := cr_Primed res + 1\<rparr>) s1)"

definition cacheApply :: "('s, 'z) engine_scheme \<Rightarrow> (target_info list \<Rightarrow> cache_note list \<times> cache_note list) \<Rightarrow> string \<Rightarrow> target_info list \<Rightarrow> 's \<Rightarrow> ('s \<times> cache_note cache_result) option" where
  "cacheApply eng posixCold m targets s =
     (if m = ''cold'' then Some (s, applyCold eng posixCold targets)
      else if m = ''warm'' then applyWarm eng (replicate warmChunkSize 0) targets noCache s
      else Some (s, noCache\<lparr>cr_Limitations := [NoteUnknownMode m]\<rparr>))"

text \<open>\<open>ApplyCache\<close> of the executor.\<close>

definition applyCache :: "('s, 'z) engine_scheme \<Rightarrow> (target_info list \<Rightarrow> cache_note list \<times> cache_note list) \<Rightarrow> executor \<Rightarrow> 's \<Rightarrow> ('s \<times> cache_note cache_result) option" where
  "applyCache eng posixCold ex s =
     (if pl_CacheMode (ex_plan ex) = [] then Some (s, noCache)
      else cacheApply eng posixCold (pl_CacheMode (ex_plan ex)) (hdr_targets (ex_hdr ex)) s)"

section \<open>Warming a backend that keeps its contract\<close>

context file_backend
begin

lemma primeLoop_ok:
  assumes "inv s" "opened s h = Some t" "0 \<le> off" "buf \<noteq> []"
    "int (length (contents s t)) + int (length buf) < 2 ^ 62" "off \<le> int (length (contents s t))"
  shows "\<exists>s'. primeLoop eng h off buf s = Some (s', None) \<and> inv s' \<and> room s' = room s
     \<and> contents s' = contents s \<and> opened s' = (opened s)(h := None)"
  using assms
proof (induction "nat (int (length (contents s t)) - off)" arbitrary: off buf rule: less_induct)
  case less
  let ?len = "int (length buf)"
  let ?got = "file_read (contents s t) off ?len"
  have fits: "off + ?len < 2 ^ 63" using less.prems(5,6) by simp
  obtain buf' e where r: "eng_read eng h off ?len buf s = Some (s, buf', int (length ?got), e)" "length buf' = length buf"
    "e = None \<or> e = Some ErrShortRead" "int (length ?got) < ?len \<longrightarrow> e = Some ErrShortRead"
    using read_ok [OF less.prems(1-3) _ fits refl] by auto
  obtain s1 where c: "eng_close eng h s = Some (s1, None)" "inv s1" "room s1 = room s" "contents s1 = contents s"
    "opened s1 = (opened s)(h := None)" using close_ok [OF less.prems(1,2)] by blast
  show ?case
  proof (cases "e = Some ErrShortRead \<or> length ?got = 0")
    case True
    then have "primeLoop eng h off buf s = Some (s1, None)"
      by (subst primeLoop.simps) (use r c in auto)
    with c show ?thesis by auto
  next
    case False
    then have e: "e = None" and full: "length ?got = length buf" using r(3,4) by (auto simp: file_read_def)
    let ?off = "off + ?len"
    have o: "i64 ?off = ?off" using fits less.prems(3) by (intro i64_nonneg_bounded) simp_all
    have "length buf \<le> length (contents s t) - nat off" "0 < length buf"
      using full less.prems(4) by (simp_all add: file_read_def)
    then have more: "?off \<le> int (length (contents s t))" using less.prems(3) by linarith
    have step: "primeLoop eng h off buf s = primeLoop eng h ?off buf' s"
      by (subst primeLoop.simps) (use r False e full o in auto)
    have pos: "0 < ?len" using less.prems(4) by simp
    have dec: "nat (int (length (contents s t)) - ?off) < nat (int (length (contents s t)) - off)"
      using more pos by linarith
    have b: "buf' \<noteq> []" using r(2) less.prems(4) by auto
    have "0 \<le> ?off" using less.prems(3) by simp
    from less.hyps [OF dec less.prems(1,2) this b _ more] less.prems(5) r(2) show ?thesis
      unfolding step by simp
  qed
qed

text \<open>Warming reads the whole target, gives the handle back and changes no contents.\<close>

lemma primeFile_ok:
  assumes "inv s" "0 < room s" "buf \<noteq> []" "int (length (contents s t)) + int (length buf) < 2 ^ 62"
  shows "\<exists>s'. primeFile eng t buf s = Some (s', None) \<and> inv s' \<and> contents s' = contents s \<and> opened s' = opened s"
proof -
  obtain s1 h where o: "eng_open eng t ModeRead OpenFlagSeq s = Some (s1, Inr h)" "inv s1" "contents s1 = contents s"
    "opened s h = None" "opened s1 = (opened s)(h \<mapsto> t)" using open_ok [OF assms(1,2)] by blast
  have h: "opened s1 h = Some t" using o(5) by simp
  have "\<exists>s'. primeLoop eng h 0 buf s1 = Some (s', None) \<and> inv s' \<and> room s' = room s1
     \<and> contents s' = contents s1 \<and> opened s' = (opened s1)(h := None)"
    by (rule primeLoop_ok [OF o(2) h _ assms(3)]) (use assms(4) o(3) in simp_all)
  then obtain s' where "primeLoop eng h 0 buf s1 = Some (s', None)" "inv s'" "contents s' = contents s1"
    "opened s' = (opened s1)(h := None)" by blast
  then show ?thesis using o by (auto simp: primeFile_def fun_upd_idem)
qed

end

text \<open>
  A file whose first read fails without delivering a byte counts as primed: the loop leaves on
  the zero count before it looks at the error.
\<close>

lemma prime_swallows_error:
  assumes "eng_open eng name ModeRead OpenFlagSeq s = Some (s1, Inr h)"
    "eng_read eng h 0 (int (length buf)) buf s1 = Some (s2, buf', 0, Some e)" "eng_close eng h s2 = Some (s3, None)"
  shows "primeFile eng name buf s = Some (s3, None)"
  unfolding primeFile_def assms(1) by (simp, subst primeLoop.simps, simp add: assms)

end
