(* ===== verification/Localfile.thy ===== *)
theory Localfile
  imports Cache
begin

text \<open>
  The local file engine, \<open>pkg/engine/localfile\<close>: its tables, the resolution of targets inside a
  root, and the aligned transfers of \<open>O_DIRECT\<close> handles, over the calls of an operating system
  given as a record of functions. The lemmas show that the root confines and that direct
  transfers are transparent.
\<close>

unbundle bit_operations_syntax

section \<open>The operating system\<close>

datatype os_error = OsNotExist | OsInvalid | OsEscapes | OsOther string

text \<open>
  The calls the engine makes, over an operating system state. The first argument of the calls
  that take a name is the directory an \<open>os.Root\<close> confines them to, if any. \<open>os_pread\<close> is the
  call repeated until it is not interrupted; \<open>os_readAt\<close> and \<open>os_writeAt\<close> are the methods of
  \<open>os.File\<close>, which go on until all bytes moved, the file ended or a call failed (the end of
  the file is not an error of \<open>os_readAt\<close> here).
\<close>

record 'o posix =
  os_open :: "string option \<Rightarrow> string \<Rightarrow> int \<Rightarrow> 'o \<Rightarrow> 'o \<times> (os_error + int)"
  os_mkdirAll :: "string option \<Rightarrow> string \<Rightarrow> 'o \<Rightarrow> 'o \<times> os_error option"
  os_stat :: "string option \<Rightarrow> string \<Rightarrow> 'o \<Rightarrow> os_error + int"
  os_pread :: "int \<Rightarrow> int \<Rightarrow> int \<Rightarrow> 'o \<Rightarrow> os_error + byte list"
  os_readAt :: "int \<Rightarrow> int \<Rightarrow> int \<Rightarrow> 'o \<Rightarrow> byte list \<times> os_error option"
  os_writeAt :: "int \<Rightarrow> int \<Rightarrow> byte list \<Rightarrow> 'o \<Rightarrow> 'o \<times> int \<times> os_error option"
  os_fstatSize :: "int \<Rightarrow> 'o \<Rightarrow> os_error + int"
  os_blksize :: "int \<Rightarrow> 'o \<Rightarrow> int option"
  os_ftruncate :: "int \<Rightarrow> int \<Rightarrow> 'o \<Rightarrow> 'o \<times> os_error option"
  os_sync :: "int \<Rightarrow> 'o \<Rightarrow> 'o \<times> os_error option"
  os_close :: "int \<Rightarrow> 'o \<Rightarrow> 'o \<times> os_error option"

fun osErr :: "os_error \<Rightarrow> engine_error" where
  "osErr OsNotExist = Errorf ''file does not exist'' []"
| "osErr OsInvalid = Errorf ''invalid argument'' []"
| "osErr OsEscapes = Errorf ''path escapes from parent'' []"
| "osErr (OsOther s) = Errorf s []"

definition O_RDONLY :: int where "O_RDONLY = 0"
definition O_WRONLY :: int where "O_WRONLY = 1"
definition O_RDWR :: int where "O_RDWR = 2"
definition O_CREATE :: int where "O_CREATE = 64"
definition O_TRUNC :: int where "O_TRUNC = 512"
definition O_SYNC :: int where "O_SYNC = 1052672"
definition O_DIRECT :: int where "O_DIRECT = 16384"

section \<open>Aligned input and output\<close>

definition alignUp :: "int \<Rightarrow> int \<Rightarrow> int" where
  "alignUp x a = i64 (x + a - 1) AND NOT (a - 1)"

definition alignDown :: "int \<Rightarrow> int \<Rightarrow> int" where
  "alignDown x a = x AND NOT (a - 1)"

text \<open>\<open>pread\<close> once: the bytes, and whether it stopped at the end of the file.\<close>

definition readAtOnce :: "'o posix \<Rightarrow> int \<Rightarrow> int \<Rightarrow> int \<Rightarrow> 'o \<Rightarrow> os_error + (byte list \<times> bool)" where
  "readAtOnce os fd len off s =
     (case os_pread os fd len off s of
        Inl e \<Rightarrow> Inl e
      | Inr bs \<Rightarrow> Inr (bs, bs = [] \<and> len > 0))"

definition detectAlign :: "'o posix \<Rightarrow> int \<Rightarrow> int \<Rightarrow> 'o \<Rightarrow> int" where
  "detectAlign os fd override s =
     (if override > 0 then override
      else (case os_blksize os fd s of Some n \<Rightarrow> if n > 0 then n else 4096 | None \<Rightarrow> 4096))"

text \<open>
  The staging buffer is freshly allocated and zero. A read or write whose window does not fit it
  would panic (\<open>None\<close>).
\<close>

definition alignedReadAt :: "'o posix \<Rightarrow> int \<Rightarrow> byte list \<Rightarrow> int \<Rightarrow> int \<Rightarrow> int \<Rightarrow> 'o \<Rightarrow> (byte list \<times> int \<times> engine_error option) option" where
  "alignedReadAt os fd buf off len align s =
     (let alignedOff = alignDown off align;
          alignedEnd = alignUp (i64 (off + len)) align;
          alignedLen = alignedEnd - alignedOff
      in if alignedLen < 0 then None
         else (case readAtOnce os fd alignedLen alignedOff s of
           Inl e \<Rightarrow> Some (buf, 0, Some (Wrap ''localfile: direct read at %d: %w'' [alignedOff] (osErr e)))
         | Inr (bs, eof) \<Rightarrow>
             let windowStart = off - alignedOff;
                 available = int (length bs) - windowStart
             in if available \<le> 0 then Some (buf, 0, Some ErrShortRead)
                else let n = (if available > len then len else available) in
                  if n < 0 \<or> n > int (length buf) then None
                  else Some (copyAt buf 0 (take (nat n) (drop (nat windowStart) bs)), n,
                         if n < len then Some ErrShortRead else None)))"

text \<open>The aligned write up to its write-back, and the write-back.\<close>

definition directPrepare :: "'o posix \<Rightarrow> int \<Rightarrow> byte list \<Rightarrow> int \<Rightarrow> int \<Rightarrow> 'o \<Rightarrow> (engine_error + (int \<times> int \<times> byte list)) option" where
  "directPrepare os fd data off align s =
     (case os_fstatSize os fd s of
        Inl e \<Rightarrow> Some (Inl (Wrap ''localfile: direct write fstat: %w'' [] (osErr e)))
      | Inr origSize \<Rightarrow>
          let alignedOff = alignDown off align;
              alignedLen = alignUp (i64 (off + int (length data))) align - alignedOff
          in if alignedLen < 0 then None
             else (case os_readAt os fd alignedLen alignedOff s of
               (_, Some e) \<Rightarrow> Some (Inl (Wrap ''localfile: direct write pre-read at %d: %w'' [alignedOff] (osErr e)))
             | (bs, None) \<Rightarrow>
                 let staging = bs @ replicate (nat alignedLen - length bs) 0;
                     windowStart = off - alignedOff
                 in if windowStart + int (length data) > alignedLen then None
                    else Some (Inr (origSize, alignedOff, copyAt staging (nat windowStart) data))))"

definition directCommit :: "'o posix \<Rightarrow> int \<Rightarrow> byte list \<Rightarrow> int \<Rightarrow> int \<times> int \<times> byte list \<Rightarrow> 'o \<Rightarrow> 'o \<times> int \<times> engine_error option" where
  "directCommit os fd data off p s =
     (case p of (origSize, alignedOff, staging) \<Rightarrow>
       (case os_writeAt os fd alignedOff staging s of
          (s1, _, Some e) \<Rightarrow> (s1, 0, Some (Wrap ''localfile: direct write at %d: %w'' [alignedOff] (osErr e)))
        | (s1, _, None) \<Rightarrow>
            let endOff = i64 (off + int (length data)); want = (if endOff > origSize then endOff else origSize) in
            if alignedOff + int (length staging) > want
            then (case os_ftruncate os fd want s1 of
                    (s2, Some e) \<Rightarrow> (s2, 0, Some (Wrap ''localfile: direct write ftruncate to %d: %w'' [want] (osErr e)))
                  | (s2, None) \<Rightarrow> (s2, int (length data), None))
            else (s1, int (length data), None)))"

definition alignedWriteAt :: "'o posix \<Rightarrow> int \<Rightarrow> byte list \<Rightarrow> int \<Rightarrow> int \<Rightarrow> 'o \<Rightarrow> ('o \<times> int \<times> engine_error option) option" where
  "alignedWriteAt os fd data off align s =
     (if length data = 0 then Some (s, 0, None)
      else (case directPrepare os fd data off align s of
              None \<Rightarrow> None
            | Some (Inl e) \<Rightarrow> Some (s, 0, Some e)
            | Some (Inr p) \<Rightarrow> Some (directCommit os fd data off p s)))"

section \<open>The engine\<close>

record open_file =
  of_fd :: int
  of_direct :: bool
  of_align :: int

record lf_config =
  lc_allowDirect :: bool
  lc_directFallback :: bool
  lc_directAlign :: int
  lc_canDirect :: bool
  lc_root :: "string option"
  lc_rootErr :: "engine_error option"
  lc_wd :: "string option"

record 'o lf_state =
  lf_handles :: "(handle \<times> open_file) list"
  lf_nextH :: int
  lf_limitations :: "string list"
  lf_os :: 'o

definition posixFormLimitation :: string where
  "posixFormLimitation = ''replay is positional: READ/WRITE are issued as pread/pwrite at explicit offsets and never move a file cursor, so a source workload's sequential read/write calls and its lseek calls are not reproduced in form (offsets and lengths are); STAT is issued against the target path, not as fstat on an open descriptor''"

definition addLimitation :: "string \<Rightarrow> 'o lf_state \<Rightarrow> 'o lf_state" where
  "addLimitation m st = st\<lparr>lf_limitations := lf_limitations st @ [m]\<rparr>"

text \<open>\<open>New\<close> with its options and \<open>initRoot\<close>. The root directory itself is opened by a call whose
  outcome is the last argument.\<close>

definition initRoot :: "'o posix \<Rightarrow> lf_config \<Rightarrow> string \<Rightarrow> os_error option \<Rightarrow> 'o lf_state \<Rightarrow> lf_config \<times> 'o lf_state" where
  "initRoot os cfg rootSpec openErr st =
     (if rootSpec = [] then (cfg, addLimitation ''no target root configured: replay and dataset preparation were not confined, so any path a rewritten trace target resolves to could be read or overwritten (set --target-root to confine them)'' st)
      else (case pathAbs (lc_wd cfg) rootSpec of
         None \<Rightarrow> (cfg\<lparr>lc_rootErr := Some (Errorf ''localfile: cannot resolve target root %q: %w'' [])\<rparr>, st)
       | Some absQ \<Rightarrow>
           let absP = pathClean absQ in
           (case os_mkdirAll os None absP (lf_os st) of
              (o1, Some e) \<Rightarrow> (cfg\<lparr>lc_rootErr := Some (Wrap ''localfile: cannot create target root %s: %w'' [] (osErr e))\<rparr>, st\<lparr>lf_os := o1\<rparr>)
            | (o1, None) \<Rightarrow>
                (case openErr of
                   Some e \<Rightarrow> (cfg\<lparr>lc_rootErr := Some (Wrap ''localfile: cannot open target root %s: %w'' [] (osErr e))\<rparr>, st\<lparr>lf_os := o1\<rparr>)
                 | None \<Rightarrow> (cfg\<lparr>lc_root := Some absP\<rparr>,
                     addLimitation (''target root '' @ absP @ '' is enforced by the OS: neither \"..\" nor a symlink can escape it, but a bind mount, /proc file, or device node reachable inside the root is still reachable'') (st\<lparr>lf_os := o1\<rparr>))))))"

definition newLocalFile :: "'o posix \<Rightarrow> lf_config \<Rightarrow> string \<Rightarrow> os_error option \<Rightarrow> 'o \<Rightarrow> lf_config \<times> 'o lf_state" where
  "newLocalFile os cfg rootSpec openErr s =
     initRoot os cfg rootSpec openErr
       (addLimitation posixFormLimitation \<lparr>lf_handles = [], lf_nextH = 0, lf_limitations = [], lf_os = s\<rparr>)"

section \<open>Targets and the root\<close>

text \<open>The root-relative name of a target.\<close>

definition rootRelative :: "lf_config \<Rightarrow> string \<Rightarrow> string \<Rightarrow> engine_error + string" where
  "rootRelative cfg root target =
     (case pathAbs (lc_wd cfg) target of
        None \<Rightarrow> Inl (Errorf ''localfile: resolve target %q: %w'' [])
      | Some absP \<Rightarrow>
          (case pathRel root absP of
             None \<Rightarrow> Inl (Wrap ''localfile: target %q resolves to %s, outside root %s: %w'' [] ErrOutsideRoot)
           | Some rel \<Rightarrow> if \<not> isLocal rel
               then Inl (Wrap ''localfile: target %q resolves to %s, outside root %s: %w'' [] ErrOutsideRoot)
               else Inr rel))"

definition pathDir :: "string \<Rightarrow> string" where
  "pathDir p = pathClean (take (nat (lastIndexByte p (CHR ''/'') + 1)) p)"

definition escapeMessage :: "string option \<Rightarrow> os_error \<Rightarrow> engine_error" where
  "escapeMessage root e =
     (if root \<noteq> None \<and> e = OsEscapes
      then Wrap ''localfile: target %q escapes root %s (a symlink or path component leaves the root; absolute symlinks are rejected even when they point back inside): %w'' [] ErrOutsideRoot
      else osErr e)"

text \<open>The directory and the name that an opener for the target opens.\<close>

definition openerFor :: "'o posix \<Rightarrow> lf_config \<Rightarrow> string \<Rightarrow> bool \<Rightarrow> 'o lf_state \<Rightarrow> 'o lf_state \<times> (engine_error + (string option \<times> string))" where
  "openerFor os cfg target createDirs st =
     (let mkdirs = (\<lambda>root nm.
            let dir = pathDir nm in
            if createDirs \<and> dir \<noteq> [] \<and> dir \<noteq> ''.''
            then (case os_mkdirAll os root dir (lf_os st) of
                    (o1, None) \<Rightarrow> (st\<lparr>lf_os := o1\<rparr>, Inr (root, nm))
                  | (o1, Some e) \<Rightarrow> (st\<lparr>lf_os := o1\<rparr>, Inl (Wrap ''localfile: mkdir %s: %w'' [] (escapeMessage root e))))
            else (st, Inr (root, nm)))
      in case lc_rootErr cfg of
           Some e \<Rightarrow> (st, Inl e)
         | None \<Rightarrow>
             (case lc_root cfg of
                None \<Rightarrow> mkdirs None target
              | Some root \<Rightarrow> (case rootRelative cfg root target of Inl e \<Rightarrow> (st, Inl e) | Inr rel \<Rightarrow> mkdirs (Some root) rel)))"

text \<open>The failure of a stat keeps the operating system's error apart, which the callers look at.\<close>

datatype stat_error = StatEngine engine_error | StatOs os_error

definition statTarget :: "'o posix \<Rightarrow> lf_config \<Rightarrow> string \<Rightarrow> 'o lf_state \<Rightarrow> stat_error + int" where
  "statTarget os cfg target st =
     (case lc_rootErr cfg of
        Some e \<Rightarrow> Inl (StatEngine e)
      | None \<Rightarrow>
          (case lc_root cfg of
             None \<Rightarrow> map_sum StatOs id (os_stat os None target (lf_os st))
           | Some root \<Rightarrow>
               (case rootRelative cfg root target of
                  Inl e \<Rightarrow> Inl (StatEngine e)
                | Inr rel \<Rightarrow> map_sum StatOs id (os_stat os (Some root) rel (lf_os st)))))"

definition checkTarget :: "'o posix \<Rightarrow> lf_config \<Rightarrow> string \<Rightarrow> 'o lf_state \<Rightarrow> engine_error option" where
  "checkTarget os cfg target st =
     (case lc_rootErr cfg of
        Some e \<Rightarrow> Some e
      | None \<Rightarrow>
          (if lc_root cfg = None then None
           else (case statTarget os cfg target st of
             Inr _ \<Rightarrow> None
           | Inl (StatOs e) \<Rightarrow>
               if e = OsNotExist then None
               else if errIs (Some (escapeMessage (lc_root cfg) e)) ErrOutsideRoot then Some (escapeMessage (lc_root cfg) e)
               else Some (Wrap ''localfile: target %q could not be verified inside root %s: %w'' [] (escapeMessage (lc_root cfg) e))
           | Inl (StatEngine e) \<Rightarrow>
               if errIs (Some e) ErrOutsideRoot then Some e
               else Some (Wrap ''localfile: target %q could not be verified inside root %s: %w'' [] e))))"

section \<open>The operations\<close>

definition lfCaps :: capabilities where
  "lfCaps = \<lparr>cap_Seekable = True, cap_PartialWrite = True, cap_Durable = True,
     cap_ObjectAPI = False, cap_Multipart = False, cap_OSPageCache = True\<rparr>"

definition modeToOsFlag :: "mode \<Rightarrow> int" where
  "modeToOsFlag m = (if m = ModeWrite then O_WRONLY else if m = ModeReadWrite then O_RDWR else O_RDONLY)"

definition osFlags :: "mode \<Rightarrow> open_flags \<Rightarrow> bool \<Rightarrow> int" where
  "osFlags m flags wantDirect =
     (let f0 = modeToOsFlag m;
          f1 = (if flags AND OpenFlagCreate \<noteq> 0 then f0 OR O_CREATE else f0);
          f2 = (if flags AND OpenFlagTrunc \<noteq> 0 then f1 OR O_TRUNC else f1);
          f3 = (if flags AND OpenFlagSync \<noteq> 0 then f2 OR O_SYNC else f2)
      in if wantDirect
         then let f4 = f3 OR O_DIRECT
              in if m = ModeWrite then (f4 AND NOT (O_WRONLY OR O_RDWR)) OR O_RDWR else f4
         else f3)"

definition lfOpen :: "'o posix \<Rightarrow> lf_config \<Rightarrow> string \<Rightarrow> mode \<Rightarrow> open_flags \<Rightarrow> 'o lf_state \<Rightarrow> ('o lf_state \<times> (engine_error + handle)) option" where
  "lfOpen os cfg target m flags st =
     (case openerFor os cfg target (flags AND OpenFlagCreate \<noteq> 0) st of
        (st1, Inl e) \<Rightarrow> Some (st1, Inl e)
      | (st1, Inr (root, nm)) \<Rightarrow>
          let wantDirect = (flags AND OpenFlagDirect \<noteq> 0 \<and> lc_allowDirect cfg \<and> lc_canDirect cfg);
              oflags = osFlags m flags wantDirect;
              add = (\<lambda>fd direct st.
                let h = i64 (lf_nextH st + 1);
                    align = (if direct then detectAlign os fd (lc_directAlign cfg) (lf_os st) else 0)
                in (st\<lparr>lf_nextH := h, lf_handles := AList.update h \<lparr>of_fd = fd, of_direct = direct, of_align = align\<rparr> (lf_handles st)\<rparr>, Inr h))
          in (case os_open os root nm oflags (lf_os st1) of
                (o1, Inr fd) \<Rightarrow> Some (add fd wantDirect (st1\<lparr>lf_os := o1\<rparr>))
              | (o1, Inl e) \<Rightarrow>
                  if wantDirect \<and> e = OsInvalid
                  then if \<not> lc_directFallback cfg
                       then Some (st1\<lparr>lf_os := o1\<rparr>, Inl (Wrap ''localfile: open %s with O_DIRECT: filesystem does not support direct I/O: %w'' [] (osErr e)))
                       else (case os_open os root nm (oflags AND NOT O_DIRECT) o1 of
                               (o2, Inl e') \<Rightarrow> Some (st1\<lparr>lf_os := o2\<rparr>, Inl (Wrap ''localfile: open %s: %w'' [] (escapeMessage root e')))
                             | (o2, Inr fd) \<Rightarrow>
                                 Some (add fd False (addLimitation (''O_DIRECT not supported by filesystem for '' @ (case root of None \<Rightarrow> nm | Some r \<Rightarrow> pathJoin r nm) @ ''; fell back to buffered I/O'') (st1\<lparr>lf_os := o2\<rparr>))))
                  else Some (st1\<lparr>lf_os := o1\<rparr>, Inl (Wrap ''localfile: open %s: %w'' [] (escapeMessage root e)))))"

definition lfLookup :: "handle \<Rightarrow> 'o lf_state \<Rightarrow> engine_error + open_file" where
  "lfLookup h st = (case map_of (lf_handles st) h of None \<Rightarrow> Inl (Wrap ''localfile: unknown handle %d: %w'' [h] ErrNotFound) | Some f \<Rightarrow> Inr f)"

definition lfRead :: "'o posix \<Rightarrow> handle \<Rightarrow> int \<Rightarrow> int \<Rightarrow> byte list \<Rightarrow> 'o lf_state \<Rightarrow> ('o lf_state \<times> byte list \<times> int \<times> engine_error option) option" where
  "lfRead os h off len buf st =
     (case lfLookup h st of
        Inl e \<Rightarrow> Some (st, buf, 0, Some e)
      | Inr f \<Rightarrow>
          if of_direct f then map_option (Pair st) (alignedReadAt os (of_fd f) buf off len (of_align f) (lf_os st))
          else if len < 0 \<or> len > int (length buf) then None
          else (case readAtOnce os (of_fd f) len off (lf_os st) of
                  Inl e \<Rightarrow> Some (st, buf, 0, Some (osErr e))
                | Inr (bs, eof) \<Rightarrow>
                    Some (st, copyAt buf 0 bs, int (length bs), if eof \<or> int (length bs) < len then Some ErrShortRead else None)))"

definition lfWrite :: "'o posix \<Rightarrow> handle \<Rightarrow> int \<Rightarrow> byte list \<Rightarrow> 'o lf_state \<Rightarrow> ('o lf_state \<times> int \<times> engine_error option) option" where
  "lfWrite os h off data st =
     (case lfLookup h st of
        Inl e \<Rightarrow> Some (st, 0, Some e)
      | Inr f \<Rightarrow>
          if of_direct f
          then map_option (\<lambda>(o1, n, e). (st\<lparr>lf_os := o1\<rparr>, n, e)) (alignedWriteAt os (of_fd f) data off (of_align f) (lf_os st))
          else (case os_writeAt os (of_fd f) off data (lf_os st) of
                  (o1, n, e) \<Rightarrow> Some (st\<lparr>lf_os := o1\<rparr>, n, map_option osErr e)))"

definition lfFsync :: "'o posix \<Rightarrow> handle \<Rightarrow> 'o lf_state \<Rightarrow> ('o lf_state \<times> engine_error option) option" where
  "lfFsync os h st =
     (case lfLookup h st of
        Inl e \<Rightarrow> Some (st, Some e)
      | Inr f \<Rightarrow> (case os_sync os (of_fd f) (lf_os st) of (o1, e) \<Rightarrow> Some (st\<lparr>lf_os := o1\<rparr>, map_option osErr e)))"

definition lfClose :: "'o posix \<Rightarrow> handle \<Rightarrow> 'o lf_state \<Rightarrow> ('o lf_state \<times> engine_error option) option" where
  "lfClose os h st =
     (case map_of (lf_handles st) h of
        None \<Rightarrow> Some (st, Some (Wrap ''localfile: close: unknown handle %d: %w'' [h] ErrNotFound))
      | Some f \<Rightarrow>
          (case os_close os (of_fd f) (lf_os st) of
             (o1, e) \<Rightarrow> Some (st\<lparr>lf_handles := AList.delete h (lf_handles st), lf_os := o1\<rparr>, map_option osErr e)))"

definition lfStat :: "'o posix \<Rightarrow> lf_config \<Rightarrow> string \<Rightarrow> 'o lf_state \<Rightarrow> ('o lf_state \<times> (engine_error + object_info)) option" where
  "lfStat os cfg target st =
     (case statTarget os cfg target st of
        Inr n \<Rightarrow> Some (st, Inr \<lparr>oi_Name = target, oi_Size = n\<rparr>)
      | Inl (StatEngine e) \<Rightarrow> Some (st, Inl (Wrap ''localfile: stat %s: %w'' [] e))
      | Inl (StatOs e) \<Rightarrow>
          Some (st, Inl (Wrap ''localfile: stat %s: %w'' [] (if e = OsNotExist then ErrNotFound else escapeMessage (lc_root cfg) e))))"

definition lfEngine :: "'o posix \<Rightarrow> lf_config \<Rightarrow> 'o lf_state \<Rightarrow> 'o lf_state engine" where
  "lfEngine os cfg st0 = \<lparr>eng_caps = lfCaps, eng_open = lfOpen os cfg, eng_read = lfRead os,
     eng_write = lfWrite os, eng_fsync = lfFsync os, eng_close = lfClose os, eng_stat = lfStat os cfg,
     eng_put = (\<lambda>_ _ _ st. Some (st, Some ErrUnsupported)), eng_put_early = (\<lambda>_ _ _ _. Some (0, Some ErrUnsupported)),
     eng_get = (\<lambda>_ _ _ buf st. Some (st, buf, 0, Some ErrUnsupported)), eng_head = (\<lambda>_ st. Some (st, Inl ErrUnsupported)),
     eng_delete = (\<lambda>_ st. Some (st, Some ErrUnsupported)),
     eng_checkTarget = Some (\<lambda>t. checkTarget os cfg t st0),
     eng_limitations = Some lf_limitations\<rparr>"

section \<open>Alignment\<close>

lemma and_not_le:
  fixes x m :: int
  assumes "0 \<le> x" "0 \<le> m"
  shows "x AND NOT m \<le> x" "x - m \<le> x AND NOT m" "0 \<le> x AND NOT m"
proof -
  have "(x AND m) + (x AND NOT m) = (x AND m) OR (x AND NOT m)" by (rule disjunctive_add) (simp add: bit_simps)
  also have "\<dots> = x" by (rule bit_eqI) (auto simp: bit_simps)
  finally have "(x AND m) + (x AND NOT m) = x" .
  moreover have "0 \<le> x AND m" "x AND m \<le> m" using assms by (simp_all add: AND_upper2')
  ultimately show "x AND NOT m \<le> x" "x - m \<le> x AND NOT m" by linarith+
  show "0 \<le> x AND NOT m" using assms by simp
qed

lemma alignDown_bounds:
  assumes "0 \<le> x" "1 \<le> a"
  shows "alignDown x a \<le> x" "0 \<le> alignDown x a"
  using and_not_le [of x "a - 1"] assms by (simp_all add: alignDown_def)

lemma alignUp_bounds:
  assumes "0 \<le> x" "1 \<le> a" "x + a < 2 ^ 63"
  shows "x \<le> alignUp x a" "alignUp x a < 2 ^ 63"
proof -
  have i: "i64 (x + a - 1) = x + a - 1" using assms by (intro i64_nonneg_bounded) simp_all
  show "x \<le> alignUp x a" "alignUp x a < 2 ^ 63"
    using and_not_le [of "x + a - 1" "a - 1"] assms by (simp_all add: alignUp_def i)
qed

section \<open>Regular files\<close>

text \<open>
  Documented behaviour of an open regular file when no call fails: a positioned read returns
  the bytes that are there, a positioned write stores them and fills a gap with zeros, the size
  is the length, and truncation keeps a prefix.
\<close>

definition regular_files :: "'o posix \<Rightarrow> ('o \<Rightarrow> int \<Rightarrow> byte list option) \<Rightarrow> bool" where
  "regular_files os contents \<longleftrightarrow>
     (\<forall>s fd d. contents s fd = Some d \<longrightarrow>
        (\<forall>off len. 0 \<le> off \<longrightarrow> 0 \<le> len \<longrightarrow>
           os_pread os fd len off s = Inr (file_read d off len) \<and> os_readAt os fd len off s = (file_read d off len, None))
        \<and> (\<forall>off bs. 0 \<le> off \<longrightarrow> off + int (length bs) < 2 ^ 63 \<longrightarrow>
           (\<exists>s'. os_writeAt os fd off bs s = (s', int (length bs), None) \<and> contents s' = (contents s)(fd \<mapsto> file_write d off bs)))
        \<and> os_fstatSize os fd s = Inr (int (length d))
        \<and> (\<forall>n. 0 \<le> n \<longrightarrow> n \<le> int (length d) \<longrightarrow>
           (\<exists>s'. os_ftruncate os fd n s = (s', None) \<and> contents s' = (contents s)(fd \<mapsto> take (nat n) d))))"

lemma regular_filesD:
  assumes "regular_files os contents" "contents s fd = Some d"
  shows "0 \<le> off \<Longrightarrow> 0 \<le> len \<Longrightarrow> os_pread os fd len off s = Inr (file_read d off len)"
    "0 \<le> off \<Longrightarrow> 0 \<le> len \<Longrightarrow> os_readAt os fd len off s = (file_read d off len, None)"
    "0 \<le> off \<Longrightarrow> off + int (length bs) < 2 ^ 63 \<Longrightarrow>
       \<exists>s'. os_writeAt os fd off bs s = (s', int (length bs), None) \<and> contents s' = (contents s)(fd \<mapsto> file_write d off bs)"
    "os_fstatSize os fd s = Inr (int (length d))"
    "0 \<le> n \<Longrightarrow> n \<le> int (length d) \<Longrightarrow>
       \<exists>s'. os_ftruncate os fd n s = (s', None) \<and> contents s' = (contents s)(fd \<mapsto> take (nat n) d)"
  using assms unfolding regular_files_def by blast+

section \<open>Aligned transfers are transparent\<close>

lemma file_read_window:
  assumes "0 \<le> ao" "ao \<le> off" "0 \<le> len" "off + len \<le> ao + al"
  shows "take (nat len) (drop (nat (off - ao)) (file_read d ao al)) = file_read d off len"
proof -
  have "nat len \<le> nat al - nat (off - ao)" "nat (off - ao) + nat ao = nat off" using assms by linarith+
  then show ?thesis by (simp add: file_read_def drop_take min_absorb1)
qed

lemma alignedReadAt_ok:
  assumes "regular_files os contents" "contents s fd = Some d" "0 \<le> off" "0 < len" "1 \<le> align"
    "off + len + align < 2 ^ 63" "len \<le> int (length buf)"
  shows "alignedReadAt os fd buf off len align s =
    Some (copyAt buf 0 (file_read d off len), int (length (file_read d off len)),
      if int (length (file_read d off len)) < len then Some ErrShortRead else None)"
proof -
  let ?ao = "alignDown off align"
  have ol: "i64 (off + len) = off + len" using assms by (intro i64_nonneg_bounded) simp_all
  let ?al = "alignUp (off + len) align - ?ao"
  note down = alignDown_bounds [OF assms(3,5)]
  have up: "off + len \<le> alignUp (off + len) align" using alignUp_bounds [of "off + len" align] assms by simp
  have al: "0 \<le> ?al" using down up assms(4) by linarith
  let ?bs = "file_read d ?ao ?al"
  have r: "readAtOnce os fd ?al ?ao s = Inr (?bs, ?bs = [] \<and> ?al > 0)"
    using regular_filesD(1) [OF assms(1,2) down(2) al] by (simp add: readAtOnce_def)
  let ?w = "file_read d off len"
  have win: "take (nat len) (drop (nat (off - ?ao)) ?bs) = ?w"
    by (rule file_read_window) (use down up assms in linarith)+
  have lw: "int (length ?w) = min len (max 0 (int (length ?bs) - (off - ?ao)))"
    using arg_cong [OF win, of "\<lambda>xs. int (length xs)"] down(1) assms(4) by simp
  show ?thesis
  proof (cases "int (length ?bs) - (off - ?ao) \<le> 0")
    case True
    then have "?w = []" using lw assms(4) by simp
    with True al assms(4) show ?thesis by (simp add: alignedReadAt_def Let_def ol r copyAt_def)
  next
    case False
    define n where "n = (if int (length ?bs) - (off - ?ao) > len then len else int (length ?bs) - (off - ?ao))"
    have n: "n = int (length ?w)" using lw False assms(4) by (simp add: n_def)
    have "take (nat n) (drop (nat (off - ?ao)) ?bs) = ?w"
    proof -
      have "length ?w \<le> nat len" using lw assms(4) by linarith
      then have "take (length ?w) (drop (nat (off - ?ao)) ?bs) = take (length ?w) (take (nat len) (drop (nat (off - ?ao)) ?bs))"
        by (simp add: min_absorb1)
      then show ?thesis unfolding win by (simp add: n)
    qed
    moreover have "0 \<le> n" "n \<le> int (length buf)" using n lw assms(4,7) by simp_all
    ultimately show ?thesis using False al
      by (simp add: alignedReadAt_def Let_def ol r n_def [symmetric] n)
  qed
qed


lemma file_read_length: "0 \<le> off \<Longrightarrow> 0 \<le> len \<Longrightarrow> length (file_read d off len) = min (length d - nat off) (nat len)"
  by (simp add: file_read_def)

text \<open>The staging buffer before it is patched.\<close>

lemma staging_nth:
  assumes "0 \<le> ao" "0 \<le> al" "i < nat al"
  shows "(file_read d ao al @ replicate (nat al - length (file_read d ao al)) 0) ! i =
    (if nat ao + i < length d then d ! (nat ao + i) else 0)"
proof (cases "i < length (file_read d ao al)")
  case True
  then show ?thesis by (auto simp: nth_append file_read_def)
next
  case False
  then have "i - length (file_read d ao al) < nat al - length (file_read d ao al)" using assms(3) by linarith
  moreover have "\<not> nat ao + i < length d" using False assms(3) by (auto simp: file_read_def)
  ultimately show ?thesis using False by (simp add: nth_append)
qed

text \<open>Reading the whole blocks, patching, writing them back and cutting the tail is one write.\<close>

lemma write_back:
  fixes d bs :: "byte list" and st :: "byte list"
  assumes "0 \<le> ao" "ao \<le> off" "off + int (length bs) \<le> ao + al" "0 \<le> al" "bs \<noteq> []"
    and st: "st = file_read d ao al @ replicate (nat al - length (file_read d ao al)) 0"
  shows "take (nat (max (int (length d)) (off + int (length bs)))) (file_write d ao (copyAt st (nat (off - ao)) bs)) = file_write d off bs"
    "length (copyAt st (nat (off - ao)) bs) = nat al"
proof -
  have lst: "length st = nat al" using assms(1,4) by (auto simp: st file_read_length)
  have w: "nat (off - ao) + length bs \<le> nat al" using assms by linarith
  let ?c = "copyAt st (nat (off - ao)) bs"
  show lc: "length ?c = nat al" using w lst by simp
  have cnth: "?c ! i = (if nat (off - ao) \<le> i \<and> i < nat (off - ao) + length bs then bs ! (i - nat (off - ao)) else st ! i)"
    if "i < nat al" for i
  proof -
    let ?k = "nat (off - ao)"
    have c: "?c = take ?k st @ bs @ drop (?k + length bs) st" using w lst by (simp add: copyAt_inside)
    have tk: "length (take ?k st) = ?k" using w lst by simp
    consider "i < ?k" | "?k \<le> i" "i < ?k + length bs" "i - ?k < length bs" | "?k + length bs \<le> i" "\<not> i < ?k" "\<not> i - ?k < length bs"
      by linarith
    then show ?thesis by cases (use that lst in \<open>simp_all add: c nth_append tk del: length_take\<close>)
  qed
  have m: "nat (max (int (length d)) (off + int (length bs))) = max (length d) (nat off + length bs)"
    using assms(1,2) by simp
  have n: "nat off = nat ao + nat (off - ao)" using assms(1,2) by simp
  show "take (nat (max (int (length d)) (off + int (length bs)))) (file_write d ao ?c) = file_write d off bs"
  proof (rule nth_equalityI)
    show "length (take (nat (max (int (length d)) (off + int (length bs)))) (file_write d ao ?c)) = length (file_write d off bs)"
    proof -
      have "nat off + length bs \<le> nat ao + nat al" using w n by linarith
      then have "max (length d) (nat off + length bs) \<le> max (length d) (nat ao + nat al)" by (rule max.mono [OF order_refl])
      then show ?thesis unfolding length_take length_file_write lc m by (rule min_absorb2)
    qed
    fix i assume "i < length (take (nat (max (int (length d)) (off + int (length bs)))) (file_write d ao ?c))"
    then have i: "i < max (length d) (nat off + length bs)" "i < length (file_write d ao ?c)" by (simp_all add: m)
    then have i2: "i < length (file_write d off bs)" by simp
    have s: "st ! (i - nat ao) = (if i < length d then d ! i else 0)" if "nat ao \<le> i" "i < nat ao + nat al"
      using staging_nth [OF assms(1,4), of "i - nat ao" d] that by (simp add: st)
    have A: "file_write d ao ?c ! i =
      (if nat ao \<le> i \<and> i < nat ao + nat al then ?c ! (i - nat ao) else if i < length d then d ! i else 0)"
      using nth_file_write [OF i(2)] unfolding lc .
    have B: "?c ! (i - nat ao) = file_write d off bs ! i" if r: "nat ao \<le> i" "i < nat ao + nat al"
    proof -
      have "i - nat ao < nat al" "i - nat ao - nat (off - ao) = i - nat off" using r n by linarith+
      moreover have "nat (off - ao) \<le> i - nat ao \<longleftrightarrow> nat off \<le> i"
        "i - nat ao < nat (off - ao) + length bs \<longleftrightarrow> i < nat off + length bs" using r n by linarith+
      ultimately show ?thesis unfolding nth_file_write [OF i2] using cnth [of "i - nat ao"] s [OF r] by simp
    qed
    have C: "file_write d off bs ! i = (if i < length d then d ! i else 0)" if "\<not> (nat ao \<le> i \<and> i < nat ao + nat al)"
      unfolding nth_file_write [OF i2] using that w n by simp linarith
    show "take (nat (max (int (length d)) (off + int (length bs)))) (file_write d ao ?c) ! i = file_write d off bs ! i"
      unfolding m nth_take [OF i(1)] A using B C by auto
  qed
qed

lemma alignedWriteAt_ok:
  assumes "regular_files os contents" "contents s fd = Some d" "0 \<le> off" "1 \<le> align"
    "off + int (length data) + align < 2 ^ 63" "int (length d) < 2 ^ 63"
  shows "\<exists>s'. alignedWriteAt os fd data off align s = Some (s', int (length data), None)
    \<and> (data \<noteq> [] \<longrightarrow> contents s' = (contents s)(fd \<mapsto> file_write d off data)) \<and> (data = [] \<longrightarrow> s' = s)"
proof (cases "data = []")
  case True
  then show ?thesis by (simp add: alignedWriteAt_def)
next
  case False
  let ?ao = "alignDown off align" and ?e = "off + int (length data)"
  have ol: "i64 ?e = ?e" using assms by (intro i64_nonneg_bounded) simp_all
  let ?al = "alignUp ?e align - ?ao"
  note down = alignDown_bounds [OF assms(3,4)]
  note up = alignUp_bounds [of ?e align]
  have al: "?e \<le> ?ao + ?al" "0 \<le> ?al" "?ao + ?al < 2 ^ 63" using down up assms by simp_all
  let ?st = "file_read d ?ao ?al @ replicate (nat ?al - length (file_read d ?ao ?al)) 0"
  let ?c = "copyAt ?st (nat (off - ?ao)) data"
  have lc: "length ?c = nat ?al" by (rule write_back(2) [OF _ _ _ _ _ refl]) (use down al False in simp_all)
  have prep: "directPrepare os fd data off align s = Some (Inr (int (length d), ?ao, ?c))"
    using regular_filesD(2) [OF assms(1,2) down(2) al(2)] regular_filesD(4) [OF assms(1,2)] al
    by (simp add: directPrepare_def Let_def ol)
  obtain s1 where s1: "os_writeAt os fd ?ao ?c s = (s1, int (length ?c), None)"
    "contents s1 = (contents s)(fd \<mapsto> file_write d ?ao ?c)"
    using regular_filesD(3) [OF assms(1,2) down(2), of ?c] lc al by auto
  let ?want = "if ?e > int (length d) then ?e else int (length d)"
  have want: "?want = max (int (length d)) ?e" "0 \<le> ?want" by simp_all
  have bk: "take (nat ?want) (file_write d ?ao ?c) = file_write d off data"
    unfolding want(1) by (rule write_back(1) [OF _ _ _ _ _ refl]) (use down al False in simp_all)
  have endw: "?ao + int (length ?c) = ?ao + ?al" using lc al(2) by simp
  show ?thesis
  proof (cases "?ao + ?al > ?want")
    case True
    have "?want \<le> int (length (file_write d ?ao ?c))" using True lc down al(2) by simp
    then obtain s2 where s2: "os_ftruncate os fd ?want s1 = (s2, None)"
      "contents s2 = (contents s1)(fd \<mapsto> take (nat ?want) (file_write d ?ao ?c))"
      using regular_filesD(5) [OF assms(1), of s1 fd "file_write d ?ao ?c" ?want] s1(2) want(2) by auto
    have "directCommit os fd data off (int (length d), ?ao, ?c) s = (s2, int (length data), None)"
      using True s1(1) s2(1) endw by (simp add: directCommit_def Let_def ol)
    then show ?thesis using False prep s2(2) s1(2) bk by (simp add: alignedWriteAt_def)
  next
    case nolonger: False
    have "length (file_write d ?ao ?c) \<le> nat ?want" using nolonger lc down al(2) by (simp split: if_splits) linarith+
    then have "file_write d ?ao ?c = file_write d off data" using bk by simp
    moreover have "directCommit os fd data off (int (length d), ?ao, ?c) s = (s1, int (length data), None)"
      using nolonger s1(1) endw by (simp add: directCommit_def Let_def ol)
    ultimately show ?thesis using False prep s1(2) by (simp add: alignedWriteAt_def)
  qed
qed


section \<open>Names relative to the root\<close>

lemma under_segs: "under root p \<Longrightarrow> isAbs root \<Longrightarrow> \<exists>rest. pathSegs p = pathSegs root @ rest \<and> ''..'' \<notin> set rest"
  by (auto simp: under_def)

lemma root_nonempty: "isAbs root \<Longrightarrow> root \<noteq> []"
  by (auto simp: isAbs_def)

lemma rel_inside:
  assumes "isAbs root" "pathClean root = root" "isAbs p" "pathClean p = p" "under root p"
  shows "\<exists>rel. pathRel root p = Some rel \<and> isLocal rel \<and> pathJoin root rel = p"
proof -
  obtain rest where rest: "pathSegs p = pathSegs root @ rest" "''..'' \<notin> set rest"
    using under_segs [OF assms(5,1)] by blast
  have pl: "plain_segs rest" using plain_pathSegs [of p] by (simp add: rest plain_segs_def)
  let ?rel = "pathString False rest"
  have abs: "isAbs ?rel = False" and sg: "pathSegments ?rel = rest" using segs_string [OF pl, of False] by simp_all
  have ps: "pathSegs ?rel = rest" using cleanSegs_plain [OF rest(2)] by (simp add: pathSegs_def abs sg)
  have ne: "?rel \<noteq> []" using pl by (cases rest rule: joinSegs.cases) (auto simp: pathString_def plain_segs_def)
  have loc: "isLocal ?rel" using abs ps ne rest(2) by (simp add: isLocal_iff)
  have rel: "pathRel root p = Some ?rel"
  proof (cases "rest = []")
    case True
    then have "root = p" using pathClean_fixed [OF assms(2)] pathClean_fixed [OF assms(4)] rest(1) assms(1,3) by simp
    then show ?thesis using True by (simp add: pathRel_def pathString_def)
  next
    case False
    then have "pathClean root \<noteq> pathClean p" using rest(1) by (metis append_self_conv pathClean_segs(1))
    then show ?thesis using False assms(1,3) by (simp add: pathRel_def rest pathString_def)
  qed
  have "pathSegs (pathJoin root ?rel) = pathSegs root @ rest"
    using pathSegs_join(1) [OF root_nonempty [OF assms(1)] ne] cleanSegs_plain [OF rest(2)]
    by (simp add: sg cleanSegs_append pathSegs_def)
  then have "pathJoin root ?rel = p"
    using pathClean_fixed [OF pathJoin_clean [OF root_nonempty [OF assms(1)]], of ?rel] pathClean_fixed [OF assms(4)]
      pathSegs_join(2) [OF root_nonempty [OF assms(1)] ne] rest(1) assms(1,3) by simp
  with rel loc show ?thesis by blast
qed

lemma rel_outside:
  assumes "isAbs root" "pathClean root = root" "isAbs p" "pathClean p = p" "\<not> under root p" "pathRel root p = Some rel"
  shows "\<not> isLocal rel"
proof -
  have noteq: "pathClean root \<noteq> pathClean p"
  proof
    assume "pathClean root = pathClean p"
    then have "under root p" using assms(1-4) by (simp add: under_def)
    with assms(5) show False ..
  qed
  obtain rs where rs: "relSegs (pathSegs root) (pathSegs p) = Some rs" "rel = joinSegs rs"
    using assms(1,3,6) noteq by (auto simp: pathRel_def)
  have np: "''..'' \<notin> set (pathSegs p)" using pathSegs_cleaned [of p] assms(3) by (auto simp: cleaned_def)
  have hd: "rs \<noteq> [] \<and> hd rs = ''..''"
  proof (rule ccontr)
    assume "\<not> (rs \<noteq> [] \<and> hd rs = ''..'')"
    with relSegs_some [OF rs(1)] obtain rest where "pathSegs p = pathSegs root @ rest" by blast
    with np assms(1,3) have "under root p" by (auto simp: under_def)
    with assms(5) show False ..
  qed
  then obtain ys where ys: "rs = ''..'' # ys" by (cases rs) auto
  have plain: "plain_segs rs" using relSegs_plain [OF rs(1) plain_pathSegs] .
  have "''..'' \<in> set (cleanSegs False [''..''] ys)" by (rule dots_stay) simp
  then have "''..'' \<in> set (cleanSegs False [] rs)" by (simp add: ys cleanSegs_def cleanStep_def)
  moreover have "pathSegments rel = rs" using pathSegments_joinSegs [OF plain] rs(2) by simp
  ultimately show ?thesis by (auto simp: isLocal_iff pathSegs_def)
qed

section \<open>Properties\<close>


text \<open>One regular file kept in memory, behind descriptor 3.\<close>

definition ram_os :: "byte list posix" where
  "ram_os = \<lparr>os_open = (\<lambda>_ _ _ d. (d, Inr 3)), os_mkdirAll = (\<lambda>_ _ d. (d, None)), os_stat = (\<lambda>_ _ d. Inr (int (length d))),
     os_pread = (\<lambda>_ len off d. Inr (file_read d off len)), os_readAt = (\<lambda>_ len off d. (file_read d off len, None)),
     os_writeAt = (\<lambda>_ off bs d. (file_write d off bs, int (length bs), None)), os_fstatSize = (\<lambda>_ d. Inr (int (length d))),
     os_blksize = (\<lambda>_ _. Some 512), os_ftruncate = (\<lambda>_ n d. (take (nat n) d, None)),
     os_sync = (\<lambda>_ d. (d, None)), os_close = (\<lambda>_ d. (d, None))\<rparr>"

definition ram_contents :: "byte list \<Rightarrow> int \<Rightarrow> byte list option" where
  "ram_contents d = (\<lambda>fd. if fd = 3 then Some d else None)"

lemma ram_regular: "regular_files ram_os ram_contents"
  by (auto simp: regular_files_def ram_os_def ram_contents_def fun_eq_iff split: if_splits)

definition ram_state :: "byte list lf_state" where
  "ram_state = \<lparr>lf_handles = [(1, \<lparr>of_fd = 3, of_direct = True, of_align = 4\<rparr>)], lf_nextH = 1, lf_limitations = [],
     lf_os = [10, 11, 12, 13, 14, 15]\<rparr>"


text \<open>
  Two direct writes through one file are not independent, although their ranges are: the first
  one's truncation, decided before the second write, cuts off what that wrote.
\<close>

lemma direct_writes_race:
  "\<exists>p. directPrepare ram_os 3 [1] 0 4 [] = Some (Inr p)
     \<and> alignedWriteAt ram_os 3 [2] 8 4 [] = Some ([0, 0, 0, 0, 0, 0, 0, 0, 2], 1, None)
     \<and> directCommit ram_os 3 [1] 0 p [0, 0, 0, 0, 0, 0, 0, 0, 2] = ([1], 1, None)"
  by (rule exI [of _ "(0, 0, [1, 0, 0, 0])"]) code_simp

text \<open>A direct read of no bytes reports a short read where the buffered one succeeds.\<close>

lemma direct_zero_read:
  "alignedReadAt ram_os 3 [] 8 0 4 [1, 2] = Some ([], 0, Some ErrShortRead)"
  by code_simp


definition sample_root_config :: lf_config where
  "sample_root_config = \<lparr>lc_allowDirect = False, lc_directFallback = False, lc_directAlign = 0, lc_canDirect = True,
     lc_root = Some ''/data'', lc_rootErr = None, lc_wd = Some ''/srv''\<rparr>"


end
