(* ===== verification/S3_Engine.thy ===== *)
theory S3_Engine
  imports Localfile
begin

text \<open>
  The S3 engine, \<open>pkg/engine/s3\<close>: its configuration, the confinement of keys, the object calls and
  the multipart upload, over a client of the AWS SDK given as a record of functions. The lemmas
  show that a put is atomic against a store that behaves as documented.
\<close>

section \<open>Configuration\<close>

record s3_config =
  s3_Endpoint :: string
  s3_Region :: string
  s3_Bucket :: string
  s3_PathStyle :: bool
  s3_AccessKey :: string
  s3_SecretKey :: string
  s3_SessionToken :: string
  s3_MultipartThreshold :: int
  s3_MultipartPartSize :: int
  s3_DisableHTTPKeepAlive :: bool
  s3_HeadOnOpen :: bool
  s3_KeyPrefix :: string

datatype s3_new_error = SNBucket | SNPartSize int int | SNCredentials | SNLoadConfig string

definition defaultRegion :: string where "defaultRegion = ''us-east-1''"
definition defaultMultipartThreshold :: int where "defaultMultipartThreshold = 67108864"
definition defaultMultipartPartSize :: int where "defaultMultipartPartSize = 16777216"
definition minMultipartPartSize :: int where "minMultipartPartSize = 5242880"

text \<open>\<open>New\<close> up to the client it makes; loading the SDK's configuration can fail.\<close>

definition newS3 :: "s3_config \<Rightarrow> string option \<Rightarrow> s3_new_error + s3_config" where
  "newS3 cfg loadErr =
     (if s3_Bucket cfg = [] then Inl SNBucket
      else let c1 = (if s3_Region cfg = [] then cfg\<lparr>s3_Region := defaultRegion\<rparr> else cfg);
               c2 = (if s3_MultipartThreshold c1 \<le> 0 then c1\<lparr>s3_MultipartThreshold := defaultMultipartThreshold\<rparr> else c1);
               c3 = (if s3_MultipartPartSize c2 \<le> 0 then c2\<lparr>s3_MultipartPartSize := defaultMultipartPartSize\<rparr> else c2)
           in if s3_MultipartPartSize c3 < minMultipartPartSize
              then Inl (SNPartSize (s3_MultipartPartSize c3) minMultipartPartSize)
              else if (s3_AccessKey c3 = []) \<noteq> (s3_SecretKey c3 = []) then Inl SNCredentials
              else let c4 = (if s3_KeyPrefix c3 \<noteq> [] \<and> \<not> hasSuffix (s3_KeyPrefix c3) ''/''
                             then c3\<lparr>s3_KeyPrefix := s3_KeyPrefix c3 @ ''/''\<rparr> else c3)
                   in (case loadErr of Some e \<Rightarrow> Inl (SNLoadConfig e) | None \<Rightarrow> Inr c4))"

section \<open>The client\<close>

text \<open>What an error of the SDK says: the response's status, the service's code, its text.\<close>

record aws_error =
  ae_status :: "int option"
  ae_code :: "string option"
  ae_text :: string

text \<open>
  The calls of the SDK's client for one bucket, over the state of the store. A part or an upload
  is identified by what the service returned, if it returned anything; the body of a
  \<open>PutObject\<close> is the bytes of its reader and whether that fails after them. The body of a response
  is the bytes it delivers and whether reading it fails after them.
\<close>

record 'c s3_client =
  sc_put :: "string \<Rightarrow> byte list \<times> bool \<Rightarrow> int \<Rightarrow> 'c \<Rightarrow> 'c \<times> aws_error option"
  sc_get :: "string \<Rightarrow> int \<Rightarrow> int \<Rightarrow> 'c \<Rightarrow> 'c \<times> (aws_error + (byte list \<times> bool))"
  sc_head :: "string \<Rightarrow> 'c \<Rightarrow> 'c \<times> (aws_error + int option)"
  sc_delete :: "string \<Rightarrow> 'c \<Rightarrow> 'c \<times> aws_error option"
  sc_create :: "string \<Rightarrow> 'c \<Rightarrow> 'c \<times> (aws_error + string option)"
  sc_part :: "string \<Rightarrow> string \<Rightarrow> int \<Rightarrow> byte list \<Rightarrow> 'c \<Rightarrow> 'c \<times> (aws_error + string option)"
  sc_complete :: "string \<Rightarrow> string \<Rightarrow> (string \<times> int) list \<Rightarrow> 'c \<Rightarrow> 'c \<times> aws_error option"
  sc_abort :: "string \<Rightarrow> string \<Rightarrow> 'c \<Rightarrow> 'c"

definition containsText :: "string \<Rightarrow> string \<Rightarrow> bool" where
  "containsText s t = (strIndex s t \<ge> 0)"

definition mapErr :: "string \<Rightarrow> aws_error option \<Rightarrow> engine_error option" where
  "mapErr opn err =
     (case err of
        None \<Rightarrow> None
      | Some e \<Rightarrow>
          Some (if ae_status e = Some 404
                   \<or> ae_code e \<in> {Some ''NoSuchKey'', Some ''NotFound'', Some ''NoSuchBucket''}
                   \<or> containsText (ae_text e) ''status code: 404''
                then Wrap (''s3: '' @ opn @ '': %w'') [] ErrNotFound
                else Wrap (''s3: '' @ opn @ '': %w'') [] (Errorf (ae_text e) [])))"

section \<open>Keys\<close>

definition checkKey :: "s3_config \<Rightarrow> string \<Rightarrow> engine_error option" where
  "checkKey cfg key =
     (if s3_KeyPrefix cfg = [] then None
      else if \<not> prefix (s3_KeyPrefix cfg) key
      then Some (Wrap ''s3: key %q is outside the configured prefix %q: %w'' [] ErrOutsideRoot)
      else if ''..'' \<in> set (splitOn key (CHR ''/''))
      then Some (Wrap ''s3: key %q contains a %q segment, which a filesystem-backed object store may resolve outside the prefix %q: %w'' [] ErrOutsideRoot)
      else None)"

definition s3Limitations :: "s3_config \<Rightarrow> string list" where
  "s3Limitations cfg =
     (if s3_KeyPrefix cfg = []
      then [''no target root configured: replay and dataset preparation were not confined to a key prefix, so any key in bucket '' @ s3_Bucket cfg
              @ '' that a rewritten trace target resolves to could be read or overwritten (set --target-root to confine them)'']
      else [''target keys are confined to prefix '' @ s3_KeyPrefix cfg @ '' in bucket '' @ s3_Bucket cfg
              @ ''; this bounds what IOFlux addresses, not what bucket policy or a gateway permits''])"

definition s3Caps :: capabilities where
  "s3Caps = \<lparr>cap_Seekable = True, cap_PartialWrite = False, cap_Durable = False,
     cap_ObjectAPI = True, cap_Multipart = True, cap_OSPageCache = False\<rparr>"

section \<open>Writing an object\<close>

definition i32 :: "int \<Rightarrow> int" where
  "i32 x = (x + 2 ^ 31) mod 2 ^ 32 - 2 ^ 31"

text \<open>
  A reader is the bytes it still delivers and whether it fails after them; \<open>io.ReadFull\<close> of
  \<open>n\<close> bytes gives them, or says whether the source ended early or failed.
\<close>

datatype read_full = FullBytes "byte list" "byte list" | FullEnded nat | FullFailed

definition readFull :: "int \<Rightarrow> byte list \<Rightarrow> bool \<Rightarrow> read_full" where
  "readFull n src fails =
     (if nat n \<le> length src then FullBytes (take (nat n) src) (drop (nat n) src)
      else if fails then FullFailed else FullEnded (length src))"

text \<open>\<open>New\<close> guarantees a positive part size; without one the buffer could not be made or no part
  would make progress.\<close>

function multiLoop :: "'c s3_client \<Rightarrow> s3_config \<Rightarrow> string \<Rightarrow> string \<Rightarrow> int \<Rightarrow> int \<Rightarrow> (string \<times> int) list \<Rightarrow> byte list \<Rightarrow> bool \<Rightarrow> 'c \<Rightarrow> ('c \<times> engine_error option) option" where
  "multiLoop cl cfg key uid remaining partNumber parts src fails s =
     (if s3_MultipartPartSize cfg \<le> 0 then None
      else if \<not> 0 < remaining then
        (case sc_complete cl key uid parts s of
           (s1, None) \<Rightarrow> Some (s1, None)
         | (s1, Some e) \<Rightarrow> Some (sc_abort cl key uid s1, mapErr (''complete multipart '' @ key) (Some e)))
      else
        let want = (if remaining < s3_MultipartPartSize cfg then remaining else s3_MultipartPartSize cfg) in
        (case readFull want src fails of
           FullFailed \<Rightarrow> Some (sc_abort cl key uid s, Some (Errorf ''s3: multipart put %q: read source: %w'' []))
         | FullEnded n \<Rightarrow>
             Some (sc_abort cl key uid s,
               Some (Wrap ''s3: multipart put %q: source ended after %d fewer bytes than declared: %w'' [remaining - int n] ErrShortRead))
         | FullBytes bs rest \<Rightarrow>
             (case sc_part cl key uid partNumber bs s of
                (s1, Inl e) \<Rightarrow> Some (sc_abort cl key uid s1, mapErr (''upload part '' @ itoa partNumber @ '' for '' @ key) (Some e))
              | (s1, Inr etag) \<Rightarrow>
                  if etag = None \<or> etag = Some []
                  then Some (sc_abort cl key uid s1, Some (Errorf ''s3: upload part %d for %q: missing ETag'' [partNumber]))
                  else multiLoop cl cfg key uid (remaining - want) (i32 (partNumber + 1)) (parts @ [(the etag, partNumber)]) rest fails s1)))"
  by pat_completeness auto

termination
  by (relation "measure (\<lambda>(cl, cfg, key, uid, remaining, pn, parts, src, fails, s). nat remaining)") auto

declare multiLoop.simps [simp del]

definition putMultipart :: "'c s3_client \<Rightarrow> s3_config \<Rightarrow> string \<Rightarrow> byte list \<Rightarrow> bool \<Rightarrow> int \<Rightarrow> 'c \<Rightarrow> ('c \<times> engine_error option) option" where
  "putMultipart cl cfg key src fails sz s =
     (case sc_create cl key s of
        (s1, Inl e) \<Rightarrow> Some (s1, mapErr (''create multipart '' @ key) (Some e))
      | (s1, Inr uid) \<Rightarrow>
          if uid = None \<or> uid = Some [] then Some (s1, Some (Errorf ''s3: create multipart %q: empty upload id'' []))
          else if go_div (i64 (sz + s3_MultipartPartSize cfg - 1)) (s3_MultipartPartSize cfg) < 0 then None
          else multiLoop cl cfg key (the uid) sz 1 [] src fails s1)"

text \<open>
  \<open>seekableBody\<close>: the body the client sends, or the reason the source could not be buffered.
\<close>

definition seekableBody :: "bool \<Rightarrow> byte list \<Rightarrow> bool \<Rightarrow> int \<Rightarrow> engine_error + (byte list \<times> bool)" where
  "seekableBody seekable src fails sz =
     (if seekable then Inr (src, fails)
      else (case readFull sz src fails of
              FullBytes bs _ \<Rightarrow> Inr (bs, False)
            | FullEnded _ \<Rightarrow> Inl (Errorf ''read body: unexpected EOF'' [])
            | FullFailed \<Rightarrow> Inl (Errorf ''read body: %w'' [])))"

definition s3Put :: "'c s3_client \<Rightarrow> s3_config \<Rightarrow> bool \<Rightarrow> string \<Rightarrow> byte list \<Rightarrow> bool \<Rightarrow> int \<Rightarrow> 'c \<Rightarrow> ('c \<times> engine_error option) option" where
  "s3Put cl cfg seekable key src fails sz s =
     (case checkKey cfg key of
        Some e \<Rightarrow> Some (s, Some e)
      | None \<Rightarrow>
          if sz < 0 then Some (s, Some (Errorf ''s3: put %q: negative size %d'' [sz]))
          else if sz > s3_MultipartThreshold cfg then putMultipart cl cfg key src fails sz s
          else (case seekableBody seekable src fails sz of
                  Inl e \<Rightarrow> Some (s, Some (Wrap ''s3: put %q: %w'' [] e))
                | Inr body \<Rightarrow> (case sc_put cl key body sz s of (s1, e) \<Rightarrow> Some (s1, mapErr (''put '' @ key) e))))"

section \<open>The other operations\<close>

record 'c s3_state =
  ss_handles :: "(handle \<times> string) list"
  ss_nextH :: int
  ss_store :: 'c

definition s3Get :: "'c s3_client \<Rightarrow> s3_config \<Rightarrow> string \<Rightarrow> int \<Rightarrow> int \<Rightarrow> byte list \<Rightarrow> 'c s3_state \<Rightarrow> ('c s3_state \<times> byte list \<times> int \<times> engine_error option) option" where
  "s3Get cl cfg key off len buf st =
     (case checkKey cfg key of
        Some e \<Rightarrow> Some (st, buf, 0, Some e)
      | None \<Rightarrow>
          if off < 0 then Some (st, buf, 0, Some (Errorf ''s3: get %q: offset %d must be non-negative'' [off]))
          else if len < 0 then Some (st, buf, 0, Some (Errorf ''s3: get %q: length %d must be non-negative'' [len]))
          else if len = 0 then Some (st, buf, 0, None)
          else if int (length buf) < len
          then Some (st, buf, 0, Some (Errorf ''s3: get %q: buffer length %d < requested length %d'' [int (length buf), len]))
          else (case sc_get cl key off (i64 (off + len - 1)) (ss_store st) of
                  (c1, Inl e) \<Rightarrow> Some (st\<lparr>ss_store := c1\<rparr>, buf, 0, mapErr (''get '' @ key) (Some e))
                | (c1, Inr (body, fails)) \<Rightarrow>
                    let got = take (nat len) body in
                    Some (st\<lparr>ss_store := c1\<rparr>, copyAt buf 0 got, int (length got),
                      if int (length got) = len then None
                      else if fails then Some (Errorf ''s3: get %q: read response body: %w'' [])
                      else Some ErrShortRead)))"

definition s3Head :: "'c s3_client \<Rightarrow> s3_config \<Rightarrow> string \<Rightarrow> 'c s3_state \<Rightarrow> ('c s3_state \<times> (engine_error + object_info)) option" where
  "s3Head cl cfg key st =
     (case checkKey cfg key of
        Some e \<Rightarrow> Some (st, Inl e)
      | None \<Rightarrow>
          (case sc_head cl key (ss_store st) of
             (c1, Inl e) \<Rightarrow> Some (st\<lparr>ss_store := c1\<rparr>, Inl (the (mapErr (''head '' @ key) (Some e))))
           | (c1, Inr n) \<Rightarrow> Some (st\<lparr>ss_store := c1\<rparr>, Inr \<lparr>oi_Name = key, oi_Size = (case n of None \<Rightarrow> 0 | Some k \<Rightarrow> k)\<rparr>)))"

definition s3Delete :: "'c s3_client \<Rightarrow> s3_config \<Rightarrow> string \<Rightarrow> 'c s3_state \<Rightarrow> ('c s3_state \<times> engine_error option) option" where
  "s3Delete cl cfg key st =
     (case checkKey cfg key of
        Some e \<Rightarrow> Some (st, Some e)
      | None \<Rightarrow> (case sc_delete cl key (ss_store st) of (c1, e) \<Rightarrow> Some (st\<lparr>ss_store := c1\<rparr>, mapErr (''delete '' @ key) e)))"

definition s3Open :: "'c s3_client \<Rightarrow> s3_config \<Rightarrow> string \<Rightarrow> mode \<Rightarrow> open_flags \<Rightarrow> 'c s3_state \<Rightarrow> ('c s3_state \<times> (engine_error + handle)) option" where
  "s3Open cl cfg target m flags st =
     (if m \<noteq> ModeRead then Some (st, Inl (Wrap ''s3: open %q with mode %q: %w'' [] ErrUnsupported))
      else (case checkKey cfg target of
        Some e \<Rightarrow> Some (st, Inl e)
      | None \<Rightarrow>
          (case (if s3_HeadOnOpen cfg then s3Head cl cfg target st else Some (st, Inr \<lparr>oi_Name = target, oi_Size = 0\<rparr>)) of
             None \<Rightarrow> None
           | Some (st1, Inl e) \<Rightarrow> Some (st1, Inl e)
           | Some (st1, Inr _) \<Rightarrow>
               let h = i64 (ss_nextH st1 + 1)
               in Some (st1\<lparr>ss_nextH := h, ss_handles := AList.update h target (ss_handles st1)\<rparr>, Inr h))))"

definition s3Lookup :: "handle \<Rightarrow> 'c s3_state \<Rightarrow> engine_error + string" where
  "s3Lookup h st = (case map_of (ss_handles st) h of None \<Rightarrow> Inl (Wrap ''s3: unknown handle %d: %w'' [h] ErrNotFound) | Some k \<Rightarrow> Inr k)"

definition s3Read :: "'c s3_client \<Rightarrow> s3_config \<Rightarrow> handle \<Rightarrow> int \<Rightarrow> int \<Rightarrow> byte list \<Rightarrow> 'c s3_state \<Rightarrow> ('c s3_state \<times> byte list \<times> int \<times> engine_error option) option" where
  "s3Read cl cfg h off len buf st =
     (case s3Lookup h st of Inl e \<Rightarrow> Some (st, buf, 0, Some e) | Inr key \<Rightarrow> s3Get cl cfg key off len buf st)"

definition s3Close :: "handle \<Rightarrow> 'c s3_state \<Rightarrow> ('c s3_state \<times> engine_error option) option" where
  "s3Close h st =
     (case map_of (ss_handles st) h of
        None \<Rightarrow> Some (st, Some (Wrap ''s3: close: unknown handle %d: %w'' [h] ErrNotFound))
      | Some _ \<Rightarrow> Some (st\<lparr>ss_handles := AList.delete h (ss_handles st)\<rparr>, None))"

text \<open>The engine; \<open>Put\<close> is given a seekable source as dataset preparation does, and when it gives up
  on a source early is the last argument.\<close>

definition s3Engine :: "'c s3_client \<Rightarrow> s3_config \<Rightarrow> (string \<Rightarrow> int \<Rightarrow> byte list \<Rightarrow> 'c s3_state \<Rightarrow> (nat \<times> engine_error option) option) \<Rightarrow> 'c s3_state engine" where
  "s3Engine cl cfg early = \<lparr>eng_caps = s3Caps, eng_open = s3Open cl cfg, eng_read = s3Read cl cfg,
     eng_write = (\<lambda>_ _ _ st. Some (st, 0, Some ErrUnsupported)), eng_fsync = (\<lambda>_ st. Some (st, Some ErrUnsupported)),
     eng_close = s3Close, eng_stat = s3Head cl cfg,
     eng_put = (\<lambda>key bs n st. map_option (\<lambda>(c1, e). (st\<lparr>ss_store := c1\<rparr>, e)) (s3Put cl cfg True key bs False n (ss_store st))),
     eng_put_early = early, eng_get = s3Get cl cfg, eng_head = s3Head cl cfg, eng_delete = s3Delete cl cfg,
     eng_checkTarget = Some (checkKey cfg), eng_limitations = Some (\<lambda>_. s3Limitations cfg)\<rparr>"

section \<open>What the service does\<close>

text \<open>
  Documented behaviour of an S3 store with the objects \<open>objects\<close> and the multipart uploads in
  progress \<open>uploads\<close>, each with the parts it has: an object appears when its upload is completed
  with ascending parts or its \<open>PutObject\<close> received as many bytes as announced; a call that fails
  leaves the objects as they were; an aborted upload is gone with its parts.
\<close>

type_synonym upload = "(string \<times> int \<times> byte list) list"

definition partKeys :: "upload \<Rightarrow> (string \<times> int) list" where
  "partKeys ps = map (\<lambda>(e, n, b). (e, n)) ps"

definition partBytes :: "upload \<Rightarrow> byte list" where
  "partBytes ps = concat (map (\<lambda>(e, n, b). b) ps)"

definition s3_store :: "'c s3_client \<Rightarrow> ('c \<Rightarrow> string \<Rightarrow> byte list option) \<Rightarrow> ('c \<Rightarrow> string \<Rightarrow> upload option) \<Rightarrow> bool" where
  "s3_store cl objects uploads \<longleftrightarrow>
     (\<forall>key s s' r. sc_create cl key s = (s', r) \<longrightarrow> objects s' = objects s
        \<and> (case r of Inr (Some uid) \<Rightarrow> if uid = [] then uploads s' = uploads s else uploads s uid = None \<and> uploads s' = (uploads s)(uid \<mapsto> [])
            | _ \<Rightarrow> uploads s' = uploads s))
     \<and> (\<forall>key uid n bs s s' r ps. sc_part cl key uid n bs s = (s', r) \<longrightarrow> uploads s uid = Some ps \<longrightarrow> objects s' = objects s
        \<and> (case r of Inr (Some etag) \<Rightarrow> etag \<noteq> [] \<longrightarrow> uploads s' = (uploads s)(uid \<mapsto> ps @ [(etag, n, bs)]) | _ \<Rightarrow> True)
        \<and> (\<forall>u. u \<noteq> uid \<longrightarrow> uploads s' u = uploads s u))
     \<and> (\<forall>key uid parts s s' ps. sc_complete cl key uid parts s = (s', None) \<longrightarrow> uploads s uid = Some ps \<longrightarrow>
          parts = partKeys ps \<longrightarrow> sorted_wrt (<) (map snd parts) \<longrightarrow>
          objects s' = (objects s)(key \<mapsto> partBytes ps) \<and> uploads s' = (uploads s)(uid := None))
     \<and> (\<forall>key uid parts s s' e. sc_complete cl key uid parts s = (s', Some e) \<longrightarrow>
          objects s' = objects s \<and> (\<forall>u. u \<noteq> uid \<longrightarrow> uploads s' u = uploads s u))
     \<and> (\<forall>key uid s. objects (sc_abort cl key uid s) = objects s \<and> uploads (sc_abort cl key uid s) = (uploads s)(uid := None))
     \<and> (\<forall>key body n s s' r. sc_put cl key body n s = (s', r) \<longrightarrow> uploads s' = uploads s
        \<and> (case r of Some e \<Rightarrow> objects s' = objects s
            | None \<Rightarrow> \<not> snd body \<and> int (length (fst body)) = n \<and> objects s' = (objects s)(key \<mapsto> fst body)))"

lemma s3_storeD:
  assumes "s3_store cl objects uploads"
  shows "sc_create cl key s = (s', r) \<Longrightarrow> objects s' = objects s
        \<and> (case r of Inr (Some uid) \<Rightarrow> if uid = [] then uploads s' = uploads s else uploads s uid = None \<and> uploads s' = (uploads s)(uid \<mapsto> [])
            | _ \<Rightarrow> uploads s' = uploads s)"
    "sc_part cl key uid n bs s = (s', r2) \<Longrightarrow> uploads s uid = Some ps \<Longrightarrow> objects s' = objects s
        \<and> (case r2 of Inr (Some etag) \<Rightarrow> etag \<noteq> [] \<longrightarrow> uploads s' = (uploads s)(uid \<mapsto> ps @ [(etag, n, bs)]) | _ \<Rightarrow> True)
        \<and> (\<forall>u. u \<noteq> uid \<longrightarrow> uploads s' u = uploads s u)"
    "sc_complete cl key uid parts s = (s', None) \<Longrightarrow> uploads s uid = Some ps \<Longrightarrow>
          parts = partKeys ps \<Longrightarrow> sorted_wrt (<) (map snd parts) \<Longrightarrow>
          objects s' = (objects s)(key \<mapsto> partBytes ps) \<and> uploads s' = (uploads s)(uid := None)"
    "sc_complete cl key uid parts s = (s', Some e) \<Longrightarrow>
          objects s' = objects s \<and> (\<forall>u. u \<noteq> uid \<longrightarrow> uploads s' u = uploads s u)"
    "objects (sc_abort cl key uid s) = objects s \<and> uploads (sc_abort cl key uid s) = (uploads s)(uid := None)"
    "sc_put cl key body n s = (s', r3) \<Longrightarrow> uploads s' = uploads s
        \<and> (case r3 of Some e \<Rightarrow> objects s' = objects s
            | None \<Rightarrow> \<not> snd body \<and> int (length (fst body)) = n \<and> objects s' = (objects s)(key \<mapsto> fst body))"
proof -
  note l1 = assms [unfolded s3_store_def, THEN conjunct1, rule_format]
  note r1 = assms [unfolded s3_store_def, THEN conjunct2]
  note l2 = r1 [THEN conjunct1, rule_format] and r2 = r1 [THEN conjunct2]
  note l3 = r2 [THEN conjunct1, rule_format] and r3 = r2 [THEN conjunct2]
  note l4 = r3 [THEN conjunct1, rule_format] and r4 = r3 [THEN conjunct2]
  note l5 = r4 [THEN conjunct1, rule_format] and l6 = r4 [THEN conjunct2, rule_format]
  show "sc_create cl key s = (s', r) \<Longrightarrow> objects s' = objects s
        \<and> (case r of Inr (Some uid) \<Rightarrow> if uid = [] then uploads s' = uploads s else uploads s uid = None \<and> uploads s' = (uploads s)(uid \<mapsto> [])
            | _ \<Rightarrow> uploads s' = uploads s)" by (rule l1)
  show "sc_part cl key uid n bs s = (s', r2) \<Longrightarrow> uploads s uid = Some ps \<Longrightarrow> objects s' = objects s
        \<and> (case r2 of Inr (Some etag) \<Rightarrow> etag \<noteq> [] \<longrightarrow> uploads s' = (uploads s)(uid \<mapsto> ps @ [(etag, n, bs)]) | _ \<Rightarrow> True)
        \<and> (\<forall>u. u \<noteq> uid \<longrightarrow> uploads s' u = uploads s u)" by (rule l2)
  show "sc_complete cl key uid parts s = (s', None) \<Longrightarrow> uploads s uid = Some ps \<Longrightarrow>
          parts = partKeys ps \<Longrightarrow> sorted_wrt (<) (map snd parts) \<Longrightarrow>
          objects s' = (objects s)(key \<mapsto> partBytes ps) \<and> uploads s' = (uploads s)(uid := None)" by (rule l3)
  show "sc_complete cl key uid parts s = (s', Some e) \<Longrightarrow>
          objects s' = objects s \<and> (\<forall>u. u \<noteq> uid \<longrightarrow> uploads s' u = uploads s u)" by (rule l4)
  show "objects (sc_abort cl key uid s) = objects s \<and> uploads (sc_abort cl key uid s) = (uploads s)(uid := None)" by (rule l5)
  show "sc_put cl key body n s = (s', r3) \<Longrightarrow> uploads s' = uploads s
        \<and> (case r3 of Some e \<Rightarrow> objects s' = objects s
            | None \<Rightarrow> \<not> snd body \<and> int (length (fst body)) = n \<and> objects s' = (objects s)(key \<mapsto> fst body))" by (rule l6)
qed

lemma upload_gone:
  assumes "\<forall>u. u \<noteq> uid \<longrightarrow> up1 u = up0 u"
  shows "up1(uid := None) = up0(uid := (None :: upload option))"
  using assms by (auto simp: fun_eq_iff)

lemma multiLoop_outcome:
  assumes L: "s3_store cl objects uploads" and part: "0 < s3_MultipartPartSize cfg"
    and "uploads s uid = Some ps" "parts = partKeys ps" "map snd parts = map int [1..<Suc (length ps)]" "pn = int (length ps) + 1"
    "0 \<le> remaining" "0 < remaining \<longrightarrow> remaining + s3_MultipartPartSize cfg * int (length ps) < s3_MultipartPartSize cfg * (2 ^ 31 - 2)"
  shows "\<exists>s' err. multiLoop cl cfg key uid remaining pn parts src fails s = Some (s', err)
    \<and> uploads s' = (uploads s)(uid := None)
    \<and> (case err of None \<Rightarrow> remaining \<le> int (length src) \<and> objects s' = (objects s)(key \<mapsto> partBytes ps @ take (nat remaining) src)
        | Some _ \<Rightarrow> objects s' = objects s)"
  using assms(3-8)
proof (induction "nat remaining" arbitrary: remaining pn parts src s ps rule: less_induct)
  case less
  let ?part = "s3_MultipartPartSize cfg"
  have sorted: "sorted_wrt (<) (map snd parts)" unfolding less.prems(3) sorted_wrt_map
    by (rule sorted_wrt_mono_rel [OF _ sorted_wrt_upt]) simp
  note ab = s3_storeD(5) [OF L, of key uid]
  show ?case
  proof (cases "0 < remaining")
    case False
    then have z: "remaining = 0" using less.prems(5) by simp
    obtain s1 r where c: "sc_complete cl key uid parts s = (s1, r)" by fastforce
    show ?thesis
    proof (cases r)
      case None
      with s3_storeD(3) [OF L, of key uid parts s s1 ps] c less.prems(1,2) sorted z part
      show ?thesis by (subst multiLoop.simps) simp
    next
      case (Some e)
      with s3_storeD(4) [OF L, of key uid parts s s1 e] c ab [of s1] z part show ?thesis
        by (subst multiLoop.simps) (simp add: upload_gone mapErr_def)
    qed
  next
    case True
    define want where "want = (if remaining < ?part then remaining else ?part)"
    have want: "0 < want" "want \<le> remaining" "want = remaining \<or> want = ?part" using True part by (auto simp: want_def)
    have unf: "multiLoop cl cfg key uid remaining pn parts src fails s =
      (case readFull want src fails of
           FullFailed \<Rightarrow> Some (sc_abort cl key uid s, Some (Errorf ''s3: multipart put %q: read source: %w'' []))
         | FullEnded n \<Rightarrow>
             Some (sc_abort cl key uid s,
               Some (Wrap ''s3: multipart put %q: source ended after %d fewer bytes than declared: %w'' [remaining - int n] ErrShortRead))
         | FullBytes bs rest \<Rightarrow>
             (case sc_part cl key uid pn bs s of
                (s1, Inl e) \<Rightarrow> Some (sc_abort cl key uid s1, mapErr (''upload part '' @ itoa pn @ '' for '' @ key) (Some e))
              | (s1, Inr etag) \<Rightarrow>
                  if etag = None \<or> etag = Some []
                  then Some (sc_abort cl key uid s1, Some (Errorf ''s3: upload part %d for %q: missing ETag'' [pn]))
                  else multiLoop cl cfg key uid (remaining - want) (i32 (pn + 1)) (parts @ [(the etag, pn)]) rest fails s1))"
      using True part by (subst multiLoop.simps) (simp only: want_def Let_def not_le [symmetric] if_False not_not if_True split: if_split)
    show ?thesis
    proof (cases "nat want \<le> length src")
      case False
      then show ?thesis using ab [of s] unfolding unf by (simp add: readFull_def)
    next
      case enough: True
      let ?bs = "take (nat want) src" and ?rest = "drop (nat want) src"
      have rf: "readFull want src fails = FullBytes ?bs ?rest" using enough by (simp add: readFull_def)
      obtain s1 r where p: "sc_part cl key uid pn ?bs s = (s1, r)" by fastforce
      note pt = s3_storeD(2) [OF L p less.prems(1)]
      show ?thesis
      proof (cases "\<exists>etag. r = Inr (Some etag) \<and> etag \<noteq> []")
        case False
        then have "multiLoop cl cfg key uid remaining pn parts src fails s = Some (sc_abort cl key uid s1,
            Some (case r of Inl e \<Rightarrow> the (mapErr (''upload part '' @ itoa pn @ '' for '' @ key) (Some e))
              | Inr _ \<Rightarrow> Errorf ''s3: upload part %d for %q: missing ETag'' [pn]))"
          unfolding unf rf by (auto simp: p mapErr_def split: sum.split option.split)
        then show ?thesis using pt ab [of s1] by (auto intro: upload_gone)
      next
        case True
        then obtain etag where r: "r = Inr (Some etag)" "etag \<noteq> []" by blast
        let ?ps = "ps @ [(etag, pn, ?bs)]"
        have up: "uploads s1 = (uploads s)(uid \<mapsto> ?ps)" "objects s1 = objects s" using pt r by simp_all
        have len: "int (length ps) < 2 ^ 31 - 2"
        proof -
          have "?part * int (length ps) < ?part * (2 ^ 31 - 2)" using less.prems(6) \<open>0 < remaining\<close> by linarith
          then show ?thesis using part by (simp only: mult_less_cancel_left_pos)
        qed
        have i: "i32 (pn + 1) = pn + 1" using len less.prems(4) by (simp add: i32_def)
        have step: "multiLoop cl cfg key uid remaining pn parts src fails s =
            multiLoop cl cfg key uid (remaining - want) (pn + 1) (parts @ [(etag, pn)]) ?rest fails s1"
          unfolding unf rf using r by (simp add: p i)
        have dec: "nat (remaining - want) < nat remaining" using want by linarith
        have k1: "uploads s1 uid = Some ?ps" using up(1) by simp
        have k2: "parts @ [(etag, pn)] = partKeys ?ps" by (simp add: less.prems(2) partKeys_def)
        have k3: "map snd (parts @ [(etag, pn)]) = map int [1..<Suc (length ?ps)]" using less.prems(3,4) by simp
        have k4: "pn + 1 = int (length ?ps) + 1" using less.prems(4) by simp
        have k5: "0 \<le> remaining - want" using want by simp
        have k6: "0 < remaining - want \<longrightarrow> remaining - want + ?part * int (length ?ps) < ?part * (2 ^ 31 - 2)"
          using less.prems(6) want by (auto simp: algebra_simps)
        from less.hyps [OF dec k1 k2 k3 k4 k5 k6, of ?rest]
        obtain s' err where ih: "multiLoop cl cfg key uid (remaining - want) (pn + 1) (parts @ [(etag, pn)]) ?rest fails s1 = Some (s', err)"
          "uploads s' = (uploads s1)(uid := None)"
          "case err of None \<Rightarrow> remaining - want \<le> int (length ?rest) \<and> objects s' = (objects s1)(key \<mapsto> partBytes ?ps @ take (nat (remaining - want)) ?rest)
            | Some _ \<Rightarrow> objects s' = objects s1" by blast
        have bytes: "partBytes ?ps @ take (nat (remaining - want)) ?rest = partBytes ps @ take (nat remaining) src"
        proof -
          have "nat remaining = nat want + nat (remaining - want)" using want by linarith
          then show ?thesis by (simp add: partBytes_def take_add)
        qed
        have "remaining \<le> int (length src)" if "remaining - want \<le> int (length ?rest)" using that enough want by simp
        then show ?thesis using ih up unfolding step bytes by (cases err) auto
      qed
    qed
  qed
qed

text \<open>Keys that pass the check stay below the prefix even where a store maps them to paths.\<close>

lemma checkKey_under:
  assumes "checkKey cfg key = None" "s3_KeyPrefix cfg = pre @ ''/''" "pre \<noteq> []"
  shows "under pre key"
proof -
  obtain r where r: "key = pre @ ''/'' @ r" using assms(1,2) by (auto simp: checkKey_def prefix_def split: if_splits)
  have abs: "isAbs key = isAbs pre" using assms(3) by (cases pre) (simp_all add: r isAbs_def)
  have "''..'' \<notin> set (splitOn key (CHR ''/''))" using assms(1,2) by (auto simp: checkKey_def split: if_splits)
  then have no: "''..'' \<notin> set (pathSegments key)" by (auto simp: pathSegments_def)
  have segs: "pathSegments key = pathSegments pre @ pathSegments r" unfolding r by (rule pathSegments_append)
  have "pathSegs key = pathSegs pre @ pathSegments r" "''..'' \<notin> set (pathSegments r)"
    using no unfolding segs pathSegs_def by (simp_all add: cleanSegs_plain)
  with abs show ?thesis unfolding under_def by blast
qed

section \<open>The property\<close>


section \<open>A store in memory\<close>

record bucket =
  bk_objects :: "(string \<times> byte list) list"
  bk_uploads :: "(string \<times> upload) list"

definition failed :: aws_error where
  "failed = \<lparr>ae_status = Some 400, ae_code = None, ae_text = []\<rparr>"

definition bucket_client :: "bucket s3_client" where
  "bucket_client = \<lparr>
     sc_put = (\<lambda>key body n b. if \<not> snd body \<and> int (length (fst body)) = n
        then (b\<lparr>bk_objects := AList.update key (fst body) (bk_objects b)\<rparr>, None) else (b, Some failed)),
     sc_get = (\<lambda>key a z b. (b, case map_of (bk_objects b) key of None \<Rightarrow> Inl failed | Some d \<Rightarrow> Inr (file_read d a (z + 1 - a), False))),
     sc_head = (\<lambda>key b. (b, case map_of (bk_objects b) key of None \<Rightarrow> Inl failed | Some d \<Rightarrow> Inr (Some (int (length d))))),
     sc_delete = (\<lambda>key b. (b\<lparr>bk_objects := AList.delete key (bk_objects b)\<rparr>, None)),
     sc_create = (\<lambda>key b. let uid = concat (map fst (bk_uploads b)) @ ''u''
        in (b\<lparr>bk_uploads := AList.update uid [] (bk_uploads b)\<rparr>, Inr (Some uid))),
     sc_part = (\<lambda>key uid n bs b. case map_of (bk_uploads b) uid of None \<Rightarrow> (b, Inl failed)
        | Some ps \<Rightarrow> (b\<lparr>bk_uploads := AList.update uid (ps @ [(''e'', n, bs)]) (bk_uploads b)\<rparr>, Inr (Some ''e''))),
     sc_complete = (\<lambda>key uid parts b. case map_of (bk_uploads b) uid of None \<Rightarrow> (b, Some failed)
        | Some ps \<Rightarrow> if parts = partKeys ps
            then (b\<lparr>bk_objects := AList.update key (partBytes ps) (bk_objects b), bk_uploads := AList.delete uid (bk_uploads b)\<rparr>, None)
            else (b, Some failed)),
     sc_abort = (\<lambda>key uid b. b\<lparr>bk_uploads := AList.delete uid (bk_uploads b)\<rparr>)\<rparr>"

lemma fresh_upload: "map_of ups (concat (map fst ups) @ ''u'') = None"
proof (rule ccontr)
  assume "map_of ups (concat (map fst ups) @ ''u'') \<noteq> None"
  then have "concat (map fst ups) @ ''u'' \<in> fst ` set ups" by (metis map_of_eq_None_iff)
  then have "length (concat (map fst ups) @ ''u'') \<le> sum_list (map (length \<circ> fst) ups)"
    using member_le_sum_list [of "length (concat (map fst ups) @ ''u'')" "map (length \<circ> fst) ups"] by force
  then show False by (simp add: length_concat comp_def)
qed

lemma bucket_store: "s3_store bucket_client (\<lambda>b. map_of (bk_objects b)) (\<lambda>b. map_of (bk_uploads b))"
  unfolding s3_store_def bucket_client_def
  by (auto simp: fresh_upload Let_def fun_eq_iff split: if_splits option.splits)

definition sample_s3 :: s3_config where
  "sample_s3 = \<lparr>s3_Endpoint = [], s3_Region = defaultRegion, s3_Bucket = ''b'', s3_PathStyle = False, s3_AccessKey = [],
     s3_SecretKey = [], s3_SessionToken = [], s3_MultipartThreshold = 2, s3_MultipartPartSize = 2,
     s3_DisableHTTPKeepAlive = False, s3_HeadOnOpen = False, s3_KeyPrefix = ''p/''\<rparr>"


end
