(* ===== verification/Cluster_Wire.thy ===== *)
theory Cluster_Wire
  imports Run_Report S3_Engine
begin

text \<open>
  The types that a cluster run sends between coordinator and workers, \<open>plan.go\<close> and \<open>convert.go\<close> of
  \<open>pkg/cluster\<close>: the Go structures, the messages of the wire, the conversions both ways, and what
  survives the way there and back.
\<close>

section \<open>The in-memory types\<close>

definition Version :: string where "Version = ''0.3.0''"

record engine_spec =
  es_Name :: string
  es_CacheMode :: string
  es_AllowDirect :: bool
  es_DirectFallback :: bool
  es_DirectAlign :: int
  es_Root :: string
  es_S3 :: s3_config
  es_TargetSizes :: "(string \<times> int) list option"

record cluster_plan =
  cl_TracePath :: string
  cl_TraceBytes :: "byte list"
  cl_AssignedStreams :: "int list"
  cl_Engine :: engine_spec
  cl_Mode :: string
  cl_MaxInflight :: int
  cl_SpeedupFactor :: f64
  cl_TargetRewrite :: "rule list"
  cl_AllowPassthrough :: bool
  cl_PrepareMode :: string
  cl_PrepareScope :: string
  cl_SourceRoot :: string
  cl_CacheMode :: string
  cl_FillMode :: string
  cl_FillSeed :: int

record worker_info =
  wi_Hostname :: string
  wi_CPUs :: int
  wi_Version :: string

record prepare_result =
  pr_PrepStats :: prep_stats
  pr_CacheResult :: "string cache_result"
  pr_ReplayEquivalence :: string

definition PrepareScopeShared :: string where "PrepareScopeShared = ''shared''"
definition PrepareScopePerWorker :: string where "PrepareScopePerWorker = ''per-worker''"

definition resolvePrepareScope :: "cluster_plan \<Rightarrow> string" where
  "resolvePrepareScope p =
     (if cl_PrepareScope p \<in> {PrepareScopeShared, PrepareScopePerWorker} then cl_PrepareScope p
      else if es_Name (cl_Engine p) = ''s3'' then PrepareScopeShared else PrepareScopePerWorker)"

definition zeroS3 :: s3_config where
  "zeroS3 = \<lparr>s3_Endpoint = [], s3_Region = [], s3_Bucket = [], s3_PathStyle = False, s3_AccessKey = [], s3_SecretKey = [],
     s3_SessionToken = [], s3_MultipartThreshold = 0, s3_MultipartPartSize = 0, s3_DisableHTTPKeepAlive = False,
     s3_HeadOnOpen = False, s3_KeyPrefix = []\<rparr>"

definition zeroSpec :: engine_spec where
  "zeroSpec = \<lparr>es_Name = [], es_CacheMode = [], es_AllowDirect = False, es_DirectFallback = False, es_DirectAlign = 0,
     es_Root = [], es_S3 = zeroS3, es_TargetSizes = None\<rparr>"

definition zeroInfo :: worker_info where "zeroInfo = \<lparr>wi_Hostname = [], wi_CPUs = 0, wi_Version = []\<rparr>"

definition zeroPrepare :: prepare_result where
  "zeroPrepare = \<lparr>pr_PrepStats = noStats, pr_CacheResult = noCache, pr_ReplayEquivalence = []\<rparr>"

section \<open>The messages\<close>

text \<open>
  A message as its receiver sees it. A sub-message may be absent; a repeated field or a map that
  was not set and an empty one are the same.
\<close>

record pb_s3 =
  ws_endpoint :: string
  ws_region :: string
  ws_bucket :: string
  ws_path_style :: bool
  ws_access_key :: string
  ws_secret_key :: string
  ws_session_token :: string
  ws_multipart_threshold :: int
  ws_multipart_part_size :: int
  ws_disable_http_keep_alive :: bool
  ws_head_on_open :: bool

record pb_engine =
  we_name :: string
  we_cache_mode :: string
  we_allow_direct :: bool
  we_direct_fallback :: bool
  we_direct_align :: int
  we_s3 :: "pb_s3 option"
  we_target_sizes :: "(string \<times> int) list"

record pb_plan =
  wp_trace_path :: string
  wp_trace_bytes :: "byte list"
  wp_assigned_streams :: "int list"
  wp_engine :: "pb_engine option"
  wp_mode :: string
  wp_max_inflight :: int
  wp_speedup_factor :: f64
  wp_target_rewrite :: "(string \<times> string) list"
  wp_allow_passthrough :: bool
  wp_prepare_mode :: string
  wp_source_root :: string
  wp_cache_mode :: string
  wp_prepare_scope :: string
  wp_fill_mode :: string
  wp_fill_seed :: int

record pb_info =
  wn_hostname :: string
  wn_cpus :: int
  wn_version :: string

record pb_prep_stats =
  wt_verified :: int
  wt_created :: int
  wt_copied :: int
  wt_skipped_size_unknown :: int
  wt_derived_size_from_ops :: int
  wt_touched_same_data :: bool

record pb_cache_result =
  wk_actions :: "string list"
  wk_limitations :: "string list"
  wk_primed :: int

record pb_ack =
  wa_prep_stats :: "pb_prep_stats option"
  wa_cache_result :: "pb_cache_result option"
  wa_replay_equivalence :: string

record pb_hist =
  wh_low :: int
  wh_high :: int
  wh_sig_figs :: int
  wh_counts :: "int list"

record pb_recorder =
  wr_histograms :: "(string \<times> pb_hist) list"
  wr_drift_hist :: "pb_hist option"
  wr_completion_lag_hist :: "pb_hist option"
  wr_counts :: "(string \<times> int) list"
  wr_bytes :: int
  wr_errors :: int
  wr_backlog_events :: int
  wr_backlog_blocked_ns :: int
  wr_max_inflight_depth :: int
  wr_peak_inflight :: int
  wr_service_histograms :: "(string \<times> pb_hist) list"
  wr_short_reads :: int
  wr_histogram_overflows :: int

record pb_results =
  wq_recorder :: "pb_recorder option"
  wq_cpu :: "cpu option"
  wq_actual_num_ops :: int
  wq_first_done_ns :: int
  wq_last_done_ns :: int
  wq_hostname :: string
  wq_peak_by_stream :: "(int \<times> int) list"
  wq_engine_limitations :: "string list"
  wq_time_series :: "progress_point list"

section \<open>Plans\<close>

definition s3ConfigToProto :: "s3_config \<Rightarrow> pb_s3" where
  "s3ConfigToProto c = \<lparr>ws_endpoint = s3_Endpoint c, ws_region = s3_Region c, ws_bucket = s3_Bucket c,
     ws_path_style = s3_PathStyle c, ws_access_key = s3_AccessKey c, ws_secret_key = s3_SecretKey c,
     ws_session_token = s3_SessionToken c, ws_multipart_threshold = s3_MultipartThreshold c,
     ws_multipart_part_size = s3_MultipartPartSize c, ws_disable_http_keep_alive = s3_DisableHTTPKeepAlive c,
     ws_head_on_open = s3_HeadOnOpen c\<rparr>"

definition s3ConfigFromProto :: "pb_s3 option \<Rightarrow> s3_config" where
  "s3ConfigFromProto pb =
     (case pb of None \<Rightarrow> zeroS3
      | Some m \<Rightarrow> \<lparr>s3_Endpoint = ws_endpoint m, s3_Region = ws_region m, s3_Bucket = ws_bucket m,
          s3_PathStyle = ws_path_style m, s3_AccessKey = ws_access_key m, s3_SecretKey = ws_secret_key m,
          s3_SessionToken = ws_session_token m, s3_MultipartThreshold = ws_multipart_threshold m,
          s3_MultipartPartSize = ws_multipart_part_size m, s3_DisableHTTPKeepAlive = ws_disable_http_keep_alive m,
          s3_HeadOnOpen = ws_head_on_open m, s3_KeyPrefix = []\<rparr>)"

definition engineSpecToProto :: "engine_spec \<Rightarrow> pb_engine" where
  "engineSpecToProto e = \<lparr>we_name = es_Name e, we_cache_mode = es_CacheMode e, we_allow_direct = es_AllowDirect e,
     we_direct_fallback = es_DirectFallback e, we_direct_align = es_DirectAlign e, we_s3 = Some (s3ConfigToProto (es_S3 e)),
     we_target_sizes = (case es_TargetSizes e of None \<Rightarrow> [] | Some m \<Rightarrow> m)\<rparr>"

definition engineSpecFromProto :: "pb_engine option \<Rightarrow> engine_spec" where
  "engineSpecFromProto pb =
     (case pb of None \<Rightarrow> zeroSpec
      | Some m \<Rightarrow> \<lparr>es_Name = we_name m, es_CacheMode = we_cache_mode m, es_AllowDirect = we_allow_direct m,
          es_DirectFallback = we_direct_fallback m, es_DirectAlign = we_direct_align m, es_Root = [],
          es_S3 = s3ConfigFromProto (we_s3 m),
          es_TargetSizes = (if we_target_sizes m = [] then None else Some (we_target_sizes m))\<rparr>)"

definition planToProto :: "cluster_plan \<Rightarrow> pb_plan" where
  "planToProto p = \<lparr>wp_trace_path = cl_TracePath p, wp_trace_bytes = cl_TraceBytes p, wp_assigned_streams = cl_AssignedStreams p,
     wp_engine = Some (engineSpecToProto (cl_Engine p)), wp_mode = cl_Mode p, wp_max_inflight = i32 (cl_MaxInflight p),
     wp_speedup_factor = cl_SpeedupFactor p, wp_target_rewrite = map (\<lambda>r. (rule_From r, rule_To r)) (cl_TargetRewrite p),
     wp_allow_passthrough = cl_AllowPassthrough p, wp_prepare_mode = cl_PrepareMode p, wp_source_root = cl_SourceRoot p,
     wp_cache_mode = cl_CacheMode p, wp_prepare_scope = cl_PrepareScope p, wp_fill_mode = cl_FillMode p, wp_fill_seed = cl_FillSeed p\<rparr>"

definition planFromProto :: "pb_plan \<Rightarrow> cluster_plan" where
  "planFromProto m = \<lparr>cl_TracePath = wp_trace_path m, cl_TraceBytes = wp_trace_bytes m, cl_AssignedStreams = wp_assigned_streams m,
     cl_Engine = engineSpecFromProto (wp_engine m), cl_Mode = wp_mode m, cl_MaxInflight = wp_max_inflight m,
     cl_SpeedupFactor = wp_speedup_factor m, cl_TargetRewrite = map (\<lambda>(f, t). \<lparr>rule_From = f, rule_To = t\<rparr>) (wp_target_rewrite m),
     cl_AllowPassthrough = wp_allow_passthrough m, cl_PrepareMode = wp_prepare_mode m, cl_PrepareScope = wp_prepare_scope m,
     cl_SourceRoot = wp_source_root m, cl_CacheMode = wp_cache_mode m, cl_FillMode = wp_fill_mode m, cl_FillSeed = wp_fill_seed m\<rparr>"

section \<open>Identity and the prepare acknowledgement\<close>

definition workerInfoToProto :: "worker_info \<Rightarrow> pb_info" where
  "workerInfoToProto w = \<lparr>wn_hostname = wi_Hostname w, wn_cpus = i32 (wi_CPUs w), wn_version = wi_Version w\<rparr>"

definition workerInfoFromProto :: "pb_info option \<Rightarrow> worker_info" where
  "workerInfoFromProto pb =
     (case pb of None \<Rightarrow> zeroInfo | Some m \<Rightarrow> \<lparr>wi_Hostname = wn_hostname m, wi_CPUs = wn_cpus m, wi_Version = wn_version m\<rparr>)"

definition prepareAckToProto :: "prepare_result \<Rightarrow> pb_ack" where
  "prepareAckToProto r =
     (let s = pr_PrepStats r; c = pr_CacheResult r in
      \<lparr>wa_prep_stats = Some \<lparr>wt_verified = i32 (pt_Verified s), wt_created = i32 (pt_Created s), wt_copied = i32 (pt_Copied s),
         wt_skipped_size_unknown = i32 (pt_SkippedSizeUnknown s), wt_derived_size_from_ops = i32 (pt_DerivedSizeFromOps s),
         wt_touched_same_data = pt_TouchedSameData s\<rparr>,
       wa_cache_result = Some \<lparr>wk_actions = cr_Actions c, wk_limitations = cr_Limitations c, wk_primed = i32 (cr_Primed c)\<rparr>,
       wa_replay_equivalence = pr_ReplayEquivalence r\<rparr>)"

definition prepareAckFromProto :: "pb_ack option \<Rightarrow> prepare_result" where
  "prepareAckFromProto pb =
     (case pb of None \<Rightarrow> zeroPrepare
      | Some m \<Rightarrow>
         \<lparr>pr_PrepStats = (case wa_prep_stats m of None \<Rightarrow> noStats
            | Some s \<Rightarrow> \<lparr>pt_Verified = wt_verified s, pt_Created = wt_created s, pt_Copied = wt_copied s,
                pt_SkippedSizeUnknown = wt_skipped_size_unknown s, pt_DerivedSizeFromOps = wt_derived_size_from_ops s,
                pt_TouchedSameData = wt_touched_same_data s\<rparr>),
          pr_CacheResult = (case wa_cache_result m of None \<Rightarrow> noCache
            | Some c \<Rightarrow> \<lparr>cr_Actions = wk_actions c, cr_Limitations = wk_limitations c, cr_Primed = wk_primed c\<rparr>),
          pr_ReplayEquivalence = wa_replay_equivalence m\<rparr>)"

section \<open>A worker's results\<close>

definition histSnapshotToProto :: "hdr_snapshot \<Rightarrow> pb_hist" where
  "histSnapshotToProto h = \<lparr>wh_low = hs_Low h, wh_high = hs_High h, wh_sig_figs = i32 (hs_SigFigs h), wh_counts = hs_Counts h\<rparr>"

definition histSnapshotFromProto :: "pb_hist option \<Rightarrow> hdr_snapshot" where
  "histSnapshotFromProto pb =
     (case pb of None \<Rightarrow> \<lparr>hs_Low = 0, hs_High = 0, hs_SigFigs = 0, hs_Counts = []\<rparr>
      | Some m \<Rightarrow> \<lparr>hs_Low = wh_low m, hs_High = wh_high m, hs_SigFigs = wh_sig_figs m, hs_Counts = wh_counts m\<rparr>)"

definition recorderSnapshotToProto :: "recorder_snapshot \<Rightarrow> pb_recorder" where
  "recorderSnapshotToProto s =
     \<lparr>wr_histograms = map (\<lambda>(k, h). (op_kind_string k, histSnapshotToProto h)) (rs_Histograms s),
      wr_drift_hist = map_option histSnapshotToProto (rs_DriftHist s),
      wr_completion_lag_hist = map_option histSnapshotToProto (rs_CompletionLagHist s),
      wr_counts = map (\<lambda>(k, c). (op_kind_string k, c)) (rs_Counts s),
      wr_bytes = rs_Bytes s, wr_errors = rs_Errors s, wr_backlog_events = rs_BacklogEvents s,
      wr_backlog_blocked_ns = rs_BacklogBlockedNS s, wr_max_inflight_depth = rs_MaxInflightDepth s,
      wr_peak_inflight = rs_PeakInflight s,
      wr_service_histograms = map (\<lambda>(k, h). (op_kind_string k, histSnapshotToProto h)) (rs_ServiceHistograms s),
      wr_short_reads = rs_ShortReads s, wr_histogram_overflows = rs_HistogramOverflows s\<rparr>"

definition recorderSnapshotFromProto :: "pb_recorder option \<Rightarrow> recorder_snapshot" where
  "recorderSnapshotFromProto pb =
     (case pb of
        None \<Rightarrow> \<lparr>rs_Histograms = [], rs_ServiceHistograms = [], rs_DriftHist = None, rs_CompletionLagHist = None, rs_Counts = [],
          rs_Bytes = 0, rs_Errors = 0, rs_ShortReads = 0, rs_HistogramOverflows = 0, rs_BacklogEvents = 0,
          rs_BacklogBlockedNS = 0, rs_MaxInflightDepth = 0, rs_PeakInflight = 0\<rparr>
      | Some m \<Rightarrow> \<lparr>rs_Histograms = map (\<lambda>(k, h). (op_kind_of k, histSnapshotFromProto (Some h))) (wr_histograms m),
          rs_ServiceHistograms = map (\<lambda>(k, h). (op_kind_of k, histSnapshotFromProto (Some h))) (wr_service_histograms m),
          rs_DriftHist = map_option (\<lambda>h. histSnapshotFromProto (Some h)) (wr_drift_hist m),
          rs_CompletionLagHist = map_option (\<lambda>h. histSnapshotFromProto (Some h)) (wr_completion_lag_hist m),
          rs_Counts = map (\<lambda>(k, c). (op_kind_of k, c)) (wr_counts m),
          rs_Bytes = wr_bytes m, rs_Errors = wr_errors m, rs_ShortReads = wr_short_reads m,
          rs_HistogramOverflows = wr_histogram_overflows m, rs_BacklogEvents = wr_backlog_events m,
          rs_BacklogBlockedNS = wr_backlog_blocked_ns m, rs_MaxInflightDepth = wr_max_inflight_depth m,
          rs_PeakInflight = wr_peak_inflight m\<rparr>)"

definition workerOutputToProto :: "'h hdr_lib \<Rightarrow> 'h worker_output \<Rightarrow> pb_results" where
  "workerOutputToProto L out =
     \<lparr>wq_recorder = Some (recorderSnapshotToProto (exportRecorder L (wo_Recorder out))), wq_cpu = Some (wo_CPU out),
      wq_actual_num_ops = wo_ActualNumOps out, wq_first_done_ns = wo_FirstDoneNS out, wq_last_done_ns = wo_LastDoneNS out,
      wq_hostname = wo_Hostname out, wq_peak_by_stream = wo_PeakByStream out,
      wq_engine_limitations = wo_EngineLimitations out, wq_time_series = wo_TimeSeries out\<rparr>"

definition workerOutputFromProto :: "'h hdr_lib \<Rightarrow> pb_results \<Rightarrow> 'h worker_output" where
  "workerOutputFromProto L m =
     \<lparr>wo_Hostname = wq_hostname m, wo_Recorder = importRecorder L (recorderSnapshotFromProto (wq_recorder m)),
      wo_PeakByStream = wq_peak_by_stream m, wo_CPU = (case wq_cpu m of None \<Rightarrow> zeroCPU | Some c \<Rightarrow> c),
      wo_ActualNumOps = wq_actual_num_ops m, wo_FirstDoneNS = wq_first_done_ns m, wo_LastDoneNS = wq_last_done_ns m,
      wo_EngineLimitations = wq_engine_limitations m, wo_TimeSeries = wq_time_series m\<rparr>"

section \<open>Round trips\<close>

definition in32 :: "int \<Rightarrow> bool" where "in32 x \<longleftrightarrow> - (2 ^ 31) \<le> x \<and> x < 2 ^ 31"

lemma i32_id: "in32 x \<Longrightarrow> i32 x = x"
  by (simp add: i32_def in32_def)

text \<open>What the wire carries of an engine: not the root, nor the prefix made from it.\<close>

definition carried :: "engine_spec \<Rightarrow> engine_spec" where
  "carried e = e\<lparr>es_Root := [], es_S3 := (es_S3 e)\<lparr>s3_KeyPrefix := []\<rparr>,
     es_TargetSizes := (if es_TargetSizes e = Some [] then None else es_TargetSizes e)\<rparr>"

lemma engineSpec_wire: "engineSpecFromProto (Some (engineSpecToProto e)) = carried e"
  by (simp add: engineSpecFromProto_def engineSpecToProto_def s3ConfigFromProto_def s3ConfigToProto_def carried_def
      split: option.split)

lemma plan_wire: "in32 (cl_MaxInflight p) \<Longrightarrow> planFromProto (planToProto p) = p\<lparr>cl_Engine := carried (cl_Engine p)\<rparr>"
  by (rule cluster_plan.equality)
    (simp_all add: planFromProto_def planToProto_def engineSpec_wire i32_id comp_def map_idI)

lemma plan_wire_truncates: "cl_MaxInflight p = 2 ^ 32 \<Longrightarrow> cl_MaxInflight (planFromProto (planToProto p)) = 0"
  by (simp add: planFromProto_def planToProto_def i32_def)

lemma ack_wire:
  assumes "\<forall>n \<in> {pt_Verified (pr_PrepStats r), pt_Created (pr_PrepStats r), pt_Copied (pr_PrepStats r),
      pt_SkippedSizeUnknown (pr_PrepStats r), pt_DerivedSizeFromOps (pr_PrepStats r), cr_Primed (pr_CacheResult r)}. in32 n"
  shows "prepareAckFromProto (Some (prepareAckToProto r)) = r"
  using assms by (simp add: prepareAckFromProto_def prepareAckToProto_def Let_def i32_id)

definition kinds_valid :: "(op_kind \<times> 'a) list \<Rightarrow> bool" where
  "kinds_valid xs \<longleftrightarrow> (\<forall>k \<in> fst ` set xs. op_kind_valid k)"

lemma keys_wire:
  "kinds_valid xs \<Longrightarrow> map ((\<lambda>(k, v). (op_kind_of k, g v)) \<circ> (\<lambda>(k, v). (op_kind_string k, f v))) xs = map (\<lambda>(k, v). (k, g (f v))) xs"
  by (induction xs) (auto simp: kinds_valid_def op_kind_of_string)

lemma hist_wire: "in32 (hs_SigFigs h) \<Longrightarrow> histSnapshotFromProto (Some (histSnapshotToProto h)) = h"
  by (simp add: histSnapshotFromProto_def histSnapshotToProto_def i32_id)


lemma exportHist_wire:
  assumes "hdr_laws L" "recorded L h"
  shows "histSnapshotFromProto (Some (histSnapshotToProto (exportHist L (Some h)))) = exportHist L (Some h)"
proof -
  have "hs_SigFigs (exportHist L (Some h)) = sigFigs"
    using hdr_export(3) [OF assms] by (simp add: exportHist_def Let_def)
  then show ?thesis by (intro hist_wire) (simp add: sigFigs_def in32_def)
qed

text \<open>The recorders of a run hold what some events report, and their keys are the trace's kinds.\<close>

definition recorder_kinds :: "'h recorder \<Rightarrow> bool" where
  "recorder_kinds r \<longleftrightarrow> kinds_valid (rc_hists r) \<and> kinds_valid (rc_serviceHists r) \<and> kinds_valid (rc_counts r)"

lemma hists_wire:
  assumes "hdr_laws L" "\<forall>h \<in> snd ` set hs. recorded L h" "kinds_valid hs"
  shows "map ((\<lambda>(k, h). (op_kind_of k, histSnapshotFromProto (Some h))) \<circ> (\<lambda>(k, h). (op_kind_string k, histSnapshotToProto h)))
     (map (\<lambda>(k, h). (k, exportHist L (Some h))) hs) = map (\<lambda>(k, h). (k, exportHist L (Some h))) hs"
  using assms(2,3) by (induction hs) (auto simp: kinds_valid_def op_kind_of_string exportHist_wire [OF assms(1)])

lemma recorder_wire:
  assumes "hdr_laws L" "recorder_wf L r" "recorder_kinds r"
  shows "recorderSnapshotFromProto (Some (recorderSnapshotToProto (exportRecorder L r))) = exportRecorder L r"
proof -
  have opt: "map_option (\<lambda>h. histSnapshotFromProto (Some h)) (map_option histSnapshotToProto (map_option (\<lambda>h. exportHist L (Some h)) x))
      = map_option (\<lambda>h. exportHist L (Some h)) x" if "\<forall>h \<in> set_option x. recorded L h" for x
    using that exportHist_wire [OF assms(1)] by (cases x) auto
  have counts: "map (\<lambda>x. case (case x of (k, c) \<Rightarrow> (op_kind_string k, c)) of (k, c) \<Rightarrow> (op_kind_of k, c)) (rc_counts r) = rc_counts r"
    using assms(3) keys_wire [of "rc_counts r" "\<lambda>x. x" "\<lambda>x. x"] by (simp add: recorder_kinds_def comp_def)
  have wf: "\<forall>h \<in> snd ` set (rc_hists r). recorded L h" "\<forall>h \<in> snd ` set (rc_serviceHists r). recorded L h"
    "\<forall>h \<in> set_option (rc_DriftHist r). recorded L h" "\<forall>h \<in> set_option (rc_CompletionLagHist r). recorded L h"
    using assms(2) by (auto simp: recorder_wf_def)
  show ?thesis
    using hists_wire [OF assms(1) wf(1)] hists_wire [OF assms(1) wf(2)] opt [OF wf(3)] opt [OF wf(4)] assms(3) counts
    by (simp add: recorderSnapshotFromProto_def recorderSnapshotToProto_def exportRecorder_def recorder_kinds_def comp_def)
qed

lemma output_wire:
  assumes "hdr_laws L" "recorder_wf L (wo_Recorder out)" "recorder_kinds (wo_Recorder out)"
  shows "workerOutputFromProto L (workerOutputToProto L out) = out"
  using assms by (simp add: workerOutputFromProto_def workerOutputToProto_def recorder_wire import_export_recorder)

end
