(* ===== verification/Cluster_Session.thy ===== *)
theory Cluster_Session
  imports Cluster_Wire
begin

text \<open>
  A worker of a cluster run, \<open>engine.go\<close> and \<open>worker.go\<close> of \<open>pkg/cluster\<close>: the construction of the engine
  from the plan, and the session with its phases prepare, run and collect, which are those of the
  executor, the scheduler and the report.
\<close>

section \<open>Building the engine\<close>

text \<open>What \<open>BuildEngine\<close> constructs, by the options it passes.\<close>

datatype built_engine =
    BuiltMem size_of
  | BuiltLocal bool bool int string
  | BuiltS3 s3_config

datatype build_err = BERoot string | BES3 s3_new_error | BEUnsupported string

definition buildEngine :: "engine_spec \<Rightarrow> string option \<Rightarrow> build_err + (built_engine \<times> string)" where
  "buildEngine spec loadErr =
     (if es_Root spec \<noteq> [] \<and> es_Name spec \<noteq> ''local'' \<and> es_Name spec \<noteq> ''s3'' then Inl (BERoot (es_Name spec))
      else if es_Name spec = ''mem'' then
        (let sizeMap = (case es_TargetSizes spec of None \<Rightarrow> [] | Some m \<Rightarrow> m) in
         Inr (BuiltMem (\<lambda>target. case map_of sizeMap target of Some sz \<Rightarrow> if sz > 0 then sz else 67108864 | None \<Rightarrow> 67108864), []))
      else if es_Name spec = ''local'' then
        Inr (BuiltLocal (es_AllowDirect spec) (es_DirectFallback spec) (es_DirectAlign spec) (es_Root spec), [])
      else if es_Name spec = ''s3'' then
        (let cfg = (es_S3 spec)\<lparr>s3_DisableHTTPKeepAlive := (es_CacheMode spec = ''cold''), s3_KeyPrefix := es_Root spec\<rparr>
         in case newS3 cfg loadErr of Inl e \<Rightarrow> Inl (BES3 e) | Inr c \<Rightarrow> Inr (BuiltS3 c, s3_Bucket cfg))
      else Inl (BEUnsupported (es_Name spec)))"

section \<open>A worker's session\<close>

text \<open>
  What a worker's host gives the session: how a file's bytes split into lines, the URL parser, the
  engine behind each construction with its initial state, the source tree, the eviction calls,
  the texts of the cache messages, the histogram library, the host's name and processors.
\<close>

record ('s, 'h) worker_env =
  ev_lines :: "byte list \<Rightarrow> raw_line list"
  ev_url :: url_parser
  ev_s3Load :: "string option"
  ev_engine :: "built_engine \<Rightarrow> 's engine \<times> 's"
  ev_source :: "string \<Rightarrow> source_file option"
  ev_cold :: "target_info list \<Rightarrow> cache_note list \<times> cache_note list"
  ev_note :: "cache_note \<Rightarrow> string"
  ev_hist :: "'h hdr_lib"
  ev_hostname :: string
  ev_cpus :: int

record ('s, 'h) session =
  sn_targetRoot :: string
  sn_exec :: "executor option"
  sn_eng :: "('s engine \<times> 's) option"
  sn_out :: "'h worker_output option"

datatype worker_err =
    WEParse trace_err
  | WEEngine build_err
  | WEPrepare prepare_error
  | WEMaterialize prep_err
  | WERunBeforePrepare
  | WEMode string
  | WECollectBeforeRun
  | WECanceled

definition newSession :: "string \<Rightarrow> ('s, 'h) session" where
  "newSession rootDir = \<lparr>sn_targetRoot = rootDir, sn_exec = None, sn_eng = None, sn_out = None\<rparr>"

definition sessionInfo :: "('s, 'h) worker_env \<Rightarrow> worker_info" where
  "sessionInfo env = \<lparr>wi_Hostname = ev_hostname env, wi_CPUs = ev_cpus env, wi_Version = Version\<rparr>"

definition fillModeOf :: "string \<Rightarrow> fill_mode" where
  "fillModeOf s = (if s = ''seeded'' then FillSeeded else if s = ''zero'' then FillZero else FillOther s)"

text \<open>The engine specification the worker uses: its own root wins over the plan's.\<close>

definition workerSpec :: "string \<Rightarrow> header \<Rightarrow> cluster_plan \<Rightarrow> engine_spec" where
  "workerSpec rootDir hdr p =
     (let e0 = cl_Engine p;
          e1 = (if es_CacheMode e0 = [] then e0\<lparr>es_CacheMode := cl_CacheMode p\<rparr> else e0);
          e2 = (if rootDir \<noteq> [] then e1\<lparr>es_Root := rootDir\<rparr> else e1)
      in if es_TargetSizes e2 = None
         then e2\<lparr>es_TargetSizes := Some (fold (\<lambda>t m. AList.update (ti_name t) (ti_size t) m) (hdr_targets hdr) [])\<rparr>
         else e2)"

definition replayPlan :: "cluster_plan \<Rightarrow> string \<Rightarrow> plan" where
  "replayPlan p bucket =
     \<lparr>pl_TracePath = cl_TracePath p, pl_EngineName = es_Name (cl_Engine p), pl_Mode = cl_Mode p,
      pl_MaxInflight = cl_MaxInflight p,
      pl_TargetMap = (if cl_TargetRewrite p \<noteq> [] \<or> cl_AllowPassthrough p
        then Some \<lparr>tm_Rules = cl_TargetRewrite p, tm_AllowPassthrough = cl_AllowPassthrough p\<rparr> else None),
      pl_Bucket = bucket, pl_PrepareMode = cl_PrepareMode p, pl_SourceRoot = cl_SourceRoot p,
      pl_CacheMode = cl_CacheMode p, pl_FillMode = fillModeOf (cl_FillMode p), pl_FillSeed = cl_FillSeed p\<rparr>"

text \<open>\<open>PrepareReader\<close>; nothing is kept of a preparation that fails.\<close>

definition sessionPrepare :: "('s, 'h) worker_env \<Rightarrow> ctx \<Rightarrow> cluster_plan \<Rightarrow> byte list \<Rightarrow> ('s, 'h) session \<Rightarrow> (('s, 'h) session \<times> (worker_err + prepare_result)) option" where
  "sessionPrepare env cx p traceData sess =
     (case newReader (ev_lines env traceData) of
        Inl e \<Rightarrow> Some (sess, Inl (WEParse e))
      | Inr r \<Rightarrow>
          (case buildEngine (workerSpec (sn_targetRoot sess) (rd_hdr r) p) (ev_s3Load env) of
             Inl e \<Rightarrow> Some (sess, Inl (WEEngine e))
           | Inr (built, bucket) \<Rightarrow>
               (case ev_engine env built of (eng, s0) \<Rightarrow>
               (case prepareAssigned (ev_url env) eng (replayPlan p bucket) r (cl_AssignedStreams p) of
                  Inl e \<Rightarrow> Some (sess, Inl (WEPrepare e))
                | Inr ex \<Rightarrow>
                    (case materialize eng (ev_source env) ex \<lparr>mt_prepStats = noStats, mt_materialized = False\<rparr> cx s0 of
                       None \<Rightarrow> None
                     | Some (s1, cx1, mt, Inl e) \<Rightarrow> Some (sess, Inl (WEMaterialize e))
                     | Some (s1, cx1, mt, Inr stats) \<Rightarrow>
                         (case applyCache eng (ev_cold env) ex s1 of
                            None \<Rightarrow> None
                          | Some (s2, res) \<Rightarrow>
                              Some (sess\<lparr>sn_exec := Some ex, sn_eng := Some (eng, s2), sn_out := None\<rparr>,
                                Inr \<lparr>pr_PrepStats = stats,
                                  pr_CacheResult = \<lparr>cr_Actions = map (ev_note env) (cr_Actions res),
                                    cr_Limitations = map (ev_note env) (cr_Limitations res), cr_Primed = cr_Primed res\<rparr>,
                                  pr_ReplayEquivalence = replayEquivalence ex\<rparr>)))))))"

text \<open>
  How one replay unfolded: the run it ended in, the order in which its streams reported, and the
  readings of the clocks. \<open>possible_run\<close> says which of them the scheduler can produce.
\<close>

record ('s, 'h) unfolding_run =
  ur_run :: "('s, 'h) run"
  ur_arrival :: "'h stream list"
  ur_doneNS :: "int list"
  ur_series :: progress_series
  ur_duration :: int
  ur_user :: int
  ur_sys :: int

definition runConfig :: "('s, 'h) worker_env \<Rightarrow> executor \<Rightarrow> 's engine \<Rightarrow> ('s, 'h) run_config" where
  "runConfig env ex eng =
     \<lparr>cf_eng = eng, cf_hdr = ex_hdr ex, cf_fill = pm_Fill (ex_prepMeta ex), cf_objSizes = ex_objectWriteSizes ex,
      cf_hist = ev_hist env, cf_maxInflight = pl_MaxInflight (ex_plan ex),
      cf_paced = (pl_Mode (ex_plan ex) \<in> {''timeline'', ''scaled'', ''think''})\<rparr>"

definition possible_run :: "('s, 'h) worker_env \<Rightarrow> ('s, 'h) unfolding_run \<Rightarrow> ('s, 'h) session \<Rightarrow> bool" where
  "possible_run env u sess =
     (case (sn_exec sess, sn_eng sess) of
        (Some ex, Some (eng, s)) \<Rightarrow>
          reachable (runConfig env ex eng) (ex_byStream ex) s (ur_run u) \<and> finished (ur_run u)
          \<and> mset (ur_arrival u) = mset (rn_streams (ur_run u)) \<and> length (ur_doneNS u) = length (ur_arrival u)
      | _ \<Rightarrow> True)"

text \<open>\<open>RunWorker\<close>: a cancelled run still has its partial output.\<close>

definition runWorker :: "('s, 'h) worker_env \<Rightarrow> ('s, 'h) unfolding_run \<Rightarrow> executor \<Rightarrow> 's \<Rightarrow> 's \<times> 'h worker_output option \<times> worker_err option" where
  "runWorker env u ex s =
     (if \<not> runModeOK ex then (s, None, Some (WEMode (pl_Mode (ex_plan ex))))
      else (rn_eng (ur_run u),
        Some (workerOutput (ev_hist env) (ex_byStream ex) (ur_run u)
          (map2 (\<lambda>st c. \<lparr>sr_sid = sm_sid st, sr_rec = sm_rec st, sr_completionNS = c\<rparr>) (ur_arrival u) (ur_doneNS u))
          (ur_series u) (ur_duration u) (ur_user u) (ur_sys u)),
        if rn_cancelled (ur_run u) then Some WECanceled else None))"

definition sessionRun :: "('s, 'h) worker_env \<Rightarrow> ('s, 'h) unfolding_run \<Rightarrow> ('s, 'h) session \<Rightarrow> ('s, 'h) session \<times> worker_err option" where
  "sessionRun env u sess =
     (case (sn_exec sess, sn_eng sess) of
        (Some ex, Some (eng, s)) \<Rightarrow>
          (case runWorker env u ex s of (s1, out, e) \<Rightarrow> (sess\<lparr>sn_eng := Some (eng, s1), sn_out := out\<rparr>, e))
      | _ \<Rightarrow> (sess, Some WERunBeforePrepare))"

definition engineLimitations :: "('s engine \<times> 's) option \<Rightarrow> string list" where
  "engineLimitations e =
     (case e of None \<Rightarrow> [] | Some (eng, s) \<Rightarrow> (case eng_limitations eng of None \<Rightarrow> [] | Some f \<Rightarrow> f s))"

definition sessionCollect :: "('s, 'h) worker_env \<Rightarrow> ('s, 'h) session \<Rightarrow> ('s, 'h) session \<times> (worker_err + 'h worker_output)" where
  "sessionCollect env sess =
     (case sn_out sess of
        None \<Rightarrow> (sess, Inl WECollectBeforeRun)
      | Some out \<Rightarrow>
          let out' = out\<lparr>wo_Hostname := ev_hostname env, wo_EngineLimitations := engineLimitations (sn_eng sess)\<rparr>
          in (sess\<lparr>sn_out := Some out'\<rparr>, Inr out'))"


section \<open>What a worker hands over\<close>

text \<open>
  \<open>assigned_output t L ls ids out\<close>: \<open>out\<close> is the output of a complete replay of the streams \<open>ids\<close> of
  the valid trace whose lines are \<open>ls\<close>, recorded with the library \<open>L\<close>.
\<close>

definition assigned_output :: "'s itself \<Rightarrow> 'h hdr_lib \<Rightarrow> raw_line list \<Rightarrow> int list \<Rightarrow> 'h worker_output \<Rightarrow> bool" where
  "assigned_output t L ls ids out \<longleftrightarrow>
     (\<exists>r nops bs cf (s :: 's) rn. newReader ls = Inr r \<and> scanOps (rd_lines r) (rd_line r) = (nops, None)
        \<and> trace_spec r (map snd nops) \<and> grouped ids False (map snd nops) bs
        \<and> cf_hist cf = L \<and> worker_ran (cf, bs, s, rn) out)"

lemma worker_ranI:
  assumes "reachable cf bs s rn" "finished rn" "\<not> rn_cancelled rn" "mset sts = mset (rn_streams rn)" "length cs = length sts"
    "out = (workerOutput (cf_hist cf) bs rn (map2 (\<lambda>st c. \<lparr>sr_sid = sm_sid st, sr_rec = sm_rec st, sr_completionNS = c\<rparr>) sts cs) se d u y)
       \<lparr>wo_Hostname := h, wo_EngineLimitations := lims\<rparr>"
  shows "worker_ran (cf, bs, s, rn) out"
  unfolding worker_ran_def prod.case using assms by blast

lemma worker_ran_host: "worker_ran w (out :: 'h worker_output) \<Longrightarrow> worker_ran w (out\<lparr>wo_Hostname := h\<rparr>)"
proof -
  assume ran: "worker_ran w out"
  obtain cf bs s rn where w: "w = (cf, bs, s, rn)" by (cases w)
  with ran obtain sts cs se d u y host lims where r: "reachable cf bs s rn" "finished rn" "\<not> rn_cancelled rn"
    and o: "mset sts = mset (rn_streams rn)" "length cs = length sts"
      "out = (workerOutput (cf_hist cf) bs rn (map2 (\<lambda>st c. \<lparr>sr_sid = sm_sid st, sr_rec = sm_rec st, sr_completionNS = c\<rparr>) sts cs) se d u y)
         \<lparr>wo_Hostname := host, wo_EngineLimitations := lims\<rparr>"
    unfolding worker_ran_def w prod.case by blast
  show ?thesis unfolding w
    by (rule worker_ranI [OF r o(1,2), where se = se and d = d and u = u and y = y and h = h and lims = lims])
      (simp add: o(3) workerOutput_def Let_def)
qed

lemma assigned_host: "assigned_output t L ls ids out \<Longrightarrow> assigned_output t L ls ids (out\<lparr>wo_Hostname := h\<rparr>)"
  unfolding assigned_output_def using worker_ran_host by metis

lemma sessionPrepare_Inr:
  assumes "sessionPrepare env cx p bytes sess = Some (sess1, Inr pr)"
  obtains r built bucket ex eng s where "newReader (ev_lines env bytes) = Inr r"
    "buildEngine (workerSpec (sn_targetRoot sess) (rd_hdr r) p) (ev_s3Load env) = Inr (built, bucket)"
    "prepareAssigned (ev_url env) eng (replayPlan p bucket) r (cl_AssignedStreams p) = Inr ex"
    "sess1 = sess\<lparr>sn_exec := Some ex, sn_eng := Some (eng, s), sn_out := None\<rparr>"
  using assms by (auto simp: sessionPrepare_def split: sum.splits prod.splits option.splits)

lemma session_output:
  fixes env :: "('s, 'h) worker_env"
  assumes "sessionPrepare env cx p bytes sess = Some (sess1, Inr pr)" "possible_run env u sess1"
    "sessionRun env u sess1 = (sess2, None)" "sessionCollect env sess2 = (sess3, Inr out)"
  shows "assigned_output TYPE('s) (ev_hist env) (ev_lines env bytes) (cl_AssignedStreams p) out"
proof -
  obtain r built bucket ex eng s where p: "newReader (ev_lines env bytes) = Inr r"
    "prepareAssigned (ev_url env) eng (replayPlan p bucket) r (cl_AssignedStreams p) = Inr ex"
    "sess1 = sess\<lparr>sn_exec := Some ex, sn_eng := Some (eng, s), sn_out := None\<rparr>"
    by (rule sessionPrepare_Inr [OF assms(1)])
  obtain nops where n: "scanOps (rd_lines r) (rd_line r) = (nops, None)" "trace_spec r (map snd nops)"
    "grouped (cl_AssignedStreams p) False (map snd nops) (ex_byStream ex)"
    by (rule prepareInternal_Inr [OF p(2) [unfolded prepareAssigned_def]])
  have poss: "reachable (runConfig env ex eng) (ex_byStream ex) s (ur_run u)" "finished (ur_run u)"
    "mset (ur_arrival u) = mset (rn_streams (ur_run u))" "length (ur_doneNS u) = length (ur_arrival u)"
    using assms(2) by (simp_all add: possible_run_def p(3))
  have "runModeOK ex" "\<not> rn_cancelled (ur_run u)"
    using assms(3) by (auto simp: sessionRun_def runWorker_def p(3) split: if_splits)
  moreover from this have "out = (workerOutput (ev_hist env) (ex_byStream ex) (ur_run u)
        (map2 (\<lambda>st c. \<lparr>sr_sid = sm_sid st, sr_rec = sm_rec st, sr_completionNS = c\<rparr>) (ur_arrival u) (ur_doneNS u))
        (ur_series u) (ur_duration u) (ur_user u) (ur_sys u))
          \<lparr>wo_Hostname := ev_hostname env, wo_EngineLimitations := engineLimitations (sn_eng sess2)\<rparr>"
    using assms(3,4) by (auto simp: sessionRun_def runWorker_def sessionCollect_def p(3) Let_def)
  ultimately have "worker_ran (runConfig env ex eng, ex_byStream ex, s, ur_run u) out"
    by (intro worker_ranI [OF poss(1,2) _ poss(3,4)]) (simp_all add: runConfig_def)
  moreover have "cf_hist (runConfig env ex eng) = ev_hist env" by (simp add: runConfig_def)
  ultimately show ?thesis unfolding assigned_output_def using p(1) n by blast
qed

end
