(* ===== verification/Cluster_Run.thy ===== *)
theory Cluster_Run
  imports Cluster_Session
begin

text \<open>
  The coordinator, \<open>coordinator.go\<close> of \<open>pkg/cluster\<close>: registration, the partition of the streams, the
  barriers, the run and the merge, over workers given as a record of functions. The locale
  \<open>replay_worker\<close> is what it relies on; under it every op of the trace is counted once.
\<close>

section \<open>Workers\<close>

text \<open>
  The \<open>Worker\<close> interface over a worker's state. \<open>wk_run\<close> takes how the replay unfolds;
  \<open>wk_canceled\<close> is \<open>errors.Is(err, context.Canceled)\<close>. A preparation may not return.
\<close>

record ('w, 'u, 'e, 'h) worker_api =
  wk_register :: "'w \<Rightarrow> 'e + worker_info"
  wk_prepare :: "cluster_plan \<Rightarrow> 'w \<Rightarrow> ('w \<times> ('e + prepare_result)) option"
  wk_run :: "'u \<Rightarrow> 'w \<Rightarrow> 'w \<times> 'e option"
  wk_collect :: "'w \<Rightarrow> 'w \<times> ('e + 'h worker_output)"
  wk_canceled :: "'e \<Rightarrow> bool"

text \<open>The in-process worker: a session and what its host gives it.\<close>

definition localWorker :: "ctx \<Rightarrow> (('s, 'h) worker_env \<times> ('s, 'h) session, ('s, 'h) unfolding_run, worker_err, 'h) worker_api" where
  "localWorker cx =
     \<lparr>wk_register = (\<lambda>(env, sess). Inr (sessionInfo env)),
      wk_prepare = (\<lambda>p (env, sess). map_option (map_prod (Pair env) id) (sessionPrepare env cx p (cl_TraceBytes p) sess)),
      wk_run = (\<lambda>u (env, sess). map_prod (Pair env) id (sessionRun env u sess)),
      wk_collect = (\<lambda>(env, sess). map_prod (Pair env) id (sessionCollect env sess)),
      wk_canceled = (\<lambda>e. e = WECanceled)\<rparr>"

section \<open>Coordinator\<close>

datatype 'e coord_err =
    CENoWorkers
  | CEParse trace_err
  | CERegister nat 'e
  | CEVersion nat string string
  | CEPrepare nat string 'e
  | CEScope string
  | CERun nat string 'e
  | CECollect nat string 'e

definition parseTraceStreams :: "raw_line list \<Rightarrow> trace_err + header \<times> int list" where
  "parseTraceStreams ls =
     (case newReader ls of
        Inl e \<Rightarrow> Inl e
      | Inr r \<Rightarrow>
          (case scanOps (rd_lines r) (rd_line r) of
             (nops, Some e) \<Rightarrow> Inl e
           | (nops, None) \<Rightarrow>
               Inr (rd_hdr r, sort (foldl (\<lambda>ids x. if op_s x \<in> set ids then ids else ids @ [op_s x]) [] (map snd nops)))))"

definition partitionStreams :: "int list \<Rightarrow> nat \<Rightarrow> int list list" where
  "partitionStreams ids n =
     foldl (\<lambda>out (i, id). out[i mod n := out ! (i mod n) @ [id]]) (replicate n []) (zip [0..<length ids] ids)"

definition skewNS :: "int list \<Rightarrow> int" where
  "skewNS delays =
     (case delays of
        [] \<Rightarrow> 0
      | [d] \<Rightarrow> 0
      | d # ds \<Rightarrow>
          (let (mn, mx) = foldl (\<lambda>(mn, mx) x. (if x < mn then x else mn, if x > mx then x else mx)) (d, d) ds
           in i64 (mx - mn)))"

fun firstRunLoop :: "('e \<Rightarrow> bool) \<Rightarrow> nat \<Rightarrow> ('e option \<times> worker_info) list \<Rightarrow> 'e coord_err option \<Rightarrow> 'e coord_err option" where
  "firstRunLoop isCanceled i [] canceled = canceled"
| "firstRunLoop isCanceled i ((None, info) # rest) canceled = firstRunLoop isCanceled (Suc i) rest canceled"
| "firstRunLoop isCanceled i ((Some e, info) # rest) canceled =
     (if isCanceled e
      then firstRunLoop isCanceled (Suc i) rest
        (case canceled of None \<Rightarrow> Some (CERun i (wi_Hostname info) e) | Some c \<Rightarrow> Some c)
      else Some (CERun i (wi_Hostname info) e))"

definition firstRunError :: "('e \<Rightarrow> bool) \<Rightarrow> 'e option list \<Rightarrow> worker_info list \<Rightarrow> 'e coord_err option" where
  "firstRunError isCanceled errs infos = firstRunLoop isCanceled 0 (zip errs infos) None"

fun registerWorkers :: "('w, 'u, 'e, 'h) worker_api \<Rightarrow> nat \<Rightarrow> 'w list \<Rightarrow> 'e coord_err + worker_info list" where
  "registerWorkers api i [] = Inr []"
| "registerWorkers api i (w # ws) =
     (case wk_register api w of
        Inl e \<Rightarrow> Inl (CERegister i e)
      | Inr info \<Rightarrow>
          (if wi_Version info \<noteq> Version then Inl (CEVersion i (wi_Hostname info) (wi_Version info))
           else map_sum id ((#) info) (registerWorkers api (Suc i) ws)))"

text \<open>
  \<open>prepareWorkerRange\<close>: every worker prepares its own assignment, and the error reported is that
  of the first failing one. The workers are independent, so their order does not matter; when
  one of them does not return, neither does the barrier.
\<close>

fun prepRange :: "('w, 'u, 'e, 'h) worker_api \<Rightarrow> cluster_plan \<Rightarrow> nat \<Rightarrow> ('w \<times> worker_info \<times> int list) list \<Rightarrow>
    ('w list \<times> 'e coord_err option \<times> prepare_result list) option" where
  "prepRange api plan i [] = Some ([], None, [])"
| "prepRange api plan i ((w, info, asg) # rest) =
     (case wk_prepare api (plan\<lparr>cl_AssignedStreams := asg\<rparr>) w of
        None \<Rightarrow> None
      | Some (w', res) \<Rightarrow>
          (case prepRange api plan (Suc i) rest of
             None \<Rightarrow> None
           | Some (ws', e, preps) \<Rightarrow>
               (case res of
                  Inl e' \<Rightarrow> Some (w' # ws', Some (CEPrepare i (wi_Hostname info) e'), zeroPrepare # preps)
                | Inr pr \<Rightarrow> Some (w' # ws', e, pr # preps))))"

definition prepareWorkers :: "('w, 'u, 'e, 'h) worker_api \<Rightarrow> cluster_plan \<Rightarrow> ('w \<times> worker_info \<times> int list) list \<Rightarrow>
    ('w list \<times> ('e coord_err + prepare_result list)) option" where
  "prepareWorkers api plan was =
     (if cl_PrepareScope plan = PrepareScopeShared then
        (case was of
           [] \<Rightarrow> Some ([], Inr [])
         | (w, info, asg) # rest \<Rightarrow>
             (case wk_prepare api (plan\<lparr>cl_AssignedStreams := asg\<rparr>) w of
                None \<Rightarrow> None
              | Some (w', Inl e) \<Rightarrow> Some (w' # map fst rest, Inl (CEPrepare 0 (wi_Hostname info) e))
              | Some (w', Inr pr) \<Rightarrow>
                  (let verifyPlan = (if cl_PrepareMode plan \<noteq> [] then plan\<lparr>cl_PrepareMode := ''assume-existing'', cl_SourceRoot := []\<rparr> else plan)
                   in case prepRange api verifyPlan 1 rest of
                        None \<Rightarrow> None
                      | Some (ws', Some e, preps) \<Rightarrow> Some (w' # ws', Inl e)
                      | Some (ws', None, preps) \<Rightarrow> Some (w' # ws', Inr (pr # preps)))))
      else if cl_PrepareScope plan = PrepareScopePerWorker then
        (case prepRange api plan 0 was of
           None \<Rightarrow> None
         | Some (ws', Some e, preps) \<Rightarrow> Some (ws', Inl e)
         | Some (ws', None, preps) \<Rightarrow> Some (ws', Inr preps))
      else Some (map fst was, Inl (CEScope (cl_PrepareScope plan))))"

fun collectWorkers :: "('w, 'u, 'e, 'h) worker_api \<Rightarrow> nat \<Rightarrow> ('w \<times> worker_info) list \<Rightarrow> 'w list \<times> ('e coord_err + 'h worker_output list)" where
  "collectWorkers api i [] = ([], Inr [])"
| "collectWorkers api i ((w, info) # rest) =
     (case wk_collect api w of
        (w', Inl e) \<Rightarrow> (w' # map fst rest, Inl (CECollect i (wi_Hostname info) e))
      | (w', Inr out) \<Rightarrow>
          (let out' = (if wo_Hostname out = [] then out\<lparr>wo_Hostname := wi_Hostname info\<rparr> else out)
           in case collectWorkers api (Suc i) rest of (ws', outs) \<Rightarrow> (w' # ws', map_sum id ((#) out') outs)))"

fun fillModeString :: "fill_mode \<Rightarrow> string" where
  "fillModeString FillSeeded = ''seeded''"
| "fillModeString FillZero = ''zero''"
| "fillModeString (FillOther s) = s"

definition schedulerOpts :: "string \<Rightarrow> cluster_plan \<Rightarrow> header \<Rightarrow> prepare_result list \<Rightarrow> scheduler_opts" where
  "schedulerOpts digest plan hdr preps =
     (let prep = (case preps of [] \<Rightarrow> zeroPrepare | p # _ \<Rightarrow> p);
          st = pr_PrepStats prep;
          fill = normalizeFill \<lparr>fc_mode = fillModeOf (cl_FillMode plan), fc_seed = of_int (cl_FillSeed plan)\<rparr>;
          info = \<lparr>pi_TracePath = cl_TracePath plan, pi_TraceDigest = digest, pi_Engine = es_Name (cl_Engine plan),
            pi_Mode = cl_Mode plan, pi_MaxInflight = cl_MaxInflight plan, pi_SpeedupFactor = cl_SpeedupFactor plan,
            pi_TraceKind = trace_kind_string (hdr_kind hdr), pi_Profile = hdr_profile hdr,
            pi_CaptureMethod = hdr_capture_method hdr, pi_CaptureLimitations = hdr_capture_limitations hdr,
            pi_NumStreams = sum_num_streams (hdr_summary hdr), pi_NumOps = sum_num_ops (hdr_summary hdr),
            pi_TotalBytes = sum_total_bytes (hdr_summary hdr), pi_TargetRoot = es_Root (cl_Engine plan),
            pi_Bucket = s3_Bucket (es_S3 (cl_Engine plan)), pi_Endpoint = s3_Endpoint (es_S3 (cl_Engine plan)),
            pi_TracePartialReads = sum_num_partial_reads (hdr_summary hdr), pi_PrepareMode = cl_PrepareMode plan,
            pi_PrepareScope = cl_PrepareScope plan, pi_FillMode = fillModeString (fc_mode fill), pi_FillSeed = sint (fc_seed fill),
            pi_PrepareTouchedSameData = (pt_TouchedSameData st \<or> cl_CacheMode plan = ''warm'' \<and> cr_Primed (pr_CacheResult prep) > 0),
            pi_PrepareVerified = pt_Verified st, pi_PrepareCreated = pt_Created st, pi_PrepareCopied = pt_Copied st,
            pi_PrepareSkippedSizeUnknown = pt_SkippedSizeUnknown st, pi_PrepareDerivedSizeFromOps = pt_DerivedSizeFromOps st,
            pi_TraceTransformations = hdr_transformations hdr, pi_ReplayEquivalence = pr_ReplayEquivalence prep\<rparr>
      in \<lparr>so_Mode = cl_Mode plan, so_SpeedupFactor = cl_SpeedupFactor plan, so_PlanInfo = info,
          so_RunEnv = zeroRunEnv\<lparr>rv_CacheMode := cl_CacheMode plan, rv_CacheActions := cr_Actions (pr_CacheResult prep),
            rv_CacheLimitations := cr_Limitations (pr_CacheResult prep)\<rparr>\<rparr>)"

text \<open>
  \<open>Run\<close>. What is outside the program: the lines of the trace's bytes, its digest, the histogram
  library and its queries, the stamp, how each worker's replay unfolds, and the start delays read
  from the clock. The result has the states the workers are left in.
\<close>

record ('u, 'h) coord_env =
  ce_lines :: "byte list \<Rightarrow> raw_line list"
  ce_digest :: "byte list \<Rightarrow> string"
  ce_hist :: "'h hdr_lib"
  ce_query :: "'h hdr_query"
  ce_stamp :: stamp
  ce_unfold :: "'u list"
  ce_delays :: "int list"

text \<open>Registration, the partition and the PREPARE barrier; then the run and the merge.\<close>

definition coordinatorPrepare :: "('w, 'u, 'e, 'h) worker_api \<Rightarrow> ('u, 'h) coord_env \<Rightarrow> cluster_plan \<Rightarrow> 'w list \<Rightarrow>
    ('w list \<times> ('e coord_err + header \<times> worker_info list \<times> prepare_result list)) option" where
  "coordinatorPrepare api env plan ws =
     (if ws = [] then Some (ws, Inl CENoWorkers)
      else case parseTraceStreams (ce_lines env (cl_TraceBytes plan)) of
        Inl e \<Rightarrow> Some (ws, Inl (CEParse e))
      | Inr (hdr, ids) \<Rightarrow>
          (case registerWorkers api 0 ws of
             Inl e \<Rightarrow> Some (ws, Inl e)
           | Inr infos \<Rightarrow>
               map_option (map_prod id (map_sum id (\<lambda>preps. (hdr, infos, preps))))
                 (prepareWorkers api (plan\<lparr>cl_PrepareScope := resolvePrepareScope plan\<rparr>)
                    (zip ws (zip infos (partitionStreams ids (length ws)))))))"

definition coordinatorRun :: "('w, 'u, 'e, 'h) worker_api \<Rightarrow> ('u, 'h) coord_env \<Rightarrow> cluster_plan \<Rightarrow> 'w list \<Rightarrow>
    ('w list \<times> ('e coord_err + results)) option" where
  "coordinatorRun api env plan ws =
     (case coordinatorPrepare api env plan ws of
        None \<Rightarrow> None
      | Some (ws1, Inl e) \<Rightarrow> Some (ws1, Inl e)
      | Some (ws1, Inr (hdr, infos, preps)) \<Rightarrow>
          (let ran = map2 (wk_run api) (ce_unfold env) ws1
           in case firstRunError (wk_canceled api) (map snd ran) infos of
                Some e \<Rightarrow> Some (map fst ran, Inl e)
              | None \<Rightarrow>
                  (case collectWorkers api 0 (zip (map fst ran) infos) of
                     (ws3, Inl e) \<Rightarrow> Some (ws3, Inl e)
                   | (ws3, Inr outs) \<Rightarrow>
                       Some (ws3, Inr (buildResults (ce_hist env) (ce_query env) (ce_stamp env) outs
                         (schedulerOpts (ce_digest env (cl_TraceBytes plan)) (plan\<lparr>cl_PrepareScope := resolvePrepareScope plan\<rparr>) hdr preps)
                         hdr (skewNS (ce_delays env)))))))"

section \<open>The partition\<close>

lemma none_of: "y \<notin> set ks \<Longrightarrow> sum_list (map (\<lambda>k. if y = k then 1 else 0 :: int) ks) = 0"
  by (induction ks) auto

lemma one_of: "distinct ks \<Longrightarrow> y \<in> set ks \<Longrightarrow> sum_list (map (\<lambda>k. if y = k then 1 else 0 :: int) ks) = 1"
  by (induction ks) (auto simp: none_of)

lemma count_parts:
  assumes "distinct ks" "\<forall>x \<in> set xs. f x \<in> set ks"
  shows "sum_list (map (\<lambda>k. int (length (filter (\<lambda>x. f x = k) xs))) ks) = int (length xs)"
  using assms(2)
proof (induction xs)
  case (Cons x xs)
  have "sum_list (map (\<lambda>k. int (length (filter (\<lambda>x. f x = k) (x # xs)))) ks)
      = sum_list (map (\<lambda>k. (if f x = k then 1 else 0) + int (length (filter (\<lambda>x. f x = k) xs))) ks)"
    by (rule arg_cong [of _ _ sum_list], rule map_cong) simp_all
  also have "\<dots> = 1 + int (length xs)"
    unfolding sum_list_addf using Cons one_of [OF assms(1), of "f x"] by simp
  finally show ?case by simp
qed (simp add: sum_list_triv)

lemma opCount_grouped:
  assumes "grouped ids all ops bs"
  shows "opCount bs = int (length (filter (wanted all ids) ops))"
proof -
  let ?own = "\<lambda>s. filter (\<lambda>x. op_s x = s) (filter (wanted all ids) ops)"
  have d: "distinct (map fst bs)" using assms by (simp add: grouped_def)
  have own: "snd so = ?own (fst so)" if "so \<in> set bs" for so
  proof -
    have "map_of bs (fst so) = Some (snd so)" using d that by (cases so) simp
    then show ?thesis using assms by (auto simp: grouped_def Let_def conj_commute split: if_splits)
  qed
  have "opCount bs = sum_list (map (\<lambda>s. int (length (?own s))) (map fst bs))"
    unfolding opCount_def map_map comp_def by (rule arg_cong [of _ _ sum_list], rule map_cong [OF refl]) (simp only: own)
  moreover have "\<forall>x \<in> set (filter (wanted all ids) ops). op_s x \<in> set (map fst bs)"
    unfolding grouped_keys [OF assms] by auto
  ultimately show ?thesis using count_parts [OF d, of "filter (wanted all ids) ops" op_s] by (simp only:)
qed

lemma partition_loop:
  assumes "length out = n" "i < n"
  shows "foldl (\<lambda>out (j, id). out[j mod n := out ! (j mod n) @ [id]]) out ps ! i
     = out ! i @ map snd (filter (\<lambda>p. fst p mod n = i) ps)"
    "length (foldl (\<lambda>out (j, id). out[j mod n := out ! (j mod n) @ [id]]) out ps) = n"
  using assms by (induction ps arbitrary: out) (auto simp: nth_list_update)

lemma partitionStreams_length [simp]: "0 < n \<Longrightarrow> length (partitionStreams ids n) = n"
  unfolding partitionStreams_def by (rule partition_loop(2) [of _ _ 0]) simp_all

lemma set_numbered: "set (zip [0..<length ids] ids) = {(j, ids ! j) | j. j < length ids}"
proof -
  have "j < length ids \<Longrightarrow> (j, ids ! j) \<in> set (zip [0..<length ids] ids)" for j
    by (auto simp: in_set_zip intro!: exI [of _ j])
  moreover have "x \<in> set (zip [0..<length ids] ids) \<Longrightarrow> \<exists>j. x = (j, ids ! j) \<and> j < length ids" for x
    by (cases x) (auto simp: in_set_zip)
  ultimately show ?thesis by auto
qed

lemma partitionStreams_nth:
  "i < n \<Longrightarrow> set (partitionStreams ids n ! i) = {ids ! j | j. j < length ids \<and> j mod n = i}"
  unfolding partitionStreams_def by (subst partition_loop(1)) (auto simp: set_numbered image_iff)

text \<open>Every op belongs to exactly one worker's assignment.\<close>

lemma partition_counts:
  assumes "0 < n" "distinct ids" "op_s ` set ops \<subseteq> set ids"
  shows "sum_list (map (\<lambda>i. int (length (filter (\<lambda>x. op_s x \<in> set (partitionStreams ids n ! i)) ops))) [0..<n]) = int (length ops)"
proof -
  define w where "w s = (THE j. j < length ids \<and> ids ! j = s) mod n" for s
  have the: "(THE j'. j' < length ids \<and> ids ! j' = ids ! j) = j" if "j < length ids" for j
    using that assms(2) by (auto simp: nth_eq_iff_index_eq)
  have m: "s \<in> set (partitionStreams ids n ! i) \<longleftrightarrow> w s = i" if "i < n" and s: "s \<in> set ids" for s i
  proof -
    obtain j where j: "j < length ids" "s = ids ! j" using s by (metis in_set_conv_nth)
    show ?thesis unfolding w_def j(2) the [OF j(1)]
      using j(1) assms(2) by (auto simp: partitionStreams_nth [OF that(1)] nth_eq_iff_index_eq)
  qed
  have "sum_list (map (\<lambda>i. int (length (filter (\<lambda>x. op_s x \<in> set (partitionStreams ids n ! i)) ops))) [0..<n])
      = sum_list (map (\<lambda>i. int (length (filter (\<lambda>x. w (op_s x) = i) ops))) [0..<n])"
    using m assms(3) by (intro arg_cong [of _ _ sum_list] map_cong refl arg_cong [of _ _ int] arg_cong [of _ _ length] filter_cong) auto
  also have "\<dots> = int (length ops)" using assms(1) by (intro count_parts) (simp_all add: w_def)
  finally show ?thesis .
qed

lemma parse_streams:
  assumes "parseTraceStreams ls = Inr (hdr, ids)"
  obtains r nops where "newReader ls = Inr r" "scanOps (rd_lines r) (rd_line r) = (nops, None)" "hdr = rd_hdr r"
    "sorted ids" "distinct ids" "set ids = op_s ` set (map snd nops)"
proof -
  have loop: "distinct acc \<Longrightarrow> distinct (foldl (\<lambda>ids x. if op_s x \<in> set ids then ids else ids @ [op_s x]) acc xs)
      \<and> set (foldl (\<lambda>ids x. if op_s x \<in> set ids then ids else ids @ [op_s x]) acc xs) = set acc \<union> op_s ` set xs" for acc xs
    by (induction xs arbitrary: acc) auto
  obtain r nops where r: "newReader ls = Inr r" "scanOps (rd_lines r) (rd_line r) = (nops, None)" "hdr = rd_hdr r"
    "ids = sort (foldl (\<lambda>ids x. if op_s x \<in> set ids then ids else ids @ [op_s x]) [] (map snd nops))"
    using assms by (auto simp: parseTraceStreams_def split: sum.splits prod.splits option.splits)
  show thesis by (rule that [OF r(1-3)]) (use loop [of "[]" "map snd nops"] in \<open>auto simp: r(4)\<close>)
qed


section \<open>What a coordinated run yields\<close>

lemma firstRunLoop_None:
  "firstRunLoop c i eis acc = None \<Longrightarrow> acc = None \<and> (\<forall>ei \<in> set eis. fst ei = None)"
  by (induction c i eis acc rule: firstRunLoop.induct) (auto split: if_splits option.splits)

lemma firstRunError_None:
  "firstRunError c errs infos = None \<Longrightarrow> length errs \<le> length infos \<Longrightarrow> j < length errs \<Longrightarrow> errs ! j = None"
  using firstRunLoop_None [of c 0 "zip errs infos" None] nth_mem [of j "zip errs infos"]
  by (fastforce simp: firstRunError_def)

lemma registerWorkers_length: "registerWorkers api i ws = Inr infos \<Longrightarrow> length infos = length ws"
  by (induction api i ws arbitrary: infos rule: registerWorkers.induct)
    (auto simp: map_sum_def split: sum.splits if_splits)

text \<open>A worker that was prepared, and with which trace and assignment.\<close>

definition preparedAs :: "('w, 'u, 'e, 'h) worker_api \<Rightarrow> byte list \<Rightarrow> 'w \<times> worker_info \<times> int list \<Rightarrow> 'w \<Rightarrow> bool" where
  "preparedAs api bytes wa w' \<longleftrightarrow> (\<exists>p pr. wk_prepare api p (fst wa) = Some (w', Inr pr)
     \<and> cl_TraceBytes p = bytes \<and> cl_AssignedStreams p = snd (snd wa))"

lemma prepRange_all:
  "prepRange api plan i was = Some (ws', None, preps) \<Longrightarrow> list_all2 (preparedAs api (cl_TraceBytes plan)) was ws'"
proof (induction api plan i was arbitrary: ws' preps rule: prepRange.induct)
  case (2 api plan i w info asg rest)
  from 2(2) obtain w' pr ws'' preps' where w: "wk_prepare api (plan\<lparr>cl_AssignedStreams := asg\<rparr>) w = Some (w', Inr pr)"
    and r: "prepRange api plan (Suc i) rest = Some (ws'', None, preps')" and ws: "ws' = w' # ws''"
    by (auto split: option.splits sum.splits)
  have "preparedAs api (cl_TraceBytes plan) (w, info, asg) w'"
    unfolding preparedAs_def by (intro exI conjI, simp, rule w) simp_all
  then show ?case using 2(1) [OF w _ r] ws by simp
qed simp

lemma prepareWorkers_all:
  assumes "prepareWorkers api plan was = Some (ws', Inr preps)"
  shows "list_all2 (preparedAs api (cl_TraceBytes plan)) was ws'"
proof (cases "cl_PrepareScope plan = PrepareScopeShared")
  case True
  show ?thesis
  proof (cases was)
    case (Cons wa rest)
    obtain w info asg where wa: "wa = (w, info, asg)" by (cases wa)
    let ?v = "if cl_PrepareMode plan \<noteq> [] then plan\<lparr>cl_PrepareMode := ''assume-existing'', cl_SourceRoot := []\<rparr> else plan"
    obtain w' pr ws'' preps' where w: "wk_prepare api (plan\<lparr>cl_AssignedStreams := asg\<rparr>) w = Some (w', Inr pr)"
      and r: "prepRange api ?v 1 rest = Some (ws'', None, preps')" and ws: "ws' = w' # ws''"
      using assms True by (auto simp: prepareWorkers_def Cons wa Let_def simp del: prepRange.simps split: option.splits sum.splits)
    have "preparedAs api (cl_TraceBytes plan) wa w'"
      unfolding preparedAs_def wa by (intro exI conjI, simp, rule w) simp_all
    moreover have "cl_TraceBytes ?v = cl_TraceBytes plan" by simp
    ultimately show ?thesis using prepRange_all [OF r] ws Cons by (simp only: list_all2_Cons)
  qed (use assms True in \<open>simp add: prepareWorkers_def\<close>)
next
  case False
  then show ?thesis using assms by (auto simp: prepareWorkers_def intro: prepRange_all split: if_splits option.splits)
qed

text \<open>What a worker handed over, with its host stamped if it had none.\<close>

definition collectedAs :: "('w, 'u, 'e, 'h) worker_api \<Rightarrow> 'w \<times> worker_info \<Rightarrow> 'h worker_output \<Rightarrow> bool" where
  "collectedAs api wi out \<longleftrightarrow> (\<exists>w' out'. wk_collect api (fst wi) = (w', Inr out')
     \<and> (out = out' \<or> out = out'\<lparr>wo_Hostname := wi_Hostname (snd wi)\<rparr>))"

lemma collect_all:
  "collectWorkers api i wis = (ws', Inr outs) \<Longrightarrow> list_all2 (collectedAs api) wis outs"
  by (induction api i wis arbitrary: ws' outs rule: collectWorkers.induct)
    (auto simp: collectedAs_def Let_def map_sum_def split: prod.splits sum.splits if_splits)

lemma map_sum_Inr: "map_sum id f b = Inr y \<longleftrightarrow> (\<exists>x. b = Inr x \<and> y = f x)"
  by (cases b) auto

lemma coordinatorPrepare_Inr:
  assumes "coordinatorPrepare api env plan ws = Some (ws1, Inr (hdr, infos, preps))"
  obtains ids where "ws \<noteq> []" "parseTraceStreams (ce_lines env (cl_TraceBytes plan)) = Inr (hdr, ids)"
    "length infos = length ws" "length ws1 = length ws"
    "\<forall>j < length ws. preparedAs api (cl_TraceBytes plan) (ws ! j, infos ! j, partitionStreams ids (length ws) ! j) (ws1 ! j)"
proof -
  obtain ids where ids: "ws \<noteq> []" "parseTraceStreams (ce_lines env (cl_TraceBytes plan)) = Inr (hdr, ids)"
    "registerWorkers api 0 ws = Inr infos"
    "prepareWorkers api (plan\<lparr>cl_PrepareScope := resolvePrepareScope plan\<rparr>) (zip ws (zip infos (partitionStreams ids (length ws)))) = Some (ws1, Inr preps)"
    using assms by (auto simp: coordinatorPrepare_def map_sum_Inr split: if_splits sum.splits)
  note len = registerWorkers_length [OF ids(3)]
  have all: "list_all2 (preparedAs api (cl_TraceBytes plan)) (zip ws (zip infos (partitionStreams ids (length ws)))) ws1"
    using prepareWorkers_all [OF ids(4)] by simp
  show thesis
    by (rule that [OF ids(1,2) len]) (use all len ids(1) in \<open>auto simp: list_all2_conv_all_nth\<close>)
qed


section \<open>The contract of a worker\<close>

text \<open>
  What the coordinator relies on: a worker that was prepared, ran without an error and handed
  over its output did replay the streams assigned to it, and all of them. \<open>good\<close> says that the worker
  reads the trace's bytes and keeps its histograms the way the coordinator does, \<open>possible\<close> that its
  replay unfolds in a way the scheduler can produce.
\<close>

locale replay_worker =
  fixes api :: "('w, 'u, 'e, 'h) worker_api" and t :: "'s itself" and L :: "'h hdr_lib"
    and linesOf :: "byte list \<Rightarrow> raw_line list" and good :: "'w \<Rightarrow> bool" and possible :: "'u \<Rightarrow> 'w \<Rightarrow> bool"
  assumes laws: "hdr_laws L"
    and worker_output: "good w \<Longrightarrow> wk_prepare api p w = Some (w1, Inr pr) \<Longrightarrow> possible u w1 \<Longrightarrow> wk_run api u w1 = (w2, None)
      \<Longrightarrow> wk_collect api w2 = (w3, Inr out) \<Longrightarrow> assigned_output t L (linesOf (cl_TraceBytes p)) (cl_AssignedStreams p) out"
begin

lemma coordinator_outputs:
  assumes prep: "coordinatorPrepare api env plan ws = Some (ws1, Inr (hdr, infos, preps))"
    and env: "ce_lines env = linesOf" "length (ce_unfold env) = length ws"
    and good: "list_all good ws" and poss: "list_all2 possible (ce_unfold env) ws1"
    and noerr: "firstRunError (wk_canceled api) (map snd (map2 (wk_run api) (ce_unfold env) ws1)) infos = None"
    and col: "collectWorkers api 0 (zip (map fst (map2 (wk_run api) (ce_unfold env) ws1)) infos) = (ws3, Inr outs)"
  obtains ids where "parseTraceStreams (linesOf (cl_TraceBytes plan)) = Inr (hdr, ids)" "0 < length ws" "length outs = length ws"
    "\<forall>j < length ws. assigned_output t L (linesOf (cl_TraceBytes plan)) (partitionStreams ids (length ws) ! j) (outs ! j)"
proof -
  obtain ids where i: "ws \<noteq> []" "parseTraceStreams (ce_lines env (cl_TraceBytes plan)) = Inr (hdr, ids)"
    "length infos = length ws" "length ws1 = length ws"
    "\<forall>j < length ws. preparedAs api (cl_TraceBytes plan) (ws ! j, infos ! j, partitionStreams ids (length ws) ! j) (ws1 ! j)"
    by (rule coordinatorPrepare_Inr [OF prep])
  let ?ran = "map2 (wk_run api) (ce_unfold env) ws1"
  have lr: "length ?ran = length ws" by (simp add: env i(4))
  note all = collect_all [OF col, unfolded list_all2_conv_all_nth]
  have lo: "length outs = length ws" using all lr i(3) by simp
  have "assigned_output t L (linesOf (cl_TraceBytes plan)) (partitionStreams ids (length ws) ! j) (outs ! j)" if j: "j < length ws" for j
  proof -
    obtain p pr where p: "wk_prepare api p (ws ! j) = Some (ws1 ! j, Inr pr)" "cl_TraceBytes p = cl_TraceBytes plan"
      "cl_AssignedStreams p = partitionStreams ids (length ws) ! j"
      using i(5) j by (auto simp: preparedAs_def)
    have "snd (?ran ! j) = None" using firstRunError_None [OF noerr, of j] lr i(3,4) env(2) j by simp
    then obtain w2 where w2: "wk_run api (ce_unfold env ! j) (ws1 ! j) = (w2, None)" "fst (?ran ! j) = w2"
      using j env(2) i(4) by (cases "wk_run api (ce_unfold env ! j) (ws1 ! j)") simp
    have "collectedAs api (w2, infos ! j) (outs ! j)"
      using all j i(3,4) env(2) w2(2) by auto
    then obtain w3 out' where c: "wk_collect api w2 = (w3, Inr out')" and o: "outs ! j = out' \<or> outs ! j = out'\<lparr>wo_Hostname := wi_Hostname (infos ! j)\<rparr>"
      by (auto simp: collectedAs_def)
    have "possible (ce_unfold env ! j) (ws1 ! j)" using poss j env(2) by (simp add: list_all2_conv_all_nth)
    moreover have "good (ws ! j)" using good j by (simp add: list_all_length)
    ultimately have "assigned_output t L (linesOf (cl_TraceBytes plan)) (partitionStreams ids (length ws) ! j) out'"
      using worker_output [OF _ p(1) _ w2(1) c] p(2,3) by simp
    then show ?thesis using o assigned_host by metis
  qed
  then show thesis using that [of ids] i(1,2) lo by (simp add: env)
qed

lemma coordinator_complete:
  assumes run: "coordinatorRun api env plan ws = Some (ws', Inr res)"
    and prep: "coordinatorPrepare api env plan ws = Some (ws1, Inr prepared)"
    and env: "ce_lines env = linesOf" "ce_hist env = L" "length (ce_unfold env) = length ws"
    and good: "list_all good ws" and poss: "list_all2 possible (ce_unfold env) ws1"
    and r: "newReader (linesOf (cl_TraceBytes plan)) = Inr r" "scanOps (rd_lines r) (rd_line r) = (nops, None)"
    and n: "int (length nops) < 2 ^ 63"
  shows "re_OpsCompleted res = int (length nops) \<and> cs_OpsSkipped (fr_Coverage (re_Fidelity res)) = 0
    \<and> cc_Violations (fr_ConcurrencyCheck (re_Fidelity res)) = []"
proof -
  obtain hdr infos preps where hip: "prepared = (hdr, infos, preps)" by (cases prepared)
  let ?ran = "map2 (wk_run api) (ce_unfold env) ws1"
  obtain outs ws3 opts skew where noerr: "firstRunError (wk_canceled api) (map snd ?ran) infos = None"
    and col: "collectWorkers api 0 (zip (map fst ?ran) infos) = (ws3, Inr outs)"
    and res: "res = buildResults (ce_hist env) (ce_query env) (ce_stamp env) outs opts hdr skew"
    using run unfolding coordinatorRun_def prep hip
    by (auto simp: Let_def split: option.splits prod.splits sum.splits)
  obtain ids where ids: "parseTraceStreams (linesOf (cl_TraceBytes plan)) = Inr (hdr, ids)" "0 < length ws" "length outs = length ws"
    and out: "\<forall>j < length ws. assigned_output t L (linesOf (cl_TraceBytes plan)) (partitionStreams ids (length ws) ! j) (outs ! j)"
    by (rule coordinator_outputs [OF prep [unfolded hip] env(1,3) good poss noerr col])
  let ?ops = "map snd nops"
  let ?asg = "\<lambda>j. partitionStreams ids (length ws) ! j"
  have ids': "distinct ids" "set ids = op_s ` set ?ops"
    by (rule parse_streams [OF ids(1)], use r in simp)+
  have "\<exists>w :: ('s, 'h) run_config \<times> (int \<times> op list) list \<times> 's \<times> ('s, 'h) run.
      cf_hist (fst w) = L \<and> worker_ran w (outs ! j) \<and> opCount (fst (snd w)) = int (length (filter (\<lambda>x. op_s x \<in> set (?asg j)) ?ops))"
    if j: "j < length ws" for j
  proof -
    obtain bs and cf :: "('s, 'h) run_config" and s :: 's and rn where w: "grouped (?asg j) False ?ops bs" "cf_hist cf = L"
      "worker_ran (cf, bs, s, rn) (outs ! j)"
      using out j r by (auto simp: assigned_output_def)
    have f: "wanted False (?asg j) = (\<lambda>x. op_s x \<in> set (?asg j))" by (simp add: wanted_def fun_eq_iff)
    show ?thesis by (rule exI [of _ "(cf, bs, s, rn)"]) (use w opCount_grouped [OF w(1)] in \<open>simp add: f\<close>)
  qed
  then obtain wk :: "nat \<Rightarrow> ('s, 'h) run_config \<times> (int \<times> op list) list \<times> 's \<times> ('s, 'h) run" where
    wk: "\<And>j. j < length ws \<Longrightarrow> cf_hist (fst (wk j)) = L \<and> worker_ran (wk j) (outs ! j)
      \<and> opCount (fst (snd (wk j))) = int (length (filter (\<lambda>x. op_s x \<in> set (?asg j)) ?ops))"
    by metis
  let ?wks = "map wk [0..<length ws]"
  have ran: "all_ran L ?wks outs" using wk ids(3) by (simp add: all_ran_def list_all2_conv_all_nth)
  have "workOps ?wks = sum_list (map (\<lambda>j. int (length (filter (\<lambda>x. op_s x \<in> set (?asg j)) ?ops))) [0..<length ws])"
    unfolding workOps_def map_map comp_def by (rule arg_cong [of _ _ sum_list], rule map_cong) (simp_all add: wk)
  also have "\<dots> = int (length ?ops)" by (rule partition_counts [OF ids(2) ids'(1)]) (simp add: ids'(2))
  finally have "workOps ?wks = int (length nops)" by simp
  with report_totals [OF laws ran] n show ?thesis by (simp add: res env(2))
qed

end

definition local_good :: "(byte list \<Rightarrow> raw_line list) \<Rightarrow> 'h hdr_lib \<Rightarrow> ('s, 'h) worker_env \<times> ('s, 'h) session \<Rightarrow> bool" where
  "local_good ls L w \<longleftrightarrow> ev_lines (fst w) = ls \<and> ev_hist (fst w) = L"

lemma local_worker:
  assumes "hdr_laws L"
  shows "replay_worker (localWorker cx) TYPE('s) L ls (local_good ls L) (\<lambda>u (w :: ('s, 'h) worker_env \<times> ('s, 'h) session). possible_run (fst w) u (snd w))"
proof
  fix w w1 w2 w3 :: "('s, 'h) worker_env \<times> ('s, 'h) session" and p pr u out
  assume a: "local_good ls L w" "wk_prepare (localWorker cx) p w = Some (w1, Inr pr)" "possible_run (fst w1) u (snd w1)"
    "wk_run (localWorker cx) u w1 = (w2, None)" "wk_collect (localWorker cx) w2 = (w3, Inr out)"
  obtain env sess where w: "w = (env, sess)" by (cases w)
  obtain s1 where p: "sessionPrepare env cx p (cl_TraceBytes p) sess = Some (s1, Inr pr)" "w1 = (env, s1)"
    using a(2) by (auto simp: w localWorker_def)
  obtain s2 where r: "sessionRun env u s1 = (s2, None)" "w2 = (env, s2)"
    using a(4) by (auto simp: localWorker_def p(2) map_prod_def split: prod.splits)
  obtain s3 where c: "sessionCollect env s2 = (s3, Inr out)"
    using a(5) by (auto simp: localWorker_def r(2) map_prod_def split: prod.splits)
  show "assigned_output TYPE('s) L (ls (cl_TraceBytes p)) (cl_AssignedStreams p) out"
    using session_output [OF p(1) _ r(1) c] a(1,3) by (simp add: w p(2) local_good_def)
qed (rule assms)

end
