(* ===== verification/Cluster_Server.thy ===== *)
theory Cluster_Server
  imports Cluster_Run
begin

text \<open>
  A worker behind the network, \<open>server.go\<close> and \<open>remote.go\<close> of \<open>pkg/cluster\<close>: the lease that gives the
  worker to one run at a time, the handlers of the gRPC service around the session, and the client
  the coordinator drives them with. The lemmas show that the remote worker keeps the contract of
  \<open>replay_worker\<close>, and with it what a distributed run counts.
\<close>

section \<open>The lease\<close>

text \<open>
  The state a server keeps beside its session. Its operations take the reading of the clock.
  A lease of two minutes is \<open>defaultRunLease\<close>.
\<close>

definition defaultRunLease :: int where "defaultRunLease = 120000000000"

record ('s, 'h) server =
  sv_session :: "('s, 'h) session"
  sv_runLease :: int
  sv_inUse :: bool
  sv_deadline :: int

definition newServer :: "string \<Rightarrow> ('s, 'h) server" where
  "newServer rootDir = \<lparr>sv_session = newSession rootDir, sv_runLease = defaultRunLease, sv_inUse = False, sv_deadline = 0\<rparr>"

definition acquire :: "int \<Rightarrow> ('s, 'h) server \<Rightarrow> ('s, 'h) server \<times> bool" where
  "acquire now sv =
     (if sv_inUse sv \<and> now < sv_deadline sv then (sv, False)
      else (sv\<lparr>sv_inUse := True, sv_deadline := now + sv_runLease sv\<rparr>, True))"

definition refreshLease :: "int \<Rightarrow> ('s, 'h) server \<Rightarrow> ('s, 'h) server" where
  "refreshLease now sv = (if sv_inUse sv then sv\<lparr>sv_deadline := now + sv_runLease sv\<rparr> else sv)"

definition held :: "('s, 'h) server \<Rightarrow> bool" where
  "held sv \<longleftrightarrow> sv_inUse sv"

definition release :: "('s, 'h) server \<Rightarrow> ('s, 'h) server" where
  "release sv = sv\<lparr>sv_inUse := False\<rparr>"

section \<open>Handlers\<close>

text \<open>
  The status a call ends with. \<open>RPCTransport\<close> is a status the connection made, not the server.
\<close>

datatype rpc_error =
    RPCVersion string
  | RPCBusy
  | RPCPrepare worker_err
  | RPCFirstChunk
  | RPCMissingPlan
  | RPCPlanTwice
  | RPCReceive
  | RPCTempFile
  | RPCWriteChunk
  | RPCRewind
  | RPCRunBeforePrepare
  | RPCRun worker_err
  | RPCCollect worker_err
  | RPCUnimplemented
  | RPCTransport string

definition serverRegister :: "('s, 'h) worker_env \<Rightarrow> string \<Rightarrow> rpc_error + pb_info" where
  "serverRegister env v =
     (if v \<noteq> [] \<and> v \<noteq> Version then Inl (RPCVersion v) else Inr (workerInfoToProto (sessionInfo env)))"

definition withSession :: "('s, 'h) session \<Rightarrow> ('s, 'h) server \<Rightarrow> ('s, 'h) server" where
  "withSession sess sv = sv\<lparr>sv_session := sess\<rparr>"

text \<open>\<open>Prepare\<close>, which began at \<open>t0\<close> and had prepared at \<open>t1\<close>.\<close>

definition serverPrepare :: "('s, 'h) worker_env \<Rightarrow> ctx \<Rightarrow> int \<Rightarrow> int \<Rightarrow> pb_plan \<Rightarrow> ('s, 'h) server \<Rightarrow> (('s, 'h) server \<times> (rpc_error + pb_ack)) option" where
  "serverPrepare env cx t0 t1 pb sv =
     (case acquire t0 sv of
        (sv1, False) \<Rightarrow> Some (sv1, Inl RPCBusy)
      | (sv1, True) \<Rightarrow>
          (let p = planFromProto pb in
           case sessionPrepare env cx p (cl_TraceBytes p) (sv_session sv1) of
             None \<Rightarrow> None
           | Some (sess, Inl e) \<Rightarrow> Some (release (withSession sess sv1), Inl (RPCPrepare e))
           | Some (sess, Inr res) \<Rightarrow> Some (refreshLease t1 (withSession sess sv1), Inr (prepareAckToProto res))))"

text \<open>
  A message of the client's stream, and what the server's calls of \<open>Recv\<close> see: the messages, each
  with the time its lease refresh happens, then the end of the stream or an error. The temporary
  file is what its calls accept.
\<close>

record pb_chunk =
  pc_plan :: "pb_plan option"
  pc_trace_chunk :: "byte list"

record spool =
  sp_create :: bool
  sp_write :: "nat \<Rightarrow> bool"
  sp_rewind :: bool

text \<open>
  \<open>recvChunks n\<close> is the loop after the first message, with \<open>n\<close> writes made so far and \<open>spooled\<close> the file's
  contents.
\<close>

fun recvChunks :: "spool \<Rightarrow> nat \<Rightarrow> (pb_chunk \<times> int) list \<Rightarrow> bool \<Rightarrow> byte list \<Rightarrow> ('s, 'h) server \<Rightarrow> ('s, 'h) server \<times> (rpc_error + byte list)" where
  "recvChunks sp n [] cleanEnd spooled sv = (sv, if cleanEnd then Inr spooled else Inl RPCReceive)"
| "recvChunks sp n ((msg, t) # rest) cleanEnd spooled sv =
     (if pc_plan msg \<noteq> None then (sv, Inl RPCPlanTwice)
      else if \<not> sp_write sp n then (sv, Inl RPCWriteChunk)
      else recvChunks sp (Suc n) rest cleanEnd (spooled @ pc_trace_chunk msg) (refreshLease t sv))"

definition recvStream :: "spool \<Rightarrow> (pb_chunk \<times> int) list \<Rightarrow> bool \<Rightarrow> ('s, 'h) server \<Rightarrow> ('s, 'h) server \<times> (rpc_error + cluster_plan \<times> byte list)" where
  "recvStream sp msgs cleanEnd sv =
     (case msgs of
        [] \<Rightarrow> (sv, Inl RPCFirstChunk)
      | (msg, _) # rest \<Rightarrow>
          (case pc_plan msg of
             None \<Rightarrow> (sv, Inl RPCMissingPlan)
           | Some pb \<Rightarrow>
               (if \<not> sp_create sp then (sv, Inl RPCTempFile)
                else if pc_trace_chunk msg \<noteq> [] \<and> \<not> sp_write sp 0 then (sv, Inl RPCWriteChunk)
                else case recvChunks sp (if pc_trace_chunk msg \<noteq> [] then 1 else 0) rest cleanEnd (pc_trace_chunk msg) sv of
                  (sv1, Inl e) \<Rightarrow> (sv1, Inl e)
                | (sv1, Inr bytes) \<Rightarrow> if sp_rewind sp then (sv1, Inr (planFromProto pb, bytes)) else (sv1, Inl RPCRewind))))"

definition serverPrepareStream :: "('s, 'h) worker_env \<Rightarrow> ctx \<Rightarrow> spool \<Rightarrow> int \<Rightarrow> int \<Rightarrow> (pb_chunk \<times> int) list \<Rightarrow> bool \<Rightarrow> ('s, 'h) server \<Rightarrow>
    (('s, 'h) server \<times> (rpc_error + pb_ack)) option" where
  "serverPrepareStream env cx sp t0 t1 msgs cleanEnd sv =
     (case acquire t0 sv of
        (sv1, False) \<Rightarrow> Some (sv1, Inl RPCBusy)
      | (sv1, True) \<Rightarrow>
          (case recvStream sp msgs cleanEnd sv1 of
             (sv2, Inl e) \<Rightarrow> Some (release sv2, Inl e)
           | (sv2, Inr (p, bytes)) \<Rightarrow>
               (case sessionPrepare env cx p bytes (sv_session sv2) of
                  None \<Rightarrow> None
                | Some (sess, Inl e) \<Rightarrow> Some (release (withSession sess sv2), Inl (RPCPrepare e))
                | Some (sess, Inr res) \<Rightarrow> Some (refreshLease t1 (withSession sess sv2), Inr (prepareAckToProto res)))))"

text \<open>\<open>Run\<close>, with the times of its start, of its progress ticks and of its end.\<close>

definition serverRun :: "('s, 'h) worker_env \<Rightarrow> ('s, 'h) unfolding_run \<Rightarrow> int \<Rightarrow> int list \<Rightarrow> int \<Rightarrow> ('s, 'h) server \<Rightarrow> ('s, 'h) server \<times> rpc_error option" where
  "serverRun env u t0 ticks t1 sv =
     (if \<not> held sv then (sv, Some RPCRunBeforePrepare)
      else let sv1 = fold refreshLease ticks (refreshLease t0 sv) in
        (case sessionRun env u (sv_session sv1) of
           (sess, Some e) \<Rightarrow> (release (withSession sess sv1), Some (RPCRun e))
         | (sess, None) \<Rightarrow> (refreshLease t1 (withSession sess sv1), None)))"

definition serverCollect :: "('s, 'h) worker_env \<Rightarrow> ('s, 'h) server \<Rightarrow> ('s, 'h) server \<times> (rpc_error + pb_results)" where
  "serverCollect env sv =
     (case sessionCollect env (sv_session sv) of
        (sess, Inl e) \<Rightarrow> (release (withSession sess sv), Inl (RPCCollect e))
      | (sess, Inr out) \<Rightarrow> (release (withSession sess sv), Inr (workerOutputToProto (ev_hist env) out)))"

section \<open>The remote worker\<close>

definition prepareStreamChunkBytes :: nat where "prepareStreamChunkBytes = 1048576"

definition chunksOf :: "nat \<Rightarrow> byte list \<Rightarrow> byte list list" where
  "chunksOf n bs = map (\<lambda>k. take n (drop (k * n) bs)) [0..<(length bs + n - 1) div n]"

text \<open>
  A remote worker: the host it runs on, its server, the connection and the clock of the server.
  \<open>rm_link\<close> says how a call fails on its way; \<open>rm_clock\<close> are the readings of successive calls, the
  first of them \<open>rm_reads\<close>. \<open>rm_streams\<close> is false for an older worker without \<open>PrepareStream\<close>.
\<close>

datatype rpc = CallRegister | CallPrepare | CallPrepareStream | CallRun | CallCollect

record ('s, 'h) remote =
  rm_env :: "('s, 'h) worker_env"
  rm_server :: "('s, 'h) server"
  rm_link :: "rpc \<Rightarrow> string option"
  rm_streams :: bool
  rm_spool :: spool
  rm_clock :: "nat \<Rightarrow> int"
  rm_reads :: nat

definition atServer :: "nat \<Rightarrow> ('s, 'h) server \<Rightarrow> ('s, 'h) remote \<Rightarrow> ('s, 'h) remote" where
  "atServer k sv w = w\<lparr>rm_server := sv, rm_reads := rm_reads w + k\<rparr>"

definition readClock :: "('s, 'h) remote \<Rightarrow> nat \<Rightarrow> int" where
  "readClock w k = rm_clock w (rm_reads w + k)"

text \<open>
  \<open>Send\<close> may fail early when the server has already ended the call, and then the status of the call
  is the server's, so the messages are those sent and the result is what \<open>CloseAndRecv\<close> returns.
\<close>

definition prepareMessages :: "cluster_plan \<Rightarrow> pb_chunk list" where
  "prepareMessages p =
     \<lparr>pc_plan = Some (planToProto (p\<lparr>cl_TraceBytes := []\<rparr>)), pc_trace_chunk = []\<rparr>
       # map (\<lambda>c. \<lparr>pc_plan = None, pc_trace_chunk = c\<rparr>) (chunksOf prepareStreamChunkBytes (cl_TraceBytes p))"

definition remotePrepareStream :: "ctx \<Rightarrow> cluster_plan \<Rightarrow> ('s, 'h) remote \<Rightarrow> (('s, 'h) remote \<times> (rpc_error + pb_ack)) option" where
  "remotePrepareStream cx p w =
     (case rm_link w CallPrepareStream of
        Some e \<Rightarrow> Some (w, Inl (RPCTransport e))
      | None \<Rightarrow>
          (if \<not> rm_streams w then Some (w, Inl RPCUnimplemented)
           else let msgs = prepareMessages p; n = length msgs in
             map_option (map_prod (\<lambda>sv. atServer (n + 2) sv w) id)
               (serverPrepareStream (rm_env w) cx (rm_spool w) (readClock w 0) (readClock w (n + 1))
                  (zip msgs (map (\<lambda>k. readClock w (k + 1)) [0..<n])) True (rm_server w))))"

definition remotePrepare :: "ctx \<Rightarrow> cluster_plan \<Rightarrow> ('s, 'h) remote \<Rightarrow> (('s, 'h) remote \<times> (rpc_error + prepare_result)) option" where
  "remotePrepare cx p w =
     (case remotePrepareStream cx p w of
        None \<Rightarrow> None
      | Some (w1, Inl RPCUnimplemented) \<Rightarrow>
          (case rm_link w1 CallPrepare of
             Some e \<Rightarrow> Some (w1, Inl (RPCTransport e))
           | None \<Rightarrow>
               map_option (map_prod (\<lambda>sv. atServer 2 sv w1) (map_sum id (\<lambda>ack. prepareAckFromProto (Some ack))))
                 (serverPrepare (rm_env w1) cx (readClock w1 0) (readClock w1 1) (planToProto p) (rm_server w1)))
      | Some (w1, Inl e) \<Rightarrow> Some (w1, Inl e)
      | Some (w1, Inr ack) \<Rightarrow> Some (w1, Inr (prepareAckFromProto (Some ack))))"

definition remoteRegister :: "('s, 'h) remote \<Rightarrow> rpc_error + worker_info" where
  "remoteRegister w =
     (case rm_link w CallRegister of
        Some e \<Rightarrow> Inl (RPCTransport e)
      | None \<Rightarrow> map_sum id (\<lambda>i. workerInfoFromProto (Some i)) (serverRegister (rm_env w) Version))"

text \<open>A run unfolds with the number of progress ticks the server sends.\<close>

definition remoteRun :: "nat \<times> ('s, 'h) unfolding_run \<Rightarrow> ('s, 'h) remote \<Rightarrow> ('s, 'h) remote \<times> rpc_error option" where
  "remoteRun nu w =
     (case rm_link w CallRun of
        Some e \<Rightarrow> (w, Some (RPCTransport e))
      | None \<Rightarrow>
          map_prod (\<lambda>sv. atServer (fst nu + 2) sv w) id
            (serverRun (rm_env w) (snd nu) (readClock w 0) (map (\<lambda>k. readClock w (k + 1)) [0..<fst nu]) (readClock w (fst nu + 1)) (rm_server w)))"

definition remoteCollect :: "'h hdr_lib \<Rightarrow> ('s, 'h) remote \<Rightarrow> ('s, 'h) remote \<times> (rpc_error + 'h worker_output)" where
  "remoteCollect L w =
     (case rm_link w CallCollect of
        Some e \<Rightarrow> (w, Inl (RPCTransport e))
      | None \<Rightarrow> map_prod (\<lambda>sv. atServer 0 sv w) (map_sum id (workerOutputFromProto L)) (serverCollect (rm_env w) (rm_server w)))"

text \<open>No status of a call is \<open>context.Canceled\<close>, not even that of a call the client cancelled.\<close>

definition remoteWorker :: "ctx \<Rightarrow> 'h hdr_lib \<Rightarrow> (('s, 'h) remote, nat \<times> ('s, 'h) unfolding_run, rpc_error, 'h) worker_api" where
  "remoteWorker cx L =
     \<lparr>wk_register = remoteRegister, wk_prepare = remotePrepare cx, wk_run = remoteRun, wk_collect = remoteCollect L,
      wk_canceled = (\<lambda>e. False)\<rparr>"

section \<open>The kinds a recorder knows\<close>

definition kindsIn :: "op_kind set \<Rightarrow> 'h recorder \<Rightarrow> bool" where
  "kindsIn K r \<longleftrightarrow> fst ` set (rc_hists r) \<subseteq> K \<and> fst ` set (rc_serviceHists r) \<subseteq> K \<and> fst ` set (rc_counts r) \<subseteq> K"

lemma kindsIn_new: "kindsIn K newRecorder"
  by (simp add: kindsIn_def newRecorder_def)

lemma kindsIn_mono: "kindsIn K r \<Longrightarrow> K \<subseteq> K' \<Longrightarrow> kindsIn K' r"
  by (auto simp: kindsIn_def)

lemma kindsIn_overflowed [simp]: "kindsIn K (overflowed ok r) = kindsIn K r"
  by (simp add: kindsIn_def overflowed_def)

lemma kindsIn_fields [simp]:
  "kindsIn K (r\<lparr>rc_PeakInflight := n\<rparr>) = kindsIn K r" "kindsIn K (r\<lparr>rc_DriftHist := h\<rparr>) = kindsIn K r"
  "kindsIn K (r\<lparr>rc_CompletionLagHist := h\<rparr>) = kindsIn K r" "kindsIn K (r\<lparr>rc_ShortReads := n\<rparr>) = kindsIn K r"
  "kindsIn K (r\<lparr>rc_Errors := n\<rparr>) = kindsIn K r" "kindsIn K (r\<lparr>rc_Bytes := n\<rparr>) = kindsIn K r"
  "kindsIn K (r\<lparr>rc_BacklogEvents := a, rc_BacklogBlockedNS := b, rc_MaxInflightDepth := c\<rparr>) = kindsIn K r"
  by (simp_all add: kindsIn_def)

lemma kindsIn_record:
  assumes "kindsIn K r"
  shows "kindsIn K (recordDrift L d r)" "kindsIn K (recordCompletionLag L d r)" "kindsIn K (recordShortRead r)"
    "k \<in> K \<Longrightarrow> kindsIn K (recordService L k v r)" "k \<in> K \<Longrightarrow> kindsIn K (recordOp L k v n e r)"
  using assms
  by (auto simp: recordDrift_def recordCompletionLag_def recordShortRead_def recordService_def recordOp_def Let_def
      kindsIn_def overflowed_def dom_update split: prod.splits)

lemma mergeHists_keys: "fst ` set (mergeHists L hs os) = fst ` set hs \<union> fst ` set os"
  by (induction L hs os rule: mergeHists.induct) (auto simp: dom_update)

lemma mergeCounts_keys: "fst ` set (mergeCounts cs os ks) = fst ` set cs \<union> set ks"
  by (induction cs os ks rule: mergeCounts.induct) (auto simp: dom_update)

lemma kindsIn_merge: "kindsIn K r \<Longrightarrow> kindsIn K r' \<Longrightarrow> kindsIn K (merge L r r')"
  by (auto simp: kindsIn_def merge_def mergeHists_keys mergeCounts_keys)

lemma kindsIn_mergeAll: "kindsIn K r \<Longrightarrow> \<forall>x \<in> set rs. kindsIn K x \<Longrightarrow> kindsIn K (foldl (merge L) r rs)"
  by (induction rs arbitrary: r) (simp_all add: kindsIn_merge)

definition stream_kinds :: "'h stream \<Rightarrow> bool" where
  "stream_kinds st \<longleftrightarrow> kindsIn (op_op ` set (sm_ops st)) (sm_rec st)"

lemma stream_kinds_local:
  "stream_kinds st \<Longrightarrow> stream_kinds (st\<lparr>sm_phase := p\<rparr>)" "stream_kinds st \<Longrightarrow> stream_kinds (st\<lparr>sm_exited := b\<rparr>)"
  "stream_kinds st \<Longrightarrow> stream_kinds (st\<lparr>sm_phase := p, sm_handles := h, sm_buf := bf\<rparr>)"
  by (simp_all add: stream_kinds_def)

lemma stream_kinds_enter: "stream_kinds st \<Longrightarrow> stream_kinds (enterStream cf d st)"
  by (simp add: stream_kinds_def enterStream_def Let_def kindsIn_record)

lemma stream_kinds_leave: "stream_kinds st \<Longrightarrow> has_next st \<Longrightarrow> stream_kinds (leaveStream cf b sh e sv lt st)"
  by (simp add: stream_kinds_def leaveStream_def recordOutcome_def Let_def has_next_def kindsIn_record)

lemma reachable_kinds:
  assumes "reachable cf bs s rn"
  shows "\<forall>st \<in> set (rn_streams rn). stream_kinds st"
  using assms
proof (induction rule: reachable.induct)
  case reach_start
  then show ?case by (auto simp: startRun_def startStream_def stream_kinds_def kindsIn_new)
next
  case (reach_step rn rn')
  have upd: "\<forall>st \<in> set ((rn_streams rn)[i := y]). stream_kinds st" if "stream_kinds y" for i y
    using all_update [OF reach_step.IH that] .
  have at: "stream_kinds (rn_streams rn ! i)" if "at_phase rn i p" for i p
    using at_phaseD(4) [OF that] reach_step.IH by blast
  have nx: "has_next (rn_streams rn ! i)" if "at_phase rn i (Completed b sh e)" for i b sh e
    using reachable_inv [OF reach_step.hyps(1)] at_phaseD(3,4) [OF that] by (auto simp: run_inv_def stream_inv_def)
  from reach_step.hyps(2) show ?case
    by cases (auto simp: exitStream_def setPhase_def issueRun_def enterRun_def leaveRun_def Let_def reach_step.IH
      intro!: upd stream_kinds_enter stream_kinds_leave stream_kinds_local intro: at nx)
qed

text \<open>So a worker's output survives the wire.\<close>

lemma output_kinds:
  assumes ran: "worker_ran (cf, bs, s, rn) out"
  shows "kindsIn (op_op ` (\<Union>so \<in> set bs. set (snd so))) (wo_Recorder out)"
proof -
  let ?K = "op_op ` (\<Union>so \<in> set bs. set (snd so))"
  obtain sts cs se d u y host lims where r: "reachable cf bs s rn" and sts: "mset sts = mset (rn_streams rn)" "length cs = length sts"
    and out: "out = (workerOutput (cf_hist cf) bs rn (map2 (\<lambda>st c. \<lparr>sr_sid = sm_sid st, sr_rec = sm_rec st, sr_completionNS = c\<rparr>) sts cs) se d u y)
       \<lparr>wo_Hostname := host, wo_EngineLimitations := lims\<rparr>"
    using ran unfolding worker_ran_def prod.case by blast
  have ops: "set (sm_ops st) \<subseteq> (\<Union>so \<in> set bs. set (snd so))" if "st \<in> set (rn_streams rn)" for st
  proof -
    have "map (\<lambda>st. (sm_sid st, sm_ops st)) (rn_streams rn) = bs" using reachable_inv [OF r] by (simp add: run_inv_def)
    then have "(sm_sid st, sm_ops st) \<in> set bs" using that by auto
    then have "set (snd (sm_sid st, sm_ops st)) \<subseteq> (\<Union>so \<in> set bs. set (snd so))" by (rule UN_upper)
    then show ?thesis by simp
  qed
  have "kindsIn ?K (sm_rec st)" if "st \<in> set sts" for st
  proof -
    have st: "st \<in> set (rn_streams rn)" using that sts(1) by (metis mset_eq_setD)
    then have "kindsIn (op_op ` set (sm_ops st)) (sm_rec st)" using reachable_kinds [OF r] by (simp add: stream_kinds_def)
    then show ?thesis by (rule kindsIn_mono [OF _ image_mono [OF ops [OF st]]])
  qed
  then have "kindsIn ?K (foldl (merge (cf_hist cf)) newRecorder (map sm_rec sts))"
    by (intro kindsIn_mergeAll kindsIn_new) auto
  then show ?thesis by (simp add: out workerOutput_def Let_def drain_def drain_fields map2_fields [OF sts(2)] del: map_map)
qed

lemma assigned_wire:
  assumes "hdr_laws L" "assigned_output (t :: 's itself) L ls ids out"
  shows "workerOutputFromProto L (workerOutputToProto L out) = out"
proof -
  obtain r nops bs cf and s :: 's and rn where a: "scanOps (rd_lines r) (rd_line r) = (nops, None)" "trace_spec r (map snd nops)"
    "grouped ids False (map snd nops) bs" "cf_hist cf = L" "worker_ran (cf, bs, s, rn) out"
    using assms(2) unfolding assigned_output_def by blast
  have sub: "x \<in> set (map snd nops)" if "so \<in> set bs" "x \<in> set (snd so)" for so x
  proof -
    have "map_of bs (fst so) = Some (snd so)" using a(3) that(1) unfolding grouped_def by (metis map_of_is_SomeI prod.collapse)
    then have "snd so = filter (\<lambda>x. op_s x = fst so \<and> wanted False ids x) (map snd nops)"
      using a(3) by (auto simp: grouped_def Let_def split: if_splits)
    then show ?thesis using that(2) by simp
  qed
  have "\<forall>x \<in> set (map snd nops). op_kind_valid (op_op x)"
    using a(2) ops_spec_kinds [of "rd_hdr r" "map snd nops"] unfolding trace_spec_def by blast
  then have "op_op ` (\<Union>so \<in> set bs. set (snd so)) \<subseteq> Collect op_kind_valid" using sub by blast
  then have "kindsIn (Collect op_kind_valid) (wo_Recorder out)" by (rule kindsIn_mono [OF output_kinds [OF a(5)]])
  then have "recorder_kinds (wo_Recorder out)" by (auto simp: kindsIn_def recorder_kinds_def kinds_valid_def)
  moreover have "recorder_wf L (wo_Recorder out)"
    using ran_accounts(1) [OF a(5)] assms(1) a(4) holds_wf unfolding accounts_def by blast
  ultimately show ?thesis by (intro output_wire assms(1))
qed

section \<open>The stream of chunks\<close>

lemma take_chunks: "0 < n \<Longrightarrow> concat (map (\<lambda>k. take n (drop (k * n) bs)) [0..<m]) = take (m * n) bs"
proof (induction m)
  case (Suc m)
  then show ?case by (simp add: add.commute [of n] take_add)
qed simp

lemma concat_chunksOf: "0 < n \<Longrightarrow> concat (chunksOf n bs) = bs"
proof -
  assume n: "0 < n"
  define m where "m = length bs + n - 1"
  have "m div n * n + m mod n = m" "m mod n < n" using n by simp_all
  then have "length bs \<le> m div n * n" using n unfolding m_def by linarith
  then have "length bs \<le> (length bs + n - 1) div n * n" by (simp only: m_def)
  then show ?thesis by (simp add: chunksOf_def take_chunks [OF n])
qed

lemma recvChunks_data:
  "recvChunks sp n (zip (map (\<lambda>c. \<lparr>pc_plan = None, pc_trace_chunk = c\<rparr>) cs) ts) True acc sv = (sv1, Inr bytes) \<Longrightarrow> length ts = length cs
     \<Longrightarrow> bytes = acc @ concat cs \<and> sv_session sv1 = sv_session sv"
proof (induction cs arbitrary: ts n acc sv)
  case (Cons c cs)
  then obtain t ts' where ts: "ts = t # ts'" by (cases ts) auto
  have r: "recvChunks sp (Suc n) (zip (map (\<lambda>c. \<lparr>pc_plan = None, pc_trace_chunk = c\<rparr>) cs) ts') True (acc @ c) (refreshLease t sv) = (sv1, Inr bytes)"
    using Cons.prems by (auto simp: ts split: if_splits)
  show ?case using Cons.IH [OF r] Cons.prems(2) by (simp add: ts refreshLease_def split: if_splits)
qed simp

lemma session_lease [simp]:
  "sv_session (refreshLease t sv) = sv_session sv" "sv_session (release sv) = sv_session sv" "sv_session (withSession sess sv) = sess"
  by (simp_all add: refreshLease_def release_def withSession_def)

lemma session_acquire: "acquire t sv = (sv', b) \<Longrightarrow> sv_session sv' = sv_session sv"
  by (auto simp: acquire_def split: if_splits)

lemma session_ticks [simp]: "sv_session (fold refreshLease ts sv) = sv_session sv"
  by (induction ts arbitrary: sv) simp_all

lemma recvStream_messages:
  assumes "recvStream sp (zip (prepareMessages p) ts) True sv = (sv1, Inr (q, bytes))" "length ts = length (prepareMessages p)"
  shows "q = planFromProto (planToProto (p\<lparr>cl_TraceBytes := []\<rparr>)) \<and> bytes = cl_TraceBytes p \<and> sv_session sv1 = sv_session sv"
proof -
  obtain t ts' where ts: "ts = t # ts'" "length ts' = length (chunksOf prepareStreamChunkBytes (cl_TraceBytes p))"
    using assms(2) by (cases ts) (auto simp: prepareMessages_def)
  obtain sv' where r: "recvChunks sp 0 (zip (map (\<lambda>c. \<lparr>pc_plan = None, pc_trace_chunk = c\<rparr>) (chunksOf prepareStreamChunkBytes (cl_TraceBytes p))) ts') True [] sv = (sv', Inr bytes)"
    and q: "q = planFromProto (planToProto (p\<lparr>cl_TraceBytes := []\<rparr>))" "sv1 = sv'"
    using assms(1) by (auto simp: recvStream_def prepareMessages_def ts split: if_splits prod.splits sum.splits)
  show ?thesis using recvChunks_data [OF r ts(2)] q concat_chunksOf [of prepareStreamChunkBytes] by (simp add: prepareStreamChunkBytes_def)
qed

section \<open>The remote worker keeps the contract\<close>

text \<open>Only a worker without \<open>PrepareStream\<close> answers that it is not implemented.\<close>

lemma recvChunks_err: "recvChunks sp n msgs b acc sv = (sv1, Inl e) \<Longrightarrow> e \<noteq> RPCUnimplemented"
  by (induction sp n msgs b acc sv rule: recvChunks.induct) (auto split: if_splits)

lemma recvStream_err: "recvStream sp msgs b sv = (sv1, Inl e) \<Longrightarrow> e \<noteq> RPCUnimplemented"
  using recvChunks_err by (fastforce simp: recvStream_def split: list.splits prod.splits option.splits if_splits sum.splits)

lemma serverPrepareStream_err: "serverPrepareStream env cx sp t0 t1 msgs b sv = Some (sv1, Inl e) \<Longrightarrow> e \<noteq> RPCUnimplemented"
  using recvStream_err by (fastforce simp: serverPrepareStream_def split: prod.splits bool.splits sum.splits option.splits)

lemma remoteStream_unimplemented: "remotePrepareStream cx p w = Some (w', Inl RPCUnimplemented) \<Longrightarrow> w' = w"
  using serverPrepareStream_err by (fastforce simp: remotePrepareStream_def Let_def split: option.splits if_splits)

lemma planWire_streams [simp]:
  "cl_AssignedStreams (planFromProto (planToProto p)) = cl_AssignedStreams p"
  "cl_TraceBytes (planFromProto (planToProto p)) = cl_TraceBytes p"
  by (simp_all add: planFromProto_def planToProto_def)

lemma serverPrepareStream_Inr:
  assumes "serverPrepareStream env cx sp t0 t1 (zip (prepareMessages p) ts) True sv = Some (sv1, Inr ack)" "length ts = length (prepareMessages p)"
  obtains q pr where "sessionPrepare env cx q (cl_TraceBytes p) (sv_session sv) = Some (sv_session sv1, Inr pr)"
    "cl_AssignedStreams q = cl_AssignedStreams p"
proof -
  obtain sv' sv2 q bytes sess pr where a: "acquire t0 sv = (sv', True)"
    and r: "recvStream sp (zip (prepareMessages p) ts) True sv' = (sv2, Inr (q, bytes))"
    and s: "sessionPrepare env cx q bytes (sv_session sv2) = Some (sess, Inr pr)" "sv1 = refreshLease t1 (withSession sess sv2)"
    using assms(1) by (auto simp: serverPrepareStream_def split: prod.splits bool.splits sum.splits option.splits)
  note m = recvStream_messages [OF r assms(2)]
  show thesis by (rule that [of q pr]) (use s m session_acquire [OF a] in auto)
qed

lemma serverPrepare_Inr:
  assumes "serverPrepare env cx t0 t1 (planToProto p) sv = Some (sv1, Inr ack)"
  obtains q pr where "sessionPrepare env cx q (cl_TraceBytes p) (sv_session sv) = Some (sv_session sv1, Inr pr)"
    "cl_AssignedStreams q = cl_AssignedStreams p"
proof -
  obtain sv' sess pr where a: "acquire t0 sv = (sv', True)"
    and s: "sessionPrepare env cx (planFromProto (planToProto p)) (cl_TraceBytes p) (sv_session sv') = Some (sess, Inr pr)"
      "sv1 = refreshLease t1 (withSession sess sv')"
    using assms by (auto simp: serverPrepare_def Let_def split: prod.splits bool.splits sum.splits option.splits)
  show thesis by (rule that [of "planFromProto (planToProto p)" pr]) (use s session_acquire [OF a] in auto)
qed

lemma remotePrepare_Inr:
  assumes "remotePrepare cx p w = Some (w1, Inr pr)"
  obtains q pr' where "sessionPrepare (rm_env w) cx q (cl_TraceBytes p) (sv_session (rm_server w)) = Some (sv_session (rm_server w1), Inr pr')"
    "cl_AssignedStreams q = cl_AssignedStreams p" "rm_env w1 = rm_env w"
proof -
  consider (stream) ack where "remotePrepareStream cx p w = Some (w1, Inr ack)"
    | (unary) w' where "remotePrepareStream cx p w = Some (w', Inl RPCUnimplemented)"
        "rm_link w' CallPrepare = None"
        "map_option (map_prod (\<lambda>sv. atServer 2 sv w') (map_sum id (\<lambda>ack. prepareAckFromProto (Some ack))))
           (serverPrepare (rm_env w') cx (readClock w' 0) (readClock w' 1) (planToProto p) (rm_server w')) = Some (w1, Inr pr)"
    using assms by (auto simp: remotePrepare_def split: option.splits prod.splits sum.splits rpc_error.splits)
  then show thesis
  proof cases
    case stream
    then obtain sv ack' where s: "serverPrepareStream (rm_env w) cx (rm_spool w) (readClock w 0) (readClock w (length (prepareMessages p) + 1))
        (zip (prepareMessages p) (map (\<lambda>k. readClock w (k + 1)) [0..<length (prepareMessages p)])) True (rm_server w) = Some (sv, Inr ack')"
      and w1: "w1 = atServer (length (prepareMessages p) + 2) sv w"
      by (auto simp: remotePrepareStream_def Let_def split: option.splits if_splits)
    show thesis
      by (rule serverPrepareStream_Inr [OF s]) (use that w1 in \<open>auto simp: atServer_def\<close>)
  next
    case unary
    then obtain sv ack where s: "serverPrepare (rm_env w') cx (readClock w' 0) (readClock w' 1) (planToProto p) (rm_server w') = Some (sv, Inr ack)"
      and w1: "w1 = atServer 2 sv w'"
      by (auto simp: map_sum_Inr)
    have "w' = w" by (rule remoteStream_unimplemented [OF unary(1)])
    show thesis
    proof (rule serverPrepare_Inr [OF s])
      fix q pr' assume "sessionPrepare (rm_env w') cx q (cl_TraceBytes p) (sv_session (rm_server w')) = Some (sv_session sv, Inr pr')"
        "cl_AssignedStreams q = cl_AssignedStreams p"
      then show thesis by (intro that [of q pr']) (simp_all add: w1 \<open>w' = w\<close> atServer_def)
    qed
  qed
qed


definition remote_good :: "(byte list \<Rightarrow> raw_line list) \<Rightarrow> 'h hdr_lib \<Rightarrow> ('s, 'h) remote \<Rightarrow> bool" where
  "remote_good ls L w \<longleftrightarrow> ev_lines (rm_env w) = ls \<and> ev_hist (rm_env w) = L"

definition remote_possible :: "nat \<times> ('s, 'h) unfolding_run \<Rightarrow> ('s, 'h) remote \<Rightarrow> bool" where
  "remote_possible u w \<longleftrightarrow> possible_run (rm_env w) (snd u) (sv_session (rm_server w))"

lemma remote_run_session:
  assumes "remoteRun u w = (w1, None)"
  shows "rm_env w1 = rm_env w \<and> sessionRun (rm_env w) (snd u) (sv_session (rm_server w)) = (sv_session (rm_server w1), None)"
proof -
  obtain sv where r: "serverRun (rm_env w) (snd u) (readClock w 0) (map (\<lambda>k. readClock w (k + 1)) [0..<fst u]) (readClock w (fst u + 1)) (rm_server w) = (sv, None)"
    and w1: "w1 = atServer (fst u + 2) sv w"
    using assms by (auto simp: remoteRun_def map_prod_def split: option.splits prod.splits)
  then show ?thesis by (auto simp: serverRun_def Let_def atServer_def split: if_splits prod.splits option.splits)
qed

lemma remote_collect_session:
  assumes "remoteCollect L w = (w1, Inr out)"
  obtains sess out' where "sessionCollect (rm_env w) (sv_session (rm_server w)) = (sess, Inr out')"
    "out = workerOutputFromProto L (workerOutputToProto (ev_hist (rm_env w)) out')"
  using assms by (auto simp: remoteCollect_def serverCollect_def map_prod_def map_sum_Inr split: option.splits prod.splits sum.splits)

lemma remote_worker:
  assumes "hdr_laws L"
  shows "replay_worker (remoteWorker cx L) TYPE('s) L ls (remote_good ls L) (remote_possible :: _ \<Rightarrow> ('s, 'h) remote \<Rightarrow> bool)"
proof
  fix w w1 w2 w3 :: "('s, 'h) remote" and p pr u out
  assume a: "remote_good ls L w" "wk_prepare (remoteWorker cx L) p w = Some (w1, Inr pr)" "remote_possible u w1"
    "wk_run (remoteWorker cx L) u w1 = (w2, None)" "wk_collect (remoteWorker cx L) w2 = (w3, Inr out)"
  obtain q pr' where p: "sessionPrepare (rm_env w) cx q (cl_TraceBytes p) (sv_session (rm_server w)) = Some (sv_session (rm_server w1), Inr pr')"
    "cl_AssignedStreams q = cl_AssignedStreams p" "rm_env w1 = rm_env w"
    by (rule remotePrepare_Inr [of cx p w w1 pr]) (use a(2) in \<open>simp_all add: remoteWorker_def\<close>)
  have r: "rm_env w2 = rm_env w1" "sessionRun (rm_env w1) (snd u) (sv_session (rm_server w1)) = (sv_session (rm_server w2), None)"
    using a(4) remote_run_session [of u w1 w2] by (simp_all add: remoteWorker_def)
  obtain sess out' where c: "sessionCollect (rm_env w2) (sv_session (rm_server w2)) = (sess, Inr out')"
    "out = workerOutputFromProto L (workerOutputToProto (ev_hist (rm_env w2)) out')"
    by (rule remote_collect_session [of L w2 w3 out]) (use a(5) in \<open>simp_all add: remoteWorker_def\<close>)
  have o: "assigned_output TYPE('s) L (ls (cl_TraceBytes p)) (cl_AssignedStreams p) out'"
    using session_output [OF p(1) _ r(2) [unfolded p(3)] c(1) [unfolded r(1) p(3)]] a(1,3) by (simp add: p(2,3) remote_good_def remote_possible_def)
  then show "assigned_output TYPE('s) L (ls (cl_TraceBytes p)) (cl_AssignedStreams p) out"
    using assigned_wire [OF assms o] a(1) by (simp add: c(2) r(1) p(3) remote_good_def)
qed (rule assms)

section \<open>Interpretations\<close>

interpretation local_wk: replay_worker "localWorker cx" "TYPE('s)" one_bucket ls "local_good ls one_bucket"
    "\<lambda>u (w :: ('s, int) worker_env \<times> ('s, int) session). possible_run (fst w) u (snd w)" for cx ls
  by (rule local_worker [OF one_bucket_laws])

interpretation remote_wk: replay_worker "remoteWorker cx one_bucket" "TYPE('s)" one_bucket ls "remote_good ls one_bucket"
    "remote_possible :: _ \<Rightarrow> ('s, int) remote \<Rightarrow> bool" for cx ls
  by (rule remote_worker [OF one_bucket_laws])

section \<open>Who owns a worker\<close>

text \<open>
  The steps a server takes under its mutex, by whichever calls of whichever coordinators, each with
  the clock's reading. The owner is a history variable: the caller of the last \<open>acquire\<close> that
  succeeded, until a \<open>release\<close>.
\<close>

datatype lease_step = LAcquire nat | LRefresh | LRelease

definition leaseStep :: "('s, 'h) server \<times> nat option \<Rightarrow> int \<times> lease_step \<Rightarrow> ('s, 'h) server \<times> nat option" where
  "leaseStep so te =
     (case te of
        (t, LAcquire c) \<Rightarrow> (case acquire t (fst so) of (sv, True) \<Rightarrow> (sv, Some c) | (sv, False) \<Rightarrow> (sv, snd so))
      | (t, LRefresh) \<Rightarrow> (refreshLease t (fst so), snd so)
      | (t, LRelease) \<Rightarrow> (release (fst so), None))"

text \<open>The owner keeps its lease alive: from the refresh at \<open>prev\<close> on, no other call comes later than a
  lease after the last refresh, and nobody releases.\<close>

fun kept_alive :: "int \<Rightarrow> int \<Rightarrow> (int \<times> lease_step) list \<Rightarrow> bool" where
  "kept_alive lease prev [] = True"
| "kept_alive lease prev ((t, LAcquire c) # rest) = (t < prev + lease \<and> kept_alive lease prev rest)"
| "kept_alive lease prev ((t, LRefresh) # rest) = kept_alive lease t rest"
| "kept_alive lease prev ((t, LRelease) # rest) = False"

lemma acquire_iff: "snd (acquire t sv) \<longleftrightarrow> \<not> (sv_inUse sv \<and> t < sv_deadline sv)"
  by (simp add: acquire_def)

lemma lease_kept:
  "kept_alive (sv_runLease sv) prev steps \<Longrightarrow> sv_inUse sv \<Longrightarrow> sv_deadline sv = prev + sv_runLease sv \<Longrightarrow>
     snd (foldl leaseStep (sv, owner) steps) = owner \<and> held (fst (foldl leaseStep (sv, owner) steps))"
proof (induction "sv_runLease sv" prev steps arbitrary: sv rule: kept_alive.induct)
  case (2 prev t c rest)
  then show ?case using "2"(1) [of sv] by (simp add: leaseStep_def acquire_def)
next
  case (3 prev t rest)
  then show ?case using "3"(1) [of "refreshLease t sv"] by (simp add: leaseStep_def refreshLease_def)
qed (simp_all add: held_def)

lemma leaseStep_bounded:
  "leaseStep (sv, c) (t, a) = (sv', c') \<Longrightarrow> t \<le> T \<Longrightarrow> sv_deadline sv \<le> T + sv_runLease sv \<Longrightarrow>
     sv_runLease sv' = sv_runLease sv \<and> sv_deadline sv' \<le> T + sv_runLease sv"
  by (cases a) (auto simp: leaseStep_def acquire_def refreshLease_def release_def split: if_splits)

lemma lease_bounded:
  "\<forall>te \<in> set steps. fst te \<le> T \<Longrightarrow> sv_deadline sv \<le> T + sv_runLease sv \<Longrightarrow>
     sv_deadline (fst (foldl leaseStep (sv, owner) steps)) \<le> T + sv_runLease sv"
proof (induction steps arbitrary: sv owner)
  case (Cons te steps)
  obtain t a where te: "te = (t, a)" by (cases te)
  obtain sv' c' where st: "leaseStep (sv, owner) (t, a) = (sv', c')" by (cases "leaseStep (sv, owner) (t, a)")
  have "sv_runLease sv' = sv_runLease sv" "sv_deadline sv' \<le> T + sv_runLease sv"
    using leaseStep_bounded [OF st, of T] Cons.prems by (simp_all add: te)
  then show ?case using Cons.IH [of sv' c'] Cons.prems(1) by (simp add: te st)
qed simp

text \<open>The lease steps of the handlers.\<close>

lemma ticks_held: "sv_inUse sv \<Longrightarrow> ts \<noteq> [] \<Longrightarrow>
    sv_inUse (fold refreshLease ts sv) \<and> sv_deadline (fold refreshLease ts sv) = last ts + sv_runLease sv \<and> sv_runLease (fold refreshLease ts sv) = sv_runLease sv"
  by (induction ts arbitrary: sv) (auto simp: refreshLease_def)

lemma run_refreshes:
  assumes "serverRun env u t0 ticks t1 sv = (sv1, None)"
  shows "held sv1 \<and> sv_deadline sv1 = t1 + sv_runLease sv1"
proof -
  have h: "sv_inUse sv" using assms by (auto simp: serverRun_def held_def split: if_splits)
  have "sv_inUse (fold refreshLease ticks (refreshLease t0 sv))"
    using ticks_held [of sv "t0 # ticks"] h by simp
  then show ?thesis using assms by (auto simp: serverRun_def held_def Let_def refreshLease_def withSession_def split: if_splits prod.splits option.splits)
qed

section \<open>Properties\<close>

text \<open>
  C29: a worker belongs to one run at a time and is never lost. Whatever calls of other coordinators
  arrive in whatever order, a run that refreshes its lease in time keeps the worker: every other
  Prepare is refused. And whatever happened before, once no call has come for the length of a
  lease, the next Prepare gets the worker, so an abandoned run does not wedge it.
\<close>

theorem lease_exclusive:
  assumes "snd (acquire t sv)" "steps = (t, LAcquire c) # rest"
  shows "(kept_alive (sv_runLease sv) t rest \<longrightarrow> snd (foldl leaseStep (sv, o1) steps) = Some c \<and> held (fst (foldl leaseStep (sv, o1) steps)))
    \<and> ((\<forall>te \<in> set steps. fst te \<le> T) \<longrightarrow> T + sv_runLease sv \<le> t' \<longrightarrow> snd (acquire t' (fst (foldl leaseStep (sv, o1) steps))))"
proof -
  obtain sv1 where sv1: "acquire t sv = (sv1, True)" using assms(1) by (cases "acquire t sv") simp
  have f: "sv_inUse sv1" "sv_deadline sv1 = t + sv_runLease sv1" "sv_runLease sv1 = sv_runLease sv"
    using sv1 by (auto simp: acquire_def split: if_splits)
  have s: "foldl leaseStep (sv, o1) steps = foldl leaseStep (sv1, Some c) rest"
    by (simp add: assms(2) leaseStep_def sv1)
  have "snd (foldl leaseStep (sv, o1) steps) = Some c \<and> held (fst (foldl leaseStep (sv, o1) steps))"
    if "kept_alive (sv_runLease sv) t rest"
    unfolding s using lease_kept [of sv1 t rest "Some c"] that by (simp only: f simp_thms)
  moreover have "snd (acquire t' (fst (foldl leaseStep (sv, o1) steps)))"
    if "\<forall>te \<in> set steps. fst te \<le> T" "T + sv_runLease sv \<le> t'"
  proof -
    have "\<forall>te \<in> set rest. fst te \<le> T" "t \<le> T" using that(1) by (simp_all add: assms(2))
    from lease_bounded [OF this(1), of sv1 "Some c"] this(2) that(2) show ?thesis
      unfolding s acquire_iff f by simp
  qed
  ultimately show ?thesis by blast
qed

definition busy_hour :: "(int \<times> lease_step) list" where
  "busy_hour = [(5, LAcquire 1), (6, LAcquire 2), (100000000000, LRefresh), (200000000000, LAcquire 2)]"

theorem lease_exclusive_witness:
  "snd (foldl leaseStep (newServer [] :: (unit, unit) server, None) busy_hour) = Some 1
    \<and> snd (acquire 320000000000 (fst (foldl leaseStep (newServer [] :: (unit, unit) server, None) busy_hour)))"
proof -
  let ?sv = "newServer [] :: (unit, unit) server"
  have "snd (acquire 5 ?sv)" "sv_runLease ?sv = 120000000000" by (simp_all add: acquire_def newServer_def defaultRunLease_def)
  moreover have "\<forall>te \<in> set busy_hour. fst te \<le> 200000000000" by (simp add: busy_hour_def)
  ultimately show ?thesis
    using lease_exclusive [OF _ busy_hour_def, of ?sv None 200000000000 320000000000] by simp
qed

text \<open>
  A call does not say which run it belongs to. A Collect of a coordinator whose lease went stale
  releases the worker although another one owns it by then, and a dataset preparation that takes
  longer than a lease is taken over while it is still running.
\<close>

lemma stale_collect_releases: "\<not> held (fst (serverCollect env sv))"
  by (auto simp: serverCollect_def held_def release_def split: prod.split sum.split)

lemma long_prepare_taken_over:
  "snd (acquire t0 sv) \<Longrightarrow> 0 \<le> sv_runLease sv \<Longrightarrow> t0 + sv_runLease sv \<le> t1 \<Longrightarrow> snd (acquire t1 (fst (acquire t0 sv)))"
  by (auto simp: acquire_def split: if_splits)

text \<open>
  Over gRPC no error is \<open>context.Canceled\<close>, so the error reported for an aborted run is that of the
  first worker in order, even when that one only saw the cancellation.
\<close>

lemma bystander_reported:
  "firstRunError (wk_canceled (localWorker cx)) [Some WECanceled, Some (WEMode m)] [i0, i1] = Some (CERun 1 (wi_Hostname i1) (WEMode m))"
  "firstRunError (wk_canceled (remoteWorker cx L)) [Some (RPCRun WECanceled), Some (RPCRun (WEMode m))] [i0, i1]
     = Some (CERun 0 (wi_Hostname i0) (RPCRun WECanceled))"
  by (simp_all add: firstRunError_def localWorker_def remoteWorker_def)

text \<open>
  C6: a distributed run counts every operation of its trace exactly once. However many workers
  there are, whichever streams fall to them, over the wire and back, and however their replays
  interleave: when the coordinator returns results, the trace was readable to its end, the results'
  operation count is the number of its ops, nothing is reported skipped and no stream ran two ops
  at once.
\<close>

theorem cluster_complete:
  fixes ws ws1 :: "('s, 'h) remote list"
  assumes laws: "hdr_laws (ce_hist env)"
    and run: "coordinatorRun (remoteWorker cx (ce_hist env)) env plan ws = Some (ws', Inr res)"
    and prep: "coordinatorPrepare (remoteWorker cx (ce_hist env)) env plan ws = Some (ws1, Inr prepared)"
    and len: "length (ce_unfold env) = length ws"
    and good: "list_all (remote_good (ce_lines env) (ce_hist env)) ws"
    and poss: "list_all2 remote_possible (ce_unfold env) ws1"
    and r: "newReader (ce_lines env (cl_TraceBytes plan)) = Inr r" "scanOps (rd_lines r) (rd_line r) = (nops, None)"
    and n: "int (length nops) < 2 ^ 63"
  shows "re_OpsCompleted res = int (length nops) \<and> cs_OpsSkipped (fr_Coverage (re_Fidelity res)) = 0
    \<and> cc_Violations (fr_ConcurrencyCheck (re_Fidelity res)) = []"
  by (rule replay_worker.coordinator_complete [OF remote_worker [OF laws] run prep refl refl len good poss r n])

section \<open>A sample cluster\<close>

definition cluster_ops :: "op list" where
  "cluster_ops = [zero_op\<lparr>op_id := Some 0, op_op := OpOpen, op_tgt := Some 0, op_h := Some 7, op_mode := ModeRead\<rparr>,
     zero_op\<lparr>op_t := 20, op_id := Some 1, op_op := OpClose, op_h := Some 7\<rparr>]"

definition cluster_header :: header where
  "cluster_header = sample_header\<lparr>hdr_summary := \<lparr>sum_num_ops = 2, sum_num_streams = 1, sum_num_groups = 0, sum_total_bytes = 0,
     sum_duration_ns = 20, sum_num_partial_reads = 0\<rparr>\<rparr>"

definition cluster_reader :: reader where
  "cluster_reader = \<lparr>rd_lines = map (\<lambda>x. LJson (encode_op x)) cluster_ops, rd_hdr = cluster_header,
     rd_headerRaw = encode_header cluster_header, rd_line = 1\<rparr>"

definition cluster_lines :: "raw_line list" where
  "cluster_lines = LJson (encode_header cluster_header) # rd_lines cluster_reader"

lemma cluster_scan: "scanOps (rd_lines cluster_reader) (rd_line cluster_reader) = (numbered 1 cluster_ops, None)"
  by code_simp

definition cluster_env :: "(mem_state, int) worker_env" where
  "cluster_env = \<lparr>ev_lines = (\<lambda>_. cluster_lines), ev_url = (\<lambda>_. None), ev_s3Load = None,
     ev_engine = (\<lambda>_. (memEngine (withFixedSize 11), memNew)), ev_source = (\<lambda>_. None), ev_cold = (\<lambda>_. ([], [])),
     ev_note = (\<lambda>_. []), ev_hist = one_bucket, ev_hostname = ''h'', ev_cpus = 1\<rparr>"

definition cluster_remote :: "(mem_state, int) remote" where
  "cluster_remote = \<lparr>rm_env = cluster_env, rm_server = newServer [], rm_link = (\<lambda>_. None), rm_streams = True,
     rm_spool = \<lparr>sp_create = True, sp_write = (\<lambda>_. True), sp_rewind = True\<rparr>, rm_clock = int, rm_reads = 0\<rparr>"

definition cluster_sample :: cluster_plan where
  "cluster_sample = \<lparr>cl_TracePath = ''t'', cl_TraceBytes = [], cl_AssignedStreams = [],
     cl_Engine = zeroSpec\<lparr>es_Name := ''mem''\<rparr>, cl_Mode = ''asap'', cl_MaxInflight = 0, cl_SpeedupFactor = 0,
     cl_TargetRewrite = [], cl_AllowPassthrough = False, cl_PrepareMode = [], cl_PrepareScope = [], cl_SourceRoot = [],
     cl_CacheMode = [], cl_FillMode = [], cl_FillSeed = 0\<rparr>"

definition cluster_executor :: executor where
  "cluster_executor = \<lparr>ex_plan = replayPlan cluster_sample [], ex_hdr = cluster_header, ex_byStream = [(0, cluster_ops)],
     ex_prepMeta = \<lparr>pm_Extents = [], pm_Fill = \<lparr>fc_mode = FillSeeded, fc_seed = 1\<rparr>\<rparr>,
     ex_originalTargets = hdr_targets sample_header, ex_objectWriteSizes = []\<rparr>"

lemma cluster_read: "newReader cluster_lines = Inr cluster_reader"
  by code_simp

lemma cluster_prepared:
  "prepareAssigned (\<lambda>_. None) (memEngine (withFixedSize 11)) (replayPlan cluster_sample []) cluster_reader [0] = Inr cluster_executor"
  by code_simp


definition cluster_session :: "(mem_state, int) session" where
  "cluster_session = \<lparr>sn_targetRoot = [], sn_exec = Some cluster_executor,
     sn_eng = Some (memEngine (withFixedSize 11), memNew), sn_out = None\<rparr>"

definition cluster_ack :: prepare_result where
  "cluster_ack = \<lparr>pr_PrepStats = noStats, pr_CacheResult = \<lparr>cr_Actions = [], cr_Limitations = [], cr_Primed = 0\<rparr>,
     pr_ReplayEquivalence = EquivalenceSyscallLevel\<rparr>"

lemma cluster_build: "\<exists>b. buildEngine (workerSpec [] (rd_hdr cluster_reader) (cluster_sample\<lparr>cl_AssignedStreams := [0], cl_PrepareScope := ''per-worker''\<rparr>)) None = Inr (b, [])"
  by (simp add: buildEngine_def workerSpec_def cluster_sample_def zeroSpec_def Let_def)

lemma cluster_materialize:
  "materialize (memEngine (withFixedSize 11)) (\<lambda>_. None) cluster_executor \<lparr>mt_prepStats = noStats, mt_materialized = False\<rparr> None memNew
     = Some (memNew, None, \<lparr>mt_prepStats = noStats, mt_materialized = True\<rparr>, Inr noStats)"
  by (simp add: materialize_def cluster_executor_def replayPlan_def cluster_sample_def)

lemma cluster_cache: "applyCache (memEngine (withFixedSize 11)) (\<lambda>_. ([], [])) cluster_executor memNew = Some (memNew, noCache)"
  by (simp add: applyCache_def cluster_executor_def replayPlan_def cluster_sample_def)

lemma cluster_equivalence: "replayEquivalence cluster_executor = EquivalenceSyscallLevel"
  by (simp add: replayEquivalence_def cluster_executor_def)

lemma cluster_session_prepared:
  "sessionPrepare cluster_env None (cluster_sample\<lparr>cl_AssignedStreams := [0], cl_PrepareScope := ''per-worker''\<rparr>) [] (newSession [])
     = Some (cluster_session, Inr cluster_ack)"
proof -
  have pl: "replayPlan (cluster_sample\<lparr>cl_AssignedStreams := [0], cl_PrepareScope := ''per-worker''\<rparr>) [] = replayPlan cluster_sample []"
    by (simp add: replayPlan_def)
  obtain b where b: "buildEngine (workerSpec [] (rd_hdr cluster_reader) (cluster_sample\<lparr>cl_AssignedStreams := [0], cl_PrepareScope := ''per-worker''\<rparr>)) None = Inr (b, [])"
    using cluster_build by blast
  show ?thesis
    unfolding sessionPrepare_def cluster_env_def newSession_def
    by (simp add: cluster_read b pl cluster_prepared cluster_materialize cluster_cache cluster_equivalence cluster_session_def cluster_ack_def noCache_def)
qed


definition cluster_prepared_remote :: "(mem_state, int) remote" where
  "cluster_prepared_remote = cluster_remote\<lparr>rm_reads := 3,
     rm_server := \<lparr>sv_session = cluster_session, sv_runLease = defaultRunLease, sv_inUse = True, sv_deadline = 2 + defaultRunLease\<rparr>\<rparr>"

lemma cluster_streams: "parseTraceStreams cluster_lines = Inr (cluster_header, [0])"
  by code_simp

lemma cluster_sent:
  "remotePrepare None (cluster_sample\<lparr>cl_PrepareScope := ''per-worker'', cl_AssignedStreams := [0]\<rparr>) cluster_remote
     = Some (cluster_prepared_remote, Inr cluster_ack)"
proof -
  let ?p = "cluster_sample\<lparr>cl_AssignedStreams := [0], cl_PrepareScope := ''per-worker''\<rparr>"
  have w: "planFromProto (planToProto ?p) = ?p"
    by (subst plan_wire) (simp_all add: cluster_sample_def in32_def carried_def zeroSpec_def zeroS3_def)
  have m: "prepareMessages (cluster_sample\<lparr>cl_PrepareScope := ''per-worker'', cl_AssignedStreams := [0]\<rparr>) = [\<lparr>pc_plan = Some (planToProto ?p), pc_trace_chunk = []\<rparr>]"
    by (simp add: prepareMessages_def chunksOf_def cluster_sample_def prepareStreamChunkBytes_def)
  have a: "prepareAckFromProto (Some (prepareAckToProto cluster_ack)) = cluster_ack"
    by (rule ack_wire) (simp add: cluster_ack_def noStats_def in32_def)
  have s: "serverPrepareStream cluster_env None \<lparr>sp_create = True, sp_write = (\<lambda>_. True), sp_rewind = True\<rparr> 0 2
      [(\<lparr>pc_plan = Some (planToProto ?p), pc_trace_chunk = []\<rparr>, 1)] True (newServer [])
     = Some (rm_server cluster_prepared_remote, Inr (prepareAckToProto cluster_ack))"
    by (simp add: serverPrepareStream_def acquire_def newServer_def recvStream_def w cluster_session_prepared
        refreshLease_def withSession_def cluster_prepared_remote_def)
  show ?thesis
    unfolding remotePrepare_def remotePrepareStream_def m
    using s by (simp add: cluster_remote_def readClock_def a atServer_def cluster_prepared_remote_def)
qed

lemma cluster_registered:
  "registerWorkers (remoteWorker None one_bucket) 0 [cluster_remote] = Inr [\<lparr>wi_Hostname = ''h'', wi_CPUs = 1, wi_Version = Version\<rparr>]"
  by (simp add: remoteWorker_def remoteRegister_def cluster_remote_def serverRegister_def sessionInfo_def cluster_env_def
      workerInfoToProto_def workerInfoFromProto_def i32_id in32_def)

text \<open>The replay of the two ops, one step after the other.\<close>

definition cluster_run :: "(mem_state, int) run" where
  "cluster_run = the (runSchedule (runConfig cluster_env cluster_executor (memEngine (withFixedSize 11))) (replicate 7 0)
     (startRun [(0, cluster_ops)] memNew))"

lemma cluster_run_some:
  "runSchedule (runConfig cluster_env cluster_executor (memEngine (withFixedSize 11))) (replicate 7 0) (startRun [(0, cluster_ops)] memNew) = Some cluster_run"
  by code_simp

lemma cluster_run_finished: "finished cluster_run" "\<not> rn_cancelled cluster_run"
  unfolding finished_def by code_simp+

lemma cluster_run_reachable:
  "reachable (runConfig cluster_env cluster_executor (memEngine (withFixedSize 11))) [(0, cluster_ops)] memNew cluster_run"
  using runSchedule_steps [OF cluster_run_some] by (rule steps_reachable)

definition cluster_unfolding :: "(mem_state, int) unfolding_run" where
  "cluster_unfolding = \<lparr>ur_run = cluster_run, ur_arrival = rn_streams cluster_run, ur_doneNS = map (\<lambda>_. 7) (rn_streams cluster_run),
     ur_series = noSeries, ur_duration = 9, ur_user = 1, ur_sys = 1\<rparr>"

definition cluster_coord :: "(nat \<times> (mem_state, int) unfolding_run, int) coord_env" where
  "cluster_coord = \<lparr>ce_lines = (\<lambda>_. cluster_lines), ce_digest = (\<lambda>_. []), ce_hist = one_bucket, ce_query = sample_query,
     ce_stamp = sample_stamp, ce_unfold = [(0, cluster_unfolding)], ce_delays = [3]\<rparr>"

lemma remote_calls [simp]:
  "wk_prepare (remoteWorker cx L) = remotePrepare cx" "wk_run (remoteWorker cx L) = remoteRun"
  "wk_collect (remoteWorker cx L) = remoteCollect L" "wk_canceled (remoteWorker cx L) = (\<lambda>e. False)"
  by (simp_all add: remoteWorker_def)

lemma cluster_coord_prepared:
  "coordinatorPrepare (remoteWorker None one_bucket) cluster_coord cluster_sample [cluster_remote]
     = Some ([cluster_prepared_remote], Inr (cluster_header, [\<lparr>wi_Hostname = ''h'', wi_CPUs = 1, wi_Version = Version\<rparr>], [cluster_ack]))"
proof -
  have "resolvePrepareScope cluster_sample = ''per-worker''"
    by (simp add: resolvePrepareScope_def cluster_sample_def zeroSpec_def PrepareScopeShared_def PrepareScopePerWorker_def)
  moreover have "partitionStreams [0] 1 = [[0]]" by (simp add: partitionStreams_def)
  ultimately show ?thesis
    by (simp add: coordinatorPrepare_def cluster_coord_def cluster_streams cluster_registered prepareWorkers_def
        PrepareScopeShared_def PrepareScopePerWorker_def cluster_sent del: registerWorkers.simps)
qed

lemma cluster_possible: "remote_possible (0, cluster_unfolding) cluster_prepared_remote"
  using cluster_run_reachable cluster_run_finished(1)
  by (simp add: remote_possible_def possible_run_def cluster_prepared_remote_def cluster_remote_def cluster_session_def
      cluster_unfolding_def cluster_executor_def)

lemma cluster_coord_run:
  "\<exists>ws' res. coordinatorRun (remoteWorker None one_bucket) cluster_coord cluster_sample [cluster_remote] = Some (ws', Inr res)"
proof -
  have "runModeOK cluster_executor" by (simp add: runModeOK_def cluster_executor_def replayPlan_def cluster_sample_def)
  then show ?thesis
    unfolding coordinatorRun_def cluster_coord_prepared
    by (simp add: cluster_coord_def remoteRun_def remoteCollect_def serverRun_def serverCollect_def held_def
        cluster_prepared_remote_def cluster_remote_def cluster_session_def sessionRun_def sessionCollect_def runWorker_def
        cluster_unfolding_def cluster_run_finished(2) atServer_def firstRunError_def Let_def refreshLease_def withSession_def
        workerOutputFromProto_def workerOutputToProto_def split: prod.split)
qed

theorem cluster_complete_witness:
  "\<exists>ws' res. coordinatorRun (remoteWorker None one_bucket) cluster_coord cluster_sample [cluster_remote] = Some (ws', Inr res)
     \<and> re_OpsCompleted res = 2"
proof -
  obtain ws' res where run: "coordinatorRun (remoteWorker None (ce_hist cluster_coord)) cluster_coord cluster_sample [cluster_remote] = Some (ws', Inr res)"
    using cluster_coord_run by (auto simp: cluster_coord_def)
  have "hdr_laws (ce_hist cluster_coord)" by (simp add: cluster_coord_def one_bucket_laws)
  moreover have "newReader (ce_lines cluster_coord (cl_TraceBytes cluster_sample)) = Inr cluster_reader"
    by (simp add: cluster_coord_def cluster_read)
  ultimately have "re_OpsCompleted res = int (length (numbered 1 cluster_ops))"
    using cluster_complete [OF _ run, of "[cluster_prepared_remote]" "(cluster_header, [\<lparr>wi_Hostname = ''h'', wi_CPUs = 1, wi_Version = Version\<rparr>], [cluster_ack])"
        cluster_reader "numbered 1 cluster_ops"] cluster_coord_prepared cluster_possible cluster_scan
    by (simp add: cluster_coord_def remote_good_def cluster_remote_def cluster_env_def cluster_ops_def)
  then show ?thesis using run by (auto simp: cluster_coord_def cluster_ops_def)
qed

end
