(* ===== verification/Compare.thy ===== *)
theory Compare
  imports Results Float64_Order
begin

text \<open>
  compare.go of src/pkg/results: whether two results may be compared and with what caveats.
  The texts of notes and reasons are constructors; the verdicts, fields and labels are the
  strings of the code. Floating-point numbers are printed by a parameter, strconv's FormatFloat.
\<close>

section \<open>Verdicts and differences\<close>

definition VerdictComparable :: string where "VerdictComparable = ''comparable''"
definition VerdictCaveated :: string where "VerdictCaveated = ''comparable-with-caveats''"
definition VerdictIncomparable :: string where "VerdictIncomparable = ''incomparable''"

text \<open>The notes of the differences, and the reasons for a refusal, each by the text it stands for.\<close>

datatype diff_note =
    NoteSchema int
  | NoteTraceMissing | NoteTraceDerived bool string | NoteTraceDiffers
  | NoteEngine | NoteCacheMode | NoteMode | NoteMaxInflight | NotePrepare | NoteFill | NoteBucket | NoteEndpoint
  | NoteSpeedup | NoteRoot | NoteHost | NoteBuild | NoteEquivalence | NoteFidelity
  | NoteNoTreatment

record difference =
  df_Field :: string
  df_A :: string
  df_B :: string
  df_Note :: diff_note

datatype run_reason = RunFailures int int | RunOverflows int

datatype blocker =
    BlockRun string run_reason
  | BlockNoTrials
  | BlockFailedTrials string int int "int list"
  | BlockFewTrials string int int
  | BlockSpread string f64 f64

record cmp_eligibility =
  eg_Verdict :: string
  eg_Blocking :: "blocker list"
  eg_Caveats :: "difference list"

definition noEligibility :: cmp_eligibility where
  "noEligibility = \<lparr>eg_Verdict = [], eg_Blocking = [], eg_Caveats = []\<rparr>"

definition comparable :: "cmp_eligibility \<Rightarrow> bool" where
  "comparable e \<longleftrightarrow> eg_Verdict e \<noteq> VerdictIncomparable"

definition executionInvalidReasons :: "results \<Rightarrow> run_reason list" where
  "executionInvalidReasons r =
     (if re_Errors r > 0 then [RunFailures (re_Errors r) (if re_ShortReads r > 0 then re_ShortReads r else 0)] else [])
     @ (if re_HistogramOverflows r > 0 then [RunOverflows (re_HistogramOverflows r)] else [])"

section \<open>Labels\<close>

definition unset :: "string \<Rightarrow> string" where
  "unset s = (if s = [] then ''(unset)'' else s)"

definition digestLabel :: "results \<Rightarrow> string" where
  "digestLabel r =
     (let d = pi_TraceDigest (re_Plan r); i = strIndex d '':'' in
      if d = [] then ''(not recorded)''
      else if i \<ge> 0 \<and> int (length d) > i + 13 then take (nat (i + 13)) d else d)"

definition schemaLabel :: "results \<Rightarrow> string" where
  "schemaLabel r = (if re_SchemaVersion r = 0 then ''pre-versioned'' else itoa (re_SchemaVersion r))"

definition rootLabel :: "results \<Rightarrow> string" where
  "rootLabel r = (if pi_TargetRoot (re_Plan r) = [] then ''(unconfined)'' else pi_TargetRoot (re_Plan r))"

definition toolLabel :: "results \<Rightarrow> string" where
  "toolLabel r =
     (if tl_Revision (re_Tool r) \<noteq> [] then tl_Version (re_Tool r) @ '' ('' @ tl_Revision (re_Tool r) @ '')'' else tl_Version (re_Tool r))"

definition fillLabel :: "results \<Rightarrow> string" where
  "fillLabel r =
     (if pi_FillMode (re_Plan r) = [] then [] else pi_FillMode (re_Plan r) @ ''/'' @ itoa (pi_FillSeed (re_Plan r)))"

definition fidelityLabel :: "results \<Rightarrow> string" where
  "fidelityLabel r =
     (case fr_LowFidelity (re_Fidelity r) of
        None \<Rightarrow> ''ok''
      | Some l \<Rightarrow> (let c = fidelityCategory (Some l) in if c \<noteq> [] then ''low ['' @ c @ '']'' else ''low''))"

definition speedupRelevant :: "results \<Rightarrow> bool" where
  "speedupRelevant r \<longleftrightarrow> pi_Mode (re_Plan r) = ''scaled''"

section \<open>Traces derived from one another\<close>

definition paramText :: "(string \<times> string) list \<Rightarrow> string" where
  "paramText ps = concat (map (\<lambda>(k, v). '' '' @ k @ ''='' @ v) (sort_key fst ps))"

fun joinWith :: "string \<Rightarrow> string list \<Rightarrow> string" where
  "joinWith sep [] = []"
| "joinWith sep [x] = x"
| "joinWith sep (x # y # xs) = x @ sep @ joinWith sep (y # xs)"

definition transformDescription :: "results \<Rightarrow> string \<Rightarrow> string" where
  "transformDescription r sourceDigest =
     (if sourceDigest = [] then []
      else joinWith '', '' (map (\<lambda>t. tr_kind t @ paramText (tr_params t))
             (filter (\<lambda>t. tr_source_digest t = sourceDigest) (pi_TraceTransformations (re_Plan r)))))"

text \<open>\<open>Some (True, d)\<close>: B replayed a transformation of A's trace; \<open>Some (False, d)\<close>: the other way.\<close>

definition derivationNote :: "results \<Rightarrow> results \<Rightarrow> diff_note option" where
  "derivationNote a b =
     (let ab = transformDescription b (pi_TraceDigest (re_Plan a)); ba = transformDescription a (pi_TraceDigest (re_Plan b)) in
      if ab \<noteq> [] then Some (NoteTraceDerived True ab)
      else if ba \<noteq> [] then Some (NoteTraceDerived False ba) else None)"

definition traceIdentity :: "results \<Rightarrow> results \<Rightarrow> difference list" where
  "traceIdentity a b =
     (let da = pi_TraceDigest (re_Plan a); db = pi_TraceDigest (re_Plan b);
          caveat = (\<lambda>n. [\<lparr>df_Field = ''trace'', df_A = digestLabel a, df_B = digestLabel b, df_Note = n\<rparr>]) in
      if da = [] \<or> db = [] then caveat NoteTraceMissing
      else if da = db then []
      else case derivationNote a b of Some n \<Rightarrow> caveat n | None \<Rightarrow> caveat NoteTraceDiffers)"

section \<open>The gate\<close>

definition differs :: "string \<Rightarrow> string \<Rightarrow> string \<Rightarrow> diff_note \<Rightarrow> difference list" where
  "differs field av bv note =
     (if av = bv then [] else [\<lparr>df_Field = field, df_A = unset av, df_B = unset bv, df_Note = note\<rparr>])"

definition verdictFor :: "cmp_eligibility \<Rightarrow> string" where
  "verdictFor e =
     (if eg_Blocking e \<noteq> [] then VerdictIncomparable
      else if eg_Caveats e \<noteq> [] then VerdictCaveated else VerdictComparable)"

definition withVerdict :: "cmp_eligibility \<Rightarrow> cmp_eligibility" where
  "withVerdict e = e\<lparr>eg_Verdict := verdictFor e\<rparr>"

definition bothCurrent :: "results \<Rightarrow> results \<Rightarrow> bool" where
  "bothCurrent a b \<longleftrightarrow> re_SchemaVersion a \<ge> SchemaVersion \<and> re_SchemaVersion b \<ge> SchemaVersion"

text \<open>The caveats, in the order the gate finds them; \<open>ftoa\<close> is \<open>strconv.FormatFloat\<close>.\<close>

definition caveatsOf :: "(f64 \<Rightarrow> string) \<Rightarrow> results \<Rightarrow> results \<Rightarrow> difference list" where
  "caveatsOf ftoa a b =
     (let pa = re_Plan a; pb = re_Plan b in
      (if bothCurrent a b then []
       else [\<lparr>df_Field = ''result schema'', df_A = schemaLabel a, df_B = schemaLabel b, df_Note = NoteSchema SchemaVersion\<rparr>])
      @ traceIdentity a b
      @ differs ''engine'' (pi_Engine pa) (pi_Engine pb) NoteEngine
      @ differs ''cache mode'' (rv_CacheMode (re_RunEnv a)) (rv_CacheMode (re_RunEnv b)) NoteCacheMode
      @ differs ''replay mode'' (pi_Mode pa) (pi_Mode pb) NoteMode
      @ differs ''max-inflight'' (itoa (pi_MaxInflight pa)) (itoa (pi_MaxInflight pb)) NoteMaxInflight
      @ differs ''prepare'' (pi_PrepareMode pa) (pi_PrepareMode pb) NotePrepare
      @ differs ''fill'' (fillLabel a) (fillLabel b) NoteFill
      @ differs ''bucket'' (pi_Bucket pa) (pi_Bucket pb) NoteBucket
      @ differs ''endpoint'' (pi_Endpoint pa) (pi_Endpoint pb) NoteEndpoint
      @ (if speedupRelevant a \<or> speedupRelevant b
         then differs ''speedup'' (ftoa (pi_SpeedupFactor pa)) (ftoa (pi_SpeedupFactor pb)) NoteSpeedup else [])
      @ (if bothCurrent a b
         then differs ''target root'' (rootLabel a) (rootLabel b) NoteRoot
           @ differs ''host'' (ho_Hostname (re_Host a)) (ho_Hostname (re_Host b)) NoteHost
           @ differs ''build'' (toolLabel a) (toolLabel b) NoteBuild
         else [])
      @ differs ''replay equivalence'' (pi_ReplayEquivalence pa) (pi_ReplayEquivalence pb) NoteEquivalence
      @ (if (fr_LowFidelity (re_Fidelity a) = None) \<noteq> (fr_LowFidelity (re_Fidelity b) = None)
         then [\<lparr>df_Field = ''fidelity'', df_A = fidelityLabel a, df_B = fidelityLabel b, df_Note = NoteFidelity\<rparr>] else []))"

definition checkEligibility :: "(f64 \<Rightarrow> string) \<Rightarrow> results \<Rightarrow> results \<Rightarrow> cmp_eligibility" where
  "checkEligibility ftoa a b =
     withVerdict (noEligibility
       \<lparr>eg_Blocking := map (BlockRun ''A'') (executionInvalidReasons a) @ map (BlockRun ''B'') (executionInvalidReasons b),
        eg_Caveats := caveatsOf ftoa a b\<rparr>)"

section \<open>What the gate decides\<close>

lemma differs_nil [simp]: "differs f x y n = [] \<longleftrightarrow> x = y"
  by (simp add: differs_def)

lemma traceIdentity_nil [simp]:
  "traceIdentity a b = [] \<longleftrightarrow> pi_TraceDigest (re_Plan a) = pi_TraceDigest (re_Plan b) \<and> pi_TraceDigest (re_Plan a) \<noteq> []"
  by (auto simp: traceIdentity_def Let_def split: option.split)

lemma reasons_nil [simp]: "executionInvalidReasons r = [] \<longleftrightarrow> re_Errors r \<le> 0 \<and> re_HistogramOverflows r \<le> 0"
  by (auto simp: executionInvalidReasons_def)

text \<open>What two results agree on when nothing is left to say about their difference.\<close>

definition same_experiment :: "(f64 \<Rightarrow> string) \<Rightarrow> results \<Rightarrow> results \<Rightarrow> bool" where
  "same_experiment ftoa a b \<longleftrightarrow>
     bothCurrent a b
     \<and> pi_TraceDigest (re_Plan a) = pi_TraceDigest (re_Plan b) \<and> pi_TraceDigest (re_Plan a) \<noteq> []
     \<and> pi_Engine (re_Plan a) = pi_Engine (re_Plan b) \<and> rv_CacheMode (re_RunEnv a) = rv_CacheMode (re_RunEnv b)
     \<and> pi_Mode (re_Plan a) = pi_Mode (re_Plan b) \<and> itoa (pi_MaxInflight (re_Plan a)) = itoa (pi_MaxInflight (re_Plan b))
     \<and> pi_PrepareMode (re_Plan a) = pi_PrepareMode (re_Plan b) \<and> fillLabel a = fillLabel b
     \<and> pi_Bucket (re_Plan a) = pi_Bucket (re_Plan b) \<and> pi_Endpoint (re_Plan a) = pi_Endpoint (re_Plan b)
     \<and> (pi_Mode (re_Plan a) = ''scaled'' \<longrightarrow> ftoa (pi_SpeedupFactor (re_Plan a)) = ftoa (pi_SpeedupFactor (re_Plan b)))
     \<and> rootLabel a = rootLabel b \<and> ho_Hostname (re_Host a) = ho_Hostname (re_Host b) \<and> toolLabel a = toolLabel b
     \<and> pi_ReplayEquivalence (re_Plan a) = pi_ReplayEquivalence (re_Plan b)
     \<and> (fr_LowFidelity (re_Fidelity a) = None \<longleftrightarrow> fr_LowFidelity (re_Fidelity b) = None)"

lemma caveats_nil: "caveatsOf ftoa a b = [] \<longleftrightarrow> same_experiment ftoa a b"
  by (auto simp: caveatsOf_def Let_def same_experiment_def speedupRelevant_def)

lemma same_experiment_sym: "same_experiment ftoa a b = same_experiment ftoa b a"
  by (auto simp: same_experiment_def bothCurrent_def)

lemmas verdict_defs = VerdictComparable_def VerdictCaveated_def VerdictIncomparable_def

lemma eligibility_verdict:
  "eg_Verdict (checkEligibility ftoa a b) =
     (if re_Errors a > 0 \<or> re_HistogramOverflows a > 0 \<or> re_Errors b > 0 \<or> re_HistogramOverflows b > 0 then VerdictIncomparable
      else if same_experiment ftoa a b then VerdictComparable else VerdictCaveated)"
  by (auto simp: checkEligibility_def withVerdict_def verdictFor_def noEligibility_def caveats_nil not_le)


text \<open>
  C25: the comparison gate. Its verdict does not depend on which run is called A. A comparison is
  refused exactly when one of the runs had failed operations or samples out of range, and it is
  given without caveats exactly when the runs, valid both, agree on every property that changes
  what their difference means.
\<close>

theorem eligibility_gate:
  "eg_Verdict (checkEligibility ftoa a b) = eg_Verdict (checkEligibility ftoa b a)
    \<and> (comparable (checkEligibility ftoa a b) \<longleftrightarrow> executionInvalidReasons a = [] \<and> executionInvalidReasons b = [])
    \<and> (eg_Verdict (checkEligibility ftoa a b) = VerdictComparable \<longleftrightarrow>
         executionInvalidReasons a = [] \<and> executionInvalidReasons b = [] \<and> same_experiment ftoa a b)"
  unfolding comparable_def eligibility_verdict reasons_nil
  using same_experiment_sym [of ftoa a b] by (auto simp: verdict_defs)

end
