(* ===== verification/Trials.thy ===== *)
theory Trials
  imports Compare Run_Report "HOL-Library.Multiset"
begin

text \<open>
  trials.go, trialcompare.go, paired.go and regression.go of src/pkg/results: the statistics of
  repeated runs, their comparison, paired experiments and the regression gate. Go's math
  package is a parameter, so the theorems hold for any logarithm or square root.
\<close>

section \<open>The distribution of a metric\<close>

text \<open>The functions of Go's math package that the statistics call.\<close>

record math_lib =
  mt_sqrt :: "f64 \<Rightarrow> f64"
  mt_log :: "f64 \<Rightarrow> f64"
  mt_exp :: "f64 \<Rightarrow> f64"
  mt_lgamma :: "f64 \<Rightarrow> f64"

record metric_summary =
  ms_N :: int
  ms_Median :: f64
  ms_Mean :: f64
  ms_StdDev :: f64
  ms_CVPercent :: f64
  ms_Min :: f64
  ms_Max :: f64
  ms_CI95Lo :: f64
  ms_CI95Hi :: f64
  ms_CI95Available :: bool

definition noMetric :: metric_summary where
  "noMetric = \<lparr>ms_N = 0, ms_Median = 0, ms_Mean = 0, ms_StdDev = 0, ms_CVPercent = 0, ms_Min = 0, ms_Max = 0,
     ms_CI95Lo = 0, ms_CI95Hi = 0, ms_CI95Available = False\<rparr>"

text \<open>\<open>xs\<close> is sorted and not empty.\<close>

definition median :: "f64 list \<Rightarrow> f64" where
  "median xs =
     (let n = length xs in
      if n mod 2 = 1 then xs ! (n div 2) else f64_div (f64_add (xs ! (n div 2 - 1)) (xs ! (n div 2))) 2)"

fun ciLoop :: "math_lib \<Rightarrow> nat \<Rightarrow> nat list \<Rightarrow> f64 \<Rightarrow> int \<Rightarrow> int" where
  "ciLoop M n [] cum best = best"
| "ciLoop M n (i # rest) cum best =
     (let logHalfPow = f64_mult (f64_of_int (int n)) (mt_log M (1 / 2));
          lnFactN = mt_lgamma M (f64_of_int (int n + 1));
          lnFactI = mt_lgamma M (f64_of_int (int i + 1));
          lnFactNI = mt_lgamma M (f64_of_int (int n - int i + 1));
          cum' = f64_add cum (mt_exp M (f64_add (f64_sub (f64_sub lnFactN lnFactI) lnFactNI) logHalfPow))
      in if cum' > fl (25 / 1000) then best else ciLoop M n rest cum' (int i + 1))"

definition medianCIBounds :: "math_lib \<Rightarrow> nat \<Rightarrow> (nat \<times> nat) option" where
  "medianCIBounds M n =
     (if n < 6 then None
      else let best = ciLoop M n [0..<n] 0 (- 1) in
        if best < 1 then None else Some (nat (best - 1), nat (int n - best)))"

definition summarize :: "math_lib \<Rightarrow> f64 list \<Rightarrow> metric_summary" where
  "summarize M xs =
     (if xs = [] then noMetric
      else let s = sort xs; n = f64_of_int (int (length s));
          mean = f64_div (foldl f64_add 0 s) n;
          ss = foldl (\<lambda>acc x. let d = f64_sub x mean in f64_add acc (f64_mult d d)) 0 s;
          sd = (if length s > 1 then mt_sqrt M (f64_div ss (f64_of_int (int (length s) - 1))) else 0);
          m = \<lparr>ms_N = int (length xs), ms_Median = median s, ms_Mean = mean, ms_StdDev = sd,
            ms_CVPercent = (if mean \<noteq> 0 then f64_mult (f64_div sd \<bar>mean\<bar>) 100 else 0),
            ms_Min = s ! 0, ms_Max = s ! (length s - 1), ms_CI95Lo = 0, ms_CI95Hi = 0, ms_CI95Available = False\<rparr>
      in case medianCIBounds M (length s) of
           None \<Rightarrow> m
         | Some (lo, hi) \<Rightarrow> m\<lparr>ms_CI95Lo := s ! lo, ms_CI95Hi := s ! hi, ms_CI95Available := True\<rparr>)"

section \<open>Trial sets\<close>

record trial_summary =
  tu_Trials :: int
  tu_ValidTrials :: int
  tu_FailedTrials :: int
  tu_DurationNS :: metric_summary
  tu_GiBPerSec :: metric_summary

record trial_set =
  ts_SchemaVersion :: int
  ts_Stamp :: stamp
  ts_WarmupTrials :: int
  ts_Trials :: "results list"
  ts_Summary :: trial_summary

definition validRun :: "results \<Rightarrow> bool" where
  "validRun r \<longleftrightarrow> executionInvalidReasons r = []"

definition trialSummary :: "math_lib \<Rightarrow> results list \<Rightarrow> trial_summary" where
  "trialSummary M trials =
     (let valid = filter validRun trials in
      \<lparr>tu_Trials = int (length trials), tu_ValidTrials = int (length valid),
       tu_FailedTrials = int (length trials) - int (length valid),
       tu_DurationNS = summarize M (map (\<lambda>t. f64_of_int (re_DurationNS t)) valid),
       tu_GiBPerSec = summarize M (map (\<lambda>t. snd (throughput t)) valid)\<rparr>)"

definition buildTrialSet :: "math_lib \<Rightarrow> stamp \<Rightarrow> results list \<Rightarrow> int \<Rightarrow> trial_set" where
  "buildTrialSet M st trials warmup =
     \<lparr>ts_SchemaVersion = SchemaVersion, ts_Stamp = st, ts_WarmupTrials = warmup, ts_Trials = trials,
      ts_Summary = trialSummary M trials\<rparr>"

definition representative :: "trial_set \<Rightarrow> results option" where
  "representative ts = (case ts_Trials ts of [] \<Rightarrow> None | r # _ \<Rightarrow> Some r)"

definition failedTrialIndexes :: "trial_set \<Rightarrow> int list" where
  "failedTrialIndexes ts = map (\<lambda>(i, t). int i + 1) (filter (\<lambda>(i, t). \<not> validRun t) (zip [0..<length (ts_Trials ts)] (ts_Trials ts)))"

section \<open>Comparing trial sets\<close>

record trial_policy =
  tq_MinValidTrials :: int
  tq_MaxCVPercent :: f64
  tq_MaxDurationRegressionPercent :: f64

definition defaultTrialPolicy :: trial_policy where
  "defaultTrialPolicy = \<lparr>tq_MinValidTrials = 6, tq_MaxCVPercent = 5, tq_MaxDurationRegressionPercent = 0\<rparr>"

record trial_comparison =
  tc_Eligibility :: cmp_eligibility
  tc_Policy :: trial_policy
  tc_A :: trial_summary
  tc_B :: trial_summary
  tc_DeltaMedianNS :: f64
  tc_DeltaPercent :: f64
  tc_Separated :: bool
  tc_SeparationKnown :: bool

definition trialSetBlockers :: "string \<Rightarrow> trial_set \<Rightarrow> trial_policy \<Rightarrow> blocker list" where
  "trialSetBlockers label ts policy =
     (let s = ts_Summary ts in
      (if tu_FailedTrials s > 0 then [BlockFailedTrials label (tu_FailedTrials s) (tu_Trials s) (failedTrialIndexes ts)] else [])
      @ (if tu_ValidTrials s < tq_MinValidTrials policy then [BlockFewTrials label (tu_ValidTrials s) (tq_MinValidTrials policy)] else [])
      @ (if tu_ValidTrials s \<ge> tq_MinValidTrials policy \<and> tq_MaxCVPercent policy > 0
            \<and> ms_CVPercent (tu_DurationNS s) > tq_MaxCVPercent policy
         then [BlockSpread label (ms_CVPercent (tu_DurationNS s)) (tq_MaxCVPercent policy)] else []))"

definition compareTrialSets :: "(f64 \<Rightarrow> string) \<Rightarrow> trial_set \<Rightarrow> trial_set \<Rightarrow> trial_policy \<Rightarrow> trial_comparison" where
  "compareTrialSets ftoa a b policy =
     (let tc = \<lparr>tc_Eligibility = noEligibility, tc_Policy = policy, tc_A = ts_Summary a, tc_B = ts_Summary b,
            tc_DeltaMedianNS = 0, tc_DeltaPercent = 0, tc_Separated = False, tc_SeparationKnown = False\<rparr>
      in case (representative a, representative b) of
           (Some repA, Some repB) \<Rightarrow>
             (let e = withVerdict ((checkEligibility ftoa repA repB)
                    \<lparr>eg_Blocking := trialSetBlockers ''A'' a policy @ trialSetBlockers ''B'' b policy\<rparr>);
                  da = tu_DurationNS (ts_Summary a); db = tu_DurationNS (ts_Summary b);
                  delta = f64_sub (ms_Median db) (ms_Median da);
                  known = (ms_CI95Available da \<and> ms_CI95Available db)
              in tc\<lparr>tc_Eligibility := e, tc_DeltaMedianNS := delta,
                   tc_DeltaPercent := (if ms_Median da \<noteq> 0 then f64_mult (f64_div delta (ms_Median da)) 100 else 0),
                   tc_SeparationKnown := known,
                   tc_Separated := (known \<and> (ms_CI95Hi da < ms_CI95Lo db \<or> ms_CI95Hi db < ms_CI95Lo da))\<rparr>)
         | _ \<Rightarrow> tc\<lparr>tc_Eligibility := \<lparr>eg_Verdict = VerdictIncomparable, eg_Blocking = [BlockNoTrials], eg_Caveats = []\<rparr>\<rparr>)"

section \<open>Paired experiments and the regression gate\<close>

definition ArmBaseline :: string where "ArmBaseline = ''baseline''"
definition ArmTreatment :: string where "ArmTreatment = ''treatment''"

record paired_summary =
  pd_Pairs :: int
  pd_Delta :: metric_summary
  pd_DeltaPercent :: f64
  pd_ExcludesZero :: bool

definition RegressionPass :: string where "RegressionPass = ''pass''"
definition RegressionFail :: string where "RegressionFail = ''regression''"
definition RegressionInconclusive :: string where "RegressionInconclusive = ''inconclusive''"
definition RegressionNotAssessed :: string where "RegressionNotAssessed = ''not_assessed''"

datatype gate_reason =
    ReasonNoExperiment | ReasonNoThreshold | ReasonIncomparable | ReasonNoTreatment | ReasonTooFewPairs
  | ReasonBeyond f64 f64 f64 | ReasonWithin f64 f64 f64 | ReasonSpans f64 f64 f64

record regression_gate =
  rg_Verdict :: string
  rg_ThresholdPercent :: f64
  rg_ObservedPercent :: f64
  rg_IntervalLoPercent :: f64
  rg_IntervalHiPercent :: f64
  rg_IntervalAvailable :: bool
  rg_Reason :: gate_reason

record paired_experiment =
  pe_SchemaVersion :: int
  pe_Stamp :: stamp
  pe_Claim :: string
  pe_Seed :: int
  pe_TreatmentVariables :: "string list"
  pe_PairOrder :: "string list"
  pe_Baseline :: "trial_set option"
  pe_Treatment :: "trial_set option"
  pe_Paired :: paired_summary
  pe_Eligibility :: cmp_eligibility
  pe_Policy :: trial_policy
  pe_Regression :: regression_gate

definition gateAssessed :: "regression_gate \<Rightarrow> bool" where
  "gateAssessed g \<longleftrightarrow> rg_Verdict g \<noteq> RegressionNotAssessed"

definition gateRegressed :: "regression_gate \<Rightarrow> bool" where
  "gateRegressed g \<longleftrightarrow> rg_Verdict g = RegressionFail"

definition gateLimit :: "f64 \<Rightarrow> f64" where
  "gateLimit thresholdPercent =
     (let eps = f64_mult \<bar>thresholdPercent\<bar> (fl (1 / 10 ^ 9))
      in f64_add thresholdPercent (if eps = 0 then fl (1 / 10 ^ 9) else eps))"

definition evaluateRegression :: "paired_experiment option \<Rightarrow> f64 \<Rightarrow> regression_gate" where
  "evaluateRegression peo thresholdPercent =
     (let g = \<lparr>rg_Verdict = RegressionNotAssessed, rg_ThresholdPercent = thresholdPercent, rg_ObservedPercent = 0,
          rg_IntervalLoPercent = 0, rg_IntervalHiPercent = 0, rg_IntervalAvailable = False, rg_Reason = ReasonNoExperiment\<rparr>
      in case peo of
           None \<Rightarrow> g
         | Some pe \<Rightarrow>
             (let g1 = g\<lparr>rg_ObservedPercent := pd_DeltaPercent (pe_Paired pe)\<rparr>;
                  baseMedian = (case pe_Baseline pe of None \<Rightarrow> 0 | Some b \<Rightarrow> ms_Median (tu_DurationNS (ts_Summary b)));
                  d = pd_Delta (pe_Paired pe)
              in if thresholdPercent \<le> 0 then g1\<lparr>rg_Reason := ReasonNoThreshold\<rparr>
                 else if \<not> comparable (pe_Eligibility pe) then g1\<lparr>rg_Reason := ReasonIncomparable\<rparr>
                 else if pe_TreatmentVariables pe = [] then g1\<lparr>rg_Reason := ReasonNoTreatment\<rparr>
                 else if \<not> ms_CI95Available d \<or> baseMedian = 0 then g1\<lparr>rg_Reason := ReasonTooFewPairs\<rparr>
                 else
                   (let lo = f64_mult (f64_div (ms_CI95Lo d) baseMedian) 100;
                        hi = f64_mult (f64_div (ms_CI95Hi d) baseMedian) 100;
                        g2 = g1\<lparr>rg_IntervalAvailable := True, rg_IntervalLoPercent := lo, rg_IntervalHiPercent := hi\<rparr>;
                        limit = gateLimit thresholdPercent
                    in if lo > limit then g2\<lparr>rg_Verdict := RegressionFail, rg_Reason := ReasonBeyond lo hi thresholdPercent\<rparr>
                       else if hi \<le> limit then g2\<lparr>rg_Verdict := RegressionPass, rg_Reason := ReasonWithin lo hi thresholdPercent\<rparr>
                       else g2\<lparr>rg_Verdict := RegressionInconclusive, rg_Reason := ReasonSpans lo hi thresholdPercent\<rparr>)))"

definition eligibilityFieldForSetting :: "(string \<times> string) list" where
  "eligibilityFieldForSetting =
     [(''trace'', ''trace''), (''engine'', ''engine''), (''cache_mode'', ''cache mode''), (''mode'', ''replay mode''),
      (''max_inflight'', ''max-inflight''), (''prepare'', ''prepare''), (''fill'', ''fill''), (''fill_seed'', ''fill''),
      (''target_root'', ''target root''), (''bucket'', ''bucket''), (''endpoint'', ''endpoint''), (''speedup'', ''speedup'')]"

definition dropDeclaredTreatments :: "difference list \<Rightarrow> string list \<Rightarrow> difference list" where
  "dropDeclaredTreatments caveats vars =
     (if caveats = [] \<or> vars = [] then caveats
      else let declared = concat (map (\<lambda>v. case map_of eligibilityFieldForSetting v of None \<Rightarrow> [] | Some f \<Rightarrow> [f]) vars)
        in filter (\<lambda>c. df_Field c \<notin> set declared) caveats)"

definition pairedSummary :: "math_lib \<Rightarrow> trial_set \<Rightarrow> trial_set \<Rightarrow> paired_summary" where
  "pairedSummary M baseline treatment =
     (let deltas = map (\<lambda>(a, b). f64_of_int (i64 (re_DurationNS b - re_DurationNS a)))
            (filter (\<lambda>(a, b). validRun a \<and> validRun b) (zip (ts_Trials baseline) (ts_Trials treatment)));
          d = summarize M deltas;
          base = ms_Median (tu_DurationNS (ts_Summary baseline))
      in \<lparr>pd_Pairs = int (length deltas), pd_Delta = d,
          pd_DeltaPercent = (if base \<noteq> 0 \<and> deltas \<noteq> [] then f64_mult (f64_div (ms_Median d) base) 100 else 0),
          pd_ExcludesZero = (ms_CI95Available d \<and> (ms_CI95Lo d > 0 \<or> ms_CI95Hi d < 0))\<rparr>)"

definition noTreatment :: difference where
  "noTreatment = \<lparr>df_Field = ''treatment'', df_A = ''(none)'', df_B = ''(none)'', df_Note = NoteNoTreatment\<rparr>"

definition zeroGate :: regression_gate where
  "zeroGate = \<lparr>rg_Verdict = [], rg_ThresholdPercent = 0, rg_ObservedPercent = 0, rg_IntervalLoPercent = 0,
     rg_IntervalHiPercent = 0, rg_IntervalAvailable = False, rg_Reason = ReasonNoExperiment\<rparr>"

definition buildPaired :: "math_lib \<Rightarrow> (f64 \<Rightarrow> string) \<Rightarrow> stamp \<Rightarrow> string \<Rightarrow> trial_set \<Rightarrow> trial_set \<Rightarrow> trial_policy \<Rightarrow> int \<Rightarrow> string list \<Rightarrow> string list \<Rightarrow> paired_experiment" where
  "buildPaired M ftoa st claim baseline treatment policy seed pairOrder vars =
     (let tc = compareTrialSets ftoa baseline treatment policy;
          e1 = (tc_Eligibility tc)\<lparr>eg_Caveats := dropDeclaredTreatments (eg_Caveats (tc_Eligibility tc)) vars\<rparr>;
          e2 = withVerdict e1;
          e3 = (if vars = [] then withVerdict (e2\<lparr>eg_Caveats := eg_Caveats e2 @ [noTreatment]\<rparr>) else e2);
          pe = \<lparr>pe_SchemaVersion = SchemaVersion, pe_Stamp = st, pe_Claim = claim, pe_Seed = seed,
            pe_TreatmentVariables = vars, pe_PairOrder = pairOrder, pe_Baseline = Some baseline, pe_Treatment = Some treatment,
            pe_Paired = pairedSummary M baseline treatment, pe_Eligibility = e3, pe_Policy = policy, pe_Regression = zeroGate\<rparr>
      in pe\<lparr>pe_Regression := evaluateRegression (Some pe) (tq_MaxDurationRegressionPercent policy)\<rparr>)"

section \<open>Rounding errors\<close>

lemma roundEven_error: "\<bar>of_int (roundEven x) - x\<bar> \<le> 1 / 2"
proof -
  have "of_int \<lfloor>x\<rfloor> \<le> x" "x < of_int \<lfloor>x\<rfloor> + 1" by linarith+
  then show ?thesis unfolding roundEven_def Let_def abs_le_iff by (auto split: if_splits; linarith)
qed

lemma fl_rel:
  assumes "pow2 (- 1022) \<le> q"
  shows "\<bar>fl q - q\<bar> \<le> q / 2 ^ 53"
proof -
  have q: "0 < q" using assms pow2_pos [of "- 1022"] by linarith
  let ?e = "binExp q"
  let ?u = "?e - 52"
  have b: "pow2 ?e \<le> q" "q < pow2 (?e + 1)" using binExp_bounds [OF q] by blast+
  have "pow2 (- 1022) < pow2 (?e + 1)" using assms b(2) by linarith
  then have "- 1022 < ?e + 1" by (rule pow2_less)
  then have f: "fl q = of_int (roundEven (q / pow2 ?u)) * pow2 ?u" by (intro fl_value [OF b]) simp
  have "fl q - q = (of_int (roundEven (q / pow2 ?u)) - q / pow2 ?u) * pow2 ?u"
    unfolding f left_diff_distrib using pow2_pos [of ?u] by (simp only: nonzero_divide_eq_eq less_imp_neq [symmetric] times_divide_eq_left nonzero_mult_div_cancel_right not_False_eq_True)
  then have "\<bar>fl q - q\<bar> = \<bar>of_int (roundEven (q / pow2 ?u)) - q / pow2 ?u\<bar> * pow2 ?u"
    using less_imp_le [OF pow2_pos [of ?u]] by (simp only: abs_mult abs_of_nonneg)
  also have "\<dots> \<le> 1 / 2 * pow2 ?u" by (rule mult_right_mono [OF roundEven_error]) (simp add: less_imp_le)
  also have "pow2 ?u = pow2 ?e / 2 ^ 52" by (simp add: pow2_minus) (simp add: pow2_def)
  also have "1 / 2 * (pow2 ?e / 2 ^ 52) \<le> q / 2 ^ 53" using b(1) by simp
  finally show ?thesis .
qed

lemma fl_rel_bounds:
  assumes "pow2 (- 1022) \<le> q"
  shows "q * (1 - 1 / 2 ^ 53) \<le> fl q" "fl q \<le> q * (1 + 1 / 2 ^ 53)"
  using fl_rel [OF assms] unfolding abs_le_iff by (simp_all add: algebra_simps)

text \<open>A percentage of the code, \<open>x / base * 100\<close>, against the exact one.\<close>

lemma small_pow2: "pow2 (- 1022) \<le> 1 / 10 ^ 30"
proof -
  have "pow2 (- 1022) \<le> pow2 (- 100)" by (rule pow2_mono) simp
  also have "\<dots> \<le> 1 / 10 ^ 30" by (simp add: pow2_def)
  finally show ?thesis .
qed

lemma percent_upper:
  assumes "1 / 10 ^ 6 \<le> t" "x * 100 \<le> t"
  shows "f64_mult (fl x) 100 \<le> t * (1 + 1 / 2 ^ 53) * (1 + 1 / 2 ^ 53)"
proof -
  have n: "pow2 (- 1022) \<le> t / 100" using small_pow2 assms(1) by (simp add: field_simps)
  have "fl x \<le> fl (t / 100)" using assms(2) by (intro fl_mono) simp
  also have "\<dots> \<le> t / 100 * (1 + 1 / 2 ^ 53)" by (rule fl_rel_bounds(2) [OF n])
  finally have "fl x * 100 \<le> t * (1 + 1 / 2 ^ 53)" by simp
  then have "fl (fl x * 100) \<le> fl (t * (1 + 1 / 2 ^ 53))" by (rule fl_mono)
  also have "\<dots> \<le> t * (1 + 1 / 2 ^ 53) * (1 + 1 / 2 ^ 53)"
    using n assms(1) by (intro fl_rel_bounds(2)) (simp add: field_simps)
  finally show ?thesis by (simp add: f64_mult_def)
qed

lemma percent_lower:
  assumes "1 / 10 ^ 6 \<le> t" "t \<le> x * 100"
  shows "t * (1 - 1 / 2 ^ 53) * (1 - 1 / 2 ^ 53) \<le> f64_mult (fl x) 100"
proof -
  have n: "pow2 (- 1022) \<le> t / 100" using small_pow2 assms(1) by (simp add: field_simps)
  have "t / 100 * (1 - 1 / 2 ^ 53) \<le> fl (t / 100)" by (rule fl_rel_bounds(1) [OF n])
  also have "\<dots> \<le> fl x" using assms(2) by (intro fl_mono) simp
  finally have le: "t * (1 - 1 / 2 ^ 53) \<le> fl x * 100" by simp
  have "t * (1 - 1 / 2 ^ 53) * (1 - 1 / 2 ^ 53) \<le> fl (t * (1 - 1 / 2 ^ 53))"
    using n assms(1) by (intro fl_rel_bounds(1)) (simp add: field_simps)
  also have "\<dots> \<le> fl (fl x * 100)" by (rule fl_mono [OF le])
  finally show ?thesis by (simp add: f64_mult_def)
qed

lemma gateLimit_bounds:
  assumes "1 / 10 ^ 6 \<le> t"
  shows "t * (1 + 1 / 2 ^ 53) * (1 + 1 / 2 ^ 53) < gateLimit t"
    "gateLimit t < t * (1 + 2 / 10 ^ 9) * (1 - 1 / 2 ^ 53) * (1 - 1 / 2 ^ 53)"
proof -
  let ?c = "fl (1 / 10 ^ 9)" and ?h = "1 / 2 ^ 53 :: rat"
  have t: "0 < t" using assms by (rule less_le_trans [rotated]) simp
  have c: "1 / 10 ^ 9 * (1 - ?h) \<le> ?c" "?c \<le> 1 / 10 ^ 9 * (1 + ?h)"
    using small_pow2 by (intro fl_rel_bounds, simp)+
  define E where "E = t * ?c"
  define x where "x = fl E"
  define G where "G = gateLimit t"
  have "t * (1 / 10 ^ 9 * (1 - ?h)) \<le> E" "E \<le> t * (1 / 10 ^ 9 * (1 + ?h))"
    unfolding E_def using t c by (intro mult_left_mono; simp)+
  then have E: "t * (999 / 10 ^ 12) \<le> E" "E \<le> t * (1001 / 10 ^ 12)" using t by simp_all
  have n: "pow2 (- 1022) \<le> E" using small_pow2 E(1) assms by simp
  have x: "E * (1 - ?h) \<le> x" "x \<le> E * (1 + ?h)" unfolding x_def by (rule fl_rel_bounds [OF n])+
  have x': "t * (998 / 10 ^ 12) \<le> x" "x \<le> t * (1002 / 10 ^ 12)" using x E t by simp_all
  have "0 < x" using x'(1) t by simp
  then have G: "G = fl (t + x)"
    using t by (simp add: G_def gateLimit_def Let_def f64_mult_def f64_add_def x_def E_def)
  have n2: "pow2 (- 1022) \<le> t + x" using small_pow2 x'(1) assms by simp
  have g: "(t + x) * (1 - ?h) \<le> G" "G \<le> (t + x) * (1 + ?h)" unfolding G by (rule fl_rel_bounds [OF n2])+
  show "t * (1 + 1 / 2 ^ 53) * (1 + 1 / 2 ^ 53) < gateLimit t"
    using g(1) x'(1) t unfolding G_def by simp
  show "gateLimit t < t * (1 + 2 / 10 ^ 9) * (1 - 1 / 2 ^ 53) * (1 - 1 / 2 ^ 53)"
    using g(2) x'(2) t unfolding G_def by simp
qed


section \<open>Order of the trials\<close>

lemma ciLoop_range: "(\<forall>i \<in> set is'. i < n) \<Longrightarrow> best \<le> int n \<Longrightarrow> ciLoop M n is' cum best \<le> int n"
  by (induction M n is' cum best rule: ciLoop.induct) (auto simp: Let_def)

lemma medianCIBounds_range: "medianCIBounds M n = Some (lo, hi) \<Longrightarrow> lo < n \<and> hi < n \<and> lo + hi = n - 1"
  using ciLoop_range [of "[0..<n]" n "- 1" M 0] by (auto simp: medianCIBounds_def Let_def split: if_splits)

lemma sort_mset_cong: "mset xs = mset ys \<Longrightarrow> sort xs = sort ys"
  by (rule properties_for_sort) simp_all

lemma summarize_perm: "mset xs = mset ys \<Longrightarrow> summarize M xs = summarize M ys"
  using sort_mset_cong [of xs ys] mset_eq_length [of xs ys] by (auto simp: summarize_def Let_def)

lemma sorted_ends:
  assumes "i < length xs"
  shows "sort xs ! 0 \<le> sort xs ! i" "sort xs ! i \<le> sort xs ! (length xs - 1)"
  using assms by (auto intro!: sorted_nth_mono)

lemma summarize_bounds:
  assumes "ms_CI95Available (summarize M xs)"
  shows "ms_CI95Lo (summarize M xs) \<in> set xs \<and> ms_CI95Hi (summarize M xs) \<in> set xs
    \<and> ms_Min (summarize M xs) \<le> ms_CI95Lo (summarize M xs) \<and> ms_CI95Hi (summarize M xs) \<le> ms_Max (summarize M xs)"
proof -
  have ne: "xs \<noteq> []" using assms by (auto simp: summarize_def noMetric_def)
  obtain lo hi where ci: "medianCIBounds M (length xs) = Some (lo, hi)"
    using assms ne by (auto simp: summarize_def Let_def split: option.splits)
  note r = medianCIBounds_range [OF ci]
  have "sort xs ! lo \<in> set xs" "sort xs ! hi \<in> set xs" using r by (metis length_sort nth_mem set_sort)+
  then show ?thesis using ne r sorted_ends(1) [of lo xs] sorted_ends(2) [of hi xs] by (simp add: summarize_def Let_def ci)
qed

lemma trialSummary_perm:
  assumes "mset ts = mset ts'"
  shows "trialSummary M ts = trialSummary M ts'"
proof -
  have "mset (filter validRun ts) = mset (filter validRun ts')" using assms by (simp add: mset_filter)
  then have m: "mset (map f (filter validRun ts)) = mset (map f (filter validRun ts'))"
    "length (filter validRun ts) = length (filter validRun ts')" for f :: "results \<Rightarrow> f64"
    by (simp only: mset_map, metis mset_eq_length)
  show ?thesis
    unfolding trialSummary_def Let_def m(2) summarize_perm [OF m(1)] mset_eq_length [OF assms] by (rule refl)
qed

section \<open>Properties\<close>

text \<open>
  C27: the statistics of repeated trials are those of the valid runs and do not depend on the order
  in which the trials ran. Failed runs are counted, not averaged in, and an interval given for the
  median is made of measured values between the least and the greatest.
\<close>

theorem trial_statistics:
  assumes "mset trials = mset trials'"
  shows "ts_Summary (buildTrialSet M st trials warmup) = ts_Summary (buildTrialSet M st' trials' warmup')
    \<and> tu_Trials (ts_Summary (buildTrialSet M st trials warmup)) = int (length trials)
    \<and> tu_ValidTrials (ts_Summary (buildTrialSet M st trials warmup))
        + tu_FailedTrials (ts_Summary (buildTrialSet M st trials warmup)) = int (length trials)
    \<and> (ms_CI95Available (tu_DurationNS (ts_Summary (buildTrialSet M st trials warmup))) \<longrightarrow>
        (\<exists>t \<in> set trials. validRun t \<and> f64_of_int (re_DurationNS t) = ms_CI95Lo (tu_DurationNS (ts_Summary (buildTrialSet M st trials warmup))))
        \<and> ms_Min (tu_DurationNS (ts_Summary (buildTrialSet M st trials warmup))) \<le> ms_CI95Lo (tu_DurationNS (ts_Summary (buildTrialSet M st trials warmup)))
        \<and> ms_CI95Hi (tu_DurationNS (ts_Summary (buildTrialSet M st trials warmup))) \<le> ms_Max (tu_DurationNS (ts_Summary (buildTrialSet M st trials warmup))))"
  using trialSummary_perm [OF assms, of M] summarize_bounds [of M "map (\<lambda>t. f64_of_int (re_DurationNS t)) (filter validRun trials)"]
  by (auto simp: buildTrialSet_def) (auto simp: trialSummary_def Let_def)

text \<open>
  C26: the regression gate decides what its threshold says, in spite of the rounding of its
  percentages. For an experiment it accepts, with \<open>t\<close> percent allowed on a baseline median of
  \<open>base\<close> and an interval from \<open>lo\<close> to \<open>hi\<close> on the difference: a regression is reported only when the
  whole interval really is beyond \<open>t\<close> percent, and always when it is beyond by more than two parts
  in a thousand million; a pass only when it is within that, and always when it is within \<open>t\<close>
  percent, the threshold itself included.
\<close>

theorem regression_decides:
  assumes pe: "comparable (pe_Eligibility pe)" "pe_TreatmentVariables pe \<noteq> []" "ms_CI95Available (pd_Delta (pe_Paired pe))"
    and b: "pe_Baseline pe = Some bs" "base = ms_Median (tu_DurationNS (ts_Summary bs))" "0 < base"
    and i: "lo = ms_CI95Lo (pd_Delta (pe_Paired pe))" "hi = ms_CI95Hi (pd_Delta (pe_Paired pe))" "lo \<le> hi"
    and t: "1 / 10 ^ 6 \<le> t"
  shows "(rg_Verdict (evaluateRegression (Some pe) t) = RegressionFail \<longrightarrow> t * base < lo * 100)
    \<and> (rg_Verdict (evaluateRegression (Some pe) t) = RegressionPass \<longrightarrow> hi * 100 < t * (1 + 2 / 10 ^ 9) * base)
    \<and> (hi * 100 \<le> t * base \<longrightarrow> rg_Verdict (evaluateRegression (Some pe) t) = RegressionPass)
    \<and> (t * (1 + 2 / 10 ^ 9) * base \<le> lo * 100 \<longrightarrow> rg_Verdict (evaluateRegression (Some pe) t) = RegressionFail)"
proof -
  let ?lo = "f64_mult (fl (lo / base)) 100" and ?hi = "f64_mult (fl (hi / base)) 100"
  have t0: "0 < t" using t by (rule less_le_trans [rotated]) simp
  have v: "rg_Verdict (evaluateRegression (Some pe) t) =
      (if ?lo > gateLimit t then RegressionFail else if ?hi \<le> gateLimit t then RegressionPass else RegressionInconclusive)"
    using pe b i t0 by (simp add: evaluateRegression_def Let_def f64_div_def)
  have d: "RegressionFail \<noteq> RegressionPass" "RegressionFail \<noteq> RegressionInconclusive" "RegressionPass \<noteq> RegressionInconclusive"
    by (simp_all add: RegressionFail_def RegressionPass_def RegressionInconclusive_def)
  have up: "f64_mult (fl (x / base)) 100 \<le> gateLimit t" if "x * 100 \<le> t * base" for x
    using percent_upper [OF t, of "x / base"] gateLimit_bounds(1) [OF t] that b(3) by (simp add: field_simps) 
  have down: "gateLimit t < f64_mult (fl (x / base)) 100" if x: "t * (1 + 2 / 10 ^ 9) * base \<le> x * 100" for x
  proof -
    have t2: "1 / 10 ^ 6 \<le> t * (1 + 2 / 10 ^ 9)" using t by simp
    have "t * (1 + 2 / 10 ^ 9) \<le> x / base * 100" using x b(3) by (simp add: field_simps)
    from percent_lower [OF t2 this] gateLimit_bounds(2) [OF t] show ?thesis by linarith
  qed
  have mono: "?lo \<le> ?hi"
    unfolding f64_mult_def using i(3) b(3) by (intro fl_mono mult_right_mono) (simp_all add: divide_right_mono)
  have "t * base < lo * 100" if "gateLimit t < ?lo" using up [of lo] that by linarith
  moreover have "hi * 100 < t * (1 + 2 / 10 ^ 9) * base" if "?hi \<le> gateLimit t" using down [of hi] that by linarith
  moreover have "\<not> gateLimit t < ?lo" "?hi \<le> gateLimit t" if "hi * 100 \<le> t * base" using up [OF that] mono by linarith+
  moreover have "gateLimit t < ?lo" if "t * (1 + 2 / 10 ^ 9) * base \<le> lo * 100" using down [OF that] .
  ultimately show ?thesis unfolding v using d d [symmetric] by (simp only: split: if_splits) blast
qed


definition no_math :: math_lib where
  "no_math = \<lparr>mt_sqrt = (\<lambda>x. x), mt_log = (\<lambda>x. x), mt_exp = (\<lambda>x. x), mt_lgamma = (\<lambda>x. x)\<rparr>"

definition sample_trial :: "int \<Rightarrow> results" where
  "sample_trial d = (sample_results [])\<lparr>re_DurationNS := d\<rparr>"

theorem trial_statistics_witness:
  "ts_Summary (buildTrialSet no_math sample_stamp [sample_trial 5, sample_trial 8] 1)
     = ts_Summary (buildTrialSet no_math sample_stamp [sample_trial 8, sample_trial 5] 0)"
proof -
  have "mset [sample_trial 5, sample_trial 8] = mset [sample_trial 8, sample_trial 5]"
    by (simp only: mset.simps add_mset_commute)
  from trial_statistics [OF this, of no_math sample_stamp 1 sample_stamp 0] show ?thesis by (rule conjunct1)
qed

text \<open>A difference of 7 on a median of 100, held to 7 percent.\<close>

definition sample_delta :: metric_summary where
  "sample_delta = noMetric\<lparr>ms_CI95Lo := 6, ms_CI95Hi := 7, ms_CI95Available := True\<rparr>"

definition sample_arm :: trial_set where
  "sample_arm = \<lparr>ts_SchemaVersion = 2, ts_Stamp = sample_stamp, ts_WarmupTrials = 0, ts_Trials = [],
     ts_Summary = \<lparr>tu_Trials = 0, tu_ValidTrials = 0, tu_FailedTrials = 0, tu_DurationNS = noMetric\<lparr>ms_Median := 100\<rparr>, tu_GiBPerSec = noMetric\<rparr>\<rparr>"

definition sample_pair :: paired_experiment where
  "sample_pair = \<lparr>pe_SchemaVersion = 2, pe_Stamp = sample_stamp, pe_Claim = [], pe_Seed = 1, pe_TreatmentVariables = [''engine''],
     pe_PairOrder = [], pe_Baseline = Some sample_arm, pe_Treatment = Some sample_arm,
     pe_Paired = \<lparr>pd_Pairs = 8, pd_Delta = sample_delta, pd_DeltaPercent = 0, pd_ExcludesZero = True\<rparr>,
     pe_Eligibility = noEligibility, pe_Policy = defaultTrialPolicy, pe_Regression = zeroGate\<rparr>"

lemma sample_pair_simps:
  "comparable (pe_Eligibility sample_pair)" "pe_TreatmentVariables sample_pair \<noteq> []"
  "ms_CI95Available (pd_Delta (pe_Paired sample_pair))" "pe_Baseline sample_pair = Some sample_arm"
  "100 = ms_Median (tu_DurationNS (ts_Summary sample_arm))"
  "6 = ms_CI95Lo (pd_Delta (pe_Paired sample_pair))" "7 = ms_CI95Hi (pd_Delta (pe_Paired sample_pair))"
  by (simp_all add: sample_pair_def sample_arm_def sample_delta_def comparable_def noEligibility_def verdict_defs)

theorem regression_decides_witness:
  "rg_Verdict (evaluateRegression (Some sample_pair) 7) = RegressionPass"
proof -
  have "(0::f64) < 100" "(6::f64) \<le> 7" "1 / 10 ^ 6 \<le> (7::f64)" "(7::f64) * 100 \<le> 7 * 100" by simp_all
  from regression_decides [OF sample_pair_simps(1-5) this(1) sample_pair_simps(6,7) this(2,3)] this(4)
  show ?thesis by blast
qed

end
