(* ===== verification/Calibrate.thy ===== *)
theory Calibrate
  imports Trials
begin

text \<open>
  calibrate.go of src/pkg/calibrate: the load generator's ceiling, and whether a measured run's
  timing can be attributed to its backend. Reasons and explanations are constructors that carry
  the values their texts print.
\<close>

section \<open>Calibrations\<close>

definition CalibrationSchemaVersion :: int where "CalibrationSchemaVersion = 1"
definition NullEngine :: string where "NullEngine = ''mem''"
definition VerdictAttributable :: string where "VerdictAttributable = ''attributable''"
definition VerdictNotAttributable :: string where "VerdictNotAttributable = ''not_attributable''"
definition VerdictNotAssessed :: string where "VerdictNotAssessed = ''not_assessed''"

record ceiling_rate =
  ci_Engine :: string
  ci_TraceDigest :: string
  ci_MaxInflight :: int
  ci_Streams :: int
  ci_Ops :: int
  ci_DurationNS :: int
  ci_OpsPerSec :: f64
  ci_NsPerOp :: f64
  ci_Trials :: int
  ci_CVPercent :: f64
  ci_Tool :: tool
  ci_Host :: host

record attribution_policy =
  ap_MaxGeneratorSharePercent :: f64
  ap_MinCeilingTrials :: int
  ap_MaxCeilingCVPercent :: f64

definition defaultPolicy :: attribution_policy where
  "defaultPolicy = \<lparr>ap_MaxGeneratorSharePercent = 0, ap_MinCeilingTrials = tq_MinValidTrials defaultTrialPolicy,
     ap_MaxCeilingCVPercent = tq_MaxCVPercent defaultTrialPolicy\<rparr>"

text \<open>The rate of a run, operations over seconds, as the ceiling and the assessment compute it.\<close>

definition opsPerSec :: "int \<Rightarrow> int \<Rightarrow> f64" where
  "opsPerSec ops durationNS =
     (if durationNS > 0 \<and> ops > 0 then f64_div (f64_of_int ops) (f64_div (f64_of_int durationNS) (10 ^ 9)) else 0)"

definition ceilingFrom :: "results \<Rightarrow> int \<Rightarrow> ceiling_rate" where
  "ceilingFrom r durationNS =
     \<lparr>ci_Engine = pi_Engine (re_Plan r), ci_TraceDigest = pi_TraceDigest (re_Plan r),
      ci_MaxInflight = pi_MaxInflight (re_Plan r), ci_Streams = pi_NumStreams (re_Plan r), ci_Ops = re_OpsCompleted r,
      ci_DurationNS = durationNS, ci_OpsPerSec = opsPerSec (re_OpsCompleted r) durationNS,
      ci_NsPerOp = (if durationNS > 0 \<and> re_OpsCompleted r > 0 then f64_div (f64_of_int durationNS) (f64_of_int (re_OpsCompleted r)) else 0),
      ci_Trials = 0, ci_CVPercent = 0, ci_Tool = re_Tool r, ci_Host = re_Host r\<rparr>"

section \<open>Assessing a run\<close>

text \<open>The reasons a run and a ceiling cannot be compared, and the explanations of the outcome.\<close>

datatype assess_blocker =
    ABTrials int int
  | ABSpread f64 f64
  | ABNotNull string
  | ABRunIsNull
  | ABNoIdentity
  | ABOtherTrace
  | ABInflight int int
  | ABPaced string
  | ABInvalid run_reason
  | ABNoOps

datatype assess_text = ATBlocked | ATNoBound f64 | ATWithin f64 f64 | ATBeyond f64 f64

record assessment =
  as_Verdict :: string
  as_Blocking :: "assess_blocker list"
  as_RunOpsPerSec :: f64
  as_CeilingOpsPerSec :: f64
  as_GeneratorSharePercent :: f64
  as_BoundPercent :: f64
  as_CPUSaturationPercent :: f64
  as_Explanation :: assess_text

definition assessBlockers :: "results \<Rightarrow> ceiling_rate \<Rightarrow> attribution_policy \<Rightarrow> assess_blocker list" where
  "assessBlockers run c policy =
     (if ap_MinCeilingTrials policy > 0 \<and> ci_Trials c < ap_MinCeilingTrials policy
      then [ABTrials (ci_Trials c) (ap_MinCeilingTrials policy)] else [])
     @ (if ap_MaxCeilingCVPercent policy > 0 \<and> ci_CVPercent c > ap_MaxCeilingCVPercent policy
        then [ABSpread (ci_CVPercent c) (ap_MaxCeilingCVPercent policy)] else [])
     @ (if ci_Engine c \<noteq> NullEngine then [ABNotNull (ci_Engine c)] else [])
     @ (if pi_Engine (re_Plan run) = NullEngine then [ABRunIsNull] else [])
     @ (if ci_TraceDigest c = [] \<or> pi_TraceDigest (re_Plan run) = [] then [ABNoIdentity]
        else if ci_TraceDigest c \<noteq> pi_TraceDigest (re_Plan run) then [ABOtherTrace] else [])
     @ (if ci_MaxInflight c \<noteq> pi_MaxInflight (re_Plan run)
        then [ABInflight (ci_MaxInflight c) (pi_MaxInflight (re_Plan run))] else [])
     @ (if pi_Mode (re_Plan run) \<noteq> ''asap'' then [ABPaced (pi_Mode (re_Plan run))] else [])
     @ map ABInvalid (executionInvalidReasons run)
     @ (if ci_OpsPerSec c \<le> 0 then [ABNoOps] else [])"

definition cpuSaturation :: "results \<Rightarrow> f64" where
  "cpuSaturation run =
     (let cpus = ho_CPUs (re_Host run); c = re_CPU run in
      if cpus \<le> 0 \<or> cp_WallNS c \<le> 0 then 0
      else f64_mult (f64_div (f64_of_int (i64 (cp_UserNS c + cp_SysNS c)))
             (f64_mult (f64_of_int (cp_WallNS c)) (f64_of_int cpus))) 100)"

definition assess :: "results \<Rightarrow> int \<Rightarrow> ceiling_rate \<Rightarrow> attribution_policy \<Rightarrow> assessment" where
  "assess run runDurationNS c policy =
     (let rate = opsPerSec (re_OpsCompleted run) runDurationNS;
          bl = assessBlockers run c policy;
          a = \<lparr>as_Verdict = VerdictNotAssessed, as_Blocking = bl, as_RunOpsPerSec = rate, as_CeilingOpsPerSec = ci_OpsPerSec c,
            as_GeneratorSharePercent = 0, as_BoundPercent = 0, as_CPUSaturationPercent = cpuSaturation run,
            as_Explanation = ATBlocked\<rparr>;
          bound = ap_MaxGeneratorSharePercent policy;
          share = f64_mult (f64_div rate (ci_OpsPerSec c)) 100
      in if bl \<noteq> [] then a
         else if bound \<le> 0 then a\<lparr>as_GeneratorSharePercent := share, as_Explanation := ATNoBound share\<rparr>
         else if share \<le> bound
         then a\<lparr>as_Verdict := VerdictAttributable, as_GeneratorSharePercent := share, as_BoundPercent := bound,
                as_Explanation := ATWithin share bound\<rparr>
         else a\<lparr>as_Verdict := VerdictNotAttributable, as_GeneratorSharePercent := share, as_BoundPercent := bound,
                as_Explanation := ATBeyond share bound\<rparr>)"

section \<open>Rates\<close>

lemma fl_0 [simp]: "fl 0 = 0"
  by (simp add: fl_def)

lemma fl_int_pos: "1 \<le> n \<Longrightarrow> 1 \<le> f64_of_int n"
  using fl_mono [of 1 "of_int n"] fl_pow2 [of 0] by (simp add: f64_of_int_def)

lemma fl_seconds_pos: "0 < d \<Longrightarrow> 0 < f64_div (f64_of_int d) (10 ^ 9)"
proof -
  assume "0 < d"
  then have "1 \<le> f64_of_int d" by (intro fl_int_pos) simp
  then have "pow2 (- 30) \<le> f64_of_int d / 10 ^ 9" by (simp add: pow2_def)
  then have "fl (pow2 (- 30)) \<le> f64_div (f64_of_int d) (10 ^ 9)" unfolding f64_div_def by (rule fl_mono)
  moreover have "fl (pow2 (- 30)) = pow2 (- 30)" by (rule fl_pow2) simp
  ultimately show ?thesis using pow2_pos [of "- 30"] by linarith
qed

lemma opsPerSec_nonneg: "0 \<le> opsPerSec ops d"
  unfolding opsPerSec_def using fl_int_pos [of ops] less_imp_le [OF fl_seconds_pos [of d]]
  by (auto simp: f64_div_def [of "f64_of_int ops"] intro!: fl_nonneg divide_nonneg_nonneg)

text \<open>More work in less time is never the lower rate.\<close>

lemma opsPerSec_mono:
  assumes "ops \<le> ops'" "0 < d'" "d' \<le> d"
  shows "opsPerSec ops d \<le> opsPerSec ops' d'"
proof (cases "0 < ops")
  case True
  have n: "f64_of_int ops \<le> f64_of_int ops'" unfolding f64_of_int_def using assms(1) by (intro fl_mono) simp
  have "f64_of_int d' \<le> f64_of_int d" unfolding f64_of_int_def using assms(3) by (intro fl_mono) simp
  then have s: "f64_div (f64_of_int d') (10 ^ 9) \<le> f64_div (f64_of_int d) (10 ^ 9)"
    unfolding f64_div_def by (intro fl_mono divide_right_mono) simp_all
  have "0 \<le> f64_of_int ops" using fl_int_pos [of ops] True by linarith
  then have "f64_of_int ops / f64_div (f64_of_int d) (10 ^ 9) \<le> f64_of_int ops' / f64_div (f64_of_int d') (10 ^ 9)"
    using n s fl_seconds_pos [OF assms(2)] by (intro frac_le) simp_all
  then have "f64_div (f64_of_int ops) (f64_div (f64_of_int d) (10 ^ 9))
      \<le> f64_div (f64_of_int ops') (f64_div (f64_of_int d') (10 ^ 9))"
    unfolding f64_div_def [of "f64_of_int ops"] f64_div_def [of "f64_of_int ops'"] by (rule fl_mono)
  then show ?thesis using True assms by (simp add: opsPerSec_def)
qed (use opsPerSec_nonneg [of ops' d'] in \<open>simp add: opsPerSec_def\<close>)

definition rateShare :: "f64 \<Rightarrow> f64 \<Rightarrow> f64" where
  "rateShare rate cap = f64_mult (f64_div rate cap) 100"

lemma rateShare_mono: "r \<le> r' \<Longrightarrow> 0 < cap \<Longrightarrow> rateShare r cap \<le> rateShare r' cap"
  unfolding rateShare_def f64_mult_def f64_div_def by (intro fl_mono mult_right_mono divide_right_mono) simp_all

lemma rateShare_0 [simp]: "rateShare 0 cap = 0"
  by (simp add: rateShare_def f64_mult_def f64_div_def)

lemma fl_one: "fl 1 = 1" and fl_hundred: "fl 100 = 100"
  using is_f64_int [of 1] is_f64_int [of 100] by (simp_all add: is_f64_def)

lemma rateShare_self: "0 < cap \<Longrightarrow> rateShare cap cap = 100"
  by (simp add: rateShare_def f64_mult_def f64_div_def fl_one fl_hundred)

lemma rateShare_nonneg: "0 \<le> r \<Longrightarrow> 0 < cap \<Longrightarrow> 0 \<le> rateShare r cap"
  using rateShare_mono [of 0 r cap] by simp

section \<open>Attribution\<close>

lemma assessBlockers_nil:
  "assessBlockers run c policy = [] \<longleftrightarrow>
     (0 < ap_MinCeilingTrials policy \<longrightarrow> ap_MinCeilingTrials policy \<le> ci_Trials c)
   \<and> (0 < ap_MaxCeilingCVPercent policy \<longrightarrow> ci_CVPercent c \<le> ap_MaxCeilingCVPercent policy)
   \<and> ci_Engine c = NullEngine \<and> pi_Engine (re_Plan run) \<noteq> NullEngine
   \<and> ci_TraceDigest c \<noteq> [] \<and> ci_TraceDigest c = pi_TraceDigest (re_Plan run)
   \<and> ci_MaxInflight c = pi_MaxInflight (re_Plan run) \<and> pi_Mode (re_Plan run) = ''asap'' \<and> validRun run \<and> 0 < ci_OpsPerSec c"
  by (auto simp: assessBlockers_def validRun_def not_less not_le)

lemmas attribution_defs = VerdictAttributable_def VerdictNotAttributable_def VerdictNotAssessed_def

lemma assess_attributable:
  "as_Verdict (assess run d c policy) = VerdictAttributable \<longleftrightarrow>
     assessBlockers run c policy = [] \<and> 0 < ap_MaxGeneratorSharePercent policy
     \<and> rateShare (opsPerSec (re_OpsCompleted run) d) (ci_OpsPerSec c) \<le> ap_MaxGeneratorSharePercent policy"
  by (auto simp: assess_def Let_def attribution_defs rateShare_def)

lemma assess_share:
  "as_GeneratorSharePercent (assess run d c policy) =
     (if assessBlockers run c policy = [] then rateShare (opsPerSec (re_OpsCompleted run) d) (ci_OpsPerSec c) else 0)"
  by (auto simp: assess_def Let_def rateShare_def)

text \<open>A run that completed nothing, without an error, has a rate of zero and is attributed to its backend.\<close>

lemma idle_run_attributable:
  "assessBlockers run c policy = [] \<Longrightarrow> 0 < ap_MaxGeneratorSharePercent policy \<Longrightarrow> re_OpsCompleted run = 0 \<Longrightarrow>
     as_Verdict (assess run d c policy) = VerdictAttributable"
  by (simp add: assess_attributable opsPerSec_def)

text \<open>
  C28: attribution follows the measured rates, through every rounding. A run is attributed to its
  backend only if it executed validly, as fast as it could, on the ceiling's trace and concurrency,
  and a bound was declared. A valid run of the same plan that did no more work in no less time is
  then attributed to it as well. And a run no faster than the calibration itself has a share
  between 0 and 100 percent.
\<close>

theorem attribution_monotone:
  assumes "0 < d" "d \<le> d'" "re_OpsCompleted run' \<le> re_OpsCompleted run" "re_Plan run' = re_Plan run" "validRun run'"
  shows "(as_Verdict (assess run d c policy) = VerdictAttributable \<longrightarrow>
        validRun run \<and> pi_Mode (re_Plan run) = ''asap'' \<and> pi_TraceDigest (re_Plan run) = ci_TraceDigest c
      \<and> pi_MaxInflight (re_Plan run) = ci_MaxInflight c \<and> pi_Engine (re_Plan run) \<noteq> ci_Engine c
      \<and> 0 < ap_MaxGeneratorSharePercent policy \<and> as_Verdict (assess run' d' c policy) = VerdictAttributable)
    \<and> (c = (ceilingFrom r0 d)\<lparr>ci_Trials := n, ci_CVPercent := cv\<rparr> \<and> re_OpsCompleted run' \<le> re_OpsCompleted r0 \<longrightarrow>
        0 \<le> as_GeneratorSharePercent (assess run' d' c policy) \<and> as_GeneratorSharePercent (assess run' d' c policy) \<le> 100)"
proof (intro conjI impI)
  have le: "opsPerSec (re_OpsCompleted run') d' \<le> opsPerSec (re_OpsCompleted run) d"
    using assms by (intro opsPerSec_mono)
  assume "as_Verdict (assess run d c policy) = VerdictAttributable"
  then have at: "assessBlockers run c policy = []" "0 < ap_MaxGeneratorSharePercent policy"
      "rateShare (opsPerSec (re_OpsCompleted run) d) (ci_OpsPerSec c) \<le> ap_MaxGeneratorSharePercent policy"
    by (simp_all add: assess_attributable)
  note b = at(1) [unfolded assessBlockers_nil]
  show "validRun run" "pi_Mode (re_Plan run) = ''asap''" "pi_TraceDigest (re_Plan run) = ci_TraceDigest c"
    "pi_MaxInflight (re_Plan run) = ci_MaxInflight c" "pi_Engine (re_Plan run) \<noteq> ci_Engine c"
    "0 < ap_MaxGeneratorSharePercent policy" using b at(2) by simp_all
  have "assessBlockers run' c policy = []" using b assms(4,5) unfolding assessBlockers_nil by metis
  moreover have "rateShare (opsPerSec (re_OpsCompleted run') d') (ci_OpsPerSec c) \<le> ap_MaxGeneratorSharePercent policy"
    using rateShare_mono [OF le] b at(3) by (meson order_trans)
  ultimately show "as_Verdict (assess run' d' c policy) = VerdictAttributable" using at(2) by (simp add: assess_attributable)
next
  assume c: "c = (ceilingFrom r0 d)\<lparr>ci_Trials := n, ci_CVPercent := cv\<rparr> \<and> re_OpsCompleted run' \<le> re_OpsCompleted r0"
  then have le: "opsPerSec (re_OpsCompleted run') d' \<le> ci_OpsPerSec c"
    using opsPerSec_mono [of "re_OpsCompleted run'" "re_OpsCompleted r0" d d'] assms(1,2) by (simp add: ceilingFrom_def)
  show "0 \<le> as_GeneratorSharePercent (assess run' d' c policy)"
    by (auto simp: assess_share assessBlockers_nil intro: rateShare_nonneg opsPerSec_nonneg)
  have "0 < ci_OpsPerSec c \<Longrightarrow> rateShare (opsPerSec (re_OpsCompleted run') d') (ci_OpsPerSec c) \<le> 100"
    using rateShare_mono [OF le, of "ci_OpsPerSec c"] rateShare_self [of "ci_OpsPerSec c"] by simp
  then show "as_GeneratorSharePercent (assess run' d' c policy) \<le> 100"
    by (auto simp: assess_share assessBlockers_nil)
qed

text \<open>A ceiling of a million operations a second, and two runs against a local engine.\<close>

definition measured_run :: "int \<Rightarrow> results" where
  "measured_run ops = (sample_results [])\<lparr>re_OpsCompleted := ops, re_Errors := 0, re_HistogramOverflows := 0,
     re_Plan := zeroPlan\<lparr>pi_Engine := ''local'', pi_TraceDigest := ''sha256:0'', pi_Mode := ''asap'', pi_MaxInflight := 8\<rparr>\<rparr>"

definition sample_ceiling :: ceiling_rate where
  "sample_ceiling = \<lparr>ci_Engine = NullEngine, ci_TraceDigest = ''sha256:0'', ci_MaxInflight = 8, ci_Streams = 1, ci_Ops = 1000,
     ci_DurationNS = 1000000, ci_OpsPerSec = 1000000, ci_NsPerOp = 1000, ci_Trials = 6, ci_CVPercent = 1,
     ci_Tool = re_Tool (sample_results []), ci_Host = re_Host (sample_results [])\<rparr>"

lemma fl_half: "fl (1 / 2) = 1 / 2"
  using fl_pow2 [of "- 1"] by (simp only: pow2_def) simp

lemma sample_rate: "opsPerSec 100 500000000 = 200"
proof -
  have f: "f64_of_int 500000000 = 500000000" "f64_of_int 100 = 100" "fl 200 = 200"
    using is_f64_int [of 500000000] is_f64_int [of 100] is_f64_int [of 200] by (simp_all add: is_f64_def f64_of_int_def)
  then have "opsPerSec 100 500000000 = fl (100 / fl (1 / 2))" by (simp add: opsPerSec_def f64_div_def)
  then show ?thesis unfolding fl_half using f(3) by simp
qed

lemma sample_share: "rateShare 200 1000000 \<le> 50"
proof -
  have "rateShare 500000 1000000 = fl (fl (1 / 2) * 100)" by (simp add: rateShare_def f64_mult_def f64_div_def)
  then have "rateShare 500000 1000000 = 50" unfolding fl_half using is_f64_int [of 50] by (simp add: is_f64_def)
  with rateShare_mono [of 200 500000 1000000] show ?thesis by simp
qed

theorem attribution_monotone_witness:
  "as_Verdict (assess (measured_run 90) 600000000 sample_ceiling (defaultPolicy\<lparr>ap_MaxGeneratorSharePercent := 50\<rparr>)) = VerdictAttributable"
proof -
  let ?p = "defaultPolicy\<lparr>ap_MaxGeneratorSharePercent := 50\<rparr>"
  have v: "validRun (measured_run n)" for n by (simp add: validRun_def executionInvalidReasons_def measured_run_def)
  have "assessBlockers (measured_run 100) sample_ceiling ?p = []"
    by (simp add: assessBlockers_nil v) (simp add: measured_run_def sample_ceiling_def defaultPolicy_def defaultTrialPolicy_def NullEngine_def)
  moreover have "re_OpsCompleted (measured_run 100) = 100" "ci_OpsPerSec sample_ceiling = 1000000"
    by (simp_all add: measured_run_def sample_ceiling_def)
  ultimately have "as_Verdict (assess (measured_run 100) 500000000 sample_ceiling ?p) = VerdictAttributable"
    by (simp add: assess_attributable sample_rate sample_share)
  moreover have "re_OpsCompleted (measured_run 90) \<le> re_OpsCompleted (measured_run 100)"
      "re_Plan (measured_run 90) = re_Plan (measured_run 100)" by (simp_all add: measured_run_def)
  moreover have "(0::int) < 500000000" "(500000000::int) \<le> 600000000" by simp_all
  ultimately show ?thesis using attribution_monotone v by blast
qed

end
