(* ===== verification/Run_Plan.thy ===== *)
theory Run_Plan
  imports Calibrate Cluster_Run
begin

text \<open>
  The settings of a replay and the plan built from them: plan.go and expconfig.go of src/cmd/ioflux,
  the host list and engine pre-flight of run.go, the size flags of gen.go, and Load of
  targetmap.go. The YAML library is a parameter.
\<close>

section \<open>Settings\<close>

record run_settings =
  stg_TracePath :: string
  stg_EngineName :: string
  stg_Mode :: string
  stg_MaxInflight :: int
  stg_Speedup :: f64
  stg_TargetMapPath :: string
  stg_AllowPassthrough :: bool
  stg_PrepareMode :: string
  stg_PrepareScope :: string
  stg_SourceRoot :: string
  stg_CacheMode :: string
  stg_FillMode :: string
  stg_FillSeed :: int
  stg_TargetRoot :: string
  stg_AllowDirect :: bool
  stg_DirectFallback :: bool
  stg_DirectAlign :: int
  stg_Hosts :: string
  stg_S3 :: s3_config

definition defaultRunSettings :: run_settings where
  "defaultRunSettings =
     \<lparr>stg_TracePath = [], stg_EngineName = ''mem'', stg_Mode = ''asap'', stg_MaxInflight = 512, stg_Speedup = 1,
      stg_TargetMapPath = [], stg_AllowPassthrough = False, stg_PrepareMode = [], stg_PrepareScope = [], stg_SourceRoot = [],
      stg_CacheMode = ''cold'', stg_FillMode = ''seeded'', stg_FillSeed = uint DefaultSeed, stg_TargetRoot = [],
      stg_AllowDirect = False, stg_DirectFallback = False, stg_DirectAlign = 0, stg_Hosts = [], stg_S3 = zeroS3\<rparr>"

text \<open>The addresses of a host list.\<close>

definition splitHosts :: "string \<Rightarrow> string list" where
  "splitHosts hosts = filter (\<lambda>h. h \<noteq> []) (map trimSpace (splitOn hosts CHR '',''))"

text \<open>An error of the settings or the trace, with the exit code it produces.\<close>

datatype plan_err =
    PETrace
  | PEMode string
  | PEInflight int
  | PESpeedup f64
  | PEScope string
  | PEFill string
  | PERootHosts
  | PEOpen string
  | PEParse trace_err
  | PEEngine build_err
  | PETargetMap string

record plan_error =
  pn_Code :: int
  pn_Err :: plan_err

definition usageErrorf :: "plan_err \<Rightarrow> plan_error" where
  "usageErrorf e = \<lparr>pn_Code = 2, pn_Err = e\<rparr>"

definition inputErrorf :: "plan_err \<Rightarrow> plan_error" where
  "inputErrorf e = \<lparr>pn_Code = 1, pn_Err = e\<rparr>"

definition validateSettings :: "run_settings \<Rightarrow> plan_error option" where
  "validateSettings s =
     (if stg_TracePath s = [] then Some (usageErrorf PETrace)
      else if stg_Mode s \<notin> {''asap'', ''think'', ''timeline'', ''scaled''} then Some (usageErrorf (PEMode (stg_Mode s)))
      else if stg_MaxInflight s \<le> 0 then Some (usageErrorf (PEInflight (stg_MaxInflight s)))
      else if stg_Mode s = ''scaled'' \<and> stg_Speedup s \<le> 0 then Some (usageErrorf (PESpeedup (stg_Speedup s)))
      else if stg_PrepareScope s \<noteq> [] \<and> stg_PrepareScope s \<noteq> PrepareScopeShared \<and> stg_PrepareScope s \<noteq> PrepareScopePerWorker
      then Some (usageErrorf (PEScope (stg_PrepareScope s)))
      else if stg_FillMode s \<noteq> ''seeded'' \<and> stg_FillMode s \<noteq> ''zero'' then Some (usageErrorf (PEFill (stg_FillMode s)))
      else if stg_TargetRoot s \<noteq> [] \<and> splitHosts (stg_Hosts s) \<noteq> [] then Some (usageErrorf PERootHosts)
      else None)"

section \<open>Building the plan\<close>

text \<open>
  What the plan is built from: the files, how a file's bytes split into lines, the YAML library's
  reading of a target map, and whether the SDK's configuration loads.
\<close>

record plan_env =
  pv_read :: "string \<Rightarrow> string + byte list"
  pv_lines :: "byte list \<Rightarrow> raw_line list"
  pv_yamlMap :: "byte list \<Rightarrow> string + rule list \<times> bool"
  pv_s3Load :: "string option"

definition loadTargetMap :: "plan_env \<Rightarrow> string \<Rightarrow> string + target_map" where
  "loadTargetMap env path =
     (case pv_read env path of
        Inl e \<Rightarrow> Inl e
      | Inr b \<Rightarrow>
          (case pv_yamlMap env b of
             Inl e \<Rightarrow> Inl e
           | Inr (rules, passthrough) \<Rightarrow> Inr \<lparr>tm_Rules = rules, tm_AllowPassthrough = passthrough\<rparr>))"

definition buildRunEngine :: "engine_spec \<Rightarrow> header \<Rightarrow> string option \<Rightarrow> build_err + (built_engine \<times> string)" where
  "buildRunEngine spec hdr loadErr =
     buildEngine (if es_TargetSizes spec = None
                  then spec\<lparr>es_TargetSizes := Some (fold (\<lambda>t m. AList.update (ti_name t) (ti_size t) m) (hdr_targets hdr) [])\<rparr>
                  else spec) loadErr"

definition planOf :: "run_settings \<Rightarrow> byte list \<Rightarrow> rule list \<Rightarrow> bool \<Rightarrow> cluster_plan" where
  "planOf s traceBytes rules passthrough =
     \<lparr>cl_TracePath = stg_TracePath s, cl_TraceBytes = traceBytes, cl_AssignedStreams = [],
      cl_Engine = \<lparr>es_Name = stg_EngineName s, es_CacheMode = stg_CacheMode s, es_AllowDirect = stg_AllowDirect s,
        es_DirectFallback = stg_DirectFallback s, es_DirectAlign = stg_DirectAlign s, es_Root = stg_TargetRoot s,
        es_S3 = stg_S3 s, es_TargetSizes = None\<rparr>,
      cl_Mode = stg_Mode s, cl_MaxInflight = stg_MaxInflight s, cl_SpeedupFactor = stg_Speedup s,
      cl_TargetRewrite = rules, cl_AllowPassthrough = passthrough, cl_PrepareMode = stg_PrepareMode s,
      cl_PrepareScope = stg_PrepareScope s, cl_SourceRoot = stg_SourceRoot s, cl_CacheMode = stg_CacheMode s,
      cl_FillMode = stg_FillMode s, cl_FillSeed = stg_FillSeed s\<rparr>"

definition buildPlan :: "plan_env \<Rightarrow> run_settings \<Rightarrow> plan_error + cluster_plan" where
  "buildPlan env s0 =
     (let s = (if stg_FillSeed s0 = 0 then s0\<lparr>stg_FillSeed := uint DefaultSeed\<rparr> else s0) in
      case validateSettings s of
        Some e \<Rightarrow> Inl e
      | None \<Rightarrow>
          (case pv_read env (stg_TracePath s) of
             Inl e \<Rightarrow> Inl \<lparr>pn_Code = 2, pn_Err = PEOpen e\<rparr>
           | Inr traceBytes \<Rightarrow>
               (case newReader (pv_lines env traceBytes) of
                  Inl e \<Rightarrow> Inl (inputErrorf (PEParse e))
                | Inr r \<Rightarrow>
                    (case buildRunEngine (cl_Engine (planOf s traceBytes [] False)) (rd_hdr r) (pv_s3Load env) of
                       Inl e \<Rightarrow> Inl \<lparr>pn_Code = 2, pn_Err = PEEngine e\<rparr>
                     | Inr _ \<Rightarrow>
                         if stg_TargetMapPath s = [] then Inr (planOf s traceBytes [] (stg_AllowPassthrough s))
                         else (case loadTargetMap env (stg_TargetMapPath s) of
                                 Inl e \<Rightarrow> Inl (inputErrorf (PETargetMap e))
                               | Inr m \<Rightarrow> Inr (planOf s traceBytes (tm_Rules m) (stg_AllowPassthrough s \<or> tm_AllowPassthrough m)))))))"

section \<open>Experiment configurations\<close>

text \<open>An arm's overrides; \<open>None\<close> is a setting the file does not mention.\<close>

record arm_config =
  ac_Trace :: "string option"
  ac_Engine :: "string option"
  ac_Mode :: "string option"
  ac_MaxInflight :: "int option"
  ac_Speedup :: "f64 option"
  ac_TargetMap :: "string option"
  ac_TargetRoot :: "string option"
  ac_AllowPassthrough :: "bool option"
  ac_Prepare :: "string option"
  ac_PrepareScope :: "string option"
  ac_SourceRoot :: "string option"
  ac_CacheMode :: "string option"
  ac_Fill :: "string option"
  ac_FillSeed :: "int option"
  ac_Hosts :: "string option"
  ac_Bucket :: "string option"
  ac_Endpoint :: "string option"
  ac_Region :: "string option"
  ac_PathStyle :: "bool option"

definition setTo :: "'a option \<Rightarrow> 'a \<Rightarrow> 'a" where
  "setTo v dst = (case v of None \<Rightarrow> dst | Some x \<Rightarrow> x)"

definition applyTo :: "arm_config \<Rightarrow> run_settings \<Rightarrow> run_settings" where
  "applyTo a s =
     s\<lparr>stg_TracePath := setTo (ac_Trace a) (stg_TracePath s),
       stg_EngineName := setTo (ac_Engine a) (stg_EngineName s),
       stg_Mode := setTo (ac_Mode a) (stg_Mode s),
       stg_MaxInflight := setTo (ac_MaxInflight a) (stg_MaxInflight s),
       stg_Speedup := setTo (ac_Speedup a) (stg_Speedup s),
       stg_TargetMapPath := setTo (ac_TargetMap a) (stg_TargetMapPath s),
       stg_TargetRoot := setTo (ac_TargetRoot a) (stg_TargetRoot s),
       stg_AllowPassthrough := setTo (ac_AllowPassthrough a) (stg_AllowPassthrough s),
       stg_PrepareMode := setTo (ac_Prepare a) (stg_PrepareMode s),
       stg_PrepareScope := setTo (ac_PrepareScope a) (stg_PrepareScope s),
       stg_SourceRoot := setTo (ac_SourceRoot a) (stg_SourceRoot s),
       stg_CacheMode := setTo (ac_CacheMode a) (stg_CacheMode s),
       stg_FillMode := setTo (ac_Fill a) (stg_FillMode s),
       stg_FillSeed := setTo (ac_FillSeed a) (stg_FillSeed s),
       stg_Hosts := setTo (ac_Hosts a) (stg_Hosts s),
       stg_S3 := (stg_S3 s)\<lparr>s3_Bucket := setTo (ac_Bucket a) (s3_Bucket (stg_S3 s)),
          s3_Endpoint := setTo (ac_Endpoint a) (s3_Endpoint (stg_S3 s)),
          s3_Region := setTo (ac_Region a) (s3_Region (stg_S3 s)),
          s3_PathStyle := setTo (ac_PathStyle a) (s3_PathStyle (stg_S3 s))\<rparr>\<rparr>"

record exp_config =
  xc_Claim :: string
  xc_Trials :: int
  xc_Warmup :: int
  xc_Seed :: int
  xc_MinTrials :: "int option"
  xc_MaxCVPercent :: "f64 option"
  xc_MaxDurationRegressionPercent :: "f64 option"
  xc_Run :: arm_config
  xc_Baseline :: arm_config
  xc_Treatment :: arm_config

datatype config_err = CFRead string | CFParse string | CFTrials int | CFWarmup int

definition loadExpConfig :: "(string \<Rightarrow> string + byte list) \<Rightarrow> (byte list \<Rightarrow> string + exp_config) \<Rightarrow> string \<Rightarrow> config_err + exp_config" where
  "loadExpConfig read_file yaml path =
     (case read_file path of
        Inl e \<Rightarrow> Inl (CFRead e)
      | Inr b \<Rightarrow>
          (case yaml b of
             Inl e \<Rightarrow> Inl (CFParse e)
           | Inr c \<Rightarrow>
               if xc_Trials c < 1 then Inl (CFTrials (xc_Trials c))
               else if xc_Warmup c < 0 then Inl (CFWarmup (xc_Warmup c)) else Inr c))"

definition expPolicy :: "exp_config \<Rightarrow> trial_policy" where
  "expPolicy c =
     \<lparr>tq_MinValidTrials = setTo (xc_MinTrials c) (tq_MinValidTrials defaultTrialPolicy),
      tq_MaxCVPercent = setTo (xc_MaxCVPercent c) (tq_MaxCVPercent defaultTrialPolicy),
      tq_MaxDurationRegressionPercent = setTo (xc_MaxDurationRegressionPercent c) (tq_MaxDurationRegressionPercent defaultTrialPolicy)\<rparr>"

definition arms :: "exp_config \<Rightarrow> run_settings \<times> run_settings" where
  "arms c = (let base = applyTo (xc_Run c) defaultRunSettings in (applyTo (xc_Baseline c) base, applyTo (xc_Treatment c) base))"

definition boolText :: "bool \<Rightarrow> string" where
  "boolText b = (if b then ''true'' else ''false'')"

text \<open>\<open>ftoa\<close> prints a floating-point number.\<close>

definition settingsFields :: "(f64 \<Rightarrow> string) \<Rightarrow> run_settings \<Rightarrow> (string \<times> string) list" where
  "settingsFields ftoa s =
     [(''trace'', stg_TracePath s), (''engine'', stg_EngineName s), (''mode'', stg_Mode s),
      (''max_inflight'', itoa (stg_MaxInflight s)), (''speedup'', ftoa (stg_Speedup s)),
      (''target_map'', stg_TargetMapPath s), (''target_root'', stg_TargetRoot s),
      (''allow_passthrough'', boolText (stg_AllowPassthrough s)), (''prepare'', stg_PrepareMode s),
      (''prepare_scope'', stg_PrepareScope s), (''source_root'', stg_SourceRoot s), (''cache_mode'', stg_CacheMode s),
      (''fill'', stg_FillMode s), (''fill_seed'', itoa (stg_FillSeed s)), (''hosts'', stg_Hosts s),
      (''bucket'', s3_Bucket (stg_S3 s)), (''endpoint'', s3_Endpoint (stg_S3 s)), (''region'', s3_Region (stg_S3 s)),
      (''path_style'', boolText (s3_PathStyle (stg_S3 s)))]"

definition treatmentVariables :: "(f64 \<Rightarrow> string) \<Rightarrow> run_settings \<Rightarrow> run_settings \<Rightarrow> string list" where
  "treatmentVariables ftoa baseline treatment =
     (let a = settingsFields ftoa baseline; b = settingsFields ftoa treatment in
      sort (map fst (filter (\<lambda>(k, av). map_of b k \<noteq> Some av) a)))"

section \<open>Sizes\<close>

text \<open>
  A size on the command line, a number of bytes with an optional unit. The unit is compared in
  capitals; the model knows those of ASCII text.
\<close>

datatype size_err = SZEmpty | SZNegative int | SZNumber string | SZFormat string

definition upperByte :: "char \<Rightarrow> char" where
  "upperByte c = (let n = byte_of c in if 97 \<le> n \<and> n \<le> 122 then char_of (n - 32) else c)"

definition toUpper :: "string \<Rightarrow> string" where
  "toUpper = map upperByte"

definition sizeMultipliers :: "(string \<times> int) list" where
  "sizeMultipliers =
     [(''GiB'', 2 ^ 30), (''MiB'', 2 ^ 20), (''KiB'', 2 ^ 10), (''GB'', 1000000000), (''MB'', 1000000), (''KB'', 1000),
      (''G'', 2 ^ 30), (''M'', 2 ^ 20), (''K'', 2 ^ 10)]"

definition parseBytes :: "string \<Rightarrow> size_err + int" where
  "parseBytes s =
     (if s = [] then Inl SZEmpty
      else case parseInt64 s of
        Some n \<Rightarrow> if n < 0 then Inl (SZNegative n) else Inr n
      | None \<Rightarrow>
          (case find (\<lambda>(unit, factor). hasSuffix (toUpper s) (toUpper unit)) sizeMultipliers of
             None \<Rightarrow> Inl (SZFormat s)
           | Some (unit, factor) \<Rightarrow>
               (case parseInt64 (trimSpace (take (length s - length unit) s)) of
                  None \<Rightarrow> Inl (SZNumber s)
                | Some n \<Rightarrow> if n < 0 then Inl (SZNegative n) else Inr (i64 (n * factor)))))"

text \<open>The multiplication wraps: a size of \<open>2 ^ 33\<close> GiB is negative, and twice that is nothing at all.\<close>

lemma parseBytes_wraps:
  "parseBytes ''8589934592GiB'' = Inr (- (2 ^ 63))" "parseBytes ''17179869184g'' = Inr 0" "parseBytes ''4 mib'' = Inr 4194304"
  by code_simp+

section \<open>What a plan and its arms guarantee\<close>

lemma boolText_inj [simp]: "boolText a = boolText b \<longleftrightarrow> a = b"
  by (simp add: boolText_def)

text \<open>The settings an experiment can vary, up to how a floating-point number is printed.\<close>

definition same_settings :: "(f64 \<Rightarrow> string) \<Rightarrow> run_settings \<Rightarrow> run_settings \<Rightarrow> bool" where
  "same_settings ftoa a b \<longleftrightarrow> settingsFields ftoa a = settingsFields ftoa b"

lemma distinct_keys: "distinct (map fst (settingsFields ftoa s))"
  by (simp add: settingsFields_def)

lemma same_keys: "map fst (settingsFields ftoa a) = map fst (settingsFields ftoa b)"
  by (simp add: settingsFields_def)

lemma assoc_eqI:
  "map fst xs = map fst ys \<Longrightarrow> distinct (map fst ys) \<Longrightarrow> \<forall>p \<in> set xs. map_of ys (fst p) = Some (snd p) \<Longrightarrow> xs = ys"
proof (induction xs arbitrary: ys)
  case (Cons p xs)
  then obtain q ys' where ys: "ys = q # ys'" "fst p = fst q" "map fst xs = map fst ys'" by (cases ys) auto
  have "fst q \<notin> fst ` set xs" using Cons.prems(2) ys by (metis distinct.simps(2) list.simps(9) set_map)
  then have "\<forall>r \<in> set xs. map_of ys' (fst r) = Some (snd r)" using Cons.prems(3) ys(1) by (cases q) (force simp: image_iff)
  then have "xs = ys'" using Cons.IH [of ys'] Cons.prems(2) ys by simp
  moreover have "snd p = snd q" using Cons.prems(3) ys by simp
  ultimately show ?case using ys by (simp add: prod_eq_iff)
qed simp

lemma sort_nil [simp]: "sort xs = [] \<longleftrightarrow> xs = []"
  by (metis length_0_conv length_sort)

lemma treatmentVariables_nil: "treatmentVariables ftoa a b = [] \<longleftrightarrow> same_settings ftoa a b"
proof -
  have "treatmentVariables ftoa a b = [] \<longleftrightarrow>
      (\<forall>p \<in> set (settingsFields ftoa a). map_of (settingsFields ftoa b) (fst p) = Some (snd p))"
    by (simp add: treatmentVariables_def Let_def filter_empty_conv split_beta)
  also have "\<dots> \<longleftrightarrow> settingsFields ftoa a = settingsFields ftoa b"
    using assoc_eqI [OF same_keys [of ftoa a b] distinct_keys] distinct_keys [of ftoa a] by auto
  finally show ?thesis by (simp add: same_settings_def)
qed

lemma applyTo_rest:
  "stg_AllowDirect (applyTo a s) = stg_AllowDirect s" "stg_DirectFallback (applyTo a s) = stg_DirectFallback s"
  "stg_DirectAlign (applyTo a s) = stg_DirectAlign s"
  "(stg_S3 (applyTo a s))\<lparr>s3_Bucket := x, s3_Endpoint := y, s3_Region := z, s3_PathStyle := u\<rparr>
     = (stg_S3 s)\<lparr>s3_Bucket := x, s3_Endpoint := y, s3_Region := z, s3_PathStyle := u\<rparr>"
  by (simp_all add: applyTo_def)

lemma digitsOf_value: "foldl (\<lambda>v c. 10 * v + (of_char c - 48)) 0 (digitsOf n) = n"
proof (induction n rule: digitsOf.induct)
  case (1 n)
  have c: "of_char (char_of (48 + k)) = 48 + k" if "k < 10" for k :: nat using that by simp
  show ?case
  proof (cases "n < 10")
    case True
    then show ?thesis using c [of n] by (subst digitsOf.simps) simp
  next
    case False
    then show ?thesis using 1 [OF False] c [of "n mod 10"] by (subst digitsOf.simps) simp
  qed
qed

lemma digitsOf_digits: "c \<in> set (digitsOf n) \<Longrightarrow> c \<noteq> CHR ''-''"
proof (induction n rule: digitsOf.induct)
  case (1 n)
  have c: "char_of (48 + k) \<noteq> CHR ''-''" if "k < 10" for k :: nat
  proof
    assume "char_of (48 + k) = CHR ''-''"
    then have "(of_char (char_of (48 + k)) :: nat) = of_char CHR ''-''" by (rule arg_cong)
    then show False using that by simp
  qed
  show ?case using 1 c [of n] c [of "n mod 10"] by (subst (asm) digitsOf.simps) (auto split: if_splits)
qed

lemma digitsOf_inj: "digitsOf m = digitsOf n \<longleftrightarrow> m = n"
  by (metis digitsOf_value)

lemma itoa_inj: "itoa a = itoa b \<longleftrightarrow> a = b"
proof -
  have "CHR ''-'' # ds \<noteq> digitsOf n" for ds n using digitsOf_digits [of "CHR ''-''" n] by (metis list.set_intros(1))
  then show ?thesis by (auto simp: itoa_def digitsOf_inj split: if_splits) metis
qed

text \<open>
  The arms of an experiment share everything its file cannot name, so there is a treatment
  variable exactly when the arms differ.
\<close>

lemma s3_eqI:
  "(c::s3_config)\<lparr>s3_Bucket := [], s3_Endpoint := [], s3_Region := [], s3_PathStyle := False\<rparr>
     = d\<lparr>s3_Bucket := [], s3_Endpoint := [], s3_Region := [], s3_PathStyle := False\<rparr>
   \<Longrightarrow> s3_Bucket c = s3_Bucket d \<Longrightarrow> s3_Endpoint c = s3_Endpoint d \<Longrightarrow> s3_Region c = s3_Region d
   \<Longrightarrow> s3_PathStyle c = s3_PathStyle d \<Longrightarrow> c = d"
  by (cases c; cases d) simp

lemma arms_differ:
  assumes "inj ftoa" "arms c = (a, b)"
  shows "treatmentVariables ftoa a b = [] \<longleftrightarrow> a = b"
proof -
  let ?base = "applyTo (xc_Run c) defaultRunSettings"
  have ab: "a = applyTo (xc_Baseline c) ?base" "b = applyTo (xc_Treatment c) ?base"
    using assms(2) by (simp_all add: arms_def Let_def)
  have f: "ftoa x = ftoa y \<longleftrightarrow> x = y" for x y using assms(1) by (simp add: inj_eq)
  have "a = b" if s: "same_settings ftoa a b"
  proof (rule run_settings.equality)
    show "stg_S3 a = stg_S3 b"
    proof (rule s3_eqI)
      show "(stg_S3 a)\<lparr>s3_Bucket := [], s3_Endpoint := [], s3_Region := [], s3_PathStyle := False\<rparr>
          = (stg_S3 b)\<lparr>s3_Bucket := [], s3_Endpoint := [], s3_Region := [], s3_PathStyle := False\<rparr>"
        unfolding ab by (simp only: applyTo_rest)
    qed (use s in \<open>simp_all add: same_settings_def settingsFields_def\<close>)
  qed (use s in \<open>simp_all add: same_settings_def settingsFields_def itoa_inj f\<close>, simp_all add: ab applyTo_rest)
  then show ?thesis unfolding treatmentVariables_nil by (auto simp: same_settings_def)
qed

text \<open>
  A seed of zero stands for the default one when the plan is built, but not when the arms are
  compared: an arm that sets it to zero is a treatment that changes nothing.
\<close>

lemma zero_seed_no_treatment:
  assumes "stg_FillSeed a = uint DefaultSeed"
  shows "treatmentVariables ftoa a (a\<lparr>stg_FillSeed := 0\<rparr>) = [''fill_seed'']"
    "buildPlan env (a\<lparr>stg_FillSeed := 0\<rparr>) = buildPlan env a"
proof -
  have d: "uint DefaultSeed = 1" by (simp add: DefaultSeed_def)
  have "itoa 0 \<noteq> itoa 1" by (simp add: itoa_inj)
  then show "treatmentVariables ftoa a (a\<lparr>stg_FillSeed := 0\<rparr>) = [''fill_seed'']"
    using assms by (simp add: treatmentVariables_def Let_def settingsFields_def d)
  have "(a\<lparr>stg_FillSeed := 0\<rparr>)\<lparr>stg_FillSeed := uint DefaultSeed\<rparr> = a"
    using assms by (cases a) simp
  then have "(if stg_FillSeed (a\<lparr>stg_FillSeed := 0\<rparr>) = 0 then (a\<lparr>stg_FillSeed := 0\<rparr>)\<lparr>stg_FillSeed := uint DefaultSeed\<rparr>
      else a\<lparr>stg_FillSeed := 0\<rparr>) = (if stg_FillSeed a = 0 then a\<lparr>stg_FillSeed := uint DefaultSeed\<rparr> else a)"
    using assms by (simp add: d)
  then show "buildPlan env (a\<lparr>stg_FillSeed := 0\<rparr>) = buildPlan env a" by (simp only: buildPlan_def)
qed

lemma buildPlan_ok:
  assumes "buildPlan env s = Inr p"
  shows "cl_TracePath p \<noteq> []" "cl_Mode p \<in> {''asap'', ''think'', ''timeline'', ''scaled''}" "0 < cl_MaxInflight p"
    "cl_Mode p = ''scaled'' \<longrightarrow> 0 < cl_SpeedupFactor p" "cl_FillSeed p \<noteq> 0" "cl_FillMode p \<in> {''seeded'', ''zero''}"
    "cl_PrepareScope p \<in> {[], PrepareScopeShared, PrepareScopePerWorker}"
    "es_Root (cl_Engine p) \<noteq> [] \<longrightarrow> splitHosts (stg_Hosts s) = []"
    "\<exists>r. newReader (pv_lines env (cl_TraceBytes p)) = Inr r"
proof -
  let ?s = "if stg_FillSeed s = 0 then s\<lparr>stg_FillSeed := uint DefaultSeed\<rparr> else s"
  from assms obtain bytes r rules pass where p: "validateSettings ?s = None" "newReader (pv_lines env bytes) = Inr r"
      "p = planOf ?s bytes rules pass"
    by (auto simp: buildPlan_def Let_def split: option.splits sum.splits if_splits)
  have h: "stg_Hosts ?s = stg_Hosts s" "stg_FillSeed ?s \<noteq> 0" by (simp_all add: DefaultSeed_def)
  note v = p(1) [unfolded validateSettings_def, simplified h]
  show "cl_TracePath p \<noteq> []" "cl_Mode p \<in> {''asap'', ''think'', ''timeline'', ''scaled''}" "0 < cl_MaxInflight p"
    "cl_Mode p = ''scaled'' \<longrightarrow> 0 < cl_SpeedupFactor p" "cl_FillSeed p \<noteq> 0" "cl_FillMode p \<in> {''seeded'', ''zero''}"
    "cl_PrepareScope p \<in> {[], PrepareScopeShared, PrepareScopePerWorker}"
    "es_Root (cl_Engine p) \<noteq> [] \<longrightarrow> splitHosts (stg_Hosts s) = []"
    using v h(2) unfolding p(3) planOf_def by (auto split: if_splits)
  show "\<exists>r. newReader (pv_lines env (cl_TraceBytes p)) = Inr r" using p(2) unfolding p(3) by (simp add: planOf_def)
qed

end
