(* ===== verification/Commands.thy ===== *)
theory Commands
  imports Run_Plan Run_Report
begin

text \<open>
  The commands that run replays, from their parsed flags to their exit codes: run.go, experiment.go,
  calibrate.go and report.go of src/cmd/ioflux. A machine is a record of what its surroundings do;
  messages and tables printed for the reader are left out.
\<close>

section \<open>Artifacts\<close>

record calibration =
  ca_SchemaVersion :: int
  ca_Stamp :: stamp
  ca_Policy :: attribution_policy
  ca_Ceiling :: ceiling_rate
  ca_Assessment :: "assessment option"
  ca_AssessedPath :: string
  ca_Trials :: trial_set

text \<open>What the commands write.\<close>

datatype artifact =
    ArtSingle results
  | ArtTrials trial_set
  | ArtPaired paired_experiment
  | ArtCalibration calibration

text \<open>
  What a file of results holds, as encoding/json reads it: which of the fields \<open>trials\<close>,
  \<open>baseline\<close> and \<open>treatment\<close> are there, and the values it decodes to. \<open>None\<close> is an error.
\<close>

record json_file =
  jf_probe :: "(bool \<times> bool \<times> bool) option"
  jf_paired :: "paired_experiment option"
  jf_trials :: "trial_set option"
  jf_results :: "results option"

definition loadArtifact :: "json_file option \<Rightarrow> int + artifact" where
  "loadArtifact f =
     (case f of
        None \<Rightarrow> Inl 2
      | Some j \<Rightarrow>
          (case jf_probe j of
             None \<Rightarrow> Inl 1
           | Some (hasTrials, hasBaseline, hasTreatment) \<Rightarrow>
               if hasBaseline \<and> hasTreatment then
                 (case jf_paired j of
                    None \<Rightarrow> Inl 1
                  | Some pe \<Rightarrow>
                      (case (pe_Baseline pe, pe_Treatment pe) of
                         (Some b, Some t) \<Rightarrow> if ts_Trials b = [] \<or> ts_Trials t = [] then Inl 1 else Inr (ArtPaired pe)
                       | _ \<Rightarrow> Inl 1))
               else if hasTrials then
                 (case jf_trials j of
                    None \<Rightarrow> Inl 1
                  | Some ts \<Rightarrow> if ts_Trials ts = [] then Inl 1 else Inr (ArtTrials ts))
               else (case jf_results j of None \<Rightarrow> Inl 1 | Some r \<Rightarrow> Inr (ArtSingle r))))"

section \<open>The report command\<close>

definition reportPolicy :: "int \<Rightarrow> f64 \<Rightarrow> trial_policy" where
  "reportPolicy minTrials maxCV =
     \<lparr>tq_MinValidTrials = minTrials, tq_MaxCVPercent = maxCV, tq_MaxDurationRegressionPercent = 0\<rparr>"

text \<open>
  The exit code of a report of the given files. The tables it prints are left out; each printing
  function that refuses to state a difference is the verdict it refuses on.
\<close>

definition printPairedReport :: "paired_experiment \<Rightarrow> bool" where
  "printPairedReport pe = comparable (pe_Eligibility pe)"

definition printTrialComparison :: "(f64 \<Rightarrow> string) \<Rightarrow> trial_set \<Rightarrow> trial_set \<Rightarrow> trial_policy \<Rightarrow> bool" where
  "printTrialComparison ftoa a b policy = comparable (tc_Eligibility (compareTrialSets ftoa a b policy))"

definition printComparison :: "(f64 \<Rightarrow> string) \<Rightarrow> results \<Rightarrow> results \<Rightarrow> bool" where
  "printComparison ftoa a b = comparable (checkEligibility ftoa a b)"

definition runReport :: "(f64 \<Rightarrow> string) \<Rightarrow> trial_policy \<Rightarrow> json_file option list \<Rightarrow> int" where
  "runReport ftoa policy files =
     (case files of
        [f] \<Rightarrow>
          (case loadArtifact f of
             Inl code \<Rightarrow> code
           | Inr (ArtPaired pe) \<Rightarrow> if printPairedReport pe then 0 else 1
           | Inr _ \<Rightarrow> 0)
      | [f, g] \<Rightarrow>
          (case loadArtifact f of
             Inl code \<Rightarrow> code
           | Inr a \<Rightarrow>
               (case loadArtifact g of
                  Inl code \<Rightarrow> code
                | Inr b \<Rightarrow>
                    (case (a, b) of
                       (ArtTrials x, ArtTrials y) \<Rightarrow> if printTrialComparison ftoa x y policy then 0 else 1
                     | (ArtSingle x, ArtSingle y) \<Rightarrow> if printComparison ftoa x y then 0 else 1
                     | _ \<Rightarrow> 2)))
      | _ \<Rightarrow> 2)"

section \<open>One replay\<close>

text \<open>
  What a machine gives the commands: the worker a dialled address leads to and a fresh in-process
  one, the workers' calls, what the coordinator reads of its host, and the machine after a run.
  Then the calls that write: which of the calls of an atomic write fail, the name of the
  temporary file, the JSON encoder, what a failed write leaves, whether standard output takes the
  data, and which row of the CSV file cannot be appended. Last, the math and printing functions
  and the stamp of an artifact.
\<close>

record ('m, 'w, 'u, 'e, 'h) machine =
  mc_dial :: "'m \<Rightarrow> string \<Rightarrow> string + 'w"
  mc_session :: "'m \<Rightarrow> 'w"
  mc_api :: "('w, 'u, 'e, 'h) worker_api"
  mc_coord :: "'m \<Rightarrow> ('u, 'h) coord_env"
  mc_after :: "'m \<Rightarrow> 'w list \<Rightarrow> 'm"
  mc_plan :: plan_env
  mc_fails :: "io_call \<Rightarrow> bool"
  mc_tmp :: string
  mc_json :: "artifact \<Rightarrow> string"
  mc_partial :: string
  mc_stdout :: bool
  mc_csvFails :: "nat \<Rightarrow> bool"
  mc_math :: math_lib
  mc_ftoa :: "f64 \<Rightarrow> string"
  mc_stamp :: stamp

datatype 'e run_failure = RFDial string string | RFRun "'e coord_err"

fun dialAll :: "(string \<Rightarrow> string + 'w) \<Rightarrow> string list \<Rightarrow> 'e run_failure + 'w list" where
  "dialAll dial [] = Inr []"
| "dialAll dial (a # as) =
     (case dial a of
        Inl e \<Rightarrow> Inl (RFDial a e)
      | Inr w \<Rightarrow> (case dialAll dial as of Inl e \<Rightarrow> Inl e | Inr ws \<Rightarrow> Inr (w # ws)))"

definition buildWorkers :: "('m, 'w, 'u, 'e, 'h) machine \<Rightarrow> 'm \<Rightarrow> string \<Rightarrow> 'e run_failure + 'w list" where
  "buildWorkers M m hosts =
     (let addrs = splitHosts hosts in
      if addrs = [] then Inr [mc_session M m] else dialAll (mc_dial M m) addrs)"

definition runOnce :: "('m, 'w, 'u, 'e, 'h) machine \<Rightarrow> cluster_plan \<Rightarrow> string \<Rightarrow> 'm \<Rightarrow> ('m \<times> ('e run_failure + results)) option" where
  "runOnce M plan hosts m =
     (case buildWorkers M m hosts of
        Inl e \<Rightarrow> Some (m, Inl e)
      | Inr ws \<Rightarrow>
          (case coordinatorRun (mc_api M) (mc_coord M m) plan ws of
             None \<Rightarrow> None
           | Some (ws', r) \<Rightarrow> Some (mc_after M m ws', map_sum RFRun id r)))"

text \<open>The warm-up and measured trials of one plan.\<close>

fun trialLoop :: "('m \<Rightarrow> ('m \<times> ('e + results)) option) \<Rightarrow> int \<Rightarrow> int list \<Rightarrow> results list \<Rightarrow> 'm \<Rightarrow> ('m \<times> ('e + results list)) option" where
  "trialLoop once warmup [] measured m = Some (m, Inr measured)"
| "trialLoop once warmup (i # js) measured m =
     (case once m of
        None \<Rightarrow> None
      | Some (m', Inl e) \<Rightarrow> Some (m', Inl e)
      | Some (m', Inr res) \<Rightarrow> trialLoop once warmup js (if i \<ge> warmup then measured @ [res] else measured) m')"

section \<open>Writing an artifact\<close>

text \<open>What a command leaves: its exit code, the files, the JSON on standard output, the CSV rows.\<close>

record outcome =
  oc_Exit :: int
  oc_Files :: file_system
  oc_Stdout :: "string list"
  oc_Rows :: "csv_cell list list option"
  oc_Written :: "artifact option"

definition quits :: "int \<Rightarrow> file_system \<Rightarrow> csv_cell list list option \<Rightarrow> outcome" where
  "quits code fs rows = \<lparr>oc_Exit = code, oc_Files = fs, oc_Stdout = [], oc_Rows = rows, oc_Written = None\<rparr>"

definition emit :: "('m, 'w, 'u, 'e, 'h) machine \<Rightarrow> string \<Rightarrow> artifact \<Rightarrow> outcome \<Rightarrow> bool \<times> outcome" where
  "emit M path a oc =
     (if path = ''-'' then
        (if mc_stdout M then (True, oc\<lparr>oc_Stdout := oc_Stdout oc @ [mc_json M a], oc_Written := Some a\<rparr>) else (False, oc\<lparr>oc_Exit := 2\<rparr>))
      else case writeJSONFile (mc_fails M) path (mc_tmp M) (mc_json M a) (mc_partial M) (oc_Files oc) of
             (states, None) \<Rightarrow> (True, oc\<lparr>oc_Files := hd states, oc_Written := Some a\<rparr>)
           | (states, Some e) \<Rightarrow> (False, oc\<lparr>oc_Exit := 2, oc_Files := hd states\<rparr>))"

fun appendRows :: "(nat \<Rightarrow> bool) \<Rightarrow> nat \<Rightarrow> results list \<Rightarrow> csv_cell list list option \<Rightarrow> bool \<times> csv_cell list list option" where
  "appendRows fails k [] rows = (True, rows)"
| "appendRows fails k (r # rs) rows = (if fails k then (False, rows) else appendRows fails (k + 1) rs (Some (appendCSV rows r)))"

section \<open>The run command\<close>

record run_args =
  ra_Settings :: run_settings
  ra_OutPath :: string
  ra_CSVPath :: string
  ra_Trials :: int
  ra_Warmup :: int

definition finishRun :: "('m, 'w, 'u, 'e, 'h) machine \<Rightarrow> run_args \<Rightarrow> results list \<Rightarrow> outcome \<Rightarrow> outcome" where
  "finishRun M args measured oc =
     (let payload = (if ra_Trials args > 1 then ArtTrials (buildTrialSet (mc_math M) (mc_stamp M) measured (ra_Warmup args))
                     else ArtSingle (hd measured))
      in case emit M (ra_OutPath args) payload oc of
           (False, oc1) \<Rightarrow> oc1
         | (True, oc1) \<Rightarrow>
             (case (if ra_CSVPath args = [] then (True, oc_Rows oc1) else appendRows (mc_csvFails M) 0 measured (oc_Rows oc1)) of
                (False, rows) \<Rightarrow> oc1\<lparr>oc_Exit := 2, oc_Rows := rows\<rparr>
              | (True, rows) \<Rightarrow> oc1\<lparr>oc_Rows := rows, oc_Exit := (if list_all validRun measured then 0 else 1)\<rparr>))"

definition runRun :: "('m, 'w, 'u, 'e, 'h) machine \<Rightarrow> run_args \<Rightarrow> 'm \<Rightarrow> file_system \<Rightarrow> csv_cell list list option \<Rightarrow> ('m \<times> outcome) option" where
  "runRun M args m fs rows =
     (let s = ra_Settings args in
      if stg_TracePath s = [] \<or> ra_OutPath args = [] \<or> ra_Trials args < 1 \<or> ra_Warmup args < 0 then Some (m, quits 2 fs rows)
      else case buildPlan (mc_plan M) s of
        Inl e \<Rightarrow> Some (m, quits (pn_Code e) fs rows)
      | Inr plan \<Rightarrow>
          (case buildWorkers M m (stg_Hosts s) of
             Inl e \<Rightarrow> Some (m, quits 2 fs rows)
           | Inr probe \<Rightarrow>
               (case trialLoop (runOnce M plan (stg_Hosts s)) (ra_Warmup args) [0..i64 (ra_Warmup args + ra_Trials args) - 1] [] m of
                  None \<Rightarrow> None
                | Some (m', Inl e) \<Rightarrow> Some (m', quits 1 fs rows)
                | Some (m', Inr []) \<Rightarrow> None
                | Some (m', Inr measured) \<Rightarrow> Some (m', finishRun M args measured (quits 0 fs rows)))))"

section \<open>The experiment command\<close>

text \<open>The random source: made from a seed, and drawing below a bound.\<close>

record 'g arm_rng =
  xr_new :: "int \<Rightarrow> 'g"
  xr_intn :: "int \<Rightarrow> 'g \<Rightarrow> int \<times> 'g"

definition orderedArms :: "'g arm_rng \<Rightarrow> 'g \<Rightarrow> (string \<times> string) \<times> 'g" where
  "orderedArms R g =
     (case xr_intn R 2 g of (k, g') \<Rightarrow> ((if k = 0 then (ArmBaseline, ArmTreatment) else (ArmTreatment, ArmBaseline)), g'))"

text \<open>The two arms: each a plan and the hosts it runs on.\<close>

definition runArm :: "('m, 'w, 'u, 'e, 'h) machine \<Rightarrow> cluster_plan \<times> string \<Rightarrow> cluster_plan \<times> string \<Rightarrow> string \<Rightarrow> 'm \<Rightarrow>
    ('m \<times> ('e run_failure + results)) option" where
  "runArm M base treat arm m = (if arm = ArmBaseline then runOnce M (fst base) (snd base) m else runOnce M (fst treat) (snd treat) m)"

text \<open>Both arms of a round, in the order drawn.\<close>

definition runRound :: "(string \<Rightarrow> 'm \<Rightarrow> ('m \<times> ('e + results)) option) \<Rightarrow> string \<times> string \<Rightarrow> 'm \<Rightarrow> ('m \<times> ('e + results \<times> results)) option" where
  "runRound once order m =
     (case once (fst order) m of
        None \<Rightarrow> None
      | Some (m1, Inl e) \<Rightarrow> Some (m1, Inl e)
      | Some (m1, Inr r1) \<Rightarrow>
          (case once (snd order) m1 of
             None \<Rightarrow> None
           | Some (m2, Inl e) \<Rightarrow> Some (m2, Inl e)
           | Some (m2, Inr r2) \<Rightarrow> Some (m2, Inr (r1, r2))))"

fun warmupLoop :: "'g arm_rng \<Rightarrow> (string \<Rightarrow> 'm \<Rightarrow> ('m \<times> ('e + results)) option) \<Rightarrow> nat \<Rightarrow> 'g \<Rightarrow> 'm \<Rightarrow> ('m \<times> ('e + 'g)) option" where
  "warmupLoop R once 0 g m = Some (m, Inr g)"
| "warmupLoop R once (Suc n) g m =
     (case orderedArms R g of (order, g') \<Rightarrow>
        (case runRound once order m of
           None \<Rightarrow> None
         | Some (m', Inl e) \<Rightarrow> Some (m', Inl e)
         | Some (m', Inr _) \<Rightarrow> warmupLoop R once n g' m'))"

fun pairLoop :: "'g arm_rng \<Rightarrow> (string \<Rightarrow> 'm \<Rightarrow> ('m \<times> ('e + results)) option) \<Rightarrow> nat \<Rightarrow> 'g \<Rightarrow> results list \<times> results list \<times> string list \<Rightarrow>
    'm \<Rightarrow> ('m \<times> ('e + results list \<times> results list \<times> string list)) option" where
  "pairLoop R once 0 g acc m = Some (m, Inr acc)"
| "pairLoop R once (Suc n) g (bs, ts, ord) m =
     (case orderedArms R g of (order, g') \<Rightarrow>
        (case runRound once order m of
           None \<Rightarrow> None
         | Some (m', Inl e) \<Rightarrow> Some (m', Inl e)
         | Some (m', Inr (r1, r2)) \<Rightarrow>
             pairLoop R once n g'
               (if fst order = ArmBaseline then (bs @ [r1], ts @ [r2], ord @ [fst order]) else (bs @ [r2], ts @ [r1], ord @ [fst order])) m'))"

definition regressionExitCode :: "string \<Rightarrow> int" where
  "regressionExitCode v = (if v = RegressionFail then 3 else if v = RegressionInconclusive then 4 else 0)"

definition finishExperiment :: "('m, 'w, 'u, 'e, 'h) machine \<Rightarrow> string \<Rightarrow> paired_experiment \<Rightarrow> outcome \<Rightarrow> outcome" where
  "finishExperiment M path pe oc =
     (case emit M path (ArtPaired pe) oc of
        (False, oc1) \<Rightarrow> oc1
      | (True, oc1) \<Rightarrow>
          if printPairedReport pe then oc1\<lparr>oc_Exit := regressionExitCode (rg_Verdict (pe_Regression pe))\<rparr> else oc1\<lparr>oc_Exit := 1\<rparr>)"

text \<open>\<open>cfg\<close> is what \<open>loadExpConfig\<close> made of the file the command names.\<close>

definition runExperiment :: "('m, 'w, 'u, 'e, 'h) machine \<Rightarrow> 'g arm_rng \<Rightarrow> string \<Rightarrow> string \<Rightarrow> config_err + exp_config \<Rightarrow> 'm \<Rightarrow> file_system \<Rightarrow>
    ('m \<times> outcome) option" where
  "runExperiment M R configPath outPath cfg m fs =
     (if configPath = [] \<or> outPath = [] then Some (m, quits 2 fs None)
      else case cfg of
        Inl e \<Rightarrow> Some (m, quits 2 fs None)
      | Inr c \<Rightarrow>
          (let (bset, tset) = arms c in
           case buildPlan (mc_plan M) bset of
             Inl e \<Rightarrow> Some (m, quits (pn_Code e) fs None)
           | Inr bplan \<Rightarrow>
               (case buildPlan (mc_plan M) tset of
                  Inl e \<Rightarrow> Some (m, quits (pn_Code e) fs None)
                | Inr tplan \<Rightarrow>
                    (case (buildWorkers M m (stg_Hosts bset), buildWorkers M m (stg_Hosts tset)) of
                       (Inr _, Inr _) \<Rightarrow>
                         (let once = runArm M (bplan, stg_Hosts bset) (tplan, stg_Hosts tset) in
                          case warmupLoop R once (nat (xc_Warmup c)) (xr_new R (xc_Seed c)) m of
                            None \<Rightarrow> None
                          | Some (m1, Inl e) \<Rightarrow> Some (m1, quits 1 fs None)
                          | Some (m1, Inr g) \<Rightarrow>
                              (case pairLoop R once (nat (xc_Trials c)) g ([], [], []) m1 of
                                 None \<Rightarrow> None
                               | Some (m2, Inl e) \<Rightarrow> Some (m2, quits 1 fs None)
                               | Some (m2, Inr (bs, ts, ord)) \<Rightarrow>
                                   Some (m2, finishExperiment M outPath
                                     (buildPaired (mc_math M) (mc_ftoa M) (mc_stamp M) (xc_Claim c)
                                        (buildTrialSet (mc_math M) (mc_stamp M) bs (xc_Warmup c))
                                        (buildTrialSet (mc_math M) (mc_stamp M) ts (xc_Warmup c))
                                        (expPolicy c) (xc_Seed c) ord (treatmentVariables (mc_ftoa M) bset tset))
                                     (quits 0 fs None))))
                     | _ \<Rightarrow> Some (m, quits 2 fs None)))))"

section \<open>The calibrate command\<close>

record calibrate_args =
  cb_TracePath :: string
  cb_AgainstPath :: string
  cb_MaxInflight :: int
  cb_Trials :: int
  cb_Warmup :: int
  cb_Policy :: attribution_policy
  cb_OutPath :: string

definition firstValidTrial :: "trial_set \<Rightarrow> results option" where
  "firstValidTrial ts = (case filter validRun (ts_Trials ts) of r # _ \<Rightarrow> Some r | [] \<Rightarrow> representative ts)"

text \<open>The run to assess and the duration that stands for it; or the exit code.\<close>

definition assessedRun :: "json_file option \<Rightarrow> int + results \<times> int" where
  "assessedRun f =
     (case loadArtifact f of
        Inl code \<Rightarrow> Inl code
      | Inr (ArtTrials ts) \<Rightarrow>
          (if tu_ValidTrials (ts_Summary ts) = 0 then Inl 1
           else case firstValidTrial ts of None \<Rightarrow> Inl 1
              | Some r \<Rightarrow> Inr (r, int64_of (ms_Median (tu_DurationNS (ts_Summary ts)))))
      | Inr (ArtSingle r) \<Rightarrow> Inr (r, re_DurationNS r)
      | Inr _ \<Rightarrow> Inl 2)"

definition calibrateSettings :: "string \<Rightarrow> int \<Rightarrow> run_settings" where
  "calibrateSettings tracePath maxInflight =
     defaultRunSettings\<lparr>stg_TracePath := tracePath, stg_EngineName := NullEngine, stg_Mode := ''asap'',
       stg_MaxInflight := maxInflight, stg_CacheMode := [], stg_PrepareMode := ''assume-existing''\<rparr>"

definition finishCalibrate :: "('m, 'w, 'u, 'e, 'h) machine \<Rightarrow> calibrate_args \<Rightarrow> (results \<times> int) option \<Rightarrow> trial_set \<Rightarrow> results \<Rightarrow> outcome \<Rightarrow> outcome" where
  "finishCalibrate M args assessed ts rep oc =
     (let c = (ceilingFrom rep (int64_of (ms_Median (tu_DurationNS (ts_Summary ts)))))
            \<lparr>ci_Trials := tu_ValidTrials (ts_Summary ts), ci_CVPercent := ms_CVPercent (tu_DurationNS (ts_Summary ts))\<rparr>;
          asm = map_option (\<lambda>(r, d). assess r d c (cb_Policy args)) assessed;
          cal = \<lparr>ca_SchemaVersion = CalibrationSchemaVersion, ca_Stamp = mc_stamp M, ca_Policy = cb_Policy args, ca_Ceiling = c,
            ca_Assessment = asm, ca_AssessedPath = (if asm = None then [] else cb_AgainstPath args), ca_Trials = ts\<rparr>
      in case (if cb_OutPath args = [] then (True, oc) else emit M (cb_OutPath args) (ArtCalibration cal) oc) of
           (False, oc1) \<Rightarrow> oc1
         | (True, oc1) \<Rightarrow>
             oc1\<lparr>oc_Exit := (case asm of None \<Rightarrow> 0
                | Some a \<Rightarrow> if as_Verdict a = VerdictNotAttributable then 3
                    else if as_Verdict a = VerdictNotAssessed \<and> as_Blocking a \<noteq> [] then 1 else 0)\<rparr>)"

definition runCalibrate :: "('m, 'w, 'u, 'e, 'h) machine \<Rightarrow> calibrate_args \<Rightarrow> json_file option \<Rightarrow> 'm \<Rightarrow> file_system \<Rightarrow> ('m \<times> outcome) option" where
  "runCalibrate M args against m fs =
     (if cb_Trials args < 1 \<or> cb_Warmup args < 0 then Some (m, quits 2 fs None)
      else case (if cb_AgainstPath args = [] then Inr None else map_sum id Some (assessedRun against)) of
        Inl code \<Rightarrow> Some (m, quits code fs None)
      | Inr assessed \<Rightarrow>
          (let tracePath = (case assessed of Some (r, _) \<Rightarrow> if cb_TracePath args = [] then pi_TracePath (re_Plan r) else cb_TracePath args
                  | None \<Rightarrow> cb_TracePath args);
               inflight = (case assessed of Some (r, _) \<Rightarrow> if cb_MaxInflight args = 0 then pi_MaxInflight (re_Plan r) else cb_MaxInflight args
                  | None \<Rightarrow> cb_MaxInflight args)
           in if tracePath = [] then Some (m, quits 2 fs None)
              else case buildPlan (mc_plan M) (calibrateSettings tracePath (if inflight = 0 then 512 else inflight)) of
                Inl e \<Rightarrow> Some (m, quits (pn_Code e) fs None)
              | Inr plan \<Rightarrow>
                  (case trialLoop (runOnce M plan []) (cb_Warmup args) [0..i64 (cb_Warmup args + cb_Trials args) - 1] [] m of
                     None \<Rightarrow> None
                   | Some (m', Inl e) \<Rightarrow> Some (m', quits 1 fs None)
                   | Some (m', Inr measured) \<Rightarrow>
                       (let ts = buildTrialSet (mc_math M) (mc_stamp M) measured (cb_Warmup args) in
                        if tu_ValidTrials (ts_Summary ts) = 0 then Some (m', quits 1 fs None)
                        else case firstValidTrial ts of
                          None \<Rightarrow> None
                        | Some rep \<Rightarrow> Some (m', finishCalibrate M args assessed ts rep (quits 0 fs None))))))"

section \<open>Writing\<close>

lemma writeJSON_done:
  assumes "writeJSONFile fails path tmpName text partial fs = (states, None)" "tmpName \<noteq> path"
  shows "map_of (hd states) path = Some (written_file text)"
  using assms by (auto simp: writeJSONFile_def Let_def map_of_onFile map_of_renameFile written_file_def split: if_splits)

lemma writeJSON_failed:
  assumes "writeJSONFile fails path tmpName text partial fs = (states, Some e)" "p \<noteq> tmpName"
  shows "map_of (hd states) p = map_of fs p"
  using assms by (auto simp: writeJSONFile_def Let_def map_of_onFile split: if_splits)

text \<open>What a command changed: nothing, or the artifact it wrote.\<close>

lemma emit_cases:
  assumes "emit M path a oc = (ok, oc')" "oc_Written oc = None" "mc_tmp M \<noteq> path"
  shows "oc_Rows oc' = oc_Rows oc"
    and "ok \<Longrightarrow> oc_Exit oc' = oc_Exit oc \<and> oc_Written oc' = Some a
      \<and> (path \<noteq> ''-'' \<longrightarrow> map_of (oc_Files oc') path = Some (written_file (mc_json M a)))"
    and "\<not> ok \<Longrightarrow> oc_Exit oc' = 2 \<and> oc_Written oc' = None \<and> (\<forall>p. p \<noteq> mc_tmp M \<longrightarrow> map_of (oc_Files oc') p = map_of (oc_Files oc) p)"
  using assms by (auto simp: emit_def writeJSON_done writeJSON_failed split: if_splits prod.splits option.splits)

lemma quits_simps [simp]:
  "oc_Exit (quits code fs rows) = code" "oc_Files (quits code fs rows) = fs" "oc_Rows (quits code fs rows) = rows"
  "oc_Written (quits code fs rows) = None"
  by (simp_all add: quits_def)

lemma validateSettings_usage: "validateSettings s = None \<or> (\<exists>x. validateSettings s = Some (usageErrorf x))"
  unfolding validateSettings_def by (simp only: option.inject option.distinct split: if_split) blast

lemma buildPlan_code: "buildPlan env s = Inl e \<Longrightarrow> pn_Code e \<in> {1, 2}"
  using validateSettings_usage [of "if stg_FillSeed s = 0 then s\<lparr>stg_FillSeed := uint DefaultSeed\<rparr> else s"]
  unfolding buildPlan_def Let_def usageErrorf_def inputErrorf_def
  by (elim disjE exE) (auto simp del: if_image_distrib split: option.splits sum.splits if_splits)

section \<open>Trials\<close>

definition produced :: "('m \<Rightarrow> ('m \<times> ('e + results)) option) \<Rightarrow> results \<Rightarrow> bool" where
  "produced once r \<longleftrightarrow> (\<exists>m m'. once m = Some (m', Inr r))"

lemma trialLoop_measured:
  "trialLoop once warmup js acc m = Some (m', Inr measured) \<Longrightarrow>
     length measured = length acc + length (filter (\<lambda>i. i \<ge> warmup) js)
     \<and> (\<forall>r \<in> set measured. r \<in> set acc \<or> produced once r)"
proof (induction js arbitrary: acc m)
  case (Cons i js)
  from Cons.prems obtain m1 res where o: "once m = Some (m1, Inr res)"
      "trialLoop once warmup js (if i \<ge> warmup then acc @ [res] else acc) m1 = Some (m', Inr measured)"
    by (auto split: option.splits prod.splits sum.splits)
  have "produced once res" using o(1) by (auto simp: produced_def)
  with Cons.IH [OF o(2)] show ?case by (auto split: if_splits)
qed simp

lemma measured_count: "0 \<le> w \<Longrightarrow> 1 \<le> t \<Longrightarrow> length (filter (\<lambda>i. i \<ge> w) [0..w + t - 1]) = nat t"
proof -
  assume "0 \<le> w" "1 \<le> t"
  then have "[0..w + t - 1] = [0..w - 1] @ [w..w + t - 1]" using upto_split1 [of 0 w "w + t - 1"] by simp
  moreover have "filter (\<lambda>i. i \<ge> w) [0..w - 1] = []" by (auto simp: filter_empty_conv)
  moreover have "filter (\<lambda>i. i \<ge> w) [w..w + t - 1] = [w..w + t - 1]" by (auto simp: filter_id_conv)
  ultimately show ?thesis by simp
qed

lemma runOnce_trials:
  assumes "trialLoop once w [0..i64 (w + t) - 1] [] m = Some (m', Inr measured)" "0 \<le> w" "1 \<le> t" "w + t < 2 ^ 63"
  shows "int (length measured) = t" "\<forall>r \<in> set measured. produced once r"
proof -
  have "i64 (w + t) = w + t" using assms(2-4) by (intro i64_id) (simp add: in64_def)
  then show "int (length measured) = t" "\<forall>r \<in> set measured. produced once r"
    using trialLoop_measured [OF assms(1)] measured_count [OF assms(2,3)] assms(3) by simp_all
qed

lemma runRound_produced:
  "runRound once order m = Some (m', Inr (r1, r2)) \<Longrightarrow> produced (once (fst order)) r1 \<and> produced (once (snd order)) r2"
  by (auto simp: runRound_def produced_def split: option.splits prod.splits sum.splits)

lemma orderedArms_cases: "orderedArms R g = (order, g') \<Longrightarrow> order = (ArmBaseline, ArmTreatment) \<or> order = (ArmTreatment, ArmBaseline)"
  by (auto simp: orderedArms_def split: prod.splits if_splits)

lemma arm_names: "ArmBaseline \<noteq> ArmTreatment"
  by (simp add: ArmBaseline_def ArmTreatment_def)

lemma pairLoop_trials:
  "pairLoop R once n g (bs, ts, ord) m = Some (m', Inr (bs', ts', ord')) \<Longrightarrow>
     length bs' = length bs + n \<and> length ts' = length ts + n \<and> length ord' = length ord + n
     \<and> set ord' \<subseteq> set ord \<union> {ArmBaseline, ArmTreatment}
     \<and> (\<forall>r \<in> set bs'. r \<in> set bs \<or> produced (once ArmBaseline) r)
     \<and> (\<forall>r \<in> set ts'. r \<in> set ts \<or> produced (once ArmTreatment) r)"
proof (induction n arbitrary: g bs ts ord m)
  case (Suc n)
  obtain order g1 where order: "orderedArms R g = (order, g1)" by fastforce
  from Suc.prems order obtain m1 r1 r2 where o: "runRound once order m = Some (m1, Inr (r1, r2))"
      "pairLoop R once n g1 (if fst order = ArmBaseline then (bs @ [r1], ts @ [r2], ord @ [fst order])
         else (bs @ [r2], ts @ [r1], ord @ [fst order])) m1 = Some (m', Inr (bs', ts', ord'))"
    by (auto split: option.splits prod.splits sum.splits)
  from orderedArms_cases [OF order] show ?case
  proof
    assume "order = (ArmBaseline, ArmTreatment)"
    with o runRound_produced [OF o(1)] Suc.IH [of g1 "bs @ [r1]" "ts @ [r2]" "ord @ [ArmBaseline]" m1] show ?thesis by auto
  next
    assume "order = (ArmTreatment, ArmBaseline)"
    with o runRound_produced [OF o(1)] Suc.IH [of g1 "bs @ [r2]" "ts @ [r1]" "ord @ [ArmTreatment]" m1] arm_names
    show ?thesis by auto
  qed
qed auto

section \<open>The run command\<close>

lemma appendRows_done:
  "appendRows fails k rs rows = (True, rows') \<Longrightarrow> rows' = foldl (\<lambda>rows r. Some (appendCSV rows r)) rows rs"
  by (induction rs arbitrary: k rows) (auto split: if_splits)


section \<open>The experiment command\<close>

lemma expPolicy_threshold:
  "tq_MaxDurationRegressionPercent (expPolicy c) = setTo (xc_MaxDurationRegressionPercent c) 0"
  by (simp add: expPolicy_def defaultTrialPolicy_def)

lemma gate_codes:
  assumes "rg_Verdict (evaluateRegression (Some pe) t) = RegressionFail \<or> rg_Verdict (evaluateRegression (Some pe) t) = RegressionInconclusive"
  shows "0 < t \<and> comparable (pe_Eligibility pe) \<and> pe_TreatmentVariables pe \<noteq> []"
  using assms
  by (auto simp: evaluateRegression_def Let_def RegressionFail_def RegressionInconclusive_def RegressionNotAssessed_def RegressionPass_def
      split: if_splits)

lemma regressionExitCode_simps:
  "regressionExitCode v \<in> {0, 3, 4}" "regressionExitCode v = 3 \<longleftrightarrow> v = RegressionFail"
  "regressionExitCode v = 4 \<longleftrightarrow> v = RegressionInconclusive"
  by (auto simp: regressionExitCode_def RegressionFail_def RegressionInconclusive_def)

text \<open>The experiment as the arms, the verdicts and the gate leave it.\<close>

lemma buildPaired_fields:
  "pe_Baseline (buildPaired M f st cl b t pol seed ord vars) = Some b" "pe_Treatment (buildPaired M f st cl b t pol seed ord vars) = Some t"
  "pe_PairOrder (buildPaired M f st cl b t pol seed ord vars) = ord" "pe_TreatmentVariables (buildPaired M f st cl b t pol seed ord vars) = vars"
  by (simp_all add: buildPaired_def Let_def)

lemma buildPaired_gate:
  "\<exists>pe. pe_Regression (buildPaired M f st cl b t pol seed ord vars) = evaluateRegression (Some pe) (tq_MaxDurationRegressionPercent pol)
     \<and> pe_Eligibility pe = pe_Eligibility (buildPaired M f st cl b t pol seed ord vars) \<and> pe_TreatmentVariables pe = vars"
  by (rule exI [of _ "(buildPaired M f st cl b t pol seed ord vars)\<lparr>pe_Regression := zeroGate\<rparr>"]) (simp add: buildPaired_def Let_def)

lemma buildPaired_codes:
  assumes "regressionExitCode (rg_Verdict (pe_Regression (buildPaired M f st cl b t (expPolicy c) seed ord vars))) \<noteq> 0"
  shows "vars \<noteq> []" "0 < setTo (xc_MaxDurationRegressionPercent c) 0"
proof -
  obtain pe where pe: "pe_Regression (buildPaired M f st cl b t (expPolicy c) seed ord vars) = evaluateRegression (Some pe) (setTo (xc_MaxDurationRegressionPercent c) 0)"
      "pe_TreatmentVariables pe = vars"
    using buildPaired_gate [of M f st cl b t "expPolicy c" seed ord vars] unfolding expPolicy_threshold by blast
  then show "vars \<noteq> []" "0 < setTo (xc_MaxDurationRegressionPercent c) 0"
    using assms gate_codes [of pe "setTo (xc_MaxDurationRegressionPercent c) 0"] by (auto simp: regressionExitCode_def split: if_splits)
qed

lemma loadExpConfig_ok: "loadExpConfig rd y path = Inr c \<Longrightarrow> 1 \<le> xc_Trials c \<and> 0 \<le> xc_Warmup c"
  by (auto simp: loadExpConfig_def split: sum.splits if_splits)

text \<open>What a run of the command that got as far as its trials measured.\<close>

definition experiment_of :: "('m, 'w, 'u, 'e, 'h) machine \<Rightarrow> exp_config \<Rightarrow> paired_experiment \<Rightarrow> bool" where
  "experiment_of M c pe \<longleftrightarrow>
     (\<exists>a b pa pb bs ts.
        arms c = (a, b) \<and> buildPlan (mc_plan M) a = Inr pa \<and> buildPlan (mc_plan M) b = Inr pb
      \<and> pe_Baseline pe = Some (buildTrialSet (mc_math M) (mc_stamp M) bs (xc_Warmup c))
      \<and> pe_Treatment pe = Some (buildTrialSet (mc_math M) (mc_stamp M) ts (xc_Warmup c))
      \<and> int (length bs) = xc_Trials c \<and> int (length ts) = xc_Trials c \<and> int (length (pe_PairOrder pe)) = xc_Trials c
      \<and> set (pe_PairOrder pe) \<subseteq> {ArmBaseline, ArmTreatment}
      \<and> (\<forall>r \<in> set bs. produced (runOnce M pa (stg_Hosts a)) r) \<and> (\<forall>r \<in> set ts. produced (runOnce M pb (stg_Hosts b)) r)
      \<and> pe_TreatmentVariables pe = treatmentVariables (mc_ftoa M) a b)"

definition paired_json :: "paired_experiment \<Rightarrow> json_file" where
  "paired_json pe = \<lparr>jf_probe = Some (False, True, True), jf_paired = Some pe, jf_trials = None, jf_results = None\<rparr>"


text \<open>
  A threshold that too few pairs cannot be held against, because the policy lets fewer trials pass
  than an interval needs, leaves the gate unassessed, and the command succeeds.
\<close>

lemma undecided_gate_exits_zero:
  assumes "0 < t" "comparable (pe_Eligibility pe)" "pe_TreatmentVariables pe \<noteq> []" "\<not> ms_CI95Available (pd_Delta (pe_Paired pe))"
  shows "rg_Verdict (evaluateRegression (Some pe) t) = RegressionNotAssessed
    \<and> regressionExitCode (rg_Verdict (evaluateRegression (Some pe) t)) = 0"
  using assms by (simp add: evaluateRegression_def Let_def regressionExitCode_def RegressionNotAssessed_def RegressionFail_def
      RegressionInconclusive_def)

section \<open>A sample machine\<close>

text \<open>A machine whose worker reports a fixed output, and a trace that is a header.\<close>

definition steady_worker :: "(unit, unit, unit, int) worker_api" where
  "steady_worker = \<lparr>wk_register = (\<lambda>_. Inr \<lparr>wi_Hostname = ''h'', wi_CPUs = 1, wi_Version = Version\<rparr>),
     wk_prepare = (\<lambda>p w. Some (w, Inr zeroPrepare)), wk_run = (\<lambda>u w. (w, None)),
     wk_collect = (\<lambda>w. (w, Inr (sample_worker ''h''))), wk_canceled = (\<lambda>_. False)\<rparr>"

definition header_lines :: "raw_line list" where
  "header_lines = [LJson (encode_header sample_header)]"

definition steady_coord :: "(unit, int) coord_env" where
  "steady_coord = \<lparr>ce_lines = (\<lambda>_. header_lines), ce_digest = (\<lambda>_. []), ce_hist = one_bucket, ce_query = sample_query,
     ce_stamp = sample_stamp, ce_unfold = [()], ce_delays = [3]\<rparr>"

definition steady_machine :: "(unit, unit, unit, unit, int) machine" where
  "steady_machine = \<lparr>mc_dial = (\<lambda>_ _. Inl []), mc_session = (\<lambda>_. ()), mc_api = steady_worker, mc_coord = (\<lambda>_. steady_coord),
     mc_after = (\<lambda>m _. m), mc_plan = \<lparr>pv_read = (\<lambda>_. Inr []), pv_lines = (\<lambda>_. header_lines), pv_yamlMap = (\<lambda>_. Inl []), pv_s3Load = None\<rparr>,
     mc_fails = (\<lambda>_. False), mc_tmp = ''.r.tmp'', mc_json = (\<lambda>_. ''{}''), mc_partial = [], mc_stdout = True, mc_csvFails = (\<lambda>_. False),
     mc_math = no_math, mc_ftoa = (\<lambda>_. []), mc_stamp = sample_stamp\<rparr>"

lemma header_read: "\<exists>r. newReader header_lines = Inr r"
proof -
  have "isl (newReader header_lines) = False" by code_simp
  then show ?thesis by (cases "newReader header_lines") auto
qed

lemma header_streams: "\<exists>h. parseTraceStreams header_lines = Inr (h, [])"
proof -
  have "map_sum (\<lambda>_. ()) snd (parseTraceStreams header_lines) = Inr []" by code_simp
  then show ?thesis by (cases "parseTraceStreams header_lines") auto
qed

definition sample_args :: run_args where
  "sample_args = \<lparr>ra_Settings = defaultRunSettings\<lparr>stg_TracePath := ''t''\<rparr>, ra_OutPath = ''r'', ra_CSVPath = [], ra_Trials = 1, ra_Warmup = 0\<rparr>"

lemma steady_plan: "\<exists>plan. buildPlan (mc_plan steady_machine) (defaultRunSettings\<lparr>stg_TracePath := ''t''\<rparr>) = Inr plan \<and> cl_PrepareScope plan = []
    \<and> es_Name (cl_Engine plan) = ''mem''"
proof -
  obtain r where r: "newReader header_lines = Inr r" using header_read by blast
  have v: "validateSettings (defaultRunSettings\<lparr>stg_TracePath := ''t''\<rparr>) = None" by code_simp
  show ?thesis using v r
    by (simp add: buildPlan_def steady_machine_def buildRunEngine_def buildEngine_def planOf_def Let_def)
       (simp add: defaultRunSettings_def DefaultSeed_def)
qed

lemma steady_run:
  assumes "cl_PrepareScope plan = []" "es_Name (cl_Engine plan) = ''mem''"
  shows "\<exists>res. runOnce steady_machine plan [] () = Some ((), Inr res)"
proof -
  obtain h where h: "parseTraceStreams header_lines = Inr (h, [])" using header_streams by blast
  have s: "resolvePrepareScope plan = PrepareScopePerWorker" using assms by (simp add: resolvePrepareScope_def PrepareScopeShared_def PrepareScopePerWorker_def)
  have ws: "buildWorkers steady_machine () [] = Inr [()]"
    by (simp add: buildWorkers_def splitHosts_def steady_machine_def) code_simp
  show ?thesis unfolding runOnce_def ws
    by (simp add: steady_machine_def coordinatorRun_def coordinatorPrepare_def steady_coord_def h s steady_worker_def prepareWorkers_def
        partitionStreams_def firstRunError_def PrepareScopeShared_def PrepareScopePerWorker_def Let_def)
qed


text \<open>An experiment of two pairs whose arms are the same.\<close>

definition no_overrides :: arm_config where
  "no_overrides = \<lparr>ac_Trace = None, ac_Engine = None, ac_Mode = None, ac_MaxInflight = None, ac_Speedup = None, ac_TargetMap = None,
     ac_TargetRoot = None, ac_AllowPassthrough = None, ac_Prepare = None, ac_PrepareScope = None, ac_SourceRoot = None,
     ac_CacheMode = None, ac_Fill = None, ac_FillSeed = None, ac_Hosts = None, ac_Bucket = None, ac_Endpoint = None,
     ac_Region = None, ac_PathStyle = None\<rparr>"

definition sample_experiment :: exp_config where
  "sample_experiment = \<lparr>xc_Claim = [], xc_Trials = 2, xc_Warmup = 1, xc_Seed = 7, xc_MinTrials = None, xc_MaxCVPercent = None,
     xc_MaxDurationRegressionPercent = Some 7, xc_Run = no_overrides\<lparr>ac_Trace := Some ''t''\<rparr>, xc_Baseline = no_overrides,
     xc_Treatment = no_overrides\<rparr>"

definition coin :: "nat arm_rng" where
  "coin = \<lparr>xr_new = nat, xr_intn = (\<lambda>b g. (int g mod b, g + 1))\<rparr>"

lemma sample_arms:
  "arms sample_experiment = (defaultRunSettings\<lparr>stg_TracePath := ''t''\<rparr>, defaultRunSettings\<lparr>stg_TracePath := ''t''\<rparr>)"
  by (simp add: arms_def Let_def sample_experiment_def applyTo_def no_overrides_def setTo_def defaultRunSettings_def zeroS3_def)

lemma steady_round: "once ArmBaseline m = Some (m, Inr r) \<Longrightarrow> once ArmTreatment m = Some (m, Inr r) \<Longrightarrow>
    orderedArms R g = (order, g') \<Longrightarrow> runRound once order m = Some (m, Inr (r, r))"
  using orderedArms_cases [of R g order g'] by (auto simp: runRound_def)

lemma steady_loops:
  assumes "once ArmBaseline m = Some (m, Inr r)" "once ArmTreatment m = Some (m, Inr r)"
  shows "\<exists>g'. warmupLoop R once n g m = Some (m, Inr g')" "\<exists>acc'. pairLoop R once n g acc m = Some (m, Inr acc')"
proof (induction n arbitrary: g acc)
  case (Suc n)
  { case 1
    obtain order g1 where order: "orderedArms R g = (order, g1)" by fastforce
    show ?case using Suc(1) [of g1] steady_round [where once = once and m = m and r = r, OF assms order] order by simp }
  { case 2
    obtain order g1 where order: "orderedArms R g = (order, g1)" by fastforce
    show ?case using Suc(2) steady_round [where once = once and m = m and r = r, OF assms order] order by (cases acc) simp }
qed auto


end
