(* ===== verification/Import_Steps.thy ===== *)
theory Import_Steps
  imports Import_Inv
begin

text \<open>
  What an importer does to its builder and descriptor table, operation by operation: each keeps
  the import invariant. The locale \<open>importer\<close> is the contract between a parser of a log format and
  the builder: the parser starts from an empty builder, and every line keeps the invariant. From
  that alone what the builder writes is a valid trace.
\<close>

section \<open>Keeping the invariant\<close>

text \<open>No op is lost, and the invariant is kept while op counts fit an int64.\<close>

definition keeps :: "builder \<times> fd_table \<Rightarrow> builder \<times> fd_table \<Rightarrow> bool" where
  "keeps s s' \<longleftrightarrow> length (allOps (fst s)) \<le> length (allOps (fst s'))
     \<and> (import_inv (fst s) (snd s) \<and> int (length (allOps (fst s'))) < 2 ^ 63 \<longrightarrow> import_inv (fst s') (snd s'))"

lemma keeps_refl [simp, intro]: "keeps s s"
  by (simp add: keeps_def)

lemma keeps_trans [trans]: "keeps s s' \<Longrightarrow> keeps s' s'' \<Longrightarrow> keeps s s''"
  by (auto simp: keeps_def)

lemma allOps_report [simp]: "allOps (bdSkip r b) = allOps b" "allOps (bdNote r b) = allOps b"
  by (simp_all add: allOps_def bdSkip_def bdNote_def)

lemma opsAt_report [simp]: "opsAt (bdNote r b) s = opsAt b s" "bd_targets (bdNote r b) = bd_targets b"
  by (simp_all add: opsAt_def streamAt_def bdNote_def)

lemma keeps_report [simp, intro]: "keeps (b, t) (bdSkip r b, t)" "keeps (b, t) (bdNote r b, t)"
  by (simp_all add: keeps_def)

lemma keeps_table [simp, intro]:
  "keeps (b, t) (b, fdOpenDir s fd path t)" "keeps (b, t) (b, fdAdvance s fd n t)"
  "keeps (b, t) (b, fdSetCursor s fd n t)" "keeps (b, t) (b, fst (fdClose s fd t))"
  by (simp_all add: keeps_def import_inv_fd)

lemma bdTarget_keeps:
  assumes "bdTarget path TargetFile b = (b', i)"
  shows "length (allOps b') = length (allOps b)"
    "import_inv b t \<Longrightarrow> import_inv b' t \<and> 0 \<le> i \<and> i < int (length (bd_targets b'))"
  using assms import_inv_target [of b t path TargetFile b' i]
  by (auto simp: bdTarget_def Let_def allOps_def split: option.splits)

text \<open>An op that opens no handle and closes none.\<close>

lemma keeps_add:
  assumes "import_inv b t \<Longrightarrow> shaped (bd_targets b) (opsAt b (op_s x)) x
      \<and> (op_h x = None \<or> (\<exists>h. op_h x = Some h \<and> live (opsAt b (op_s x)) (op_s x) h))"
    "op_op x \<noteq> OpClose"
  shows "keeps (b, t) (bdAdd x b, t)"
proof -
  have "\<forall>h. \<not> closes h x" using assms(2) by (simp add: closes_def)
  with assms(1) show ?thesis by (auto simp: keeps_def length_allOps_add intro!: import_inv_add)
qed

lemma keeps_open:
  assumes b: "bdTarget path TargetFile b = (b1, tgt)" and f: "fdOpen s fd tgt path app t = (t1, h)" and x: "is_open_op x s tgt h"
  shows "keeps (b, t) (bdAdd x b1, t1)"
proof -
  have "import_inv (bdAdd x b1) t1" if "import_inv b t" "int (length (allOps b)) + 1 < 2 ^ 63"
    using import_inv_open [OF _ f x] bdTarget_keeps(2) [OF b that(1)] bdTarget_keeps(1) [OF b] that(2) by simp
  then show ?thesis by (simp add: keeps_def length_allOps_add bdTarget_keeps(1) [OF b])
qed

lemma keeps_stat:
  assumes b: "bdTarget path TargetFile b = (b1, tgt)"
    and x: "x = zero_op\<lparr>op_t := t, op_s := s, op_op := OpStat, op_tgt := Some tgt, op_dur := dur\<rparr>"
  shows "keeps (b, fdt) (bdAdd x b1, fdt)"
proof -
  have "keeps (b, fdt) (b1, fdt)" using bdTarget_keeps [OF b] by (simp add: keeps_def)
  moreover have "shaped (bd_targets b1) (opsAt b1 s) x" if "0 \<le> tgt" "tgt < int (length (bd_targets b1))"
    using that by (auto simp: x shaped_def body_spec_def zero_op_def target_ok_def targetsHeader_def no_position_def ret_spec_def numbers_ok_def)
  moreover have "import_inv b fdt \<Longrightarrow> 0 \<le> tgt \<and> tgt < int (length (bd_targets b1))" using bdTarget_keeps(2) [OF b] by blast
  ultimately show ?thesis
    using import_inv_add [of b1 fdt x] by (auto simp: keeps_def x length_allOps_add closes_def zero_op_def)
qed

lemma keeps_rw:
  assumes k: "kind = OpRead \<or> kind = OpWrite" and n: "0 < n" "n \<le> requested" "kind = OpWrite \<longrightarrow> requested = n"
    and live: "import_inv b t \<Longrightarrow> live (opsAt b s) s h"
    and x: "x = zero_op\<lparr>op_t := tNS, op_s := s, op_op := kind, op_h := Some h, op_off := Some off, op_len := Some requested,
              op_dur := dur, op_ret := (if requested \<noteq> n then Some n else None)\<rparr>"
  shows "keeps (b, t) (bdAdd x b, t)"
proof (rule keeps_add)
  assume inv: "import_inv b t"
  have "handle_ok (opsAt b s) x" using live [OF inv] by (simp add: x handle_ok_def zero_op_def)
  then have "kind_spec kind (targetsHeader (bd_targets b)) (opsAt b s) x" if "0 \<le> off"
    using k n(1,2) that by (auto simp: x zero_op_def nat_field_def)
  then show "shaped (bd_targets b) (opsAt b (op_s x)) x
      \<and> (op_h x = None \<or> (\<exists>h. op_h x = Some h \<and> live (opsAt b (op_s x)) (op_s x) h))"
    using k n live [OF inv]
    by (auto simp: x shaped_def body_spec_def ret_spec_def numbers_ok_def targetsHeader_def zero_header_def zero_op_def split: option.splits)
qed (use k x in auto)

lemma keeps_fsync:
  assumes "import_inv b t \<Longrightarrow> live (opsAt b s) s h"
    and "x = zero_op\<lparr>op_t := tNS, op_s := s, op_op := OpFsync, op_h := Some h, op_dur := dur\<rparr>"
  shows "keeps (b, t) (bdAdd x b, t)"
  by (rule keeps_add)
    (use assms in \<open>auto simp: shaped_def body_spec_def ret_spec_def numbers_ok_def handle_ok_def no_position_def zero_op_def\<close>)

lemma keeps_close:
  assumes c: "fdClose s fd t = (t1, Some h)"
    and x: "x = zero_op\<lparr>op_t := tNS, op_s := s, op_op := OpClose, op_h := Some h, op_dur := dur\<rparr>"
  shows "keeps (b, t) (bdAdd x b, t1)"
proof -
  have "shaped (bd_targets b) (opsAt b s) x" if "live (opsAt b s) s h"
    using that by (auto simp: x shaped_def body_spec_def ret_spec_def numbers_ok_def handle_ok_def no_position_def zero_op_def)
  then have "import_inv (bdAdd x b) t1" if "import_inv b t"
    using import_inv_close [OF that c, of x] by (simp add: x)
  then show ?thesis by (simp add: keeps_def length_allOps_add)
qed

lemma resolve_advance:
  assumes "fdResolve s fd t = Some e" "fe_HasHandle e" "import_inv b (fdAdvance s fd n t)"
  shows "live (opsAt b s) s (fe_Handle e)"
proof -
  have "fdResolve s fd (fdAdvance s fd n t) = Some (e\<lparr>fe_Cursor := i64 (fe_Cursor e + n)\<rparr>)"
    using assms(1) by (simp add: fdResolve_def fdAdvance_def)
  from resolve_live [OF assms(3) this] assms(2) show ?thesis by simp
qed

section \<open>The importer's contract\<close>

text \<open>The numbers and names of the input fit the format, and its size fits int64 counters.\<close>

definition import_fits :: "builder \<Rightarrow> bool" where
  "import_fits b \<longleftrightarrow> list_all numbers_ok (allOps b) \<and> list_all (\<lambda>t. ti_name t \<noteq> []) (bd_targets b)
     \<and> int (length (bd_targets b)) < 2 ^ 63 \<and> sizes_ok b"

locale importer =
  fixes bld :: "'s \<Rightarrow> builder" and tab :: "'s \<Rightarrow> fd_table"
    and start :: "'i list \<Rightarrow> 's" and step :: "'i \<Rightarrow> 's \<Rightarrow> 's" and fin :: "'s \<Rightarrow> 's"
  assumes start_empty: "bld (start xs) = newBuilder" "tab (start xs) = newFDTable"
    and step_keeps: "keeps (bld s, tab s) (bld (step x s), tab (step x s))"
    and fin_keeps: "keeps (bld s, tab s) (bld (fin s), tab (fin s))"
begin

lemma fold_keeps: "keeps (bld s, tab s) (bld (foldl (\<lambda>s x. step x s) s xs), tab (foldl (\<lambda>s x. step x s) s xs))"
proof (induction xs arbitrary: s)
  case (Cons x xs)
  from keeps_trans [OF step_keeps Cons.IH] show ?case by simp
qed simp

lemma run_inv:
  assumes "int (length (allOps (bld (fin (foldl (\<lambda>s x. step x s) (start xs) xs))))) < 2 ^ 63"
  shows "import_inv (bld (fin (foldl (\<lambda>s x. step x s) (start xs) xs))) (tab (fin (foldl (\<lambda>s x. step x s) (start xs) xs)))"
proof -
  have "keeps (newBuilder, newFDTable) (bld (fin (foldl (\<lambda>s x. step x s) (start xs) xs)), tab (fin (foldl (\<lambda>s x. step x s) (start xs) xs)))"
    using keeps_trans [OF fold_keeps fin_keeps, of "start xs" xs] by (simp add: start_empty)
  then show ?thesis using assms import_inv_new by (simp add: keeps_def)
qed

lemma run_valid:
  assumes "import_fits (bld (fin (foldl (\<lambda>s x. step x s) (start xs) xs)))" "meta_ok meta"
  shows "\<exists>out rep ops. writeTo True meta (bld (fin (foldl (\<lambda>s x. step x s) (start xs) xs))) = Inr (out, rep) \<and> written_as out ops
    \<and> ir_NumOps rep = int (length ops)
    \<and> (\<forall>s. map untimed (stream_of s ops) = map (untimed \<circ> so_op) (streamAt (bld (fin (foldl (\<lambda>s x. step x s) (start xs) xs))) s))"
proof -
  let ?b = "bld (fin (foldl (\<lambda>s x. step x s) (start xs) xs))"
  have sz: "sizes_ok ?b" using assms(1) by (simp add: import_fits_def)
  then have "builder_ok ?b"
    using run_inv [of xs] assms(1) by (intro import_builder_ok) (auto simp: import_fits_def sizes_ok_def list_all_iff)
  from writeTo_valid [OF this sz assms(2), of True] show ?thesis by auto
qed

end

end
