(* ===== verification/Strace_Scan.thy ===== *)
theory Strace_Scan
  imports Importer
begin

text \<open>
  The lexical layer of the strace importer, \<open>pkg/importer/strace/scan.go\<close>. The index loops are
  recursions over the rest of the line with the index carried along.
\<close>

section \<open>Calls and arguments\<close>

definition backslash :: char where "backslash = CHR 0x5C"
definition dquote :: char where "dquote = CHR 0x22"
definition comma :: char where "comma = CHR '',''"

definition isOpenBracket :: "char \<Rightarrow> bool" where
  "isOpenBracket c \<longleftrightarrow> c = CHR ''('' \<or> c = CHR ''['' \<or> c = CHR ''{''"

definition isCloseBracket :: "char \<Rightarrow> bool" where
  "isCloseBracket c \<longleftrightarrow> c = CHR '')'' \<or> c = CHR '']'' \<or> c = CHR ''}''"

text \<open>\<open>findMatchingParen\<close> from index \<open>i\<close> on, in or outside a quoted string; \<open>None\<close> is \<open>-1\<close>.\<close>

fun findParenLoop :: "string \<Rightarrow> int \<Rightarrow> bool \<Rightarrow> nat \<Rightarrow> nat option" where
  "findParenLoop [] depth inStr i = None"
| "findParenLoop (c # s) depth True i =
     (if c = backslash then (case s of [] \<Rightarrow> None | d # s' \<Rightarrow> findParenLoop s' depth True (i + 2))
      else findParenLoop s depth (c \<noteq> dquote) (i + 1))"
| "findParenLoop (c # s) depth False i =
     (if c = dquote then findParenLoop s depth True (i + 1)
      else if isOpenBracket c then findParenLoop s (depth + 1) False (i + 1)
      else if isCloseBracket c then (if depth - 1 = 0 then Some i else findParenLoop s (depth - 1) False (i + 1))
      else findParenLoop s depth False (i + 1))"

definition findMatchingParen :: "string \<Rightarrow> nat \<Rightarrow> nat option" where
  "findMatchingParen s openIdx = findParenLoop (drop openIdx s) 0 False openIdx"

definition splitCall :: "string \<Rightarrow> (string \<times> string \<times> string) option" where
  "splitCall s =
     (let open' = strIndex s ''('' in
      if open' \<le> 0 then None
      else (case findMatchingParen s (nat open') of
              None \<Rightarrow> None
            | Some close \<Rightarrow>
                let name = trimSpace (take (nat open') s);
                    args = drop (nat open' + 1) (take close s);
                    tail = trimSpace (drop (close + 1) s)
                in if \<not> hasPrefix tail ''='' then None
                   else let ret = trimSpace (drop 1 tail) in
                     if name \<noteq> [] \<and> ret \<noteq> [] then Some (name, args, ret) else None))"

text \<open>The loop of \<open>splitArgs\<close>: \<open>cur\<close> is the argument being read, \<open>args[start:i]\<close>.\<close>

fun splitArgsLoop :: "string \<Rightarrow> int \<Rightarrow> bool \<Rightarrow> string \<Rightarrow> string list \<Rightarrow> string list" where
  "splitArgsLoop [] depth inStr cur out = out @ [trimSpace cur]"
| "splitArgsLoop (c # s) depth True cur out =
     (if c = backslash then (case s of [] \<Rightarrow> out @ [trimSpace (cur @ [c])] | d # s' \<Rightarrow> splitArgsLoop s' depth True (cur @ [c, d]) out)
      else splitArgsLoop s depth (c \<noteq> dquote) (cur @ [c]) out)"
| "splitArgsLoop (c # s) depth False cur out =
     (if c = dquote then splitArgsLoop s depth True (cur @ [c]) out
      else if isOpenBracket c then splitArgsLoop s (depth + 1) False (cur @ [c]) out
      else if isCloseBracket c then splitArgsLoop s (depth - 1) False (cur @ [c]) out
      else if c = comma \<and> depth = 0 then splitArgsLoop s depth False [] (out @ [trimSpace cur])
      else splitArgsLoop s depth False (cur @ [c]) out)"

definition splitArgs :: "string \<Rightarrow> string list" where
  "splitArgs args = (let a = trimSpace args in if a = [] then [] else splitArgsLoop a 0 False [] [])"

section \<open>Quoted strings\<close>

definition isOctal :: "char \<Rightarrow> bool" where
  "isOctal c \<longleftrightarrow> 48 \<le> byte_of c \<and> byte_of c \<le> 55"

definition byteChar :: "int \<Rightarrow> char" where
  "byteChar v = char_of (nat (v mod 256))"

definition decodeOctal :: "string \<Rightarrow> string \<times> nat" where
  "decodeOctal s =
     (let ds = takeWhile isOctal (take 3 s); n = length ds in
      if n = 0 then ([], 1) else ([byteChar (digitsVal 8 ds)], n))"

definition decodeEscape :: "string \<Rightarrow> string \<times> nat" where
  "decodeEscape s =
     (let c = hd s in
      if c = CHR ''n'' then ([CHR 0x0A], 1)
      else if c = CHR ''t'' then ([CHR 0x09], 1)
      else if c = CHR ''r'' then ([CHR 0x0D], 1)
      else if c = CHR ''0'' then decodeOctal s
      else if c = CHR 0x5C then ([CHR 0x5C], 1)
      else if c = CHR 0x22 then ([CHR 0x22], 1)
      else if c = CHR ''x'' then
        (case s of
           _ # h # l # _ \<Rightarrow> (case (hexVal h, hexVal l) of
                (Some a, Some b) \<Rightarrow> ([byteChar (16 * a + b)], 3)
              | _ \<Rightarrow> (''x'', 1))
         | _ \<Rightarrow> (''x'', 1))
      else if 49 \<le> byte_of c \<and> byte_of c \<le> 55 then decodeOctal s
      else (runeString c, 1))"

lemma decodeOctal_consumes: "0 < snd (decodeOctal s)"
  by (simp add: decodeOctal_def Let_def)

lemma decodeEscape_consumes: "0 < snd (decodeEscape s)"
  using decodeOctal_consumes [of s]
  by (simp add: decodeEscape_def Let_def split: list.split option.split)

function parseQuotedLoop :: "string \<Rightarrow> string \<Rightarrow> string" where
  "parseQuotedLoop [] out = out"
| "parseQuotedLoop (c # s) out =
     (if c = dquote then out
      else if c = backslash \<and> s \<noteq> [] then
        (case decodeEscape s of (n, consumed) \<Rightarrow> parseQuotedLoop (drop consumed s) (out @ n))
      else parseQuotedLoop s (out @ [c]))"
  by pat_completeness auto
termination
  by (relation "measure (\<lambda>(s, out). length s)")
    (auto simp: less_Suc_eq_le split: prod.splits)

definition parseQuoted :: "string \<Rightarrow> string option" where
  "parseQuoted arg = (if length arg < 2 \<or> hd arg \<noteq> dquote then None else Some (parseQuotedLoop (tl arg) []))"

section \<open>Numbers\<close>

definition parseLeadingInt :: "string \<Rightarrow> int option" where
  "parseLeadingInt s0 =
     (let s = trimSpace s0;
          sg = (if s \<noteq> [] \<and> (hd s = CHR ''-'' \<or> hd s = CHR ''+'') then [hd s] else []);
          ds = takeWhile isDigit (drop (length sg) s)
      in if ds = [] then None else parseInt64 (sg @ ds))"

definition splitFdArg :: "string \<Rightarrow> (int \<times> string) option" where
  "splitFdArg s =
     (case parseLeadingInt s of
        None \<Rightarrow> None
      | Some fd \<Rightarrow>
          let i = strIndex s ''<''; j = lastIndexByte s (CHR ''>''); d = drop (nat i + 1) (take (nat j) s)
          in Some (fd, if 0 \<le> i \<and> i < j \<and> hasPrefix d ''/'' then d else []))"

lemma parseLeadingInt_in64: "parseLeadingInt s = Some v \<Longrightarrow> in64 v"
  by (auto simp: parseLeadingInt_def Let_def dest: parseInt64_in64 split: if_splits)

lemma splitFdArg_in64: "splitFdArg s = Some (fd, p) \<Longrightarrow> in64 fd"
  by (auto simp: splitFdArg_def Let_def dest: parseLeadingInt_in64 split: option.splits)

end
