(* ===== verification/Strace.thy ===== *)
theory Strace
  imports Strace_Scan Float64
begin

text \<open>
  The strace importer, \<open>pkg/importer/strace/parse.go\<close>: a line-driven parser that keeps a
  descriptor table and feeds a trace builder. A Go method that mutates the parser is a function
  to the new parser. The input is the list of lines the scanner delivers and whether it stopped
  with an error.
\<close>

section \<open>State\<close>

record pending =
  pd_name :: string
  pd_args :: string
  pd_tNS :: int

record parser =
  sp_b :: builder
  sp_fdt :: fd_table
  sp_dayOffset :: int
  sp_prevAbs :: int
  sp_havePrev :: bool
  sp_pidToStream :: "(int \<times> int) list"
  sp_streamOrder :: "int list"
  sp_nextStream :: int
  sp_unfinished :: "(int \<times> pending) list"
  sp_parsedSyscalls :: int
  sp_lineUnparsed :: int

definition nsPerDay :: int where
  "nsPerDay = 24 * 3600 * 1000000000"

definition newParser :: parser where
  "newParser = \<lparr>sp_b = newBuilder, sp_fdt = newFDTable, sp_dayOffset = 0, sp_prevAbs = 0, sp_havePrev = False,
     sp_pidToStream = [], sp_streamOrder = [], sp_nextStream = 0, sp_unfinished = [], sp_parsedSyscalls = 0,
     sp_lineUnparsed = 0\<rparr>"

definition skipOp :: "string \<Rightarrow> parser \<Rightarrow> parser" where
  "skipOp reason p = p\<lparr>sp_b := bdSkip reason (sp_b p)\<rparr>"

definition addOp :: "op \<Rightarrow> parser \<Rightarrow> parser" where
  "addOp x p = p\<lparr>sp_b := bdAdd x (sp_b p)\<rparr>"

definition unparsedLine :: "parser \<Rightarrow> parser" where
  "unparsedLine p = (skipOp ''unparsed_line'' p)\<lparr>sp_lineUnparsed := sp_lineUnparsed p + 1\<rparr>"

definition streamFor :: "int \<Rightarrow> parser \<Rightarrow> parser \<times> int" where
  "streamFor pid p =
     (case map_of (sp_pidToStream p) pid of
        Some sid \<Rightarrow> (p, sid)
      | None \<Rightarrow>
          let sid = sp_nextStream p in
          (p\<lparr>sp_nextStream := sp_nextStream p + 1, sp_pidToStream := AList.update pid sid (sp_pidToStream p),
             sp_streamOrder := sp_streamOrder p @ [pid]\<rparr>, sid))"

section \<open>Fields of a line\<close>

definition splitPID :: "string \<Rightarrow> int \<times> string" where
  "splitPID s =
     (let ds = takeWhile isDigit s; r = dropWhile isDigit s in
      if ds \<noteq> [] \<and> r \<noteq> [] \<and> (hd r = CHR 0x20 \<or> hd r = CHR 0x09)
      then (case parseLeadingInt ds of Some v \<Rightarrow> (v, trimLeft r [CHR 0x20, CHR 0x09]) | None \<Rightarrow> (0, s))
      else (0, s))"

definition isDigits :: "string \<Rightarrow> bool" where
  "isDigits s \<longleftrightarrow> list_all isDigit s \<and> s \<noteq> []"

definition intOr0 :: "string \<Rightarrow> int" where
  "intOr0 s = (case parseLeadingInt s of None \<Rightarrow> 0 | Some v \<Rightarrow> v)"

definition fracToNS :: "string \<Rightarrow> int" where
  "fracToNS frac0 =
     (if frac0 = [] then 0
      else let frac = take 9 frac0 in
        (case parseLeadingInt frac of None \<Rightarrow> 0 | Some v \<Rightarrow> v * 10 ^ (9 - length frac)))"

definition applyRollover :: "int \<Rightarrow> parser \<Rightarrow> parser \<times> int" where
  "applyRollover tod p =
     (let abs0 = i64 (tod + sp_dayOffset p);
          jump = sp_havePrev p \<and> abs0 < i64 (sp_prevAbs p - go_div nsPerDay 2);
          day = (if jump then i64 (sp_dayOffset p + nsPerDay) else sp_dayOffset p);
          abs1 = (if jump then i64 (tod + day) else abs0)
      in (p\<lparr>sp_dayOffset := day, sp_prevAbs := abs1, sp_havePrev := True\<rparr>, abs1))"

definition blanks :: string where "blanks = [CHR 0x20, CHR 0x09]"

definition isTimeOfDay :: "string \<Rightarrow> bool" where
  "isTimeOfDay s \<longleftrightarrow> 8 \<le> length s \<and> s ! 2 = CHR '':'' \<and> s ! 5 = CHR '':''
     \<and> isDigits (take 2 s) \<and> isDigits (take 2 (drop 3 s)) \<and> isDigits (take 2 (drop 6 s))"

definition parseTimePrefix :: "string \<Rightarrow> parser \<Rightarrow> (parser \<times> int \<times> string) option" where
  "parseTimePrefix s p =
     (if isTimeOfDay s then
        (let hh = intOr0 (take 2 s); mm = intOr0 (take 2 (drop 3 s)); ss = intOr0 (take 2 (drop 6 s));
             r = drop 8 s;
             dot = (r \<noteq> [] \<and> hd r = CHR ''.'');
             frac = (if dot then fracToNS (takeWhile isDigit (tl r)) else 0);
             body = (if dot then dropWhile isDigit (tl r) else r);
             (p', t) = applyRollover ((hh * 3600 + mm * 60 + ss) * 1000000000 + frac) p
         in Some (p', t, trimLeft body blanks))
      else
        (let ds = takeWhile isDigit s; r = dropWhile isDigit s in
         if ds \<noteq> [] \<and> r \<noteq> [] \<and> hd r = CHR ''.'' then
           Some (p, i64 (i64 (intOr0 ds * 1000000000) + fracToNS (takeWhile isDigit (tl r))), trimLeft (dropWhile isDigit (tl r)) blanks)
         else None))"

definition failedRet :: "string \<Rightarrow> bool" where
  "failedRet ret \<longleftrightarrow> (case parseLeadingInt ret of None \<Rightarrow> False | Some n \<Rightarrow> n < 0)"

definition splitRetDuration :: "string \<Rightarrow> string \<times> int option" where
  "splitRetDuration ret0 =
     (let ret = trimSpace ret0; open' = lastIndexByte ret (CHR ''<'') in
      if \<not> hasSuffix ret ''>'' \<or> open' < 0 then (ret, None)
      else (case parseFloat (trimSpace (drop (nat open' + 1) (take (length ret - 1) ret))) of
              None \<Rightarrow> (ret, None)
            | Some secs \<Rightarrow> if secs < 0 then (ret, None)
                else (trimSpace (take (nat open') ret), Some (int64_of (f64_mult secs 1000000000)))))"

definition structField :: "string \<Rightarrow> string \<Rightarrow> string option" where
  "structField s field =
     (let i = strIndex s (field @ ''='') in
      if i < 0 then None
      else Some (trimSpace (takeWhile (\<lambda>c. c \<noteq> CHR '','' \<and> c \<noteq> CHR ''}'') (drop (nat i + length field + 1) s))))"

text \<open>Mode, modelled flags in the code's fixed order, \<open>isDir\<close> and \<open>isApp\<close>.\<close>

definition straceOpenFlags :: "string \<Rightarrow> mode \<times> string list \<times> bool \<times> bool" where
  "straceOpenFlags flagStr =
     (let fs = map trimSpace (splitOn flagStr (CHR ''|''));
          m = foldl (\<lambda>m f. if f = ''O_WRONLY'' then ModeWrite else if f = ''O_RDWR'' then ModeReadWrite else m) ModeRead fs;
          isApp = ''O_APPEND'' \<in> set fs
      in (m, (if ''O_DIRECT'' \<in> set fs then [''direct''] else [])
             @ (if ''O_CREAT'' \<in> set fs then [''create''] else [])
             @ (if ''O_TRUNC'' \<in> set fs then [''trunc''] else [])
             @ (if isApp then [''append''] else [])
             @ (if ''O_SYNC'' \<in> set fs \<or> ''O_DSYNC'' \<in> set fs then [''sync''] else []),
          ''O_DIRECTORY'' \<in> set fs, isApp))"

definition argAt :: "string list \<Rightarrow> nat \<Rightarrow> string" where
  "argAt a i = (if i < length a then a ! i else [])"

section \<open>Paths\<close>

definition fdTarget :: "int \<Rightarrow> string \<Rightarrow> parser \<Rightarrow> string option" where
  "fdTarget s fdArg p =
     (case splitFdArg fdArg of
        None \<Rightarrow> None
      | Some (fd, deco) \<Rightarrow>
          (case fdPathFor s fd (sp_fdt p) of
             Some path \<Rightarrow> Some path
           | None \<Rightarrow> if deco \<noteq> [] then Some deco else None))"

definition resolveAt :: "int \<Rightarrow> string \<Rightarrow> string \<Rightarrow> parser \<Rightarrow> string option" where
  "resolveAt s dirfdArg path p =
     (if hasPrefix path ''/'' then Some path
      else if hasPrefix dirfdArg ''AT_FDCWD'' then Some path
      else (case splitFdArg dirfdArg of
              None \<Rightarrow> None
            | Some (fd, deco) \<Rightarrow>
                (case (case fdPathFor s fd (sp_fdt p) of Some dir \<Rightarrow> Some dir | None \<Rightarrow> if deco = [] then None else Some deco) of
                   None \<Rightarrow> None
                 | Some dir \<Rightarrow> Some (trimRight dir ''/'' @ ''/'' @ path))))"

section \<open>System calls\<close>

definition emitOpen :: "int \<Rightarrow> int \<Rightarrow> int \<Rightarrow> string \<Rightarrow> bool \<Rightarrow> mode \<Rightarrow> string list \<Rightarrow> int option \<Rightarrow> parser \<Rightarrow> parser" where
  "emitOpen s t fd path isApp m flags dur p =
     (let (b, tgt) = bdTarget path TargetFile (sp_b p);
          (fdt, h) = fdOpen s fd tgt path isApp (sp_fdt p)
      in addOp (zero_op\<lparr>op_t := t, op_s := s, op_op := OpOpen, op_tgt := Some tgt, op_h := Some h, op_mode := m,
                 op_flags := flags, op_dur := dur\<rparr>) (p\<lparr>sp_b := b, sp_fdt := fdt\<rparr>))"

definition doOpen :: "int \<Rightarrow> int \<Rightarrow> string list \<Rightarrow> string \<Rightarrow> int option \<Rightarrow> bool \<Rightarrow> bool \<Rightarrow> parser \<Rightarrow> parser" where
  "doOpen s t a ret dur isAt how p =
     (case parseLeadingInt ret of
        None \<Rightarrow> skipOp ''failed_open'' p
      | Some fd \<Rightarrow>
          if fd < 0 then skipOp ''failed_open'' p
          else if length a < (if isAt then 3 else 2) then skipOp ''unparsed_line'' p
          else
            let dirfdArg = (if isAt then a ! 0 else []);
                pathArg = (if isAt then a ! 1 else a ! 0);
                flagStr = (if isAt then (if how then (case structField (a ! 2) ''flags'' of Some f \<Rightarrow> f | None \<Rightarrow> []) else a ! 2) else a ! 1)
            in (case parseQuoted pathArg of
                  None \<Rightarrow> skipOp ''unparsed_line'' p
                | Some path0 \<Rightarrow>
                    (case (if isAt then resolveAt s dirfdArg path0 p else Some path0) of
                       None \<Rightarrow> skipOp ''unresolved_dirfd'' p
                     | Some path \<Rightarrow>
                         let (m, flags, isDir, isApp) = straceOpenFlags flagStr in
                         if isDir then p\<lparr>sp_fdt := fdOpenDir s fd path (sp_fdt p)\<rparr>
                         else emitOpen s t fd path isApp m flags dur p)))"

definition doCreat :: "int \<Rightarrow> int \<Rightarrow> string list \<Rightarrow> string \<Rightarrow> int option \<Rightarrow> parser \<Rightarrow> parser" where
  "doCreat s t a ret dur p =
     (case parseLeadingInt ret of
        None \<Rightarrow> skipOp ''failed_open'' p
      | Some fd \<Rightarrow>
          if fd < 0 then skipOp ''failed_open'' p
          else if a = [] then skipOp ''unparsed_line'' p
          else (case parseQuoted (a ! 0) of
                  None \<Rightarrow> skipOp ''unparsed_line'' p
                | Some path \<Rightarrow> emitOpen s t fd path False ModeWrite [''create'', ''trunc''] dur p))"

definition emitRW :: "int \<Rightarrow> int \<Rightarrow> op_kind \<Rightarrow> int \<Rightarrow> int \<Rightarrow> int \<Rightarrow> int \<Rightarrow> int option \<Rightarrow> parser \<Rightarrow> parser" where
  "emitRW s t kind h off requested n dur p =
     addOp (zero_op\<lparr>op_t := t, op_s := s, op_op := kind, op_h := Some h, op_off := Some off, op_len := Some requested,
              op_dur := dur, op_ret := (if requested \<noteq> n then Some n else None)\<rparr>) p"

text \<open>The transfer of \<open>n > 0\<close> bytes through the descriptor \<open>fd\<close> that resolved to \<open>e\<close>.\<close>

definition recordRW :: "int \<Rightarrow> int \<Rightarrow> string \<Rightarrow> string list \<Rightarrow> int option \<Rightarrow> op_kind \<Rightarrow> int \<Rightarrow> fd_entry \<Rightarrow> int \<Rightarrow> parser \<Rightarrow> parser" where
  "recordRW s t name a dur kind fd e n p =
     (let c = (if kind = OpRead then parseLeadingInt (argAt a 2) else Some n);
          requested = (case c of None \<Rightarrow> n | Some v \<Rightarrow> if v \<ge> n then v else n);
          p1 = (if c = None then p\<lparr>sp_b := bdNote LossyRequestedLenUnobservable (sp_b p)\<rparr> else p)
      in if hasPrefix name ''pread'' \<or> hasPrefix name ''pwrite'' then
           (if length a < 4 then skipOp ''unparsed_line'' p1
            else (case parseLeadingInt (a ! 3) of
                    None \<Rightarrow> skipOp ''unparsed_line'' p1
                  | Some off \<Rightarrow> emitRW s t kind (fe_Handle e) off requested n dur p1))
         else emitRW s t kind (fe_Handle e) (fe_Cursor e) requested n dur
                (p1\<lparr>sp_fdt := fdAdvance s fd n (sp_fdt p1)\<rparr>))"

definition doRW :: "int \<Rightarrow> int \<Rightarrow> string \<Rightarrow> string list \<Rightarrow> string \<Rightarrow> int option \<Rightarrow> op_kind \<Rightarrow> parser \<Rightarrow> parser" where
  "doRW s t name a ret dur kind p =
     (if a = [] then skipOp ''unparsed_line'' p
      else (case parseLeadingInt (a ! 0) of
        None \<Rightarrow> skipOp ''unparsed_line'' p
      | Some fd \<Rightarrow>
          (case fdResolve s fd (sp_fdt p) of
             None \<Rightarrow> skipOp ''unresolved_fd'' p
           | Some e \<Rightarrow>
               if \<not> fe_HasHandle e then skipOp ''unresolved_fd'' p
               else (case parseLeadingInt ret of
                  None \<Rightarrow> skipOp ''failed_syscall'' p
                | Some n \<Rightarrow>
                    if n < 0 then skipOp ''failed_syscall'' p
                    else if n = 0 then skipOp (if kind = OpRead then ''eof_read'' else ''failed_syscall'') p
                    else if kind = OpWrite \<and> fe_AppendMode e then skipOp ''append_write_unmodeled'' p
                    else recordRW s t name a dur kind fd e n p))))"

definition doClose :: "int \<Rightarrow> int \<Rightarrow> string list \<Rightarrow> string \<Rightarrow> int option \<Rightarrow> parser \<Rightarrow> parser" where
  "doClose s t a ret dur p =
     (if a = [] then p
      else (case parseLeadingInt (a ! 0) of
        None \<Rightarrow> p
      | Some fd \<Rightarrow>
          if failedRet ret then skipOp ''failed_syscall'' p
          else (case fdClose s fd (sp_fdt p) of
                  (fdt, None) \<Rightarrow> p\<lparr>sp_fdt := fdt\<rparr>
                | (fdt, Some h) \<Rightarrow>
                    addOp (zero_op\<lparr>op_t := t, op_s := s, op_op := OpClose, op_h := Some h, op_dur := dur\<rparr>) (p\<lparr>sp_fdt := fdt\<rparr>))))"

definition doFsync :: "int \<Rightarrow> int \<Rightarrow> string list \<Rightarrow> string \<Rightarrow> int option \<Rightarrow> parser \<Rightarrow> parser" where
  "doFsync s t a ret dur p =
     (if a = [] then skipOp ''unparsed_line'' p
      else (case parseLeadingInt (a ! 0) of
        None \<Rightarrow> skipOp ''unparsed_line'' p
      | Some fd \<Rightarrow>
          if failedRet ret then skipOp ''failed_syscall'' p
          else (case fdResolve s fd (sp_fdt p) of
                  None \<Rightarrow> skipOp ''unresolved_fd'' p
                | Some e \<Rightarrow>
                    if \<not> fe_HasHandle e then skipOp ''unresolved_fd'' p
                    else addOp (zero_op\<lparr>op_t := t, op_s := s, op_op := OpFsync, op_h := Some (fe_Handle e), op_dur := dur\<rparr>) p)))"

definition doLseek :: "int \<Rightarrow> string list \<Rightarrow> string \<Rightarrow> parser \<Rightarrow> parser" where
  "doLseek s a ret p =
     (if a = [] then p
      else (case parseLeadingInt (a ! 0) of
        None \<Rightarrow> p
      | Some fd \<Rightarrow>
          (case parseLeadingInt ret of
             None \<Rightarrow> p
           | Some pos \<Rightarrow> if pos < 0 then p else p\<lparr>sp_fdt := fdSetCursor s fd pos (sp_fdt p)\<rparr>)))"

definition emitStat :: "int \<Rightarrow> int \<Rightarrow> string \<Rightarrow> int option \<Rightarrow> parser \<Rightarrow> parser" where
  "emitStat s t path dur p =
     (let (b, tgt) = bdTarget path TargetFile (sp_b p)
      in addOp (zero_op\<lparr>op_t := t, op_s := s, op_op := OpStat, op_tgt := Some tgt, op_dur := dur\<rparr>) (p\<lparr>sp_b := b\<rparr>))"

definition doStatPath :: "int \<Rightarrow> int \<Rightarrow> string \<Rightarrow> string list \<Rightarrow> string \<Rightarrow> int option \<Rightarrow> parser \<Rightarrow> parser" where
  "doStatPath s t name a ret dur p =
     (if failedRet ret then skipOp ''failed_syscall'' p
      else
        let isAt = (name = ''statx'' \<or> name = ''newfstatat'') in
        if length a < (if isAt then 2 else 1) then skipOp ''unparsed_line'' p
        else (case parseQuoted (if isAt then a ! 1 else a ! 0) of
                None \<Rightarrow> skipOp ''unparsed_line'' p
              | Some path \<Rightarrow>
                  if \<not> isAt then emitStat s t path dur p
                  else if path = [] then
                    (case fdTarget s (a ! 0) p of None \<Rightarrow> skipOp ''unresolved_fd'' p | Some r \<Rightarrow> emitStat s t r dur p)
                  else
                    (case resolveAt s (a ! 0) path p of None \<Rightarrow> skipOp ''unresolved_dirfd'' p | Some r \<Rightarrow> emitStat s t r dur p)))"

definition doFstat :: "int \<Rightarrow> int \<Rightarrow> string list \<Rightarrow> string \<Rightarrow> int option \<Rightarrow> parser \<Rightarrow> parser" where
  "doFstat s t a ret dur p =
     (if failedRet ret then skipOp ''failed_syscall'' p
      else if a = [] then skipOp ''unparsed_line'' p
      else (case fdTarget s (a ! 0) p of
              None \<Rightarrow> skipOp ''unresolved_fd'' p
            | Some path \<Rightarrow> emitStat s t path dur p))"

datatype syscall = SysOpen bool bool | SysCreat | SysRW op_kind | SysClose | SysFsync | SysLseek | SysStat | SysFstat

text \<open>The names of the \<open>switch\<close> in \<open>handle\<close>.\<close>

definition syscallTable :: "(string \<times> syscall) list" where
  "syscallTable =
     [(''open'', SysOpen False False), (''open64'', SysOpen False False), (''openat'', SysOpen True False), (''openat2'', SysOpen True True),
      (''creat'', SysCreat),
      (''read'', SysRW OpRead), (''read64'', SysRW OpRead), (''pread64'', SysRW OpRead), (''pread'', SysRW OpRead),
      (''write'', SysRW OpWrite), (''write64'', SysRW OpWrite), (''pwrite64'', SysRW OpWrite), (''pwrite'', SysRW OpWrite),
      (''close'', SysClose), (''fsync'', SysFsync), (''fdatasync'', SysFsync),
      (''lseek'', SysLseek), (''lseek64'', SysLseek), (''_llseek'', SysLseek),
      (''stat'', SysStat), (''stat64'', SysStat), (''lstat'', SysStat), (''lstat64'', SysStat), (''access'', SysStat),
      (''statx'', SysStat), (''newfstatat'', SysStat),
      (''fstat'', SysFstat), (''fstat64'', SysFstat), (''fstatfs'', SysFstat)]"

fun runSyscall :: "syscall \<Rightarrow> int \<Rightarrow> int \<Rightarrow> string \<Rightarrow> string list \<Rightarrow> string \<Rightarrow> int option \<Rightarrow> parser \<Rightarrow> parser" where
  "runSyscall (SysOpen isAt how) s t name a ret dur p = doOpen s t a ret dur isAt how p"
| "runSyscall SysCreat s t name a ret dur p = doCreat s t a ret dur p"
| "runSyscall (SysRW kind) s t name a ret dur p = doRW s t name a ret dur kind p"
| "runSyscall SysClose s t name a ret dur p = doClose s t a ret dur p"
| "runSyscall SysFsync s t name a ret dur p = doFsync s t a ret dur p"
| "runSyscall SysLseek s t name a ret dur p = doLseek s a ret p"
| "runSyscall SysStat s t name a ret dur p = doStatPath s t name a ret dur p"
| "runSyscall SysFstat s t name a ret dur p = doFstat s t a ret dur p"

definition handleCall :: "int \<Rightarrow> int \<Rightarrow> string \<Rightarrow> string \<Rightarrow> string \<Rightarrow> parser \<Rightarrow> parser" where
  "handleCall pid tNS name args ret0 p0 =
     (let (p, s) = streamFor pid (p0\<lparr>sp_parsedSyscalls := sp_parsedSyscalls p0 + 1\<rparr>);
          (ret, dur) = splitRetDuration ret0;
          a = splitArgs args
      in (case map_of syscallTable name of
            None \<Rightarrow> p
          | Some c \<Rightarrow> runSyscall c s tNS name a ret dur p))"

section \<open>Lines\<close>

definition isMarker :: "string \<Rightarrow> bool" where
  "isMarker s \<longleftrightarrow> hasPrefix s ''---'' \<or> hasPrefix s ''+++''"

definition parseCall :: "int \<Rightarrow> int \<Rightarrow> string \<Rightarrow> parser \<Rightarrow> parser" where
  "parseCall pid tNS call p =
     (case splitCall call of
        None \<Rightarrow> skipOp ''unparsed_line'' p
      | Some (name, args, ret) \<Rightarrow> handleCall pid tNS name args ret p)"

definition parseBody :: "int \<Rightarrow> int \<Rightarrow> string \<Rightarrow> parser \<Rightarrow> parser" where
  "parseBody pid tNS body p =
     (let idx = strIndex body ''<unfinished ...>'' in
      if 0 \<le> idx then
        (let head = trimSpace (take (nat idx) body); open' = strIndex head ''('' in
         if open' \<le> 0 then skipOp ''unparsed_line'' p
         else p\<lparr>sp_unfinished := AList.update pid
                  \<lparr>pd_name = trimSpace (take (nat open') head), pd_args = drop (nat open' + 1) head, pd_tNS = tNS\<rparr>
                  (sp_unfinished p)\<rparr>)
      else if hasPrefix body ''<...'' then
        (let e = strIndex body ''resumed>'' in
         if e < 0 then skipOp ''unparsed_line'' p
         else (case map_of (sp_unfinished p) pid of
                 None \<Rightarrow> skipOp ''unparsed_line'' p
               | Some pend \<Rightarrow>
                   parseCall pid (pd_tNS pend) (pd_name pend @ ''('' @ pd_args pend @ trimSpace (drop (nat e + 8) body))
                     (p\<lparr>sp_unfinished := AList.delete pid (sp_unfinished p)\<rparr>)))
      else parseCall pid tNS body p)"

definition parseLine :: "string \<Rightarrow> parser \<Rightarrow> parser" where
  "parseLine raw p =
     (let rest0 = trimSpace (trimRight raw [CHR 0x0D, CHR 0x0A]) in
      if rest0 = [] then p
      else let (pid, rest) = splitPID rest0 in
        if isMarker rest then p
        else (case parseTimePrefix rest p of
                None \<Rightarrow> unparsedLine p
              | Some (p', tNS, body0) \<Rightarrow>
                  let body = trimSpace body0 in
                  if isMarker body then p' else parseBody pid tNS body p'))"

definition finish :: "parser \<Rightarrow> parser" where
  "finish p = (foldl (\<lambda>q _. skipOp ''unfinished_dropped'' q) p (sp_unfinished p))\<lparr>sp_unfinished := []\<rparr>"

fun streamNotes :: "(int \<times> int) list \<Rightarrow> int list \<Rightarrow> string" where
  "streamNotes m [] = []"
| "streamNotes m (pid # pids) =
     ''s'' @ itoa (case map_of m pid of None \<Rightarrow> 0 | Some s \<Rightarrow> s) @ ''=pid '' @ itoa pid
       @ (if pids = [] then [] else '', '' @ streamNotes m pids)"

definition straceNotes :: "parser \<Rightarrow> string" where
  "straceNotes p = ''strace import''
     @ (if sp_streamOrder p = [] then [] else ''; streams: '' @ streamNotes (sp_pidToStream p) (sp_streamOrder p))
     @ (let lossy = lossySummary (sp_b p) in if lossy = [] then [] else ''; '' @ lossy)"

datatype strace_err = SERead | SENoSyscalls | SEBuild import_err

definition captureLimitations :: string where
  "captureLimitations =
       ''strace syscall trace; mmap page-fault I/O not captured; ops on file descriptors opened before ''
     @ ''tracing or shared across threads are skipped; STDIO/socket/non-file syscalls ignored; a READ op ''
     @ ''records both the byte count the source requested (len) and the count it received (ret), so a short ''
     @ ''read replays as the request the application actually made; a WRITE op records only the bytes that ''
     @ ''landed, so a source short write replays as a full write of that smaller size and its request shape ''
     @ ''is not reproduced; a read that returned 0 (EOF) is dropped entirely, so replay performs one fewer ''
     @ ''read per sequential read-to-EOF loop than the application did; reads are replayed positionally, so ''
     @ ''the source''
     @ [CHR 0x27]
     @ ''s file-cursor semantics and its lseek calls are not reproduced; strace -T durations are preserved ''
     @ ''as optional op metadata; ptrace-based tracing itself is slow (commonly 10-100x wall-clock overhead) ''
     @ ''and distorts the captured timeline, so timeline/scaled replay of this trace should not be trusted ''
     @ ''for absolute pacing ''
     @ [CHR 0xE2, CHR 0x80, CHR 0x94]
     @ '' prefer asap-mode replay or compare against the preserved per-op durations''"

definition straceMeta :: "string \<Rightarrow> header_meta" where
  "straceMeta nts = \<lparr>hm_Kind = TraceImported, hm_CaptureMethod = ''import:strace'', hm_CaptureLimitations = captureLimitations,
     hm_GeneratedBy = ''ioflux-import 0.1.0 / strace'', hm_Notes = nts, hm_CreatedUTC = []\<rparr>"

definition parseLines :: "string list \<Rightarrow> parser" where
  "parseLines lines = finish (foldl (\<lambda>p l. parseLine l p) newParser lines)"

definition straceImport :: "string list \<Rightarrow> bool \<Rightarrow> bool \<Rightarrow> strace_err + raw_line list \<times> import_report" where
  "straceImport lines scanErr writable =
     (if scanErr then Inl SERead
      else let p = parseLines lines in
        if sp_parsedSyscalls p = 0 \<and> 0 < sp_lineUnparsed p then Inl SENoSyscalls
        else map_sum SEBuild id (writeTo writable (straceMeta (straceNotes p)) (sp_b p)))"

end
