(* ===== verification/Strace_Valid.thy ===== *)
theory Strace_Valid
  imports Import_Steps Strace
begin

text \<open>
  The strace parser fulfils the importer's contract, so what it writes passes its own validation.
\<close>

section \<open>Every operation of the parser keeps the import invariant\<close>

definition steps_to :: "parser \<Rightarrow> parser \<Rightarrow> bool" where
  "steps_to p p' \<longleftrightarrow> keeps (sp_b p, sp_fdt p) (sp_b p', sp_fdt p')"

lemma steps_refl [simp, intro]: "steps_to p p"
  by (simp add: steps_to_def)

lemma steps_trans [trans]: "steps_to p q \<Longrightarrow> steps_to q r \<Longrightarrow> steps_to p r"
  unfolding steps_to_def by (rule keeps_trans)

lemma steps_same: "sp_b p' = sp_b p \<Longrightarrow> sp_fdt p' = sp_fdt p \<Longrightarrow> steps_to p p'"
  by (simp add: steps_to_def)

lemma steps_skip [simp, intro]: "steps_to p (skipOp r p)"
  by (simp add: steps_to_def skipOp_def)

lemma steps_table:
  "steps_to p (p\<lparr>sp_fdt := fdOpenDir s fd path (sp_fdt p)\<rparr>)" "steps_to p (p\<lparr>sp_fdt := fdAdvance s fd n (sp_fdt p)\<rparr>)"
  "steps_to p (p\<lparr>sp_fdt := fdSetCursor s fd n (sp_fdt p)\<rparr>)" "steps_to p (p\<lparr>sp_fdt := fst (fdClose s fd (sp_fdt p))\<rparr>)"
  by (simp_all add: steps_to_def)

lemma steps_emitOpen:
  assumes "mode_valid m"
  shows "steps_to p (emitOpen s t fd path app m flags dur p)"
proof -
  obtain b tgt where b: "bdTarget path TargetFile (sp_b p) = (b, tgt)" by fastforce
  obtain fdt h where f: "fdOpen s fd tgt path app (sp_fdt p) = (fdt, h)" by fastforce
  have "is_open_op (zero_op\<lparr>op_t := t, op_s := s, op_op := OpOpen, op_tgt := Some tgt, op_h := Some h, op_mode := m,
      op_flags := flags, op_dur := dur\<rparr>) s tgt h"
    using assms by (simp add: is_open_op_def zero_op_def no_position_def)
  from keeps_open [OF b f this] show ?thesis by (simp add: steps_to_def emitOpen_def b f addOp_def)
qed

lemma steps_emitStat: "steps_to p (emitStat s t path dur p)"
proof -
  obtain b tgt where b: "bdTarget path TargetFile (sp_b p) = (b, tgt)" by fastforce
  from keeps_stat [OF b refl] show ?thesis by (simp add: steps_to_def emitStat_def b addOp_def)
qed

lemma steps_emitRW:
  assumes "kind = OpRead \<or> kind = OpWrite" "0 < n" "n \<le> requested" "kind = OpWrite \<longrightarrow> requested = n"
    "import_inv (sp_b p) (sp_fdt p) \<Longrightarrow> live (opsAt (sp_b p) s) s h"
  shows "steps_to p (emitRW s t kind h off requested n dur p)"
  using keeps_rw [OF assms refl] by (simp add: steps_to_def emitRW_def addOp_def)

lemma steps_doOpen: "steps_to p (doOpen s t a ret dur isAt how p)"
proof -
  have m: "mode_valid m" if "straceOpenFlags fl = (m, r)" for fl m r
  proof -
    have "mode_valid (foldl (\<lambda>m f. if f = ''O_WRONLY'' then ModeWrite else if f = ''O_RDWR'' then ModeReadWrite else m) m0 fs)"
      if "mode_valid m0" for m0 fs using that by (induction fs arbitrary: m0) auto
    then show ?thesis using that by (auto simp: straceOpenFlags_def Let_def)
  qed
  show ?thesis
    unfolding doOpen_def Let_def
    by (auto split: option.split prod.split simp: steps_table steps_emitOpen [OF m])
qed

lemma steps_doCreat: "steps_to p (doCreat s t a ret dur p)"
  by (auto simp: doCreat_def steps_emitOpen split: option.split)

lemma steps_recordRW:
  assumes k: "kind = OpRead \<or> kind = OpWrite" and e: "fdResolve s fd (sp_fdt p) = Some e" "fe_HasHandle e" and n: "0 < n"
  shows "steps_to p (recordRW s t name a dur kind fd e n p)"
proof -
  define c where "c = (if kind = OpRead then parseLeadingInt (argAt a 2) else Some n)"
  define requested where "requested = (case c of None \<Rightarrow> n | Some v \<Rightarrow> if v \<ge> n then v else n)"
  define p1 where "p1 = (if c = None then p\<lparr>sp_b := bdNote LossyRequestedLenUnobservable (sp_b p)\<rparr> else p)"
  have rq: "n \<le> requested" "kind = OpWrite \<longrightarrow> requested = n"
    by (auto simp: requested_def c_def split: option.split)
  have p1: "steps_to p p1" "sp_fdt p1 = sp_fdt p" by (simp_all add: p1_def steps_to_def)
  let ?p2 = "p1\<lparr>sp_fdt := fdAdvance s fd n (sp_fdt p1)\<rparr>"
  have live: "import_inv (sp_b p1) (sp_fdt p1) \<Longrightarrow> live (opsAt (sp_b p1) s) s (fe_Handle e)"
    using resolve_live [of "sp_b p1" "sp_fdt p1" s fd e] e p1(2) by simp
  have live2: "import_inv (sp_b ?p2) (sp_fdt ?p2) \<Longrightarrow> live (opsAt (sp_b ?p2) s) s (fe_Handle e)"
    using resolve_advance [of s fd "sp_fdt p1" e "sp_b p1" n] e p1(2) by simp
  have eq: "recordRW s t name a dur kind fd e n p =
      (if hasPrefix name ''pread'' \<or> hasPrefix name ''pwrite'' then
         (if length a < 4 then skipOp ''unparsed_line'' p1
          else (case parseLeadingInt (a ! 3) of None \<Rightarrow> skipOp ''unparsed_line'' p1
                | Some off \<Rightarrow> emitRW s t kind (fe_Handle e) off requested n dur p1))
       else emitRW s t kind (fe_Handle e) (fe_Cursor e) requested n dur ?p2)"
    by (simp only: recordRW_def Let_def c_def requested_def p1_def)
  have "steps_to p1 (emitRW s t kind (fe_Handle e) off requested n dur p1)" for off
    by (rule steps_emitRW [OF k n rq live])
  moreover have "steps_to p1 (emitRW s t kind (fe_Handle e) off requested n dur ?p2)" for off
    by (rule steps_trans [OF steps_table(2) steps_emitRW [OF k n rq live2]])
  ultimately have "steps_to p1 (recordRW s t name a dur kind fd e n p)"
    by (simp add: eq split: option.split)
  with p1(1) show ?thesis by (rule steps_trans)
qed

lemma steps_doRW: "kind = OpRead \<or> kind = OpWrite \<Longrightarrow> steps_to p (doRW s t name a ret dur kind p)"
  by (auto simp: doRW_def split: option.split intro!: steps_recordRW)

lemma steps_doClose: "steps_to p (doClose s t a ret dur p)"
proof -
  have "steps_to p (case fdClose s fd (sp_fdt p) of (fdt, None) \<Rightarrow> p\<lparr>sp_fdt := fdt\<rparr>
      | (fdt, Some h) \<Rightarrow> addOp (zero_op\<lparr>op_t := t, op_s := s, op_op := OpClose, op_h := Some h, op_dur := dur\<rparr>) (p\<lparr>sp_fdt := fdt\<rparr>))" for fd
  proof (cases "fdClose s fd (sp_fdt p)")
    case (Pair fdt r)
    with steps_table(4) [of p s fd] show ?thesis
      by (cases r) (auto simp: steps_to_def addOp_def intro: keeps_close)
  qed
  then show ?thesis by (simp add: doClose_def split: option.split)
qed

lemma steps_doFsync: "steps_to p (doFsync s t a ret dur p)"
  by (auto simp: doFsync_def steps_to_def skipOp_def addOp_def split: option.split intro!: keeps_fsync [OF resolve_live refl])

lemma steps_doLseek: "steps_to p (doLseek s a ret p)"
  by (auto simp: doLseek_def steps_table split: option.split)

lemma steps_doStatPath: "steps_to p (doStatPath s t name a ret dur p)"
  by (auto simp: doStatPath_def Let_def steps_emitStat split: option.split)

lemma steps_doFstat: "steps_to p (doFstat s t a ret dur p)"
  by (auto simp: doFstat_def steps_emitStat split: option.split)

lemma syscallTable_kinds: "map_of syscallTable name = Some (SysRW kind) \<Longrightarrow> kind = OpRead \<or> kind = OpWrite"
proof -
  assume "map_of syscallTable name = Some (SysRW kind)"
  then have "SysRW kind \<in> snd ` set syscallTable" by (metis map_of_SomeD image_eqI snd_conv)
  then show ?thesis by (auto simp: syscallTable_def)
qed

lemma steps_runSyscall:
  assumes "map_of syscallTable name = Some c"
  shows "steps_to p (runSyscall c s t name a ret dur p)"
  using assms syscallTable_kinds [of name]
  by (cases c) (auto simp: steps_doOpen steps_doCreat steps_doRW steps_doClose steps_doFsync steps_doLseek steps_doStatPath steps_doFstat)

lemma streamFor_steps: "streamFor pid p = (p', s) \<Longrightarrow> steps_to p p'"
  by (auto simp: streamFor_def Let_def intro: steps_same split: option.splits)

lemma steps_handleCall: "steps_to p (handleCall pid tNS name args ret p)"
proof -
  let ?p = "p\<lparr>sp_parsedSyscalls := sp_parsedSyscalls p + 1\<rparr>"
  obtain q s where q: "streamFor pid ?p = (q, s)" by fastforce
  have "steps_to p ?p" by (rule steps_same) simp_all
  then have "steps_to p q" using streamFor_steps [OF q] by (rule steps_trans)
  then show ?thesis
    by (auto simp: handleCall_def q split: option.split prod.split intro: steps_trans [OF _ steps_runSyscall])
qed

lemma steps_parseCall: "steps_to p (parseCall pid tNS call p)"
  by (auto simp: parseCall_def steps_handleCall split: option.split prod.split)

lemma steps_parseBody: "steps_to p (parseBody pid tNS body p)"
proof -
  have u: "steps_to p (p\<lparr>sp_unfinished := u\<rparr>)" for u by (rule steps_same) simp_all
  then have "steps_to p (parseCall pid t c (p\<lparr>sp_unfinished := u\<rparr>))" for t c u
    using steps_parseCall by (rule steps_trans)
  with u steps_parseCall show ?thesis by (simp add: parseBody_def Let_def split: option.split)
qed

lemma parseTimePrefix_steps: "parseTimePrefix s p = Some (p', t, body) \<Longrightarrow> steps_to p p'"
  by (auto simp: parseTimePrefix_def applyRollover_def Let_def intro: steps_same split: if_splits)

lemma steps_parseLine: "steps_to p (parseLine raw p)"
proof -
  have "steps_to p (unparsedLine p)"
  proof -
    have "steps_to (skipOp ''unparsed_line'' p) (unparsedLine p)" by (rule steps_same) (simp_all add: unparsedLine_def)
    with steps_skip show ?thesis by (rule steps_trans)
  qed
  then show ?thesis
    by (auto simp: parseLine_def Let_def split: option.split prod.split
        intro: parseTimePrefix_steps steps_trans [OF parseTimePrefix_steps steps_parseBody])
qed

lemma steps_finish: "steps_to p (finish p)"
proof -
  have f: "steps_to p (foldl (\<lambda>q _. skipOp r q) p us)" for p r and us :: "(int \<times> pending) list"
    by (induction us arbitrary: p) (auto intro: steps_trans [OF steps_skip])
  show ?thesis unfolding finish_def by (rule steps_trans [OF f steps_same]) simp_all
qed

interpretation strace: importer sp_b sp_fdt "\<lambda>_. newParser" parseLine finish
proof
  show "sp_b newParser = newBuilder" "sp_fdt newParser = newFDTable" by (simp_all add: newParser_def)
  show "keeps (sp_b p, sp_fdt p) (sp_b (parseLine l p), sp_fdt (parseLine l p))" for l p
    using steps_parseLine by (simp add: steps_to_def)
  show "keeps (sp_b p, sp_fdt p) (sp_b (finish p), sp_fdt (finish p))" for p
    using steps_finish by (simp add: steps_to_def)
qed

section \<open>Properties\<close>

lemma straceMeta_ok: "meta_ok (straceMeta nts)"
  by (simp add: meta_ok_def straceMeta_def captureLimitations_def ImportPrefix_def)


definition sample_log :: "string list" where
  "sample_log = [''1.5 close(3) = 0'', ''2.5 open('' @ [dquote] @ ''/d'' @ [dquote] @ '', 0) = 3'']"

lemma sample_log_fits: "import_fits (sp_b (parseLines sample_log)) \<and> 0 < sp_parsedSyscalls (parseLines sample_log)"
  by code_simp


end
