(* ===== verification/Dftracer.thy ===== *)
theory Dftracer
  imports Importer Float64
begin

unbundle bit_operations_syntax

text \<open>
  The DFTracer importer, \<open>pkg/importer/dftracer/parse.go\<close>. Reading the text of a JSON value is
  the standard library's: the parameter \<open>parse\<close> gives the value a text denotes, or \<open>None\<close> when it
  is not JSON. Decoding the value into an event, with Go's rules for absent fields, nulls and
  raw messages, is modelled. A raw message is the value it holds, \<open>None\<close> when absent.
\<close>

section \<open>Events\<close>

record df_args =
  da_Fname :: string
  da_Fhash :: string
  da_Fd :: "int option"
  da_Offset :: "int option"
  da_Size :: "int option"
  da_Count :: "json option"
  da_ReturnVal :: "json option"
  da_Ret :: "json option"
  da_Flags :: "json option"
  da_MetaName :: string
  da_MetaValue :: string

record df_event =
  de_Name :: string
  de_Cat :: string
  de_Ts :: f64
  de_Dur :: f64
  de_Pid :: int
  de_Tid :: int
  de_Args :: df_args

definition zeroArgs :: df_args where
  "zeroArgs = \<lparr>da_Fname = [], da_Fhash = [], da_Fd = None, da_Offset = None, da_Size = None, da_Count = None,
     da_ReturnVal = None, da_Ret = None, da_Flags = None, da_MetaName = [], da_MetaValue = []\<rparr>"

definition zeroEvent :: df_event where
  "zeroEvent = \<lparr>de_Name = [], de_Cat = [], de_Ts = 0, de_Dur = 0, de_Pid = 0, de_Tid = 0, de_Args = zeroArgs\<rparr>"

fun dec_float :: "f64 \<Rightarrow> json \<Rightarrow> f64 option" where
  "dec_float cur JNull = Some cur"
| "dec_float cur (JInt n) = (let f = fl (of_int n) in if \<bar>f\<bar> < 2 ^ 1024 then Some f else None)"
| "dec_float cur (JNumLit s) = parseFloat s"
| "dec_float cur _ = None"

definition dec_args_field :: "string \<Rightarrow> json \<Rightarrow> df_args \<Rightarrow> df_args option" where
  "dec_args_field k j a =
     (if k = ''fname'' then map_option (\<lambda>v. a\<lparr>da_Fname := v\<rparr>) (dec_str (da_Fname a) j)
      else if k = ''fhash'' then map_option (\<lambda>v. a\<lparr>da_Fhash := v\<rparr>) (dec_str (da_Fhash a) j)
      else if k = ''fd'' then map_option (\<lambda>v. a\<lparr>da_Fd := v\<rparr>) (dec_ptr j)
      else if k = ''offset'' then map_option (\<lambda>v. a\<lparr>da_Offset := v\<rparr>) (dec_ptr j)
      else if k = ''size'' then map_option (\<lambda>v. a\<lparr>da_Size := v\<rparr>) (dec_ptr j)
      else if k = ''count'' then Some (a\<lparr>da_Count := Some j\<rparr>)
      else if k = ''return_val'' then Some (a\<lparr>da_ReturnVal := Some j\<rparr>)
      else if k = ''ret'' then Some (a\<lparr>da_Ret := Some j\<rparr>)
      else if k = ''flags'' then Some (a\<lparr>da_Flags := Some j\<rparr>)
      else if k = ''name'' then map_option (\<lambda>v. a\<lparr>da_MetaName := v\<rparr>) (dec_str (da_MetaName a) j)
      else if k = ''value'' then map_option (\<lambda>v. a\<lparr>da_MetaValue := v\<rparr>) (dec_str (da_MetaValue a) j)
      else Some a)"

definition dec_event_field :: "string \<Rightarrow> json \<Rightarrow> df_event \<Rightarrow> df_event option" where
  "dec_event_field k j e =
     (if k = ''name'' then map_option (\<lambda>v. e\<lparr>de_Name := v\<rparr>) (dec_str (de_Name e) j)
      else if k = ''cat'' then map_option (\<lambda>v. e\<lparr>de_Cat := v\<rparr>) (dec_str (de_Cat e) j)
      else if k = ''ts'' then map_option (\<lambda>v. e\<lparr>de_Ts := v\<rparr>) (dec_float (de_Ts e) j)
      else if k = ''dur'' then map_option (\<lambda>v. e\<lparr>de_Dur := v\<rparr>) (dec_float (de_Dur e) j)
      else if k = ''pid'' then map_option (\<lambda>v. e\<lparr>de_Pid := v\<rparr>) (dec_int (de_Pid e) j)
      else if k = ''tid'' then map_option (\<lambda>v. e\<lparr>de_Tid := v\<rparr>) (dec_int (de_Tid e) j)
      else if k = ''args'' then map_option (\<lambda>v. e\<lparr>de_Args := v\<rparr>) (dec_struct dec_args_field (de_Args e) j)
      else Some e)"

definition unmarshalEvent :: "(string \<Rightarrow> json option) \<Rightarrow> string \<Rightarrow> df_event option" where
  "unmarshalEvent parse s = (case parse s of None \<Rightarrow> None | Some j \<Rightarrow> dec_struct dec_event_field zeroEvent j)"

text \<open>\<open>rawInt\<close>: a number, or a string holding a decimal number.\<close>

definition rawInt :: "json option \<Rightarrow> int option" where
  "rawInt raw =
     (case raw of
        None \<Rightarrow> None
      | Some j \<Rightarrow> (case dec_int 0 j of
                    Some n \<Rightarrow> Some n
                  | None \<Rightarrow> (case dec_str [] j of Some s \<Rightarrow> parseInt64 s | None \<Rightarrow> None)))"

definition retVal :: "df_args \<Rightarrow> int option" where
  "retVal a = (case rawInt (da_ReturnVal a) of Some n \<Rightarrow> Some n | None \<Rightarrow> rawInt (da_Ret a))"

definition transferCount :: "df_args \<Rightarrow> int option" where
  "transferCount a = retVal a"

section \<open>Open flags\<close>

definition flagList :: "bool \<Rightarrow> bool \<Rightarrow> bool \<Rightarrow> bool \<Rightarrow> bool \<Rightarrow> string list" where
  "flagList direct create trunc app sync =
     (if direct then [''direct''] else []) @ (if create then [''create''] else []) @ (if trunc then [''trunc''] else [])
     @ (if app then [''append''] else []) @ (if sync then [''sync''] else [])"

definition parseIntFlags :: "int \<Rightarrow> mode \<times> string list \<times> bool \<times> bool" where
  "parseIntFlags n =
     (let mode' = (if n AND 3 = 1 then ModeWrite else if n AND 3 = 2 then ModeReadWrite else ModeRead);
          isDir = (n AND 65536 \<noteq> 0);
          isApp = (n AND 1024 \<noteq> 0)
      in (mode', flagList (n AND 16384 \<noteq> 0) (n AND 64 \<noteq> 0) (n AND 512 \<noteq> 0) isApp (n AND 4096 \<noteq> 0 \<or> n AND 1048576 \<noteq> 0),
          isDir, isApp))"

definition parseStringFlags :: "string \<Rightarrow> mode \<times> string list \<times> bool \<times> bool" where
  "parseStringFlags s =
     (let fs = map trimSpace (splitOn s (CHR ''|''));
          mode' = foldl (\<lambda>m f. if f = ''O_WRONLY'' then ModeWrite else if f = ''O_RDWR'' then ModeReadWrite else m) ModeRead fs;
          isApp = (''O_APPEND'' \<in> set fs)
      in (mode', flagList (''O_DIRECT'' \<in> set fs) (''O_CREAT'' \<in> set fs) (''O_TRUNC'' \<in> set fs) isApp
            (''O_SYNC'' \<in> set fs \<or> ''O_DSYNC'' \<in> set fs),
          ''O_DIRECTORY'' \<in> set fs, isApp))"

definition dfOpenFlags :: "json option \<Rightarrow> mode \<times> string list \<times> bool \<times> bool" where
  "dfOpenFlags raw =
     (case raw of
        None \<Rightarrow> (ModeRead, [], False, False)
      | Some j \<Rightarrow> (case dec_int 0 j of
                    Some n \<Rightarrow> parseIntFlags n
                  | None \<Rightarrow> (case dec_str [] j of
                              Some s \<Rightarrow> parseStringFlags s
                            | None \<Rightarrow> (ModeRead, [], False, False))))"

section \<open>The parser\<close>

record df_parser =
  dp_b :: builder
  dp_fdt :: fd_table
  dp_ptToStream :: "((int \<times> int) \<times> int) list"
  dp_streamOrder :: "(int \<times> int) list"
  dp_nextStream :: int
  dp_fhashToPath :: "(string \<times> string) list"
  dp_fhashFD :: "(string \<times> int) list"
  dp_nextSynthFD :: int
  dp_parsedEvents :: int
  dp_lineUnparsed :: int

definition dfNewParser :: df_parser where
  "dfNewParser = \<lparr>dp_b = newBuilder, dp_fdt = newFDTable, dp_ptToStream = [], dp_streamOrder = [], dp_nextStream = 0,
     dp_fhashToPath = [], dp_fhashFD = [], dp_nextSynthFD = 0, dp_parsedEvents = 0, dp_lineUnparsed = 0\<rparr>"

definition dfSkip :: "string \<Rightarrow> df_parser \<Rightarrow> df_parser" where
  "dfSkip r p = p\<lparr>dp_b := bdSkip r (dp_b p)\<rparr>"

definition dfAdd :: "op \<Rightarrow> df_parser \<Rightarrow> df_parser" where
  "dfAdd x p = p\<lparr>dp_b := bdAdd x (dp_b p)\<rparr>"

definition synthFDBase :: int where "synthFDBase = 2 ^ 30"

definition synthFD :: "string \<Rightarrow> df_parser \<Rightarrow> df_parser \<times> int" where
  "synthFD fhash p =
     (case map_of (dp_fhashFD p) fhash of
        Some fd \<Rightarrow> (p, fd)
      | None \<Rightarrow> (let fd = synthFDBase + dp_nextSynthFD p in
          (p\<lparr>dp_nextSynthFD := dp_nextSynthFD p + 1, dp_fhashFD := AList.update fhash fd (dp_fhashFD p)\<rparr>, fd)))"

definition resolvePath :: "df_args \<Rightarrow> df_parser \<Rightarrow> string option" where
  "resolvePath a p =
     (if da_Fname a \<noteq> [] then Some (da_Fname a)
      else if da_Fhash a \<noteq> [] then map_of (dp_fhashToPath p) (da_Fhash a)
      else None)"

definition resolveFDKey :: "df_args \<Rightarrow> df_parser \<Rightarrow> df_parser \<times> int option" where
  "resolveFDKey a p =
     (case da_Fd a of
        Some fd \<Rightarrow> (p, Some fd)
      | None \<Rightarrow> if da_Fhash a \<noteq> [] then (let (p', fd) = synthFD (da_Fhash a) p in (p', Some fd)) else (p, None))"

definition dfStream :: "int \<times> int \<Rightarrow> df_parser \<Rightarrow> df_parser \<times> int" where
  "dfStream pt p =
     (case map_of (dp_ptToStream p) pt of
        Some sid \<Rightarrow> (p, sid)
      | None \<Rightarrow> (p\<lparr>dp_nextStream := dp_nextStream p + 1, dp_ptToStream := AList.update pt (dp_nextStream p) (dp_ptToStream p),
                   dp_streamOrder := dp_streamOrder p @ [pt]\<rparr>, dp_nextStream p))"

section \<open>Operations\<close>

definition dfEmitOpen :: "int \<Rightarrow> int \<Rightarrow> int \<Rightarrow> string \<Rightarrow> bool \<Rightarrow> mode \<Rightarrow> string list \<Rightarrow> int option \<Rightarrow> df_parser \<Rightarrow> df_parser" where
  "dfEmitOpen s t fd path isApp m flags dur p =
     (let (b, tgt) = bdTarget path TargetFile (dp_b p);
          (fdt, h) = fdOpen s fd tgt path isApp (dp_fdt p)
      in dfAdd (zero_op\<lparr>op_t := t, op_s := s, op_op := OpOpen, op_tgt := Some tgt, op_h := Some h, op_mode := m,
                 op_flags := flags, op_dur := dur\<rparr>) (p\<lparr>dp_b := b, dp_fdt := fdt\<rparr>))"

definition dfDoOpen :: "int \<Rightarrow> int \<Rightarrow> int option \<Rightarrow> df_args \<Rightarrow> df_parser \<Rightarrow> df_parser" where
  "dfDoOpen s t dur a p =
     (let rv = retVal a in
      if rv \<noteq> None \<and> the rv < 0 then dfSkip ''failed_open'' p
      else (case resolvePath a p of
              None \<Rightarrow> dfSkip (if da_Fhash a \<noteq> [] then ''unresolved_fhash'' else ''unparseable_event'') p
            | Some path \<Rightarrow>
                let (m, flags, isDir, isApp) = dfOpenFlags (da_Flags a) in
                if isDir then p
                else (case da_Fd a of
                        Some fd \<Rightarrow> dfEmitOpen s t fd path isApp m flags dur p
                      | None \<Rightarrow>
                          (case rv of
                             Some n \<Rightarrow> dfEmitOpen s t n path isApp m flags dur p
                           | None \<Rightarrow>
                               if da_Fhash a \<noteq> [] then (let (p', fd) = synthFD (da_Fhash a) p in dfEmitOpen s t fd path isApp m flags dur p')
                               else dfSkip ''failed_open'' p))))"

definition dfEmitRW :: "int \<Rightarrow> int \<Rightarrow> op_kind \<Rightarrow> int \<Rightarrow> int \<Rightarrow> int \<Rightarrow> int \<Rightarrow> int option \<Rightarrow> df_parser \<Rightarrow> df_parser" where
  "dfEmitRW s t kind h off requested n dur p =
     dfAdd (zero_op\<lparr>op_t := t, op_s := s, op_op := kind, op_h := Some h, op_off := Some off, op_len := Some requested,
              op_dur := dur, op_ret := (if requested \<noteq> n then Some n else None)\<rparr>) p"

text \<open>The transfer of \<open>n > 0\<close> bytes through the key \<open>fd\<close> that resolved to \<open>e\<close>.\<close>

definition dfRecordRW :: "int \<Rightarrow> int \<Rightarrow> int option \<Rightarrow> df_args \<Rightarrow> op_kind \<Rightarrow> bool \<Rightarrow> int \<Rightarrow> fd_entry \<Rightarrow> int \<Rightarrow> df_parser \<Rightarrow> df_parser" where
  "dfRecordRW s t dur a kind positional fd e n p =
     (let c = (if kind = OpRead then rawInt (da_Count a) else Some n);
          requested = (case c of None \<Rightarrow> n | Some v \<Rightarrow> if v \<ge> n then v else n);
          p1 = (if c = None then p\<lparr>dp_b := bdNote LossyRequestedLenUnobservable (dp_b p)\<rparr> else p)
      in if positional \<and> da_Offset a \<noteq> None
         then dfEmitRW s t kind (fe_Handle e) (the (da_Offset a)) requested n dur p1
         else dfEmitRW s t kind (fe_Handle e) (fe_Cursor e) requested n dur (p1\<lparr>dp_fdt := fdAdvance s fd n (dp_fdt p1)\<rparr>))"

definition dfDoRW :: "int \<Rightarrow> int \<Rightarrow> int option \<Rightarrow> df_args \<Rightarrow> op_kind \<Rightarrow> bool \<Rightarrow> df_parser \<Rightarrow> df_parser" where
  "dfDoRW s t dur a kind positional p0 =
     (let (p, key) = resolveFDKey a p0 in
      case key of
        None \<Rightarrow> dfSkip ''unresolved_fd'' p
      | Some fd \<Rightarrow>
          (case fdResolve s fd (dp_fdt p) of
             None \<Rightarrow> dfSkip ''unresolved_fd'' p
           | Some e \<Rightarrow>
               if \<not> fe_HasHandle e then dfSkip ''unresolved_fd'' p
               else (case transferCount a of
                  None \<Rightarrow> dfSkip ''failed_syscall'' p
                | Some n \<Rightarrow>
                    if n < 0 then dfSkip ''failed_syscall'' p
                    else if n = 0 then dfSkip (if kind = OpRead then ''eof_read'' else ''failed_syscall'') p
                    else if kind = OpWrite \<and> fe_AppendMode e then dfSkip ''append_write_unmodeled'' p
                    else dfRecordRW s t dur a kind positional fd e n p)))"

text \<open>\<open>rv, _ := a.retVal()\<close>: zero when absent.\<close>

definition retOr0 :: "df_args \<Rightarrow> int" where
  "retOr0 a = (case retVal a of None \<Rightarrow> 0 | Some n \<Rightarrow> n)"

definition dfDoClose :: "int \<Rightarrow> int \<Rightarrow> int option \<Rightarrow> df_args \<Rightarrow> df_parser \<Rightarrow> df_parser" where
  "dfDoClose s t dur a p0 =
     (let (p, key) = resolveFDKey a p0 in
      case key of
        None \<Rightarrow> p
      | Some fd \<Rightarrow>
          if retOr0 a < 0 then dfSkip ''failed_syscall'' p
          else (case fdClose s fd (dp_fdt p) of
                  (fdt, None) \<Rightarrow> p\<lparr>dp_fdt := fdt\<rparr>
                | (fdt, Some h) \<Rightarrow>
                    dfAdd (zero_op\<lparr>op_t := t, op_s := s, op_op := OpClose, op_h := Some h, op_dur := dur\<rparr>) (p\<lparr>dp_fdt := fdt\<rparr>)))"

definition dfDoLseek :: "int \<Rightarrow> df_args \<Rightarrow> df_parser \<Rightarrow> df_parser" where
  "dfDoLseek s a p0 =
     (let (p, key) = resolveFDKey a p0 in
      case key of
        None \<Rightarrow> p
      | Some fd \<Rightarrow> (case retVal a of None \<Rightarrow> p | Some pos \<Rightarrow> if pos < 0 then p else p\<lparr>dp_fdt := fdSetCursor s fd pos (dp_fdt p)\<rparr>))"

definition dfDoFsync :: "int \<Rightarrow> int \<Rightarrow> int option \<Rightarrow> df_args \<Rightarrow> df_parser \<Rightarrow> df_parser" where
  "dfDoFsync s t dur a p0 =
     (let (p, key) = resolveFDKey a p0 in
      case key of
        None \<Rightarrow> dfSkip ''unparseable_event'' p
      | Some fd \<Rightarrow>
          if retOr0 a < 0 then dfSkip ''failed_syscall'' p
          else (case fdResolve s fd (dp_fdt p) of
                  None \<Rightarrow> dfSkip ''unresolved_fd'' p
                | Some e \<Rightarrow>
                    if \<not> fe_HasHandle e then dfSkip ''unresolved_fd'' p
                    else dfAdd (zero_op\<lparr>op_t := t, op_s := s, op_op := OpFsync, op_h := Some (fe_Handle e), op_dur := dur\<rparr>) p))"

datatype df_call = DfOpen | DfRW op_kind bool | DfClose | DfLseek | DfFsync

definition dfTable :: "(string \<times> df_call) list" where
  "dfTable =
     [(''open'', DfOpen), (''open64'', DfOpen), (''openat'', DfOpen), (''creat'', DfOpen),
      (''read'', DfRW OpRead False), (''pread64'', DfRW OpRead True), (''pread'', DfRW OpRead True),
      (''write'', DfRW OpWrite False), (''pwrite64'', DfRW OpWrite True), (''pwrite'', DfRW OpWrite True),
      (''close'', DfClose), (''lseek'', DfLseek), (''lseek64'', DfLseek), (''fsync'', DfFsync), (''fdatasync'', DfFsync)]"

fun dfRun :: "df_call \<Rightarrow> int \<Rightarrow> int \<Rightarrow> int option \<Rightarrow> df_args \<Rightarrow> df_parser \<Rightarrow> df_parser" where
  "dfRun DfOpen s t dur a p = dfDoOpen s t dur a p"
| "dfRun (DfRW kind positional) s t dur a p = dfDoRW s t dur a kind positional p"
| "dfRun DfClose s t dur a p = dfDoClose s t dur a p"
| "dfRun DfLseek s t dur a p = dfDoLseek s a p"
| "dfRun DfFsync s t dur a p = dfDoFsync s t dur a p"

definition dfDispatch :: "int \<Rightarrow> int \<Rightarrow> string \<Rightarrow> int option \<Rightarrow> df_args \<Rightarrow> df_parser \<Rightarrow> df_parser" where
  "dfDispatch s t name dur a p =
     (case map_of dfTable name of None \<Rightarrow> dfSkip ''unsupported_event'' p | Some c \<Rightarrow> dfRun c s t dur a p)"

section \<open>Lines\<close>

text \<open>Microseconds to nanoseconds.\<close>

definition microToNS :: "f64 \<Rightarrow> int" where
  "microToNS us = int64_of (f64_mult us 1000)"

definition dfEvent :: "df_event \<Rightarrow> df_parser \<Rightarrow> df_parser" where
  "dfEvent ev p0 =
     (let p = p0\<lparr>dp_parsedEvents := dp_parsedEvents p0 + 1\<rparr> in
      if de_Cat ev = ''POSIX'' then
        (let dur = (if 0 < de_Dur ev then Some (microToNS (de_Dur ev)) else None);
             (p', s) = dfStream (de_Pid ev, de_Tid ev) p
         in dfDispatch s (microToNS (de_Ts ev)) (de_Name ev) dur (de_Args ev) p')
      else if de_Cat ev = ''dftracer'' then p
      else dfSkip ''non_posix_event'' p)"

definition isBracket :: "string \<Rightarrow> bool" where
  "isBracket s \<longleftrightarrow> s = [] \<or> s = ''['' \<or> s = '']''"

definition dfLine :: "(string \<Rightarrow> json option) \<Rightarrow> string \<Rightarrow> df_parser \<Rightarrow> df_parser" where
  "dfLine parse raw p =
     (let s0 = trimSpace raw in
      if isBracket s0 then p
      else let s = trimSpace (trimRight s0 '','') in
        if isBracket s then p
        else if hd s \<noteq> CHR ''{'' then p\<lparr>dp_lineUnparsed := dp_lineUnparsed p + 1\<rparr>
        else (case unmarshalEvent parse s of
                None \<Rightarrow> (dfSkip ''unparseable_event'' p)\<lparr>dp_lineUnparsed := dp_lineUnparsed p + 1\<rparr>
              | Some ev \<Rightarrow> dfEvent ev p))"

definition scanMeta :: "(string \<Rightarrow> json option) \<Rightarrow> string \<Rightarrow> df_parser \<Rightarrow> df_parser" where
  "scanMeta parse raw p =
     (let s0 = trimSpace raw in
      if s0 = [] \<or> hd s0 \<noteq> CHR ''{'' then p
      else (case unmarshalEvent parse (trimRight s0 '','') of
              None \<Rightarrow> p
            | Some ev \<Rightarrow>
                if de_Cat ev = ''dftracer'' \<and> de_Name ev = ''FH'' \<and> da_MetaValue (de_Args ev) \<noteq> [] \<and> da_MetaName (de_Args ev) \<noteq> []
                then p\<lparr>dp_fhashToPath := AList.update (da_MetaValue (de_Args ev)) (da_MetaName (de_Args ev)) (dp_fhashToPath p)\<rparr>
                else p))"

section \<open>The import\<close>

fun dfStreamNotes :: "((int \<times> int) \<times> int) list \<Rightarrow> (int \<times> int) list \<Rightarrow> string" where
  "dfStreamNotes m [] = []"
| "dfStreamNotes m (pt # pts) =
     ''s'' @ itoa (case map_of m pt of None \<Rightarrow> 0 | Some s \<Rightarrow> s) @ ''=pid '' @ itoa (fst pt) @ '' tid '' @ itoa (snd pt)
       @ (if pts = [] then [] else '', '' @ dfStreamNotes m pts)"

definition dfNotes :: "df_parser \<Rightarrow> string" where
  "dfNotes p = ''dftracer import''
     @ (if dp_streamOrder p = [] then [] else ''; streams: '' @ dfStreamNotes (dp_ptToStream p) (dp_streamOrder p))
     @ (let lossy = lossySummary (dp_b p) in if lossy = [] then [] else ''; '' @ lossy)"

datatype df_err = DERead | DENoEvents | DEBuild import_err

definition dfCaptureLimitations :: string where
  "dfCaptureLimitations =
     ''DFTracer POSIX trace; STDIO (fread/fwrite) and MPI-IO events not represented; '' @
     ''mmap page-fault I/O not captured; ops on file descriptors opened before tracing are skipped; '' @
     ''cross-thread fd sharing not modeled (fd opened by one thread is unresolved when accessed by another); '' @
     ''stat/fstat events are not represented, so a workload'' @ [CHR 0x27] @ ''s metadata operations are absent from the trace; '' @
     ''a READ op records the requested byte count (len) alongside the received count (ret) when the '' @
     ''source reports args.count, so a short read replays as the request the application made; the '' @
     ''hashed 2.x form omits args.count, and there a short read is indistinguishable from a full read '' @
     ''of the same size and replays as the smaller request (see the lossy counts in notes); a WRITE '' @
     ''op records only the bytes that landed, so a source short write replays as a full write of that '' @
     ''smaller size; '' @
     ''a read that returned 0 (EOF) is dropped entirely, so replay performs one fewer read per '' @
     ''sequential read-to-EOF loop than the application did; '' @
     ''reads are replayed positionally, so the source'' @ [CHR 0x27] @ ''s file-cursor semantics are not reproduced; '' @
     ''hashed-filename traces (DFTracer 2.x) resolve paths via FH metadata and reconstruct read/write '' @
     ''offsets from sequential per-file cursors, since that format records byte counts but no offsets''"

definition dfMeta :: "string \<Rightarrow> header_meta" where
  "dfMeta nts = \<lparr>hm_Kind = TraceImported, hm_CaptureMethod = ''import:dftracer'', hm_CaptureLimitations = dfCaptureLimitations,
     hm_GeneratedBy = ''ioflux-import 0.1.0 / dftracer'', hm_Notes = nts, hm_CreatedUTC = []\<rparr>"

definition dfScan :: "(string \<Rightarrow> json option) \<Rightarrow> string list \<Rightarrow> df_parser" where
  "dfScan parse lines = foldl (\<lambda>p l. scanMeta parse l p) dfNewParser lines"

definition dfParse :: "(string \<Rightarrow> json option) \<Rightarrow> string list \<Rightarrow> df_parser" where
  "dfParse parse lines = foldl (\<lambda>p l. dfLine parse l p) (dfScan parse lines) lines"

definition dfImport :: "(string \<Rightarrow> json option) \<Rightarrow> string list \<Rightarrow> bool \<Rightarrow> bool \<Rightarrow> df_err + raw_line list \<times> import_report" where
  "dfImport parse lines scanErr writable =
     (if scanErr then Inl DERead
      else let p = dfParse parse lines in
        if dp_parsedEvents p = 0 \<and> 0 < dp_lineUnparsed p then Inl DENoEvents
        else map_sum DEBuild id (writeTo writable (dfMeta (dfNotes p)) (dp_b p)))"

end
