(* ===== verification/Dftracer_Valid.thy ===== *)
theory Dftracer_Valid
  imports Import_Steps Dftracer
begin

text \<open>
  The DFTracer parser fulfils the importer's contract too: the metadata pass leaves the builder and
  the descriptor table empty, and every event line keeps the import invariant.
\<close>

section \<open>Every operation of the parser keeps the import invariant\<close>

definition df_steps :: "df_parser \<Rightarrow> df_parser \<Rightarrow> bool" where
  "df_steps p p' \<longleftrightarrow> keeps (dp_b p, dp_fdt p) (dp_b p', dp_fdt p')"

lemma df_steps_refl [simp, intro]: "df_steps p p"
  by (simp add: df_steps_def)

lemma df_steps_trans [trans]: "df_steps p q \<Longrightarrow> df_steps q r \<Longrightarrow> df_steps p r"
  unfolding df_steps_def by (rule keeps_trans)

lemma df_steps_same: "dp_b p' = dp_b p \<Longrightarrow> dp_fdt p' = dp_fdt p \<Longrightarrow> df_steps p p'"
  by (simp add: df_steps_def)

lemma df_steps_skip [simp, intro]: "df_steps p (dfSkip r p)"
  by (simp add: df_steps_def dfSkip_def)

lemma df_steps_table:
  "df_steps p (p\<lparr>dp_fdt := fdAdvance s fd n (dp_fdt p)\<rparr>)" "df_steps p (p\<lparr>dp_fdt := fdSetCursor s fd n (dp_fdt p)\<rparr>)"
  "df_steps p (p\<lparr>dp_fdt := fst (fdClose s fd (dp_fdt p))\<rparr>)"
  by (simp_all add: df_steps_def)

lemma df_steps_emitOpen:
  assumes "mode_valid m"
  shows "df_steps p (dfEmitOpen s t fd path app m flags dur p)"
proof -
  obtain b tgt where b: "bdTarget path TargetFile (dp_b p) = (b, tgt)" by fastforce
  obtain fdt h where f: "fdOpen s fd tgt path app (dp_fdt p) = (fdt, h)" by fastforce
  have "is_open_op (zero_op\<lparr>op_t := t, op_s := s, op_op := OpOpen, op_tgt := Some tgt, op_h := Some h, op_mode := m,
      op_flags := flags, op_dur := dur\<rparr>) s tgt h"
    using assms by (simp add: is_open_op_def zero_op_def no_position_def)
  from keeps_open [OF b f this] show ?thesis by (simp add: df_steps_def dfEmitOpen_def b f dfAdd_def)
qed

lemma df_steps_emitRW:
  assumes "kind = OpRead \<or> kind = OpWrite" "0 < n" "n \<le> requested" "kind = OpWrite \<longrightarrow> requested = n"
    "import_inv (dp_b p) (dp_fdt p) \<Longrightarrow> live (opsAt (dp_b p) s) s h"
  shows "df_steps p (dfEmitRW s t kind h off requested n dur p)"
  using keeps_rw [OF assms refl] by (simp add: df_steps_def dfEmitRW_def dfAdd_def)

lemma dfOpenFlags_mode: "dfOpenFlags raw = (m, r) \<Longrightarrow> mode_valid m"
proof -
  have "mode_valid (foldl (\<lambda>m f. if f = ''O_WRONLY'' then ModeWrite else if f = ''O_RDWR'' then ModeReadWrite else m) m0 fs)"
    if "mode_valid m0" for m0 fs using that by (induction fs arbitrary: m0) auto
  then have "mode_valid (fst (parseStringFlags s))" for s by (simp add: parseStringFlags_def Let_def)
  moreover have "mode_valid (fst (parseIntFlags n))" for n by (simp add: parseIntFlags_def Let_def)
  ultimately show "dfOpenFlags raw = (m, r) \<Longrightarrow> mode_valid m"
    by (auto simp: dfOpenFlags_def split: option.splits) (metis fst_conv)+
qed

lemma synthFD_steps: "synthFD fh p = (p', fd) \<Longrightarrow> df_steps p p'"
  by (auto simp: synthFD_def Let_def intro: df_steps_same split: option.splits)

lemma resolveFDKey_steps: "resolveFDKey a p = (p', k) \<Longrightarrow> df_steps p p'"
  by (auto simp: resolveFDKey_def intro: synthFD_steps split: option.splits if_splits prod.splits)

lemma dfStream_steps: "dfStream pt p = (p', s) \<Longrightarrow> df_steps p p'"
  by (auto simp: dfStream_def intro: df_steps_same split: option.splits)

lemma df_steps_doOpen: "df_steps p (dfDoOpen s t dur a p)"
  unfolding dfDoOpen_def Let_def
  by (auto split: option.split prod.split
      simp: df_steps_emitOpen [OF dfOpenFlags_mode] intro: df_steps_trans [OF synthFD_steps])

lemma df_steps_recordRW:
  assumes k: "kind = OpRead \<or> kind = OpWrite" and e: "fdResolve s fd (dp_fdt p) = Some e" "fe_HasHandle e" and n: "0 < n"
  shows "df_steps p (dfRecordRW s t dur a kind positional fd e n p)"
proof -
  define c where "c = (if kind = OpRead then rawInt (da_Count a) else Some n)"
  define requested where "requested = (case c of None \<Rightarrow> n | Some v \<Rightarrow> if v \<ge> n then v else n)"
  define p1 where "p1 = (if c = None then p\<lparr>dp_b := bdNote LossyRequestedLenUnobservable (dp_b p)\<rparr> else p)"
  have rq: "n \<le> requested" "kind = OpWrite \<longrightarrow> requested = n"
    by (auto simp: requested_def c_def split: option.split)
  have p1: "df_steps p p1" "dp_fdt p1 = dp_fdt p" by (simp_all add: p1_def df_steps_def)
  let ?p2 = "p1\<lparr>dp_fdt := fdAdvance s fd n (dp_fdt p1)\<rparr>"
  have live: "import_inv (dp_b p1) (dp_fdt p1) \<Longrightarrow> live (opsAt (dp_b p1) s) s (fe_Handle e)"
    using resolve_live [of "dp_b p1" "dp_fdt p1" s fd e] e p1(2) by simp
  have live2: "import_inv (dp_b ?p2) (dp_fdt ?p2) \<Longrightarrow> live (opsAt (dp_b ?p2) s) s (fe_Handle e)"
    using resolve_advance [of s fd "dp_fdt p1" e "dp_b p1" n] e p1(2) by simp
  have eq: "dfRecordRW s t dur a kind positional fd e n p =
      (if positional \<and> da_Offset a \<noteq> None then dfEmitRW s t kind (fe_Handle e) (the (da_Offset a)) requested n dur p1
       else dfEmitRW s t kind (fe_Handle e) (fe_Cursor e) requested n dur ?p2)"
    by (simp only: dfRecordRW_def Let_def c_def requested_def p1_def)
  have "df_steps p1 (dfEmitRW s t kind (fe_Handle e) off requested n dur p1)" for off
    by (rule df_steps_emitRW [OF k n rq live])
  moreover have "df_steps p1 (dfEmitRW s t kind (fe_Handle e) off requested n dur ?p2)" for off
    by (rule df_steps_trans [OF df_steps_table(1) df_steps_emitRW [OF k n rq live2]])
  ultimately have "df_steps p1 (dfRecordRW s t dur a kind positional fd e n p)"
    by (simp add: eq)
  with p1(1) show ?thesis by (rule df_steps_trans)
qed

lemma df_steps_doRW:
  assumes "kind = OpRead \<or> kind = OpWrite"
  shows "df_steps p (dfDoRW s t dur a kind positional p)"
proof -
  obtain q k where q: "resolveFDKey a p = (q, k)" by fastforce
  have "df_steps q (dfDoRW s t dur a kind positional p)"
    using assms by (auto simp: dfDoRW_def q split: option.split intro!: df_steps_recordRW)
  with resolveFDKey_steps [OF q] show ?thesis by (rule df_steps_trans)
qed

lemma df_steps_doClose: "df_steps p (dfDoClose s t dur a p)"
proof -
  obtain q k where q: "resolveFDKey a p = (q, k)" by fastforce
  have "df_steps q (case fdClose s fd (dp_fdt q) of (fdt, None) \<Rightarrow> q\<lparr>dp_fdt := fdt\<rparr>
      | (fdt, Some h) \<Rightarrow> dfAdd (zero_op\<lparr>op_t := t, op_s := s, op_op := OpClose, op_h := Some h, op_dur := dur\<rparr>) (q\<lparr>dp_fdt := fdt\<rparr>))" for fd
  proof (cases "fdClose s fd (dp_fdt q)")
    case (Pair fdt r)
    with df_steps_table(3) [of q s fd] show ?thesis
      by (cases r) (auto simp: df_steps_def dfAdd_def intro: keeps_close)
  qed
  then have "df_steps q (dfDoClose s t dur a p)" by (simp add: dfDoClose_def q split: option.split)
  with resolveFDKey_steps [OF q] show ?thesis by (rule df_steps_trans)
qed

lemma df_steps_doLseek: "df_steps p (dfDoLseek s a p)"
proof -
  obtain q k where q: "resolveFDKey a p = (q, k)" by fastforce
  have "df_steps q (dfDoLseek s a p)" by (auto simp: dfDoLseek_def q df_steps_table split: option.split)
  with resolveFDKey_steps [OF q] show ?thesis by (rule df_steps_trans)
qed

lemma df_steps_doFsync: "df_steps p (dfDoFsync s t dur a p)"
proof -
  obtain q k where q: "resolveFDKey a p = (q, k)" by fastforce
  have "df_steps q (dfDoFsync s t dur a p)"
    by (auto simp: dfDoFsync_def q df_steps_def dfSkip_def dfAdd_def split: option.split intro!: keeps_fsync [OF resolve_live refl])
  with resolveFDKey_steps [OF q] show ?thesis by (rule df_steps_trans)
qed

lemma dfTable_kinds: "map_of dfTable name = Some (DfRW kind q) \<Longrightarrow> kind = OpRead \<or> kind = OpWrite"
proof -
  assume "map_of dfTable name = Some (DfRW kind q)"
  then have "DfRW kind q \<in> snd ` set dfTable" by (metis map_of_SomeD image_eqI snd_conv)
  then show ?thesis by (auto simp: dfTable_def)
qed

lemma df_steps_dispatch: "df_steps p (dfDispatch s t name dur a p)"
proof (cases "map_of dfTable name")
  case (Some c)
  then show ?thesis using dfTable_kinds [of name]
    by (cases c) (auto simp: dfDispatch_def df_steps_doOpen df_steps_doRW df_steps_doClose df_steps_doLseek df_steps_doFsync)
qed (simp add: dfDispatch_def)

lemma df_steps_event: "df_steps p (dfEvent ev p)"
proof -
  let ?p = "p\<lparr>dp_parsedEvents := dp_parsedEvents p + 1\<rparr>"
  obtain q s where q: "dfStream (de_Pid ev, de_Tid ev) ?p = (q, s)" by fastforce
  have p: "df_steps p ?p" by (rule df_steps_same) simp_all
  then have "df_steps p (dfDispatch s t name dur a q)" for t name dur a
    using df_steps_trans [OF dfStream_steps [OF q] df_steps_dispatch] by (rule df_steps_trans)
  with p df_steps_trans [OF p df_steps_skip] show ?thesis by (simp add: dfEvent_def Let_def q)
qed

lemma df_steps_line: "df_steps p (dfLine parse raw p)"
proof -
  have u: "df_steps p (p\<lparr>dp_lineUnparsed := n\<rparr>)" for p n by (rule df_steps_same) simp_all
  from df_steps_trans [OF df_steps_skip u] u df_steps_event show ?thesis
    by (simp add: dfLine_def Let_def dfSkip_def split: option.split)
qed

lemma dfScan_empty: "dp_b (dfScan parse lines) = newBuilder" "dp_fdt (dfScan parse lines) = newFDTable"
proof -
  have one: "dp_b (scanMeta parse l p) = dp_b p \<and> dp_fdt (scanMeta parse l p) = dp_fdt p" for l p
    by (simp add: scanMeta_def Let_def split: option.split)
  have "dp_b (foldl (\<lambda>p l. scanMeta parse l p) p lines) = dp_b p \<and> dp_fdt (foldl (\<lambda>p l. scanMeta parse l p) p lines) = dp_fdt p" for p
    by (induction lines arbitrary: p) (simp_all add: one)
  then show "dp_b (dfScan parse lines) = newBuilder" "dp_fdt (dfScan parse lines) = newFDTable"
    by (simp_all add: dfScan_def dfNewParser_def)
qed

interpretation dftracer: importer dp_b dp_fdt "dfScan parse" "dfLine parse" "\<lambda>p. p" for parse
proof
  show "dp_b (dfScan parse xs) = newBuilder" "dp_fdt (dfScan parse xs) = newFDTable" for xs by (rule dfScan_empty)+
  show "keeps (dp_b p, dp_fdt p) (dp_b (dfLine parse l p), dp_fdt (dfLine parse l p))" for l p
    using df_steps_line by (simp add: df_steps_def)
  show "keeps (dp_b p, dp_fdt p) (dp_b p, dp_fdt p)" for p by simp
qed

section \<open>Properties\<close>

lemma dfMeta_ok: "meta_ok (dfMeta nts)"
  by (simp add: meta_ok_def dfMeta_def dfCaptureLimitations_def ImportPrefix_def)


text \<open>A hashed-form log: the hash is defined by a metadata event, then opened and read.\<close>

definition sample_json :: "string \<Rightarrow> json option" where
  "sample_json s =
     (if s = ''{M}'' then Some (JObj [(''name'', JStr ''FH''), (''cat'', JStr ''dftracer''),
        (''args'', JObj [(''name'', JStr ''/d''), (''value'', JStr ''h'')])])
      else if s = ''{O}'' then Some (JObj [(''name'', JStr ''open64''), (''cat'', JStr ''POSIX''), (''args'', JObj [(''fhash'', JStr ''h'')])])
      else if s = ''{R}'' then Some (JObj [(''name'', JStr ''read''), (''cat'', JStr ''POSIX''),
        (''args'', JObj [(''fhash'', JStr ''h''), (''ret'', JStr ''512'')])])
      else None)"

definition sample_pfw :: "string list" where
  "sample_pfw = [''['', ''{O},'', ''{R},'', ''{M}'']"

lemma sample_pfw_fits: "import_fits (dp_b (dfParse sample_json sample_pfw)) \<and> 0 < dp_parsedEvents (dfParse sample_json sample_pfw)"
  by code_simp


end
