(* ===== verification/Checkpoint_Valid.thy ===== *)
theory Checkpoint_Valid
  imports Gen_Checkpoint
begin

text \<open>
  The checkpoint generator ends and writes a valid trace with the documented layout.
\<close>

section \<open>What a shard's ops are\<close>

definition numBlocks :: "int \<Rightarrow> int \<Rightarrow> nat" where
  "numBlocks sz block = nat ((sz + block - 1) div block)"

definition blockAt :: "int \<Rightarrow> int \<Rightarrow> int \<Rightarrow> int \<Rightarrow> int \<Rightarrow> nat \<Rightarrow> op" where
  "blockAt t r h sz block k = writeBlockOp t r h (int k * block) (min block (sz - int k * block))"

definition shardOps :: "int \<Rightarrow> int \<Rightarrow> int \<Rightarrow> int \<Rightarrow> int \<Rightarrow> int \<Rightarrow> bool \<Rightarrow> op list" where
  "shardOps t r h tgt sz block fsync =
     [zero_op\<lparr>op_t := t, op_s := r, op_op := OpOpen, op_tgt := Some tgt, op_h := Some h, op_mode := ModeWrite, op_flags := [''create'', ''trunc'']\<rparr>]
     @ map (blockAt t r h sz block) [0..<numBlocks sz block]
     @ (if fsync then [zero_op\<lparr>op_t := t, op_s := r, op_op := OpFsync, op_h := Some h\<rparr>] else [])
     @ [zero_op\<lparr>op_t := t, op_s := r, op_op := OpClose, op_h := Some h\<rparr>]"

text \<open>The start of each burst: the interval's multiple, never before the previous burst.\<close>

fun burstT :: "int \<Rightarrow> nat \<Rightarrow> int" where
  "burstT iv 0 = max 0 (i64 0)"
| "burstT iv (Suc c) = max (i64 (int (Suc c) * iv)) (burstT iv c)"

definition fsyncAt :: "ck_params \<Rightarrow> nat \<Rightarrow> bool" where
  "fsyncAt p c \<longleftrightarrow> pc_Fsync p = FsyncPerFile \<or> pc_Fsync p = FsyncFinal \<and> int c = pc_NumCheckpoints p - 1"

definition handleAt :: "ck_params \<Rightarrow> nat \<Rightarrow> nat \<Rightarrow> int" where
  "handleAt p c r = int c * pc_WriterRanks p + int r + 1"

definition shardAt :: "ck_params \<Rightarrow> nat \<Rightarrow> nat \<Rightarrow> op list" where
  "shardAt p r c = shardOps (burstT (intervalNS p) c) (int r) (handleAt p c r) (handleAt p c r - 1) (ckShardSize p r) (pc_WriteBlock p) (fsyncAt p c)"

lemma blocks_between:
  assumes "0 < (block :: int)"
  shows "x \<le> (sz + block - 1) div block \<longleftrightarrow> x * block < sz + block"
proof -
  define d m where "d = (sz + block - 1) div block" and "m = (sz + block - 1) mod block"
  have dm: "sz + block - 1 = d * block + m" "0 \<le> m" "m < block" using assms by (simp_all add: d_def m_def)
  have 1: "x * block \<le> d * block" if "x \<le> d" using that assms by (simp add: mult_right_mono)
  have 2: "(d + 1) * block \<le> x * block" if "\<not> x \<le> d" using that assms by (intro mult_right_mono) simp_all
  have "x \<le> d \<longleftrightarrow> x * block < sz + block"
  proof (cases "x \<le> d")
    case True
    with 1 [OF True] dm show ?thesis by linarith
  next
    case False
    have "(d + 1) * block = d * block + block" by (simp add: distrib_right)
    with 2 [OF False] dm False show ?thesis by linarith
  qed
  then show ?thesis by (simp only: d_def)
qed

lemma numBlocks_step:
  assumes "0 < block" "int k * block < sz"
  shows "k < numBlocks sz block" "sz \<le> (int k + 1) * block \<Longrightarrow> numBlocks sz block = Suc k"
proof -
  note b = blocks_between [OF assms(1), of _ sz]
  have 1: "int k + 1 \<le> (sz + block - 1) div block" unfolding b using assms by (simp add: distrib_right)
  then show "k < numBlocks sz block" by (simp add: numBlocks_def)
  assume "sz \<le> (int k + 1) * block"
  then have "\<not> int k + 2 \<le> (sz + block - 1) div block" unfolding b using assms by (simp add: distrib_right)
  with 1 show "numBlocks sz block = Suc k" by (simp add: numBlocks_def)
qed

lemma writeBlocks_result:
  assumes "0 < block" "in64 sz" "0 \<le> tot" "int k * block < sz" "tot + (sz - int k * block) < 2 ^ 63"
  shows "writeBlocks t r h sz block (int k * block) s tot
    = Some (foldl genAppend s (map (blockAt t r h sz block) [k..<numBlocks sz block]), tot + (sz - int k * block))"
  using assms
proof (induction "nat (sz - int k * block)" arbitrary: k s tot rule: less_induct)
  case less
  let ?off = "int k * block" and ?n = "min block (sz - int k * block)"
  have off: "0 \<le> ?off" using less.prems(1) by simp
  have n: "0 < ?n" "?n \<le> sz - ?off" using less.prems(1,4) by simp_all
  have r: "sz < 2 ^ 63" using less.prems(2) by (simp add: in64_def)
  have e1: "i64 (sz - ?off) = sz - ?off" by (rule i64_nonneg_bounded) (use less.prems(4) off r in linarith)+
  have e2: "i64 (?off + ?n) = ?off + ?n" by (rule i64_nonneg_bounded) (use off n r in linarith)+
  have e3: "i64 (tot + ?n) = tot + ?n" by (rule i64_nonneg_bounded) (use less.prems(3,5) n in linarith)+
  have m: "(if sz - ?off < block then sz - ?off else block) = ?n" by simp
  have step: "writeBlocks t r h sz block ?off s tot
    = writeBlocks t r h sz block (?off + ?n) (genAppend s (blockAt t r h sz block k)) (tot + ?n)"
    by (subst writeBlocks.simps) (simp only: less.prems(4) if_True Let_def e1 m e2 e3 blockAt_def)
  have up: "[k..<numBlocks sz block] = k # [Suc k..<numBlocks sz block]"
    using numBlocks_step(1) [OF less.prems(1,4)] by (rule upt_conv_Cons)
  show ?case
  proof (cases "sz \<le> ?off + block")
    case True
    then have "?n = sz - ?off" "numBlocks sz block = Suc k"
      using numBlocks_step(2) [OF less.prems(1,4)] by (simp_all add: algebra_simps)
    then show ?thesis unfolding step by (subst writeBlocks.simps) simp
  next
    case False
    then have nb: "?n = block" by simp
    have next': "int (Suc k) * block = ?off + block" by (simp add: algebra_simps)
    have "writeBlocks t r h sz block (int (Suc k) * block) s' (tot + block)
      = Some (foldl genAppend s' (map (blockAt t r h sz block) [Suc k..<numBlocks sz block]), tot + block + (sz - int (Suc k) * block))" for s'
      by (rule less.hyps) (use less.prems False in \<open>simp_all add: next' del: of_nat_Suc\<close>)
    then show ?thesis unfolding step nb next' up by simp
  qed
qed

lemma blocks_total:
  assumes "0 < block" "k \<le> numBlocks sz block" "0 < sz"
  shows "sum_list (map (bytesMoved \<circ> blockAt t r h sz block) [0..<k]) = min sz (int k * block)"
  using assms(2)
proof (induction k)
  case (Suc k)
  have "int k * block < sz"
  proof -
    have "int k + 1 \<le> (sz + block - 1) div block" using Suc.prems by (simp add: numBlocks_def)
    then show ?thesis unfolding blocks_between [OF assms(1)] by (simp add: distrib_right)
  qed
  with Suc assms(1) show ?case
    by (simp add: blockAt_def writeBlockOp_def bytesMoved_def transferredBytes_def requestedBytes_def countsBytes.simps zero_op_def algebra_simps min_def)
qed (use assms in simp)

lemma shard_total:
  assumes "0 < block" "0 < sz"
  shows "totalMoved (shardOps t r h tgt sz block fs) = sz"
proof -
  have "sz \<le> int (numBlocks sz block) * block"
  proof (rule ccontr)
    assume "\<not> ?thesis"
    then have "int (numBlocks sz block) * block < sz" by simp
    from numBlocks_step(1) [OF assms(1) this] show False by simp
  qed
  then have "sum_list (map (bytesMoved \<circ> blockAt t r h sz block) [0..<numBlocks sz block]) = sz"
    using blocks_total [OF assms(1) order_refl assms(2), of t r h] by simp
  moreover have "totalMoved (map (blockAt t r h sz block) [0..<numBlocks sz block]) = sum_list (map (bytesMoved \<circ> blockAt t r h sz block) [0..<numBlocks sz block])"
    by (simp add: totalMoved_def comp_def)
  ultimately show ?thesis by (simp add: shardOps_def bytesMoved_def countsBytes.simps zero_op_def)
qed

lemma shard_length:
  assumes "0 < block" "0 < sz"
  shows "int (length (shardOps t r h tgt sz block fs)) \<le> 4 * sz"
proof -
  have "int (numBlocks sz block) \<le> sz"
  proof (rule ccontr)
    assume "\<not> ?thesis"
    then have "sz + 1 \<le> (sz + block - 1) div block" using assms(2) unfolding numBlocks_def by linarith
    then have "(sz + 1) * block < sz + block" using blocks_between [OF assms(1)] by blast
    moreover have "sz * 1 \<le> sz * block" using assms by (intro mult_left_mono) simp_all
    ultimately show False by (simp add: distrib_right)
  qed
  then show ?thesis using assms by (simp add: shardOps_def)
qed

lemma sorted_const: "\<forall>x \<in> set xs. f x = (t :: int) \<Longrightarrow> sorted (map f xs)"
  by (induction xs) auto

lemma shard_times: "\<forall>x \<in> set (shardOps t r h tgt sz block fs). op_t x = t"
  by (auto simp: shardOps_def blockAt_def writeBlockOp_def)

lemma shard_session:
  assumes "0 < block" "0 < sz"
  shows "session r h tgt (shardOps t r h tgt sz block fs)"
proof -
  let ?w = "map (blockAt t r h sz block) [0..<numBlocks sz block]"
  let ?f = "if fs then [zero_op\<lparr>op_t := t, op_s := r, op_op := OpFsync, op_h := Some h\<rparr>] else []"
  have w: "uses_handle h (blockAt t r h sz block k)" if "k < numBlocks sz block" for k
  proof -
    have "int k + 1 \<le> (sz + block - 1) div block" using that by (simp add: numBlocks_def)
    then have "int k * block < sz" unfolding blocks_between [OF assms(1)] by (simp add: distrib_right)
    then show ?thesis using assms(1) by (simp add: uses_handle_def blockAt_def writeBlockOp_def nat_field_def zero_op_def)
  qed
  have "\<forall>m \<in> set (?w @ ?f). uses_handle h m"
  proof -
    have "uses_handle h (zero_op\<lparr>op_t := t, op_s := r, op_op := OpFsync, op_h := Some h\<rparr>)"
      by (simp add: uses_handle_def no_position_def zero_op_def)
    with w show ?thesis by auto
  qed
  moreover have "sorted (map op_t (shardOps t r h tgt sz block fs))" by (rule sorted_const) (rule shard_times)
  moreover have "\<forall>x \<in> set (shardOps t r h tgt sz block fs). op_s x = r"
    by (auto simp: shardOps_def blockAt_def writeBlockOp_def)
  moreover have "\<exists>o' ms c. shardOps t r h tgt sz block fs = o' # ms @ [c] \<and> opens_target h tgt o' \<and> closes_handle h c \<and> ms = ?w @ ?f"
    by (simp add: shardOps_def opens_target_def closes_handle_def no_position_def zero_op_def mode_valid.simps)
  ultimately show ?thesis unfolding session_def by metis
qed

lemma shard_wf:
  assumes "0 < block" "0 < sz" "in64 t" "in64 r" "in64 h" "in64 tgt" "in64 sz" "in64 block"
  shows "\<forall>x \<in> set (shardOps t r h tgt sz block fs). wf_op x"
proof -
  have "wf_op (blockAt t r h sz block k)" if "k < numBlocks sz block" for k
  proof -
    have "int k + 1 \<le> (sz + block - 1) div block" using that by (simp add: numBlocks_def)
    then have "int k * block < sz" unfolding blocks_between [OF assms(1)] by (simp add: distrib_right)
    moreover have "0 \<le> int k * block" "in64 0" using assms(1) by (simp_all add: in64_def)
    ultimately have "in64 (int k * block)" "in64 (sz - int k * block)"
      using assms(7) by (auto intro!: in64_between [of 0 sz])
    then have "in64 (int k * block)" "in64 (min block (sz - int k * block))" using assms(8) by (simp_all add: min_def)
    then show ?thesis using assms by (intro session_wf) (simp_all add: blockAt_def writeBlockOp_def zero_op_def)
  qed
  moreover have "wf_op x" if "op_op x \<in> {OpOpen, OpFsync, OpClose}" "op_mode x \<in> {ModeAbsent, ModeWrite}" "op_t x = t" "op_s x = r"
    "op_h x = Some h" "op_tgt x \<in> {None, Some tgt}" "op_off x = None" "op_len x = None" "op_id x = None" "op_group x = None" "op_ret x = None" "op_dur x = None" for x
    using assms that by (intro session_wf) auto
  ultimately show ?thesis by (fastforce simp: shardOps_def zero_op_def)
qed

section \<open>The state after some shards\<close>

text \<open>\<open>k\<close> of the rank's checkpoints are written.\<close>

definition done_by :: "nat \<Rightarrow> nat \<Rightarrow> nat \<Rightarrow> nat" where
  "done_by c r i = (if i < r then Suc c else c)"

definition ck_ok :: "ck_params \<Rightarrow> bool" where
  "ck_ok p \<longleftrightarrow> ckValidateParams p = None \<and> 4 * (pc_NumCheckpoints p * pc_ModelSize p) < 2 ^ 63 \<and> in64 (pc_WriteBlock p)"

definition ck_state :: "ck_params \<Rightarrow> header \<Rightarrow> nat \<Rightarrow> nat \<Rightarrow> gen_state \<Rightarrow> bool" where
  "ck_state p hdr c r st \<longleftrightarrow>
     length (gs_perStream st) = nat (pc_WriterRanks p) \<and> length (gs_streamT st) = nat (pc_WriterRanks p)
     \<and> (\<forall>i < nat (pc_WriterRanks p). map so_op (gs_perStream st ! i) = concat (map (shardAt p i) [0..<done_by c r i])
          \<and> gs_streamT st ! i = (if done_by c r i = 0 then 0 else burstT (intervalNS p) (done_by c r i - 1)))
     \<and> gs_nextHandle st = handleAt p c r
     \<and> gs_totalBytes st = int c * pc_ModelSize p + (\<Sum>i < r. ckShardSize p i)
     \<and> totalMoved (map so_op (concat (gs_perStream st))) = gs_totalBytes st
     \<and> int (length (concat (gs_perStream st))) \<le> 4 * gs_totalBytes st
     \<and> streams_ok hdr (gs_nextHandle st) (gs_perStream st)
     \<and> (\<forall>x \<in> set (map so_op (concat (gs_perStream st))). wf_op x)"

lemma ck_okD:
  assumes "ck_ok p"
  shows "0 < pc_ModelSize p" "0 < pc_WriterRanks p" "pc_WriterRanks p \<le> pc_ModelSize p" "0 < pc_WriteBlock p"
    "0 < pc_NumCheckpoints p" "pc_ModelSize p < 2 ^ 61" "pc_NumCheckpoints p < 2 ^ 61" "in64 (pc_WriteBlock p)"
    "pc_NumCheckpoints p * pc_ModelSize p < 2 ^ 61"
proof -
  show pos: "0 < pc_ModelSize p" "0 < pc_WriterRanks p" "pc_WriterRanks p \<le> pc_ModelSize p" "0 < pc_WriteBlock p" "0 < pc_NumCheckpoints p"
    using assms by (auto simp: ck_ok_def ckValidateParams_def split: if_splits)
  show "in64 (pc_WriteBlock p)" and nm: "pc_NumCheckpoints p * pc_ModelSize p < 2 ^ 61" using assms by (auto simp: ck_ok_def mult.commute)
  have "1 * pc_ModelSize p \<le> pc_NumCheckpoints p * pc_ModelSize p" "pc_NumCheckpoints p * 1 \<le> pc_NumCheckpoints p * pc_ModelSize p"
    using pos by (auto intro!: mult_right_mono mult_left_mono)
  with nm show "pc_ModelSize p < 2 ^ 61" "pc_NumCheckpoints p < 2 ^ 61" by linarith+
qed

lemma sizes_sum:
  assumes "0 < pc_WriterRanks p" "pc_WriterRanks p \<le> pc_ModelSize p" "pc_ModelSize p < 2 ^ 61" "r \<le> nat (pc_WriterRanks p)"
  shows "(\<Sum>i < r. ckShardSize p i) = (if r = nat (pc_WriterRanks p) then pc_ModelSize p else int r * (pc_ModelSize p div pc_WriterRanks p))"
    "r < nat (pc_WriterRanks p) \<Longrightarrow> 0 < ckShardSize p r \<and> ckShardSize p r \<le> pc_ModelSize p"
proof -
  let ?M = "pc_ModelSize p" and ?R = "pc_WriterRanks p"
  have b: "go_div ?M ?R = ?M div ?R" using assms by (simp add: go_div_nonneg)
  have base: "1 \<le> ?M div ?R" using assms div_le_mono2 zdiv_mono1 [of ?R ?M ?R] by simp
  have dm: "?M = ?M div ?R * ?R + ?M mod ?R" "0 \<le> ?M mod ?R" using assms by simp_all
  have "?M div ?R * 1 \<le> ?M div ?R * ?R" using assms base by (intro mult_left_mono) simp_all
  then have le: "?M div ?R + ?M mod ?R \<le> ?M" using dm by linarith
  have sz: "ckShardSize p i = ?M div ?R + (if int i = ?R - 1 then ?M mod ?R else 0)" for i
  proof -
    have "?M - ?M div ?R * ?R = ?M mod ?R" by (simp add: minus_div_mult_eq_mod)
    moreover have "i64 (?M div ?R + ?M mod ?R) = ?M div ?R + ?M mod ?R"
      by (rule i64_nonneg_bounded) (use base dm le assms(3) in simp_all)
    ultimately show ?thesis by (simp add: ckShardSize_def b)
  qed
  define q m where "q = ?M div ?R" and "m = ?M mod ?R"
  then have "1 \<le> q" "q + m \<le> ?M" "0 \<le> m" using base le dm(2) by simp_all
  then show "r < nat ?R \<Longrightarrow> 0 < ckShardSize p r \<and> ckShardSize p r \<le> ?M" by (simp add: sz flip: q_def m_def)
  have part: "(\<Sum>i < r. ckShardSize p i) = int r * (?M div ?R)" if "r < nat ?R" for r
  proof -
    have "(\<Sum>i < r. ckShardSize p i) = (\<Sum>i < r. ?M div ?R)" by (rule sum.cong) (use that in \<open>auto simp: sz\<close>)
    then show ?thesis by simp
  qed
  show "(\<Sum>i < r. ckShardSize p i) = (if r = nat ?R then ?M else int r * (?M div ?R))"
  proof (cases "r = nat ?R")
    case True
    with assms(1) have "r = Suc (r - 1)" by simp
    then obtain k where k: "r = Suc k" by blast
    with True have "int k = ?R - 1" "k < nat ?R" by simp_all
    then have "ckShardSize p k = ?M div ?R + ?M mod ?R" by (simp add: sz)
    moreover have "?M div ?R * ?R = int k * (?M div ?R) + ?M div ?R" using \<open>int k = ?R - 1\<close> by (metis add.commute diff_add_cancel distrib_left mult.commute mult.right_neutral)
    ultimately have "(\<Sum>i < Suc k. ckShardSize p i) = ?M" using part [OF \<open>k < nat ?R\<close>] dm(1) by simp
    then have "(\<Sum>i < r. ckShardSize p i) = ?M" unfolding k .
    with True show ?thesis by simp
  qed (use part assms(4) in simp)
qed

lemma burstT_range: "0 \<le> burstT iv c \<and> in64 (burstT iv c)"
  by (induction c) (auto simp: max_def in64_def [of 0] i64_def [of 0])

lemma burstT_mono: "c \<le> d \<Longrightarrow> burstT iv c \<le> burstT iv d"
  by (induction d) (auto simp: le_Suc_eq max_def)

lemma target_index:
  assumes "c < n" "r < m"
  shows "concat (map (\<lambda>c. map (f c) [0..<m]) [0..<n]) ! (c * m + r) = f c r"
    "length (concat (map (\<lambda>c. map (f c) [0..<m]) [0..<n])) = n * m"
proof -
  show len: "length (concat (map (\<lambda>c. map (f c) [0..<m]) [0..<n])) = n * m" for n by (induction n) simp_all
  show "concat (map (\<lambda>c. map (f c) [0..<m]) [0..<n]) ! (c * m + r) = f c r"
    using assms
  proof (induction n)
    case (Suc n)
    show ?case
    proof (cases "c = n")
      case True
      then show ?thesis using Suc.prems len [of n] by (simp add: nth_append)
    next
      case False
      with Suc.prems have "c < n" by simp
      then have "Suc c * m \<le> n * m" by (intro mult_le_mono1) simp
      then have "c * m + r < n * m" using Suc.prems by simp
      then show ?thesis using Suc.IH [OF \<open>c < n\<close>] Suc.prems len [of n] by (simp add: nth_append)
    qed
  qed simp
qed

lemma ck_targets:
  assumes "ck_ok p" "c < nat (pc_NumCheckpoints p)" "r < nat (pc_WriterRanks p)"
  shows "ti_size (ckBuildTargets p ! (c * nat (pc_WriterRanks p) + r)) = ckShardSize p r"
  unfolding ckBuildTargets_def target_index(1) [OF assms(2,3)] by simp

lemma ck_targets_length: "length (ckBuildTargets p) = nat (pc_NumCheckpoints p) * nat (pc_WriterRanks p)"
proof -
  have "length (concat (map (\<lambda>c. map (f c) [0..<m]) [0..<n])) = n * m" for f :: "nat \<Rightarrow> nat \<Rightarrow> target_info" and n m
    by (induction n) simp_all
  then show ?thesis by (simp add: ckBuildTargets_def)
qed

lemma handle_bounds:
  assumes "ck_ok p" "c < nat (pc_NumCheckpoints p)" "r < nat (pc_WriterRanks p)"
  shows "1 \<le> handleAt p c r" "handleAt p c r \<le> pc_NumCheckpoints p * pc_WriterRanks p" "handleAt p c r < 2 ^ 62"
    "handleAt p c r - 1 = int (c * nat (pc_WriterRanks p) + r)" "handleAt p c r - 1 < int (length (ckBuildTargets p))"
proof -
  note ok = ck_okD [OF assms(1)]
  show "1 \<le> handleAt p c r" using ok by (simp add: handleAt_def)
  have "(int c + 1) * pc_WriterRanks p \<le> pc_NumCheckpoints p * pc_WriterRanks p" using assms(2) ok by (intro mult_right_mono) auto
  then show le: "handleAt p c r \<le> pc_NumCheckpoints p * pc_WriterRanks p" using assms(3) by (simp add: handleAt_def distrib_right)
  have "pc_NumCheckpoints p * pc_WriterRanks p \<le> pc_NumCheckpoints p * pc_ModelSize p" using ok by (intro mult_left_mono) simp_all
  with le ok(9) show "handleAt p c r < 2 ^ 62" by simp
  show e: "handleAt p c r - 1 = int (c * nat (pc_WriterRanks p) + r)" using ok by (simp add: handleAt_def)
  show "handleAt p c r - 1 < int (length (ckBuildTargets p))" using le ok by (simp add: ck_targets_length)
qed

lemma ck_stateD:
  assumes "ck_state p hdr c r st"
  shows "length (gs_perStream st) = nat (pc_WriterRanks p)" "length (gs_streamT st) = nat (pc_WriterRanks p)"
    "gs_nextHandle st = handleAt p c r" "gs_totalBytes st = int c * pc_ModelSize p + (\<Sum>i < r. ckShardSize p i)"
    "totalMoved (map so_op (concat (gs_perStream st))) = gs_totalBytes st" "int (length (concat (gs_perStream st))) \<le> 4 * gs_totalBytes st"
    "streams_ok hdr (gs_nextHandle st) (gs_perStream st)" "\<forall>x \<in> set (map so_op (concat (gs_perStream st))). wf_op x"
    "i < nat (pc_WriterRanks p) \<Longrightarrow> map so_op (gs_perStream st ! i) = concat (map (shardAt p i) [0..<done_by c r i])"
    "i < nat (pc_WriterRanks p) \<Longrightarrow> gs_streamT st ! i = (if done_by c r i = 0 then 0 else burstT (intervalNS p) (done_by c r i - 1))"
  using assms unfolding ck_state_def by blast+

lemma ck_stateI:
  assumes "length (gs_perStream st) = nat (pc_WriterRanks p)" "length (gs_streamT st) = nat (pc_WriterRanks p)"
    "gs_nextHandle st = handleAt p c r" "gs_totalBytes st = int c * pc_ModelSize p + (\<Sum>i < r. ckShardSize p i)"
    "totalMoved (map so_op (concat (gs_perStream st))) = gs_totalBytes st" "int (length (concat (gs_perStream st))) \<le> 4 * gs_totalBytes st"
    "streams_ok hdr (gs_nextHandle st) (gs_perStream st)" "\<forall>x \<in> set (map so_op (concat (gs_perStream st))). wf_op x"
    "\<And>i. i < nat (pc_WriterRanks p) \<Longrightarrow> map so_op (gs_perStream st ! i) = concat (map (shardAt p i) [0..<done_by c r i])"
    "\<And>i. i < nat (pc_WriterRanks p) \<Longrightarrow> gs_streamT st ! i = (if done_by c r i = 0 then 0 else burstT (intervalNS p) (done_by c r i - 1))"
  shows "ck_state p hdr c r st"
  unfolding ck_state_def by (intro conjI allI impI) (fact assms | rule assms, assumption)+

lemma shards_below:
  assumes "ck_ok p" "r < nat (pc_WriterRanks p)"
  shows "0 \<le> (\<Sum>i < r. ckShardSize p i)" "(\<Sum>i < r. ckShardSize p i) + ckShardSize p r \<le> pc_ModelSize p"
proof -
  note k = ck_okD [OF assms(1)]
  have pos: "0 \<le> ckShardSize p i" if "i < nat (pc_WriterRanks p)" for i
    using sizes_sum(2) [OF k(2,3,6) less_imp_le [OF that] that] by simp
  with assms(2) show "0 \<le> (\<Sum>i < r. ckShardSize p i)" by (intro sum_nonneg) simp
  have "{..<Suc r} \<subseteq> {..<nat (pc_WriterRanks p)}" using assms(2) by auto
  then have "(\<Sum>i < Suc r. ckShardSize p i) \<le> (\<Sum>i < nat (pc_WriterRanks p). ckShardSize p i)"
    using pos by (intro sum_mono2) auto
  then show "(\<Sum>i < r. ckShardSize p i) + ckShardSize p r \<le> pc_ModelSize p" using sizes_sum(1) [OF k(2,3,6) order_refl] by simp
qed

lemma ck_total_bound:
  assumes "ck_ok p" "ck_state p hdr c r st" "c < nat (pc_NumCheckpoints p)" "r < nat (pc_WriterRanks p)"
  shows "gs_totalBytes st + ckShardSize p r < 2 ^ 61" "0 \<le> gs_totalBytes st"
proof -
  note k = ck_okD [OF assms(1)] and b = shards_below [OF assms(1,4)] and t = ck_stateD(4) [OF assms(2)]
  have "(int c + 1) * pc_ModelSize p \<le> pc_NumCheckpoints p * pc_ModelSize p" using assms(3) k(1) by (intro mult_right_mono) auto
  then have "int c * pc_ModelSize p + pc_ModelSize p < 2 ^ 61" using k(9) by (simp add: distrib_right)
  with b(2) show "gs_totalBytes st + ckShardSize p r < 2 ^ 61" unfolding t by linarith
  have "0 \<le> int c * pc_ModelSize p" using k(1) by simp
  with b(1) show "0 \<le> gs_totalBytes st" unfolding t by linarith
qed

lemma genShard_result:
  assumes ok: "ck_ok p" and st: "ck_state p hdr c r st" and cr: "c < nat (pc_NumCheckpoints p)" "r < nat (pc_WriterRanks p)"
  shows "genShard p (intervalNS p) (ckBuildTargets p) c r st =
    Some \<lparr>gs_perStream = (gs_perStream st)[r := foldl genAppend (gs_perStream st ! r) (shardAt p r c)],
      gs_streamT = (gs_streamT st)[r := burstT (intervalNS p) c],
      gs_nextHandle = handleAt p c r + 1, gs_totalBytes = gs_totalBytes st + ckShardSize p r\<rparr>"
proof -
  note k = ck_okD [OF ok] and b = ck_total_bound [OF ok st cr]
  note sz = sizes_sum(2) [OF k(2,3,6) less_imp_le [OF cr(2)] cr(2)]
  have "gs_streamT st ! r = (if c = 0 then 0 else burstT (intervalNS p) (c - 1))"
    using ck_stateD(10) [OF st cr(2)] by (simp add: done_by_def)
  then have t: "(if gs_streamT st ! r > i64 (int c * intervalNS p) then gs_streamT st ! r else i64 (int c * intervalNS p))
    = burstT (intervalNS p) c" by (cases c) (auto simp: max_def)
  have ws: "writeBlocks t r' h' (ckShardSize p r) (pc_WriteBlock p) 0 s (gs_totalBytes st)
    = Some (foldl genAppend s (map (blockAt t r' h' (ckShardSize p r) (pc_WriteBlock p)) [0..<numBlocks (ckShardSize p r) (pc_WriteBlock p)]),
        gs_totalBytes st + ckShardSize p r)" for t r' h' s
    using writeBlocks_result [OF k(4), of "ckShardSize p r" "gs_totalBytes st" 0 t r' h' s] sz k(6) b by (simp add: in64_def)
  show ?thesis
    by (simp add: genShard_def Let_def t ck_targets [OF ok cr] ws ck_stateD(3) [OF st] shardAt_def shardOps_def fsyncAt_def
        handle_bounds(4) [OF ok cr])
qed

lemma genShard_step:
  assumes ok: "ck_ok p" and st: "ck_state p hdr c r st" and cr: "c < nat (pc_NumCheckpoints p)" "r < nat (pc_WriterRanks p)"
    and h: "hdr_targets hdr = ckBuildTargets p"
  shows "\<exists>st'. genShard p (intervalNS p) (ckBuildTargets p) c r st = Some st' \<and> ck_state p hdr c (Suc r) st'"
proof -
  note k = ck_okD [OF ok] and hb = handle_bounds [OF ok cr] and b = ck_total_bound [OF ok st cr] and inv = ck_stateD [OF st]
  note sz = conjunct1 [OF sizes_sum(2) [OF k(2,3,6) less_imp_le [OF cr(2)] cr(2)]]
  let ?xs = "shardAt p r c" and ?ps = "gs_perStream st"
  have r: "r < length ?ps" using cr(2) inv(1) by simp
  note up = concat_update_ops [OF r, of ?xs]
  have old: "op_t x \<le> burstT (intervalNS p) c" if "x \<in> set (map so_op (?ps ! r))" for x
  proof -
    have "x \<in> set (concat (map (shardAt p r) [0..<c]))" using that inv(9) [OF cr(2)] by (simp add: done_by_def)
    then obtain d where "d < c" "x \<in> set (shardAt p r d)" by auto
    then show ?thesis using shard_times burstT_mono [of d c] by (simp add: shardAt_def)
  qed
  have ses: "session (int r) (handleAt p c r) (handleAt p c r - 1) ?xs" unfolding shardAt_def by (rule shard_session [OF k(4) sz])
  have "streams_ok hdr (gs_nextHandle st + 1) (?ps[r := foldl genAppend (?ps ! r) ?xs])"
    by (rule streams_ok_session [OF inv(7) r, of "handleAt p c r - 1"])
      (use ses inv(3) hb old shard_times in \<open>auto simp: h shardAt_def\<close>)
  moreover have "\<forall>x \<in> set ?xs. wf_op x"
  proof -
    have "int r < 2 ^ 61" "ckShardSize p r < 2 ^ 61" using cr(2) k(3,6) b by linarith+
    then have "in64 (int r)" "in64 (handleAt p c r)" "in64 (handleAt p c r - 1)" "in64 (ckShardSize p r)"
      using hb(1,3) sz by (simp_all add: in64_def)
    then show ?thesis unfolding shardAt_def using burstT_range k(4,8) sz by (intro shard_wf) blast+
  qed
  moreover have "totalMoved ?xs = ckShardSize p r" "int (length ?xs) \<le> 4 * ckShardSize p r"
    unfolding shardAt_def by (rule shard_total [OF k(4) sz], rule shard_length [OF k(4) sz])
  moreover have "map so_op (?ps[r := foldl genAppend (?ps ! r) ?xs] ! i) = concat (map (shardAt p i) [0..<done_by c (Suc r) i])"
    if "i < nat (pc_WriterRanks p)" for i
    using inv(9) [OF that] r that by (auto simp: nth_list_update appendOps_ops done_by_def)
  moreover have "(gs_streamT st)[r := burstT (intervalNS p) c] ! i
    = (if done_by c (Suc r) i = 0 then 0 else burstT (intervalNS p) (done_by c (Suc r) i - 1))" if "i < nat (pc_WriterRanks p)" for i
    using inv(10) [OF that] inv(2) that cr(2) by (cases "i = r") (auto simp: nth_list_update done_by_def)
  ultimately have "ck_state p hdr c (Suc r)
    \<lparr>gs_perStream = ?ps[r := foldl genAppend (?ps ! r) ?xs], gs_streamT = (gs_streamT st)[r := burstT (intervalNS p) c],
      gs_nextHandle = handleAt p c r + 1, gs_totalBytes = gs_totalBytes st + ckShardSize p r\<rparr>"
    using inv(1-8) up by (intro ck_stateI) (simp_all add: handleAt_def ball_Un)
  then show ?thesis unfolding genShard_result [OF ok st cr] by blast
qed

lemma ck_state_wrap: "ck_state p hdr c (nat (pc_WriterRanks p)) st \<Longrightarrow> ck_ok p \<Longrightarrow> ck_state p hdr (Suc c) 0 st"
proof -
  assume st: "ck_state p hdr c (nat (pc_WriterRanks p)) st" and ok: "ck_ok p"
  note k = ck_okD [OF ok]
  have "handleAt p c (nat (pc_WriterRanks p)) = handleAt p (Suc c) 0" using k(2) by (simp add: handleAt_def distrib_right)
  moreover have "(\<Sum>i < nat (pc_WriterRanks p). ckShardSize p i) = pc_ModelSize p" using sizes_sum(1) [OF k(2,3,6) order_refl] by simp
  moreover have "i < nat (pc_WriterRanks p) \<Longrightarrow> done_by c (nat (pc_WriterRanks p)) i = done_by (Suc c) 0 i" for i by (simp add: done_by_def)
  ultimately show ?thesis using ck_stateD [OF st] by (intro ck_stateI) (simp_all add: distrib_right)
qed

lemma genRanks_result:
  assumes "ck_ok p" "c < nat (pc_NumCheckpoints p)" "hdr_targets hdr = ckBuildTargets p"
  shows "ck_state p hdr c r st \<Longrightarrow> r \<le> nat (pc_WriterRanks p) \<Longrightarrow>
    \<exists>st'. genRanks p (intervalNS p) (ckBuildTargets p) c [r..<nat (pc_WriterRanks p)] st = Some st' \<and> ck_state p hdr (Suc c) 0 st'"
proof (induction "nat (pc_WriterRanks p) - r" arbitrary: r st)
  case 0
  then show ?case using ck_state_wrap [OF _ assms(1)] by auto
next
  case (Suc n)
  then have r: "r < nat (pc_WriterRanks p)" by simp
  from genShard_step [OF assms(1) Suc.prems(1) assms(2) r assms(3)]
  obtain st' where st': "genShard p (intervalNS p) (ckBuildTargets p) c r st = Some st'" "ck_state p hdr c (Suc r) st'" by blast
  from Suc.hyps(1) [OF _ st'(2)] Suc.hyps(2) r show ?case by (simp add: upt_conv_Cons st'(1))
qed

lemma genCheckpoints_result:
  assumes "ck_ok p" "hdr_targets hdr = ckBuildTargets p"
  shows "ck_state p hdr c 0 st \<Longrightarrow> c \<le> nat (pc_NumCheckpoints p) \<Longrightarrow>
    \<exists>st'. genCheckpoints p (intervalNS p) (ckBuildTargets p) [c..<nat (pc_NumCheckpoints p)] st = Some st'
      \<and> ck_state p hdr (nat (pc_NumCheckpoints p)) 0 st'"
proof (induction "nat (pc_NumCheckpoints p) - c" arbitrary: c st)
  case (Suc n)
  then have c: "c < nat (pc_NumCheckpoints p)" by simp
  from genRanks_result [OF assms(1) c assms(2) Suc.prems(1)]
  obtain st' where st': "genRanks p (intervalNS p) (ckBuildTargets p) c [0..<nat (pc_WriterRanks p)] st = Some st'" "ck_state p hdr (Suc c) 0 st'" by blast
  from Suc.hyps(1) [OF _ st'(2)] Suc.hyps(2) c show ?case by (simp add: upt_conv_Cons st'(1))
qed simp

lemma ckInit_state: "ck_ok p \<Longrightarrow> ck_state p hdr 0 0 (ckInit p)"
  by (simp add: ck_state_def ckInit_def done_by_def handleAt_def streams_ok_def stream_ok_def own_handles_def concat_replicate_trivial)

lemma shard_stream: "x \<in> set (shardOps t r h tgt sz block fs) \<Longrightarrow> op_s x = r"
  by (auto simp: shardOps_def blockAt_def writeBlockOp_def)

lemma shard_no_id: "x \<in> set (shardOps t r h tgt sz block fs) \<Longrightarrow> x\<lparr>op_id := None\<rparr> = x"
  by (auto simp: shardOps_def blockAt_def writeBlockOp_def zero_op_def)

lemma shard_full: "x \<in> set (shardOps t r h tgt sz block fs) \<Longrightarrow> op_ret x = None"
  by (auto simp: shardOps_def blockAt_def writeBlockOp_def zero_op_def)

lemma ck_targets_spec:
  assumes "ck_ok p"
  shows "targets_spec 0 (ckBuildTargets p)" "\<forall>t \<in> set (ckBuildTargets p). wf_target t"
proof -
  note k = ck_okD [OF assms]
  let ?N = "nat (pc_NumCheckpoints p)" and ?R = "nat (pc_WriterRanks p)"
  have sz: "0 \<le> ckShardSize p r \<and> ckShardSize p r < 2 ^ 61" if "r < ?R" for r
    using sizes_sum(2) [OF k(2,3,6) less_imp_le [OF that] that] k(6) by simp
  have ids: "map ti_id (ckBuildTargets p) = map int [0..<?N * ?R]"
  proof -
    have "map ti_id (concat (map (\<lambda>c. map (\<lambda>r. \<lparr>ti_id = int c * pc_WriterRanks p + int r, ti_name = f c r, ti_kind = TargetFile, ti_size = ckShardSize p r\<rparr>) [0..<?R]) [0..<n]))
      = map int [0..<n * ?R]" for n f
    proof (induction n)
      case (Suc n)
      have "[0..<Suc n * ?R] = [0..<n * ?R] @ map (\<lambda>r. n * ?R + r) [0..<?R]"
        using upt_add_eq_append [of 0 "n * ?R" ?R] map_add_upt [of "n * ?R" ?R] by (simp add: add.commute)
      then show ?case using Suc k(2) by simp
    qed simp
    then show ?thesis by (simp add: ckBuildTargets_def)
  qed
  show "targets_spec 0 (ckBuildTargets p)"
    unfolding targets_spec_iff using ids sz by (auto simp: ck_targets_length) (auto simp: ckBuildTargets_def)
  have "in64 (ti_id t)" if "t \<in> set (ckBuildTargets p)" for t
  proof -
    have "ti_id t \<in> set (map int [0..<?N * ?R])" using that by (metis ids imageI list.set_map)
    then obtain n where "ti_id t = int n" "n < ?N * ?R" by auto
    then have "0 \<le> ti_id t" "ti_id t < int ?N * int ?R" by (simp_all only: of_nat_0_le_iff of_nat_less_iff flip: of_nat_mult)
    moreover have "int ?N * int ?R \<le> pc_NumCheckpoints p * pc_ModelSize p" using k by (simp add: mult_left_mono)
    ultimately show ?thesis using k(9) by (simp add: in64_def)
  qed
  then show "\<forall>t \<in> set (ckBuildTargets p). wf_target t"
    using sz by (auto simp: wf_target_def) (fastforce simp: ckBuildTargets_def in64_def target_kind_of_def)+
qed

lemma ckHeader_ok:
  assumes ok: "ck_ok p" and st: "ck_state p (ckHeader fmt_g p (ckBuildTargets p) ops tot) (nat (pc_NumCheckpoints p)) 0 st"
    and ops: "ops = fileOps (gs_perStream st)" and tot: "tot = gs_totalBytes st"
  defines "hdr \<equiv> ckHeader fmt_g p (ckBuildTargets p) ops tot"
  shows "header_spec hdr" "wf_header hdr" "ops_spec hdr ops" "summary_spec hdr ops" "\<forall>x \<in> set ops. wf_op x"
    "totalMoved ops = pc_NumCheckpoints p * pc_ModelSize p"
    "r < nat (pc_WriterRanks p) \<Longrightarrow> map noID (stream_of (int r) ops) = concat (map (shardAt p r) [0..<nat (pc_NumCheckpoints p)])"
proof -
  note k = ck_okD [OF ok] and inv = ck_stateD [OF st]
  let ?ps = "gs_perStream st" and ?N = "nat (pc_NumCheckpoints p)" and ?R = "nat (pc_WriterRanks p)"
  note m = merged_sessions [OF inv(7)]
  have tot': "tot = pc_NumCheckpoints p * pc_ModelSize p" using inv(4) k by (simp add: tot)
  show "totalMoved ops = pc_NumCheckpoints p * pc_ModelSize p" using m(3) inv(5) tot' by (simp add: ops tot)
  have len: "int (length ops) < 2 ^ 63" using inv(6) m(2) k(9) tot' by (simp add: ops tot)
  show wf: "\<forall>x \<in> set ops. wf_op x" unfolding ops by (rule merged_wf) (use inv(8) len m(2) in \<open>auto simp: ops\<close>)
  show "ops_spec hdr ops" using m(1) by (simp add: hdr_def ops)
  have elem: "\<exists>r < ?R. \<exists>c < ?N. \<exists>y \<in> set (shardAt p r c). \<exists>j. x = y\<lparr>op_id := Some j\<rparr>" if x: "x \<in> set ops" for x
  proof -
    obtain q y j where y: "q \<in> set ?ps" "y \<in> set q" "x = (so_op y)\<lparr>op_id := Some j\<rparr>" using fileOps_elem [OF x [unfolded ops]] by auto
    then obtain r where r: "r < ?R" "q = ?ps ! r" using inv(1) by (metis in_set_conv_nth)
    have "so_op y \<in> set (concat (map (shardAt p r) [0..<?N]))" using y(2) inv(9) [OF r(1)] r(2) by (metis done_by_def image_eqI less_nat_zero_code list.set_map)
    then obtain c where "c < ?N" "so_op y \<in> set (shardAt p r c)" by auto
    with r(1) y(3) show ?thesis by blast
  qed
  have time: "0 \<le> op_t x \<and> in64 (op_t x) \<and> \<not> isPartialTransfer x" if "x \<in> set ops" for x
    using elem [OF that] shard_times burstT_range [of "intervalNS p"] shard_full by (fastforce simp: shardAt_def isPartialTransfer_def)
  have dur: "0 \<le> (if ops = [] then 0 else op_t (last ops))" "in64 (if ops = [] then 0 else op_t (last ops))"
    using time by (auto simp: in64_def [of 0])
  show "header_spec hdr"
    using ck_targets_spec(1) [OF ok] dur(1) tot' k
    by (simp add: hdr_def ckHeader_def header_spec_def version_defs TimeUnitNanoseconds_def CaptureSynthetic_def)
  have "0 < pc_NumCheckpoints p * pc_ModelSize p" using k(1,5) by simp
  then have "0 < tot" "tot < 2 ^ 61" unfolding tot' using k(9) by blast+
  then have "in64 tot" "in64 (pc_WriterRanks p)" using k(2,3,6) by (simp_all add: in64_def)
  then show "wf_header hdr"
    using ck_targets_spec(2) [OF ok] dur(2) len
    by (simp add: hdr_def ckHeader_def wf_header_def wf_summary_def version_defs in64_def zero_header_def trace_kind_of_def)
  have stream: "map noID (stream_of (int r) ops) = concat (map (shardAt p r) [0..<?N])" if "r < ?R" for r
  proof -
    have "map noID (stream_of (int r) ops) = stream_of (int r) (map noID (map so_op (mergeAndSort ?ps)))"
      by (simp only: noID_stream ops fileOps_def noID_renumber)
    also have "\<dots> = map noID (concat (map (shardAt p r) [0..<?N]))"
    proof -
      have "stream_of (int r) (map so_op (mergeAndSort ?ps)) = concat (map (shardAt p r) [0..<?N])"
        using merged_stream [OF inv(7), of "int r"] inv(1) inv(9) [OF that] that by (simp add: done_by_def)
      then show ?thesis by (simp only: flip: noID_stream)
    qed
    also have "\<dots> = concat (map (shardAt p r) [0..<?N])" by (rule map_idI) (auto simp: shardAt_def noID_def shard_no_id)
    finally show ?thesis .
  qed
  then show "r < ?R \<Longrightarrow> map noID (stream_of (int r) ops) = concat (map (shardAt p r) [0..<?N])" by simp
  have "op_s ` set ops = int ` {..<?R}"
  proof (intro set_eqI iffI)
    fix s assume "s \<in> op_s ` set ops"
    then obtain x where "x \<in> set ops" "s = op_s x" by blast
    with elem [of x] show "s \<in> int ` {..<?R}" by (auto simp: shardAt_def shard_stream)
  next
    fix s assume "s \<in> int ` {..<?R}"
    then obtain r where r: "r < ?R" "s = int r" by blast
    have "concat (map (shardAt p r) [0..<?N]) \<noteq> []" using k(5) by (auto simp: shardAt_def shardOps_def intro!: exI [of _ 0])
    with stream [OF r(1)] have "stream_of (int r) ops \<noteq> []" by auto
    then show "s \<in> op_s ` set ops" using r(2) by (force simp: stream_of_def filter_empty_conv)
  qed
  then have "card (op_s ` set ops) = ?R" by (simp add: card_image)
  moreover have "filter isPartialTransfer ops = []" using time by (simp add: filter_empty_conv)
  ultimately show "summary_spec hdr ops" using k by (simp add: hdr_def ckHeader_def summary_spec_def)
qed

lemma ck_generated:
  assumes "ck_ok p"
  shows "\<exists>out ops. ckGenerate fmt_g (\<lambda>_. True) p = Some (Inr out) \<and> written_as out ops
    \<and> totalMoved ops = pc_NumCheckpoints p * pc_ModelSize p
    \<and> (\<forall>r < nat (pc_WriterRanks p). map noID (stream_of (int r) ops) = concat (map (shardAt p r) [0..<nat (pc_NumCheckpoints p)]))"
proof -
  let ?t = "ckBuildTargets p"
  obtain st where g: "genCheckpoints p (intervalNS p) ?t [0..<nat (pc_NumCheckpoints p)] (ckInit p) = Some st"
    using genCheckpoints_result [OF assms _ ckInit_state [OF assms] le0, of "ckHeader fmt_g p ?t [] 0"] by (auto simp: ckHeader_def)
  let ?ops = "fileOps (gs_perStream st)" and ?hdr = "ckHeader fmt_g p ?t (fileOps (gs_perStream st)) (gs_totalBytes st)"
  have "ck_state p ?hdr (nat (pc_NumCheckpoints p)) 0 st"
    using genCheckpoints_result [OF assms _ ckInit_state [OF assms] le0, of ?hdr] g by (auto simp: ckHeader_def)
  note h = ckHeader_ok [OF assms this refl refl]
  obtain out where "writeTrace (\<lambda>_. True) ?hdr ?ops = Inr out" "written_as out ?ops"
    using written_trace [OF h(1-5)] by blast
  moreover have "ckValidateParams p = None" using assms by (simp add: ck_ok_def)
  ultimately show ?thesis using h(6,7) by (intro exI [of _ out] exI [of _ ?ops]) (simp add: ckGenerate_def Let_def g)
qed

section \<open>Properties\<close>


definition sample_params :: ck_params where
  "sample_params = \<lparr>pc_ModelSize = 10, pc_WriterRanks = 3, pc_WriteBlock = 2, pc_NumCheckpoints = 2, pc_IntervalSec = Some (1 / 2),
     pc_Fsync = FsyncFinal, pc_CreatedUTC = []\<rparr>"

lemma sample_params_ok: "ck_ok sample_params"
  by (simp add: ck_ok_def ckValidateParams_def sample_params_def in64_def)


text \<open>
  C10: in the generated file each rank's stream is, checkpoint by checkpoint, one shard: the
  shard's file is created, written front to back in blocks with a shorter last one, synced as
  the policy says and closed, all at the start of the burst.
\<close>

theorem checkpoint_layout:
  assumes "ck_ok p" "ckGenerate fmt_g (\<lambda>_. True) p = Some (Inr out)" "written_as out ops" "r < nat (pc_WriterRanks p)"
  shows "map noID (stream_of (int r) ops) = concat (map (\<lambda>c.
      shardOps (burstT (intervalNS p) c) (int r) (handleAt p c r) (handleAt p c r - 1) (ckShardSize p r) (pc_WriteBlock p) (fsyncAt p c))
    [0..<nat (pc_NumCheckpoints p)])"
proof -
  from ck_generated [OF assms(1), of fmt_g] assms(2) obtain ops' where ops': "written_as out ops'"
    "\<forall>r < nat (pc_WriterRanks p). map noID (stream_of (int r) ops') = concat (map (shardAt p r) [0..<nat (pc_NumCheckpoints p)])" by auto
  with written_as_unique [OF assms(3) ops'(1)] assms(4) show ?thesis unfolding shardAt_def by simp
qed

theorem checkpoint_layout_witness:
  "\<exists>out ops. ckGenerate (\<lambda>_. []) (\<lambda>_. True) sample_params = Some (Inr out) \<and> written_as out ops
    \<and> map noID (stream_of 1 ops) =
        shardOps (burstT (intervalNS sample_params) 0) 1 2 1 3 2 False @ shardOps (burstT (intervalNS sample_params) 1) 1 5 4 3 2 True"
proof -
  obtain out ops where g: "ckGenerate (\<lambda>_. []) (\<lambda>_. True) sample_params = Some (Inr out)" "written_as out ops"
    using ck_generated [OF sample_params_ok] by blast
  have "map noID (stream_of 1 ops) =
        shardOps (burstT (intervalNS sample_params) 0) 1 2 1 3 2 False @ shardOps (burstT (intervalNS sample_params) 1) 1 5 4 3 2 True"
    using checkpoint_layout [OF sample_params_ok g, of 1]
    by (simp add: sample_params_def handleAt_def ckShardSize_def go_div_def fsyncAt_def FsyncPerFile_def FsyncFinal_def upt_rec)
  with g show ?thesis by blast
qed

end
