(* ===== verification/Training_Valid.thy ===== *)
theory Training_Valid
  imports Gen_Training
begin

text \<open>
  The training-read generator ends and writes a valid trace that reads every shard once an epoch.
\<close>

section \<open>What the random source has to satisfy\<close>

text \<open>Record sizes stay below the largest \<open>int64\<close>, and a shuffle swaps elements of its list.\<close>

definition sampler_ok :: "'g rand_lib \<Rightarrow> f64 \<Rightarrow> bool" where
  "sampler_ok lib mu \<longleftrightarrow> (\<forall>g. mathRound (rl_exp lib (f64_add mu (f64_mult lognormalSigma (fst (rl_normFloat64 lib g))))) < 2 ^ 63)"

definition shuffle_ok :: "'g rand_lib \<Rightarrow> bool" where
  "shuffle_ok lib \<longleftrightarrow> (\<forall>n g. \<forall>ij \<in> set (fst (rl_shuffle lib n g)). fst ij < n \<and> snd ij < n)"

lemma mathRound_int: "\<exists>n. mathRound q = of_int n"
  by (auto simp: mathRound_def)

lemma sample_range:
  assumes "sampler_ok lib mu"
  shows "1 \<le> fst (samplerSample lib mu g)"
proof -
  let ?v = "mathRound (rl_exp lib (f64_add mu (f64_mult lognormalSigma (fst (rl_normFloat64 lib g)))))"
  obtain n where n: "?v = of_int n" using mathRound_int by blast
  have "?v < 2 ^ 63" using assms by (simp add: sampler_ok_def)
  then have "n < 2 ^ 63" unfolding n by (metis of_int_less_iff of_int_numeral of_int_power)
  then show ?thesis
    by (auto simp: samplerSample_def Let_def n split_def int64_of_def in64_def)
qed

lemma shuffled_mset:
  assumes "shuffle_ok lib"
  shows "mset (fst (shuffled lib xs g)) = mset xs"
proof -
  have "mset (foldl swapAt ys ijs) = mset ys \<and> length (foldl swapAt ys ijs) = length ys"
    if "\<forall>ij \<in> set ijs. fst ij < length ys \<and> snd ij < length ys" for ys :: "'b list" and ijs
    using that
  proof (induction ijs arbitrary: ys)
    case (Cons ij ijs)
    then have "mset (swapAt ys ij) = mset ys" "length (swapAt ys ij) = length ys" by (simp_all add: swapAt_def mset_swap)
    with Cons show ?case by simp
  qed simp
  with assms show ?thesis by (simp add: shuffled_def shuffle_ok_def split_def Let_def)
qed

section \<open>The reads of a shard tile it\<close>

fun tiles :: "int \<Rightarrow> (int \<times> int) list \<Rightarrow> int \<Rightarrow> bool" where
  "tiles off [] e \<longleftrightarrow> off = e"
| "tiles off ((a, n) # xs) e \<longleftrightarrow> a = off \<and> 0 < n \<and> tiles (off + n) xs e"

lemma readSpecs_result:
  assumes "sampler_ok lib mu" "0 \<le> remaining" "0 \<le> off" "off + remaining < 2 ^ 63"
  shows "\<exists>xs g'. readSpecs lib mu remaining off specs g = Some (specs @ xs, g') \<and> tiles off xs (off + remaining)"
  using assms(2-)
proof (induction "nat remaining" arbitrary: remaining off specs g rule: less_induct)
  case less
  show ?case
  proof (cases "0 < remaining")
    case False
    with less.prems show ?thesis by (subst readSpecs.simps) auto
  next
    case True
    obtain n0 g' where s: "samplerSample lib mu g = (n0, g')" by fastforce
    then have "1 \<le> n0" using sample_range [OF assms(1), of g] by simp
    define n where "n = (if n0 > remaining then remaining else n0)"
    have n: "0 < n" "n \<le> remaining" using \<open>1 \<le> n0\<close> True by (auto simp: n_def)
    have e: "i64 (remaining - n) = remaining - n" "i64 (off + n) = off + n" by (rule i64_nonneg_bounded; use less.prems n in linarith)+
    have "readSpecs lib mu remaining off specs g = readSpecs lib mu (remaining - n) (off + n) (specs @ [(off, n)]) g'"
      using True by (subst readSpecs.simps) (simp only: if_True s prod.case n_def [symmetric] Let_def e)
    moreover obtain xs g'' where "readSpecs lib mu (remaining - n) (off + n) (specs @ [(off, n)]) g' = Some ((specs @ [(off, n)]) @ xs, g'')"
      "tiles (off + n) xs (off + n + (remaining - n))"
      using less.hyps [of "remaining - n" "off + n" "specs @ [(off, n)]" g'] less.prems n by auto
    ultimately show ?thesis using n by (intro exI [of _ "(off, n) # xs"] exI [of _ g'']) simp
  qed
qed

definition covers :: "int \<Rightarrow> int \<times> int \<Rightarrow> bool" where
  "covers b sp \<longleftrightarrow> fst sp \<le> b \<and> b < fst sp + snd sp"

lemma tiles_facts:
  assumes "tiles off xs e"
  shows "sum_list (map snd xs) = e - off" "\<forall>sp \<in> set xs. off \<le> fst sp \<and> 0 < snd sp \<and> fst sp + snd sp \<le> e" "off \<le> e"
    "int (length xs) \<le> e - off"
  using assms by (induction off xs e rule: tiles.induct) force+

lemma tiles_cover:
  assumes "tiles off xs e" "off \<le> b" "b < e"
  shows "length (filter (covers b) xs) = 1"
  using assms
proof (induction off xs e rule: tiles.induct)
  case (2 off a n xs e)
  show ?case
  proof (cases "b < off + n")
    case True
    have "\<forall>sp \<in> set xs. \<not> covers b sp" using tiles_facts(2) [of "off + n" xs e] 2 True by (fastforce simp: covers_def)
    then have "filter (covers b) xs = []" by (simp add: filter_empty_conv)
    moreover have "covers b (a, n)" using 2 True by (simp add: covers_def)
    ultimately show ?thesis by simp
  qed (use 2 in \<open>simp add: covers_def\<close>)
qed simp

definition shard_reads :: "int \<Rightarrow> (int \<times> int) list \<Rightarrow> bool" where
  "shard_reads sz specs \<longleftrightarrow> (\<exists>xs. tiles 0 xs sz \<and> mset specs = mset xs)"

lemma shard_reads_facts:
  assumes "shard_reads sz specs"
  shows "sum_list (map snd specs) = sz" "\<forall>sp \<in> set specs. 0 \<le> fst sp \<and> 0 < snd sp \<and> fst sp + snd sp \<le> sz"
    "int (length specs) \<le> sz" "0 \<le> b \<Longrightarrow> b < sz \<Longrightarrow> length (filter (covers b) specs) = 1"
proof -
  obtain xs where xs: "tiles 0 xs sz" "mset specs = mset xs" using assms by (auto simp: shard_reads_def)
  note t = tiles_facts [OF xs(1)]
  show "sum_list (map snd specs) = sz" using t(1) arg_cong [OF xs(2), of "\<lambda>m. sum_mset (image_mset snd m)"]
    by (simp flip: sum_mset_sum_list mset_map)
  show "\<forall>sp \<in> set specs. 0 \<le> fst sp \<and> 0 < snd sp \<and> fst sp + snd sp \<le> sz" using t(2) mset_eq_setD [OF xs(2)] by simp
  show "int (length specs) \<le> sz" using t(4) arg_cong [OF xs(2), of size] by simp
  show "0 \<le> b \<Longrightarrow> b < sz \<Longrightarrow> length (filter (covers b) specs) = 1"
    using tiles_cover [OF xs(1)] arg_cong [OF xs(2), of "\<lambda>m. size (filter_mset (covers b) m)"] by (simp flip: mset_filter)
qed

lemma foldl_sizes:
  assumes "\<forall>sp \<in> set xs. 0 \<le> snd sp" "0 \<le> a" "a + sum_list (map snd xs) < 2 ^ 63"
  shows "foldl (\<lambda>n sp. i64 (n + snd sp)) a xs = a + sum_list (map snd xs)"
  using assms
proof (induction xs arbitrary: a)
  case (Cons sp xs)
  have "0 \<le> sum_list (map snd xs)" using Cons.prems(1) by (intro sum_list_nonneg) auto
  then have "i64 (a + snd sp) = a + snd sp" using Cons.prems by (intro i64_nonneg_bounded) auto
  with Cons show ?case by simp
qed simp

lemma buildReads_result:
  assumes "sampler_ok lib mu" "shuffle_ok lib" "0 < pt_ShardSize p" "pt_ShardSize p < 2 ^ 63"
  shows "\<exists>specs g'. buildReads lib p mu h s t g = Some (readOps h s t specs, pt_ShardSize p, g') \<and> shard_reads (pt_ShardSize p) specs"
proof -
  obtain xs g1 where xs: "readSpecs lib mu (pt_ShardSize p) 0 [] g = Some (xs, g1)" "tiles 0 xs (pt_ShardSize p)"
    using readSpecs_result [OF assms(1), of "pt_ShardSize p" 0 "[]" g] assms(3,4) by auto
  obtain specs g2 where sp: "(if pt_ReadWithinShard p = ''random'' then shuffled lib xs g1 else (xs, g1)) = (specs, g2)" by fastforce
  have "mset specs = mset xs" using sp shuffled_mset [OF assms(2), of xs g1] by (auto split: if_splits)
  then have r: "shard_reads (pt_ShardSize p) specs" using xs(2) by (auto simp: shard_reads_def)
  note f = shard_reads_facts [OF r]
  have "foldl (\<lambda>n sp. i64 (n + snd sp)) 0 specs = pt_ShardSize p"
    using foldl_sizes [of specs 0] f(1,2) assms(4) by force
  with r show ?thesis unfolding buildReads_def xs(1) option.case prod.case sp Let_def by blast
qed

section \<open>A shard's ops\<close>

definition tick :: "nat \<Rightarrow> int" where
  "tick j = i64 (opDeltaNS * int j)"

lemma tick_step: "i64 (tick j + opDeltaNS) = tick (Suc j)" "i64 (tick j + opDeltaNS * int n) = tick (j + n)"
  by (simp_all add: tick_def algebra_simps)

lemma tick_fits: "opDeltaNS * int j < 2 ^ 63 \<Longrightarrow> tick j = opDeltaNS * int j"
  unfolding tick_def by (rule i64_nonneg_bounded) (simp_all add: opDeltaNS_def)

lemma readOps_times: "map op_t (readOps h s (tick j) specs) = map tick [j..<j + length specs]"
proof (induction specs arbitrary: j)
  case (Cons sp specs)
  then show ?case by (cases sp) (simp add: tick_step upt_conv_Cons del: upt_Suc)
qed simp

lemma readOps_elem:
  "x \<in> set (readOps h s t specs) \<Longrightarrow> \<exists>sp \<in> set specs. op_op x = OpRead \<and> op_s x = s \<and> op_h x = Some h \<and> op_off x = Some (fst sp) \<and> op_len x = Some (snd sp)
     \<and> op_tgt x = None \<and> op_mode x = ModeAbsent \<and> op_flags x = [] \<and> op_ret x = None \<and> op_dur x = None \<and> op_id x = None \<and> op_group x = None"
  by (induction h s t specs rule: readOps.induct) (auto simp: zero_op_def)

definition trShardOps :: "nat \<Rightarrow> int \<Rightarrow> int \<Rightarrow> int \<Rightarrow> string list \<Rightarrow> (int \<times> int) list \<Rightarrow> op list" where
  "trShardOps j s h tgt flags specs =
     [zero_op\<lparr>op_t := tick j, op_s := s, op_op := OpOpen, op_tgt := Some tgt, op_h := Some h, op_mode := ModeRead, op_flags := flags\<rparr>]
     @ readOps h s (tick (Suc j)) specs
     @ [zero_op\<lparr>op_t := tick (Suc j + length specs), op_s := s, op_op := OpClose, op_h := Some h\<rparr>]"

lemma readOps_length [simp]: "length (readOps h s t specs) = length specs"
  by (induction h s t specs rule: readOps.induct) simp_all

lemma sorted_map_upt: "(\<And>a b. a \<le> b \<Longrightarrow> b < k \<Longrightarrow> (f a :: int) \<le> f b) \<Longrightarrow> sorted (map f [j..<k])"
  by (induction k) (auto simp: sorted_append)

lemma trShardOps_length: "length (trShardOps j s h tgt flags specs) = length specs + 2"
  by (simp add: trShardOps_def)

lemma trShardOps_times: "map op_t (trShardOps j s h tgt flags specs) = map tick [j..<j + length (trShardOps j s h tgt flags specs)]"
proof -
  have "[j..<Suc (Suc j + length specs)] = j # [Suc j..<Suc (Suc j + length specs)]" by (rule upt_conv_Cons) simp
  also have "[Suc j..<Suc (Suc j + length specs)] = [Suc j..<Suc j + length specs] @ [Suc j + length specs]" by (rule upt_Suc_append) simp
  finally have "[j..<j + (length specs + 2)] = j # [Suc j..<Suc j + length specs] @ [Suc j + length specs]" by simp
  then show ?thesis unfolding trShardOps_length by (simp add: trShardOps_def readOps_times)
qed

lemma trShardOps_moved:
  assumes "\<forall>sp \<in> set specs. 0 < snd sp"
  shows "totalMoved (trShardOps j s h tgt flags specs) = sum_list (map snd specs)"
proof -
  have "totalMoved (readOps h s t specs) = sum_list (map snd specs)" for t
    using assms by (induction h s t specs rule: readOps.induct)
      (simp_all add: bytesMoved_def transferredBytes_def requestedBytes_def countsBytes.simps zero_op_def)
  then show ?thesis by (simp add: trShardOps_def bytesMoved_def countsBytes.simps zero_op_def)
qed

lemma trShardOps_session:
  assumes "shard_reads sz specs" "opDeltaNS * int (j + length specs + 2) < 2 ^ 63"
  shows "session s h tgt (trShardOps j s h tgt flags specs)"
proof -
  have "uses_handle h x" if "x \<in> set (readOps h s t specs)" for x t
    using readOps_elem [OF that] shard_reads_facts(2) [OF assms(1)] by (fastforce simp: uses_handle_def nat_field_def)
  moreover have "sorted (map op_t (trShardOps j s h tgt flags specs))"
  proof -
    have "tick a \<le> tick b" if "a \<le> b" "b < j + (length specs + 2)" for a b
    proof -
      have "opDeltaNS * int b < 2 ^ 63" "opDeltaNS * int a \<le> opDeltaNS * int b" using that assms(2) by (simp_all add: opDeltaNS_def)
      then show ?thesis by (simp add: tick_fits)
    qed
    then show ?thesis unfolding trShardOps_times trShardOps_length by (intro sorted_map_upt) blast
  qed
  moreover have "\<forall>x \<in> set (trShardOps j s h tgt flags specs). op_s x = s"
    by (auto simp: trShardOps_def dest: readOps_elem)
  ultimately show ?thesis
    unfolding session_def
    by (intro conjI exI [of _ "hd (trShardOps j s h tgt flags specs)"] exI [of _ "readOps h s (tick (Suc j)) specs"]
        exI [of _ "last (trShardOps j s h tgt flags specs)"])
      (auto simp: trShardOps_def opens_target_def closes_handle_def no_position_def zero_op_def)
qed

lemma trShardOps_wf:
  assumes "shard_reads sz specs" "sz < 2 ^ 63" "in64 s" "in64 h" "in64 tgt"
  shows "\<forall>x \<in> set (trShardOps j s h tgt flags specs). wf_op x"
proof -
  have "wf_op x" if x: "x \<in> set (readOps h s (tick (Suc j)) specs)" for x
  proof -
    obtain sp where sp: "sp \<in> set specs" "op_op x = OpRead" "op_s x = s" "op_h x = Some h" "op_off x = Some (fst sp)" "op_len x = Some (snd sp)"
      "op_tgt x = None" "op_mode x = ModeAbsent" "op_ret x = None" "op_dur x = None" "op_id x = None" "op_group x = None"
      using readOps_elem [OF x] by blast
    have "0 \<le> fst sp" "0 < snd sp" "fst sp + snd sp \<le> sz" using shard_reads_facts(2) [OF assms(1)] sp(1) by auto
    then have "in64 (fst sp)" "in64 (snd sp)" using assms(2) by (simp_all add: in64_def)
    moreover have "op_t x \<in> set (map op_t (readOps h s (tick (Suc j)) specs))" using x by simp
    then have "in64 (op_t x)" unfolding readOps_times by (auto simp: tick_def)
    ultimately show ?thesis using sp assms by (intro session_wf) simp_all
  qed
  moreover have "wf_op x" if "op_op x \<in> {OpOpen, OpClose}" "op_mode x \<in> {ModeAbsent, ModeRead}" "in64 (op_t x)" "op_s x = s"
    "op_h x = Some h" "op_tgt x \<in> {None, Some tgt}" "op_off x = None" "op_len x = None" "op_id x = None" "op_group x = None" "op_ret x = None" "op_dur x = None" for x
    using assms that by (intro session_wf) auto
  ultimately show ?thesis by (auto simp: trShardOps_def zero_op_def tick_def)
qed

section \<open>The state after some shards\<close>

definition tr_ok :: "'g rand_lib \<Rightarrow> tr_params \<Rightarrow> bool" where
  "tr_ok lib p \<longleftrightarrow> trValidateParams p = None \<and> pt_Epochs p * (pt_Shards p * pt_ShardSize p) < 2 ^ 61 \<and> in64 (pt_DataloaderWorkers p)
     \<and> sampler_ok lib (samplerMu lib (pt_RecordSize p)) \<and> shuffle_ok lib"

definition allGen :: "'g tr_state \<Rightarrow> op list" where
  "allGen st = map so_op (concat (ts_perStream st))"

text \<open>The generated times do not overflow.\<close>

definition times_fit :: "'g tr_state \<Rightarrow> bool" where
  "times_fit st \<longleftrightarrow> opDeltaNS * int (length (allGen st)) < 2 ^ 63"

definition reads_byte :: "int \<Rightarrow> int \<Rightarrow> op \<Rightarrow> bool" where
  "reads_byte h b x \<longleftrightarrow> op_op x = OpRead \<and> op_h x = Some h
     \<and> (case op_off x of None \<Rightarrow> False | Some a \<Rightarrow> (case op_len x of None \<Rightarrow> False | Some n \<Rightarrow> a \<le> b \<and> b < a + n))"

definition opens_shard :: "int \<Rightarrow> op \<Rightarrow> bool" where
  "opens_shard s x \<longleftrightarrow> op_op x = OpOpen \<and> op_tgt x = Some s"

text \<open>\<open>hist\<close> lists the shards read so far.\<close>

definition tr_streams :: "tr_params \<Rightarrow> header \<Rightarrow> nat \<Rightarrow> 'g tr_state \<Rightarrow> bool" where
  "tr_streams p hdr n st \<longleftrightarrow>
     length (ts_perStream st) = nat (pt_DataloaderWorkers p) \<and> length (ts_streamT st) = nat (pt_DataloaderWorkers p)
     \<and> (\<forall>i < nat (pt_DataloaderWorkers p). ts_streamT st ! i = tick (length (ts_perStream st ! i))
          \<and> map op_t (map so_op (ts_perStream st ! i)) = map tick [0..<length (ts_perStream st ! i)])
     \<and> ts_nextHandle st = int n + 1 \<and> ts_totalBytes st = int n * pt_ShardSize p
     \<and> totalMoved (allGen st) = ts_totalBytes st \<and> int (length (allGen st)) \<le> 3 * ts_totalBytes st
     \<and> (times_fit st \<longrightarrow> streams_ok hdr (ts_nextHandle st) (ts_perStream st))"

definition tr_ops :: "tr_params \<Rightarrow> nat list \<Rightarrow> op list \<Rightarrow> bool" where
  "tr_ops p hist ops \<longleftrightarrow>
     (\<forall>x \<in> set ops. wf_op x \<and> op_ret x = None \<and> (\<exists>h. op_h x = Some h \<and> h \<le> int (length hist)))
     \<and> (\<forall>s. length (filter (opens_shard (int s)) ops) = length (filter (\<lambda>i. i = s) hist))
     \<and> (\<forall>h b. 1 \<le> h \<and> h \<le> int (length hist) \<and> 0 \<le> b \<and> b < pt_ShardSize p \<longrightarrow> length (filter (reads_byte h b) ops) = 1)"

lemma tr_okD:
  assumes "tr_ok lib p"
  shows "0 < pt_Shards p" "0 < pt_ShardSize p" "0 < pt_Epochs p" "0 < pt_DataloaderWorkers p" "in64 (pt_DataloaderWorkers p)"
    "sampler_ok lib (samplerMu lib (pt_RecordSize p))" "shuffle_ok lib"
    "pt_Epochs p * (pt_Shards p * pt_ShardSize p) < 2 ^ 61" "trValidateParams p = None"
  using assms by (auto simp: tr_ok_def trValidateParams_def split: if_splits)

lemma tr_bounds:
  assumes "tr_ok lib p" "int n < pt_Epochs p * pt_Shards p"
  shows "(int n + 1) * pt_ShardSize p < 2 ^ 61" "pt_ShardSize p < 2 ^ 61" "int n + 1 < 2 ^ 61" "pt_Shards p < 2 ^ 61"
proof -
  note k = tr_okD [OF assms(1)]
  have "(int n + 1) * pt_ShardSize p \<le> pt_Epochs p * pt_Shards p * pt_ShardSize p" using assms(2) k by (intro mult_right_mono) simp_all
  also have "\<dots> = pt_Epochs p * (pt_Shards p * pt_ShardSize p)" by simp
  also have "\<dots> < 2 ^ 61" by (rule k(8))
  finally show 1: "(int n + 1) * pt_ShardSize p < 2 ^ 61" .
  have "1 * pt_ShardSize p \<le> (int n + 1) * pt_ShardSize p" using k by (intro mult_right_mono) simp_all
  with 1 show "pt_ShardSize p < 2 ^ 61" by simp
  have "(int n + 1) * 1 \<le> (int n + 1) * pt_ShardSize p" using k by (intro mult_left_mono) simp_all
  from order.strict_trans1 [OF this 1] show "int n + 1 < 2 ^ 61" by simp
  have "pt_Shards p * 1 \<le> pt_Shards p * pt_ShardSize p" "1 * (pt_Shards p * pt_ShardSize p) \<le> pt_Epochs p * (pt_Shards p * pt_ShardSize p)"
    using k by (auto intro!: mult_right_mono mult_left_mono)
  with k(8) show "pt_Shards p < 2 ^ 61" by linarith
qed

lemma tr_opsI:
  assumes "tr_ops p hist ops" "shard_reads (pt_ShardSize p) specs" "int (length hist) + 1 < 2 ^ 61" "in64 s" "in64 (int i)"
    "pt_ShardSize p < 2 ^ 63"
    "mset ops' = mset (ops @ trShardOps j s (int (length hist) + 1) (int i) flags specs)"
  shows "tr_ops p (hist @ [i]) ops'"
proof -
  let ?h = "int (length hist) + 1" and ?xs = "trShardOps j s (int (length hist) + 1) (int i) flags specs"
  have st: "set ops' = set ops \<union> set ?xs" using mset_eq_setD [OF assms(7)] by simp
  have cnt: "length (filter P ops') = length (filter P ops) + length (filter P ?xs)" for P
    using arg_cong [OF assms(7), of "\<lambda>m. size (filter_mset P m)"] by (simp flip: mset_filter)
  have "wf_op x \<and> op_ret x = None \<and> op_h x = Some ?h" if "x \<in> set ?xs" for x
    using that trShardOps_wf [OF assms(2,6,4) _ assms(5), of ?h j flags] assms(3)
    by (auto simp: trShardOps_def zero_op_def in64_def dest: readOps_elem)
  then have 1: "\<forall>x \<in> set ops'. wf_op x \<and> op_ret x = None \<and> (\<exists>h. op_h x = Some h \<and> h \<le> int (length (hist @ [i])))"
    using assms(1) unfolding st tr_ops_def by fastforce
  have "filter (opens_shard (int k)) (readOps h s t specs) = []" for k h t
    by (auto simp: filter_empty_conv opens_shard_def dest: readOps_elem)
  then have "length (filter (opens_shard (int k)) ?xs) = (if k = i then 1 else 0)" for k
    by (simp add: trShardOps_def opens_shard_def zero_op_def)
  then have 2: "length (filter (opens_shard (int k)) ops') = length (filter (\<lambda>i. i = k) (hist @ [i]))" for k
    using assms(1) by (simp add: cnt tr_ops_def)
  have r: "length (filter (reads_byte h b) (readOps h' s t specs)) = (if h = h' then length (filter (covers b) specs) else 0)" for h h' b t
  proof -
    have "reads_byte h b (zero_op\<lparr>op_t := t, op_s := s, op_op := OpRead, op_h := Some h', op_off := Some a, op_len := Some n\<rparr>)
      \<longleftrightarrow> h = h' \<and> covers b (a, n)" for h' s t a n
      by (auto simp: reads_byte_def covers_def)
    then show ?thesis by (induction h' s t specs rule: readOps.induct) auto
  qed
  have x: "length (filter (reads_byte h b) ?xs) = (if h = ?h then length (filter (covers b) specs) else 0)" for h b
  proof -
    have "h \<noteq> h' \<Longrightarrow> filter (reads_byte h b) (readOps h' s t specs) = []" for h' t using r [of h b h' t] by simp
    moreover have "\<not> reads_byte h b x" if "op_op x = OpOpen \<or> op_op x = OpClose" for x using that by (auto simp: reads_byte_def)
    ultimately show ?thesis using r [of h b ?h] by (simp add: trShardOps_def)
  qed
  have old: "filter (reads_byte ?h b) ops = []" for b
    using assms(1) by (fastforce simp: filter_empty_conv reads_byte_def tr_ops_def)
  have 3: "length (filter (reads_byte h b) ops') = 1" if "1 \<le> h" "h \<le> int (length (hist @ [i]))" "0 \<le> b" "b < pt_ShardSize p" for h b
  proof (cases "h = ?h")
    case True
    with shard_reads_facts(4) [OF assms(2) that(3,4)] old [of b] show ?thesis by (simp add: cnt x)
  next
    case False
    with that assms(1) show ?thesis by (simp add: cnt x tr_ops_def)
  qed
  show ?thesis unfolding tr_ops_def using 1 2 3 by blast
qed

lemma tr_streamsD:
  assumes "tr_streams p hdr n st"
  shows "length (ts_perStream st) = nat (pt_DataloaderWorkers p)" "length (ts_streamT st) = nat (pt_DataloaderWorkers p)"
    "ts_nextHandle st = int n + 1" "ts_totalBytes st = int n * pt_ShardSize p"
    "totalMoved (allGen st) = ts_totalBytes st" "int (length (allGen st)) \<le> 3 * ts_totalBytes st"
    "times_fit st \<Longrightarrow> streams_ok hdr (ts_nextHandle st) (ts_perStream st)"
    "i < nat (pt_DataloaderWorkers p) \<Longrightarrow> ts_streamT st ! i = tick (length (ts_perStream st ! i))"
    "i < nat (pt_DataloaderWorkers p) \<Longrightarrow> map op_t (map so_op (ts_perStream st ! i)) = map tick [0..<length (ts_perStream st ! i)]"
  using assms unfolding tr_streams_def by blast+

lemma tr_streamsI:
  assumes "length (ts_perStream st) = nat (pt_DataloaderWorkers p)" "length (ts_streamT st) = nat (pt_DataloaderWorkers p)"
    "ts_nextHandle st = int n + 1" "ts_totalBytes st = int n * pt_ShardSize p"
    "totalMoved (allGen st) = ts_totalBytes st" "int (length (allGen st)) \<le> 3 * ts_totalBytes st"
    "times_fit st \<Longrightarrow> streams_ok hdr (ts_nextHandle st) (ts_perStream st)"
    "\<And>i. i < nat (pt_DataloaderWorkers p) \<Longrightarrow> ts_streamT st ! i = tick (length (ts_perStream st ! i))"
    "\<And>i. i < nat (pt_DataloaderWorkers p) \<Longrightarrow> map op_t (map so_op (ts_perStream st ! i)) = map tick [0..<length (ts_perStream st ! i)]"
  shows "tr_streams p hdr n st"
  unfolding tr_streams_def by (intro conjI allI impI) (fact assms | rule assms, assumption)+

lemma trShard_result:
  assumes ok: "tr_ok lib p" and st: "tr_streams p hdr n st" and n: "int n < pt_Epochs p * pt_Shards p"
    and w_def: "w = pos mod nat (pt_DataloaderWorkers p)"
  shows "\<exists>specs g. shard_reads (pt_ShardSize p) specs \<and> trShard lib p (samplerMu lib (pt_RecordSize p)) pos i st =
    Some \<lparr>ts_perStream = (ts_perStream st)[w := foldl genAppend (ts_perStream st ! w)
        (trShardOps (length (ts_perStream st ! w)) (int w) (int n + 1) (int i) (openFlagsFor (pt_ReadWithinShard p)) specs)],
      ts_streamT = (ts_streamT st)[w := tick (length (ts_perStream st ! w) + (length specs + 2))],
      ts_nextHandle = int n + 2, ts_totalBytes = (int n + 1) * pt_ShardSize p, ts_rng = g\<rparr>"
proof -
  note k = tr_okD [OF ok] and b = tr_bounds [OF ok n] and inv = tr_streamsD [OF st]
  have w: "w < nat (pt_DataloaderWorkers p)" using k(4) by (simp add: w_def)
  let ?j = "length (ts_perStream st ! w)"
  have sz: "pt_ShardSize p < 2 ^ 63" using b(2) by simp
  obtain specs g where r: "buildReads lib p (samplerMu lib (pt_RecordSize p)) (int n + 1) (int w) (tick (Suc ?j)) (ts_rng st)
      = Some (readOps (int n + 1) (int w) (tick (Suc ?j)) specs, pt_ShardSize p, g)" "shard_reads (pt_ShardSize p) specs"
    using buildReads_result [OF k(6,7,2) sz] by blast
  have "0 \<le> int n * pt_ShardSize p" using k(2) by simp
  then have "i64 (int n * pt_ShardSize p + pt_ShardSize p) = int n * pt_ShardSize p + pt_ShardSize p"
    using b(1) k(2) by (intro i64_nonneg_bounded) (simp_all add: distrib_right)
  then show ?thesis using r(2)
    by (intro exI [of _ specs] exI [of _ g])
      (simp add: trShard_def Let_def inv(3,4) inv(8) [OF w] r(1) tick_step trShardOps_def distrib_right flip: w_def)
qed

lemma nth_length_concat: "i < length xss \<Longrightarrow> length (xss ! i) \<le> length (concat xss)"
  by (simp add: length_concat member_le_sum_list)

lemma tick_mono: "a \<le> b \<Longrightarrow> opDeltaNS * int b < 2 ^ 63 \<Longrightarrow> tick a \<le> tick b"
  using tick_fits [of a] tick_fits [of b] by (simp add: opDeltaNS_def)

lemma trShard_streams:
  assumes st: "tr_streams p hdr n st" and r: "shard_reads (pt_ShardSize p) specs" and w: "w < length (ts_perStream st)"
    and i: "i < nat (pt_Shards p)" and h: "hdr_targets hdr = trBuildTargets p"
    and j_def: "j = length (ts_perStream st ! w)"
    and q_def: "q = (ts_perStream st)[w := foldl genAppend (ts_perStream st ! w) (trShardOps j (int w) (int n + 1) (int i) flags specs)]"
    and fit: "opDeltaNS * int (length (concat q)) < 2 ^ 63"
  shows "streams_ok hdr (int n + 1 + 1) q"
proof -
  note inv = tr_streamsD [OF st]
  let ?ps = "ts_perStream st" and ?xs = "trShardOps j (int w) (int n + 1) (int i) flags specs"
  have len: "length (concat q) = length (concat ?ps) + (length specs + 2)"
    unfolding q_def using concat_update_ops(2) [OF w] by (simp add: trShardOps_length)
  have "j + (length specs + 2) \<le> length (concat q)" using nth_length_concat [OF w] len by (simp add: j_def)
  then have fj: "opDeltaNS * int (j + length specs + 2) < 2 ^ 63" using fit by (simp add: opDeltaNS_def)
  have "opDeltaNS * int (length (concat ?ps)) < 2 ^ 63" using fit len by (simp add: opDeltaNS_def)
  then have ok: "streams_ok hdr (int n + 1) ?ps" using inv(3,7) by (simp add: times_fit_def allGen_def)
  have "op_t (so_op y) \<le> op_t x" if y: "y \<in> set (?ps ! w)" and x: "x \<in> set ?xs" for y x
  proof -
    have "op_t (so_op y) \<in> set (map op_t (map so_op (?ps ! w)))" using y by simp
    moreover have "map op_t (map so_op (?ps ! w)) = map tick [0..<j]" using inv(9) [of w] inv(1) w by (simp add: j_def)
    ultimately have "op_t (so_op y) \<in> set (map tick [0..<j])" by (simp only:)
    then obtain a where a: "a < j" "op_t (so_op y) = tick a" by auto
    have "op_t x \<in> set (map op_t ?xs)" using x by simp
    then obtain c where "c \<in> set [j..<j + (length specs + 2)]" and t: "op_t x = tick c"
      unfolding trShardOps_times trShardOps_length set_map by blast
    then have c: "j \<le> c" "c < j + (length specs + 2)" unfolding set_upt atLeastLessThan_iff by blast+
    have "opDeltaNS * int c < 2 ^ 63" using c(2) fj by (simp add: opDeltaNS_def)
    with a c t tick_mono [of a c] show ?thesis by simp
  qed
  moreover have "0 \<le> int i" "int i < int (length (hdr_targets hdr))" using i by (auto simp: h trBuildTargets_def)
  ultimately show ?thesis
    unfolding q_def by (intro streams_ok_session [OF ok w trShardOps_session [OF r fj]]) auto
qed

lemma trShard_step:
  assumes ok: "tr_ok lib p" and st: "tr_streams p hdr (length hist) st" "tr_ops p hist (allGen st)"
    and n: "int (length hist) < pt_Epochs p * pt_Shards p" and i: "i < nat (pt_Shards p)"
    and h: "hdr_targets hdr = trBuildTargets p"
  shows "\<exists>st'. trShard lib p (samplerMu lib (pt_RecordSize p)) pos i st = Some st'
    \<and> tr_streams p hdr (length (hist @ [i])) st' \<and> tr_ops p (hist @ [i]) (allGen st')"
proof -
  note k = tr_okD [OF ok] and b = tr_bounds [OF ok n] and inv = tr_streamsD [OF st(1)]
  define w where "w = pos mod nat (pt_DataloaderWorkers p)"
  have w: "w < nat (pt_DataloaderWorkers p)" using k(4) by (simp add: w_def)
  let ?n = "length hist" and ?ps = "ts_perStream st" and ?j = "length (ts_perStream st ! w)"
  obtain specs g where r: "shard_reads (pt_ShardSize p) specs" and
    run: "trShard lib p (samplerMu lib (pt_RecordSize p)) pos i st =
      Some \<lparr>ts_perStream = ?ps[w := foldl genAppend (?ps ! w) (trShardOps ?j (int w) (int ?n + 1) (int i) (openFlagsFor (pt_ReadWithinShard p)) specs)],
        ts_streamT = (ts_streamT st)[w := tick (?j + (length specs + 2))],
        ts_nextHandle = int ?n + 2, ts_totalBytes = (int ?n + 1) * pt_ShardSize p, ts_rng = g\<rparr>"
    using trShard_result [OF ok st(1) n w_def] by blast
  let ?xs = "trShardOps ?j (int w) (int ?n + 1) (int i) (openFlagsFor (pt_ReadWithinShard p)) specs"
  let ?q = "?ps[w := foldl genAppend (?ps ! w) ?xs]"
  note f = shard_reads_facts [OF r]
  have wl: "w < length ?ps" using w inv(1) by simp
  note up = concat_update_ops [OF wl, of ?xs]
  have new: "map so_op (?ps[w := foldl genAppend (?ps ! w) ?xs] ! m) = (if m = w then map so_op (?ps ! w) @ ?xs else map so_op (?ps ! m))"
    if "m < nat (pt_DataloaderWorkers p)" for m using that wl by (simp add: nth_list_update appendOps_ops)
  have moved: "totalMoved ?xs = pt_ShardSize p" using f(1,2) by (simp add: trShardOps_moved)
  have len: "int (length ?xs) \<le> 3 * pt_ShardSize p" using f(3) k(2) by (simp add: trShardOps_length)
  have m: "mset (map so_op (concat ?q)) = mset (allGen st @ ?xs)" by (simp only: mset_concat_update [OF wl] allGen_def mset_append)
  have "in64 (int w)" "in64 (int i)" "pt_ShardSize p < 2 ^ 63" using b(2,4) k(5) w i by (auto simp: in64_def)
  from tr_opsI [OF st(2) r b(3) this m] have ops: "tr_ops p (hist @ [i]) (map so_op (concat ?q))" .
  have str: "streams_ok hdr (int ?n + 2) ?q" if "opDeltaNS * int (length (concat ?q)) < 2 ^ 63"
    using trShard_streams [OF st(1) r wl i h refl refl that] by (simp add: algebra_simps)
  have lq: "length (?q ! m) = (if m = w then ?j + (length specs + 2) else length (?ps ! m))" if "m < nat (pt_DataloaderWorkers p)" for m
    using arg_cong [OF new [OF that], of length] by (simp add: trShardOps_length)
  have tm: "map op_t (map so_op (?q ! m)) = map tick [0..<length (?q ! m)]" if m: "m < nat (pt_DataloaderWorkers p)" for m
  proof (cases "m = w")
    case True
    have "[0..<?j + (length specs + 2)] = [0..<?j] @ [?j..<?j + (length specs + 2)]" by (rule upt_add_eq_append) simp
    then show ?thesis unfolding lq [OF m, unfolded if_P [OF True]] new [OF m, unfolded if_P [OF True]]
      using inv(9) [OF m, unfolded True] trShardOps_times [of ?j "int w" "int ?n + 1" "int i" "openFlagsFor (pt_ReadWithinShard p)" specs]
      unfolding trShardOps_length by (simp only: map_append)
  qed (use inv(9) [OF m] lq [OF m] new [OF m] in simp)
  let ?st' = "\<lparr>ts_perStream = ?q, ts_streamT = (ts_streamT st)[w := tick (?j + (length specs + 2))],
        ts_nextHandle = int ?n + 2, ts_totalBytes = (int ?n + 1) * pt_ShardSize p, ts_rng = g\<rparr>"
  have "tr_streams p hdr (length (hist @ [i])) ?st'"
  proof (rule tr_streamsI)
    show "totalMoved (allGen ?st') = ts_totalBytes ?st'" using up(3) inv(4,5) moved by (simp add: allGen_def distrib_right)
    show "int (length (allGen ?st')) \<le> 3 * ts_totalBytes ?st'" using up(2) inv(4,6) len by (simp add: allGen_def distrib_right)
    show "ts_streamT ?st' ! m = tick (length (ts_perStream ?st' ! m))" if "m < nat (pt_DataloaderWorkers p)" for m
      using inv(2) inv(8) [of m] lq [OF that] that by (simp add: nth_list_update)
  qed (use inv(1,2) str tm in \<open>simp_all add: times_fit_def allGen_def\<close>)
  with ops show ?thesis unfolding run by (auto simp: allGen_def)
qed

lemma trShards_result:
  assumes "tr_ok lib p" "hdr_targets hdr = trBuildTargets p"
  shows "tr_streams p hdr (length hist) st \<Longrightarrow> tr_ops p hist (allGen st) \<Longrightarrow> set order \<subseteq> {..<nat (pt_Shards p)}
    \<Longrightarrow> int (length hist + length order) \<le> pt_Epochs p * pt_Shards p
    \<Longrightarrow> \<exists>st'. trShards lib p (samplerMu lib (pt_RecordSize p)) pos order st = Some st'
        \<and> tr_streams p hdr (length (hist @ order)) st' \<and> tr_ops p (hist @ order) (allGen st')"
proof (induction order arbitrary: hist st pos)
  case (Cons i order)
  have "int (length hist) < pt_Epochs p * pt_Shards p" "i < nat (pt_Shards p)" using Cons.prems(3,4) by auto
  from trShard_step [OF assms(1) Cons.prems(1,2) this assms(2)]
  obtain st' where st': "trShard lib p (samplerMu lib (pt_RecordSize p)) pos i st = Some st'"
    "tr_streams p hdr (length (hist @ [i])) st'" "tr_ops p (hist @ [i]) (allGen st')" by blast
  from Cons.IH [OF st'(2,3)] Cons.prems(3,4) st'(1) show ?case by simp
qed simp

lemma order_shards:
  assumes "tr_ok lib p"
  shows "mset (fst (makeShardOrder lib p g)) = mset [0..<nat (pt_Shards p)]"
  using shuffled_mset [OF tr_okD(7) [OF assms], of "[0..<nat (pt_Shards p)]" g] by (simp add: makeShardOrder_def Let_def)

lemma rng_frame: "tr_streams p hdr n (st\<lparr>ts_rng := g\<rparr>) = tr_streams p hdr n st" "allGen (st\<lparr>ts_rng := g\<rparr>) = allGen st"
  by (simp_all add: tr_streams_def times_fit_def allGen_def)

lemma trEpochs_result:
  assumes "tr_ok lib p" "hdr_targets hdr = trBuildTargets p"
  shows "tr_streams p hdr (length hist) st \<Longrightarrow> tr_ops p hist (allGen st)
    \<Longrightarrow> int (length hist + k * nat (pt_Shards p)) \<le> pt_Epochs p * pt_Shards p
    \<Longrightarrow> \<exists>st' new. trEpochs lib p (samplerMu lib (pt_RecordSize p)) k st = Some st'
        \<and> tr_streams p hdr (length (hist @ new)) st' \<and> tr_ops p (hist @ new) (allGen st')
        \<and> mset new = repeat_mset k (mset [0..<nat (pt_Shards p)])"
proof (induction k arbitrary: hist st)
  case (Suc k)
  obtain order g where o: "makeShardOrder lib p (ts_rng st) = (order, g)" by fastforce
  then have m: "mset order = mset [0..<nat (pt_Shards p)]" using order_shards [OF assms(1), of "ts_rng st"] by simp
  have "set order = set [0..<nat (pt_Shards p)]" by (rule mset_eq_setD [OF m])
  then have so: "set order \<subseteq> {..<nat (pt_Shards p)}" by auto
  have lo: "length order = nat (pt_Shards p)" using mset_eq_length [OF m] by simp
  have "tr_streams p hdr (length hist) (st\<lparr>ts_rng := g\<rparr>)" "tr_ops p hist (allGen (st\<lparr>ts_rng := g\<rparr>))"
    using Suc.prems(1,2) by (simp_all only: rng_frame)
  moreover have "int (length hist + length order) \<le> pt_Epochs p * pt_Shards p"
  proof -
    have "length hist + length order \<le> length hist + Suc k * nat (pt_Shards p)" by (simp add: lo)
    with Suc.prems(3) show ?thesis by (meson of_nat_le_iff order_trans)
  qed
  ultimately obtain st' where st': "trShards lib p (samplerMu lib (pt_RecordSize p)) 0 order (st\<lparr>ts_rng := g\<rparr>) = Some st'"
    "tr_streams p hdr (length (hist @ order)) st'" "tr_ops p (hist @ order) (allGen st')"
    using trShards_result [OF assms, of hist "st\<lparr>ts_rng := g\<rparr>" order 0] so by blast
  have "int (length (hist @ order) + k * nat (pt_Shards p)) \<le> pt_Epochs p * pt_Shards p"
    using Suc.prems(3) lo by (simp add: algebra_simps)
  from Suc.IH [OF st'(2,3) this] obtain st'' new where
    "trEpochs lib p (samplerMu lib (pt_RecordSize p)) k st' = Some st''" "tr_streams p hdr (length ((hist @ order) @ new)) st''"
    "tr_ops p ((hist @ order) @ new) (allGen st'')" "mset new = repeat_mset k (mset [0..<nat (pt_Shards p)])" by blast
  then show ?case using o st'(1) m by (intro exI [of _ st''] exI [of _ "order @ new"]) (simp add: algebra_simps)
qed simp

lemma trInit_state:
  assumes "tr_ok lib p"
  shows "tr_streams p hdr 0 (trInit p g)" "tr_ops p [] (allGen (trInit p g))"
  using tr_okD(4) [OF assms]
  by (auto simp: tr_streams_def tr_ops_def trInit_def allGen_def streams_ok_def stream_ok_def own_handles_def tick_def i64_def)

lemma trRun_result:
  assumes "tr_ok lib p" "hdr_targets hdr = trBuildTargets p"
  shows "\<exists>st hist. trRun lib g p = Some st \<and> int (length hist) = pt_Epochs p * pt_Shards p
    \<and> tr_streams p hdr (length hist) st \<and> tr_ops p hist (allGen st)
    \<and> mset hist = repeat_mset (nat (pt_Epochs p)) (mset [0..<nat (pt_Shards p)])"
proof -
  note k = tr_okD [OF assms(1)] and i = trInit_state [OF assms(1), where g = g]
  obtain st new where r: "trRun lib g p = Some st" "tr_streams p hdr (length new) st" "tr_ops p new (allGen st)"
    "mset new = repeat_mset (nat (pt_Epochs p)) (mset [0..<nat (pt_Shards p)])"
    using trEpochs_result [OF assms, of "[]" "trInit p g" "nat (pt_Epochs p)"] i k by (auto simp: trRun_def)
  moreover have "length new = nat (pt_Epochs p) * nat (pt_Shards p)" using arg_cong [OF r(4), of size] by simp
  ultimately show ?thesis using k(1,3) by (intro exI [of _ st] exI [of _ new]) simp
qed

section \<open>The written trace\<close>

lemma trHeader_targets: "hdr_targets (trHeader p ops tot) = trBuildTargets p"
  by (simp add: trHeader_def)

lemma tr_targets_spec:
  assumes "tr_ok lib p"
  shows "targets_spec 0 (trBuildTargets p)" "\<forall>t \<in> set (trBuildTargets p). wf_target t"
proof -
  note k = tr_okD [OF assms]
  have "0 < pt_Epochs p * pt_Shards p" using k by simp
  then have b: "pt_ShardSize p < 2 ^ 61" "pt_Shards p < 2 ^ 61" using tr_bounds [OF assms, of 0] by simp_all
  show "targets_spec 0 (trBuildTargets p)" unfolding targets_spec_iff using k(2) by (auto simp: trBuildTargets_def)
  show "\<forall>t \<in> set (trBuildTargets p). wf_target t"
    using b k(2) by (auto simp: trBuildTargets_def wf_target_def in64_def target_kind_of_def)
qed

lemma tr_header_ok:
  assumes ok: "tr_ok lib p" and fit: "times_fit st"
    and st: "tr_streams p (trHeader p ops tot) (length hist) st" "tr_ops p hist (allGen st)" "int (length hist) = pt_Epochs p * pt_Shards p"
    and ops: "ops = fileOps (ts_perStream st)" and tot: "tot = ts_totalBytes st"
  defines "hdr \<equiv> trHeader p ops tot"
  shows "header_spec hdr" "wf_header hdr" "ops_spec hdr ops" "summary_spec hdr ops" "\<forall>x \<in> set ops. wf_op x"
    "totalMoved ops = pt_Epochs p * (pt_Shards p * pt_ShardSize p)"
proof -
  note k = tr_okD [OF ok] and inv = tr_streamsD [OF st(1)]
  let ?ps = "ts_perStream st"
  have sok: "streams_ok hdr (ts_nextHandle st) ?ps" using inv(7) [OF fit] by (simp add: hdr_def)
  note m = merged_sessions [OF sok]
  have tot': "tot = pt_Epochs p * (pt_Shards p * pt_ShardSize p)" using inv(4) st(3) by (simp add: tot)
  have "0 < pt_Epochs p * (pt_Shards p * pt_ShardSize p)" using k(1,2,3) by simp
  then have t: "0 < tot" "tot < 2 ^ 61" unfolding tot' using k(8) by blast+
  show "totalMoved ops = pt_Epochs p * (pt_Shards p * pt_ShardSize p)" using m(3) inv(5) tot' by (simp add: ops tot allGen_def)
  have len: "int (length ops) < 2 ^ 63" using inv(6) m(2) t by (simp add: ops tot allGen_def)
  show wf: "\<forall>x \<in> set ops. wf_op x"
    unfolding ops by (rule merged_wf) (use st(2) len m(2) in \<open>auto simp: ops tr_ops_def allGen_def\<close>)
  show "ops_spec hdr ops" using m(1) by (simp add: ops)
  have full: "\<not> isPartialTransfer x" if "x \<in> set ops" for x
    using fileOps_elem [OF that [unfolded ops]] st(2) by (auto simp: tr_ops_def allGen_def isPartialTransfer_def)
  have time: "0 \<le> op_t x" if x: "x \<in> set ops" for x
  proof -
    obtain q y where y: "q \<in> set ?ps" "y \<in> set q" "op_t x = op_t (so_op y)" using fileOps_elem [OF x [unfolded ops]] by auto
    obtain i where i: "i < nat (pt_DataloaderWorkers p)" "q = ?ps ! i" using y(1) inv(1) by (metis in_set_conv_nth)
    have "op_t x \<in> set (map op_t (map so_op (?ps ! i)))" using y i by simp
    then obtain a where a: "a < length (?ps ! i)" "op_t x = tick a" unfolding inv(9) [OF i(1)] by auto
    have "length (?ps ! i) \<le> length (concat ?ps)" using nth_length_concat i(1) inv(1) by metis
    with a(1) fit have "opDeltaNS * int a < 2 ^ 63" by (simp add: times_fit_def allGen_def opDeltaNS_def)
    then show ?thesis unfolding a(2) by (simp add: tick_fits opDeltaNS_def)
  qed
  have dur: "0 \<le> (if ops = [] then 0 else op_t (last ops))" "in64 (if ops = [] then 0 else op_t (last ops))"
    using time wf by (auto simp: in64_def [of 0] wf_op_def)
  have cs: "countStreams ops = int (card (op_s ` set ops))" by (simp add: countStreams_def length_remdups_card_conv)
  have "card (op_s ` set ops) \<le> length ops" by (metis card_length image_set length_map)
  with len have cs': "0 \<le> countStreams ops" "in64 (countStreams ops)" by (simp_all add: cs in64_def)
  show "header_spec hdr"
    using tr_targets_spec(1) [OF ok] dur(1) t cs'
    by (simp add: hdr_def trHeader_def header_spec_def version_defs TimeUnitNanoseconds_def CaptureSynthetic_def)
  have "in64 tot" using t by (simp add: in64_def)
  then show "wf_header hdr"
    using tr_targets_spec(2) [OF ok] dur(2) len cs'(2)
    by (simp add: hdr_def trHeader_def wf_header_def wf_summary_def version_defs in64_def zero_header_def trace_kind_of_def)
  have "filter isPartialTransfer ops = []" using full by (simp add: filter_empty_conv)
  then show "summary_spec hdr ops" by (simp add: hdr_def trHeader_def summary_spec_def cs)
qed

text \<open>The times of the ops of a run do not overflow: a condition on the number of ops.\<close>

definition tr_fits :: "'g rand_lib \<Rightarrow> 'g \<Rightarrow> tr_params \<Rightarrow> bool" where
  "tr_fits lib g p \<longleftrightarrow> (case trRun lib g p of None \<Rightarrow> True | Some st \<Rightarrow> times_fit st)"

lemma noID_mset: "mset (map noID (fileOps ps)) = mset (map noID (map so_op (concat ps)))"
  unfolding fileOps_def noID_renumber by (simp only: mergeAndSort_def mset_map mset_sort)

lemma count_noID:
  assumes "\<And>x. P (noID x) = P x"
  shows "length (filter P (fileOps ps)) = length (filter P (map so_op (concat ps)))"
proof -
  have e: "length (filter P xs) = size (filter_mset P (mset (map noID xs)))" for xs
    using assms by (induction xs) auto
  show ?thesis unfolding e noID_mset ..
qed

lemma tr_generated:
  assumes "tr_ok lib p" "tr_fits lib (seeded (pt_Seed p)) p"
  shows "\<exists>out ops. trGenerate lib seeded (\<lambda>_. True) p = Some (Inr out) \<and> written_as out ops
    \<and> totalMoved ops = pt_Epochs p * (pt_Shards p * pt_ShardSize p)
    \<and> (\<forall>s < nat (pt_Shards p). length (filter (opens_shard (int s)) ops) = nat (pt_Epochs p))
    \<and> (\<forall>h b. 1 \<le> h \<and> h \<le> pt_Epochs p * pt_Shards p \<and> 0 \<le> b \<and> b < pt_ShardSize p \<longrightarrow> length (filter (reads_byte h b) ops) = 1)"
proof -
  obtain st where run: "trRun lib (seeded (pt_Seed p)) p = Some st"
    using trRun_result [OF assms(1), of "trHeader p [] 0" "seeded (pt_Seed p)"] by (auto simp: trHeader_def)
  let ?ops = "fileOps (ts_perStream st)" and ?hdr = "trHeader p (fileOps (ts_perStream st)) (ts_totalBytes st)"
  obtain hist where h: "int (length hist) = pt_Epochs p * pt_Shards p" "tr_streams p ?hdr (length hist) st" "tr_ops p hist (allGen st)"
    "mset hist = repeat_mset (nat (pt_Epochs p)) (mset [0..<nat (pt_Shards p)])"
    using trRun_result [OF assms(1), of ?hdr "seeded (pt_Seed p)"] run by (auto simp: trHeader_def)
  have "times_fit st" using assms(2) run by (simp add: tr_fits_def)
  note H = tr_header_ok [OF assms(1) this h(2,3,1) refl refl]
  obtain out where "writeTrace (\<lambda>_. True) ?hdr ?ops = Inr out" "written_as out ?ops" using written_trace [OF H(1-5)] by blast
  moreover have "length (filter (opens_shard (int s)) ?ops) = nat (pt_Epochs p)" if "s < nat (pt_Shards p)" for s
  proof -
    have "length (filter (\<lambda>i. i = s) hist) = count (mset hist) s" by (induction hist) auto
    also have "\<dots> = nat (pt_Epochs p)" unfolding h(4) using that by (simp add: count_mset_set')
    finally show ?thesis using h(3) count_noID [of "opens_shard (int s)" "ts_perStream st"]
      by (simp add: tr_ops_def allGen_def opens_shard_def noID_def)
  qed
  moreover have "length (filter (reads_byte x b) ?ops) = 1" if "1 \<le> x" "x \<le> pt_Epochs p * pt_Shards p" "0 \<le> b" "b < pt_ShardSize p" for x b
  proof -
    have "length (filter (reads_byte x b) (allGen st)) = 1" using that h(1,3) by (simp add: tr_ops_def)
    moreover have "reads_byte x b (noID y) = reads_byte x b y" for y by (simp add: reads_byte_def noID_def cong: option.case_cong)
    ultimately show ?thesis using count_noID [of "reads_byte x b" "ts_perStream st"] by (simp add: allGen_def)
  qed
  ultimately show ?thesis using H(6) tr_okD(9) [OF assms(1)]
    by (intro exI [of _ out] exI [of _ ?ops]) (simp add: trGenerate_def Let_def run)
qed

section \<open>Properties\<close>


text \<open>A source that always draws sizes of two bytes, and shuffles by exchanging the first two.\<close>

definition sample_lib :: "nat rand_lib" where
  "sample_lib = \<lparr>rl_normFloat64 = (\<lambda>g. (0, Suc g)), rl_shuffle = (\<lambda>n g. (if 2 \<le> n then [(0, 1)] else [], Suc g)),
     rl_log = (\<lambda>_. 0), rl_exp = (\<lambda>_. 2)\<rparr>"

definition sample_reads :: tr_params where
  "sample_reads = \<lparr>pt_Shards = 3, pt_ShardSize = 5, pt_RecordSize = 2, pt_RecordSizeDist = ''lognormal'', pt_Epochs = 2,
     pt_DataloaderWorkers = 2, pt_PrefetchDepth = 0, pt_Shuffle = True, pt_ReadWithinShard = ''random'', pt_Seed = 7, pt_CreatedUTC = []\<rparr>"

lemma sample_reads_ok: "tr_ok sample_lib sample_reads"
  by (simp add: tr_ok_def trValidateParams_def sample_reads_def sample_lib_def in64_def sampler_ok_def shuffle_ok_def mathRound_def)

lemma few_bytes_fit:
  assumes "tr_ok lib p" "3 * opDeltaNS * (pt_Epochs p * (pt_Shards p * pt_ShardSize p)) < 2 ^ 63"
  shows "tr_fits lib g p"
proof -
  note r = trRun_result [OF assms(1) trHeader_targets, of g "[]" 0]
  obtain st and hist :: "nat list" where st: "trRun lib g p = Some st" "int (length hist) = pt_Epochs p * pt_Shards p"
    "tr_streams p (trHeader p [] 0) (length hist) st"
    using r by blast
  then have "int (length (allGen st)) \<le> 3 * (pt_Epochs p * (pt_Shards p * pt_ShardSize p))" using tr_streamsD(4,6) [OF st(3)] by simp
  then have "opDeltaNS * int (length (allGen st)) \<le> 3 * opDeltaNS * (pt_Epochs p * (pt_Shards p * pt_ShardSize p))" by (simp add: opDeltaNS_def mult.commute [of "pt_Shards p"])
  with assms(2) show ?thesis by (simp add: tr_fits_def st(1) times_fit_def)
qed




end
