(* ===== verification/Spec2Isabelle.thy ===== *)
theory Spec2Isabelle
  imports File_Commands Cluster_Server Commands Strace_Valid Dftracer_Valid Checkpoint_Valid Training_Valid
begin

text \<open>
  A verification library for ioflux, a tool that records the I/O of a program as a trace,
  checks and transforms traces, imports the output of other tracers, and replays a trace
  against a storage engine while it measures the latency of every operation.

  Parts of the program and the theories that model them.

  Prelude and Text hold what the components share: signed 64-bit wrap-around (\<open>i64\<close>), Go's
  division, JSON values, the collections of simplification rules, and the parts of Go's strings
  and strconv packages the importers call. Float64 models IEEE doubles as rationals with
  rounding to nearest even.

  The trace format (src/pkg/trace). Trace_Types is types.go: headers, targets, ops, the version
  rules and the JSON codec of each record. Trace_Jsonl is jsonl.go: the line reader and the
  writer; a line of a file is blank, unreadable or a JSON value. Trace_Validate is validate.go,
  the streaming validator with its callback and each of its messages as a constructor.
  Validate_Spec states the format declaratively (\<open>trace_spec\<close>) and shows that the validator
  decides it. Transform is src/pkg/transform/splitreads.go.

  Replay. Payload is src/pkg/payload/payload.go, on 64-bit words. Engine is the interface of
  src/pkg/engine/engine.go as a record of functions over an abstract state, and Mem its
  in-memory implementation (src/pkg/engine/mem/mem.go). Targetmap is
  src/pkg/targetmap/targetmap.go. Object_Write is src/pkg/replay/objectwrite.go. Executor is
  src/pkg/replay/executor.go, the admission of a trace. Metrics is src/pkg/metrics, with the
  histogram library as a parameter and its documented laws as a locale. Dispatch is the part of
  src/pkg/replay/scheduler.go that issues one op, Scheduler the part that runs the streams: a
  step relation whose steps are those of the goroutines.

  After the streams have ended, Run_Report is the rest of scheduler.go: the worker's output (the
  merge of its streams' recorders, the progress samples) and BuildResults, which joins the
  outputs of all workers. Fidelity is src/pkg/fidelity/fidelity.go, Results is results.go and
  csv.go of src/pkg/results, with the atomic file write over a file system whose calls may fail.
  Float64_Order holds the facts about rounding that the fidelity verdict rests on.

  Before a run, Prepare is src/pkg/prepare/prepare.go, the preparation of the data set against any
  engine, with Materialize of executor.go, and Cache is src/pkg/cache with ApplyCache. Paths holds
  the functions of Go's path/filepath package that the containment of targets rests on.

  Storage engines (src/pkg/engine). Beside Mem, Localfile is localfile.go, direct_linux.go and
  pread_unix.go: a table of open files, the resolution of targets inside a root, and the aligned
  transfers of O_DIRECT handles, over the calls of an operating system given as a record of
  functions with its documented behaviour as the laws \<open>regular_files\<close>. S3_Engine is s3.go and
  multipart.go over a client of the AWS SDK, whose documented behaviour is \<open>s3_store\<close>.

  Distributed runs (src/pkg/cluster). Cluster_Wire is plan.go, engine.go's specification and
  convert.go, the conversions between the program's values and the messages of the protocol.
  Cluster_Session is worker.go and BuildEngine, what one worker does to prepare, run and collect.
  Cluster_Run is coordinator.go over workers given as a record of functions; the locale
  \<open>replay_worker\<close> is what the coordinator relies on, and in it the theorem that every op is
  counted once is proved. Cluster_Server is server.go, with its lease, and remote.go; it interprets
  the locale on the worker behind the wire, as Cluster_Run does on the in-process one. gRPC is a
  channel that may refuse a call; the clocks and the way each worker's replay unfolds are
  arguments, the latter restricted to the runs the step relation of Scheduler can reach. Workers
  do not share the state of their engines.

  What is concluded from results (src/pkg/results, src/pkg/calibrate). Compare is compare.go, the
  gate that says whether two runs may be compared. Trials is trials.go, trialcompare.go, paired.go
  and regression.go: the statistics of repeated runs, paired experiments and the regression gate,
  for any implementation of Go's math package. Calibrate is calibrate.go, the attribution of a
  run's timing to its backend. The theorems about the gates bound the effect of rounding, with
  the relative error of a double from Trials.

  Commands (src/cmd/ioflux). Run_Plan is plan.go and expconfig.go, with the host list and the
  size arguments: which settings make a plan, and how an experiment's arms differ. Commands is
  run.go, experiment.go, calibrate.go and report.go from the parsed flags to the exit code, over a
  machine whose file system calls and workers may fail. File_Commands is transform.go, validate.go,
  import.go and gen.go; it shows that whatever a decoder returns can be written again, and with it
  that the transform command never finds its own output invalid.

  Importers (src/pkg/importer). Importer is fdtable.go and build.go, the descriptor table and
  the builder that merges the streams, numbers the ops and validates what it writes.
  Import_Valid shows which builders write a valid trace, Import_Inv the invariant of builder
  and descriptor table that importers keep, and Import_Steps states what an importer has to
  promise as the locale \<open>importer\<close>, in which its validity is proved once. Strace_Scan and Strace
  are scan.go and parse.go of the strace importer, Dftracer is parse.go of the DFTracer
  importer; Strace_Valid and Dftracer_Valid interpret the locale on them.

  Generators (src/pkg/gen). Gen_Common is what both generators share (op building, the merge by
  time, the file's operations), Gen_Checkpoint and Gen_Training the two generators;
  Checkpoint_Valid and Training_Valid show that what they write is a valid trace and which
  reads and writes each stream holds.

  Conventions. Go's int and int64 are \<open>int\<close>; arithmetic on numbers that come from the input is
  wrapped by \<open>i64\<close>, counters of lines and ops are not. Maps are association lists, pointers to
  optional values are options. Errors are sums whose left side names the error, a panic is
  \<open>None\<close>. Loops are recursive functions; the loop of the split-reads transform, which can fail
  to end on extreme inputs, is a partial function whose termination is a theorem.

  Bounds. The splitting of reads is shown to end for offsets and sizes whose sums stay in 64
  bits; outside of them it cycles (\<open>split_counter_cycles\<close>). The importers' theorems assume that
  the numbers read from the source fit the format. No model uses fuel, except the schedule of a
  sample run, which lists its steps.

  Not modelled: what is behind the calls of the operating system and of the AWS SDK (they are
  parameters with laws), process statistics, the code protoc generates for the cluster's
  messages, the digest of a file, the parsing of flags, the tables and messages printed for the
  reader, the worker command, which serves gRPC calls until a signal, the decompression of an
  importer's input, and the text of JSON and YAML documents, which the standard library and
  third-party packages read. Doubles have no infinities and no NaN: the models divide only where
  the code has excluded zero, and no theorem speaks of values beyond the range.
\<close>

end
